(* ===== verification/Prelude.thy ===== *)
theory Prelude
  imports
    Main
    "HOL-Library.AList"
    "HOL-Library.Char_ord"
    "HOL-Library.Code_Target_Numeral"
    "HOL-Library.List_Lexorder"
    "HOL-Library.Product_Lexorder"
    "HOL-Library.Sublist"
    "HOL-Library.Signed_Division"
    "HOL-Library.Multiset"
begin

text \<open>
  The vocabulary of the Rust standard library that every component shares: texts, decimal
  numerals, the two map types and ordered vectors, with the laws the components use.

  Texts. A Rust \<open>str\<close> is a \<open>string\<close>, one \<open>char\<close> per ASCII character. On ASCII text the
  Unicode operations of the code (\<open>trim\<close>, \<open>to_uppercase\<close>, \<open>chars\<close>, \<open>len\<close>) coincide with the
  definitions here; characters from 128 on are left alone by the case maps and are no white
  space, so non-ASCII case mapping is outside the model.

  Maps. A \<open>HashMap\<close> is an association list with distinct keys whose order stands for the
  unspecified iteration order; a \<open>BTreeMap\<close> is an association list in strictly ascending key
  order. Both are used through the laws of the locale \<open>map_interface\<close>.

  Ordered vectors. \<open>insert_at (partition_point ...)\<close> is the insertion every ordered \<open>Vec\<close> of
  the program uses; the locale \<open>ordered_vector\<close> holds its laws.
\<close>

named_theorems text_laws \<open>normal forms of texts\<close>
named_theorems hmap_laws \<open>lookup after an operation on a map\<close>

section \<open>Characters and texts\<close>

definition is_ws :: "char \<Rightarrow> bool" where
  "is_ws c \<longleftrightarrow> (let n = (of_char c :: nat) in (9 \<le> n \<and> n \<le> 13) \<or> n = 32)"

definition is_digit :: "char \<Rightarrow> bool" where
  "is_digit c \<longleftrightarrow> (let n = (of_char c :: nat) in 48 \<le> n \<and> n \<le> 57)"

definition is_upper :: "char \<Rightarrow> bool" where
  "is_upper c \<longleftrightarrow> (let n = (of_char c :: nat) in 65 \<le> n \<and> n \<le> 90)"

definition is_lower :: "char \<Rightarrow> bool" where
  "is_lower c \<longleftrightarrow> (let n = (of_char c :: nat) in 97 \<le> n \<and> n \<le> 122)"

definition is_alpha :: "char \<Rightarrow> bool" where
  "is_alpha c \<longleftrightarrow> is_upper c \<or> is_lower c"

definition is_alnum :: "char \<Rightarrow> bool" where
  "is_alnum c \<longleftrightarrow> is_alpha c \<or> is_digit c"

definition upper_char :: "char \<Rightarrow> char" where
  "upper_char c = (if is_lower c then char_of ((of_char c :: nat) - 32) else c)"

definition lower_char :: "char \<Rightarrow> char" where
  "lower_char c = (if is_upper c then char_of ((of_char c :: nat) + 32) else c)"

abbreviation to_upper :: "string \<Rightarrow> string" where
  "to_upper \<equiv> map upper_char"

abbreviation to_lower :: "string \<Rightarrow> string" where
  "to_lower \<equiv> map lower_char"

definition eq_ignore_case :: "string \<Rightarrow> string \<Rightarrow> bool" where
  "eq_ignore_case s t \<longleftrightarrow> to_lower s = to_lower t"

definition trim_start :: "string \<Rightarrow> string" where
  "trim_start s = dropWhile is_ws s"

definition trim_end :: "string \<Rightarrow> string" where
  "trim_end s = rev (dropWhile is_ws (rev s))"

definition trim :: "string \<Rightarrow> string" where
  "trim s = trim_end (trim_start s)"

lemmas char_class_defs =
  is_ws_def is_digit_def is_upper_def is_lower_def is_alpha_def is_alnum_def Let_def

lemma upper_char_code:
  "(of_char (upper_char c) :: nat) = (if is_lower c then of_char c - 32 else of_char c)"
  by (auto simp: upper_char_def char_class_defs)

lemma upper_char_not_lower [simp]: "\<not> is_lower (upper_char c)"
  using upper_char_code [of c] by (auto simp: char_class_defs split: if_splits)

lemma upper_char_idem [text_laws, simp]: "upper_char (upper_char c) = upper_char c"
  by (simp add: upper_char_def [of "upper_char c"])

lemma upper_char_ws [simp]: "is_ws (upper_char c) = is_ws c"
  using upper_char_code [of c] by (auto simp: char_class_defs split: if_splits)

lemma upper_char_digit [simp]: "is_digit (upper_char c) = is_digit c"
  using upper_char_code [of c] by (auto simp: char_class_defs split: if_splits)

lemma upper_char_fixed: "is_upper c \<or> is_digit c \<Longrightarrow> upper_char c = c"
  by (auto simp: upper_char_def char_class_defs)

lemma to_upper_idem [text_laws, simp]: "to_upper (to_upper s) = to_upper s"
  by simp

lemma dropWhile_ws_upper: "dropWhile is_ws (to_upper s) = to_upper (dropWhile is_ws s)"
  by (induction s) auto

lemma trim_to_upper [text_laws]: "trim (to_upper s) = to_upper (trim s)"
  by (simp add: trim_def trim_start_def trim_end_def dropWhile_ws_upper rev_map)

lemma dropWhile_rev_dropWhile:
  assumes "s \<noteq> [] \<Longrightarrow> \<not> P (hd s)"
  shows "rev (dropWhile P (rev s)) \<noteq> [] \<Longrightarrow> \<not> P (hd (rev (dropWhile P (rev s))))"
proof -
  assume ne: "rev (dropWhile P (rev s)) \<noteq> []"
  obtain pre where pre: "rev s = pre @ dropWhile P (rev s)"
    by (metis takeWhile_dropWhile_id)
  then have "s = rev (dropWhile P (rev s)) @ rev pre"
    by (metis rev_append rev_rev_ident)
  with ne have "hd s = hd (rev (dropWhile P (rev s)))" and "s \<noteq> []"
    by (metis hd_append2, auto)
  with assms show "\<not> P (hd (rev (dropWhile P (rev s))))" by simp
qed

lemma trim_start_fixed: "s = [] \<or> \<not> is_ws (hd s) \<Longrightarrow> trim_start s = s"
  by (cases s) (auto simp: trim_start_def)

lemma trim_end_fixed: "s = [] \<or> \<not> is_ws (last s) \<Longrightarrow> trim_end s = s"
  by (cases s rule: rev_cases) (auto simp: trim_end_def)

lemma trim_hd: "trim s \<noteq> [] \<Longrightarrow> \<not> is_ws (hd (trim s))"
  unfolding trim_def trim_end_def
  by (rule dropWhile_rev_dropWhile) (auto simp: trim_start_def hd_dropWhile)

lemma trim_last: "trim s \<noteq> [] \<Longrightarrow> \<not> is_ws (last (trim s))"
  unfolding trim_def trim_end_def by (auto simp: last_rev hd_dropWhile)

lemma trim_fixed:
  "s = [] \<or> \<not> is_ws (hd s) \<and> \<not> is_ws (last s) \<Longrightarrow> trim s = s"
  unfolding trim_def using trim_start_fixed [of s] trim_end_fixed [of s] by auto

lemma trim_idem [text_laws, simp]: "trim (trim s) = trim s"
  by (rule trim_fixed) (use trim_hd trim_last in blast)

lemma set_trim: "set (trim s) \<subseteq> set s"
  unfolding trim_def trim_start_def trim_end_def
  by (auto dest!: set_dropWhileD)

lemma trim_no_ws: "\<forall>c\<in>set s. \<not> is_ws c \<Longrightarrow> trim s = s"
  by (rule trim_fixed) (cases s, auto)

lemma trim_Nil [simp]: "trim [] = []"
  by (simp add: trim_def trim_start_def trim_end_def)

section \<open>Splitting and joining\<close>

text \<open>\<open>str::split\<close> by a character, \<open>str::split_once\<close> and \<open>[String]::join\<close>.\<close>

fun split_on :: "char \<Rightarrow> string \<Rightarrow> string list" where
  "split_on d [] = [[]]"
| "split_on d (c # cs) =
     (if c = d then [] # split_on d cs
      else (case split_on d cs of [] \<Rightarrow> [[c]] | w # ws \<Rightarrow> (c # w) # ws))"

fun split_once :: "char \<Rightarrow> string \<Rightarrow> (string \<times> string) option" where
  "split_once d [] = None"
| "split_once d (c # cs) =
     (if c = d then Some ([], cs)
      else map_option (\<lambda>(a, b). (c # a, b)) (split_once d cs))"

fun join_with :: "string \<Rightarrow> string list \<Rightarrow> string" where
  "join_with sep [] = []"
| "join_with sep [w] = w"
| "join_with sep (w # ws) = w @ sep @ join_with sep ws"

lemma split_on_ne [simp]: "split_on d s \<noteq> []"
  by (induction s) (auto split: list.splits)

lemma split_on_none: "d \<notin> set s \<Longrightarrow> split_on d s = [s]"
  by (induction s) auto

lemma split_on_append:
  "d \<notin> set a \<Longrightarrow> split_on d (a @ d # b) = a # split_on d b"
  by (induction a) auto

lemma split_on_free: "w \<in> set (split_on d s) \<Longrightarrow> d \<notin> set w"
proof (induction s arbitrary: w)
  case Nil
  then show ?case by simp
next
  case (Cons c s)
  then show ?case
    by (cases "split_on d s") (auto split: if_splits)
qed

lemma split_once_Some:
  "split_once d s = Some (a, b) \<longleftrightarrow> s = a @ d # b \<and> d \<notin> set a"
proof (induction s arbitrary: a)
  case Nil
  then show ?case by simp
next
  case (Cons c s)
  show ?case
    by (cases a) (auto simp: Cons)
qed

lemma split_once_None: "split_once d s = None \<longleftrightarrow> d \<notin> set s"
  by (induction s) auto

section \<open>Decimal numerals\<close>

text \<open>
  \<open>str::parse\<close> for the integer types: an optional sign, at least one digit, and the value in
  range; \<open>to_string\<close> and the zero-padded \<open>{:0w}\<close> of \<open>format!\<close>.
\<close>

definition digit_val :: "char \<Rightarrow> nat" where
  "digit_val c = of_char c - 48"

definition digit_char :: "nat \<Rightarrow> char" where
  "digit_char n = char_of (48 + n)"

definition dec_value :: "string \<Rightarrow> nat" where
  "dec_value s = foldl (\<lambda>a c. 10 * a + digit_val c) 0 s"

definition digits_only :: "string \<Rightarrow> bool" where
  "digits_only s \<longleftrightarrow> s \<noteq> [] \<and> list_all is_digit s"

definition parse_unsigned :: "nat \<Rightarrow> string \<Rightarrow> nat option" where
  "parse_unsigned bits s =
     (let t = (if prefix ''+'' s then tl s else s)
      in if digits_only t \<and> dec_value t < 2 ^ bits then Some (dec_value t) else None)"

definition parse_signed :: "nat \<Rightarrow> string \<Rightarrow> int option" where
  "parse_signed bits s =
     (let neg = prefix ''-'' s;
          t = (if prefix ''+'' s \<or> neg then tl s else s);
          v = (if neg then - int (dec_value t) else int (dec_value t))
      in if digits_only t \<and> - (2 ^ (bits - 1)) \<le> v \<and> v < 2 ^ (bits - 1)
         then Some v else None)"

fun dec_string :: "nat \<Rightarrow> string" where
  "dec_string n =
     (if n < 10 then [digit_char n] else dec_string (n div 10) @ [digit_char (n mod 10)])"

declare dec_string.simps [simp del]

definition int_string :: "int \<Rightarrow> string" where
  "int_string i = (if i < 0 then CHR ''-'' # dec_string (nat (- i)) else dec_string (nat i))"

definition zero_padded :: "nat \<Rightarrow> int \<Rightarrow> string" where
  "zero_padded w i =
     (if i < 0
      then CHR ''-'' # (let d = dec_string (nat (- i)) in replicate (w - 1 - length d) CHR ''0'' @ d)
      else (let d = dec_string (nat i) in replicate (w - length d) CHR ''0'' @ d))"

lemma digit_char_digit [simp]: "n < 10 \<Longrightarrow> is_digit (digit_char n)"
  by (simp add: is_digit_def digit_char_def)

lemma digit_val_char [simp]: "n < 10 \<Longrightarrow> digit_val (digit_char n) = n"
  by (simp add: digit_val_def digit_char_def)

lemma dec_value_snoc: "dec_value (s @ [c]) = 10 * dec_value s + digit_val c"
  by (simp add: dec_value_def)

lemma dec_value_zeros [simp]: "dec_value (replicate k CHR ''0'' @ s) = dec_value s"
  by (induction k) (auto simp: dec_value_def digit_val_def)

lemma dec_string_value [simp]: "dec_value (dec_string n) = n"
proof (induction n rule: dec_string.induct)
  case (1 n)
  show ?case
    by (subst dec_string.simps) (auto simp: dec_value_snoc 1, simp add: dec_value_def)
qed

lemma dec_string_digits [simp]: "list_all is_digit (dec_string n)"
proof (induction n rule: dec_string.induct)
  case (1 n)
  then show ?case by (subst dec_string.simps) auto
qed

lemma dec_string_ne [simp]: "dec_string n \<noteq> []"
  by (subst dec_string.simps) simp

lemma digits_only_dec_string [simp]: "digits_only (dec_string n)"
  by (simp add: digits_only_def)

lemma digit_zero [simp]: "is_digit CHR ''0''"
  by (simp add: is_digit_def)

lemma dec_string_length: "n < 10 ^ k \<Longrightarrow> 0 < k \<Longrightarrow> length (dec_string n) \<le> k"
proof (induction n arbitrary: k rule: dec_string.induct)
  case (1 n)
  show ?case
  proof (cases "n < 10")
    case True
    with 1 show ?thesis by (simp add: dec_string.simps)
  next
    case False
    obtain j where j: "k = Suc j" using \<open>0 < k\<close> by (cases k) auto
    with False \<open>n < 10 ^ k\<close> have "0 < j" by (cases j) auto
    moreover have "n div 10 < 10 ^ j"
      using \<open>n < 10 ^ k\<close> j by (simp add: less_mult_imp_div_less mult.commute)
    ultimately show ?thesis
      using 1(1) [of j] False j by (simp add: dec_string.simps [of n])
  qed
qed

lemma digits_not_sign: "is_digit c \<Longrightarrow> c \<noteq> CHR ''+'' \<and> c \<noteq> CHR ''-''"
  by (auto simp: is_digit_def)

lemma parse_signed_digits:
  assumes "digits_only s" and "int (dec_value s) < 2 ^ (bits - 1)"
  shows "parse_signed bits s = Some (int (dec_value s))"
proof -
  obtain c t where s: "s = c # t" and c: "is_digit c"
    using assms(1) by (cases s) (auto simp: digits_only_def)
  with assms digits_not_sign [OF c] show ?thesis
    by (auto simp: parse_signed_def Let_def intro: order_trans [of _ 0])
qed

lemma parse_unsigned_digits:
  assumes "digits_only s" and "dec_value s < 2 ^ bits"
  shows "parse_unsigned bits s = Some (dec_value s)"
proof -
  obtain c t where s: "s = c # t" and c: "is_digit c"
    using assms(1) by (cases s) (auto simp: digits_only_def)
  with assms digits_not_sign [OF c] show ?thesis
    by (auto simp: parse_unsigned_def Let_def)
qed

lemma parse_unsigned_bound: "parse_unsigned bits s = Some n \<Longrightarrow> n < 2 ^ bits"
  by (auto simp: parse_unsigned_def Let_def split: if_splits)

lemma zero_padded_nonneg:
  assumes "0 \<le> i" and "i < 10 ^ w" and "0 < w"
  shows "length (zero_padded w i) = w" and "list_all is_digit (zero_padded w i)"
    and "int (dec_value (zero_padded w i)) = i"
proof -
  have "nat i < 10 ^ w"
    using assms by (metis nat_less_iff of_nat_numeral of_nat_power)
  then have "length (dec_string (nat i)) \<le> w"
    using assms(3) by (rule dec_string_length)
  with assms(1) show "length (zero_padded w i) = w" and "list_all is_digit (zero_padded w i)"
    and "int (dec_value (zero_padded w i)) = i"
    using dec_string_digits [of "nat i"]
    by (auto simp: zero_padded_def Let_def list_all_iff)
qed

section \<open>64-bit integers\<close>

text \<open>
  \<open>i64\<close> values are integers in range; \<open>checked_i64\<close> is the outcome of a \<open>checked_\<close> operation,
  \<open>wrap_i64\<close> the reinterpretation of a \<open>u64\<close> by \<open>as i64\<close>.
\<close>

definition i64_max :: int where "i64_max = 9223372036854775807"
definition i64_min :: int where "i64_min = - 9223372036854775808"
definition u64_max :: nat where "u64_max = 18446744073709551615"

definition wrap_i64 :: "int \<Rightarrow> int" where
  "wrap_i64 i = (i + 9223372036854775808) mod 18446744073709551616 - 9223372036854775808"

lemma wrap_i64_id: "i64_min \<le> i \<Longrightarrow> i \<le> i64_max \<Longrightarrow> wrap_i64 i = i"
  by (simp add: wrap_i64_def i64_min_def i64_max_def)

lemma wrap_i64_code [code]:
  "wrap_i64 i = (if i64_min \<le> i \<and> i \<le> i64_max then i
     else (i + 9223372036854775808) mod 18446744073709551616 - 9223372036854775808)"
  by (simp add: wrap_i64_id) (simp add: wrap_i64_def)

definition checked_i64 :: "int \<Rightarrow> int option" where
  "checked_i64 i = (if i64_min \<le> i \<and> i \<le> i64_max then Some i else None)"

section \<open>Texts of floating point numbers\<close>

text \<open>
  The modelled code stores \<open>f64\<close> values and never computes with them: a value is the text it was
  parsed from. \<open>is_f64_text\<close> is the grammar \<open>str::parse::<f64>\<close> accepts.
\<close>

definition is_f64_digits :: "string \<Rightarrow> bool" where
  "is_f64_digits mantissa =
     (let (a, b) = (case split_once CHR ''.'' mantissa of None \<Rightarrow> (mantissa, []) | Some p \<Rightarrow> p)
      in list_all is_digit a \<and> list_all is_digit b \<and> a @ b \<noteq> [])"

definition is_f64_text :: "string \<Rightarrow> bool" where
  "is_f64_text text =
     (let t = (if prefix ''+'' text \<or> prefix ''-'' text then tl text else text);
          not_e = (\<lambda>c. c \<noteq> CHR ''e'' \<and> c \<noteq> CHR ''E'');
          expo = dropWhile not_e t
      in to_lower t \<in> {''inf'', ''infinity'', ''nan''}
         \<or> is_f64_digits (takeWhile not_e t)
           \<and> (case expo of
                [] \<Rightarrow> True
              | _ # e \<Rightarrow> digits_only (if prefix ''+'' e \<or> prefix ''-'' e then tl e else e)))"

section \<open>Maps\<close>

text \<open>
  What the code relies on of \<open>HashMap\<close> and \<open>BTreeMap\<close>: \<open>get\<close>, \<open>insert\<close> and \<open>remove\<close>, for maps
  built by them (\<open>ok\<close>).
\<close>

locale map_interface =
  fixes get :: "'m \<Rightarrow> 'k \<Rightarrow> 'v option"
    and put :: "'k \<Rightarrow> 'v \<Rightarrow> 'm \<Rightarrow> 'm"
    and remove :: "'k \<Rightarrow> 'm \<Rightarrow> 'm"
    and new :: "'m"
    and ok :: "'m \<Rightarrow> bool"
  assumes get_new: "get new k = None"
    and get_put: "ok m \<Longrightarrow> get (put k v m) = (get m)(k \<mapsto> v)"
    and get_remove: "ok m \<Longrightarrow> get (remove k m) = (get m)(k := None)"
    and ok_new: "ok new"
    and ok_put: "ok m \<Longrightarrow> ok (put k v m)"
    and ok_remove: "ok m \<Longrightarrow> ok (remove k m)"
begin

lemma get_put_same: "ok m \<Longrightarrow> get (put k v m) k = Some v"
  by (simp add: get_put)

lemma get_put_other: "ok m \<Longrightarrow> k \<noteq> l \<Longrightarrow> get (put k v m) l = get m l"
  by (simp add: get_put)

lemma put_remove: "ok m \<Longrightarrow> get m k = None \<Longrightarrow> get (remove k (put k v m)) = get m"
  by (simp add: get_put get_remove ok_put fun_upd_idem)

lemma dom_put: "ok m \<Longrightarrow> dom (get (put k v m)) = insert k (dom (get m))"
  by (simp add: get_put)

lemma dom_remove: "ok m \<Longrightarrow> dom (get (remove k m)) = dom (get m) - {k}"
  by (simp add: get_remove)

end

type_synonym ('k, 'v) hmap = "('k \<times> 'v) list"

abbreviation hm_get :: "('k, 'v) hmap \<Rightarrow> 'k \<Rightarrow> 'v option" where
  "hm_get \<equiv> map_of"

definition hm_put :: "'k \<Rightarrow> 'v \<Rightarrow> ('k, 'v) hmap \<Rightarrow> ('k, 'v) hmap" where
  "hm_put k v m = AList.update k v m"

definition hm_remove :: "'k \<Rightarrow> ('k, 'v) hmap \<Rightarrow> ('k, 'v) hmap" where
  "hm_remove k m = AList.delete k m"

definition hm_ok :: "('k, 'v) hmap \<Rightarrow> bool" where
  "hm_ok m \<longleftrightarrow> distinct (map fst m)"

interpretation hm: map_interface hm_get hm_put hm_remove "[]" hm_ok
  by unfold_locales
    (auto simp: hm_put_def hm_remove_def hm_ok_def update_conv' delete_conv'
      intro: distinct_update distinct_delete)

lemmas hm_defs = hm_put_def hm_remove_def

lemma hm_get_put [hmap_laws]: "hm_get (hm_put k v m) l = (if l = k then Some v else hm_get m l)"
  by (simp add: hm_defs update_conv')

lemma hm_get_remove [hmap_laws]: "hm_get (hm_remove k m) l = (if l = k then None else hm_get m l)"
  by (simp add: hm_defs delete_conv')

text \<open>\<open>retain\<close> keeps the entries a predicate accepts.\<close>

definition hm_retain :: "('k \<Rightarrow> 'v \<Rightarrow> bool) \<Rightarrow> ('k, 'v) hmap \<Rightarrow> ('k, 'v) hmap" where
  "hm_retain P m = filter (\<lambda>(k, v). P k v) m"

lemma hm_ok_retain: "hm_ok m \<Longrightarrow> hm_ok (hm_retain P m)"
  by (induction m) (auto simp: hm_ok_def hm_retain_def)

lemma hm_get_retain [hmap_laws]:
  "hm_ok m \<Longrightarrow>
    hm_get (hm_retain P m) k =
      (case hm_get m k of None \<Rightarrow> None | Some v \<Rightarrow> if P k v then Some v else None)"
proof (induction m)
  case Nil
  then show ?case by (simp add: hm_retain_def)
next
  case (Cons a m)
  then have "hm_get m (fst a) = None"
    by (auto simp: hm_ok_def map_of_eq_None_iff)
  with Cons show ?case
    by (cases a) (auto simp: hm_ok_def hm_retain_def split: option.splits)
qed

fun bt_put :: "'k::linorder \<Rightarrow> 'v \<Rightarrow> ('k \<times> 'v) list \<Rightarrow> ('k \<times> 'v) list" where
  "bt_put k v [] = [(k, v)]"
| "bt_put k v ((l, w) # m) =
     (if k < l then (k, v) # (l, w) # m
      else if k = l then (k, v) # m
      else (l, w) # bt_put k v m)"

definition bt_remove :: "'k \<Rightarrow> ('k \<times> 'v) list \<Rightarrow> ('k \<times> 'v) list" where
  "bt_remove k m = filter (\<lambda>e. fst e \<noteq> k) m"

definition bt_ok :: "('k::linorder \<times> 'v) list \<Rightarrow> bool" where
  "bt_ok m \<longleftrightarrow> sorted_wrt (<) (map fst m)"

lemma set_bt_put: "set (map fst (bt_put k v m)) = insert k (set (map fst m))"
  by (induction m rule: bt_put.induct) auto

lemma bt_ok_put: "bt_ok m \<Longrightarrow> bt_ok (bt_put k v m)"
proof (induction k v m rule: bt_put.induct)
  case (2 k v l w m)
  then show ?case
    using set_bt_put [of k v m] by (auto simp: bt_ok_def)
qed (simp add: bt_ok_def)

lemma bt_get_put [hmap_laws]: "map_of (bt_put k v m) l = (if l = k then Some v else map_of m l)"
  by (induction k v m rule: bt_put.induct) auto

lemma bt_get_remove [hmap_laws]: "map_of (bt_remove k m) l = (if l = k then None else map_of m l)"
  by (induction m) (auto simp: bt_remove_def)

lemma bt_ok_remove: "bt_ok m \<Longrightarrow> bt_ok (bt_remove k m)"
  unfolding bt_ok_def bt_remove_def
  by (induction m) auto

interpretation bt: map_interface map_of bt_put bt_remove "[]" bt_ok
  by unfold_locales (auto simp: hmap_laws bt_ok_put bt_ok_remove fun_eq_iff, simp add: bt_ok_def)

lemma bt_ok_distinct: "bt_ok m \<Longrightarrow> distinct (map fst m)"
  by (simp add: bt_ok_def strict_sorted_iff)

section \<open>Ordered vectors\<close>

text \<open>
  The binary search of the standard library: \<open>search_base P xs base width\<close> halves the range until
  one index is left, moving the base to the middle where \<open>P\<close> holds. \<open>search_index is_less not_greater\<close>
  is \<open>binary_search_by(..).unwrap_or_else(|i| i)\<close> for the comparison with these two tests, and
  \<open>partition_point\<close> the case of one predicate. On a slice the predicate partitions it is the
  length of the first part (\<open>partition_point_takeWhile\<close>); on other slices the documentation leaves
  the result open, and this is what the algorithm answers. \<open>position\<close> is \<open>Iterator::position\<close>,
  \<open>insert_at\<close> and \<open>remove_at\<close> are \<open>Vec::insert\<close> and \<open>Vec::remove\<close> at an index in range.
\<close>

fun search_base :: "('a \<Rightarrow> bool) \<Rightarrow> 'a list \<Rightarrow> nat \<Rightarrow> nat \<Rightarrow> nat" where
  "search_base P xs base width =
     (if width \<le> 1 then base
      else let half = width div 2; mid = base + half
           in search_base P xs (if P (xs ! mid) then mid else base) (width - half))"

declare search_base.simps [simp del]

definition search_index :: "('a \<Rightarrow> bool) \<Rightarrow> ('a \<Rightarrow> bool) \<Rightarrow> 'a list \<Rightarrow> nat" where
  "search_index is_less not_greater xs =
     (if xs = [] then 0
      else let base = search_base not_greater xs 0 (length xs)
           in if is_less (xs ! base) then base + 1 else base)"

definition partition_point :: "('a \<Rightarrow> bool) \<Rightarrow> 'a list \<Rightarrow> nat" where
  "partition_point P xs = search_index P P xs"

definition position :: "('a \<Rightarrow> bool) \<Rightarrow> 'a list \<Rightarrow> nat option" where
  "position P xs =
     (let i = length (takeWhile (\<lambda>x. \<not> P x) xs) in if i < length xs then Some i else None)"

definition insert_at :: "nat \<Rightarrow> 'a \<Rightarrow> 'a list \<Rightarrow> 'a list" where
  "insert_at i x xs = take i xs @ x # drop i xs"

definition remove_at :: "nat \<Rightarrow> 'a list \<Rightarrow> 'a list" where
  "remove_at i xs = take i xs @ drop (Suc i) xs"

lemma position_None: "position P xs = None \<longleftrightarrow> (\<forall>x\<in>set xs. \<not> P x)"
  unfolding position_def Let_def
  by (induction xs) auto

lemma position_Cons:
  "position P (x # xs) = (if P x then Some 0 else map_option Suc (position P xs))"
  by (simp add: position_def Let_def)

lemma position_Nil [simp]: "position P [] = None"
  by (simp add: position_def)

lemma position_Some:
  "position P xs = Some i \<Longrightarrow> i < length xs \<and> P (xs ! i) \<and> (\<forall>j<i. \<not> P (xs ! j))"
proof (induction xs arbitrary: i)
  case Nil
  then show ?case by simp
next
  case (Cons x xs)
  then show ?case
    by (auto simp: position_Cons nth_Cons split: if_splits nat.splits)
qed

lemma mset_insert_at [simp]: "mset (insert_at i x xs) = add_mset x (mset xs)"
proof -
  have "mset (insert_at i x xs) = add_mset x (mset (take i xs @ drop i xs))"
    unfolding insert_at_def mset_append by simp
  also have "mset (take i xs @ drop i xs) = mset xs" by (simp only: append_take_drop_id)
  finally show ?thesis .
qed

lemma set_insert_at [simp]: "set (insert_at i x xs) = insert x (set xs)"
  using mset_insert_at [of i x xs] by (metis set_mset_add_mset_insert set_mset_mset)

lemma length_insert_at [simp]: "length (insert_at i x xs) = Suc (length xs)"
  using mset_insert_at [of i x xs] by (metis size_add_mset size_mset)

lemma map_insert_at: "map f (insert_at i x xs) = insert_at i (f x) (map f xs)"
  by (simp add: insert_at_def take_map drop_map)

lemma map_remove_at: "map f (remove_at i xs) = remove_at i (map f xs)"
  by (simp add: remove_at_def take_map drop_map)

text \<open>The invariant of the search: nothing from the end of the range on satisfies the predicate.\<close>

lemma search_base_spec:
  assumes part: "\<And>i j. i < j \<Longrightarrow> j < length xs \<Longrightarrow> P (xs ! j) \<Longrightarrow> P (xs ! i)"
    and "1 \<le> width" and "base + width \<le> length xs" and "base = 0 \<or> P (xs ! base)"
    and "\<forall>j. base + width \<le> j \<longrightarrow> j < length xs \<longrightarrow> \<not> P (xs ! j)"
  shows "search_base P xs base width < length xs
    \<and> (search_base P xs base width = 0 \<or> P (xs ! search_base P xs base width))
    \<and> (\<forall>j. search_base P xs base width < j \<longrightarrow> j < length xs \<longrightarrow> \<not> P (xs ! j))"
  using assms(2-5)
proof (induction width arbitrary: base rule: less_induct)
  case (less width)
  show ?case
  proof (cases "width \<le> 1")
    case True
    then have "width = 1" using less.prems(1) by simp
    then show ?thesis using less.prems by (auto simp: search_base.simps [of P xs base])
  next
    case False
    define half where "half = width div 2"
    have half: "1 \<le> half" "half < width" "half \<le> width - half" using False by (auto simp: half_def)
    have eq: "search_base P xs base width = search_base P xs (if P (xs ! (base + half)) then base + half else base) (width - half)"
      using False by (subst search_base.simps) (simp add: Let_def half_def)
    let ?good = "\<lambda>b. b < length xs \<and> (b = 0 \<or> P (xs ! b)) \<and> (\<forall>j. b < j \<longrightarrow> j < length xs \<longrightarrow> \<not> P (xs ! j))"
    have less': "width - half < width" "1 \<le> width - half" using half by simp_all
    show ?thesis
    proof (cases "P (xs ! (base + half))")
      case True
      have "?good (search_base P xs (base + half) (width - half))"
      proof (rule less.IH [OF less'])
        show "base + half + (width - half) \<le> length xs" using less.prems(2) half by simp
        show "base + half = 0 \<or> P (xs ! (base + half))" using True by blast
        show "\<forall>j. base + half + (width - half) \<le> j \<longrightarrow> j < length xs \<longrightarrow> \<not> P (xs ! j)"
          using less.prems(4) half by simp
      qed
      then show ?thesis using eq True by simp
    next
      case False
      have "?good (search_base P xs base (width - half))"
      proof (rule less.IH [OF less'])
        show "base + (width - half) \<le> length xs" using less.prems(2) by simp
        show "base = 0 \<or> P (xs ! base)" by (rule less.prems(3))
        show "\<forall>j. base + (width - half) \<le> j \<longrightarrow> j < length xs \<longrightarrow> \<not> P (xs ! j)"
        proof (intro allI impI)
          fix j assume j: "base + (width - half) \<le> j" "j < length xs"
          then have "base + half \<le> j" using half(3) by linarith
          then have "j = base + half \<or> base + half < j" by linarith
          then show "\<not> P (xs ! j)" using False part [of "base + half" j] j(2) by blast
        qed
      qed
      then show ?thesis using eq False by simp
    qed
  qed
qed

lemma length_takeWhile_unique:
  assumes "n \<le> length xs" and "\<forall>i<n. P (xs ! i)" and "n < length xs \<Longrightarrow> \<not> P (xs ! n)"
  shows "length (takeWhile P xs) = n"
proof -
  have "takeWhile P xs = take n xs"
    by (rule takeWhile_eq_take_P_nth) (use assms in auto)
  then show ?thesis using assms(1) by simp
qed

lemma search_index_takeWhile:
  assumes part: "\<And>i j. i < j \<Longrightarrow> j < length xs \<Longrightarrow> P (xs ! j) \<Longrightarrow> P (xs ! i)"
    and "\<forall>x\<in>set xs. Q x \<longleftrightarrow> P x"
  shows "search_index Q P xs = length (takeWhile P xs)"
proof (cases "xs = []")
  case False
  define b where "b = search_base P xs 0 (length xs)"
  have pos: "1 \<le> length xs" using False by (cases xs) simp_all
  have "b < length xs \<and> (b = 0 \<or> P (xs ! b)) \<and> (\<forall>j. b < j \<longrightarrow> j < length xs \<longrightarrow> \<not> P (xs ! j))"
    unfolding b_def
  proof (rule search_base_spec)
    show "P (xs ! i)" if "i < j" "j < length xs" "P (xs ! j)" for i j using that by (rule part)
    show "1 \<le> length xs" by (rule pos)
    show "\<forall>j. 0 + length xs \<le> j \<longrightarrow> j < length xs \<longrightarrow> \<not> P (xs ! j)" by simp
  qed simp_all
  then have b: "b < length xs" "b = 0 \<or> P (xs ! b)" "\<forall>j. b < j \<longrightarrow> j < length xs \<longrightarrow> \<not> P (xs ! j)"
    by blast+
  have q: "Q (xs ! b) = P (xs ! b)" using assms(2) b(1) by simp
  have before: "P (xs ! i)" if "i < b" for i
    using that b(1,2) part [of i b] by blast
  have "length (takeWhile P xs) = (if P (xs ! b) then b + 1 else b)"
    by (rule length_takeWhile_unique) (use b before in \<open>auto simp: less_Suc_eq\<close>)
  then show ?thesis using False q by (simp add: search_index_def b_def)
qed (simp add: search_index_def)

lemma partition_point_takeWhile:
  "(\<And>i j. i < j \<Longrightarrow> j < length xs \<Longrightarrow> P (xs ! j) \<Longrightarrow> P (xs ! i)) \<Longrightarrow>
     partition_point P xs = length (takeWhile P xs)"
  unfolding partition_point_def by (rule search_index_takeWhile) simp_all

locale ordered_vector =
  fixes le :: "'a \<Rightarrow> 'a \<Rightarrow> bool"
  assumes le_total: "le x y \<or> le y x"
    and le_trans: "le x y \<Longrightarrow> le y z \<Longrightarrow> le x z"
begin

definition ordered :: "'a list \<Rightarrow> bool" where
  "ordered xs = sorted_wrt le xs"

lemma ordered_Nil: "ordered []"
  by (simp add: ordered_def)

lemma ordered_Cons: "ordered (a # xs) \<longleftrightarrow> (\<forall>x\<in>set xs. le a x) \<and> ordered xs"
  by (simp add: ordered_def)

definition down_closed :: "('a \<Rightarrow> bool) \<Rightarrow> bool" where
  "down_closed P = (\<forall>x y. le x y \<longrightarrow> P y \<longrightarrow> P x)"

lemma down_closedD: "down_closed P \<Longrightarrow> le x y \<Longrightarrow> P y \<Longrightarrow> P x"
  by (simp add: down_closed_def)

lemma partitioned:
  assumes "ordered xs" and "down_closed P"
  shows "\<forall>x\<in>set (dropWhile P xs). \<not> P x"
  using assms(1)
proof (induction xs)
  case Nil
  then show ?case by simp
next
  case (Cons a xs)
  have tail: "ordered xs" and first: "\<forall>x\<in>set xs. le a x"
    using Cons.prems by (simp_all add: ordered_Cons)
  show ?case
  proof (cases "P a")
    case True
    then have "dropWhile P (a # xs) = dropWhile P xs" by simp
    then show ?thesis using Cons.IH [OF tail] by (simp only:)
  next
    case False
    then have "\<not> P x" if "x \<in> set xs" for x
      using bspec [OF first that] assms(2) unfolding down_closed_def by blast
    with False show ?thesis by simp
  qed
qed

lemma filter_takeWhile:
  assumes "ordered xs" and "down_closed P"
  shows "filter P xs = takeWhile P xs"
proof -
  have "filter P (dropWhile P xs) = []"
    using partitioned [OF assms] by (simp add: filter_empty_conv)
  moreover have "filter P (takeWhile P xs) = takeWhile P xs"
    by (auto simp: filter_id_conv dest: set_takeWhileD)
  ultimately show ?thesis
    by (metis append_Nil2 filter_append takeWhile_dropWhile_id)
qed

lemma partition_point_ordered:
  assumes "ordered xs" and "down_closed P"
  shows "partition_point P xs = length (takeWhile P xs)"
proof (rule partition_point_takeWhile)
  fix i j assume ij: "i < j" "j < length xs" and p: "P (xs ! j)"
  have "le (xs ! i) (xs ! j)" using assms(1) ij by (simp add: ordered_def sorted_wrt_nth_less)
  then show "P (xs ! i)" using p assms(2) unfolding down_closed_def by blast
qed

lemma insert_ordered:
  assumes "ordered xs"
  shows "ordered (insert_at (partition_point (\<lambda>y. le y x) xs) x xs)"
proof -
  have closed: "down_closed (\<lambda>y. le y x)"
    unfolding down_closed_def by (blast intro: le_trans)
  have split: "take (partition_point (\<lambda>y. le y x) xs) xs = takeWhile (\<lambda>y. le y x) xs"
    "drop (partition_point (\<lambda>y. le y x) xs) xs = dropWhile (\<lambda>y. le y x) xs"
    unfolding partition_point_ordered [OF assms closed]
    by (simp_all flip: takeWhile_eq_take dropWhile_eq_drop)
  from partitioned [OF assms closed]
  have after: "\<forall>y\<in>set (dropWhile (\<lambda>y. le y x) xs). le x y"
    using le_total by blast
  have before: "\<forall>y\<in>set (takeWhile (\<lambda>y. le y x) xs). le y x"
    by (auto dest: set_takeWhileD)
  have "sorted_wrt le (takeWhile (\<lambda>y. le y x) xs @ dropWhile (\<lambda>y. le y x) xs)"
    using assms by (simp add: ordered_def)
  then have "sorted_wrt le (takeWhile (\<lambda>y. le y x) xs @ x # dropWhile (\<lambda>y. le y x) xs)"
    unfolding sorted_wrt_append sorted_wrt.simps list.set ball_simps
    using after before by blast
  then show ?thesis
    by (simp only: ordered_def insert_at_def split)
qed

lemma filter_ordered: "ordered xs \<Longrightarrow> ordered (filter P xs)"
  by (simp add: ordered_def sorted_wrt_filter)

lemma remove_ordered:
  assumes "ordered xs"
  shows "ordered (remove_at i xs)"
proof -
  have "sorted_wrt le (take i xs @ drop i xs)"
    using assms by (simp add: ordered_def)
  then show ?thesis
    using set_drop_subset_set_drop [of i "Suc i" xs] assms
    unfolding ordered_def remove_at_def sorted_wrt_append
    by (auto simp: sorted_wrt_drop)
qed

end

lemma find_snoc:
  "find P (xs @ [y]) = (case find P xs of Some r \<Rightarrow> Some r | None \<Rightarrow> if P y then Some y else None)"
  by (induction xs) auto

text \<open>\<open>std::cmp::Reverse\<close>: the same values in the opposite order.\<close>

datatype 'a reverse = Reverse 'a

instantiation reverse :: (linorder) linorder
begin

fun less_eq_reverse :: "'a reverse \<Rightarrow> 'a reverse \<Rightarrow> bool" where
  "less_eq_reverse (Reverse x) (Reverse y) = (y \<le> x)"

fun less_reverse :: "'a reverse \<Rightarrow> 'a reverse \<Rightarrow> bool" where
  "less_reverse (Reverse x) (Reverse y) = (y < x)"

instance
proof
  fix x y z :: "'a reverse"
  show "(x < y) = (x \<le> y \<and> \<not> y \<le> x)" by (cases x; cases y) auto
  show "x \<le> x" by (cases x) auto
  show "x \<le> y \<Longrightarrow> y \<le> z \<Longrightarrow> x \<le> z" by (cases x; cases y; cases z) auto
  show "x \<le> y \<Longrightarrow> y \<le> x \<Longrightarrow> x = y" by (cases x; cases y) auto
  show "x \<le> y \<or> y \<le> x" by (cases x; cases y) auto
qed

end

end
