(* ===== verification/QsoTime.thy ===== *)
theory QsoTime
  imports Prelude
begin

text \<open>
  \<open>backend/src/qso_time.rs\<close>: conversion between Unix seconds and the date and time texts of
  ADIF and Cabrillo. \<open>i32\<close>, \<open>i64\<close> and \<open>u32\<close> values are \<open>int\<close>; the narrowing casts of
  \<open>civil_from_days\<close> are written out. Rust's \<open>/\<close> is \<open>sdiv\<close>. The lemmas show that the
  conversions are inverse to each other and accept exactly the dates of the calendar.
\<close>

section \<open>The code\<close>

definition parse_utc_minute :: "string \<Rightarrow> nat option" where
  "parse_utc_minute value =
     (case split_once CHR '':'' (trim value) of
        None \<Rightarrow> None
      | Some (h, m) \<Rightarrow>
          (case parse_unsigned 16 h of
             None \<Rightarrow> None
           | Some hour \<Rightarrow>
               (case parse_unsigned 16 m of
                  None \<Rightarrow> None
                | Some minute \<Rightarrow>
                    if hour < 24 \<and> minute < 60 then Some (hour * 60 + minute) else None)))"

definition as_i32 :: "int \<Rightarrow> int" where
  "as_i32 x = signed_take_bit 31 x"

definition as_u32 :: "int \<Rightarrow> int" where
  "as_u32 x = take_bit 32 x"

definition civil_from_days :: "int \<Rightarrow> int \<times> int \<times> int" where
  "civil_from_days days =
     (let z = days + 719468;
          era = (if 0 \<le> z then z else z - 146096) sdiv 146097;
          doe = z - era * 146097;
          yoe = (doe - doe sdiv 1460 + doe sdiv 36524 - doe sdiv 146096) sdiv 365;
          y = yoe + era * 400;
          doy = doe - (365 * yoe + yoe sdiv 4 - yoe sdiv 100);
          mp = (5 * doy + 2) sdiv 153;
          day = doy - (153 * mp + 2) sdiv 5 + 1;
          month = mp + (if mp < 10 then 3 else - 9);
          year = y + (if month \<le> 2 then 1 else 0)
      in (as_i32 year, as_u32 month, as_u32 day))"

definition days_from_civil :: "int \<Rightarrow> int \<Rightarrow> int \<Rightarrow> int option" where
  "days_from_civil year month day =
     (if \<not> (1 \<le> month \<and> month \<le> 12) \<or> \<not> (1 \<le> day \<and> day \<le> 31) then None
      else
        let y = year - (if month \<le> 2 then 1 else 0);
            era = (if 0 \<le> y then y else y - 399) sdiv 400;
            yoe = y - era * 400;
            mp = month + (if 2 < month then - 3 else 9);
            doy = (153 * mp + 2) sdiv 5 + day - 1;
            doe = yoe * 365 + yoe sdiv 4 - yoe sdiv 100 + doy;
            days = era * 146097 + doe - 719468
        in if civil_from_days days = (year, month, day) then Some days else None)"

definition qso_epoch :: "string \<Rightarrow> string \<Rightarrow> int option" where
  "qso_epoch date time =
     (if length date \<noteq> 8 \<or> \<not> list_all is_digit date then None
      else
        case (parse_signed 32 (take 4 date), parse_unsigned 32 (take 2 (drop 4 date)),
              parse_unsigned 32 (take 2 (drop 6 date))) of
          (Some year, Some month, Some day) \<Rightarrow>
            (let t = trim time in
             if \<not> (length t = 4 \<or> length t = 6) \<or> \<not> list_all is_digit t then None
             else
               case (parse_signed 64 (take 2 t), parse_signed 64 (take 2 (drop 2 t)),
                     if length t = 6 then parse_signed 64 (take 2 (drop 4 t)) else Some 0) of
                 (Some hour, Some minute, Some second) \<Rightarrow>
                   if 23 < hour \<or> 59 < minute \<or> 59 < second then None
                   else
                     (case days_from_civil year (int month) (int day) of
                        None \<Rightarrow> None
                      | Some days \<Rightarrow> Some (days * 86400 + hour * 3600 + minute * 60 + second))
               | _ \<Rightarrow> None)
        | _ \<Rightarrow> None)"

definition qso_datetime_parts ::
    "int \<Rightarrow> string + (int \<times> int \<times> int \<times> int \<times> int \<times> int)" where
  "qso_datetime_parts epoch =
     (if epoch < 0 then Inl ''contact QSO time must be positive''
      else
        let days = epoch div 86400;
            seconds = epoch mod 86400;
            (year, month, day) = civil_from_days days
        in Inr (year, month, day, seconds sdiv 3600, (seconds smod 3600) sdiv 60, seconds smod 60))"

definition qso_datetime_adif :: "int \<Rightarrow> string + (string \<times> string)" where
  "qso_datetime_adif epoch =
     (case qso_datetime_parts epoch of
        Inl e \<Rightarrow> Inl e
      | Inr (year, month, day, hour, minute, second) \<Rightarrow>
          Inr (zero_padded 4 year @ zero_padded 2 month @ zero_padded 2 day,
               zero_padded 2 hour @ zero_padded 2 minute @ zero_padded 2 second))"

definition qso_datetime_cabrillo :: "int \<Rightarrow> string + (string \<times> string)" where
  "qso_datetime_cabrillo epoch =
     (case qso_datetime_parts epoch of
        Inl e \<Rightarrow> Inl e
      | Inr (year, month, day, hour, minute, second) \<Rightarrow>
          Inr (zero_padded 4 year @ ''-'' @ zero_padded 2 month @ ''-'' @ zero_padded 2 day,
               zero_padded 2 hour @ zero_padded 2 minute))"

section \<open>The arithmetic of the 400-year era\<close>

lemma sdiv_nonneg: "0 \<le> a \<Longrightarrow> 0 < b \<Longrightarrow> a sdiv b = a div b" for a b :: int
  by (cases "a = 0") (simp_all add: signed_divide_int_def)

lemma smod_nonneg: "0 \<le> a \<Longrightarrow> 0 < b \<Longrightarrow> a smod b = a mod b" for a b :: int
  by (cases "a = 0") (simp_all add: signed_modulo_int_def)

lemma floor_sdiv:
  fixes z b :: int
  assumes "0 < b"
  shows "(if 0 \<le> z then z else z - (b - 1)) sdiv b = z div b"
proof (cases "0 \<le> z")
  case True
  with assms show ?thesis by (simp add: sdiv_nonneg)
next
  case False
  have "(b - 1 - z) div b = - (z div b)"
  proof (rule int_div_pos_eq)
    show "b - 1 - z = b * - (z div b) + (b - 1 - z mod b)"
      by (simp add: minus_mod_eq_mult_div [symmetric])
    show "0 \<le> b - 1 - z mod b" and "b - 1 - z mod b < b"
      using assms pos_mod_bound [of b z] pos_mod_sign [of b z] by linarith+
  qed
  moreover have "(z - (b - 1)) sdiv b = - ((b - 1 - z) div b)"
    using assms False by (simp add: signed_divide_int_def)
  ultimately show ?thesis using False by simp
qed

lemma yoe_bounds:
  fixes doe :: int
  assumes "0 \<le> doe" and "doe \<le> 146096"
  defines "yoe \<equiv> (doe - doe div 1460 + doe div 36524 - doe div 146096) div 365"
  defines "doy \<equiv> doe - (365 * yoe + yoe div 4 - yoe div 100)"
  shows "0 \<le> yoe" and "yoe \<le> 399" and "0 \<le> doy" and "doy \<le> 365"
proof -
  have "doe = 146096 \<or> doe div 146096 = 0 \<and> doe \<le> 146095" using assms by auto
  then have 1: "0 \<le> yoe \<and> yoe \<le> 399 \<and> 0 \<le> doy \<and> doy \<le> 365"
  proof
    assume "doe = 146096"
    then show ?thesis by (simp add: yoe_def doy_def)
  next
    assume d: "doe div 146096 = 0 \<and> doe \<le> 146095"
    define a b where "a = doe div 1460" and "b = doe div 36524"
    have y: "yoe = (doe - a + b) div 365" using d by (simp add: yoe_def a_def b_def)
    have A: "1460 * a \<le> doe" "doe < 1460 * a + 1460" unfolding a_def by linarith+
    have B: "36524 * b \<le> doe" "doe < 36524 * b + 36524" unfolding b_def by linarith+
    define q c where "q = yoe div 4" and "c = yoe div 100"
    have Y: "365 * yoe \<le> doe - a + b" "doe - a + b < 365 * yoe + 365" unfolding y by linarith+
    have Q: "4 * q \<le> yoe" "yoe < 4 * q + 4" unfolding q_def by linarith+
    have C: "100 * c \<le> yoe" "yoe < 100 * c + 100" unfolding c_def by linarith+
    have doy: "doy = doe - 365 * yoe - q + c" by (simp add: doy_def q_def c_def)
    have b3: "0 \<le> b" "b \<le> 3" using assms(1) d unfolding b_def by linarith+
    have "36500 * b < 1460 * a + 1460" using A B b3 by linarith
    then have ab: "25 * b \<le> a" by linarith
    have "1460 * a < 147460" using A d by linarith
    then have a100: "a \<le> 100" by linarith
    have "0 < 365 * yoe + 365" using A B Y b3 ab assms(1) by linarith
    then have y0: "0 \<le> yoe" by linarith
    have "365 * yoe < 146000" using A B Y b3 d by linarith
    then have y1: "yoe \<le> 399" by linarith
    have "1460 * q < 1460 * a + 1460" using A B Y Q ab b3 by linarith
    then have qa: "q \<le> a" by linarith
    have "36500 * b \<le> doe - a + b"
      using A B b3 by (cases "a \<le> 25 * b") linarith+
    then have "36500 * b < 365 * yoe + 365" using Y by linarith
    then have "100 * b < 100 * c + 100" using C by linarith
    then have bc: "b \<le> c" by linarith
    have "doe - a + b < 36500 * b + 36500"
      using A B b3 ab by (cases "a \<le> 25 * b + 24") linarith+
    then have "36500 * c < 36500 * b + 36500" using Y C by linarith
    then have cb: "c \<le> b" by linarith
    have "1460 * a - 1460 < 1460 * q + 1460" using A Y Q a100 b3 by linarith
    then have aq: "a \<le> q + 1" by linarith
    show ?thesis using y0 y1 doy Y qa bc cb aq by linarith
  qed
  from 1 show "0 \<le> yoe" and "yoe \<le> 399" and "0 \<le> doy" and "doy \<le> 365" by auto
qed

text \<open>The leap day is the last day of a year that starts in March.\<close>

lemma doy_leap:
  fixes yoe doe :: int
  assumes "0 \<le> yoe" and "yoe \<le> 399"
    and "doe = 365 * yoe + yoe div 4 - yoe div 100 + 365"
    and "yoe = (doe - doe div 1460 + doe div 36524 - doe div 146096) div 365"
  shows "(yoe + 1) mod 4 = 0" and "(yoe + 1) mod 100 = 0 \<Longrightarrow> yoe = 399"
proof -
  define q k a b c where "q = yoe div 4" and "k = yoe div 100" and "a = doe div 1460"
    and "b = doe div 36524" and "c = doe div 146096"
  note D = q_def k_def a_def b_def c_def
  have Q: "4 * q \<le> yoe" "yoe < 4 * q + 4" unfolding q_def by linarith+
  have K: "100 * k \<le> yoe" "yoe < 100 * k + 100" unfolding k_def by linarith+
  have A: "1460 * a \<le> doe" "doe < 1460 * a + 1460" unfolding a_def by linarith+
  have B: "36524 * b \<le> doe" "doe < 36524 * b + 36524" unfolding b_def by linarith+
  have E: "doe = 365 * yoe + q - k + 365" using assms(3) by (simp add: D)
  have N: "doe - a + b - c < 365 * yoe + 365" "365 * yoe \<le> doe - a + b - c"
    using assms(4) unfolding a_def [symmetric] b_def [symmetric] c_def [symmetric] by linarith+
  have k: "k = 0 \<or> k = 1 \<or> k = 2 \<or> k = 3" using K assms(1,2) by linarith
  have doe: "doe \<le> 146096" "0 \<le> doe" using E Q K assms(1,2) k by linarith+
  then have c: "c = 0 \<or> c = 1 \<and> doe = 146096" unfolding c_def by auto
  show 4: "(yoe + 1) mod 4 = 0"
  proof (rule ccontr)
    assume "(yoe + 1) mod 4 \<noteq> 0"
    then have r: "yoe \<le> 4 * q + 2" unfolding q_def by presburger
    have "1460 * a < 1460 * q + 1460" using A E r Q K assms(1,2) by linarith
    then have aq: "a \<le> q" by linarith
    have "100 * k < 4 * q + 4" using Q K by linarith
    then have "25 * k \<le> q" by linarith
    then have "36524 * k < 36524 * b + 36524" using B E K by linarith
    then have "k \<le> b" by linarith
    with aq N E c show False
    proof (elim disjE conjE)
      assume "doe = 146096"
      then have "a = 100" by (simp add: a_def)
      with aq Q assms(2) show False by linarith
    qed linarith
  qed
  show "yoe = 399" if "(yoe + 1) mod 100 = 0"
  proof (rule ccontr)
    assume "yoe \<noteq> 399"
    have y: "yoe = 100 * k + 99" using that unfolding k_def by presburger
    then have "q = 25 * k + 24" using Q by linarith
    with E y have d: "doe = 36524 * k + 36524" by linarith
    have "k = 0 \<or> k = 1 \<or> k = 2" using k y \<open>yoe \<noteq> 399\<close> by auto
    then show False
      using N(1) d y by (elim disjE) (simp_all add: a_def b_def c_def)
  qed
qed

section \<open>The calendar\<close>

definition is_leap :: "int \<Rightarrow> bool" where
  "is_leap y \<longleftrightarrow> y mod 4 = 0 \<and> (y mod 100 \<noteq> 0 \<or> y mod 400 = 0)"

definition month_days :: "int \<Rightarrow> int \<Rightarrow> int" where
  "month_days y m =
     (if m = 2 then (if is_leap y then 29 else 28)
      else if m \<in> {4, 6, 9, 11} then 30 else 31)"

definition valid_date :: "int \<Rightarrow> int \<Rightarrow> int \<Rightarrow> bool" where
  "valid_date y m d \<longleftrightarrow> 1 \<le> m \<and> m \<le> 12 \<and> 1 \<le> d \<and> d \<le> month_days y m"

text \<open>
  The position of a date in the era that starts in March: the year of the era, the month
  counted from March and the day of that year.
\<close>

definition march_year :: "int \<Rightarrow> int \<Rightarrow> int" where
  "march_year y m = (if m \<le> 2 then y - 1 else y)"

definition march_month :: "int \<Rightarrow> int" where
  "march_month m = (if 2 < m then m - 3 else m + 9)"

definition serial_day :: "int \<Rightarrow> int \<Rightarrow> int \<Rightarrow> int" where
  "serial_day y m d =
     (let my = march_year y m; yoe = my mod 400
      in (my div 400) * 146097 + (yoe * 365 + yoe div 4 - yoe div 100
          + ((153 * march_month m + 2) div 5 + d - 1)) - 719468)"

definition civil :: "int \<Rightarrow> int \<times> int \<times> int" where
  "civil n =
     (let z = n + 719468; doe = z mod 146097;
          yoe = (doe - doe div 1460 + doe div 36524 - doe div 146096) div 365;
          doy = doe - (365 * yoe + yoe div 4 - yoe div 100);
          mp = (5 * doy + 2) div 153;
          m = mp + (if mp < 10 then 3 else - 9)
      in (yoe + (z div 146097) * 400 + (if m \<le> 2 then 1 else 0), m,
          doy - (153 * mp + 2) div 5 + 1))"

lemma civil_from_days_casts:
  "civil_from_days n = (case civil n of (y, m, d) \<Rightarrow> (as_i32 y, as_u32 m, as_u32 d))"
proof -
  define z doe where "z = n + 719468" and "doe = z mod 146097"
  define yoe where "yoe = (doe - doe div 1460 + doe div 36524 - doe div 146096) div 365"
  define doy where "doy = doe - (365 * yoe + yoe div 4 - yoe div 100)"
  have doe: "0 \<le> doe" "doe \<le> 146096" unfolding doe_def by simp_all
  have era: "(if 0 \<le> z then z else z - 146096) sdiv 146097 = z div 146097"
    using floor_sdiv [of 146097 z] by (simp split: if_splits)
  have doe': "z - z div 146097 * 146097 = doe"
    unfolding doe_def by (simp add: minus_div_mult_eq_mod)
  note B = yoe_bounds [OF doe, folded yoe_def, folded doy_def]
  have n: "0 \<le> doe - doe div 1460 + doe div 36524 - doe div 146096"
    using B(1) by (simp add: yoe_def pos_imp_zdiv_nonneg_iff)
  have yoe: "(doe - doe sdiv 1460 + doe sdiv 36524 - doe sdiv 146096) sdiv 365 = yoe"
    using doe n by (simp add: sdiv_nonneg yoe_def)
  have doy: "doe - (365 * yoe + yoe sdiv 4 - yoe sdiv 100) = doy"
    using B(1) by (simp add: sdiv_nonneg doy_def)
  have mp: "(5 * doy + 2) sdiv 153 = (5 * doy + 2) div 153" "0 \<le> (5 * doy + 2) div 153"
    using B(3) by (simp_all add: sdiv_nonneg)
  then have mp': "(153 * ((5 * doy + 2) div 153) + 2) sdiv 5 = (153 * ((5 * doy + 2) div 153) + 2) div 5"
    by (intro sdiv_nonneg) auto
  show ?thesis
    unfolding civil_from_days_def civil_def z_def [symmetric] Let_def era doe' yoe doy mp(1) mp'
      doe_def [symmetric] yoe_def [symmetric] doy_def [symmetric]
    by simp
qed

lemma march_parts:
  assumes "valid_date y m d"
  defines "mp \<equiv> march_month m"
  defines "doy \<equiv> (153 * mp + 2) div 5 + d - 1"
  shows "0 \<le> mp" and "mp \<le> 11" and "0 \<le> doy" and "doy \<le> 365"
    and "(5 * doy + 2) div 153 = mp"
    and "m = mp + (if mp < 10 then 3 else - 9)"
    and "doy = 365 \<Longrightarrow> is_leap (march_year y m + 1)"
proof -
  have m: "m \<in> {1, 2, 3, 4, 5, 6, 7, 8, 9, 10, 11, 12}"
    using assms(1) unfolding valid_date_def insert_iff empty_iff by presburger
  have d: "1 \<le> d" "d \<le> month_days y m" using assms(1) by (simp_all add: valid_date_def)
  note D = mp_def doy_def march_month_def month_days_def
  show "0 \<le> mp" "mp \<le> 11" and "m = mp + (if mp < 10 then 3 else - 9)"
    using m by (auto simp: D)
  show "0 \<le> doy" "doy \<le> 365" and "(5 * doy + 2) div 153 = mp"
    using m d unfolding D insert_iff empty_iff by (elim disjE FalseE; simp split: if_splits)+
  show "is_leap (march_year y m + 1)" if "doy = 365"
    using m d that by (auto simp: D march_year_def split: if_splits)
qed

lemma era_mod:
  fixes a k :: int
  shows "(a + 400 * k) mod 4 = a mod 4" and "(a + 400 * k) mod 100 = a mod 100"
    and "(a + 400 * k) mod 400 = a mod 400"
  using mod_mult_self2 [of a 4 "100 * k"] mod_mult_self2 [of a 100 "4 * k"] by simp_all

lemma civil_parts:
  assumes "civil n = (y, m, d)"
  obtains doe yoe doy mp where
    "doe = (n + 719468) mod 146097" and "0 \<le> doe" and "doe \<le> 146096"
    and "yoe = (doe - doe div 1460 + doe div 36524 - doe div 146096) div 365"
    and "0 \<le> yoe" and "yoe \<le> 399"
    and "doy = doe - (365 * yoe + yoe div 4 - yoe div 100)" and "0 \<le> doy" and "doy \<le> 365"
    and "mp = (5 * doy + 2) div 153"
    and "m = mp + (if mp < 10 then 3 else - 9)"
    and "d = doy - (153 * mp + 2) div 5 + 1"
    and "y = yoe + ((n + 719468) div 146097) * 400 + (if m \<le> 2 then 1 else 0)"
proof -
  define doe where "doe = (n + 719468) mod 146097"
  define yoe where "yoe = (doe - doe div 1460 + doe div 36524 - doe div 146096) div 365"
  define doy where "doy = doe - (365 * yoe + yoe div 4 - yoe div 100)"
  define mp where "mp = (5 * doy + 2) div 153"
  have b: "0 \<le> doe" "doe \<le> 146096" unfolding doe_def by simp_all
  have c: "civil n = (yoe + ((n + 719468) div 146097) * 400
      + (if mp + (if mp < 10 then 3 else - 9) \<le> 2 then 1 else 0),
      mp + (if mp < 10 then 3 else - 9), doy - (153 * mp + 2) div 5 + 1)"
    unfolding civil_def Let_def doe_def [symmetric] yoe_def [symmetric] doy_def [symmetric]
      mp_def [symmetric] by (rule refl)
  from trans [OF assms [symmetric] c] have m: "m = mp + (if mp < 10 then 3 else - 9)"
    and d: "d = doy - (153 * mp + 2) div 5 + 1"
    and y: "y = yoe + ((n + 719468) div 146097) * 400
      + (if mp + (if mp < 10 then 3 else - 9) \<le> 2 then 1 else 0)"
    by (simp_all only: prod.inject simp_thms)
  note eqs = m d y [folded m]
  show ?thesis
    by (rule that [OF doe_def b yoe_def _ _ doy_def _ _ mp_def eqs])
      (use yoe_bounds [OF b, folded yoe_def, folded doy_def] in simp_all)
qed

lemma civil_valid:
  assumes "civil n = (y, m, d)"
  shows "valid_date y m d"
  using assms
proof (cases rule: civil_parts)
  case (1 doe yoe doy mp)
  have leap: "is_leap y" if "doy = 365" and "m \<le> 2"
  proof -
    have "doe = 365 * yoe + yoe div 4 - yoe div 100 + 365" using 1 that by linarith
    note L = doy_leap [OF 1(5,6) this 1(4)]
    define era where "era = (n + 719468) div 146097"
    have y: "y = (yoe + 1) + 400 * era" using 1(13) that by (simp add: era_def)
    have "y mod 4 = (yoe + 1) mod 4" "y mod 100 = (yoe + 1) mod 100" "y mod 400 = (yoe + 1) mod 400"
      unfolding y by (rule era_mod)+
    with L show ?thesis by (auto simp: is_leap_def)
  qed
  have mp: "153 * mp \<le> 5 * doy + 2" "5 * doy + 2 < 153 * mp + 153" unfolding 1(10) by linarith+
  then have "0 \<le> mp" "mp \<le> 11" using 1(8,9) by linarith+
  then have "mp = 0 \<or> mp = 1 \<or> mp = 2 \<or> mp = 3 \<or> mp = 4 \<or> mp = 5 \<or> mp = 6 \<or> mp = 7
      \<or> mp = 8 \<or> mp = 9 \<or> mp = 10 \<or> mp = 11"
    by presburger
  moreover have "m \<le> 2 \<Longrightarrow> \<not> is_leap y \<Longrightarrow> doy \<le> 364"
    using leap 1(9) by (cases "doy = 365") auto
  ultimately show ?thesis
    using mp 1(8,9,11,12)
    by (elim disjE; simp add: valid_date_def month_days_def)
qed

lemma serial_civil:
  assumes "civil n = (y, m, d)"
  shows "serial_day y m d = n"
  using assms
proof (cases rule: civil_parts)
  case (1 doe yoe doy mp)
  define era where "era = (n + 719468) div 146097"
  have "153 * mp \<le> 5 * doy + 2" "5 * doy + 2 < 153 * mp + 153" unfolding 1(10) by linarith+
  then have mp: "0 \<le> mp" "mp \<le> 11" using 1(8,9) by linarith+
  then have mm: "march_month m = mp" using 1(11) by (auto simp: march_month_def)
  have my: "march_year y m = yoe + era * 400"
    using 1(13) by (simp add: march_year_def era_def)
  have "march_year y m mod 400 = yoe" "march_year y m div 400 = era"
    unfolding my using 1(5,6) by simp_all
  moreover have "n + 719468 = era * 146097 + doe"
    using 1(1) by (simp add: era_def)
  ultimately show ?thesis
    unfolding serial_day_def Let_def mm by (simp add: 1(12) 1(7))
qed

text \<open>The day on which a March year of the era starts grows with the year.\<close>

definition year_start :: "int \<Rightarrow> int" where
  "year_start yoe = yoe * 365 + yoe div 4 - yoe div 100"

lemma year_start_mono: "a \<le> b \<Longrightarrow> year_start a \<le> year_start b"
proof -
  assume "a \<le> b"
  define a4 b4 a5 b5 where "a4 = a div 4" and "b4 = b div 4" and "a5 = a div 100" and "b5 = b div 100"
  have "a4 \<le> b4" unfolding a4_def b4_def using \<open>a \<le> b\<close> by (rule zdiv_mono1) simp
  moreover have "100 * a5 \<le> a" "a < 100 * a5 + 100" unfolding a5_def by linarith+
  moreover have "100 * b5 \<le> b" "b < 100 * b5 + 100" unfolding b5_def by linarith+
  ultimately have "a * 365 + a4 - a5 \<le> b * 365 + b4 - b5"
    using \<open>a \<le> b\<close> by (cases "a = b") (simp add: a4_def b4_def a5_def b5_def, linarith)
  then show ?thesis by (simp add: year_start_def a4_def b4_def a5_def b5_def)
qed

lemma div_succ:
  fixes a k :: int
  assumes "0 < k"
  shows "(a + 1) div k = a div k + (if (a + 1) mod k = 0 then 1 else 0)"
proof (cases "(a + 1) mod k = 0")
  case True
  then have "a = k * ((a + 1) div k - 1) + (k - 1)"
    using mult_div_mod_eq [of k "a + 1"] by (simp add: right_diff_distrib)
  then have "a div k = (a + 1) div k - 1" by (rule int_div_pos_eq) (use assms in simp_all)
  with True show ?thesis by simp
next
  case False
  have "0 < (a + 1) mod k" using False pos_mod_sign [OF assms, of "a + 1"] by linarith
  moreover have "a = k * ((a + 1) div k) + ((a + 1) mod k - 1)"
    using mult_div_mod_eq [of k "a + 1"] by linarith
  then have "a div k = (a + 1) div k"
    by (rule int_div_pos_eq) (use \<open>0 < (a + 1) mod k\<close> pos_mod_bound [OF assms, of "a + 1"] in linarith)+
  ultimately show ?thesis using False by simp
qed

lemma year_start_next:
  "year_start (a + 1) = year_start a + 365
     + (if (a + 1) mod 4 = 0 then 1 else 0) - (if (a + 1) mod 100 = 0 then 1 else 0)"
  by (simp add: year_start_def div_succ)

lemma year_end:
  assumes "valid_date y m d" and "b \<le> 399"
    and "march_year y m mod 400 < b"
  shows "year_start (march_year y m mod 400) + ((153 * march_month m + 2) div 5 + d - 1)
    < year_start b"
proof -
  define my yoe doy where "my = march_year y m" and "yoe = my mod 400"
    and "doy = (153 * march_month m + 2) div 5 + d - 1"
  note P = march_parts [OF assms(1), folded doy_def]
  have start: "year_start (yoe + 1) \<le> year_start b"
    by (rule year_start_mono) (use assms(3) in \<open>simp add: yoe_def my_def\<close>)
  have "doy < year_start (yoe + 1) - year_start yoe"
  proof (cases "doy = 365")
    case True
    then have "is_leap (my + 1)" using P(7) by (simp add: my_def)
    moreover have my: "my + 1 = yoe + 1 + 400 * (my div 400)"
      using mult_div_mod_eq [of 400 my] by (simp add: yoe_def)
    have "(my + 1) mod 4 = (yoe + 1) mod 4" "(my + 1) mod 100 = (yoe + 1) mod 100"
      "(my + 1) mod 400 = (yoe + 1) mod 400"
      by (subst my, rule era_mod)+
    moreover have "(yoe + 1) mod 400 = yoe + 1" "0 \<le> yoe"
      using assms(2,3) by (simp_all add: yoe_def my_def)
    ultimately show ?thesis using True by (auto simp: is_leap_def year_start_next)
  next
    case False
    have "(yoe + 1) mod 100 = 0 \<Longrightarrow> (yoe + 1) mod 4 = 0"
      using mod_mod_cancel [of 4 100 "yoe + 1"] by simp
    with False P(4) show ?thesis by (auto simp: year_start_next)
  qed
  with start show ?thesis by (simp add: yoe_def doy_def my_def)
qed

text \<open>Two valid dates with the same serial day are the same date.\<close>

lemma serial_day_inj:
  assumes v: "valid_date y m d" and v': "valid_date y' m' d'"
    and eq: "serial_day y m d = serial_day y' m' d'"
  shows "(y, m, d) = (y', m', d')"
proof -
  define my yoe era doy where "my = march_year y m" and "yoe = my mod 400" and "era = my div 400"
    and "doy = (153 * march_month m + 2) div 5 + d - 1"
  define my' yoe' era' doy' where "my' = march_year y' m'" and "yoe' = my' mod 400"
    and "era' = my' div 400" and "doy' = (153 * march_month m' + 2) div 5 + d' - 1"
  note D = my_def yoe_def era_def doy_def my'_def yoe'_def era'_def doy'_def
  note P = march_parts [OF v, folded doy_def] and P' = march_parts [OF v', folded doy'_def]
  have r: "0 \<le> yoe" "yoe \<le> 399" "0 \<le> yoe'" "yoe' \<le> 399" by (simp_all add: D)
  define doe doe' where "doe = year_start yoe + doy" and "doe' = year_start yoe' + doy'"
  have e: "era * 146097 + doe = era' * 146097 + doe'"
    using eq by (simp add: serial_day_def Let_def year_start_def doe_def doe'_def D)
  have "year_start 0 \<le> year_start yoe" "year_start yoe \<le> year_start 399"
    "year_start 0 \<le> year_start yoe'" "year_start yoe' \<le> year_start 399"
    using r by (simp_all add: year_start_mono)
  moreover have "year_start 0 = 0" "year_start 399 = 145731" by (simp_all add: year_start_def)
  ultimately have "0 \<le> doe" "doe \<le> 146096" "0 \<le> doe'" "doe' \<le> 146096"
    using P(3,4) P'(3,4) unfolding doe_def doe'_def by linarith+
  then have "(era * 146097 + doe) div 146097 = era" "(era' * 146097 + doe') div 146097 = era'"
    by simp_all
  with e have era: "era = era'" by simp
  with e have doe: "doe = doe'" by simp
  have yoe: "yoe = yoe'"
    using year_end [OF v r(4), folded my_def doy_def, folded yoe_def]
      year_end [OF v' r(2), folded my'_def doy'_def, folded yoe'_def] doe P(3) P'(3)
    unfolding doe_def doe'_def by linarith
  with doe have doy: "doy = doy'" by (simp add: doe_def doe'_def)
  then have mm: "march_month m = march_month m'" using P(5) P'(5) by simp
  then have m: "m = m'" using P(6) P'(6) by simp
  have "d = d'" using doy mm by (simp add: D)
  moreover have "my = my'" using era yoe
    by (metis D(3,2,7,6) div_mult_mod_eq)
  ultimately show ?thesis using m by (auto simp: D march_year_def split: if_splits)
qed

lemma civil_serial:
  assumes "valid_date y m d"
  shows "civil (serial_day y m d) = (y, m, d)"
proof -
  obtain y' m' d' where c: "civil (serial_day y m d) = (y', m', d')"
    by (cases "civil (serial_day y m d)") auto
  from serial_day_inj [OF assms civil_valid [OF c] serial_civil [OF c, symmetric]] c
  show ?thesis by simp
qed

section \<open>The conversions of the code\<close>

abbreviation in_i32 :: "int \<Rightarrow> bool" where
  "in_i32 y \<equiv> - 2147483648 \<le> y \<and> y < 2147483648"

lemma as_i32_id: "in_i32 y \<Longrightarrow> as_i32 y = y"
  by (simp add: as_i32_def signed_take_bit_int_eq_self)

lemma as_u32_id: "0 \<le> x \<Longrightarrow> x < 4294967296 \<Longrightarrow> as_u32 x = x"
  by (simp add: as_u32_def take_bit_int_eq_self)

lemma valid_date_small: "valid_date y m d \<Longrightarrow> 1 \<le> m \<and> m \<le> 12 \<and> 1 \<le> d \<and> d \<le> 31"
  by (auto simp: valid_date_def month_days_def split: if_splits)

lemma civil_from_days_civil:
  assumes "civil n = (y, m, d)" and "in_i32 y"
  shows "civil_from_days n = (y, m, d)"
  using assms valid_date_small [OF civil_valid [OF assms(1)]]
  by (simp add: civil_from_days_casts as_i32_id as_u32_id)

lemma days_from_civil_serial:
  "days_from_civil y m d =
     (if 1 \<le> m \<and> m \<le> 12 \<and> 1 \<le> d \<and> d \<le> 31 \<and> civil_from_days (serial_day y m d) = (y, m, d)
      then Some (serial_day y m d) else None)"
proof (cases "1 \<le> m \<and> m \<le> 12 \<and> 1 \<le> d \<and> d \<le> 31")
  case True
  define my where "my = march_year y m"
  have y: "y - (if m \<le> 2 then 1 else 0) = my" by (simp add: my_def march_year_def)
  have era: "(if 0 \<le> my then my else my - 399) sdiv 400 = my div 400"
    using floor_sdiv [of 400 my] by (simp split: if_splits)
  have yoe: "my - my div 400 * 400 = my mod 400" by (simp add: minus_div_mult_eq_mod)
  have mp: "m + (if 2 < m then - 3 else 9) = march_month m" by (simp add: march_month_def)
  have p: "0 \<le> march_month m" using True by (simp add: march_month_def)
  have sd: "(my mod 400) sdiv 4 = my mod 400 div 4" "(my mod 400) sdiv 100 = my mod 400 div 100"
    "(153 * march_month m + 2) sdiv 5 = (153 * march_month m + 2) div 5"
    using p by (simp_all add: sdiv_nonneg)
  have day: "my div 400 * 146097 + (my mod 400 * 365 + my mod 400 div 4 - my mod 400 div 100
      + ((153 * march_month m + 2) div 5 + d - 1)) - 719468 = serial_day y m d"
    by (simp add: serial_day_def Let_def my_def)
  show ?thesis
    unfolding days_from_civil_def Let_def y era yoe mp sd day using True by simp
next
  case False
  then show ?thesis by (auto simp: days_from_civil_def)
qed

lemma serial_day_year_start:
  "serial_day y m d = march_year y m div 400 * 146097 + year_start (march_year y m mod 400)
    + ((153 * march_month m + 2) div 5 + d - 1) - 719468"
  by (simp add: serial_day_def Let_def year_start_def)

text \<open>A day past the end of its month is a day of the next month.\<close>

lemma serial_day_overflow:
  assumes "1 \<le> m" and "m \<le> 12" and "1 \<le> d" and "d \<le> 31" and "\<not> valid_date y m d"
  shows "serial_day y m d = serial_day y (m + 1) (d - month_days y m)"
    and "valid_date y (m + 1) (d - month_days y m)"
proof -
  have over: "month_days y m < d" using assms by (simp add: valid_date_def)
  have m: "m = 2 \<or> m = 4 \<or> m = 6 \<or> m = 9 \<or> m = 11"
    using over assms(4) by (auto simp: month_days_def split: if_splits)
  show "valid_date y (m + 1) (d - month_days y m)"
    using m over assms(4) by (auto simp: valid_date_def month_days_def)
  show "serial_day y m d = serial_day y (m + 1) (d - month_days y m)"
  proof (cases "m = 2")
    case False
    with m show ?thesis
      by (auto simp: serial_day_def Let_def march_year_def march_month_def month_days_def)
  next
    case True
    have next_year: "y div 400 * 146097 + year_start (y mod 400)
        = (y - 1) div 400 * 146097 + year_start ((y - 1) mod 400) + 365
          + (if is_leap y then 1 else 0)"
    proof (cases "y mod 400 = 0")
      case True
      then have "y - 1 = 400 * (y div 400 - 1) + 399"
        using mult_div_mod_eq [of 400 y] by (simp add: right_diff_distrib)
      then have "(y - 1) mod 400 = 399" and "(y - 1) div 400 = y div 400 - 1"
        using int_mod_pos_eq [of "y - 1" 400 "y div 400 - 1" 399]
          int_div_pos_eq [of "y - 1" 400 "y div 400 - 1" 399] by auto
      moreover have "is_leap y"
        using True era_mod(1) [of 0 "y div 400"] by (auto simp: is_leap_def)
      ultimately show ?thesis using True by (simp add: year_start_def)
    next
      case False
      have "y - 1 = 400 * (y div 400) + (y mod 400 - 1)" by simp
      moreover have "0 \<le> y mod 400 - 1" "y mod 400 - 1 < 400"
        using False pos_mod_sign [of 400 y] pos_mod_bound [of 400 y] by linarith+
      ultimately have r: "(y - 1) mod 400 + 1 = y mod 400" and d: "(y - 1) div 400 = y div 400"
        using int_mod_pos_eq [of "y - 1" 400 "y div 400" "y mod 400 - 1"]
          int_div_pos_eq [of "y - 1" 400 "y div 400" "y mod 400 - 1"] by auto
      have m: "y mod 400 mod 4 = y mod 4" "y mod 400 mod 100 = y mod 100"
        by (simp_all add: mod_mod_cancel)
      have leap: "(if y mod 4 = 0 then 1 else 0) - (if y mod 100 = 0 then 1 else 0)
          = (if is_leap y then 1 else (0 :: int))"
        using mod_mod_cancel [of 4 100 y] False by (auto simp: is_leap_def)
      have sum: "Q + (B + 365 + p - q) = Q + B + 365 + s" if "p - q = s" for Q B p q s :: int
        using that by linarith
      show ?thesis
        unfolding d year_start_next [of "(y - 1) mod 400", unfolded r m] by (rule sum [OF leap])
    qed
    moreover have "march_year y 2 = y - 1" "march_year y 3 = y" "march_month 2 = 11"
      "march_month 3 = 0" "month_days y 2 = 28 + (if is_leap y then 1 else 0)"
      by (simp_all add: march_year_def march_month_def month_days_def)
    ultimately show ?thesis
      by (simp add: True serial_day_year_start)
  qed
qed

text \<open>
  \<open>days_from_civil\<close> accepts exactly the dates of the proleptic Gregorian calendar (with its
  leap years and month lengths), for every \<open>i32\<close> year, and returns their day number.
\<close>

theorem days_from_civil_accepts_calendar:
  assumes "- 2147483648 \<le> y" and "y < 2147483648"
  shows "days_from_civil y m d =
    (if valid_date y m d then Some (serial_day y m d) else None)"
proof (cases "valid_date y m d")
  case True
  then have "civil_from_days (serial_day y m d) = (y, m, d)"
    using assms by (intro civil_from_days_civil civil_serial) auto
  with True valid_date_small [OF True] show ?thesis by (simp add: days_from_civil_serial)
next
  case False
  show ?thesis
  proof (cases "1 \<le> m \<and> m \<le> 12 \<and> 1 \<le> d \<and> d \<le> 31")
    case True
    note O = serial_day_overflow [OF _ _ _ _ False]
    have "civil_from_days (serial_day y m d) = (y, m + 1, d - month_days y m)"
      using True assms O by (simp add: civil_from_days_civil civil_serial)
    with False show ?thesis by (simp add: days_from_civil_serial)
  next
    case out: False
    with False show ?thesis by (auto simp: days_from_civil_serial)
  qed
qed

theorem days_from_civil_accepts_calendar_witness:
  "days_from_civil 2024 2 29 = Some 19782 \<and> days_from_civil 2023 2 29 = None"
  using days_from_civil_accepts_calendar [of 2024 2 29]
    days_from_civil_accepts_calendar [of 2023 2 29]
  by (simp add: valid_date_def month_days_def is_leap_def serial_day_def march_year_def
      march_month_def Let_def)

section \<open>Round trips\<close>

lemma civil_year_range:
  assumes "civil n = (y, m, d)" and "0 \<le> n" and "n < 2932897"
  shows "0 \<le> y \<and> y < 10000"
  using assms(1)
proof (cases rule: civil_parts)
  case (1 doe yoe doy mp)
  define era where "era = (n + 719468) div 146097"
  have z: "n + 719468 = 146097 * era + doe"
    using 1(1) mult_div_mod_eq [of 146097 "n + 719468"] by (simp add: era_def)
  have era: "0 \<le> era" "era \<le> 24" using z 1(2,3) assms(2,3) by linarith+
  have y: "y = yoe + era * 400 + (if m \<le> 2 then 1 else 0)" using 1(13) by (simp add: era_def)
  have "y \<noteq> 10000"
  proof
    assume "y = 10000"
    with y era 1(5,6) have m: "m \<le> 2" by (cases "m \<le> 2") simp_all
    with \<open>y = 10000\<close> y have t: "yoe + era * 400 = 9999" by simp
    with era 1(5,6) have "era = 24" by linarith
    with t have e: "era = 24" "yoe = 399" by simp_all
    have "0 \<le> mp" using 1(8,10) by simp
    then have "10 \<le> mp" using 1(11) m by (cases "mp < 10") simp_all
    then have "306 \<le> doy" using 1(10) by linarith
    with 1(7) e have "146037 \<le> doe" by simp
    with z e assms(3) show False by simp
  qed
  with y era 1(5,6) show ?thesis by auto
qed

lemma zero_padded_parse:
  assumes "0 \<le> i" and "i < 10 ^ w" and "0 < w" and "w \<le> 4"
  shows "parse_signed 32 (zero_padded w i) = Some i"
    and "parse_signed 64 (zero_padded w i) = Some i"
    and "parse_unsigned 32 (zero_padded w i) = Some (nat i)"
proof -
  note Z = zero_padded_nonneg [OF assms(1-3)]
  have D: "digits_only (zero_padded w i)"
    using Z(1,2) assms(3) by (auto simp: digits_only_def)
  have "(10::int) ^ w \<le> 10 ^ 4" using assms(4) by (intro power_increasing) auto
  then have i: "i < 10000" using assms(2) by simp
  show "parse_signed 32 (zero_padded w i) = Some i" "parse_signed 64 (zero_padded w i) = Some i"
    using parse_signed_digits [OF D, of 32] parse_signed_digits [OF D, of 64] Z(3) i by simp_all
  show "parse_unsigned 32 (zero_padded w i) = Some (nat i)"
    using parse_unsigned_digits [OF D, of 32] Z(3) i by (simp add: nat_eq_iff2)
qed

lemma digit_not_ws: "is_digit c \<Longrightarrow> \<not> is_ws c"
  by (auto simp: is_digit_def is_ws_def Let_def)

lemma trim_digits: "list_all is_digit s \<Longrightarrow> trim s = s"
  by (rule trim_no_ws) (auto simp: list_all_iff digit_not_ws)

text \<open>
  C38. Formatting a QSO time for ADIF and reading it back gives the same second, for every time
  from 1970 to the end of the year 9999 (the range of a four-digit year).
\<close>

theorem qso_epoch_roundtrip:
  assumes "0 \<le> epoch" and "epoch < 253402300800"
  shows "\<exists>date time. qso_datetime_adif epoch = Inr (date, time) \<and> qso_epoch date time = Some epoch"
proof -
  define days secs where "days = epoch div 86400" and "secs = epoch mod 86400"
  have days: "0 \<le> days" "days < 2932897" using assms by (auto simp: days_def)
  obtain y m d where c: "civil days = (y, m, d)" by (cases "civil days") auto
  note y = civil_year_range [OF c days] and v = valid_date_small [OF civil_valid [OF c]]
  have cd: "civil_from_days days = (y, m, d)" using c y by (intro civil_from_days_civil) auto
  have s: "0 \<le> secs" "secs < 86400" by (simp_all add: secs_def)
  define h mi se where "h = secs div 3600" and "mi = secs mod 3600 div 60" and "se = secs mod 60"
  have hms: "0 \<le> h" "h < 24" "0 \<le> mi" "mi < 60" "0 \<le> se" "se < 60"
    using s by (auto simp: h_def mi_def se_def)
  have total: "days * 86400 + h * 3600 + mi * 60 + se = epoch"
  proof -
    have se: "se = secs mod 3600 mod 60" by (simp add: se_def mod_mod_cancel)
    have "days * 86400 + secs = epoch" unfolding days_def secs_def by (rule div_mult_mod_eq)
    moreover have "h * 3600 + secs mod 3600 = secs" unfolding h_def by (rule div_mult_mod_eq)
    moreover have "mi * 60 + se = secs mod 3600" unfolding mi_def se by (rule div_mult_mod_eq)
    ultimately show ?thesis by linarith
  qed
  let ?date = "zero_padded 4 y @ zero_padded 2 m @ zero_padded 2 d"
  let ?time = "zero_padded 2 h @ zero_padded 2 mi @ zero_padded 2 se"
  have "qso_datetime_parts epoch = Inr (y, m, d, h, mi, se)"
    using assms(1) s by (simp add: qso_datetime_parts_def Let_def cd days_def [symmetric]
        secs_def [symmetric] sdiv_nonneg smod_nonneg h_def mi_def se_def)
  then have "qso_datetime_adif epoch = Inr (?date, ?time)"
    by (simp add: qso_datetime_adif_def)
  moreover have "qso_epoch ?date ?time = Some epoch"
  proof -
    note Z = zero_padded_nonneg zero_padded_parse
    have L: "length (zero_padded 4 y) = 4" "length (zero_padded 2 m) = 2"
      "length (zero_padded 2 d) = 2" "length (zero_padded 2 h) = 2" "length (zero_padded 2 mi) = 2"
      "length (zero_padded 2 se) = 2"
      using y v hms by (auto simp: Z(1))
    have A: "list_all is_digit ?date" "list_all is_digit ?time"
      using y v hms by (auto simp: Z(2))
    have P: "parse_signed 32 (zero_padded 4 y) = Some y"
      "parse_unsigned 32 (zero_padded 2 m) = Some (nat m)"
      "parse_unsigned 32 (zero_padded 2 d) = Some (nat d)"
      "parse_signed 64 (zero_padded 2 h) = Some h" "parse_signed 64 (zero_padded 2 mi) = Some mi"
      "parse_signed 64 (zero_padded 2 se) = Some se"
      using y v hms by (auto simp: Z(4-6))
    have D: "days_from_civil y m d = Some days"
      using days_from_civil_serial [of y m d] v cd serial_civil [OF c] by simp
    show ?thesis
      unfolding qso_epoch_def Let_def trim_digits [OF A(2)]
      using L A P D v hms total by simp
  qed
  ultimately show ?thesis by blast
qed

theorem qso_epoch_roundtrip_witness:
  "\<exists>date time. qso_datetime_adif 1709210096 = Inr (date, time) \<and> qso_epoch date time = Some 1709210096"
  by (rule qso_epoch_roundtrip) simp_all

end
