(* ===== verification/Callsign.thy ===== *)
theory Callsign
  imports Prelude
begin

text \<open>
  \<open>backend/src/callsign.rs\<close>: the shared callsign parsing contract. A callsign is normalised,
  split at its one slash, and resolved into the station identity (\<open>base\<close>) and the operating
  modifier. The lemmas relate the structural check to the parser, and say when the duplicate
  identity depends on the order of the two components.
\<close>

section \<open>The code\<close>

record callsign_parts =
  normalized :: string
  base :: "string option"
  modifier :: "string option"

datatype structure_error = InvalidCharacter | TooManySlashes | EdgeSlash

definition normalize :: "string \<Rightarrow> string" where
  "normalize input = to_upper (trim input)"

definition is_callsign_like :: "string \<Rightarrow> bool" where
  "is_callsign_like component =
     (let after = drop 1 component
      in (case after of [] \<Rightarrow> False | second # _ \<Rightarrow> is_digit second)
         \<or> (case drop 1 after of [] \<Rightarrow> False | third # _ \<Rightarrow> is_digit third))"

definition check_structure :: "string \<Rightarrow> bool \<Rightarrow> structure_error + unit" where
  "check_structure s allow_query =
     (if \<not> list_all (\<lambda>c. is_upper c \<or> is_digit c \<or> c = CHR ''/'' \<or> (allow_query \<and> c = CHR ''?'')) s
      then Inl InvalidCharacter
      else if 1 < length (filter (\<lambda>c. c = CHR ''/'') s) then Inl TooManySlashes
      else if prefix ''/'' s \<or> suffix ''/'' s then Inl EdgeSlash
      else Inr ())"

datatype slash = NoSlash | SlashPair string string | InvalidSlash

definition split_middle_slash :: "string \<Rightarrow> slash" where
  "split_middle_slash s =
     (case split_on CHR ''/'' s of
        [] \<Rightarrow> InvalidSlash
      | [first] \<Rightarrow> NoSlash
      | first # second # rest \<Rightarrow>
          if rest \<noteq> [] \<or> first = [] \<or> second = [] then InvalidSlash else SlashPair first second)"

definition resolve_pair :: "string \<Rightarrow> string \<Rightarrow> string option \<times> string option" where
  "resolve_pair left right =
     (case (is_callsign_like left, is_callsign_like right) of
        (False, True) \<Rightarrow> (Some right, Some left)
      | (True, False) \<Rightarrow> (Some left, Some right)
      | (True, True) \<Rightarrow>
          if length right < length left then (Some left, Some right) else (Some right, Some left)
      | (False, False) \<Rightarrow> (None, None))"

definition parse :: "string \<Rightarrow> callsign_parts" where
  "parse input =
     (let n = normalize input;
          (b, m) = (case split_middle_slash n of
                      NoSlash \<Rightarrow> (Some n, None)
                    | SlashPair left right \<Rightarrow> resolve_pair left right
                    | InvalidSlash \<Rightarrow> (None, None))
      in \<lparr>normalized = n, base = b, modifier = m\<rparr>)"

definition dupe_identity :: "string \<Rightarrow> string" where
  "dupe_identity input =
     (case base (parse input) of None \<Rightarrow> normalized (parse input) | Some b \<Rightarrow> b)"

section \<open>Normalisation and splitting\<close>

lemma normalize_idem [text_laws, simp]: "normalize (normalize s) = normalize s"
  by (simp add: normalize_def trim_to_upper)

definition clean :: "string \<Rightarrow> bool" where
  "clean s \<longleftrightarrow> list_all (\<lambda>c. is_upper c \<or> is_digit c \<or> c = CHR ''/'' \<or> c = CHR ''?'') s"

lemma clean_char:
  assumes "is_upper c \<or> is_digit c \<or> c = CHR ''/'' \<or> c = CHR ''?''"
  shows "upper_char c = c" and "\<not> is_ws c"
  using assms by (auto simp: upper_char_def char_class_defs)

lemma clean_normalize: "clean s \<Longrightarrow> normalize s = s"
  unfolding normalize_def clean_def
  by (subst trim_no_ws) (auto simp: list_all_iff clean_char intro: map_idI)

lemma clean_append: "clean (s @ t) \<longleftrightarrow> clean s \<and> clean t"
  by (simp add: clean_def)

lemma split_on_single: "split_on d s = [w] \<Longrightarrow> w = s \<and> d \<notin> set s"
proof (cases "split_once d s")
  case None
  then show "split_on d s = [w] \<Longrightarrow> w = s \<and> d \<notin> set s"
    by (simp add: split_once_None split_on_none)
next
  case (Some ab)
  then obtain a b where "s = a @ d # b" "d \<notin> set a"
    by (metis prod.exhaust split_once_Some)
  then show "split_on d s = [w] \<Longrightarrow> w = s \<and> d \<notin> set s"
    by (simp add: split_on_append)
qed

lemma split_on_pair:
  "split_on d s = [v, w] \<longleftrightarrow> s = v @ d # w \<and> d \<notin> set v \<and> d \<notin> set w"
proof (cases "split_once d s")
  case None
  then show ?thesis by (auto simp: split_once_None split_on_none)
next
  case (Some ab)
  then obtain a b where s: "s = a @ d # b" "d \<notin> set a"
    by (metis prod.exhaust split_once_Some)
  have eq: "v @ d # w = a @ d # b \<and> d \<notin> set v \<longleftrightarrow> v = a \<and> w = b"
    using s(2) by (metis split_once_Some option.inject prod.inject)
  have "split_on d s = [v, w] \<longleftrightarrow> v = a \<and> split_on d b = [w]"
    using s by (auto simp: split_on_append)
  also have "\<dots> \<longleftrightarrow> v = a \<and> w = b \<and> d \<notin> set w"
    using split_on_single [of d b w] split_on_none [of d b] by auto
  also have "\<dots> \<longleftrightarrow> s = v @ d # w \<and> d \<notin> set v \<and> d \<notin> set w"
    using eq s(1) by auto
  finally show ?thesis .
qed

lemma split_middle_pair:
  "split_middle_slash s = SlashPair l r \<longleftrightarrow>
     s = l @ CHR ''/'' # r \<and> CHR ''/'' \<notin> set l \<and> CHR ''/'' \<notin> set r \<and> l \<noteq> [] \<and> r \<noteq> []"
proof -
  have "split_middle_slash s = SlashPair l r \<longleftrightarrow>
      split_on CHR ''/'' s = [l, r] \<and> l \<noteq> [] \<and> r \<noteq> []"
    by (auto simp: split_middle_slash_def split: list.splits)
  then show ?thesis by (auto simp: split_on_pair)
qed

lemma split_on_length: "length (split_on d s) = Suc (length (filter (\<lambda>c. c = d) s))"
  by (induction s) (auto split: list.splits)

lemma split_middle_none: "split_middle_slash s = NoSlash \<longleftrightarrow> CHR ''/'' \<notin> set s"
proof -
  have "split_middle_slash s = NoSlash \<longleftrightarrow> length (split_on CHR ''/'' s) = 1"
    by (auto simp: split_middle_slash_def length_Suc_conv split: list.splits)
  then show ?thesis by (auto simp: split_on_length filter_empty_conv)
qed

lemma split_middle_invalid:
  "split_middle_slash s = InvalidSlash \<longleftrightarrow>
     1 < length (filter (\<lambda>c. c = CHR ''/'') s) \<or> prefix ''/'' s \<or> suffix ''/'' s"
proof (cases "length (filter (\<lambda>c. c = CHR ''/'') s) = 1")
  case True
  then have "length (split_on CHR ''/'' s) = 2" by (simp add: split_on_length)
  then obtain l r where lr: "split_on CHR ''/'' s = [l, r]"
    by (auto simp: numeral_2_eq_2 length_Suc_conv)
  then have s: "s = l @ CHR ''/'' # r" "CHR ''/'' \<notin> set l" "CHR ''/'' \<notin> set r"
    by (auto simp: split_on_pair)
  have "prefix ''/'' s \<longleftrightarrow> l = []" using s by (cases l) auto
  moreover have "suffix ''/'' s \<longleftrightarrow> r = []"
    using s by (cases r rule: rev_cases) (auto simp: suffix_def)
  ultimately show ?thesis using lr True by (simp add: split_middle_slash_def)
next
  case False
  show ?thesis
  proof (cases "CHR ''/'' \<in> set s")
    case True
    then have "length (filter (\<lambda>c. c = CHR ''/'') s) \<noteq> 0" by (auto simp: filter_empty_conv)
    with False have "1 < length (filter (\<lambda>c. c = CHR ''/'') s)" by linarith
    moreover from this have "2 < length (split_on CHR ''/'' s)" by (simp add: split_on_length)
    ultimately show ?thesis
      by (auto simp: split_middle_slash_def split: list.splits)
  next
    case False
    then have "\<not> prefix ''/'' s" "\<not> suffix ''/'' s" by (auto simp: prefix_def suffix_def)
    moreover have "filter (\<lambda>c. c = CHR ''/'') s = []"
      using \<open>CHR ''/'' \<notin> set s\<close> by (auto simp: filter_empty_conv)
    ultimately show ?thesis using False by (simp add: split_middle_slash_def split_on_none)
  qed
qed

lemma check_structure_cases:
  "check_structure s q =
     (if \<not> list_all (\<lambda>c. is_upper c \<or> is_digit c \<or> c = CHR ''/'' \<or> (q \<and> c = CHR ''?'')) s
      then Inl InvalidCharacter
      else if split_middle_slash s \<noteq> InvalidSlash then Inr ()
      else if length (split_on CHR ''/'' s) > 2 then Inl TooManySlashes else Inl EdgeSlash)"
  unfolding check_structure_def split_middle_invalid
  by (auto simp: list_all_iff split_on_length)

section \<open>Properties\<close>

text \<open>
  The structural check accepts a normalised text exactly when its characters are allowed and
  the parser can split it (no slash, or one slash with text on both sides); the three errors are
  reported in the order charset, slash count, slash position.
\<close>

theorem check_structure_iff:
  "check_structure s q =
     (if \<not> list_all (\<lambda>c. is_upper c \<or> is_digit c \<or> c = CHR ''/'' \<or> (q \<and> c = CHR ''?'')) s
      then Inl InvalidCharacter
      else if split_middle_slash s \<noteq> InvalidSlash then Inr ()
      else if length (split_on CHR ''/'' s) > 2 then Inl TooManySlashes else Inl EdgeSlash)"
  by (rule check_structure_cases)

lemma parse_pair:
  assumes "clean l" and "clean r" and "CHR ''/'' \<notin> set l" and "CHR ''/'' \<notin> set r"
    and "l \<noteq> []" and "r \<noteq> []"
  shows "parse (l @ CHR ''/'' # r) =
    \<lparr>normalized = l @ CHR ''/'' # r, base = fst (resolve_pair l r), modifier = snd (resolve_pair l r)\<rparr>"
proof -
  have "clean (l @ CHR ''/'' # r)" using assms by (simp add: clean_def)
  then show ?thesis
    using assms split_middle_pair [of "l @ CHR ''/'' # r" l r]
    by (simp add: parse_def clean_normalize split: prod.splits)
qed

lemma pair_order:
  assumes "CHR ''/'' \<notin> set l" and "CHR ''/'' \<notin> set r" and "l @ CHR ''/'' # r = r @ CHR ''/'' # l"
  shows "l = r"
  using assms by (metis split_once_Some option.inject prod.inject)

text \<open>
  C37. The duplicate identity of a portable callsign does not depend on the order of its two
  components, except when both or neither look like a callsign and no length decides: then
  \<open>l/r\<close> and \<open>r/l\<close> are different stations.
\<close>

theorem dupe_identity_swap:
  assumes "clean l" and "clean r" and "CHR ''/'' \<notin> set l" and "CHR ''/'' \<notin> set r"
    and "l \<noteq> []" and "r \<noteq> []"
  shows "dupe_identity (l @ CHR ''/'' # r) = dupe_identity (r @ CHR ''/'' # l) \<longleftrightarrow>
    l = r \<or> is_callsign_like l \<noteq> is_callsign_like r \<or>
    (is_callsign_like l \<and> is_callsign_like r \<and> length l \<noteq> length r)"
  using assms pair_order [of l r]
  by (auto simp: dupe_identity_def parse_pair resolve_pair_def split: bool.splits)

theorem dupe_identity_swap_witness:
  "dupe_identity ''W1AW/VE3'' = dupe_identity ''VE3/W1AW''
   \<and> dupe_identity ''K1A/W1B'' \<noteq> dupe_identity ''W1B/K1A''"
  using dupe_identity_swap [of "''W1AW''" "''VE3''"] dupe_identity_swap [of "''K1A''" "''W1B''"]
  by (simp add: clean_def is_callsign_like_def char_class_defs)

lemma dupe_identity_no_slash: "clean s \<Longrightarrow> CHR ''/'' \<notin> set s \<Longrightarrow> dupe_identity s = s"
  by (simp add: dupe_identity_def parse_def clean_normalize split_middle_none [THEN iffD2])

text \<open>
  For callsigns the query check accepts, taking the duplicate identity is idempotent: an
  identity stored in a contact is its own identity.
\<close>

theorem dupe_identity_idem:
  assumes "check_structure (normalize s) True = Inr ()"
  shows "dupe_identity (dupe_identity s) = dupe_identity s"
proof -
  define n where "n = normalize s"
  have cl: "clean n"
    using assms by (auto simp: check_structure_def clean_def n_def split: if_splits)
  have same: "parse n = parse s" by (simp add: parse_def n_def)
  have "split_middle_slash n \<noteq> InvalidSlash"
    using assms by (auto simp: check_structure_cases n_def split: if_splits)
  then consider "CHR ''/'' \<notin> set n"
    | l r where "n = l @ CHR ''/'' # r" "CHR ''/'' \<notin> set l" "CHR ''/'' \<notin> set r" "l \<noteq> []" "r \<noteq> []"
    by (cases "split_middle_slash n") (auto simp: split_middle_none split_middle_pair)
  then have "dupe_identity (dupe_identity n) = dupe_identity n"
  proof cases
    case 1
    with cl show ?thesis by (simp add: dupe_identity_no_slash)
  next
    case 2
    with cl have "clean l" "clean r" by (auto simp: clean_def)
    with 2 have "dupe_identity n \<in> {l, r, n}" and "dupe_identity n = n \<or> dupe_identity n \<in> {l, r}"
      by (auto simp: dupe_identity_def parse_pair resolve_pair_def split: bool.splits)
    with 2 \<open>clean l\<close> \<open>clean r\<close> show ?thesis by (auto simp: dupe_identity_no_slash)
  qed
  moreover have "dupe_identity n = dupe_identity s" by (simp only: dupe_identity_def same)
  ultimately show ?thesis by (simp only:)
qed

theorem dupe_identity_idem_witness:
  "check_structure (normalize '' dl/w1aw '') True = Inr ()
   \<and> dupe_identity (dupe_identity '' dl/w1aw '') = dupe_identity '' dl/w1aw ''"
proof -
  have h: "check_structure (normalize '' dl/w1aw '') True = Inr ()" by code_simp
  from dupe_identity_idem [OF h] h show ?thesis by simp
qed

end
