(* ===== verification/Bands.thy ===== *)
theory Bands
  imports Prelude
begin

text \<open>
  \<open>backend/src/bands.rs\<close> and \<open>band_for_frequency\<close> of \<open>radio-io/src/bands.rs\<close>: the band catalog of
  an IARU region, read from CSV. The \<open>csv\<close> crate is outside the model: a file is its header and
  its rows, each row parsed or an error text. The lemmas show that an accepted catalog answers
  every frequency and every name with at most one band.
\<close>

section \<open>The code\<close>

record band =
  band_region :: int
  band_name :: string
  lower_hz :: int
  upper_hz :: int
  default_ssb :: string
  sort_order :: int
  band_cabrillo :: string

record band_csv_row =
  row_band :: string
  row_start :: string
  row_end :: string
  row_cabrillo :: string

datatype frequency_error = FrequencyEmpty | NotDecimalKhz | OutsideRange | BadFraction | NotPositive

datatype band_error =
    UnknownRegion int
  | WrongHeader "string list"
  | RowError nat string
  | EmptyName nat
  | DuplicateName nat string
  | InvalidStart nat frequency_error
  | InvalidEnd nat frequency_error
  | StartNotLower nat string
  | EmptyCabrillo nat
  | EmptyCatalog
  | Overlap string string
  | FileError string
  | BothFailed band_error band_error

definition parse_khz_as_hz :: "string \<Rightarrow> frequency_error + int" where
  "parse_khz_as_hz value =
     (if value = [] then Inl FrequencyEmpty
      else (case (case split_once CHR ''.'' value of
                    Some (whole, []) \<Rightarrow> None
                  | Some parts \<Rightarrow> Some parts
                  | None \<Rightarrow> Some (value, [])) of
        None \<Rightarrow> Inl NotDecimalKhz
      | Some (whole, fraction) \<Rightarrow>
          if whole = [] \<or> \<not> list_all is_digit whole \<or> \<not> list_all is_digit fraction
             \<or> 3 < length fraction
          then Inl NotDecimalKhz
          else (case parse_signed 64 whole of
            None \<Rightarrow> Inl OutsideRange
          | Some whole \<Rightarrow>
              (case (if fraction = [] then Some 0
                     else map_option (\<lambda>f. f * 10 ^ (3 - length fraction)) (parse_signed 64 fraction)) of
                 None \<Rightarrow> Inl BadFraction
               | Some fraction_hz \<Rightarrow>
                   (case Option.bind (checked_i64 (whole * 1000)) (\<lambda>w. checked_i64 (w + fraction_hz)) of
                      None \<Rightarrow> Inl OutsideRange
                    | Some hz \<Rightarrow> if hz \<le> 0 then Inl NotPositive else Inr hz)))))"

definition default_ssb_mode :: "string \<Rightarrow> int \<Rightarrow> string" where
  "default_ssb_mode name lower =
     (if eq_ignore_case name ''60m'' \<or> 10000000 \<le> lower then ''USB'' else ''LSB'')"

fun first_overlap :: "band list \<Rightarrow> (string \<times> string) option" where
  "first_overlap (previous # current # rest) =
     (if lower_hz current \<le> upper_hz previous
      then Some (band_name previous, band_name current)
      else first_overlap (current # rest))"
| "first_overlap _ = None"

definition validate_non_overlapping :: "band list \<Rightarrow> band_error + unit" where
  "validate_non_overlapping bands =
     (case first_overlap (sort_key lower_hz bands) of
        Some (a, b) \<Rightarrow> Inl (Overlap a b)
      | None \<Rightarrow> Inr ())"

text \<open>The body of the row loop; \<open>names\<close> holds the lower-case names seen before.\<close>

definition band_of_row :: "int \<Rightarrow> nat \<Rightarrow> string list \<Rightarrow> band_csv_row \<Rightarrow> band_error + band" where
  "band_of_row region index names row =
     (let line = index + 2; name = trim (row_band row); cabrillo = trim (row_cabrillo row)
      in if name = [] then Inl (EmptyName line)
         else if to_lower name \<in> set names then Inl (DuplicateName line name)
         else (case parse_khz_as_hz (trim (row_start row)) of
           Inl e \<Rightarrow> Inl (InvalidStart line e)
         | Inr lower \<Rightarrow>
             (case parse_khz_as_hz (trim (row_end row)) of
                Inl e \<Rightarrow> Inl (InvalidEnd line e)
              | Inr upper \<Rightarrow>
                  if upper \<le> lower then Inl (StartNotLower line name)
                  else if cabrillo = [] then Inl (EmptyCabrillo line)
                  else Inr \<lparr>band_region = region, band_name = name, lower_hz = lower, upper_hz = upper,
                         default_ssb = default_ssb_mode name lower, sort_order = int (index + 1),
                         band_cabrillo = cabrillo\<rparr>)))"

fun load_rows :: "int \<Rightarrow> nat \<Rightarrow> string list \<Rightarrow> (string + band_csv_row) list \<Rightarrow> band_error + band list" where
  "load_rows region index names [] = Inr []"
| "load_rows region index names (Inl error # rows) = Inl (RowError (index + 2) error)"
| "load_rows region index names (Inr row # rows) =
     (case band_of_row region index names row of
        Inl e \<Rightarrow> Inl e
      | Inr b \<Rightarrow>
          (case load_rows region (index + 1) (to_lower (trim (row_band row)) # names) rows of
             Inl e \<Rightarrow> Inl e
           | Inr bs \<Rightarrow> Inr (b # bs)))"

type_synonym band_file = "string + string list \<times> (string + band_csv_row) list"

definition load_band_file :: "band_file \<Rightarrow> int \<Rightarrow> band_error + band list" where
  "load_band_file file region =
     (case file of
        Inl error \<Rightarrow> Inl (FileError error)
      | Inr (headers, rows) \<Rightarrow>
          if headers \<noteq> [''band'', ''start'', ''end'', ''cabrillo''] then Inl (WrongHeader headers)
          else (case load_rows region 0 [] rows of
            Inl e \<Rightarrow> Inl e
          | Inr bands \<Rightarrow>
              if bands = [] then Inl EmptyCatalog
              else (case validate_non_overlapping bands of Inl e \<Rightarrow> Inl e | Inr _ \<Rightarrow> Inr bands)))"

definition load_region_bands :: "band_file \<Rightarrow> band_file \<Rightarrow> int \<Rightarrow> band_error + band list" where
  "load_region_bands user_file installed_file region =
     (if \<not> (1 \<le> region \<and> region \<le> 3) then Inl (UnknownRegion region)
      else (case load_band_file user_file region of
        Inr bands \<Rightarrow> Inr bands
      | Inl user_error \<Rightarrow>
          (case load_band_file installed_file region of
             Inr bands \<Rightarrow> Inr bands
           | Inl installed_error \<Rightarrow> Inl (BothFailed user_error installed_error))))"

definition band_by_name :: "band list \<Rightarrow> string \<Rightarrow> band option" where
  "band_by_name bands name =
     (let normalized = trim name in find (\<lambda>b. eq_ignore_case (band_name b) normalized) bands)"

text \<open>The frequency is a \<open>u64\<close>; above \<open>i64::MAX\<close> the conversion fails.\<close>

definition band_for_frequency :: "band list \<Rightarrow> nat \<Rightarrow> band option" where
  "band_for_frequency bands frequency_hz =
     (if i64_max < int frequency_hz then None
      else find (\<lambda>b. lower_hz b \<le> int frequency_hz \<and> int frequency_hz \<le> upper_hz b) bands)"

section \<open>Frequencies\<close>

lemma parse_khz_range:
  assumes "parse_khz_as_hz value = Inr hz"
  shows "0 < hz \<and> hz \<le> i64_max"
  using assms
  by (auto simp: parse_khz_as_hz_def checked_i64_def
      split: if_splits option.splits list.splits bind_splits prod.splits)

lemma split_once_here: "d \<notin> set a \<Longrightarrow> split_once d (a @ d # b) = Some (a, b)"
  by (simp add: split_once_Some)

text \<open>
  A frequency printed in kilohertz with three decimals is read back to the same number of
  hertz, over the whole range of positive \<open>i64\<close> values.
\<close>

theorem parse_khz_roundtrip:
  assumes "0 < hz" and "hz \<le> i64_max"
  shows "parse_khz_as_hz (dec_string (nat (hz div 1000)) @ ''.'' @ zero_padded 3 (hz mod 1000)) = Inr hz"
proof -
  let ?w = "dec_string (nat (hz div 1000))" and ?f = "zero_padded 3 (hz mod 1000)"
  have w: "list_all is_digit ?w" "?w \<noteq> []" "int (dec_value ?w) = hz div 1000"
    using assms by simp_all
  have f: "length ?f = 3" "list_all is_digit ?f" "int (dec_value ?f) = hz mod 1000"
    using zero_padded_nonneg [of "hz mod 1000" 3] by simp_all
  have dot: "CHR ''.'' \<notin> set ?w"
    using w(1) by (auto simp: list_all_iff is_digit_def)
  have fne: "?f \<noteq> []" using f(1) by auto
  then obtain c cs where cf: "?f = c # cs" by (cases ?f) auto
  have pw: "parse_signed 64 ?w = Some (hz div 1000)"
    using parse_signed_digits [of ?w 64] w assms by (simp add: digits_only_def i64_max_def)
  have pf: "parse_signed 64 ?f = Some (hz mod 1000)"
    using parse_signed_digits [of ?f 64] f fne by (simp add: digits_only_def)
  have sum: "hz div 1000 * 1000 + hz mod 1000 = hz" by simp
  have "0 \<le> hz div 1000 * 1000" "hz div 1000 * 1000 \<le> hz" using assms by auto
  then have "checked_i64 (hz div 1000 * 1000) = Some (hz div 1000 * 1000)"
    and "checked_i64 (hz div 1000 * 1000 + hz mod 1000) = Some hz"
    using assms unfolding sum by (auto simp: checked_i64_def i64_min_def)
  then have b: "Option.bind (checked_i64 (hz div 1000 * 1000)) (\<lambda>w. checked_i64 (w + hz mod 1000)) = Some hz"
    by simp
  have "split_once CHR ''.'' (?w @ CHR ''.'' # c # cs) = Some (?w, c # cs)"
    by (rule split_once_here [OF dot])
  then show ?thesis
    using w f pw pf b assms(1) unfolding cf
    by (simp add: parse_khz_as_hz_def)
qed

theorem parse_khz_roundtrip_witness:
  "parse_khz_as_hz (dec_string (nat (14074500 div 1000)) @ ''.'' @ zero_padded 3 (14074500 mod 1000))
     = Inr 14074500"
  by (rule parse_khz_roundtrip) (simp_all add: i64_max_def)

section \<open>Catalogs\<close>

lemma band_of_row_facts:
  assumes "band_of_row region index names row = Inr b"
  shows "band_name b = trim (row_band row) \<and> to_lower (band_name b) \<notin> set names
    \<and> lower_hz b < upper_hz b \<and> 0 < lower_hz b \<and> upper_hz b \<le> i64_max
    \<and> sort_order b = int (index + 1) \<and> band_region b = region"
  using assms parse_khz_range
  by (auto simp: band_of_row_def Let_def split: if_splits sum.splits)

lemma load_rows_facts:
  "load_rows region index names rows = Inr bands \<Longrightarrow>
     distinct (map (to_lower \<circ> band_name) bands)
     \<and> (\<forall>b\<in>set bands. to_lower (band_name b) \<notin> set names \<and> trim (band_name b) = band_name b
          \<and> lower_hz b < upper_hz b \<and> upper_hz b \<le> i64_max)
     \<and> (\<forall>i<length bands. sort_order (bands ! i) = int (index + i + 1))"
proof (induction region index names rows arbitrary: bands rule: load_rows.induct)
  case (3 region index names row rows)
  from "3.prems" obtain b bs where b: "band_of_row region index names row = Inr b"
    and bs: "load_rows region (index + 1) (to_lower (trim (row_band row)) # names) rows = Inr bs"
    and bands: "bands = b # bs"
    by (auto split: sum.splits)
  note row = band_of_row_facts [OF b]
  note rest = "3.IH" [OF b bs]
  have "\<forall>i<length (b # bs). sort_order ((b # bs) ! i) = int (index + i + 1)"
    using row rest by (auto simp: nth_Cons split: nat.splits)
  with row rest bands show ?case by auto
qed auto

lemma first_overlap_None:
  "first_overlap bs = None \<Longrightarrow> sorted (map lower_hz bs) \<Longrightarrow> \<forall>b\<in>set bs. lower_hz b < upper_hz b \<Longrightarrow>
     sorted_wrt (\<lambda>a b. upper_hz a < lower_hz b) bs"
proof (induction bs rule: first_overlap.induct)
  case (1 previous current rest)
  then have tail: "sorted_wrt (\<lambda>a b. upper_hz a < lower_hz b) (current # rest)"
    and gap: "upper_hz previous < lower_hz current"
    by (auto split: if_splits)
  have "upper_hz previous < lower_hz b" if "b \<in> set (current # rest)" for b
    using gap "1.prems"(2) that by auto
  with tail show ?case by auto
qed auto

lemma apart:
  assumes "validate_non_overlapping bands = Inr ()" and "\<forall>b\<in>set bands. lower_hz b < upper_hz b"
    and "a \<in> set bands" and "b \<in> set bands"
    and "lower_hz a \<le> f" and "f \<le> upper_hz a" and "lower_hz b \<le> f" and "f \<le> upper_hz b"
  shows "a = b"
proof (rule ccontr)
  let ?s = "sort_key lower_hz bands"
  assume ne: "a \<noteq> b"
  have "sorted_wrt (\<lambda>a b. upper_hz a < lower_hz b) ?s"
    using assms(1,2) by (intro first_overlap_None)
      (auto simp: validate_non_overlapping_def split: option.splits)
  moreover obtain i j where "i < length ?s" "j < length ?s" "?s ! i = a" "?s ! j = b"
    using assms(3,4) by (metis in_set_conv_nth set_sort)
  ultimately have "upper_hz a < lower_hz b \<or> upper_hz b < lower_hz a"
    using ne by (metis linorder_neqE_nat sorted_wrt_nth_less)
  with assms(5-8) show False by linarith
qed

text \<open>
  A catalog that loads is unambiguous: every frequency inside a band is answered with that
  band and no other, every band is found by its name in any case and with surrounding blanks, and
  the sort orders number the rows from one.
\<close>

theorem loaded_bands_unambiguous:
  assumes "load_band_file file region = Inr bands"
  shows "(\<forall>b\<in>set bands. \<forall>f. lower_hz b \<le> int f \<longrightarrow> int f \<le> upper_hz b \<longrightarrow>
            band_for_frequency bands f = Some b)
    \<and> (\<forall>b\<in>set bands. \<forall>name. eq_ignore_case (band_name b) (trim name) \<longrightarrow>
            band_by_name bands name = Some b)
    \<and> (\<forall>i<length bands. sort_order (bands ! i) = int (i + 1))"
proof -
  obtain headers rows where rows: "load_rows region 0 [] rows = Inr bands"
    and apart_ok: "validate_non_overlapping bands = Inr ()"
    using assms by (auto simp: load_band_file_def split: sum.splits if_splits)
  note facts = load_rows_facts [OF rows]
  have freq: "band_for_frequency bands f = Some b"
    if b: "b \<in> set bands" and f: "lower_hz b \<le> int f" "int f \<le> upper_hz b" for b f
  proof -
    let ?P = "\<lambda>b. lower_hz b \<le> int f \<and> int f \<le> upper_hz b"
    obtain c where c: "find ?P bands = Some c"
      using b f by (cases "find ?P bands") (auto simp: find_None_iff)
    then have "c \<in> set bands" "?P c" by (auto simp: find_Some_iff)
    with apart [OF apart_ok] facts b f have "c = b" by blast
    moreover have "int f \<le> i64_max" using facts b f by force
    ultimately show ?thesis using c by (simp add: band_for_frequency_def)
  qed
  have name: "band_by_name bands n = Some b"
    if b: "b \<in> set bands" and n: "eq_ignore_case (band_name b) (trim n)" for b n
  proof -
    let ?P = "\<lambda>b. eq_ignore_case (band_name b) (trim n)"
    obtain c where c: "find ?P bands = Some c"
      using b n by (cases "find ?P bands") (auto simp: find_None_iff)
    then have cs: "c \<in> set bands" "?P c" by (auto simp: find_Some_iff)
    then have "(to_lower \<circ> band_name) c = (to_lower \<circ> band_name) b"
      using n by (simp add: eq_ignore_case_def)
    moreover have "inj_on (to_lower \<circ> band_name) (set bands)" using facts by (simp add: distinct_map)
    ultimately have "c = b" using b cs(1) by (meson inj_onD)
    with c show ?thesis by (simp add: band_by_name_def)
  qed
  from freq name facts show ?thesis by simp
qed

theorem loaded_bands_unambiguous_witness:
  "\<exists>b. load_band_file (Inr ([''band'', ''start'', ''end'', ''cabrillo''],
       [Inr \<lparr>row_band = ''40m'', row_start = ''7000'', row_end = ''7300'', row_cabrillo = ''7000''\<rparr>])) 2
       = Inr [b] \<and> band_for_frequency [b] 7035000 = Some b"
proof -
  have l: "load_band_file (Inr ([''band'', ''start'', ''end'', ''cabrillo''],
       [Inr \<lparr>row_band = ''40m'', row_start = ''7000'', row_end = ''7300'', row_cabrillo = ''7000''\<rparr>])) 2
       = Inr [\<lparr>band_region = 2, band_name = ''40m'', lower_hz = 7000000, upper_hz = 7300000,
               default_ssb = ''LSB'', sort_order = 1, band_cabrillo = ''7000''\<rparr>]" by code_simp
  show ?thesis using loaded_bands_unambiguous [OF l] l by fastforce
qed

end
