(* ===== verification/Dxcc.thy ===== *)
theory Dxcc
  imports Callsign
begin

text \<open>
  \<open>backend/src/dxcc.rs\<close>: the DXCC entity of a callsign. A database is built from the records of a
  CTY CSV file (the \<open>csv\<close> crate is outside the model: a record is an error text or its trimmed
  cells) and asked for the exact rule of a callsign or the longest prefix rule. Coordinates and
  offsets are \<open>f64\<close> values the code only copies: they are kept as the texts they were parsed from.
\<close>

section \<open>Database\<close>

record dxcc_entity =
  ent_country_name :: string
  ent_adif :: nat
  ent_cq_zone :: nat
  ent_itu_zone :: nat
  ent_continent :: string
  ent_latitude :: string
  ent_longitude :: string
  ent_utc_offset :: string
  ent_primary_prefix :: string
  ent_waedc_cq_list :: bool

record dxcc_rule =
  rule_pattern :: string
  rule_exact :: bool
  entity_index :: nat
  rule_cq_zone :: "nat option"
  rule_itu_zone :: "nat option"
  rule_continent :: "string option"
  rule_latitude :: "string option"
  rule_longitude :: "string option"
  rule_utc_offset :: "string option"

record dxcc_database =
  entities :: "dxcc_entity list"
  dxcc_rules :: "dxcc_rule list"

record dxcc_info =
  info_country_name :: string
  info_adif :: nat
  info_cq_zone :: nat
  info_itu_zone :: nat
  info_continent :: string
  info_latitude :: string
  info_longitude :: string
  info_utc_offset :: string
  info_primary_prefix :: string
  info_waedc_cq_list :: bool

datatype dxcc_error =
    InvalidRow nat string
  | WrongFieldCount nat nat
  | MissingField nat nat
  | InvalidField string
  | InvalidLatLon string
  | UnterminatedModifier string
  | InvalidModifiers string
  | InvalidAlias string

section \<open>Parsing\<close>

definition parse_u8_field :: "string \<Rightarrow> string \<Rightarrow> dxcc_error + nat" where
  "parse_u8_field value label =
     (case parse_unsigned 8 (trim value) of None \<Rightarrow> Inl (InvalidField label) | Some n \<Rightarrow> Inr n)"

definition parse_u16_field :: "string \<Rightarrow> string \<Rightarrow> dxcc_error + nat" where
  "parse_u16_field value label =
     (case parse_unsigned 16 (trim value) of None \<Rightarrow> Inl (InvalidField label) | Some n \<Rightarrow> Inr n)"

definition parse_f64_field :: "string \<Rightarrow> string \<Rightarrow> dxcc_error + string" where
  "parse_f64_field value label =
     (if is_f64_text (trim value) then Inr (trim value) else Inl (InvalidField label))"

definition parse_wrapped_modifier ::
  "string \<Rightarrow> char \<Rightarrow> char \<Rightarrow> (string \<Rightarrow> dxcc_rule \<Rightarrow> dxcc_error + dxcc_rule) \<Rightarrow> dxcc_rule
     \<Rightarrow> dxcc_error + (string \<times> dxcc_rule) option" where
  "parse_wrapped_modifier input opn close apply_to rule =
     (if \<not> prefix [opn] input then Inr None
      else (case split_once close (tl input) of
        None \<Rightarrow> Inl (UnterminatedModifier input)
      | Some (value, remaining) \<Rightarrow>
          (case apply_to value rule of Inl e \<Rightarrow> Inl e | Inr rule \<Rightarrow> Inr (Some (remaining, rule)))))"

definition apply_cq_zone :: "string \<Rightarrow> dxcc_rule \<Rightarrow> dxcc_error + dxcc_rule" where
  "apply_cq_zone value rule =
     (case parse_u8_field value ''override CQ zone'' of
        Inl e \<Rightarrow> Inl e | Inr n \<Rightarrow> Inr (rule\<lparr>rule_cq_zone := Some n\<rparr>))"

definition apply_itu_zone :: "string \<Rightarrow> dxcc_rule \<Rightarrow> dxcc_error + dxcc_rule" where
  "apply_itu_zone value rule =
     (case parse_u8_field value ''override ITU zone'' of
        Inl e \<Rightarrow> Inl e | Inr n \<Rightarrow> Inr (rule\<lparr>rule_itu_zone := Some n\<rparr>))"

definition apply_continent :: "string \<Rightarrow> dxcc_rule \<Rightarrow> dxcc_error + dxcc_rule" where
  "apply_continent value rule = Inr (rule\<lparr>rule_continent := Some (trim value)\<rparr>)"

definition apply_utc_offset :: "string \<Rightarrow> dxcc_rule \<Rightarrow> dxcc_error + dxcc_rule" where
  "apply_utc_offset value rule =
     (case parse_f64_field value ''override UTC offset'' of
        Inl e \<Rightarrow> Inl e | Inr n \<Rightarrow> Inr (rule\<lparr>rule_utc_offset := Some n\<rparr>))"

definition apply_lat_lon :: "string \<Rightarrow> dxcc_rule \<Rightarrow> dxcc_error + dxcc_rule" where
  "apply_lat_lon value rule =
     (case split_once CHR ''/'' value of
        None \<Rightarrow> Inl (InvalidLatLon value)
      | Some (latitude, longitude) \<Rightarrow>
          (case parse_f64_field latitude ''override latitude'' of
             Inl e \<Rightarrow> Inl e
           | Inr lat \<Rightarrow>
               (case parse_f64_field longitude ''override longitude'' of
                  Inl e \<Rightarrow> Inl e
                | Inr lon \<Rightarrow> Inr (rule\<lparr>rule_latitude := Some lat, rule_longitude := Some lon\<rparr>))))"

text \<open>The five attempts of the loop body, in the order of the code.\<close>

definition modifier_forms :: "(char \<times> char \<times> (string \<Rightarrow> dxcc_rule \<Rightarrow> dxcc_error + dxcc_rule)) list" where
  "modifier_forms =
     [(CHR ''('', CHR '')'', apply_cq_zone),
      (CHR ''['', CHR '']'', apply_itu_zone),
      (CHR ''{'', CHR ''}'', apply_continent),
      (CHR ''~'', CHR ''~'', apply_utc_offset),
      (CHR ''<'', CHR ''>'', apply_lat_lon)]"

fun try_modifiers ::
  "(char \<times> char \<times> (string \<Rightarrow> dxcc_rule \<Rightarrow> dxcc_error + dxcc_rule)) list \<Rightarrow> string \<Rightarrow> dxcc_rule
     \<Rightarrow> dxcc_error + (string \<times> dxcc_rule) option" where
  "try_modifiers [] input rule = Inr None"
| "try_modifiers ((opn, close, apply_to) # forms) input rule =
     (case parse_wrapped_modifier input opn close apply_to rule of
        Inl e \<Rightarrow> Inl e
      | Inr (Some result) \<Rightarrow> Inr (Some result)
      | Inr None \<Rightarrow> try_modifiers forms input rule)"

lemma parse_wrapped_shorter:
  "parse_wrapped_modifier input opn close f rule = Inr (Some (remaining, r)) \<Longrightarrow>
     length remaining < length input"
  by (cases input)
    (auto simp: parse_wrapped_modifier_def split_once_Some split: if_splits option.splits sum.splits)

lemma try_modifiers_shorter:
  "try_modifiers forms input rule = Inr (Some (remaining, r)) \<Longrightarrow> length remaining < length input"
  by (induction forms input rule rule: try_modifiers.induct)
    (auto split: sum.splits option.splits dest: parse_wrapped_shorter)

function parse_modifiers :: "string \<Rightarrow> string \<Rightarrow> dxcc_rule \<Rightarrow> dxcc_error + dxcc_rule" where
  "parse_modifiers token modifiers rule =
     (if modifiers = [] then Inr rule
      else (case try_modifiers modifier_forms modifiers rule of
        Inl e \<Rightarrow> Inl e
      | Inr (Some (remaining, rule)) \<Rightarrow> parse_modifiers token remaining rule
      | Inr None \<Rightarrow> Inl (InvalidModifiers token)))"
  by pat_completeness auto
termination
  by (relation "measure (\<lambda>(token, modifiers, rule). length modifiers)")
    (auto dest: try_modifiers_shorter)

declare parse_modifiers.simps [simp del]

definition parse_rule :: "string \<Rightarrow> nat \<Rightarrow> dxcc_error + dxcc_rule" where
  "parse_rule token index =
     (let rest = trim token;
          exact = prefix ''='' rest;
          rest = (if exact then drop 1 rest else rest);
          before = (\<lambda>c. c \<notin> {CHR ''('', CHR ''['', CHR ''<'', CHR ''{'', CHR ''~''});
          pattern = to_upper (trim (takeWhile before rest));
          rule = \<lparr>rule_pattern = pattern, rule_exact = exact, entity_index = index,
                  rule_cq_zone = None, rule_itu_zone = None, rule_continent = None,
                  rule_latitude = None, rule_longitude = None, rule_utc_offset = None\<rparr>
      in (case parse_modifiers token (dropWhile before rest) rule of
            Inl e \<Rightarrow> Inl e
          | Inr rule \<Rightarrow> if rule_pattern rule = [] then Inl (InvalidAlias token) else Inr rule))"

definition push_rule :: "dxcc_rule list \<Rightarrow> string \<Rightarrow> nat \<Rightarrow> dxcc_error + dxcc_rule list" where
  "push_rule rules token index =
     (case parse_rule token index of Inl e \<Rightarrow> Inl e | Inr rule \<Rightarrow> Inr (rules @ [rule]))"

definition record_field :: "string list \<Rightarrow> nat \<Rightarrow> nat \<Rightarrow> dxcc_error + string" where
  "record_field cells index row_number =
     (if index < length cells then Inr (trim (cells ! index)) else Inl (MissingField row_number index))"

definition parse_entity :: "string list \<Rightarrow> nat \<Rightarrow> dxcc_error + dxcc_entity" where
  "parse_entity cells row =
     (let field = (\<lambda>i. record_field cells i row);
          parsed = (\<lambda>i p label. (case field i of Inl e \<Rightarrow> Inl e | Inr t \<Rightarrow> p t label))
      in (case field 0 of Inl e \<Rightarrow> Inl e | Inr raw \<Rightarrow>
         (case field 1 of Inl e \<Rightarrow> Inl e | Inr country \<Rightarrow>
         (case parsed 2 parse_u16_field ''ADIF DXCC number'' of Inl e \<Rightarrow> Inl e | Inr adif \<Rightarrow>
         (case field 3 of Inl e \<Rightarrow> Inl e | Inr continent \<Rightarrow>
         (case parsed 4 parse_u8_field ''CQ zone'' of Inl e \<Rightarrow> Inl e | Inr cq \<Rightarrow>
         (case parsed 5 parse_u8_field ''ITU zone'' of Inl e \<Rightarrow> Inl e | Inr itu \<Rightarrow>
         (case (case field 6 of Inl e \<Rightarrow> Inl e | Inr t \<Rightarrow> parse_f64_field t ''latitude'') of
            Inl e \<Rightarrow> Inl e | Inr lat \<Rightarrow>
         (case (case field 7 of Inl e \<Rightarrow> Inl e | Inr t \<Rightarrow> parse_f64_field t ''longitude'') of
            Inl e \<Rightarrow> Inl e | Inr lon \<Rightarrow>
         (case (case field 8 of Inl e \<Rightarrow> Inl e | Inr t \<Rightarrow> parse_f64_field t ''UTC offset'') of
            Inl e \<Rightarrow> Inl e | Inr offset \<Rightarrow>
         Inr \<lparr>ent_country_name = country, ent_adif = adif, ent_cq_zone = cq, ent_itu_zone = itu,
              ent_continent = continent, ent_latitude = lat, ent_longitude = lon,
              ent_utc_offset = offset,
              ent_primary_prefix = dropWhile (\<lambda>c. c = CHR ''*'') raw,
              ent_waedc_cq_list = prefix ''*'' raw\<rparr>))))))))))"

fun split_whitespace :: "string \<Rightarrow> string list" where
  "split_whitespace [] = []"
| "split_whitespace (c # cs) =
     (if is_ws c then split_whitespace cs
      else (case cs of
              [] \<Rightarrow> [[c]]
            | d # _ \<Rightarrow>
                if is_ws d then [c] # split_whitespace cs
                else (case split_whitespace cs of [] \<Rightarrow> [[c]] | w # ws \<Rightarrow> (c # w) # ws)))"

fun push_aliases :: "dxcc_rule list \<Rightarrow> nat \<Rightarrow> string list \<Rightarrow> dxcc_error + dxcc_rule list" where
  "push_aliases rules index [] = Inr rules"
| "push_aliases rules index (token # tokens) =
     (let token = trim (rev (dropWhile (\<lambda>c. c = CHR '';'') (rev (trim token))))
      in if token = [] then push_aliases rules index tokens
         else (case push_rule rules token index of
           Inl e \<Rightarrow> Inl e
         | Inr rules \<Rightarrow> push_aliases rules index tokens))"

definition add_record :: "dxcc_database \<Rightarrow> nat \<Rightarrow> string list \<Rightarrow> dxcc_error + dxcc_database" where
  "add_record database row_number cells =
     (if list_all (\<lambda>field. trim field = []) cells then Inr database
      else if length cells \<noteq> 10 then Inl (WrongFieldCount row_number (length cells))
      else (case parse_entity cells row_number of
        Inl e \<Rightarrow> Inl e
      | Inr entity \<Rightarrow>
          (let index = length (entities database)
           in (case push_rule (dxcc_rules database) (ent_primary_prefix entity) index of
                 Inl e \<Rightarrow> Inl e
               | Inr rules \<Rightarrow>
                   (case record_field cells 9 row_number of
                      Inl e \<Rightarrow> Inl e
                    | Inr aliases \<Rightarrow>
                        (case push_aliases rules index (split_whitespace aliases) of
                           Inl e \<Rightarrow> Inl e
                         | Inr rules \<Rightarrow>
                             Inr \<lparr>entities = entities database @ [entity], dxcc_rules = rules\<rparr>))))))"

fun add_records :: "dxcc_database \<Rightarrow> nat \<Rightarrow> (string + string list) list \<Rightarrow> dxcc_error + dxcc_database" where
  "add_records database row_number [] = Inr database"
| "add_records database row_number (Inl error # records) = Inl (InvalidRow row_number error)"
| "add_records database row_number (Inr cells # records) =
     (case add_record database row_number cells of
        Inl e \<Rightarrow> Inl e
      | Inr database \<Rightarrow> add_records database (row_number + 1) records)"

definition dxcc_from_records :: "(string + string list) list \<Rightarrow> dxcc_error + dxcc_database" where
  "dxcc_from_records records = add_records \<lparr>entities = [], dxcc_rules = []\<rparr> 1 records"

section \<open>Lookup\<close>

definition info_for_rule :: "dxcc_database \<Rightarrow> dxcc_rule \<Rightarrow> dxcc_info" where
  "info_for_rule db rule =
     (let entity = entities db ! entity_index rule;
          or_else = (\<lambda>a b. (case a of Some x \<Rightarrow> x | None \<Rightarrow> b));
          zone_or_else = (\<lambda>a b. (case a of Some x \<Rightarrow> x | None \<Rightarrow> b))
      in \<lparr>info_country_name = ent_country_name entity,
          info_adif = ent_adif entity,
          info_cq_zone = zone_or_else (rule_cq_zone rule) (ent_cq_zone entity),
          info_itu_zone = zone_or_else (rule_itu_zone rule) (ent_itu_zone entity),
          info_continent = or_else (rule_continent rule) (ent_continent entity),
          info_latitude = or_else (rule_latitude rule) (ent_latitude entity),
          info_longitude = or_else (rule_longitude rule) (ent_longitude entity),
          info_utc_offset = or_else (rule_utc_offset rule) (ent_utc_offset entity),
          info_primary_prefix = ent_primary_prefix entity,
          info_waedc_cq_list = ent_waedc_cq_list entity\<rparr>)"

definition waedc :: "dxcc_database \<Rightarrow> dxcc_rule \<Rightarrow> bool" where
  "waedc db rule = ent_waedc_cq_list (entities db ! entity_index rule)"

text \<open>The loop of \<open>lookup_exact\<close> over the rules, with the best rule so far.\<close>

fun best_exact :: "dxcc_database \<Rightarrow> string \<Rightarrow> dxcc_rule option \<Rightarrow> dxcc_rule list \<Rightarrow> dxcc_rule option" where
  "best_exact db call best [] = best"
| "best_exact db call best (rule # rules) =
     (if \<not> rule_exact rule \<or> rule_pattern rule \<noteq> call then best_exact db call best rules
      else
        (let is_waedc = waedc db rule;
             best_is_waedc = (case best of Some b \<Rightarrow> waedc db b | None \<Rightarrow> False)
         in best_exact db call
              (if best = None \<or> (is_waedc \<and> \<not> best_is_waedc) then Some rule else best) rules))"

definition lookup_exact :: "dxcc_database \<Rightarrow> string \<Rightarrow> dxcc_info option" where
  "lookup_exact db call = map_option (info_for_rule db) (best_exact db call None (dxcc_rules db))"

text \<open>\<open>Iterator::max_by_key\<close>: the last of the elements with the greatest key.\<close>

fun max_by_key :: "('a \<Rightarrow> 'k::linorder) \<Rightarrow> 'a list \<Rightarrow> 'a option" where
  "max_by_key f [] = None"
| "max_by_key f (x # xs) =
     (case max_by_key f xs of
        None \<Rightarrow> Some x
      | Some y \<Rightarrow> if f y < f x then Some x else Some y)"

definition is_non_prefix_callsign_designator :: "string \<Rightarrow> bool" where
  "is_non_prefix_callsign_designator value \<longleftrightarrow>
     value \<in> {''MM'', ''M'', ''AM'', ''A'', ''E'', ''J'', ''P'', ''QRP'', ''QRPP'', ''AG'', ''AE'', ''KT''}"

definition is_prefix_like_callsign_component :: "string \<Rightarrow> bool" where
  "is_prefix_like_callsign_component value \<longleftrightarrow>
     \<not> list_ex is_digit value \<or> (value \<noteq> [] \<and> is_digit (last value))"

text \<open>
  \<open>portable_numeric_prefix\<close>: \<open>stem\<close> is what precedes the last group of digits of the call.
\<close>

definition portable_numeric_prefix :: "string \<Rightarrow> string \<Rightarrow> string option" where
  "portable_numeric_prefix call portable_number =
     (case dropWhile (\<lambda>c. \<not> is_digit c) (rev call) of
        [] \<Rightarrow> None
      | d # rest \<Rightarrow>
          (let stem = rev (dropWhile is_digit (d # rest))
           in if stem = [] then None else Some (stem @ portable_number)))"

definition prefix_from_component :: "string \<Rightarrow> string option" where
  "prefix_from_component component =
     (if component = [] \<or> \<not> list_all is_alnum component then None
      else (case dropWhile (\<lambda>c. \<not> is_digit c) (rev component) of
        d # rest \<Rightarrow> Some (rev (d # rest))
      | [] \<Rightarrow>
          (let letters = take 2 (filter is_alpha component)
           in if length letters = 2 then Some (letters @ ''0'') else None)))"

definition callsign_prefix :: "string \<Rightarrow> string option" where
  "callsign_prefix callsign =
     (let n = normalize callsign
      in if n = [] \<or> \<not> list_all (\<lambda>c. is_alnum c \<or> c = CHR ''/'') n then None
         else (case (case split_once CHR ''/'' n of
             None \<Rightarrow> Some n
           | Some (left, right) \<Rightarrow>
               if left = [] \<or> right = [] \<or> CHR ''/'' \<in> set right then None
               else if is_non_prefix_callsign_designator right then Some left
               else if list_all is_digit right then portable_numeric_prefix left right
               else (case (is_prefix_like_callsign_component left, is_prefix_like_callsign_component right) of
                 (True, False) \<Rightarrow> Some left
               | (False, True) \<Rightarrow> Some right
               | _ \<Rightarrow> if length left < length right then Some left else Some right)) of
           None \<Rightarrow> None
         | Some source \<Rightarrow> prefix_from_component source))"

definition lookup_direct :: "dxcc_database \<Rightarrow> string \<Rightarrow> dxcc_info option" where
  "lookup_direct db callsign =
     (let n = normalize callsign
      in (case lookup_exact db n of
            Some info \<Rightarrow> Some info
          | None \<Rightarrow>
              if callsign_prefix n = None then None
              else map_option (info_for_rule db)
                (max_by_key (\<lambda>rule. length (rule_pattern rule))
                  (filter (\<lambda>rule. \<not> rule_exact rule \<and> prefix (rule_pattern rule) n) (dxcc_rules db)))))"

definition split_slash_callsign :: "string \<Rightarrow> (string \<times> string) option" where
  "split_slash_callsign callsign =
     (case split_once CHR ''/'' callsign of
        None \<Rightarrow> None
      | Some (left, right) \<Rightarrow>
          if left = [] \<or> CHR ''/'' \<in> set right \<or> right = [] then None else Some (left, right))"

definition is_ignored_slash_suffix :: "string \<Rightarrow> bool" where
  "is_ignored_slash_suffix part \<longleftrightarrow>
     part \<in> {''M'', ''P'', ''MM'', ''QRP''} \<or> (length part = 1 \<and> list_all is_digit part)"

definition dxcc_lookup :: "dxcc_database \<Rightarrow> string \<Rightarrow> dxcc_info option" where
  "dxcc_lookup db callsign =
     (let n = normalize callsign
      in if n = [] then None
         else (case lookup_exact db n of
           Some info \<Rightarrow> Some info
         | None \<Rightarrow>
             (case split_slash_callsign n of
                None \<Rightarrow> lookup_direct db n
              | Some (left, right) \<Rightarrow>
                  if length left < length right then lookup_direct db left
                  else if is_ignored_slash_suffix right then lookup_direct db left
                  else (case lookup_direct db right of
                    Some info \<Rightarrow> Some info
                  | None \<Rightarrow> lookup_direct db left))))"

section \<open>A built database is well formed\<close>

definition rules_ok :: "nat \<Rightarrow> dxcc_rule list \<Rightarrow> bool" where
  "rules_ok n rules \<longleftrightarrow> (\<forall>r\<in>set rules. entity_index r < n \<and> rule_pattern r \<noteq> [])"

lemma apply_keeps:
  assumes "(opn, close, f) \<in> set modifier_forms" and "f value rule = Inr r"
  shows "entity_index r = entity_index rule \<and> rule_pattern r = rule_pattern rule
    \<and> rule_exact r = rule_exact rule"
  using assms
  by (auto simp: modifier_forms_def apply_cq_zone_def apply_itu_zone_def apply_continent_def
      apply_utc_offset_def apply_lat_lon_def split: sum.splits option.splits prod.splits)

lemma try_modifiers_keeps:
  "set forms \<subseteq> set modifier_forms \<Longrightarrow> try_modifiers forms input rule = Inr (Some (remaining, r)) \<Longrightarrow>
     entity_index r = entity_index rule \<and> rule_pattern r = rule_pattern rule
     \<and> rule_exact r = rule_exact rule"
proof (induction forms input rule rule: try_modifiers.induct)
  case (2 opn close f forms input rule)
  show ?case
  proof (cases "parse_wrapped_modifier input opn close f rule = Inr None")
    case True
    with 2 show ?thesis by simp
  next
    case False
    with "2.prems"(2) have "parse_wrapped_modifier input opn close f rule = Inr (Some (remaining, r))"
      by (auto split: sum.splits option.splits)
    then obtain v where "f v rule = Inr r"
      by (auto simp: parse_wrapped_modifier_def split: if_splits option.splits sum.splits)
    moreover have "(opn, close, f) \<in> set modifier_forms" using "2.prems"(1) by simp
    ultimately show ?thesis by (metis apply_keeps)
  qed
qed simp

lemma parse_modifiers_keeps:
  "parse_modifiers token modifiers rule = Inr r \<Longrightarrow>
     entity_index r = entity_index rule \<and> rule_pattern r = rule_pattern rule
     \<and> rule_exact r = rule_exact rule"
proof (induction token modifiers rule arbitrary: r rule: parse_modifiers.induct)
  case (1 token modifiers rule)
  show ?case
  proof (cases "modifiers = []")
    case True
    with "1.prems" show ?thesis by (simp add: parse_modifiers.simps)
  next
    case False
    then obtain remaining r1 where step: "try_modifiers modifier_forms modifiers rule = Inr (Some (remaining, r1))"
      and rest: "parse_modifiers token remaining r1 = Inr r"
      using "1.prems" by (subst (asm) parse_modifiers.simps) (auto split: sum.splits option.splits)
    show ?thesis
      using "1.IH" [OF False step refl refl rest] try_modifiers_keeps [OF _ step] by simp
  qed
qed

lemma parse_rule_facts:
  assumes "parse_rule token index = Inr r"
  shows "entity_index r = index \<and> rule_pattern r \<noteq> [] \<and> rule_exact r = prefix ''='' (trim token)"
  using assms
  by (auto simp: parse_rule_def Let_def split: sum.splits if_splits dest: parse_modifiers_keeps)

lemma push_rule_ok:
  "push_rule rules token index = Inr rules' \<Longrightarrow> index < n \<Longrightarrow> rules_ok n rules \<Longrightarrow>
     rules_ok n rules' \<and> set rules \<subseteq> set rules' \<and> (\<exists>r\<in>set rules'. entity_index r = index)"
  using parse_rule_facts by (fastforce simp: push_rule_def rules_ok_def split: sum.splits)

lemma push_aliases_ok:
  "push_aliases rules index tokens = Inr rules' \<Longrightarrow> index < n \<Longrightarrow> rules_ok n rules \<Longrightarrow>
     rules_ok n rules' \<and> set rules \<subseteq> set rules'"
proof (induction rules index tokens arbitrary: rules' rule: push_aliases.induct)
  case (2 rules index token tokens)
  then show ?case
    by (fastforce simp: Let_def split: if_splits sum.splits dest: push_rule_ok)
qed simp

definition database_ok :: "dxcc_database \<Rightarrow> bool" where
  "database_ok db \<longleftrightarrow> rules_ok (length (entities db)) (dxcc_rules db)
     \<and> (\<forall>i<length (entities db). \<exists>r\<in>set (dxcc_rules db). entity_index r = i)"

lemma add_record_ok:
  assumes "add_record db row cells = Inr db'" and "database_ok db"
  shows "database_ok db'"
proof (cases "list_all (\<lambda>field. trim field = []) cells")
  case True
  with assms show ?thesis by (simp add: add_record_def)
next
  case False
  let ?n = "length (entities db)"
  from assms(1) False obtain entity rules1 rules2 tokens
    where 1: "push_rule (dxcc_rules db) (ent_primary_prefix entity) ?n = Inr rules1"
      and 2: "push_aliases rules1 ?n tokens = Inr rules2"
      and db': "db' = \<lparr>entities = entities db @ [entity], dxcc_rules = rules2\<rparr>"
    by (auto simp: add_record_def Let_def split: if_splits sum.splits)
  have "rules_ok (Suc ?n) (dxcc_rules db)"
    using assms(2) by (auto simp: database_ok_def rules_ok_def)
  from push_rule_ok [OF 1 _ this] push_aliases_ok [OF 2, of "Suc ?n"]
  have rules2: "rules_ok (Suc ?n) rules2" "set (dxcc_rules db) \<subseteq> set rules2"
    "\<exists>r\<in>set rules2. entity_index r = ?n"
    by auto
  with assms(2) show ?thesis
    by (auto simp: db' database_ok_def less_Suc_eq) (meson subsetD)
qed

lemma add_records_ok:
  "add_records db row records = Inr db' \<Longrightarrow> database_ok db \<Longrightarrow> database_ok db'"
  by (induction db row records rule: add_records.induct) (auto split: sum.splits dest: add_record_ok)

text \<open>
  Every rule of a database that loads points to one of its entities and has a pattern, so no
  lookup indexes outside the entities; and every entity has a rule.
\<close>

theorem dxcc_database_ok:
  assumes "dxcc_from_records records = Inr db"
  shows "(\<forall>rule\<in>set (dxcc_rules db). entity_index rule < length (entities db) \<and> rule_pattern rule \<noteq> [])
    \<and> (\<forall>i<length (entities db). \<exists>rule\<in>set (dxcc_rules db). entity_index rule = i)"
proof -
  have "database_ok \<lparr>entities = [], dxcc_rules = []\<rparr>" by (simp add: database_ok_def rules_ok_def)
  with assms have "database_ok db" by (auto simp: dxcc_from_records_def dest: add_records_ok)
  then show ?thesis by (simp add: database_ok_def rules_ok_def)
qed

definition sample_records :: "(string + string list) list" where
  "sample_records =
     [Inr [''DL'', ''Germany'', ''230'', ''EU'', ''14'', ''28'', ''51'', ''-10'', ''-1'', ''DA DL =DL0ABC(15)[29];''],
      Inr [''*IT9'', ''Sicily'', ''248'', ''EU'', ''15'', ''28'', ''37.5'', ''-14'', ''-1'', ''IT9 =DL0ABC'']]"

definition sample_database :: dxcc_database where
  "sample_database =
     (case dxcc_from_records sample_records of
        Inr db \<Rightarrow> db | Inl _ \<Rightarrow> \<lparr>entities = [], dxcc_rules = []\<rparr>)"

lemma sample_database_loads: "dxcc_from_records sample_records = Inr sample_database"
proof -
  have "\<not> isl (dxcc_from_records sample_records)" by code_simp
  then show ?thesis by (auto simp: sample_database_def split: sum.splits)
qed

theorem dxcc_database_ok_witness:
  "length (dxcc_rules sample_database) = 7
   \<and> list_all (\<lambda>rule. entity_index rule < length (entities sample_database)) (dxcc_rules sample_database)"
proof
  show "length (dxcc_rules sample_database) = 7" by code_simp
  show "list_all (\<lambda>rule. entity_index rule < length (entities sample_database)) (dxcc_rules sample_database)"
    using dxcc_database_ok [OF sample_database_loads] unfolding list_all_iff by blast
qed

section \<open>Lookups\<close>

lemma best_exact_spec:
  "best_exact db call best rules =
     (let m = filter (\<lambda>r. rule_exact r \<and> rule_pattern r = call) rules
      in (case best of
            Some b \<Rightarrow>
              (if waedc db b then Some b
               else (case find (waedc db) m of Some r \<Rightarrow> Some r | None \<Rightarrow> Some b))
          | None \<Rightarrow>
              (case find (waedc db) m of
                 Some r \<Rightarrow> Some r
               | None \<Rightarrow> (case m of [] \<Rightarrow> None | r # _ \<Rightarrow> Some r))))"
  by (induction db call best rules rule: best_exact.induct)
    (auto simp: Let_def split: option.splits)

lemma max_by_key_split:
  "max_by_key f xs = Some x \<Longrightarrow>
     \<exists>before after. xs = before @ x # after \<and> (\<forall>y\<in>set before. f y \<le> f x) \<and> (\<forall>y\<in>set after. f y < f x)"
proof (induction xs arbitrary: x)
  case (Cons a xs)
  show ?case
  proof (cases "max_by_key f xs")
    case None
    then have "xs = []" by (cases xs) (auto split: option.splits if_splits)
    with Cons.prems have "a # xs = [] @ x # []" by simp
    then show ?thesis by (metis empty_iff list.set(1))
  next
    case (Some y)
    from Cons.IH [OF Some] obtain before after where xs: "xs = before @ y # after"
      and b: "\<forall>z\<in>set before. f z \<le> f y" and a: "\<forall>z\<in>set after. f z < f y" by blast
    show ?thesis
    proof (cases "f y < f a")
      case True
      with Cons.prems Some have "x = a" by simp
      moreover have "\<forall>z\<in>set xs. f z < f a" using True a b xs by fastforce
      ultimately show ?thesis by (metis append_Nil empty_iff list.set(1))
    next
      case False
      with Cons.prems Some have "x = y" by simp
      moreover have "a # xs = (a # before) @ y # after" by (simp add: xs)
      ultimately show ?thesis using a b False by (metis linorder_not_less set_ConsD)
    qed
  qed
qed simp

lemma max_by_key_None: "max_by_key f xs = None \<longleftrightarrow> xs = []"
  by (cases xs) (auto split: option.splits)

lemma filter_split:
  "filter P xs = before @ x # after \<Longrightarrow>
     \<exists>b a. xs = b @ x # a \<and> filter P b = before \<and> filter P a = after \<and> P x"
proof (induction xs arbitrary: before)
  case (Cons y xs)
  show ?case
  proof (cases "P y")
    case False
    with Cons.prems have "filter P xs = before @ x # after" by simp
    from Cons.IH [OF this] False show ?thesis by (metis append_Cons filter.simps(2))
  next
    case True
    show ?thesis
    proof (cases before)
      case Nil
      with True Cons.prems have "y # xs = [] @ x # xs" "filter P [] = before" "filter P xs = after" "P x"
        by auto
      then show ?thesis by blast
    next
      case (Cons z before')
      with True Cons.prems have "filter P xs = before' @ x # after" "z = y" by auto
      from Cons.IH [OF this(1)] True Cons \<open>z = y\<close> show ?thesis
        by (metis append_Cons filter.simps(2))
    qed
  qed
qed simp

lemma lookup_exact_spec:
  "lookup_exact db n =
     (let exacts = filter (\<lambda>r. rule_exact r \<and> rule_pattern r = n) (dxcc_rules db)
      in (case find (waedc db) exacts of
            Some r \<Rightarrow> Some (info_for_rule db r)
          | None \<Rightarrow> if exacts = [] then None else Some (info_for_rule db (hd exacts))))"
  by (auto simp: lookup_exact_def best_exact_spec Let_def split: option.splits list.splits)

lemma lookup_exact_None:
  "lookup_exact db n = None \<longleftrightarrow> \<not> (\<exists>r\<in>set (dxcc_rules db). rule_exact r \<and> rule_pattern r = n)"
  by (auto simp: lookup_exact_spec Let_def filter_empty_conv find_Some_iff split: option.splits)

text \<open>
  An exact rule wins over every prefix rule: a callsign with an exact rule is answered with
  the first exact rule whose entity is on the WAEDC list, and with the first exact rule when none
  is.
\<close>

theorem lookup_direct_exact:
  assumes "\<exists>r\<in>set (dxcc_rules db). rule_exact r \<and> rule_pattern r = normalize call"
  shows "lookup_direct db call =
    (let exacts = filter (\<lambda>r. rule_exact r \<and> rule_pattern r = normalize call) (dxcc_rules db)
     in Some (info_for_rule db (case find (waedc db) exacts of Some r \<Rightarrow> r | None \<Rightarrow> hd exacts)))"
proof -
  have "filter (\<lambda>r. rule_exact r \<and> rule_pattern r = normalize call) (dxcc_rules db) \<noteq> []"
    using assms by (auto simp: filter_empty_conv)
  then show ?thesis
    by (auto simp: lookup_direct_def lookup_exact_spec Let_def split: option.splits)
qed

theorem lookup_direct_exact_witness:
  "map_option info_country_name (lookup_direct sample_database ''dl0abc'') = Some ''Sicily''"
proof -
  have "\<exists>r\<in>set (dxcc_rules sample_database). rule_exact r \<and> rule_pattern r = normalize ''dl0abc''"
    by code_simp
  note lookup_direct_exact [OF this]
  moreover have "map_option info_country_name
     (let exacts = filter (\<lambda>r. rule_exact r \<and> rule_pattern r = normalize ''dl0abc'') (dxcc_rules sample_database)
     in Some (info_for_rule sample_database
          (case find (waedc sample_database) exacts of Some r \<Rightarrow> r | None \<Rightarrow> hd exacts))) = Some ''Sicily''"
    by code_simp
  ultimately show ?thesis by simp
qed

text \<open>
  C36. Without an exact rule the answer is that of a longest matching prefix rule, the last of
  equal length, and a callsign that has a prefix is answered whenever some prefix rule matches.
\<close>

theorem lookup_direct_longest:
  assumes "\<not> (\<exists>r\<in>set (dxcc_rules db). rule_exact r \<and> rule_pattern r = normalize call)"
    and "callsign_prefix (normalize call) \<noteq> None"
    and "q \<in> set (dxcc_rules db)" and "\<not> rule_exact q" and "prefix (rule_pattern q) (normalize call)"
  shows "\<exists>before r after. dxcc_rules db = before @ r # after
    \<and> lookup_direct db call = Some (info_for_rule db r)
    \<and> \<not> rule_exact r \<and> prefix (rule_pattern r) (normalize call)
    \<and> (\<forall>q\<in>set before. \<not> rule_exact q \<and> prefix (rule_pattern q) (normalize call) \<longrightarrow>
         length (rule_pattern q) \<le> length (rule_pattern r))
    \<and> (\<forall>q\<in>set after. \<not> rule_exact q \<and> prefix (rule_pattern q) (normalize call) \<longrightarrow>
         length (rule_pattern q) < length (rule_pattern r))"
proof -
  let ?P = "\<lambda>r. \<not> rule_exact r \<and> prefix (rule_pattern r) (normalize call)"
  let ?f = "\<lambda>r. length (rule_pattern r)"
  have "filter ?P (dxcc_rules db) \<noteq> []" using assms(3-5) by (auto simp: filter_empty_conv)
  then obtain r where r: "max_by_key ?f (filter ?P (dxcc_rules db)) = Some r"
    using max_by_key_None by (metis not_Some_eq)
  from max_by_key_split [OF r] obtain b a where "filter ?P (dxcc_rules db) = b @ r # a"
    and le: "\<forall>y\<in>set b. ?f y \<le> ?f r" and less: "\<forall>y\<in>set a. ?f y < ?f r" by blast
  from filter_split [OF this(1)] obtain before after
    where split: "dxcc_rules db = before @ r # after" "filter ?P before = b" "filter ?P after = a" "?P r"
    by blast
  have "lookup_direct db call = Some (info_for_rule db r)"
    using assms(1,2) r by (simp add: lookup_direct_def Let_def lookup_exact_None [THEN iffD2])
  moreover have "\<forall>q\<in>set before. ?P q \<longrightarrow> ?f q \<le> ?f r" and "\<forall>q\<in>set after. ?P q \<longrightarrow> ?f q < ?f r"
    using le less split(2,3) by auto
  ultimately show ?thesis using split by blast
qed

theorem lookup_direct_longest_witness:
  "\<exists>r\<in>set (dxcc_rules sample_database). lookup_direct sample_database ''dl1xyz'' =
     Some (info_for_rule sample_database r) \<and> prefix (rule_pattern r) (normalize ''dl1xyz'')"
proof -
  have 1: "\<not> (\<exists>r\<in>set (dxcc_rules sample_database). rule_exact r \<and> rule_pattern r = normalize ''dl1xyz'')"
    by code_simp
  have 2: "callsign_prefix (normalize ''dl1xyz'') \<noteq> None" by code_simp
  have 3: "\<exists>q\<in>set (dxcc_rules sample_database). \<not> rule_exact q \<and> prefix (rule_pattern q) (normalize ''dl1xyz'')"
    by code_simp
  then obtain q where "q \<in> set (dxcc_rules sample_database)" "\<not> rule_exact q"
    "prefix (rule_pattern q) (normalize ''dl1xyz'')" by blast
  from lookup_direct_longest [OF 1 2 this] obtain before r after
    where "dxcc_rules sample_database = before @ r # after"
      and "lookup_direct sample_database ''dl1xyz'' = Some (info_for_rule sample_database r)"
      and "prefix (rule_pattern r) (normalize ''dl1xyz'')"
    by blast
  then show ?thesis by force
qed

section \<open>Prefixes\<close>

lemma rev_dropWhile_digit:
  assumes "dropWhile (\<lambda>c. \<not> is_digit c) (rev s) = d # rest"
  shows "is_digit d" and "set (rev (d # rest)) \<subseteq> set s"
  using assms dropWhile_eq_Cons_conv [of "\<lambda>c. \<not> is_digit c" "rev s" d rest]
  by (auto, metis Un_iff list.set_intros set_append set_rev, metis Un_iff list.set_intros(2) set_append set_rev)

lemma prefix_from_component_facts:
  assumes "prefix_from_component s = Some p"
  shows "p \<noteq> [] \<and> is_digit (last p) \<and> list_all is_alnum p \<and> set p \<subseteq> set s \<union> {CHR ''0''}"
proof (cases "dropWhile (\<lambda>c. \<not> is_digit c) (rev s)")
  case Nil
  from assms have p: "p = take 2 (filter is_alpha s) @ ''0''" and al: "list_all is_alnum s"
    unfolding prefix_from_component_def Nil by (auto simp: Let_def split: if_splits)
  have "set (take 2 (filter is_alpha s)) \<subseteq> set s"
    by (meson filter_is_subset order_trans set_take_subset)
  with al show ?thesis unfolding p by (auto simp: list_all_iff char_class_defs)
next
  case (Cons d rest)
  with assms have p: "p = rev (d # rest)" and al: "list_all is_alnum s"
    by (auto simp: prefix_from_component_def split: if_splits)
  from rev_dropWhile_digit [OF Cons] al show ?thesis unfolding p by (auto simp: list_all_iff)
qed

lemma prefix_from_component_fixed:
  assumes "p \<noteq> []" and "is_digit (last p)" and "list_all is_alnum p"
  shows "prefix_from_component p = Some p"
proof -
  obtain q d where "p = q @ [d]" using assms(1) by (metis append_butlast_last_id)
  with assms show ?thesis by (simp add: prefix_from_component_def)
qed

lemma portable_chars:
  "portable_numeric_prefix l r = Some s \<Longrightarrow> set s \<subseteq> set l \<union> set r"
  by (auto simp: portable_numeric_prefix_def Let_def dropWhile_eq_Cons_conv
      split: list.splits if_splits dest!: set_dropWhileD)
    (metis Un_iff list.set_intros(2) set_append set_rev)+

text \<open>
  A callsign prefix is a non-empty text of capitals and digits that ends in a digit, and it
  is its own prefix: the WPX multiplier of a prefix is that prefix.
\<close>

theorem callsign_prefix_fixed:
  assumes "callsign_prefix s = Some p"
  shows "callsign_prefix p = Some p \<and> p \<noteq> [] \<and> is_digit (last p)
    \<and> list_all (\<lambda>c. is_upper c \<or> is_digit c) p"
proof -
  let ?n = "normalize s"
  have "\<forall>c\<in>set ?n. \<not> is_lower c" by (auto simp: normalize_def)
  moreover obtain source where src: "prefix_from_component source = Some p"
    and sub: "set source \<subseteq> set ?n"
    using assms
    by (auto simp: callsign_prefix_def Let_def split_once_Some split: if_splits option.splits prod.splits bool.splits
        dest: portable_chars)
  note facts = prefix_from_component_facts [OF src]
  ultimately have up: "list_all (\<lambda>c. is_upper c \<or> is_digit c) p"
    using facts sub by (force simp: list_all_iff is_alnum_def is_alpha_def is_digit_def is_lower_def)
  then have cl: "clean p" by (auto simp: clean_def list_all_iff)
  have slash: "CHR ''/'' \<notin> set p" using up by (auto simp: list_all_iff char_class_defs)
  have "callsign_prefix p = prefix_from_component p"
    using facts slash
    by (auto simp: callsign_prefix_def clean_normalize [OF cl] split_once_None [THEN iffD2] list_all_iff)
  with facts up show ?thesis by (simp add: prefix_from_component_fixed)
qed

theorem callsign_prefix_fixed_witness:
  "callsign_prefix ''dl/w1aw'' = Some ''DL0'' \<and> callsign_prefix ''DL0'' = Some ''DL0''"
proof -
  have h: "callsign_prefix ''dl/w1aw'' = Some ''DL0''" by code_simp
  from callsign_prefix_fixed [OF h] h show ?thesis by simp
qed

end
