(* ===== verification/Contact.thy ===== *)
theory Contact
  imports Prelude
begin

text \<open>
  \<open>backend/src/db/contact.rs\<close>: a contact is a JSON object with the two objects \<open>meta\<close> (what the
  server keeps about it) and \<open>adif\<close> (the operator's fields, by upper-case ADIF name).

  JSON values are \<open>serde_json::Value\<close>. The crate is built without \<open>preserve_order\<close>, so an object
  is a \<open>BTreeMap\<close>: an association list in ascending key order. An integer number is its value
  (\<open>u64\<close> or negative \<open>i64\<close>), a float is the text it prints as: no modelled operation does
  arithmetic on a float, and \<open>frequency_hz\<close> takes the conversion of a decimal text to hertz
  (binary64 arithmetic) as a parameter.
\<close>

section \<open>JSON values\<close>

datatype json =
    JNull
  | JBool bool
  | JInt int
  | JFloat string
  | JString string
  | JArray "json list"
  | JObject "(string \<times> json) list"

type_synonym contact_fields = "(string \<times> json) list"
type_synonym contact = "(string \<times> json) list"

fun as_object :: "json \<Rightarrow> (string \<times> json) list option" where
  "as_object (JObject m) = Some m"
| "as_object _ = None"

fun as_str :: "json \<Rightarrow> string option" where
  "as_str (JString s) = Some s"
| "as_str _ = None"

fun as_bool :: "json \<Rightarrow> bool option" where
  "as_bool (JBool b) = Some b"
| "as_bool _ = None"

text \<open>\<open>as_i64\<close>: the integers in the range of \<open>i64\<close>.\<close>

fun as_i64 :: "json \<Rightarrow> int option" where
  "as_i64 (JInt i) = (if i64_min \<le> i \<and> i \<le> i64_max then Some i else None)"
| "as_i64 _ = None"

section \<open>JSON texts\<close>

text \<open>
  \<open>serde_json::to_string\<close>: the compact text of a value, on ASCII strings. Other control
  characters are written \<open>u00XX\<close> with lower-case hexadecimal digits.
\<close>

definition hex_digit :: "nat \<Rightarrow> char" where
  "hex_digit n = (if n < 10 then char_of (48 + n) else char_of (87 + n))"

definition json_escape :: "char \<Rightarrow> string" where
  "json_escape c =
     (let n = (of_char c :: nat); bs = char_of (92 :: nat)
      in if n = 34 then [bs, c]
         else if n = 92 then [bs, c]
         else if n = 8 then [bs, CHR ''b'']
         else if n = 9 then [bs, CHR ''t'']
         else if n = 10 then [bs, CHR ''n'']
         else if n = 12 then [bs, CHR ''f'']
         else if n = 13 then [bs, CHR ''r'']
         else if n < 32 then bs # ''u00'' @ [hex_digit (n div 16), hex_digit (n mod 16)]
         else [c])"

definition json_quote :: "string \<Rightarrow> string" where
  "json_quote s = (let q = char_of (34 :: nat) in q # concat (map json_escape s) @ [q])"

fun json_text :: "json \<Rightarrow> string" where
  "json_text JNull = ''null''"
| "json_text (JBool b) = (if b then ''true'' else ''false'')"
| "json_text (JInt n) = int_string n"
| "json_text (JFloat t) = t"
| "json_text (JString s) = json_quote s"
| "json_text (JArray xs) = ''['' @ join_with '','' (map json_text xs) @ '']''"
| "json_text (JObject m) =
     ''{'' @ join_with '','' (map (\<lambda>e. json_quote (fst e) @ '':'' @ json_text (snd e)) m) @ ''}''"

section \<open>Contacts\<close>

definition normalize_adif_field_name :: "string \<Rightarrow> string" where
  "normalize_adif_field_name key = to_upper (trim key)"

definition normalize_contact_adif :: "contact_fields \<Rightarrow> contact_fields" where
  "normalize_contact_adif adif =
     foldl (\<lambda>m (key, value). bt_put (normalize_adif_field_name key) value m) [] adif"

definition build_contact :: "contact_fields \<Rightarrow> contact_fields \<Rightarrow> contact" where
  "build_contact meta adif =
     bt_put ''adif'' (JObject (normalize_contact_adif adif)) (bt_put ''meta'' (JObject meta) [])"

definition contact_meta :: "contact \<Rightarrow> contact_fields option" where
  "contact_meta contact = Option.bind (map_of contact ''meta'') as_object"

definition contact_adif :: "contact \<Rightarrow> contact_fields option" where
  "contact_adif contact = Option.bind (map_of contact ''adif'') as_object"

definition contact_meta_value :: "contact \<Rightarrow> string \<Rightarrow> json option" where
  "contact_meta_value contact key = Option.bind (contact_meta contact) (\<lambda>meta. map_of meta key)"

definition contact_adif_value :: "contact \<Rightarrow> string \<Rightarrow> json option" where
  "contact_adif_value contact key =
     (let key = normalize_adif_field_name key
      in Option.bind (contact_adif contact) (\<lambda>adif. map_of adif key))"

definition set_contact_meta :: "contact \<Rightarrow> string \<Rightarrow> json \<Rightarrow> contact" where
  "set_contact_meta contact key value =
     (let contact =
            (case map_of contact ''meta'' of
               Some (JObject _) \<Rightarrow> contact
             | _ \<Rightarrow> bt_put ''meta'' (JObject []) contact)
      in (case Option.bind (map_of contact ''meta'') as_object of
            Some meta \<Rightarrow> bt_put ''meta'' (JObject (bt_put key value meta)) contact
          | None \<Rightarrow> contact))"

definition remove_contact_meta :: "contact \<Rightarrow> string \<Rightarrow> contact" where
  "remove_contact_meta contact key =
     (case Option.bind (map_of contact ''meta'') as_object of
        Some meta \<Rightarrow> bt_put ''meta'' (JObject (bt_remove key meta)) contact
      | None \<Rightarrow> contact)"

definition set_contact_adif :: "contact \<Rightarrow> string \<Rightarrow> json \<Rightarrow> contact" where
  "set_contact_adif contact key value =
     (let contact =
            (case map_of contact ''adif'' of
               Some (JObject _) \<Rightarrow> contact
             | _ \<Rightarrow> bt_put ''adif'' (JObject []) contact)
      in (case Option.bind (map_of contact ''adif'') as_object of
            Some adif \<Rightarrow>
              bt_put ''adif'' (JObject (bt_put (normalize_adif_field_name key) value adif)) contact
          | None \<Rightarrow> contact))"

definition contact_warnings_json :: "contact \<Rightarrow> string" where
  "contact_warnings_json contact =
     (case Option.bind (contact_meta contact) (\<lambda>meta. map_of meta ''warnings'') of
        Some (JArray warnings) \<Rightarrow> json_text (JArray warnings)
      | _ \<Rightarrow> ''[]'')"

text \<open>An integer above \<open>i64::MAX\<close> is a \<open>u64\<close> and is reinterpreted by \<open>as i64\<close>.\<close>

definition json_i64_value :: "json \<Rightarrow> int option" where
  "json_i64_value value =
     (case value of
        JInt n \<Rightarrow> (case as_i64 value of Some i \<Rightarrow> Some i | None \<Rightarrow> Some (wrap_i64 n))
      | JString text \<Rightarrow> parse_signed 64 text
      | _ \<Rightarrow> None)"

definition json_i64 :: "json option \<Rightarrow> int option" where
  "json_i64 value = Option.bind value json_i64_value"

definition contact_id :: "contact \<Rightarrow> int option" where
  "contact_id contact = Option.bind (contact_meta_value contact ''id'') json_i64_value"

definition contact_log_id :: "contact \<Rightarrow> int option" where
  "contact_log_id contact = Option.bind (contact_meta_value contact ''logId'') json_i64_value"

text \<open>
  \<open>decimal_hz text\<close> stands for parsing the text as \<open>f64\<close> and \<open>decimal_frequency_to_hz\<close>.
\<close>

definition frequency_hz :: "(string \<Rightarrow> int option) \<Rightarrow> json option \<Rightarrow> int option" where
  "frequency_hz decimal_hz value =
     (case value of
        None \<Rightarrow> None
      | Some (JInt n) \<Rightarrow>
          (case as_i64 (JInt n) of Some i \<Rightarrow> Some i | None \<Rightarrow> decimal_hz (int_string n))
      | Some (JFloat text) \<Rightarrow> decimal_hz text
      | Some (JString text) \<Rightarrow>
          if CHR ''.'' \<in> set text then decimal_hz text else parse_signed 64 text
      | Some _ \<Rightarrow> None)"

definition json_string :: "json option \<Rightarrow> string option" where
  "json_string value =
     (case value of
        Some (JString text) \<Rightarrow> Some text
      | Some (JInt n) \<Rightarrow> Some (int_string n)
      | Some (JFloat text) \<Rightarrow> Some text
      | Some (JBool b) \<Rightarrow> Some (if b then ''true'' else ''false'')
      | _ \<Rightarrow> None)"

section \<open>Laws\<close>

lemma normalize_adif_field_name_idem [simp]:
  "normalize_adif_field_name (normalize_adif_field_name key) = normalize_adif_field_name key"
  by (simp add: normalize_adif_field_name_def trim_to_upper)

lemma meta_not_adif [simp]: "''meta'' \<noteq> ''adif''" "''adif'' \<noteq> ''meta''"
  by simp_all

lemma contact_meta_set_meta:
  "contact_meta (set_contact_meta c key v) =
     Some (bt_put key v (case contact_meta c of Some m \<Rightarrow> m | None \<Rightarrow> []))"
  by (auto simp: contact_meta_def set_contact_meta_def Let_def bt_get_put
      split: option.splits json.splits bind_splits)

lemma contact_adif_set_meta [simp]: "contact_adif (set_contact_meta c key v) = contact_adif c"
  by (auto simp: contact_adif_def set_contact_meta_def Let_def bt_get_put
      split: option.splits json.splits bind_splits)

lemma contact_adif_set_adif:
  "contact_adif (set_contact_adif c key v) =
     Some (bt_put (normalize_adif_field_name key) v
       (case contact_adif c of Some m \<Rightarrow> m | None \<Rightarrow> []))"
  by (auto simp: contact_adif_def set_contact_adif_def Let_def bt_get_put
      split: option.splits json.splits bind_splits)

lemma contact_meta_set_adif [simp]: "contact_meta (set_contact_adif c key v) = contact_meta c"
  by (auto simp: contact_meta_def set_contact_adif_def Let_def bt_get_put
      split: option.splits json.splits bind_splits)

lemma contact_meta_value_set [simp]:
  "contact_meta_value (set_contact_meta c key v) l =
     (if l = key then Some v else contact_meta_value c l)"
  by (auto simp: contact_meta_value_def contact_meta_set_meta bt_get_put split: option.splits)

lemma contact_meta_value_set_adif [simp]:
  "contact_meta_value (set_contact_adif c key v) l = contact_meta_value c l"
  by (simp add: contact_meta_value_def)

lemma contact_adif_value_set_meta [simp]:
  "contact_adif_value (set_contact_meta c key v) l = contact_adif_value c l"
  by (simp add: contact_adif_value_def)

lemma contact_meta_remove:
  "contact_meta (remove_contact_meta c key) = map_option (bt_remove key) (contact_meta c)"
  by (auto simp: contact_meta_def remove_contact_meta_def bt_get_put split: option.splits bind_splits)

lemma contact_meta_value_remove [simp]:
  "contact_meta_value (remove_contact_meta c key) l =
     (if l = key then None else contact_meta_value c l)"
  by (auto simp: contact_meta_value_def contact_meta_remove bt_get_remove split: bind_splits)

lemma contact_adif_remove [simp]: "contact_adif (remove_contact_meta c key) = contact_adif c"
  by (auto simp: contact_adif_def remove_contact_meta_def bt_get_put split: option.splits bind_splits)

lemma contact_id_set_other [simp]:
  "contact_id (set_contact_adif c key v) = contact_id c"
  "key \<noteq> ''id'' \<Longrightarrow> contact_id (set_contact_meta c key v) = contact_id c"
  "contact_log_id (set_contact_adif c key v) = contact_log_id c"
  "key \<noteq> ''logId'' \<Longrightarrow> contact_log_id (set_contact_meta c key v) = contact_log_id c"
  by (auto simp: contact_id_def contact_log_id_def)

lemma json_i64_value_int: "i64_min \<le> i \<Longrightarrow> i \<le> i64_max \<Longrightarrow> json_i64_value (JInt i) = Some i"
  by (simp add: json_i64_value_def)

lemma contact_id_set_id:
  "i64_min \<le> i \<Longrightarrow> i \<le> i64_max \<Longrightarrow> contact_id (set_contact_meta c ''id'' (JInt i)) = Some i"
  by (simp add: contact_id_def json_i64_value_int)

lemma contact_log_id_set_log_id:
  "i64_min \<le> i \<Longrightarrow> i \<le> i64_max \<Longrightarrow> contact_log_id (set_contact_meta c ''logId'' (JInt i)) = Some i"
  by (simp add: contact_log_id_def json_i64_value_int)

section \<open>Normalised fields\<close>

text \<open>
  When two names of the operator's object differ only in case or blanks, the later one in key
  order wins; the lookup of the built contact says which value that is.
\<close>

lemma normalize_fold:
  "map_of (foldl (\<lambda>m (key, value). bt_put (normalize_adif_field_name key) value m) m0 adif) k =
    (case find (\<lambda>(key, value). normalize_adif_field_name key = k) (rev adif) of
       Some (key, value) \<Rightarrow> Some value
     | None \<Rightarrow> map_of m0 k)"
proof (induction adif arbitrary: m0)
  case Nil
  then show ?case by simp
next
  case (Cons a adif)
  show ?case
    by (cases a) (auto simp: Cons.IH find_snoc bt_get_put split: option.splits)
qed

lemma normalize_contact_adif_ok: "bt_ok (normalize_contact_adif adif)"
proof -
  have "bt_ok m0 \<Longrightarrow>
      bt_ok (foldl (\<lambda>m (key, value). bt_put (normalize_adif_field_name key) value m) m0 adif)" for m0
    by (induction adif arbitrary: m0) (auto intro: bt_ok_put)
  then show ?thesis by (simp add: normalize_contact_adif_def bt.ok_new)
qed

text \<open>
  ADIF fields are read by name without regard to case and surrounding blanks: the built
  contact answers a name with the last field of the operator's object whose name normalises to
  the same text, and storing a field changes exactly the answers for the names that do.
\<close>

theorem contact_adif_lookup:
  "contact_adif_value (build_contact meta adif) name =
     map_option snd
       (find (\<lambda>(key, value). normalize_adif_field_name key = normalize_adif_field_name name) (rev adif))
   \<and> contact_adif_value (set_contact_adif c key v) name =
     (if normalize_adif_field_name name = normalize_adif_field_name key then Some v
      else contact_adif_value c name)
   \<and> contact_meta (build_contact meta adif) = Some meta"
proof (intro conjI)
  show "contact_adif_value (build_contact meta adif) name =
     map_option snd
       (find (\<lambda>(key, value). normalize_adif_field_name key = normalize_adif_field_name name) (rev adif))"
    by (auto simp: contact_adif_value_def contact_adif_def build_contact_def
        normalize_contact_adif_def normalize_fold Let_def bt_get_put split: option.splits)
  show "contact_adif_value (set_contact_adif c key v) name =
     (if normalize_adif_field_name name = normalize_adif_field_name key then Some v
      else contact_adif_value c name)"
    by (auto simp: contact_adif_value_def contact_adif_set_adif Let_def bt_get_put
        split: option.splits)
  show "contact_meta (build_contact meta adif) = Some meta"
    by (simp add: contact_meta_def build_contact_def bt_get_put)
qed

end
