(* ===== verification/ContestRules.thy ===== *)
theory ContestRules
  imports Contact
begin

text \<open>
  The data of \<open>backend/src/contest_rules.rs\<close>: field input specifications, setup and exchange
  fields, the scoring rules and the resolved rules of a contest, as the program has them after
  start-up.
\<close>

section \<open>Field inputs\<close>

datatype field_input_kind = StringInput | RstInput | NumericInput | SerialInput

record field_input =
  input_kind :: field_input_kind
  max_length :: "nat option"

datatype field_input_error = UnknownInputType string | InvalidInputLength string | InvalidInputType string

definition kind_name :: "field_input \<Rightarrow> string" where
  "kind_name input =
     (case input_kind input of
        StringInput \<Rightarrow> ''STRING''
      | RstInput \<Rightarrow> ''RST''
      | NumericInput \<Rightarrow> ''NUMERIC''
      | SerialInput \<Rightarrow> ''SERIAL'')"

definition field_input_parse :: "string \<Rightarrow> field_input_error + field_input" where
  "field_input_parse spec =
     (let parts = split_on CHR '':'' spec;
          name = to_upper (trim (case parts of [] \<Rightarrow> [] | p # _ \<Rightarrow> p));
          kind = (if name = ''STRING'' then Some StringInput
                  else if name = ''RST'' then Some RstInput
                  else if name = ''NUMERIC'' then Some NumericInput
                  else if name = ''SERIAL'' then Some SerialInput
                  else None)
      in (case kind of
            None \<Rightarrow> Inl (UnknownInputType name)
          | Some kind \<Rightarrow>
              (case (case drop 1 parts of
                       [] \<Rightarrow> Inr None
                     | l # _ \<Rightarrow>
                         (case parse_unsigned 64 (trim l) of
                            Some n \<Rightarrow> Inr (Some n)
                          | None \<Rightarrow> Inl (InvalidInputLength spec))) of
                 Inl e \<Rightarrow> Inl e
               | Inr len \<Rightarrow>
                   if drop 2 parts \<noteq> [] then Inl (InvalidInputType spec)
                   else Inr \<lparr>input_kind = kind, max_length = len\<rparr>)))"

definition as_spec :: "field_input \<Rightarrow> string" where
  "as_spec input =
     (case max_length input of
        Some n \<Rightarrow> kind_name input @ '':'' @ dec_string n
      | None \<Rightarrow> kind_name input)"

section \<open>Scoring rules\<close>

text \<open>
  \<open>in_set\<close>, \<open>in_sets\<close> and \<open>exclude_in_sets\<close> are expanded into \<open>values\<close> when the rules are loaded and
  never read afterwards; the records leave them out.
\<close>

record scoring_condition =
  cond_field :: string
  matches_field :: "string option"
  not_matches_field :: "string option"
  cond_values :: "string list"
  cond_exclude_values :: "string list"
  suffixes :: "string list"
  exclude_suffixes :: "string list"

record qso_point_rule =
  point_rule_id :: string
  point_when :: "scoring_condition option"
  point_when_all :: "scoring_condition list"
  rule_points :: int

record time_bonus_point_rule =
  time_bonus_id :: string
  start_utc :: string
  end_utc :: string
  time_bonus :: int

record grid_distance_qso_points =
  station_grid_field :: string
  contact_grid_field :: string
  base_points :: int
  kilometers_per_point :: int
  minimum_distance_points :: int

datatype geography_point_value = FixedPoints int | ByBand int "(string \<times> int) list"

definition for_band :: "geography_point_value \<Rightarrow> string option \<Rightarrow> int" where
  "for_band value band =
     (case value of
        FixedPoints points \<Rightarrow> points
      | ByBand fallback by_band \<Rightarrow>
          (case Option.bind band (\<lambda>band.
                  map_option snd (find (\<lambda>(candidate, _). eq_ignore_case candidate band) by_band)) of
             Some points \<Rightarrow> points
           | None \<Rightarrow> fallback))"

record geography_qso_points =
  country_field :: string
  station_country_field :: string
  continent_field :: string
  station_continent_field :: string
  same_country :: geography_point_value
  different_country_north_america :: geography_point_value
  different_country_same_continent :: geography_point_value
  different_continent :: geography_point_value
  unresolved :: geography_point_value

record qso_points_rules =
  fixed_points :: "int option"
  point_rules :: "qso_point_rule list"
  time_bonus_rules :: "time_bonus_point_rule list"
  geography :: "geography_qso_points option"
  grid_distance :: "grid_distance_qso_points option"
  category_band_param :: "string option"

record multiplier_rule =
  mult_id :: string
  mult_name :: string
  mult_field :: string
  mult_key :: "string list"
  mult_values :: "string list"
  mult_when :: "scoring_condition option"
  mult_when_all :: "scoring_condition list"
  exclude_call_suffixes :: "string list"
  mult_exclude_values :: "string list"
  fixed_key :: "string option"
  mult_max_count :: "nat option"
  mult_cap_group :: "string option"

record bonus_point_rule =
  bonus_id :: string
  bonus_name :: string
  bonus_field :: string
  bonus_key :: "string list"
  bonus_values :: "(string \<times> int) list"

record param_multiplier_rule =
  param_mult_id :: string
  param_mult_param :: string
  param_mult_values :: "(string \<times> int) list"

record multiplier_count_bonus_rule =
  mc_bonus_id :: string
  mc_bonus_name :: string
  mc_bonus_multiplier :: string
  mc_thresholds :: "(nat \<times> int) list"

record qso_count_bonus_rule =
  qc_bonus_id :: string
  qc_bonus_name :: string
  qc_bonus_field :: string
  qc_bonus_param :: "string option"
  qc_bonus_values :: "string list"
  qc_thresholds :: "(nat \<times> int) list"

record scoring_rules =
  qso_points :: "qso_points_rules option"
  minimum_multiplier_count :: int
  dupe_key_fields :: "string list"
  multiplier_rules :: "multiplier_rule list"
  bonus_point_rules :: "bonus_point_rule list"
  param_multiplier_rules :: "param_multiplier_rule list"
  multiplier_count_bonus_rules :: "multiplier_count_bonus_rule list"
  qso_count_bonus_rules :: "qso_count_bonus_rule list"

section \<open>Exchange and setup fields\<close>

datatype validation_match = MatchAll | MatchAny
datatype exchange_direction = Sent | Received
datatype serial_scope = GlobalScope | BandScope | CategoryTransmitterScope
datatype table_visibility = TableAuto | TableShow | TableHide

record field_validation =
  required :: bool
  pattern :: "string option"
  valid_values :: "string list"
  match_mode :: validation_match

record setup_field =
  setup_id :: string
  setup_key :: string
  setup_label :: string
  setup_input :: field_input
  setup_validation :: field_validation
  setup_default :: "json option"
  setup_widget :: "string option"
  setup_help_text :: "string option"
  setup_max_lines :: "nat option"
  preserve_case :: bool
  cabrillo_header :: "string option"
  multi_single_has_mult_transmitter :: bool

record exchange_field =
  exch_id :: string
  exch_label :: string
  exch_input :: field_input
  exch_adif :: string
  direction :: exchange_direction
  exch_validation :: field_validation
  exch_fixed :: bool
  exch_default :: "json option"
  exch_source :: "string option"
  exch_serial_scope :: serial_scope
  only_when :: "scoring_condition option"
  table_visibility :: table_visibility

record cabrillo_fixed_header =
  header_id :: string
  header_name :: string
  header_value :: string

record cabrillo_rules =
  fixed_headers :: "cabrillo_fixed_header list"
  export_fields :: "setup_field list"

record contest_metadata =
  valid_multipliers :: "string list"
  valid_exchanges :: "(string \<times> string list) list"
  metadata_source :: "string option"
  metadata_notes :: "string option"

datatype qso_column_source = AdifColumn | MetaColumn
datatype qso_column_format = TextColumn | DateTimeUtcColumn | FrequencyKhzColumn

record qso_column =
  column_id :: string
  column_label :: string
  column_source :: qso_column_source
  column_field :: string
  column_format :: qso_column_format
  editable :: bool

text \<open>\<open>value_sets\<close> and \<open>valid_exchanges\<close> are ordered maps: association lists in ascending key order.\<close>

record contest_rules =
  rules_id :: string
  rules_name :: string
  rules_bands :: "string list"
  rules_modes :: "string list"
  excluded_modes :: "string list"
  value_sets :: "(string \<times> string list) list"
  setup_fields :: "setup_field list"
  exchange :: "exchange_field list"
  qso_table :: "qso_column list"
  scoring :: scoring_rules
  cabrillo :: "cabrillo_rules option"
  metadata :: "contest_metadata option"

section \<open>Round trip of field inputs\<close>

lemma kind_name_facts:
  "trim (kind_name input) = kind_name input"
  "to_upper (kind_name input) = kind_name input"
  "CHR '':'' \<notin> set (kind_name input)"
  by (cases "input_kind input"; simp add: kind_name_def trim_def trim_start_def trim_end_def
      upper_char_def char_class_defs)+

text \<open>
  A field input written by \<open>as_spec\<close> is read back by \<open>parse\<close> to the same value, for every kind
  and every length that fits \<open>usize\<close>.
\<close>

theorem field_input_roundtrip:
  assumes "\<forall>n. max_length input = Some n \<longrightarrow> n < 2 ^ 64"
  shows "field_input_parse (as_spec input) = Inr input"
proof (cases "max_length input")
  case None
  then show ?thesis
    by (cases input; cases "input_kind input")
      (simp_all add: field_input_parse_def as_spec_def kind_name_def trim_def trim_start_def
        trim_end_def upper_char_def char_class_defs)
next
  case (Some n)
  have digits: "list_all is_digit (dec_string n)" by simp
  then have colon: "CHR '':'' \<notin> set (dec_string n)" and ws: "\<forall>c\<in>set (dec_string n). \<not> is_ws c"
    by (auto simp: list_all_iff char_class_defs)
  have split: "split_on CHR '':'' (as_spec input) = [kind_name input, dec_string n]"
    using split_on_append [OF kind_name_facts(3) [of input], of "dec_string n"] split_on_none [OF colon]
    by (simp add: as_spec_def Some)
  have num: "parse_unsigned 64 (trim (dec_string n)) = Some n"
    using assms Some parse_unsigned_digits [of "dec_string n" 64] by (simp add: trim_no_ws [OF ws])
  show ?thesis
    unfolding field_input_parse_def split using num Some
    by (cases input; cases "input_kind input")
      (simp_all add: kind_name_facts, simp_all add: kind_name_def)
qed

theorem field_input_roundtrip_witness:
  "field_input_parse (as_spec \<lparr>input_kind = SerialInput, max_length = Some 4\<rparr>)
     = Inr \<lparr>input_kind = SerialInput, max_length = Some 4\<rparr>"
  by (rule field_input_roundtrip) simp

end
