(* ===== verification/Scoring.thy ===== *)
theory Scoring
  imports ContestRules Dxcc QsoTime
begin

text \<open>
  The scoring module and the batch scorer of \<open>backend/src/scoring.rs\<close> (lines 1-860), with the
  locators of \<open>backend/src/grid_distance.rs\<close>. A module is the resolved rules of a contest with the
  parameters of one log; the scorer adds contacts in sequence and writes their points, multipliers
  and duplicate flag into their metadata.

  Scores are \<open>i64\<close> values, \<open>int\<close>s reduced by \<open>wrap_i64\<close> after every operation, as in a build with
  the release profile, which does not check for overflow. The number of multipliers one contact
  adds, at most the number of rules, is not reduced.
  The great-circle formula is binary64 arithmetic of trigonometric functions and is a component
  of the module, \<open>distance_points centre centre kilometers\<close>, the rounded-up quotient
  \<open>(distance / kilometers_per_point as f64).ceil() as i64\<close>; locators are exact, in half degrees.
  Unicode case mapping is the ASCII one.
\<close>

section \<open>Arithmetic\<close>

text \<open>\<open>Iterator::sum\<close> and \<open>Iterator::product\<close> on \<open>i64\<close>.\<close>

definition sum_i64 :: "int list \<Rightarrow> int" where
  "sum_i64 xs = fold (\<lambda>x total. wrap_i64 (total + x)) xs 0"

definition product_i64 :: "int list \<Rightarrow> int" where
  "product_i64 xs = fold (\<lambda>x total. wrap_i64 (total * x)) xs 1"

section \<open>Locators\<close>

record grid_center =
  latitude_half_degrees :: int
  longitude_half_degrees :: int

definition letter_index :: "char \<Rightarrow> int option" where
  "letter_index c =
     (let n = (of_char c :: int) in if 65 \<le> n \<and> n \<le> 82 then Some (n - 65) else None)"

definition digit_index :: "char \<Rightarrow> int option" where
  "digit_index c =
     (let n = (of_char c :: int) in if 48 \<le> n \<and> n \<le> 57 then Some (n - 48) else None)"

definition four_character_grid_center :: "string \<Rightarrow> grid_center option" where
  "four_character_grid_center locator =
     (case to_upper (trim locator) of
        a # b # c # d # _ \<Rightarrow>
          (case (letter_index a, letter_index b, digit_index c, digit_index d) of
             (Some field_longitude, Some field_latitude, Some square_longitude, Some square_latitude) \<Rightarrow>
               Some \<lparr>latitude_half_degrees = - 180 + field_latitude * 20 + square_latitude * 2 + 1,
                     longitude_half_degrees = - 360 + field_longitude * 40 + square_longitude * 4 + 2\<rparr>
           | _ \<Rightarrow> None)
      | _ \<Rightarrow> None)"

section \<open>The module\<close>

record scoring_module =
  mod_rules :: contest_rules
  mod_params :: json
  mod_score_factor :: int
  distance_points :: "grid_center \<Rightarrow> grid_center \<Rightarrow> int \<Rightarrow> int"

record score_totals =
  qso_count :: nat
  total_qso_points :: int
  total_multipliers :: int
  total_bonus_points :: int
  total_score :: int

definition zero_totals :: score_totals where
  "zero_totals = \<lparr>qso_count = 0, total_qso_points = 0, total_multipliers = 0,
     total_bonus_points = 0, total_score = 0\<rparr>"

record multiplier_candidate =
  cand_id :: string
  cand_cap_group :: "string option"
  cand_key :: string
  cand_max_count :: "nat option"

section \<open>Field values\<close>

definition nonempty :: "string option \<Rightarrow> string option" where
  "nonempty t = (case t of Some [] \<Rightarrow> None | _ \<Rightarrow> t)"

definition or_else :: "'a option \<Rightarrow> 'a option \<Rightarrow> 'a option" where
  "or_else a b = (case a of Some x \<Rightarrow> Some x | None \<Rightarrow> b)"

definition adif_text :: "contact \<Rightarrow> string \<Rightarrow> string option" where
  "adif_text contact field = json_string (contact_adif_value contact field)"

definition meta_text :: "contact \<Rightarrow> string \<Rightarrow> string option" where
  "meta_text contact field = json_string (contact_meta_value contact field)"

definition normalized_field_value :: "string \<Rightarrow> string \<Rightarrow> string" where
  "normalized_field_value field v =
     (let n = to_upper (trim v) in if eq_ignore_case field ''CALL'' then dupe_identity n else n)"

definition contact_prefix :: "contact \<Rightarrow> string option" where
  "contact_prefix contact =
     or_else (nonempty (map_option (\<lambda>p. to_upper (trim p)) (adif_text contact ''PFX'')))
       (Option.bind (adif_text contact ''CALL'') callsign_prefix)"

definition is_jarl_japanese_prefix :: "string \<Rightarrow> bool" where
  "is_jarl_japanese_prefix p \<longleftrightarrow>
     take 2 p \<in> {''JA'', ''JE'', ''JF'', ''JG'', ''JH'', ''JI'', ''JJ'', ''JK'', ''JL'', ''JM'',
       ''JN'', ''JO'', ''JP'', ''JQ'', ''JR'', ''JS'', ''7J'', ''7K'', ''7L'', ''7M'', ''8J''}"

definition is_jarl_us_mainland_prefix :: "string \<Rightarrow> bool" where
  "is_jarl_us_mainland_prefix p \<longleftrightarrow>
     (case p of [] \<Rightarrow> False | c # _ \<Rightarrow> c \<in> {CHR ''K'', CHR ''N'', CHR ''W''})
     \<or> (prefix ''A'' p \<and> (case drop 1 p of [] \<Rightarrow> False | c # _ \<Rightarrow> CHR ''A'' \<le> c \<and> c \<le> CHR ''L''))"

definition is_jarl_canadian_prefix :: "string \<Rightarrow> bool" where
  "is_jarl_canadian_prefix p \<longleftrightarrow>
     prefix ''VA'' p \<or> prefix ''VE'' p \<or> prefix ''VO'' p \<or> prefix ''VY'' p \<or> prefix ''CY'' p"

definition is_jarl_australian_prefix :: "string \<Rightarrow> bool" where
  "is_jarl_australian_prefix p \<longleftrightarrow> prefix ''AX'' p \<or> prefix ''VI'' p \<or> prefix ''VK'' p"

definition jarl_call_area :: "contact \<Rightarrow> string option" where
  "jarl_call_area contact =
     (case Option.bind (adif_text contact ''CALL'') callsign_prefix of
        None \<Rightarrow> None
      | Some p \<Rightarrow>
          let area = (case find is_digit (rev p) of Some c \<Rightarrow> c | None \<Rightarrow> CHR ''0'')
          in (case Option.bind (adif_text contact ''DXCC'') (\<lambda>v. parse_unsigned 16 (trim v)) of
                Some dxcc \<Rightarrow>
                  if dxcc = 339 \<and> \<not> prefix ''JD1'' p then Some (''JA'' @ [area])
                  else if dxcc = 291 \<and> is_jarl_us_mainland_prefix p then Some (''W'' @ [area])
                  else if dxcc = 1 \<and> is_jarl_canadian_prefix p then Some (''VE'' @ [area])
                  else if dxcc = 150 \<and> is_jarl_australian_prefix p then Some (''VK'' @ [area])
                  else None
              | None \<Rightarrow>
                  if is_jarl_japanese_prefix p \<and> \<not> prefix ''JD1'' p then Some (''JA'' @ [area])
                  else if is_jarl_us_mainland_prefix p then Some (''W'' @ [area])
                  else if is_jarl_canadian_prefix p then Some (''VE'' @ [area])
                  else if is_jarl_australian_prefix p then Some (''VK'' @ [area])
                  else None))"

definition sac_country :: "nat \<Rightarrow> string option" where
  "sac_country dxcc =
     map_of [(259, ''JW''), (118, ''JX''), (266, ''LA''), (224, ''OH''), (237, ''OX''),
             (222, ''OY''), (221, ''OZ''), (284, ''SM''), (242, ''TF'')] dxcc"

definition sac_area :: "contact \<Rightarrow> string option" where
  "sac_area contact =
     (case Option.bind (Option.bind (adif_text contact ''DXCC'') (parse_unsigned 16)) sac_country of
        None \<Rightarrow> None
      | Some country \<Rightarrow>
          let area = (case Option.bind (contact_prefix contact) (find is_digit) of
                        Some c \<Rightarrow> c | None \<Rightarrow> CHR ''0'')
          in Some (country @ [area]))"

definition field_value :: "contact \<Rightarrow> string \<Rightarrow> string option" where
  "field_value contact field =
     (if eq_ignore_case field ''MODE_CLASS'' then
        map_option (\<lambda>mode. let m = to_upper (trim mode) in
            if m \<in> {''CW'', ''CW-R''} then ''CW''
            else if m \<in> {''SSB'', ''FM'', ''AM''} then ''PHONE''
            else m) (adif_text contact ''MODE'')
      else if eq_ignore_case field ''WPX_PREFIX'' then contact_prefix contact
      else if eq_ignore_case field ''GRID_FIELD'' then
        (case map_option (\<lambda>g. to_upper (trim g)) (adif_text contact ''GRIDSQUARE'') of
           Some g \<Rightarrow> if 2 \<le> length g then Some (take 2 g) else None
         | None \<Rightarrow> None)
      else if eq_ignore_case field ''JARL_CALL_AREA'' then jarl_call_area contact
      else if eq_ignore_case field ''JARL_ENTITY'' then
        (let entity = nonempty (map_option (\<lambda>v. to_upper (trim v)) (adif_text contact ''DXCC''))
         in if jarl_call_area contact = None then entity else None)
      else if eq_ignore_case field ''DOK_AREA'' then
        Option.bind (or_else (adif_text contact ''SRX_STRING'') (adif_text contact ''SRX''))
          (\<lambda>exchange. map_option (\<lambda>c. [upper_char c]) (find is_alpha exchange))
      else if eq_ignore_case field ''SAC_AREA'' then sac_area contact
      else nonempty (map_option (normalized_field_value field)
             (or_else (adif_text contact field) (meta_text contact field))))"

definition scoring_key :: "contact \<Rightarrow> string list \<Rightarrow> string" where
  "scoring_key contact keys =
     join_with ''|'' (map (\<lambda>field. case field_value contact field of Some v \<Rightarrow> v | None \<Rightarrow> []) keys)"

definition dupe_mode_class :: "contact \<Rightarrow> string option" where
  "dupe_mode_class contact =
     map_option (\<lambda>mode. if mode \<in> {''CW'', ''CW-R''} then ''CW''
        else if mode = ''SSB'' then ''SSB'' else if mode = ''FM'' then ''FM'' else ''DATA'')
       (field_value contact ''MODE'')"

definition dupe_scoring_key :: "contact \<Rightarrow> string list \<Rightarrow> string" where
  "dupe_scoring_key contact keys =
     join_with ''|''
       (map (\<lambda>field. case (if eq_ignore_case field ''MODE'' then dupe_mode_class contact
                          else field_value contact field) of Some v \<Rightarrow> v | None \<Rightarrow> []) keys)"

section \<open>Conditions\<close>

definition condition_matches :: "scoring_condition \<Rightarrow> contact \<Rightarrow> bool" where
  "condition_matches condition contact =
     (case field_value contact (cond_field condition) of
        None \<Rightarrow> False
      | Some v \<Rightarrow>
          (case matches_field condition of
             None \<Rightarrow> True
           | Some other \<Rightarrow>
               (case field_value contact other of None \<Rightarrow> False | Some w \<Rightarrow> eq_ignore_case v w))
          \<and> (case not_matches_field condition of
               None \<Rightarrow> True
             | Some other \<Rightarrow>
                 (case field_value contact other of None \<Rightarrow> False | Some w \<Rightarrow> \<not> eq_ignore_case v w))
          \<and> (let suffix_value =
                   (case map_option (\<lambda>v. to_upper (trim v))
                           (or_else (adif_text contact (cond_field condition))
                              (meta_text contact (cond_field condition))) of
                      Some s \<Rightarrow> s | None \<Rightarrow> v);
                 valid = map to_upper (cond_values condition);
                 excluded = map to_upper (cond_exclude_values condition);
                 ends = (\<lambda>s. suffix (to_upper (trim s)) suffix_value)
             in (valid = [] \<or> v \<in> set valid)
                \<and> v \<notin> set excluded
                \<and> (suffixes condition = [] \<or> list_ex ends (suffixes condition))
                \<and> \<not> list_ex ends (exclude_suffixes condition)))"

definition all_conditions :: "scoring_condition option \<Rightarrow> scoring_condition list \<Rightarrow> contact \<Rightarrow> bool" where
  "all_conditions when_one when_all contact \<longleftrightarrow>
     (case when_one of None \<Rightarrow> True | Some c \<Rightarrow> condition_matches c contact)
     \<and> list_all (\<lambda>c. condition_matches c contact) when_all"

definition multiplier_matches :: "multiplier_rule \<Rightarrow> contact \<Rightarrow> bool" where
  "multiplier_matches multiplier contact =
     (let call = to_upper (trim (case adif_text contact ''CALL'' of Some c \<Rightarrow> c | None \<Rightarrow> []))
      in if list_ex (\<lambda>s. suffix (to_upper (trim s)) call) (exclude_call_suffixes multiplier) then False
         else if \<not> all_conditions (mult_when multiplier) (mult_when_all multiplier) contact then False
         else (case field_value contact (mult_field multiplier) of
           None \<Rightarrow> False
         | Some v \<Rightarrow>
             if list_ex (\<lambda>e. eq_ignore_case e v) (mult_exclude_values multiplier) then False
             else mult_values multiplier = []
                  \<or> list_ex (\<lambda>e. eq_ignore_case e v) (mult_values multiplier)))"

section \<open>Points\<close>

definition param_selection :: "json \<Rightarrow> string \<Rightarrow> string option" where
  "param_selection params param =
     map_option trim
       (Option.bind
         (Option.bind (as_object params) (find (\<lambda>(name, _). eq_ignore_case name param)))
         (\<lambda>(_, v). as_str v))"

definition contact_in_category_band :: "scoring_module \<Rightarrow> contact \<Rightarrow> bool" where
  "contact_in_category_band m contact =
     (case Option.bind (qso_points (scoring (mod_rules m))) category_band_param of
        None \<Rightarrow> True
      | Some param_name \<Rightarrow>
          (case nonempty (map_option trim
                  (Option.bind
                    (Option.bind (as_object (mod_params m)) (\<lambda>params. map_of params param_name))
                    as_str)) of
             None \<Rightarrow> True
           | Some category_band \<Rightarrow>
               if eq_ignore_case category_band ''ALL'' then True
               else (case field_value contact ''BAND'' of
                 None \<Rightarrow> False
               | Some b \<Rightarrow> eq_ignore_case category_band b)))"

definition minute_in_window :: "nat \<Rightarrow> nat \<Rightarrow> nat \<Rightarrow> bool" where
  "minute_in_window minute start stop =
     (if start = stop then True
      else if start < stop then start \<le> minute \<and> minute < stop
      else start \<le> minute \<or> minute < stop)"

definition time_bonus_points :: "qso_points_rules \<Rightarrow> contact \<Rightarrow> int" where
  "time_bonus_points qp contact =
     (case Option.bind (contact_adif_value contact ''QSO_DATE_TIME_ON'') as_i64 of
        None \<Rightarrow> 0
      | Some timestamp \<Rightarrow>
          let minute = nat (timestamp mod 86400 div 60)
          in sum_i64 (map (\<lambda>rule.
               case (parse_utc_minute (start_utc rule), parse_utc_minute (end_utc rule)) of
                 (Some start, Some stop) \<Rightarrow>
                   if minute_in_window minute start stop then time_bonus rule else 0
               | _ \<Rightarrow> 0) (time_bonus_rules qp)))"

definition geography_points :: "geography_qso_points \<Rightarrow> contact \<Rightarrow> int" where
  "geography_points g contact =
     (let band = field_value contact ''BAND''
      in (case (field_value contact (country_field g), field_value contact (station_country_field g),
               field_value contact (continent_field g), field_value contact (station_continent_field g)) of
            (Some country, Some station_country, Some continent, Some station_continent) \<Rightarrow>
              if country = station_country then for_band (same_country g) band
              else if continent \<noteq> station_continent then for_band (different_continent g) band
              else if continent = ''NA'' then for_band (different_country_north_america g) band
              else for_band (different_country_same_continent g) band
          | _ \<Rightarrow> for_band (unresolved g) band))"

definition grid_points ::
  "(grid_center \<Rightarrow> grid_center \<Rightarrow> int \<Rightarrow> int) \<Rightarrow> grid_distance_qso_points \<Rightarrow> contact \<Rightarrow> int option" where
  "grid_points distance g contact =
     (case (Option.bind (field_value contact (station_grid_field g)) four_character_grid_center,
            Option.bind (field_value contact (contact_grid_field g)) four_character_grid_center) of
        (Some station, Some other) \<Rightarrow>
          Some (wrap_i64 (base_points g
            + max (distance station other (kilometers_per_point g)) (minimum_distance_points g)))
      | _ \<Rightarrow> None)"

definition score_qso_points ::
  "(grid_center \<Rightarrow> grid_center \<Rightarrow> int \<Rightarrow> int) \<Rightarrow> qso_points_rules \<Rightarrow> contact \<Rightarrow> int option" where
  "score_qso_points distance qp contact =
     map_option (\<lambda>base. wrap_i64 (base + time_bonus_points qp contact))
       (case grid_distance qp of
          Some g \<Rightarrow> grid_points distance g contact
        | None \<Rightarrow>
            (case geography qp of
               Some g \<Rightarrow> Some (geography_points g contact)
             | None \<Rightarrow>
                 (case fixed_points qp of
                    Some points \<Rightarrow> Some points
                  | None \<Rightarrow>
                      map_option rule_points
                        (find (\<lambda>rule. all_conditions (point_when rule) (point_when_all rule) contact)
                          (point_rules qp)))))"

definition score_factor_for :: "contest_rules \<Rightarrow> json \<Rightarrow> int" where
  "score_factor_for rules params =
     product_i64 (map (\<lambda>multiplier.
       case param_selection params (param_mult_param multiplier) of
         None \<Rightarrow> 1
       | Some selected \<Rightarrow>
           (case find (\<lambda>(v, _). eq_ignore_case v selected) (param_mult_values multiplier) of
              Some (_, factor) \<Rightarrow> factor
            | None \<Rightarrow> 1)) (param_multiplier_rules (scoring rules)))"

definition new_module ::
  "(grid_center \<Rightarrow> grid_center \<Rightarrow> int \<Rightarrow> int) \<Rightarrow> contest_rules \<Rightarrow> json \<Rightarrow> scoring_module" where
  "new_module distance rules params =
     \<lparr>mod_rules = rules, mod_params = params, mod_score_factor = score_factor_for rules params,
      distance_points = distance\<rparr>"

definition mod_scoring :: "scoring_module \<Rightarrow> scoring_rules" where
  "mod_scoring m = scoring (mod_rules m)"

definition has_multipliers :: "scoring_module \<Rightarrow> bool" where
  "has_multipliers m \<longleftrightarrow> multiplier_rules (mod_scoring m) \<noteq> []"

definition has_capped_multipliers :: "scoring_module \<Rightarrow> bool" where
  "has_capped_multipliers m \<longleftrightarrow>
     list_ex (\<lambda>r. mult_max_count r \<noteq> None) (multiplier_rules (mod_scoring m))"

definition dupe_key_for :: "scoring_module \<Rightarrow> contact \<Rightarrow> string option" where
  "dupe_key_for m contact =
     (if dupe_key_fields (mod_scoring m) = [] then None
      else Some (dupe_scoring_key contact (dupe_key_fields (mod_scoring m))))"

definition qso_points_for :: "scoring_module \<Rightarrow> contact \<Rightarrow> int" where
  "qso_points_for m contact =
     (if \<not> contact_in_category_band m contact then 0
      else (case qso_points (mod_scoring m) of
        None \<Rightarrow> 0
      | Some qp \<Rightarrow>
          (case score_qso_points (distance_points m) qp contact of Some p \<Rightarrow> p | None \<Rightarrow> 0)))"

definition candidate_of :: "contact \<Rightarrow> multiplier_rule \<Rightarrow> multiplier_candidate" where
  "candidate_of contact rule =
     (let key = (case fixed_key rule of Some k \<Rightarrow> k | None \<Rightarrow> scoring_key contact (mult_key rule))
      in \<lparr>cand_id = mult_id rule, cand_cap_group = mult_cap_group rule,
          cand_key = to_upper (mult_name rule) @ '':'' @ key,
          cand_max_count = mult_max_count rule\<rparr>)"

definition multiplier_candidates_for :: "scoring_module \<Rightarrow> contact \<Rightarrow> multiplier_candidate list" where
  "multiplier_candidates_for m contact =
     (if \<not> contact_in_category_band m contact then []
      else map (candidate_of contact)
        (filter (\<lambda>rule. multiplier_matches rule contact) (multiplier_rules (mod_scoring m))))"

definition multiplier_keys_for :: "scoring_module \<Rightarrow> contact \<Rightarrow> string list" where
  "multiplier_keys_for m contact = map cand_key (multiplier_candidates_for m contact)"

fun bonus_keys_from :: "contact \<Rightarrow> bonus_point_rule list \<Rightarrow> (string \<times> int) list" where
  "bonus_keys_from contact [] = []"
| "bonus_keys_from contact (rule # rules) =
     (case field_value contact (bonus_field rule) of
        None \<Rightarrow> bonus_keys_from contact rules
      | Some v \<Rightarrow>
          (case map_of (bonus_values rule) v of
             None \<Rightarrow> bonus_keys_from contact rules
           | Some points \<Rightarrow>
               (to_upper (bonus_name rule) @ '':'' @ scoring_key contact (bonus_key rule), points)
                 # bonus_keys_from contact rules))"

definition bonus_keys_for :: "scoring_module \<Rightarrow> contact \<Rightarrow> (string \<times> int) list" where
  "bonus_keys_for m contact = bonus_keys_from contact (bonus_point_rules (mod_scoring m))"

definition qso_count_bonus_applies :: "scoring_module \<Rightarrow> qso_count_bonus_rule \<Rightarrow> bool" where
  "qso_count_bonus_applies m rule =
     (case qc_bonus_param rule of
        None \<Rightarrow> True
      | Some param \<Rightarrow>
          (case param_selection (mod_params m) param of
             None \<Rightarrow> False
           | Some selected \<Rightarrow>
               qc_bonus_values rule = []
               \<or> list_ex (\<lambda>v. eq_ignore_case v selected) (qc_bonus_values rule)))"

definition qso_count_bonus_keys_for :: "scoring_module \<Rightarrow> contact \<Rightarrow> string list" where
  "qso_count_bonus_keys_for m contact =
     List.map_filter
       (\<lambda>rule. map_option (\<lambda>v. qc_bonus_id rule @ '':'' @ v) (field_value contact (qc_bonus_field rule)))
       (filter (qso_count_bonus_applies m) (qso_count_bonus_rules (mod_scoring m)))"

text \<open>\<open>rfind\<close> over a \<open>BTreeMap\<close> of thresholds: the points of the highest one reached.\<close>

definition threshold_points :: "(nat \<times> int) list \<Rightarrow> nat \<Rightarrow> int" where
  "threshold_points thresholds n =
     (case find (\<lambda>(t, _). t \<le> n) (rev thresholds) of Some (_, p) \<Rightarrow> p | None \<Rightarrow> 0)"

definition multiplier_count_bonus_points :: "scoring_module \<Rightarrow> string list \<Rightarrow> int" where
  "multiplier_count_bonus_points m keys =
     sum_i64 (map (\<lambda>rule.
       let p = to_upper (trim (mc_bonus_multiplier rule)) @ '':''
       in threshold_points (mc_thresholds rule) (length (filter (prefix p) keys)))
       (multiplier_count_bonus_rules (mod_scoring m)))"

definition qso_count_bonus_points :: "scoring_module \<Rightarrow> (string, nat) hmap \<Rightarrow> int" where
  "qso_count_bonus_points m counts =
     sum_i64 (map (\<lambda>rule.
       sum_i64 (map (\<lambda>(_, n). threshold_points (qc_thresholds rule) n)
         (filter (\<lambda>(key, _). prefix (qc_bonus_id rule @ '':'') key) counts)))
       (qso_count_bonus_rules (mod_scoring m)))"

section \<open>The batch scorer\<close>

text \<open>\<open>HashSet::insert\<close> and \<open>*entry(key).or_default() += 1\<close>.\<close>

definition hs_insert :: "'a \<Rightarrow> 'a list \<Rightarrow> 'a list" where
  "hs_insert x xs = (if x \<in> set xs then xs else xs @ [x])"

definition hm_incr :: "'k \<Rightarrow> ('k, nat) hmap \<Rightarrow> ('k, nat) hmap" where
  "hm_incr k m = hm_put k (Suc (case hm_get m k of Some n \<Rightarrow> n | None \<Rightarrow> 0)) m"

definition count_of :: "'k \<Rightarrow> ('k, nat) hmap \<Rightarrow> nat" where
  "count_of k m = (case hm_get m k of Some n \<Rightarrow> n | None \<Rightarrow> 0)"

record contest_scorer =
  sc_module :: scoring_module
  sc_dupe_keys :: "(string, nat) hmap"
  sc_raw_multipliers :: int
  sc_multiplier_keys :: "string list"
  sc_multiplier_counts :: "(string, nat) hmap"
  sc_bonus_keys :: "string list"
  sc_qso_counts :: "(string, nat) hmap"
  sc_direct_bonus :: int
  sc_totals :: score_totals

definition scorer :: "scoring_module \<Rightarrow> contest_scorer" where
  "scorer m = \<lparr>sc_module = m, sc_dupe_keys = [], sc_raw_multipliers = 0, sc_multiplier_keys = [],
     sc_multiplier_counts = [], sc_bonus_keys = [], sc_qso_counts = [], sc_direct_bonus = 0,
     sc_totals = zero_totals\<rparr>"

definition reset_scorer :: "contest_scorer \<Rightarrow> contest_scorer" where
  "reset_scorer s = s\<lparr>sc_dupe_keys := [], sc_raw_multipliers := 0, sc_multiplier_keys := [],
     sc_multiplier_counts := [], sc_bonus_keys := [], sc_qso_counts := [], sc_direct_bonus := 0,
     sc_totals := zero_totals\<rparr>"

definition cap_key :: "multiplier_candidate \<Rightarrow> string" where
  "cap_key c = (case cand_cap_group c of Some g \<Rightarrow> g | None \<Rightarrow> cand_id c)"

definition cap_reached :: "(string, nat) hmap \<Rightarrow> multiplier_candidate \<Rightarrow> bool" where
  "cap_reached counts c =
     (case cand_max_count c of None \<Rightarrow> False | Some maximum \<Rightarrow> maximum \<le> count_of (cap_key c) counts)"

definition scorer_is_dupe :: "contest_scorer \<Rightarrow> contact \<Rightarrow> bool \<times> contest_scorer" where
  "scorer_is_dupe s contact =
     (case dupe_key_for (sc_module s) contact of
        None \<Rightarrow> (False, s)
      | Some key \<Rightarrow>
          (0 < count_of key (sc_dupe_keys s), s\<lparr>sc_dupe_keys := hm_incr key (sc_dupe_keys s)\<rparr>))"

fun take_multipliers :: "multiplier_candidate list \<Rightarrow> contest_scorer \<Rightarrow> int \<times> contest_scorer" where
  "take_multipliers [] s = (0, s)"
| "take_multipliers (c # cs) s =
     (if cand_key c \<in> set (sc_multiplier_keys s) \<or> cap_reached (sc_multiplier_counts s) c
      then take_multipliers cs s
      else
        (let s = s\<lparr>sc_multiplier_keys := hs_insert (cand_key c) (sc_multiplier_keys s),
                  sc_multiplier_counts := hm_incr (cap_key c) (sc_multiplier_counts s)\<rparr>;
             (n, s) = take_multipliers cs s
         in (n + 1, s)))"

fun take_bonuses :: "(string \<times> int) list \<Rightarrow> contest_scorer \<Rightarrow> int \<times> contest_scorer" where
  "take_bonuses [] s = (0, s)"
| "take_bonuses ((key, points) # ks) s =
     (if key \<in> set (sc_bonus_keys s) then take_bonuses ks s
      else
        (let (n, s) = take_bonuses ks (s\<lparr>sc_bonus_keys := hs_insert key (sc_bonus_keys s)\<rparr>)
         in (wrap_i64 (points + n), s)))"

text \<open>The shared arithmetic of the two \<open>recalculate_score\<close> functions.\<close>

definition recalculate ::
  "scoring_module \<Rightarrow> int \<Rightarrow> int \<Rightarrow> string list \<Rightarrow> (string, nat) hmap \<Rightarrow> score_totals \<Rightarrow> score_totals" where
  "recalculate m raw direct keys counts totals =
     (let factor = (if has_multipliers m
                    then max raw (minimum_multiplier_count (mod_scoring m)) else 1);
          bonus = wrap_i64 (direct + multiplier_count_bonus_points m keys + qso_count_bonus_points m counts)
      in totals\<lparr>total_multipliers := (if has_multipliers m then factor else 0),
                total_bonus_points := bonus,
                total_score := wrap_i64 (total_qso_points totals * factor * mod_score_factor m + bonus)\<rparr>)"

definition scorer_recalculate :: "contest_scorer \<Rightarrow> contest_scorer" where
  "scorer_recalculate s =
     s\<lparr>sc_totals := recalculate (sc_module s) (sc_raw_multipliers s) (sc_direct_bonus s)
         (sc_multiplier_keys s) (sc_qso_counts s) (sc_totals s)\<rparr>"

definition set_contact_score_fields :: "contact \<Rightarrow> int \<Rightarrow> int \<Rightarrow> int \<Rightarrow> bool \<Rightarrow> contact" where
  "set_contact_score_fields contact points mults bonus is_dupe =
     set_contact_meta
       (set_contact_meta
         (set_contact_meta
           (set_contact_meta contact ''pts'' (JInt points))
           ''mult'' (JInt mults))
         ''bonus'' (JInt bonus))
       ''dupe'' (JBool is_dupe)"

definition add_qso :: "contest_scorer \<Rightarrow> contact \<Rightarrow> contest_scorer \<times> contact" where
  "add_qso s contact =
     (let s = s\<lparr>sc_totals := (sc_totals s)\<lparr>qso_count := qso_count (sc_totals s) + 1\<rparr>\<rparr>;
          (is_dupe, s) = scorer_is_dupe s contact;
          points = (if is_dupe then 0 else qso_points_for (sc_module s) contact);
          (mults, s) = (if is_dupe then (0, s)
                        else take_multipliers (multiplier_candidates_for (sc_module s) contact) s);
          (bonus, s) = (if is_dupe then (0, s)
                        else take_bonuses (bonus_keys_for (sc_module s) contact) s);
          s = s\<lparr>sc_totals := (sc_totals s)\<lparr>total_qso_points := wrap_i64 (total_qso_points (sc_totals s) + points)\<rparr>,
               sc_raw_multipliers := wrap_i64 (sc_raw_multipliers s + mults),
               sc_direct_bonus := wrap_i64 (sc_direct_bonus s + bonus)\<rparr>;
          s = (if \<not> is_dupe \<and> 0 < points
               then s\<lparr>sc_qso_counts :=
                      fold hm_incr (qso_count_bonus_keys_for (sc_module s) contact) (sc_qso_counts s)\<rparr>
               else s)
      in (scorer_recalculate s, set_contact_score_fields contact points mults bonus is_dupe))"

fun add_qsos :: "contest_scorer \<Rightarrow> contact list \<Rightarrow> contest_scorer \<times> contact list" where
  "add_qsos s [] = (s, [])"
| "add_qsos s (contact # contacts) =
     (let (s, contact) = add_qso s contact; (s, contacts) = add_qsos s contacts
      in (s, contact # contacts))"

definition score_contacts ::
  "(grid_center \<Rightarrow> grid_center \<Rightarrow> int \<Rightarrow> int) \<Rightarrow> contest_rules \<Rightarrow> json \<Rightarrow> contact list
     \<Rightarrow> score_totals \<times> contact list" where
  "score_contacts distance rules params contacts =
     (let (s, contacts) = add_qsos (reset_scorer (scorer (new_module distance rules params))) contacts
      in (sc_totals s, contacts))"

definition contact_score_order :: "contact \<Rightarrow> int \<times> int" where
  "contact_score_order contact =
     (case Option.bind (contact_adif_value contact ''QSO_DATE_TIME_ON'') as_i64 of Some t \<Rightarrow> t | None \<Rightarrow> 0,
      case contact_id contact of Some i \<Rightarrow> i | None \<Rightarrow> 0)"

section \<open>Modules by contest and parameters\<close>

text \<open>
  An \<open>Arc<ContestScoringModule>\<close> is an address with its module; \<open>Arc::ptr_eq\<close> compares addresses.
  \<open>ScoringModules\<close> allocates one per contest and parameter text.
\<close>

record module_arc =
  arc_address :: nat
  arc_module :: scoring_module

record scoring_modules =
  next_address :: nat
  modules :: "(string, module_arc) hmap"

definition scoring_module_key :: "string \<Rightarrow> json \<Rightarrow> string" where
  "scoring_module_key contest_id contest_params = contest_id @ '':'' @ json_text contest_params"

definition modules_get ::
  "(grid_center \<Rightarrow> grid_center \<Rightarrow> int \<Rightarrow> int) \<Rightarrow> contest_rules \<Rightarrow> json \<Rightarrow> scoring_modules
     \<Rightarrow> module_arc \<times> scoring_modules" where
  "modules_get distance rules params st =
     (let key = scoring_module_key (rules_id rules) params
      in (case hm_get (modules st) key of
            Some arc \<Rightarrow> (arc, st)
          | None \<Rightarrow>
              let arc = \<lparr>arc_address = next_address st, arc_module = new_module distance rules params\<rparr>
              in (arc, \<lparr>next_address = Suc (next_address st), modules = hm_put key arc (modules st)\<rparr>)))"

end
