(* ===== verification/IncrementalScore.thy ===== *)
theory IncrementalScore
  imports Scoring
begin

text \<open>
  The incremental score tracker of \<open>backend/src/scoring.rs\<close> (lines 890-1460): per log it keeps
  which contact owns each duplicate key, multiplier and bonus, updates them when contacts are
  added, replaced or deleted, and rewrites the score fields of the contacts that change.

  Iteration over a \<open>HashMap\<close> follows the list that models it, an unspecified order. The contacts
  slice is a list; the loops that mutate it return it updated.
\<close>

section \<open>State\<close>

record inc_state =
  inc_module :: module_arc
  inc_totals :: score_totals
  inc_raw_multipliers :: int
  inc_direct_bonus :: int
  dupe_counts :: "(string, nat) hmap"
  dupe_owners :: "(string, int) hmap"
  multiplier_owners :: "(string, int) hmap"
  inc_multiplier_counts :: "(string, nat) hmap"
  bonus_owners :: "(string, int) hmap"
  inc_qso_counts :: "(string, nat) hmap"

type_synonym score_tracker = "(int, inc_state) hmap"

definition inc_new :: "module_arc \<Rightarrow> inc_state" where
  "inc_new arc = \<lparr>inc_module = arc, inc_totals = zero_totals, inc_raw_multipliers = 0,
     inc_direct_bonus = 0, dupe_counts = [], dupe_owners = [], multiplier_owners = [],
     inc_multiplier_counts = [], bonus_owners = [], inc_qso_counts = []\<rparr>"

abbreviation inc_mod :: "inc_state \<Rightarrow> scoring_module" where
  "inc_mod st \<equiv> arc_module (inc_module st)"

section \<open>Score fields of a contact\<close>

definition scored_i64 :: "contact \<Rightarrow> string \<Rightarrow> int" where
  "scored_i64 contact field =
     (case Option.bind (contact_meta_value contact field) as_i64 of Some i \<Rightarrow> i | None \<Rightarrow> 0)"

definition is_dupe_contact :: "contact \<Rightarrow> bool" where
  "is_dupe_contact contact =
     (case Option.bind (contact_meta_value contact ''dupe'') as_bool of Some b \<Rightarrow> b | None \<Rightarrow> False)"

definition increment_contact_score_field :: "contact \<Rightarrow> string \<Rightarrow> int \<Rightarrow> contact" where
  "increment_contact_score_field contact field delta =
     set_contact_meta contact field (JInt (wrap_i64 (scored_i64 contact field + delta)))"

definition decrement_count :: "string \<Rightarrow> (string, nat) hmap \<Rightarrow> (string, nat) hmap" where
  "decrement_count key counts =
     (case hm_get counts key of
        None \<Rightarrow> counts
      | Some n \<Rightarrow> if n \<le> 1 then hm_remove key counts else hm_put key (n - 1) counts)"

section \<open>Adding a contact\<close>

fun own_multipliers :: "int option \<Rightarrow> multiplier_candidate list \<Rightarrow> inc_state \<Rightarrow> int \<times> inc_state" where
  "own_multipliers cid [] st = (0, st)"
| "own_multipliers cid (c # cs) st =
     (case cid of
        Some i \<Rightarrow>
          if hm_get (multiplier_owners st) (cand_key c) = None
             \<and> \<not> cap_reached (inc_multiplier_counts st) c
          then
            (let st = st\<lparr>multiplier_owners := hm_put (cand_key c) i (multiplier_owners st),
                        inc_multiplier_counts := hm_incr (cap_key c) (inc_multiplier_counts st)\<rparr>;
                 (n, st) = own_multipliers cid cs st
             in (n + 1, st))
          else own_multipliers cid cs st
      | None \<Rightarrow> own_multipliers cid cs st)"

fun own_bonuses :: "int option \<Rightarrow> (string \<times> int) list \<Rightarrow> inc_state \<Rightarrow> int \<times> inc_state" where
  "own_bonuses cid [] st = (0, st)"
| "own_bonuses cid ((key, points) # ks) st =
     (case cid of
        Some i \<Rightarrow>
          if hm_get (bonus_owners st) key = None
          then
            (let (n, st) = own_bonuses cid ks (st\<lparr>bonus_owners := hm_put key i (bonus_owners st)\<rparr>)
             in (wrap_i64 (points + n), st))
          else own_bonuses cid ks st
      | None \<Rightarrow> own_bonuses cid ks st)"

definition score_non_dupe_contact ::
  "inc_state \<Rightarrow> contact \<Rightarrow> int option \<Rightarrow> int \<times> int \<times> int \<times> inc_state" where
  "score_non_dupe_contact st contact cid =
     (let points = qso_points_for (inc_mod st) contact;
          (mults, st1) = own_multipliers cid (multiplier_candidates_for (inc_mod st) contact) st;
          (bonus, st2) = own_bonuses cid (bonus_keys_for (inc_mod st) contact) st1
      in (points, mults, bonus, st2))"

definition inc_recalculate :: "inc_state \<Rightarrow> inc_state" where
  "inc_recalculate st =
     st\<lparr>inc_totals := recalculate (inc_mod st) (inc_raw_multipliers st) (inc_direct_bonus st)
          (map fst (multiplier_owners st)) (inc_qso_counts st) (inc_totals st)\<rparr>"

text \<open>The lines \<open>add_contact\<close> and \<open>promote_contact\<close> share: score the contact and count it.\<close>

definition count_non_dupe :: "inc_state \<Rightarrow> contact \<Rightarrow> int option \<Rightarrow> inc_state \<times> contact" where
  "count_non_dupe st contact cid =
     (let (points, mults, bonus, st) = score_non_dupe_contact st contact cid;
          st = st\<lparr>inc_totals := (inc_totals st)\<lparr>total_qso_points := wrap_i64 (total_qso_points (inc_totals st) + points)\<rparr>,
                 inc_raw_multipliers := wrap_i64 (inc_raw_multipliers st + mults),
                 inc_direct_bonus := wrap_i64 (inc_direct_bonus st + bonus)\<rparr>;
          st = (if 0 < points
                then st\<lparr>inc_qso_counts :=
                       fold hm_incr (qso_count_bonus_keys_for (inc_mod st) contact) (inc_qso_counts st)\<rparr>
                else st)
      in (st, set_contact_score_fields contact points mults bonus False))"

definition inc_note_dupe :: "inc_state \<Rightarrow> contact \<Rightarrow> bool \<times> inc_state" where
  "inc_note_dupe st contact =
     (case dupe_key_for (inc_mod st) contact of
        None \<Rightarrow> (False, st)
      | Some key \<Rightarrow>
          let is_dupe = (0 < count_of key (dupe_counts st));
              st = st\<lparr>dupe_counts := hm_incr key (dupe_counts st)\<rparr>
          in (is_dupe,
              (case contact_id contact of
                 Some i \<Rightarrow>
                   if \<not> is_dupe \<and> hm_get (dupe_owners st) key = None
                   then st\<lparr>dupe_owners := hm_put key i (dupe_owners st)\<rparr> else st
               | None \<Rightarrow> st)))"

definition inc_add_contact :: "inc_state \<Rightarrow> contact \<Rightarrow> inc_state \<times> contact" where
  "inc_add_contact st contact =
     (let st = st\<lparr>inc_totals := (inc_totals st)\<lparr>qso_count := qso_count (inc_totals st) + 1\<rparr>\<rparr>;
          (is_dupe, st) = inc_note_dupe st contact
      in if is_dupe then (inc_recalculate st, set_contact_score_fields contact 0 0 0 True)
         else (let (st, contact) = count_non_dupe st contact (contact_id contact)
               in (inc_recalculate st, contact)))"

fun inc_add_contacts :: "inc_state \<Rightarrow> contact list \<Rightarrow> inc_state \<times> contact list" where
  "inc_add_contacts st [] = (st, [])"
| "inc_add_contacts st (contact # contacts) =
     (let (st, contact) = inc_add_contact st contact; (st, contacts) = inc_add_contacts st contacts
      in (st, contact # contacts))"

definition inc_reset :: "inc_state \<Rightarrow> module_arc \<Rightarrow> contact list \<Rightarrow> inc_state \<times> contact list" where
  "inc_reset st arc contacts =
     inc_add_contacts
       (st\<lparr>inc_module := arc, inc_totals := zero_totals, inc_raw_multipliers := 0,
           inc_direct_bonus := 0, dupe_counts := [], dupe_owners := [], multiplier_owners := [],
           inc_multiplier_counts := [], bonus_owners := [], inc_qso_counts := []\<rparr>) contacts"

section \<open>Removing a contact\<close>

definition find_dupe_replacement_index ::
  "inc_state \<Rightarrow> contact list \<Rightarrow> string \<Rightarrow> int option \<Rightarrow> nat option" where
  "find_dupe_replacement_index st contacts key skip =
     position (\<lambda>c. case contact_id c of
         None \<Rightarrow> False
       | Some i \<Rightarrow> skip \<noteq> Some i \<and> dupe_key_for (inc_mod st) c = Some key) contacts"

definition find_multiplier_replacement_index ::
  "inc_state \<Rightarrow> contact list \<Rightarrow> string \<Rightarrow> int option \<Rightarrow> nat option" where
  "find_multiplier_replacement_index st contacts key skip =
     position (\<lambda>c. case contact_id c of
         None \<Rightarrow> False
       | Some i \<Rightarrow> skip \<noteq> Some i \<and> \<not> is_dupe_contact c
                   \<and> key \<in> set (multiplier_keys_for (inc_mod st) c)) contacts"

definition bonus_offer :: "inc_state \<Rightarrow> string \<Rightarrow> int option \<Rightarrow> contact \<Rightarrow> int option" where
  "bonus_offer st key skip c =
     (case contact_id c of
        None \<Rightarrow> None
      | Some i \<Rightarrow>
          if skip = Some i \<or> is_dupe_contact c then None
          else map_of (bonus_keys_for (inc_mod st) c) key)"

definition find_bonus_replacement ::
  "inc_state \<Rightarrow> contact list \<Rightarrow> string \<Rightarrow> int option \<Rightarrow> (nat \<times> int) option" where
  "find_bonus_replacement st contacts key skip =
     (case position (\<lambda>c. bonus_offer st key skip c \<noteq> None) contacts of
        None \<Rightarrow> None
      | Some index \<Rightarrow> map_option (\<lambda>points. (index, points)) (bonus_offer st key skip (contacts ! index)))"

definition owned_keys :: "(string, int) hmap \<Rightarrow> int \<Rightarrow> string list" where
  "owned_keys owners i = map fst (filter (\<lambda>(_, owner). owner = i) owners)"

definition remove_owned_keys :: "(string, int) hmap \<Rightarrow> int \<Rightarrow> string list \<times> (string, int) hmap" where
  "remove_owned_keys owners i =
     (let keys = owned_keys owners i in (keys, fold hm_remove keys owners))"

text \<open>The state the loops of \<open>remove_contact\<close> work on: tracker state, contacts, changed ids.\<close>

type_synonym work = "inc_state \<times> contact list \<times> int list"

definition promote_contact :: "nat \<Rightarrow> work \<Rightarrow> work" where
  "promote_contact index w =
     (case w of (st, contacts, changed) \<Rightarrow>
        if length contacts \<le> index then w
        else
          let contact = contacts ! index
          in if \<not> is_dupe_contact contact then w
             else
               let cid = contact_id contact;
                   (st, contact) = count_non_dupe st contact cid
               in (st, contacts[index := contact],
                   (case cid of Some i \<Rightarrow> hs_insert i changed | None \<Rightarrow> changed)))"

definition reassign_multiplier :: "int option \<Rightarrow> string \<Rightarrow> work \<Rightarrow> work" where
  "reassign_multiplier skip key w =
     (case w of (st, contacts, changed) \<Rightarrow>
        if hm_get (multiplier_owners st) key \<noteq> None then w
        else
          (case find_multiplier_replacement_index st contacts key skip of
             None \<Rightarrow> w
           | Some index \<Rightarrow>
               (case contact_id (contacts ! index) of
                  None \<Rightarrow> w
                | Some i \<Rightarrow>
                    (st\<lparr>multiplier_owners := hm_put key i (multiplier_owners st),
                        inc_raw_multipliers := wrap_i64 (inc_raw_multipliers st + 1)\<rparr>,
                     contacts[index := increment_contact_score_field (contacts ! index) ''mult'' 1],
                     hs_insert i changed))))"

definition reassign_bonus :: "int option \<Rightarrow> string \<Rightarrow> work \<Rightarrow> work" where
  "reassign_bonus skip key w =
     (case w of (st, contacts, changed) \<Rightarrow>
        if hm_get (bonus_owners st) key \<noteq> None then w
        else
          (case find_bonus_replacement st contacts key skip of
             None \<Rightarrow> w
           | Some (index, points) \<Rightarrow>
               (case contact_id (contacts ! index) of
                  None \<Rightarrow> w
                | Some i \<Rightarrow>
                    (st\<lparr>bonus_owners := hm_put key i (bonus_owners st),
                        inc_direct_bonus := wrap_i64 (inc_direct_bonus st + points)\<rparr>,
                     contacts[index := increment_contact_score_field (contacts ! index) ''bonus'' points],
                     hs_insert i changed))))"

text \<open>The duplicate key of the deleted contact: its count, its owner and the next owner.\<close>

definition release_dupe ::
  "inc_state \<Rightarrow> contact \<Rightarrow> contact list \<Rightarrow> int option \<Rightarrow> nat option \<times> inc_state" where
  "release_dupe st deleted contacts skip =
     (case dupe_key_for (inc_mod st) deleted of
        None \<Rightarrow> (None, st)
      | Some key \<Rightarrow>
          let st = st\<lparr>dupe_counts := decrement_count key (dupe_counts st)\<rparr>
          in (case contact_id deleted of
                None \<Rightarrow> (None, st)
              | Some i \<Rightarrow>
                  if hm_get (dupe_owners st) key \<noteq> Some i then (None, st)
                  else
                    let st = st\<lparr>dupe_owners := hm_remove key (dupe_owners st)\<rparr>;
                        replacement = find_dupe_replacement_index st contacts key skip
                    in (replacement,
                        (case Option.bind replacement (\<lambda>index. contact_id (contacts ! index)) of
                           Some j \<Rightarrow> st\<lparr>dupe_owners := hm_put key j (dupe_owners st)\<rparr>
                         | None \<Rightarrow> st))))"

text \<open>\<open>qso_count\<close> is decreased with \<open>saturating_sub\<close>, the subtraction of \<open>nat\<close>.\<close>

definition forget_scores :: "inc_state \<Rightarrow> contact \<Rightarrow> inc_state" where
  "forget_scores st deleted =
     (let st = st\<lparr>inc_totals := (inc_totals st)\<lparr>qso_count := qso_count (inc_totals st) - 1,
                    total_qso_points := wrap_i64 (total_qso_points (inc_totals st) - scored_i64 deleted ''pts'')\<rparr>,
                  inc_raw_multipliers := wrap_i64 (inc_raw_multipliers st - scored_i64 deleted ''mult''),
                  inc_direct_bonus := wrap_i64 (inc_direct_bonus st - scored_i64 deleted ''bonus'')\<rparr>
      in if \<not> is_dupe_contact deleted \<and> 0 < scored_i64 deleted ''pts''
         then st\<lparr>inc_qso_counts :=
                fold decrement_count (qso_count_bonus_keys_for (inc_mod st) deleted) (inc_qso_counts st)\<rparr>
         else st)"

definition inc_remove_contact :: "contact \<Rightarrow> int option \<Rightarrow> work \<Rightarrow> work" where
  "inc_remove_contact deleted skip w =
     (case w of (st, contacts, changed) \<Rightarrow>
        let st = forget_scores st deleted;
            (replacement, st) = release_dupe st deleted contacts skip;
            (freed_mults, mult_owners) =
              (case contact_id deleted of
                 Some i \<Rightarrow> remove_owned_keys (multiplier_owners st) i
               | None \<Rightarrow> ([], multiplier_owners st));
            (freed_bonuses, b_owners) =
              (case contact_id deleted of
                 Some i \<Rightarrow> remove_owned_keys (bonus_owners st) i
               | None \<Rightarrow> ([], bonus_owners st));
            st = st\<lparr>multiplier_owners := mult_owners, bonus_owners := b_owners\<rparr>;
            w = (case replacement of
                   Some index \<Rightarrow> promote_contact index (st, contacts, changed)
                 | None \<Rightarrow> (st, contacts, changed));
            w = fold (reassign_multiplier skip) freed_mults w;
            w = fold (reassign_bonus skip) freed_bonuses w
        in (case w of (st, contacts, changed) \<Rightarrow> (inc_recalculate st, contacts, changed)))"

section \<open>The log cache processor\<close>

definition all_contact_ids :: "contact list \<Rightarrow> int list" where
  "all_contact_ids contacts = List.map_filter contact_id contacts"

definition collect_changed_contacts :: "contact list \<Rightarrow> int list \<Rightarrow> int list \<Rightarrow> contact list" where
  "collect_changed_contacts contacts changed excluded =
     filter (\<lambda>c. case contact_id c of
         None \<Rightarrow> False
       | Some i \<Rightarrow> i \<in> set changed \<and> i \<notin> set excluded) contacts"

text \<open>\<open>entry(log_id).or_insert_with(...)\<close>.\<close>

definition tracker_state :: "score_tracker \<Rightarrow> int \<Rightarrow> module_arc \<Rightarrow> inc_state" where
  "tracker_state logs log_id arc = (case hm_get logs log_id of Some st \<Rightarrow> st | None \<Rightarrow> inc_new arc)"

definition score_on_log_loaded ::
  "int \<Rightarrow> module_arc \<Rightarrow> contact list \<Rightarrow> score_tracker \<Rightarrow> contact list \<times> score_tracker" where
  "score_on_log_loaded log_id arc contacts logs =
     (let (st, contacts) = inc_reset (tracker_state logs log_id arc) arc contacts
      in (contacts, hm_put log_id st logs))"

fun readd_committed :: "contact list \<Rightarrow> inc_state \<Rightarrow> contact list \<Rightarrow> inc_state \<times> contact list" where
  "readd_committed [] st contacts = (st, contacts)"
| "readd_committed (committed # rest) st contacts =
     (case contact_id committed of
        None \<Rightarrow> readd_committed rest st contacts
      | Some i \<Rightarrow>
          (case position (\<lambda>c. contact_id c = Some i) contacts of
             None \<Rightarrow> readd_committed rest st contacts
           | Some index \<Rightarrow>
               (let (st, contact) = inc_add_contact st (contacts ! index)
                in readd_committed rest st (contacts[index := contact]))))"

text \<open>Returns the contacts to announce, the slice and the tracker.\<close>

definition score_on_contacts_upserted ::
  "int \<Rightarrow> module_arc \<Rightarrow> contact list \<Rightarrow> contact list \<Rightarrow> contact option list \<Rightarrow> score_tracker
     \<Rightarrow> contact list \<times> contact list \<times> score_tracker" where
  "score_on_contacts_upserted log_id arc contacts committed previous logs =
     (let st = tracker_state logs log_id arc;
          (st, contacts) =
            (if arc_address (inc_module st) \<noteq> arc_address arc then inc_reset st arc contacts
             else (st, contacts));
          committed_ids = all_contact_ids committed
      in if has_capped_multipliers (inc_mod st)
         then
           (let (st, contacts) = inc_reset st arc contacts
            in (collect_changed_contacts contacts (all_contact_ids contacts) committed_ids,
                contacts, hm_put log_id st logs))
         else
           (let (st, contacts, changed) =
                  fold (\<lambda>p. inc_remove_contact p (contact_id p))
                    (List.map_filter id previous) (st, contacts, []);
                (st, contacts) = readd_committed committed st contacts
            in (collect_changed_contacts contacts changed committed_ids,
                contacts, hm_put log_id st logs)))"

definition score_on_contact_deleted ::
  "int \<Rightarrow> module_arc \<Rightarrow> contact list \<Rightarrow> contact \<Rightarrow> score_tracker
     \<Rightarrow> contact list \<times> contact list \<times> score_tracker" where
  "score_on_contact_deleted log_id arc contacts deleted logs =
     (case hm_get logs log_id of
        None \<Rightarrow> ([], contacts, logs)
      | Some st \<Rightarrow>
          if arc_address (inc_module st) \<noteq> arc_address arc then
            (let (st, contacts) = inc_reset st arc contacts in ([], contacts, hm_put log_id st logs))
          else if has_capped_multipliers (inc_mod st) then
            (let (st, contacts) = inc_reset st arc contacts
             in (contacts, contacts, hm_put log_id st logs))
          else
            (let (st, contacts, changed) = inc_remove_contact deleted None (st, contacts, [])
             in (collect_changed_contacts contacts changed [], contacts, hm_put log_id st logs)))"

definition score_on_log_removed :: "int \<Rightarrow> score_tracker \<Rightarrow> score_tracker" where
  "score_on_log_removed log_id logs = hm_remove log_id logs"

definition tracker_totals :: "score_tracker \<Rightarrow> int \<Rightarrow> score_totals option" where
  "tracker_totals logs log_id = map_option inc_totals (hm_get logs log_id)"

end
