(* ===== verification/ScoringSpec.thy ===== *)
theory ScoringSpec
  imports Scoring
begin

text \<open>
  What the batch scorer computes, stated over the list of contacts: which contacts count, their
  points, the set of multipliers, the caps, and the final score.
\<close>

section \<open>Wrapping\<close>

lemma wrap_i64_eqI: "a mod 18446744073709551616 = b mod 18446744073709551616 \<Longrightarrow> wrap_i64 a = wrap_i64 b"
  unfolding wrap_i64_def using mod_add_cong [of a 18446744073709551616 b] by simp

lemma wrap_i64_mod: "wrap_i64 a mod 18446744073709551616 = a mod 18446744073709551616"
  by (simp add: wrap_i64_def mod_diff_left_eq)

lemma wrap_i64_twice [simp]: "wrap_i64 (wrap_i64 a) = wrap_i64 a"
  by (rule wrap_i64_eqI) (rule wrap_i64_mod)

lemma wrap_i64_add [simp]:
  "wrap_i64 (wrap_i64 a + b) = wrap_i64 (a + b)" "wrap_i64 (b + wrap_i64 a) = wrap_i64 (b + a)"
  by (rule wrap_i64_eqI, rule mod_add_cong, simp_all add: wrap_i64_mod)+

lemma wrap_i64_mult [simp]:
  "wrap_i64 (wrap_i64 a * b) = wrap_i64 (a * b)" "wrap_i64 (b * wrap_i64 a) = wrap_i64 (b * a)"
  by (rule wrap_i64_eqI, rule mod_mult_cong, simp_all add: wrap_i64_mod)+

lemma wrap_i64_le: "0 \<le> a \<Longrightarrow> wrap_i64 a \<le> a"
  unfolding wrap_i64_def using zmod_le_nonneg_dividend [of "a + 9223372036854775808" 18446744073709551616] by linarith

text \<open>Wrapping after every step is wrapping once.\<close>

lemma sum_i64_wrap: "sum_i64 xs = wrap_i64 (sum_list xs)"
proof -
  have "fold (\<lambda>x total. wrap_i64 (total + x)) xs (wrap_i64 a) = wrap_i64 (a + sum_list xs)" for a
    by (induction xs arbitrary: a) (simp_all add: add.assoc)
  from this [of 0] show ?thesis by (simp add: sum_i64_def wrap_i64_def)
qed

lemma product_i64_wrap: "product_i64 xs = wrap_i64 (prod_list xs)"
proof -
  have "fold (\<lambda>x total. wrap_i64 (total * x)) xs (wrap_i64 a) = wrap_i64 (a * prod_list xs)" for a
    by (induction xs arbitrary: a) (simp_all add: mult.assoc)
  from this [of 1] show ?thesis by (simp add: product_i64_def wrap_i64_def)
qed

section \<open>The specification\<close>

text \<open>A contact repeats an earlier one when both have the same duplicate key.\<close>

definition repeats :: "scoring_module \<Rightarrow> contact list \<Rightarrow> contact \<Rightarrow> bool" where
  "repeats m before c \<longleftrightarrow>
     dupe_key_for m c \<noteq> None \<and> (\<exists>d\<in>set before. dupe_key_for m d = dupe_key_for m c)"

fun counted_after :: "scoring_module \<Rightarrow> contact list \<Rightarrow> contact list \<Rightarrow> contact list" where
  "counted_after m before [] = []"
| "counted_after m before (c # cs) =
     (if repeats m before c then counted_after m (before @ [c]) cs
      else c # counted_after m (before @ [c]) cs)"

definition counted :: "scoring_module \<Rightarrow> contact list \<Rightarrow> contact list" where
  "counted m cs = counted_after m [] cs"

definition multiplier_set :: "scoring_module \<Rightarrow> contact list \<Rightarrow> string set" where
  "multiplier_set m cs = (\<Union>c\<in>set cs. set (multiplier_keys_for m c))"

lemma counted_after_snoc:
  "counted_after m before (cs @ [c]) =
     counted_after m before cs @ (if repeats m (before @ cs) c then [] else [c])"
  by (induction cs arbitrary: before) auto

lemma counted_snoc: "counted m (cs @ [c]) = counted m cs @ (if repeats m cs c then [] else [c])"
  by (simp add: counted_def counted_after_snoc)

lemma counted_Nil [simp]: "counted m [] = []"
  by (simp add: counted_def)

section \<open>One step of the scorer\<close>

lemma count_of_incr [simp]: "count_of k (hm_incr l m) = (if k = l then Suc (count_of k m) else count_of k m)"
  by (simp add: count_of_def hm_incr_def hm_get_put split: option.splits)

lemma hs_insert_facts [simp]:
  "set (hs_insert x xs) = insert x (set xs)"
  "distinct xs \<Longrightarrow> distinct (hs_insert x xs)"
  "x \<notin> set xs \<Longrightarrow> length (hs_insert x xs) = Suc (length xs)"
  by (auto simp: hs_insert_def)

lemma take_multipliers_step:
  assumes "take_multipliers (c # cs) s = (n, s')"
  obtains (skip) "cand_key c \<in> set (sc_multiplier_keys s) \<or> cap_reached (sc_multiplier_counts s) c"
      "take_multipliers cs s = (n, s')"
    | (take) "cand_key c \<notin> set (sc_multiplier_keys s)" "\<not> cap_reached (sc_multiplier_counts s) c"
      "take_multipliers cs
         (s\<lparr>sc_multiplier_keys := hs_insert (cand_key c) (sc_multiplier_keys s),
            sc_multiplier_counts := hm_incr (cap_key c) (sc_multiplier_counts s)\<rparr>) = (n - 1, s')"
  using assms by (cases "cand_key c \<in> set (sc_multiplier_keys s) \<or> cap_reached (sc_multiplier_counts s) c")
    (simp_all add: Let_def split: prod.splits)

lemma take_bonuses_step:
  assumes "take_bonuses ((key, points) # ks) s = (n, s')"
  obtains (skip) "key \<in> set (sc_bonus_keys s)" "take_bonuses ks s = (n, s')"
    | (take) "key \<notin> set (sc_bonus_keys s)"
      "\<exists>k. take_bonuses ks (s\<lparr>sc_bonus_keys := hs_insert key (sc_bonus_keys s)\<rparr>) = (k, s')
         \<and> n = wrap_i64 (points + k)"
  using assms by (cases "key \<in> set (sc_bonus_keys s)") (simp_all add: Let_def split: prod.splits)

lemma take_multipliers_frame:
  "take_multipliers cs s = (n, s') \<Longrightarrow>
     sc_module s' = sc_module s \<and> sc_dupe_keys s' = sc_dupe_keys s \<and> sc_raw_multipliers s' = sc_raw_multipliers s
     \<and> sc_bonus_keys s' = sc_bonus_keys s \<and> sc_qso_counts s' = sc_qso_counts s
     \<and> sc_direct_bonus s' = sc_direct_bonus s \<and> sc_totals s' = sc_totals s"
proof (induction cs arbitrary: n s)
  case (Cons c cs)
  from Cons.prems show ?case
    by (cases rule: take_multipliers_step) (auto dest: Cons.IH)
qed simp

lemma take_bonuses_frame:
  "take_bonuses ks s = (n, s') \<Longrightarrow>
     sc_module s' = sc_module s \<and> sc_dupe_keys s' = sc_dupe_keys s \<and> sc_raw_multipliers s' = sc_raw_multipliers s
     \<and> sc_multiplier_keys s' = sc_multiplier_keys s \<and> sc_multiplier_counts s' = sc_multiplier_counts s
     \<and> sc_qso_counts s' = sc_qso_counts s
     \<and> sc_direct_bonus s' = sc_direct_bonus s \<and> sc_totals s' = sc_totals s"
proof (induction ks arbitrary: n s)
  case (Cons k ks)
  obtain key points where k: "k = (key, points)" by fastforce
  from Cons.prems show ?case unfolding k
    by (cases rule: take_bonuses_step) (auto dest: Cons.IH)
qed simp

lemma take_multipliers_keys:
  "take_multipliers cs s = (n, s') \<Longrightarrow> distinct (sc_multiplier_keys s) \<Longrightarrow>
     distinct (sc_multiplier_keys s')
     \<and> int (length (sc_multiplier_keys s')) = int (length (sc_multiplier_keys s)) + n
     \<and> set (sc_multiplier_keys s) \<subseteq> set (sc_multiplier_keys s')
     \<and> set (sc_multiplier_keys s') \<subseteq> set (sc_multiplier_keys s) \<union> set (map cand_key cs)"
proof (induction cs arbitrary: n s)
  case (Cons c cs)
  from Cons.prems(1) show ?case
  proof (cases rule: take_multipliers_step)
    case skip
    from Cons.IH [OF skip(2) Cons.prems(2)] show ?thesis by auto
  next
    case take
    from Cons.IH [OF take(3)] take(1) Cons.prems(2) show ?thesis by auto
  qed
qed simp

lemma take_multipliers_uncapped:
  "take_multipliers cs s = (n, s') \<Longrightarrow> \<forall>c\<in>set cs. cand_max_count c = None \<Longrightarrow>
     set (sc_multiplier_keys s') = set (sc_multiplier_keys s) \<union> set (map cand_key cs)"
proof (induction cs arbitrary: n s)
  case (Cons c cs)
  from Cons.prems(1) show ?case
  proof (cases rule: take_multipliers_step)
    case skip
    with Cons.prems(2) have "cand_key c \<in> set (sc_multiplier_keys s)"
      by (simp add: cap_reached_def)
    with Cons.IH [OF skip(2)] Cons.prems(2) show ?thesis by auto
  next
    case take
    from Cons.IH [OF take(3)] Cons.prems(2) show ?thesis by auto
  qed
qed simp

lemma uncapped_candidates:
  "\<not> has_capped_multipliers m \<Longrightarrow> \<forall>c\<in>set (multiplier_candidates_for m contact). cand_max_count c = None"
  by (auto simp: has_capped_multipliers_def multiplier_candidates_for_def candidate_of_def Let_def
      list_ex_iff)

text \<open>The state after a prefix of the contacts.\<close>

definition scored_by :: "scoring_module \<Rightarrow> contest_scorer \<Rightarrow> contact list \<Rightarrow> bool" where
  "scored_by m s before \<longleftrightarrow>
     sc_module s = m
     \<and> (\<forall>k. (0 < count_of k (sc_dupe_keys s)) = (\<exists>d\<in>set before. dupe_key_for m d = Some k))
     \<and> qso_count (sc_totals s) = length before
     \<and> total_qso_points (sc_totals s) = wrap_i64 (sum_list (map (qso_points_for m) (counted m before)))
     \<and> distinct (sc_multiplier_keys s)
     \<and> sc_raw_multipliers s = wrap_i64 (int (length (sc_multiplier_keys s)))
     \<and> (\<not> has_capped_multipliers m \<longrightarrow> set (sc_multiplier_keys s) = multiplier_set m (counted m before))
     \<and> (before \<noteq> [] \<longrightarrow> sc_totals s = recalculate m (sc_raw_multipliers s) (sc_direct_bonus s)
          (sc_multiplier_keys s) (sc_qso_counts s) (sc_totals s))"

lemma recalculate_simps [simp]:
  "qso_count (recalculate m raw d ks cs t) = qso_count t"
  "total_qso_points (recalculate m raw d ks cs t) = total_qso_points t"
  "recalculate m raw d ks cs (recalculate m raw' d' ks' cs' t) = recalculate m raw d ks cs t"
  by (simp_all add: recalculate_def Let_def)

lemma recalculate_score:
  assumes "t = recalculate m raw d ks cs t"
  defines "factor \<equiv> (if has_multipliers m then max raw (minimum_multiplier_count (mod_scoring m)) else 1)"
  shows "total_multipliers t = (if has_multipliers m then factor else 0)
    \<and> total_score t = wrap_i64 (total_qso_points t * factor * mod_score_factor m + total_bonus_points t)"
proof -
  let ?r = "recalculate m raw d ks cs t"
  have "total_multipliers ?r = (if has_multipliers m then factor else 0)
    \<and> total_score ?r = wrap_i64 (total_qso_points ?r * factor * mod_score_factor m + total_bonus_points ?r)"
    by (simp add: recalculate_def Let_def factor_def)
  with assms(1) show ?thesis by metis
qed

lemma scored_by_start: "scored_by m (reset_scorer (scorer m)) []"
  by (simp add: scored_by_def reset_scorer_def scorer_def count_of_def zero_totals_def multiplier_set_def wrap_i64_def)

text \<open>A step on a contact that repeats an earlier one, and on one that counts.\<close>

lemma add_qso_repeat:
  assumes "scored_by m s before" and "repeats m before c"
  shows "snd (add_qso s c) = set_contact_score_fields c 0 0 0 True \<and> scored_by m (fst (add_qso s c)) (before @ [c])"
proof -
  from assms(2) obtain k where k: "dupe_key_for m c = Some k" by (auto simp: repeats_def)
  then have dup: "0 < count_of k (sc_dupe_keys s)"
    using assms by (auto simp: scored_by_def repeats_def)
  have "counted m (before @ [c]) = counted m before" using assms(2) by (simp add: counted_snoc)
  then show ?thesis
    using assms(1) k dup
    by (auto simp: add_qso_def scorer_is_dupe_def scored_by_def Let_def scorer_recalculate_def)
qed

lemma scorer_is_dupe_fresh:
  fixes s :: contest_scorer
  assumes "scored_by m s before" and "\<not> repeats m before c"
  defines "s0 \<equiv> s\<lparr>sc_totals := (sc_totals s)\<lparr>qso_count := qso_count (sc_totals s) + 1\<rparr>\<rparr>"
  shows "\<exists>s1. scorer_is_dupe s0 c = (False, s1) \<and> s1 = s0\<lparr>sc_dupe_keys := sc_dupe_keys s1\<rparr>
    \<and> (\<forall>k. (0 < count_of k (sc_dupe_keys s1)) = (\<exists>e\<in>set (before @ [c]). dupe_key_for m e = Some k))"
proof -
  have m: "sc_module s0 = m" and sk: "sc_dupe_keys s0 = sc_dupe_keys s"
    and seen: "\<And>k. (0 < count_of k (sc_dupe_keys s)) = (\<exists>d\<in>set before. dupe_key_for m d = Some k)"
    using assms(1) by (simp_all add: s0_def scored_by_def)
  show ?thesis
  proof (cases "dupe_key_for m c")
    case None
    then have "scorer_is_dupe s0 c = (False, s0)" by (simp add: scorer_is_dupe_def m)
    with None seen show ?thesis by (simp add: sk)
  next
    case (Some k)
    have "\<not> 0 < count_of k (sc_dupe_keys s)" using assms(2) Some seen by (simp add: repeats_def)
    with Some have "scorer_is_dupe s0 c = (False, s0\<lparr>sc_dupe_keys := hm_incr k (sc_dupe_keys s)\<rparr>)"
      by (simp add: scorer_is_dupe_def m sk)
    moreover have "(0 < count_of l (hm_incr k (sc_dupe_keys s))) =
        (\<exists>e\<in>set (before @ [c]). dupe_key_for m e = Some l)" for l
      using seen [of l] Some by auto
    ultimately show ?thesis by simp
  qed
qed

lemma add_qso_counts:
  assumes "scored_by m s before" and "\<not> repeats m before c"
  shows "\<exists>mults bonus. snd (add_qso s c) = set_contact_score_fields c (qso_points_for m c) mults bonus False
    \<and> 0 \<le> mults \<and> scored_by m (fst (add_qso s c)) (before @ [c])"
proof -
  have m: "sc_module s = m" using assms(1) by (simp add: scored_by_def)
  let ?s0 = "s\<lparr>sc_totals := (sc_totals s)\<lparr>qso_count := qso_count (sc_totals s) + 1\<rparr>\<rparr>"
  from scorer_is_dupe_fresh [OF assms] obtain s1 where d: "scorer_is_dupe ?s0 c = (False, s1)"
    and s1: "s1 = ?s0\<lparr>sc_dupe_keys := sc_dupe_keys s1\<rparr>"
    and counts: "\<forall>k. (0 < count_of k (sc_dupe_keys s1)) = (\<exists>e\<in>set (before @ [c]). dupe_key_for m e = Some k)"
    by blast
  obtain mults s2 where s2: "take_multipliers (multiplier_candidates_for m c) s1 = (mults, s2)"
    by fastforce
  obtain bonus s3 where s3: "take_bonuses (bonus_keys_for m c) s2 = (bonus, s3)" by fastforce
  note f2 = take_multipliers_frame [OF s2] and f3 = take_bonuses_frame [OF s3]
  have s1f: "sc_module s1 = m" "sc_multiplier_keys s1 = sc_multiplier_keys s"
    "sc_raw_multipliers s1 = sc_raw_multipliers s" "sc_totals s1 = sc_totals ?s0"
    using m by (subst s1, simp)+
  have k2: "distinct (sc_multiplier_keys s2)"
    "int (length (sc_multiplier_keys s2)) = int (length (sc_multiplier_keys s)) + mults"
    using take_multipliers_keys [OF s2] assms(1) by (simp_all add: s1f scored_by_def)
  have "length (sc_multiplier_keys s) \<le> length (sc_multiplier_keys s2)"
    using take_multipliers_keys [OF s2] assms(1)
    by (metis card_mono distinct_card finite_set s1f(2) scored_by_def)
  with k2 have nonneg: "0 \<le> mults" by linarith
  have new: "counted m (before @ [c]) = counted m before @ [c]" using assms(2) by (simp add: counted_snoc)
  have keys: "\<not> has_capped_multipliers m \<Longrightarrow>
      set (sc_multiplier_keys s2) = multiplier_set m (counted m (before @ [c]))"
    using take_multipliers_uncapped [OF s2 uncapped_candidates] assms(1)
    by (auto simp: s1f scored_by_def new multiplier_set_def multiplier_keys_for_def)
  have "add_qso s c =
    (scorer_recalculate
      (let s4 = s3\<lparr>sc_totals := (sc_totals s3)\<lparr>total_qso_points := wrap_i64 (total_qso_points (sc_totals s3) + qso_points_for m c)\<rparr>,
               sc_raw_multipliers := wrap_i64 (sc_raw_multipliers s3 + mults),
               sc_direct_bonus := wrap_i64 (sc_direct_bonus s3 + bonus)\<rparr>
       in if 0 < qso_points_for m c
          then s4\<lparr>sc_qso_counts := fold hm_incr (qso_count_bonus_keys_for m c) (sc_qso_counts s4)\<rparr> else s4),
     set_contact_score_fields c (qso_points_for m c) mults bonus False)"
    using d s2 s3 s1f f2 f3 by (simp add: add_qso_def Let_def)
  then show ?thesis
    using f2 f3 s1f k2 nonneg counts keys assms(1)
    by (intro exI [of _ mults] exI [of _ bonus])
      (auto simp: scored_by_def scorer_recalculate_def Let_def new)
qed

lemma add_qsos_snoc:
  "add_qsos s (cs @ [c]) =
     (let (s1, ds) = add_qsos s cs; (s2, d) = add_qso s1 c in (s2, ds @ [d]))"
  by (induction cs arbitrary: s) (auto simp: Let_def split: prod.splits)

lemma add_qsos_fst_snoc [simp]: "fst (add_qsos s (cs @ [c])) = fst (add_qso (fst (add_qsos s cs)) c)"
  by (simp add: add_qsos_snoc Let_def split_beta)

lemma add_qsos_length: "add_qsos s cs = (s', ds) \<Longrightarrow> length ds = length cs"
  by (induction cs arbitrary: s ds s') (auto simp: Let_def split: prod.splits)

lemma add_qsos_scored_by:
  assumes "scored_by m s []"
  shows "scored_by m (fst (add_qsos s cs)) cs"
  using assms
proof (induction cs rule: rev_induct)
  case Nil
  then show ?case by simp
next
  case (snoc c cs)
  then have "scored_by m (fst (add_qsos s cs)) cs" by simp
  from add_qso_repeat [OF this, of c] add_qso_counts [OF this, of c] show ?case
    by (cases "repeats m cs c") (auto simp: add_qsos_snoc Let_def split: prod.splits)
qed

section \<open>Properties\<close>

lemma score_fields_read [simp]:
  "contact_meta_value (set_contact_score_fields c p m b d) ''pts'' = Some (JInt p)"
  "contact_meta_value (set_contact_score_fields c p m b d) ''mult'' = Some (JInt m)"
  "contact_meta_value (set_contact_score_fields c p m b d) ''bonus'' = Some (JInt b)"
  "contact_meta_value (set_contact_score_fields c p m b d) ''dupe'' = Some (JBool d)"
  by (simp_all add: set_contact_score_fields_def)

text \<open>
  C6. The scorer marks a contact as a duplicate exactly when an earlier contact of the log has
  the same duplicate key; a duplicate gets no points, every other contact the points of the
  contest's rules.
\<close>

theorem batch_dupes:
  assumes "score_contacts distance rules params cs = (totals, scored)" and "i < length cs"
  defines "m \<equiv> new_module distance rules params"
  shows "contact_meta_value (scored ! i) ''dupe'' = Some (JBool (repeats m (take i cs) (cs ! i)))
    \<and> contact_meta_value (scored ! i) ''pts'' =
        Some (JInt (if repeats m (take i cs) (cs ! i) then 0 else qso_points_for m (cs ! i)))"
proof -
  let ?s = "reset_scorer (scorer m)"
  let ?P = "\<lambda>cs ds. \<forall>i<length cs.
    contact_meta_value (ds ! i) ''dupe'' = Some (JBool (repeats m (take i cs) (cs ! i)))
    \<and> contact_meta_value (ds ! i) ''pts'' =
        Some (JInt (if repeats m (take i cs) (cs ! i) then 0 else qso_points_for m (cs ! i)))"
  have "?P cs (snd (add_qsos ?s cs))"
  proof (induction cs rule: rev_induct)
    case Nil
    then show ?case by simp
  next
    case (snoc c cs)
    obtain s1 ds where 1: "add_qsos ?s cs = (s1, ds)" by fastforce
    obtain s2 d where 2: "add_qso s1 c = (s2, d)" by fastforce
    have len: "length ds = length cs" using 1 by (rule add_qsos_length)
    have "scored_by m s1 cs" using add_qsos_scored_by [OF scored_by_start, of m cs] 1 by simp
    from add_qso_repeat [OF this, of c] add_qso_counts [OF this, of c]
    have last: "contact_meta_value d ''dupe'' = Some (JBool (repeats m cs c))
      \<and> contact_meta_value d ''pts'' = Some (JInt (if repeats m cs c then 0 else qso_points_for m c))"
      using 2 by auto
    show ?case
    proof (intro allI impI)
      fix j assume "j < length (cs @ [c])"
      then consider "j < length cs" | "j = length cs" by fastforce
      then show "contact_meta_value (snd (add_qsos ?s (cs @ [c])) ! j) ''dupe'' =
            Some (JBool (repeats m (take j (cs @ [c])) ((cs @ [c]) ! j)))
        \<and> contact_meta_value (snd (add_qsos ?s (cs @ [c])) ! j) ''pts'' =
            Some (JInt (if repeats m (take j (cs @ [c])) ((cs @ [c]) ! j) then 0
                        else qso_points_for m ((cs @ [c]) ! j)))"
      proof cases
        case 1
        then show ?thesis
          using snoc.IH \<open>add_qsos ?s cs = (s1, ds)\<close> 2 len by (simp add: add_qsos_snoc nth_append)
      next
        case 2
        then show ?thesis
          using last \<open>add_qsos ?s cs = (s1, ds)\<close> \<open>add_qso s1 c = (s2, d)\<close> len
          by (simp add: add_qsos_snoc nth_append)
      qed
    qed
  qed
  moreover have "scored = snd (add_qsos ?s cs)"
    using assms(1) by (simp add: score_contacts_def m_def split: prod.splits)
  ultimately show ?thesis using assms(2) by blast
qed

text \<open>
  C7. The final score of a log. Every contact is counted as a QSO; the points are those of the
  contacts that do not repeat an earlier one; without caps, the multipliers are the distinct keys
  of those contacts, at least the contest's minimum; and the score is points times multipliers
  times the factor of the log's category, plus the bonus. Each of them is the exact number reduced
  to an \<open>i64\<close>, so the number itself as long as it is one.
\<close>

theorem batch_score:
  assumes "score_contacts distance rules params cs = (totals, scored)" and "cs \<noteq> []"
    and "\<not> has_capped_multipliers (new_module distance rules params)"
  defines "m \<equiv> new_module distance rules params"
  defines "factor \<equiv> (if has_multipliers m
      then max (wrap_i64 (int (card (multiplier_set m (counted m cs))))) (minimum_multiplier_count (mod_scoring m)) else 1)"
  shows "qso_count totals = length cs
    \<and> total_qso_points totals = wrap_i64 (sum_list (map (qso_points_for m) (counted m cs)))
    \<and> total_multipliers totals = (if has_multipliers m then factor else 0)
    \<and> total_score totals =
        wrap_i64 (total_qso_points totals * factor * score_factor_for rules params + total_bonus_points totals)"
proof -
  let ?s = "fst (add_qsos (reset_scorer (scorer m)) cs)"
  have inv: "scored_by m ?s cs" by (rule add_qsos_scored_by [OF scored_by_start])
  have t: "totals = sc_totals ?s"
    using assms(1) by (simp add: score_contacts_def m_def split: prod.splits)
  have raw: "sc_raw_multipliers ?s = wrap_i64 (int (card (multiplier_set m (counted m cs))))"
    using inv assms(3) by (simp add: scored_by_def m_def distinct_card [symmetric])
  have sf: "mod_score_factor m = score_factor_for rules params" by (simp add: m_def new_module_def)
  have "totals = recalculate m (sc_raw_multipliers ?s) (sc_direct_bonus ?s)
     (sc_multiplier_keys ?s) (sc_qso_counts ?s) totals"
    using inv assms(2) unfolding scored_by_def t by blast
  from recalculate_score [OF this]
  have "total_multipliers totals = (if has_multipliers m then factor else 0)"
    and "total_score totals =
        wrap_i64 (total_qso_points totals * factor * score_factor_for rules params + total_bonus_points totals)"
    unfolding raw sf factor_def by blast+
  with inv show ?thesis by (simp add: scored_by_def t)
qed

text \<open>Sample rules: two points a contact, one multiplier per DXCC entity, duplicates by call.\<close>

definition sample_multiplier :: multiplier_rule where
  "sample_multiplier = \<lparr>mult_id = ''dxcc'', mult_name = ''dxcc'', mult_field = ''DXCC'', mult_key = [''DXCC''],
     mult_values = [], mult_when = None, mult_when_all = [], exclude_call_suffixes = [],
     mult_exclude_values = [], fixed_key = None, mult_max_count = None, mult_cap_group = None\<rparr>"

definition sample_points :: qso_points_rules where
  "sample_points = \<lparr>fixed_points = Some 2, point_rules = [], time_bonus_rules = [], geography = None,
     grid_distance = None, category_band_param = None\<rparr>"

definition sample_scoring :: scoring_rules where
  "sample_scoring = \<lparr>qso_points = Some sample_points, minimum_multiplier_count = 0,
     dupe_key_fields = [''CALL''], multiplier_rules = [sample_multiplier], bonus_point_rules = [],
     param_multiplier_rules = [], multiplier_count_bonus_rules = [], qso_count_bonus_rules = []\<rparr>"

definition sample_rules :: contest_rules where
  "sample_rules = \<lparr>rules_id = ''T'', rules_name = ''Test'', rules_bands = [], rules_modes = [],
     excluded_modes = [], value_sets = [], setup_fields = [], exchange = [], qso_table = [],
     scoring = sample_scoring, cabrillo = None, metadata = None\<rparr>"

definition sample_contact :: "int \<Rightarrow> string \<Rightarrow> int \<Rightarrow> contact" where
  "sample_contact i call dxcc =
     build_contact [(''id'', JInt i)] [(''CALL'', JString call), (''DXCC'', JInt dxcc)]"

definition sample_log :: "contact list" where
  "sample_log = [sample_contact 1 ''W1AW'' 291, sample_contact 2 ''DL1A'' 230, sample_contact 3 ''w1aw'' 291]"

abbreviation no_distance :: "grid_center \<Rightarrow> grid_center \<Rightarrow> int \<Rightarrow> int" where
  "no_distance \<equiv> \<lambda>_ _ _. 0"

theorem batch_dupes_witness:
  "\<exists>totals scored. score_contacts no_distance sample_rules JNull sample_log = (totals, scored)
     \<and> contact_meta_value (scored ! 2) ''dupe'' = Some (JBool True)
     \<and> contact_meta_value (scored ! 2) ''pts'' = Some (JInt 0)"
proof -
  obtain totals scored where s: "score_contacts no_distance sample_rules JNull sample_log = (totals, scored)"
    by fastforce
  have "repeats (new_module no_distance sample_rules JNull) (take 2 sample_log) (sample_log ! 2)"
    and len: "2 < length sample_log"
    by (code_simp, code_simp)
  with batch_dupes [OF s len] s show ?thesis by simp
qed

theorem batch_score_witness:
  "\<exists>totals scored. score_contacts no_distance sample_rules JNull sample_log = (totals, scored)
     \<and> qso_count totals = 3 \<and> total_qso_points totals = 4"
proof -
  obtain totals scored where s: "score_contacts no_distance sample_rules JNull sample_log = (totals, scored)"
    by fastforce
  have "sample_log \<noteq> []" and "\<not> has_capped_multipliers (new_module no_distance sample_rules JNull)"
    and "length sample_log = 3"
    and "sum_list (map (qso_points_for (new_module no_distance sample_rules JNull))
        (counted (new_module no_distance sample_rules JNull) sample_log)) = 4"
    by (code_simp, code_simp, code_simp, code_simp)
  moreover have "wrap_i64 4 = 4" by code_simp
  ultimately show ?thesis using batch_score [OF s] s by simp
qed

section \<open>Caps\<close>

text \<open>
  The candidates of the contacts that count, in order; the cap key of a rule, its group or else its
  id; and how many multipliers the scorer has taken under a cap key.
\<close>

definition offers :: "scoring_module \<Rightarrow> contact list \<Rightarrow> multiplier_candidate list" where
  "offers m cs = concat (map (multiplier_candidates_for m) (counted m cs))"

definition offered_keys :: "scoring_module \<Rightarrow> contact list \<Rightarrow> string \<Rightarrow> string set" where
  "offered_keys m cs g = set (map cand_key (filter (\<lambda>c. cap_key c = g) (offers m cs)))"

definition rule_cap_key :: "multiplier_rule \<Rightarrow> string" where
  "rule_cap_key r = (case mult_cap_group r of Some g \<Rightarrow> g | None \<Rightarrow> mult_id r)"

definition multipliers_taken :: "scoring_module \<Rightarrow> contact list \<Rightarrow> string \<Rightarrow> nat" where
  "multipliers_taken m cs g = count_of g (sc_multiplier_counts (fst (add_qsos (reset_scorer (scorer m)) cs)))"

text \<open>
  What the scorer keeps about the candidates it has seen: every key it took belongs to a candidate
  under the cap key it was counted for; a cap key has at most its rules' maximum; and while it has
  not reached a maximum all its rules share, or they have none, all its keys are taken.
\<close>

definition caps_kept :: "multiplier_candidate list \<Rightarrow> contest_scorer \<Rightarrow> bool" where
  "caps_kept seen s \<longleftrightarrow>
     (\<exists>f. (\<forall>g. count_of g (sc_multiplier_counts s) = card {k \<in> set (sc_multiplier_keys s). f k = g})
        \<and> (\<forall>k\<in>set (sc_multiplier_keys s). \<exists>c\<in>set seen. cand_key c = k \<and> cap_key c = f k))
     \<and> (\<forall>g n. (\<forall>c\<in>set seen. cap_key c = g \<longrightarrow> (\<exists>l\<le>n. cand_max_count c = Some l)) \<longrightarrow>
          count_of g (sc_multiplier_counts s) \<le> n)
     \<and> (\<forall>c\<in>set seen. cand_key c \<in> set (sc_multiplier_keys s)
          \<or> (\<exists>d\<in>set seen. cap_key d = cap_key c \<and> cap_reached (sc_multiplier_counts s) d))"

lemma count_step: "count_of g m \<le> count_of g (hm_incr h m)"
  by simp

lemma caps_kept_step:
  assumes "caps_kept seen s"
  shows "cand_key c \<in> set (sc_multiplier_keys s) \<or> cap_reached (sc_multiplier_counts s) c
      \<Longrightarrow> caps_kept (seen @ [c]) s"
    and "cand_key c \<notin> set (sc_multiplier_keys s) \<Longrightarrow> \<not> cap_reached (sc_multiplier_counts s) c \<Longrightarrow>
      caps_kept (seen @ [c]) (s\<lparr>sc_multiplier_keys := hs_insert (cand_key c) (sc_multiplier_keys s),
                               sc_multiplier_counts := hm_incr (cap_key c) (sc_multiplier_counts s)\<rparr>)"
proof -
  let ?K = "set (sc_multiplier_keys s)" and ?n = "\<lambda>g. count_of g (sc_multiplier_counts s)"
  obtain f where f: "\<And>g. ?n g = card {k \<in> ?K. f k = g}"
    and fk: "\<forall>k\<in>?K. \<exists>d\<in>set seen. cand_key d = k \<and> cap_key d = f k"
    using assms unfolding caps_kept_def by blast
  have bound: "?n g \<le> n" if "\<forall>d\<in>set seen. cap_key d = g \<longrightarrow> (\<exists>l\<le>n. cand_max_count d = Some l)" for g n
    using assms that unfolding caps_kept_def by blast
  have full: "\<forall>d\<in>set seen. cand_key d \<in> ?K
      \<or> (\<exists>e\<in>set seen. cap_key e = cap_key d \<and> cap_reached (sc_multiplier_counts s) e)"
    using assms unfolding caps_kept_def by blast
  show "caps_kept (seen @ [c]) s"
    if "cand_key c \<in> ?K \<or> cap_reached (sc_multiplier_counts s) c"
  proof -
    have "\<forall>k\<in>?K. \<exists>d\<in>set (seen @ [c]). cand_key d = k \<and> cap_key d = f k" using fk by auto
    moreover have "\<forall>d\<in>set (seen @ [c]). cand_key d \<in> ?K
      \<or> (\<exists>e\<in>set (seen @ [c]). cap_key e = cap_key d \<and> cap_reached (sc_multiplier_counts s) e)"
      using full that by auto
    ultimately show ?thesis unfolding caps_kept_def using f bound by auto
  qed
  assume new: "cand_key c \<notin> ?K" and free: "\<not> cap_reached (sc_multiplier_counts s) c"
  let ?m = "hm_incr (cap_key c) (sc_multiplier_counts s)"
  let ?f = "f(cand_key c := cap_key c)"
  have "{k \<in> insert (cand_key c) ?K. ?f k = g} =
      (if g = cap_key c then insert (cand_key c) {k \<in> ?K. f k = g} else {k \<in> ?K. f k = g})" for g
    using new by auto
  then have "count_of g ?m = card {k \<in> insert (cand_key c) ?K. ?f k = g}" for g
    using new by (simp add: f)
  moreover have "\<forall>k\<in>insert (cand_key c) ?K. \<exists>d\<in>set (seen @ [c]). cand_key d = k \<and> cap_key d = ?f k"
    using fk by auto
  moreover have "count_of g ?m \<le> n"
    if "\<forall>d\<in>set (seen @ [c]). cap_key d = g \<longrightarrow> (\<exists>l\<le>n. cand_max_count d = Some l)" for g n
  proof (cases "g = cap_key c")
    case True
    with that obtain l where "l \<le> n" "cand_max_count c = Some l" by auto
    with free True show ?thesis by (simp add: cap_reached_def)
  next
    case False
    with that bound [of g n] show ?thesis by simp
  qed
  moreover have "cap_reached ?m d" if "cap_reached (sc_multiplier_counts s) d" for d
    using that count_step [of "cap_key d"] by (auto simp: cap_reached_def simp del: count_of_incr split: option.splits intro: le_trans)
  then have "\<forall>d\<in>set (seen @ [c]). cand_key d \<in> insert (cand_key c) ?K
      \<or> (\<exists>e\<in>set (seen @ [c]). cap_key e = cap_key d \<and> cap_reached ?m e)"
    using full by auto
  ultimately show "caps_kept (seen @ [c]) (s\<lparr>sc_multiplier_keys := hs_insert (cand_key c) (sc_multiplier_keys s),
      sc_multiplier_counts := ?m\<rparr>)"
    unfolding caps_kept_def by (intro conjI exI [of _ ?f]) simp_all
qed

lemma take_multipliers_caps:
  "take_multipliers cs s = (n, s') \<Longrightarrow> caps_kept seen s \<Longrightarrow> caps_kept (seen @ cs) s'"
proof (induction cs arbitrary: n s seen)
  case (Cons c cs)
  from Cons.prems(1) show ?case
  proof (cases rule: take_multipliers_step)
    case skip
    from Cons.IH [OF skip(2) caps_kept_step(1) [OF Cons.prems(2) skip(1)]] show ?thesis by simp
  next
    case take
    from Cons.IH [OF take(3) caps_kept_step(2) [OF Cons.prems(2) take(1,2)]] show ?thesis by simp
  qed
qed simp

lemma caps_kept_cong:
  "sc_multiplier_keys s' = sc_multiplier_keys s \<Longrightarrow> sc_multiplier_counts s' = sc_multiplier_counts s \<Longrightarrow>
     caps_kept seen s' = caps_kept seen s"
  by (simp add: caps_kept_def)

lemma add_qso_caps:
  assumes "scored_by m s before" and "caps_kept (offers m before) s"
  shows "caps_kept (offers m (before @ [c])) (fst (add_qso s c))"
proof (cases "repeats m before c")
  case True
  then obtain k where k: "dupe_key_for m c = Some k" by (auto simp: repeats_def)
  have m: "sc_module s = m" and dup: "0 < count_of k (sc_dupe_keys s)"
    using assms(1) True k by (auto simp: scored_by_def repeats_def)
  have "offers m (before @ [c]) = offers m before" using True by (simp add: offers_def counted_snoc)
  moreover have "sc_multiplier_keys (fst (add_qso s c)) = sc_multiplier_keys s"
    "sc_multiplier_counts (fst (add_qso s c)) = sc_multiplier_counts s"
    using m k dup by (simp_all add: add_qso_def scorer_is_dupe_def Let_def scorer_recalculate_def)
  ultimately show ?thesis using assms(2) caps_kept_cong by metis
next
  case False
  let ?s0 = "s\<lparr>sc_totals := (sc_totals s)\<lparr>qso_count := qso_count (sc_totals s) + 1\<rparr>\<rparr>"
  from scorer_is_dupe_fresh [OF assms(1) False] obtain s1 where d: "scorer_is_dupe ?s0 c = (False, s1)"
    and s1: "s1 = ?s0\<lparr>sc_dupe_keys := sc_dupe_keys s1\<rparr>" by blast
  have m: "sc_module s = m" using assms(1) by (simp add: scored_by_def)
  have m1: "sc_module s1 = m" by (subst s1) (simp add: m)
  obtain mults s2 where s2: "take_multipliers (multiplier_candidates_for m c) s1 = (mults, s2)" by fastforce
  obtain bonus s3 where s3: "take_bonuses (bonus_keys_for m c) s2 = (bonus, s3)" by fastforce
  note f = take_multipliers_frame [OF s2] take_bonuses_frame [OF s3]
  have "caps_kept (offers m before) s1"
    using assms(2) by (subst s1) (simp add: caps_kept_def)
  from take_multipliers_caps [OF s2 this] have "caps_kept (offers m before @ multiplier_candidates_for m c) s2" .
  moreover have "sc_multiplier_keys (fst (add_qso s c)) = sc_multiplier_keys s2"
    "sc_multiplier_counts (fst (add_qso s c)) = sc_multiplier_counts s2"
    using d s2 s3 f m m1 by (simp_all add: add_qso_def Let_def scorer_recalculate_def)
  moreover have "offers m (before @ [c]) = offers m before @ multiplier_candidates_for m c"
    using False by (simp add: offers_def counted_snoc)
  ultimately show ?thesis using caps_kept_cong by metis
qed

lemma scored_caps: "caps_kept (offers m cs) (fst (add_qsos (reset_scorer (scorer m)) cs))"
proof (induction cs rule: rev_induct)
  case Nil
  show ?case by (simp add: caps_kept_def offers_def reset_scorer_def scorer_def count_of_def)
next
  case (snoc c cs)
  from add_qso_caps [OF add_qsos_scored_by [OF scored_by_start] snoc.IH] show ?case by simp
qed

lemma candidate_of_cap [simp]:
  "cap_key (candidate_of d r) = rule_cap_key r" "cand_max_count (candidate_of d r) = mult_max_count r"
  by (simp_all add: candidate_of_def Let_def cap_key_def rule_cap_key_def split: option.split)

lemma offered_iff: "k \<in> offered_keys m cs g \<longleftrightarrow> (\<exists>c\<in>set (offers m cs). cand_key c = k \<and> cap_key c = g)"
  by (auto simp: offered_keys_def)

lemma offers_rules:
  assumes "c \<in> set (offers m cs)"
  obtains r where "r \<in> set (multiplier_rules (mod_scoring m))" "cap_key c = rule_cap_key r"
    "cand_max_count c = mult_max_count r"
proof -
  from assms obtain d where "c \<in> set (multiplier_candidates_for m d)" by (auto simp: offers_def)
  then obtain r where "r \<in> set (multiplier_rules (mod_scoring m))" "c = candidate_of d r"
    by (auto simp: multiplier_candidates_for_def split: if_splits)
  then show thesis using that [of r] by simp
qed

lemma taken_limits:
  "\<forall>r\<in>set (multiplier_rules (mod_scoring m)). rule_cap_key r = g \<longrightarrow> (\<exists>l\<le>n. mult_max_count r = Some l) \<Longrightarrow>
     multipliers_taken m cs g \<le> n"
  using scored_caps [of m cs] unfolding caps_kept_def multipliers_taken_def by (metis offers_rules)

lemma taken_exact:
  assumes uniform: "\<forall>r\<in>set (multiplier_rules (mod_scoring m)). rule_cap_key r = g \<longrightarrow> mult_max_count r = limit"
    and own: "\<forall>c\<in>set (offers m cs). \<forall>d\<in>set (offers m cs). cand_key c = cand_key d \<longrightarrow> cap_key c = g \<longrightarrow> cap_key d = g"
  shows "multipliers_taken m cs g =
    (case limit of None \<Rightarrow> card (offered_keys m cs g) | Some n \<Rightarrow> min n (card (offered_keys m cs g)))"
proof -
  define s where "s = fst (add_qsos (reset_scorer (scorer m)) cs)"
  let ?K = "set (sc_multiplier_keys s)" and ?O = "offered_keys m cs g"
  have kept: "caps_kept (offers m cs) s" unfolding s_def by (rule scored_caps)
  obtain f where f: "\<And>g. count_of g (sc_multiplier_counts s) = card {k \<in> ?K. f k = g}"
    and fk: "\<forall>k\<in>?K. \<exists>d\<in>set (offers m cs). cand_key d = k \<and> cap_key d = f k"
    using kept unfolding caps_kept_def by blast
  have "{k \<in> ?K. f k = g} = ?K \<inter> ?O"
  proof (intro equalityI subsetI)
    fix k assume k: "k \<in> {k \<in> ?K. f k = g}"
    then show "k \<in> ?K \<inter> ?O" using fk unfolding Int_iff offered_iff by blast
  next
    fix k assume k: "k \<in> ?K \<inter> ?O"
    then obtain c where c: "c \<in> set (offers m cs)" "cand_key c = k" "cap_key c = g"
      unfolding Int_iff offered_iff by blast
    from k fk obtain d where d: "d \<in> set (offers m cs)" "cand_key d = k" "cap_key d = f k" by blast
    have "cap_key d = g" using own c d by metis
    with d(3) k show "k \<in> {k \<in> ?K. f k = g}" by simp
  qed
  with f have taken: "multipliers_taken m cs g = card (?K \<inter> ?O)" by (simp add: multipliers_taken_def s_def)
  have limit: "cand_max_count c = limit" if "c \<in> set (offers m cs)" "cap_key c = g" for c
    using that uniform by (metis offers_rules)
  have fin: "finite ?O" by (simp add: offered_keys_def)
  have full: "?O \<subseteq> ?K" if "\<forall>n. limit = Some n \<longrightarrow> multipliers_taken m cs g < n"
  proof
    fix k assume "k \<in> ?O"
    then obtain c where c: "c \<in> set (offers m cs)" "cap_key c = g" "cand_key c = k" unfolding offered_iff by blast
    have "\<not> cap_reached (sc_multiplier_counts s) d" if "d \<in> set (offers m cs)" "cap_key d = g" for d
      using limit [OF that] that(2) \<open>\<forall>n. limit = Some n \<longrightarrow> multipliers_taken m cs g < n\<close>
      by (auto simp: cap_reached_def multipliers_taken_def s_def split: option.splits)
    with kept c show "k \<in> ?K" unfolding caps_kept_def by metis
  qed
  have le: "card (?K \<inter> ?O) \<le> card ?O" using fin by (simp add: card_mono)
  show ?thesis
  proof (cases limit)
    case None
    with full taken show ?thesis by (simp add: Int_absorb1)
  next
    case (Some n)
    have "\<forall>r\<in>set (multiplier_rules (mod_scoring m)). rule_cap_key r = g \<longrightarrow> (\<exists>l\<le>n. mult_max_count r = Some l)"
      using uniform Some by simp
    then have most: "multipliers_taken m cs g \<le> n" by (rule taken_limits)
    show ?thesis
    proof (cases "multipliers_taken m cs g < n")
      case True
      then have "?O \<subseteq> ?K" by (intro full) (simp add: Some)
      then have "?K \<inter> ?O = ?O" by blast
      with taken have "multipliers_taken m cs g = card ?O" by (simp only:)
      with True Some show ?thesis by simp
    next
      case False
      with most have "multipliers_taken m cs g = n" by simp
      moreover from this taken le have "n \<le> card ?O" by (simp only:)
      ultimately show ?thesis using Some by simp
    qed
  qed
qed

lemma taken_sum:
  "int (length (sc_multiplier_keys (fst (add_qsos (reset_scorer (scorer m)) cs)))) =
     (\<Sum>g\<in>rule_cap_key ` set (multiplier_rules (mod_scoring m)). int (multipliers_taken m cs g))"
proof -
  define s where "s = fst (add_qsos (reset_scorer (scorer m)) cs)"
  let ?K = "set (sc_multiplier_keys s)" and ?G = "rule_cap_key ` set (multiplier_rules (mod_scoring m))"
  obtain f where f: "\<And>g. count_of g (sc_multiplier_counts s) = card {k \<in> ?K. f k = g}"
    and fk: "\<forall>k\<in>?K. \<exists>d\<in>set (offers m cs). cand_key d = k \<and> cap_key d = f k"
    using scored_caps [of m cs] unfolding caps_kept_def s_def by blast
  have "f ` ?K \<subseteq> ?G" using fk by (metis image_eqI image_subsetI offers_rules)
  from sum.group [OF _ _ this, of "\<lambda>_. 1 :: nat"]
  have "(\<Sum>g\<in>?G. card {k \<in> ?K. f k = g}) = card ?K" by simp
  moreover have "distinct (sc_multiplier_keys s)"
    using add_qsos_scored_by [OF scored_by_start, of m cs] by (simp add: scored_by_def s_def)
  ultimately have "(\<Sum>g\<in>?G. multipliers_taken m cs g) = length (sc_multiplier_keys s)"
    by (simp add: multipliers_taken_def f s_def [symmetric] distinct_card)
  then show ?thesis unfolding s_def by (metis of_nat_sum)
qed

text \<open>
  C8. Caps, in any contest. The multipliers of a log are those taken under each cap key, the group
  of a rule or else its id, at least the contest's minimum. No more are taken under a cap key than
  its rules allow. And where the rules of a cap key agree on their maximum, or have none, and no
  other cap key offers its keys, exactly the distinct keys the counted contacts offer are taken,
  up to that maximum: other rules, capped or not, do not use it up.
\<close>

theorem batch_cap:
  assumes "score_contacts distance rules params cs = (totals, scored)" and "cs \<noteq> []"
  defines "m \<equiv> new_module distance rules params" and "mult_rules \<equiv> multiplier_rules (scoring rules)"
  shows "total_multipliers totals =
      (if mult_rules = [] then 0
       else max (wrap_i64 (\<Sum>g\<in>rule_cap_key ` set mult_rules. int (multipliers_taken m cs g)))
              (minimum_multiplier_count (scoring rules)))
    \<and> (\<forall>g n. (\<forall>r\<in>set mult_rules. rule_cap_key r = g \<longrightarrow> (\<exists>l\<le>n. mult_max_count r = Some l)) \<longrightarrow>
         multipliers_taken m cs g \<le> n)
    \<and> (\<forall>g limit. (\<forall>r\<in>set mult_rules. rule_cap_key r = g \<longrightarrow> mult_max_count r = limit) \<longrightarrow>
         (\<forall>c\<in>set (offers m cs). \<forall>d\<in>set (offers m cs).
            cand_key c = cand_key d \<longrightarrow> cap_key c = g \<longrightarrow> cap_key d = g) \<longrightarrow>
         multipliers_taken m cs g =
           (case limit of None \<Rightarrow> card (offered_keys m cs g) | Some n \<Rightarrow> min n (card (offered_keys m cs g))))"
proof -
  have rules: "multiplier_rules (mod_scoring m) = mult_rules"
    and min: "minimum_multiplier_count (mod_scoring m) = minimum_multiplier_count (scoring rules)"
    by (simp_all add: m_def new_module_def mod_scoring_def mult_rules_def)
  let ?s = "fst (add_qsos (reset_scorer (scorer m)) cs)"
  have t: "totals = sc_totals ?s"
    using assms(1) by (simp add: score_contacts_def m_def split: prod.splits)
  have inv: "scored_by m ?s cs" by (rule add_qsos_scored_by [OF scored_by_start])
  then have "totals = recalculate m (sc_raw_multipliers ?s) (sc_direct_bonus ?s)
      (sc_multiplier_keys ?s) (sc_qso_counts ?s) totals"
    using assms(2) unfolding scored_by_def t by blast
  from recalculate_score [OF this] have "total_multipliers totals =
      (if mult_rules = [] then 0 else max (sc_raw_multipliers ?s) (minimum_multiplier_count (scoring rules)))"
    by (simp add: has_multipliers_def rules min)
  moreover have "sc_raw_multipliers ?s = wrap_i64 (\<Sum>g\<in>rule_cap_key ` set mult_rules. int (multipliers_taken m cs g))"
    using inv taken_sum [of m cs] by (simp add: scored_by_def rules)
  ultimately have "total_multipliers totals =
      (if mult_rules = [] then 0
       else max (wrap_i64 (\<Sum>g\<in>rule_cap_key ` set mult_rules. int (multipliers_taken m cs g)))
              (minimum_multiplier_count (scoring rules)))" by simp
  moreover have "multipliers_taken m cs g \<le> n"
    if "\<forall>r\<in>set mult_rules. rule_cap_key r = g \<longrightarrow> (\<exists>l\<le>n. mult_max_count r = Some l)" for g n
    by (rule taken_limits) (use that in \<open>simp only: rules\<close>)
  moreover have "multipliers_taken m cs g =
      (case limit of None \<Rightarrow> card (offered_keys m cs g) | Some n \<Rightarrow> min n (card (offered_keys m cs g)))"
    if "\<forall>r\<in>set mult_rules. rule_cap_key r = g \<longrightarrow> mult_max_count r = limit"
      and "\<forall>c\<in>set (offers m cs). \<forall>d\<in>set (offers m cs).
            cand_key c = cand_key d \<longrightarrow> cap_key c = g \<longrightarrow> cap_key d = g" for g limit
    by (rule taken_exact) (use that in \<open>simp_all only: rules\<close>)
  ultimately show ?thesis by (intro conjI allI impI)
qed

text \<open>
  Two rules: entities, at most one of them, under the id of the rule, and calls without a cap. The
  sample log has two of each, hence three multipliers.
\<close>

definition capped_rules :: contest_rules where
  "capped_rules = sample_rules\<lparr>scoring := sample_scoring\<lparr>multiplier_rules :=
     [sample_multiplier\<lparr>mult_max_count := Some 1\<rparr>,
      sample_multiplier\<lparr>mult_id := ''call'', mult_name := ''call'', mult_field := ''CALL'', mult_key := [''CALL'']\<rparr>]\<rparr>\<rparr>"

theorem batch_cap_witness:
  "\<exists>totals scored. score_contacts no_distance capped_rules JNull sample_log = (totals, scored)
     \<and> total_multipliers totals = 3"
proof -
  obtain totals scored where s: "score_contacts no_distance capped_rules JNull sample_log = (totals, scored)"
    by fastforce
  let ?m = "new_module no_distance capped_rules JNull"
  have "sample_log \<noteq> []" by code_simp
  note cap = batch_cap [OF s this]
  let ?seen = "map (\<lambda>c. (cap_key c, cand_key c)) (offers ?m sample_log)"
  have seen: "?seen = [(''dxcc'', ''DXCC:291''), (''call'', ''CALL:W1AW''), (''dxcc'', ''DXCC:230''), (''call'', ''CALL:DL1A'')]"
    by code_simp
  have own: "\<forall>c\<in>set (offers ?m sample_log). \<forall>d\<in>set (offers ?m sample_log).
      cand_key c = cand_key d \<longrightarrow> cap_key c = g \<longrightarrow> cap_key d = g" for g
  proof -
    have "\<forall>p\<in>set ?seen. \<forall>q\<in>set ?seen. snd p = snd q \<longrightarrow> fst p = fst q" unfolding seen by code_simp
    then have "\<forall>c\<in>set (offers ?m sample_log). \<forall>d\<in>set (offers ?m sample_log). cand_key c = cand_key d \<longrightarrow> cap_key c = cap_key d"
      by (simp only: set_map ball_simps fst_conv snd_conv)
    then show ?thesis by metis
  qed
  have keys: "offered_keys ?m sample_log g = set (map snd (filter (\<lambda>p. fst p = g) ?seen))" for g
    by (simp add: offered_keys_def filter_map comp_def)
  have "\<forall>r\<in>set (multiplier_rules (scoring capped_rules)). rule_cap_key r = ''dxcc'' \<longrightarrow> mult_max_count r = Some 1"
    "\<forall>r\<in>set (multiplier_rules (scoring capped_rules)). rule_cap_key r = ''call'' \<longrightarrow> mult_max_count r = None"
    by (code_simp, code_simp)
  note taken = this [THEN cap [THEN conjunct2, THEN conjunct2, THEN spec, THEN spec, THEN mp], THEN mp, OF own]
  have "card (offered_keys ?m sample_log ''dxcc'') = 2" "card (offered_keys ?m sample_log ''call'') = 2"
    unfolding keys seen by (code_simp, code_simp)
  moreover have "rule_cap_key ` set (multiplier_rules (scoring capped_rules)) = {''dxcc'', ''call''}"
    "multiplier_rules (scoring capped_rules) \<noteq> []" "minimum_multiplier_count (scoring capped_rules) = 0"
    "wrap_i64 3 = 3"
    by (code_simp, code_simp, code_simp, code_simp)
  ultimately show ?thesis using conjunct1 [OF cap] s taken by simp
qed

end
