(* ===== verification/IncrementalSpec.thy ===== *)
theory IncrementalSpec
  imports IncrementalScore ScoringSpec
begin

text \<open>
  What the incremental tracker promises: loading a log computes the score of the batch scorer,
  and adding the newest contact continues it. A batch that replaces several contacts at once
  does not keep that promise: the first removal can hand a freed multiplier to the new version of
  the second contact, and the second removal frees it again without taking back the count.
\<close>

section \<open>Simulation of the batch scorer\<close>

definition simulates :: "contest_scorer \<Rightarrow> inc_state \<Rightarrow> bool" where
  "simulates s st \<longleftrightarrow>
     inc_mod st = sc_module s \<and> inc_totals st = sc_totals s
     \<and> inc_raw_multipliers st = sc_raw_multipliers s \<and> inc_direct_bonus st = sc_direct_bonus s
     \<and> dupe_counts st = sc_dupe_keys s
     \<and> map fst (multiplier_owners st) = sc_multiplier_keys s
     \<and> inc_multiplier_counts st = sc_multiplier_counts s
     \<and> map fst (bonus_owners st) = sc_bonus_keys s \<and> inc_qso_counts st = sc_qso_counts s
     \<and> wrap_i64 (sc_raw_multipliers s) = sc_raw_multipliers s
     \<and> wrap_i64 (sc_direct_bonus s) = sc_direct_bonus s
     \<and> wrap_i64 (total_qso_points (sc_totals s)) = total_qso_points (sc_totals s)"

lemma hm_put_keys: "map fst (hm_put k v m) = hs_insert k (map fst m)"
  by (induction m) (auto simp: hm_put_def hs_insert_def)

lemma own_multipliers_simulates:
  "simulates s st \<Longrightarrow> own_multipliers (Some i) cs st = (n, st') \<Longrightarrow> take_multipliers cs s = (n', s') \<Longrightarrow>
     n = n' \<and> simulates s' st'"
proof (induction cs arbitrary: n n' s st)
  case (Cons c cs)
  have sim: "map fst (multiplier_owners st) = sc_multiplier_keys s"
    "inc_multiplier_counts st = sc_multiplier_counts s"
    using Cons.prems(1) by (simp_all add: simulates_def)
  have new: "hm_get (multiplier_owners st) (cand_key c) = None \<longleftrightarrow> cand_key c \<notin> set (sc_multiplier_keys s)"
    by (simp add: map_of_eq_None_iff sim(1) [symmetric])
  from Cons.prems(3) show ?case
  proof (cases rule: take_multipliers_step)
    case skip
    with Cons.prems(2) new sim(2) have "own_multipliers (Some i) cs st = (n, st')"
      by (simp split: if_splits)
    from Cons.IH [OF Cons.prems(1) this skip(2)] show ?thesis .
  next
    case take
    let ?st = "st\<lparr>multiplier_owners := hm_put (cand_key c) i (multiplier_owners st),
                 inc_multiplier_counts := hm_incr (cap_key c) (inc_multiplier_counts st)\<rparr>"
    obtain k where k: "own_multipliers (Some i) cs ?st = (k, st')" and n: "n = k + 1"
      using Cons.prems(2) new sim(2) take(1,2) by (auto simp: Let_def split: prod.splits)
    have "simulates
        (s\<lparr>sc_multiplier_keys := hs_insert (cand_key c) (sc_multiplier_keys s),
           sc_multiplier_counts := hm_incr (cap_key c) (sc_multiplier_counts s)\<rparr>) ?st"
      using Cons.prems(1) by (simp add: simulates_def hm_put_keys)
    from Cons.IH [OF this k take(3)] n show ?thesis by simp
  qed
qed simp

lemma own_bonuses_simulates:
  "simulates s st \<Longrightarrow> own_bonuses (Some i) ks st = (n, st') \<Longrightarrow> take_bonuses ks s = (n', s') \<Longrightarrow>
     n = n' \<and> simulates s' st'"
proof (induction ks arbitrary: n n' s st)
  case (Cons b ks)
  obtain key points where b: "b = (key, points)" by fastforce
  have sim: "map fst (bonus_owners st) = sc_bonus_keys s"
    using Cons.prems(1) by (simp add: simulates_def)
  have new: "hm_get (bonus_owners st) key = None \<longleftrightarrow> key \<notin> set (sc_bonus_keys s)"
    by (simp add: map_of_eq_None_iff sim [symmetric])
  from Cons.prems(3) show ?case unfolding b
  proof (cases rule: take_bonuses_step)
    case skip
    with Cons.prems(2) new b have "own_bonuses (Some i) ks st = (n, st')" by (simp split: if_splits)
    from Cons.IH [OF Cons.prems(1) this skip(2)] show ?thesis .
  next
    case take
    let ?st = "st\<lparr>bonus_owners := hm_put key i (bonus_owners st)\<rparr>"
    obtain k where k: "own_bonuses (Some i) ks ?st = (k, st')" and n: "n = wrap_i64 (points + k)"
      using Cons.prems(2) new take(1) b by (auto simp: Let_def split: prod.splits)
    obtain k' where k': "take_bonuses ks (s\<lparr>sc_bonus_keys := hs_insert key (sc_bonus_keys s)\<rparr>) = (k', s')"
      and n': "n' = wrap_i64 (points + k')"
      using take(2) by blast
    have "simulates (s\<lparr>sc_bonus_keys := hs_insert key (sc_bonus_keys s)\<rparr>) ?st"
      using Cons.prems(1) by (simp add: simulates_def hm_put_keys)
    from Cons.IH [OF this k k'] n n' show ?thesis by simp
  qed
qed simp

lemma note_dupe_simulates:
  assumes "simulates s st" and "inc_note_dupe st c = (d, st')" and "scorer_is_dupe s c = (d', s')"
  shows "d = d' \<and> simulates s' st'"
proof (cases "dupe_key_for (sc_module s) c")
  case None
  with assms show ?thesis by (simp add: inc_note_dupe_def scorer_is_dupe_def simulates_def)
next
  case (Some key)
  have *: "inc_mod st = sc_module s" "dupe_counts st = sc_dupe_keys s"
    using assms(1) by (simp_all add: simulates_def)
  with Some assms(3) have s': "d' = (0 < count_of key (sc_dupe_keys s))"
    "s' = s\<lparr>sc_dupe_keys := hm_incr key (sc_dupe_keys s)\<rparr>"
    by (simp_all add: scorer_is_dupe_def)
  obtain owners where "d = (0 < count_of key (sc_dupe_keys s))"
    "st' = st\<lparr>dupe_counts := hm_incr key (dupe_counts st), dupe_owners := owners\<rparr>"
  proof (cases "contact_id c")
    case None
    then show thesis using that [of "dupe_owners st"] Some assms(2) *
      by (simp add: inc_note_dupe_def Let_def)
  next
    case (Some i)
    then show thesis using that [of "dupe_owners st"] that [of "hm_put key i (dupe_owners st)"]
        \<open>dupe_key_for (sc_module s) c = Some key\<close> assms(2) *
      by (simp add: inc_note_dupe_def Let_def split: if_splits)
  qed
  with assms(1) s' show ?thesis by (simp add: simulates_def)
qed

text \<open>Counting points, multipliers and bonuses, and the totals after it, in both states.\<close>

definition scorer_counted :: "contest_scorer \<Rightarrow> int \<Rightarrow> int \<Rightarrow> int \<Rightarrow> string list \<Rightarrow> contest_scorer" where
  "scorer_counted s p n b ks =
     (let s = s\<lparr>sc_totals := (sc_totals s)\<lparr>total_qso_points := wrap_i64 (total_qso_points (sc_totals s) + p)\<rparr>,
                sc_raw_multipliers := wrap_i64 (sc_raw_multipliers s + n), sc_direct_bonus := wrap_i64 (sc_direct_bonus s + b)\<rparr>
      in if 0 < p then s\<lparr>sc_qso_counts := fold hm_incr ks (sc_qso_counts s)\<rparr> else s)"

definition inc_counted :: "inc_state \<Rightarrow> int \<Rightarrow> int \<Rightarrow> int \<Rightarrow> string list \<Rightarrow> inc_state" where
  "inc_counted st p n b ks =
     (let st = st\<lparr>inc_totals := (inc_totals st)\<lparr>total_qso_points := wrap_i64 (total_qso_points (inc_totals st) + p)\<rparr>,
                  inc_raw_multipliers := wrap_i64 (inc_raw_multipliers st + n), inc_direct_bonus := wrap_i64 (inc_direct_bonus st + b)\<rparr>
      in if 0 < p then st\<lparr>inc_qso_counts := fold hm_incr ks (inc_qso_counts st)\<rparr> else st)"

lemma counted_simulates: "simulates s st \<Longrightarrow> simulates (scorer_counted s p n b ks) (inc_counted st p n b ks)"
  by (cases "0 < p") (simp_all add: simulates_def scorer_counted_def inc_counted_def)

lemma counted_module: "sc_module (scorer_counted s p n b ks) = sc_module s" "inc_mod (inc_counted st p n b ks) = inc_mod st"
  by (simp_all add: scorer_counted_def inc_counted_def Let_def)

lemma recalculate_simulates: "simulates s st \<Longrightarrow> simulates (scorer_recalculate s) (inc_recalculate st)"
  by (simp add: simulates_def scorer_recalculate_def inc_recalculate_def)

lemma add_contact_simulates:
  assumes "simulates s st" and "contact_id c = Some i"
    and "inc_add_contact st c = (st', d)" and "add_qso s c = (s', d')"
  shows "d = d' \<and> simulates s' st'"
proof -
  let ?s0 = "s\<lparr>sc_totals := (sc_totals s)\<lparr>qso_count := qso_count (sc_totals s) + 1\<rparr>\<rparr>"
  let ?st0 = "st\<lparr>inc_totals := (inc_totals st)\<lparr>qso_count := qso_count (inc_totals st) + 1\<rparr>\<rparr>"
  have start: "simulates ?s0 ?st0" using assms(1) by (simp add: simulates_def)
  obtain dupe s1 where s1: "scorer_is_dupe ?s0 c = (dupe, s1)" by fastforce
  obtain dupe' st1 where st1: "inc_note_dupe ?st0 c = (dupe', st1)" by fastforce
  from note_dupe_simulates [OF start st1 s1] have same: "dupe' = dupe" and sim1: "simulates s1 st1"
    by simp_all
  show ?thesis
  proof (cases dupe)
    case True
    with s1 st1 same sim1 assms(3,4) show ?thesis
      by (auto simp: inc_add_contact_def add_qso_def Let_def simulates_def scorer_recalculate_def
          inc_recalculate_def)
  next
    case False
    have m: "sc_module s1 = sc_module s" "inc_mod st1 = sc_module s"
      using s1 sim1 by (auto simp: scorer_is_dupe_def simulates_def split: option.splits)
    obtain n s2 where s2: "take_multipliers (multiplier_candidates_for (sc_module s) c) s1 = (n, s2)"
      by fastforce
    obtain n' st2 where st2: "own_multipliers (Some i) (multiplier_candidates_for (sc_module s) c) st1 = (n', st2)"
      by fastforce
    from own_multipliers_simulates [OF sim1 st2 s2] have "n' = n" and sim2: "simulates s2 st2" by simp_all
    obtain b s3 where s3: "take_bonuses (bonus_keys_for (sc_module s) c) s2 = (b, s3)" by fastforce
    obtain b' st3 where st3: "own_bonuses (Some i) (bonus_keys_for (sc_module s) c) st2 = (b', st3)"
      by fastforce
    from own_bonuses_simulates [OF sim2 st3 s3] have "b' = b" and sim3: "simulates s3 st3" by simp_all
    have m': "sc_module s2 = sc_module s" "sc_module s3 = sc_module s" "inc_mod st3 = sc_module s"
      using take_multipliers_frame [OF s2] take_bonuses_frame [OF s3] sim3 m by (simp_all add: simulates_def)
    let ?p = "qso_points_for (sc_module s) c" and ?ks = "qso_count_bonus_keys_for (sc_module s) c"
    have "add_qso s c = (scorer_recalculate (scorer_counted s3 ?p n b ?ks), set_contact_score_fields c ?p n b False)"
      unfolding add_qso_def scorer_counted_def Let_def s1 prod.case
      using False s2 s3 m m' by (cases "0 < ?p") simp_all
    moreover have "inc_add_contact st c = (inc_recalculate (inc_counted st3 ?p n b ?ks), set_contact_score_fields c ?p n b False)"
      unfolding inc_add_contact_def count_non_dupe_def score_non_dupe_contact_def inc_counted_def Let_def st1 prod.case
      using False same st2 st3 m m' \<open>n' = n\<close> \<open>b' = b\<close> assms(2) by (cases "0 < ?p") simp_all
    ultimately show ?thesis using assms(3,4) recalculate_simulates [OF counted_simulates [OF sim3]] by simp
  qed
qed

lemma add_contacts_simulates:
  "simulates s st \<Longrightarrow> \<forall>c\<in>set cs. contact_id c \<noteq> None \<Longrightarrow>
     snd (inc_add_contacts st cs) = snd (add_qsos s cs)
     \<and> simulates (fst (add_qsos s cs)) (fst (inc_add_contacts st cs))"
proof (induction cs arbitrary: s st)
  case (Cons c cs)
  obtain st1 d where st1: "inc_add_contact st c = (st1, d)" by fastforce
  obtain s1 d' where s1: "add_qso s c = (s1, d')" by fastforce
  obtain i where "contact_id c = Some i" using Cons.prems(2) by auto
  from add_contact_simulates [OF Cons.prems(1) this st1 s1]
  have "d = d'" and "simulates s1 st1" by simp_all
  moreover have "snd (inc_add_contacts st1 cs) = snd (add_qsos s1 cs)
     \<and> simulates (fst (add_qsos s1 cs)) (fst (inc_add_contacts st1 cs))"
    using Cons.IH [OF \<open>simulates s1 st1\<close>] Cons.prems(2) by simp
  ultimately show ?case using st1 s1 by (simp add: Let_def split_beta)
qed simp

lemma reset_simulates:
  "simulates (reset_scorer (scorer (arc_module arc)))
     (st\<lparr>inc_module := arc, inc_totals := zero_totals, inc_raw_multipliers := 0,
         inc_direct_bonus := 0, dupe_counts := [], dupe_owners := [], multiplier_owners := [],
         inc_multiplier_counts := [], bonus_owners := [], inc_qso_counts := []\<rparr>)"
  by (simp add: simulates_def reset_scorer_def scorer_def zero_totals_def) (simp add: wrap_i64_def)

text \<open>
  C1. Resetting the tracker with the contacts of a log, whatever it held before, gives exactly
  the totals and the rewritten contacts of the batch scorer on the same contacts, if every
  contact has an id.
\<close>

theorem reset_is_batch:
  assumes "\<forall>c\<in>set cs. contact_id c \<noteq> None"
    and "arc_module arc = new_module distance rules params"
    and "score_contacts distance rules params cs = (totals, scored)"
    and "score_on_log_loaded log_id arc cs logs = (loaded, logs')"
  shows "tracker_totals logs' log_id = Some totals \<and> loaded = scored"
proof -
  let ?s = "add_qsos (reset_scorer (scorer (arc_module arc))) cs"
  define st where "st = (tracker_state logs log_id arc)
     \<lparr>inc_module := arc, inc_totals := zero_totals, inc_raw_multipliers := 0,
         inc_direct_bonus := 0, dupe_counts := [], dupe_owners := [], multiplier_owners := [],
         inc_multiplier_counts := [], bonus_owners := [], inc_qso_counts := []\<rparr>"
  have "simulates (reset_scorer (scorer (arc_module arc))) st"
    unfolding st_def by (rule reset_simulates)
  from add_contacts_simulates [OF this assms(1)]
  have "snd (inc_add_contacts st cs) = snd ?s" and "inc_totals (fst (inc_add_contacts st cs)) = sc_totals (fst ?s)"
    by (simp_all add: simulates_def)
  moreover have "totals = sc_totals (fst ?s)" "scored = snd ?s"
    using assms(3) by (simp_all add: score_contacts_def assms(2) split: prod.splits)
  moreover have "loaded = snd (inc_add_contacts st cs)"
    "logs' = hm_put log_id (fst (inc_add_contacts st cs)) logs"
    using assms(4) by (simp_all add: score_on_log_loaded_def inc_reset_def st_def split: prod.splits)
  ultimately show ?thesis by (simp add: tracker_totals_def hm_get_put)
qed

theorem reset_is_batch_witness:
  "\<exists>loaded logs'. score_on_log_loaded 7
      \<lparr>arc_address = 0, arc_module = new_module no_distance sample_rules JNull\<rparr> sample_log [] = (loaded, logs')
    \<and> map_option total_score (tracker_totals logs' 7) = Some 8"
proof -
  let ?arc = "\<lparr>arc_address = 0, arc_module = new_module no_distance sample_rules JNull\<rparr>"
  obtain totals scored where s: "score_contacts no_distance sample_rules JNull sample_log = (totals, scored)"
    by fastforce
  obtain loaded logs' where l: "score_on_log_loaded 7 ?arc sample_log [] = (loaded, logs')" by fastforce
  have ids: "\<forall>c\<in>set sample_log. contact_id c \<noteq> None" by code_simp
  have "arc_module ?arc = new_module no_distance sample_rules JNull" by (simp only: module_arc.select_convs)
  from reset_is_batch [OF ids this s l] have t: "tracker_totals logs' 7 = Some totals" ..
  have "total_score (fst (score_contacts no_distance sample_rules JNull sample_log)) = 8" by code_simp
  then have "total_score totals = 8" unfolding s by (simp only: fst_conv)
  with t l show ?thesis by (intro exI [of _ loaded] exI [of _ logs']) (simp only: simp_thms option.map)
qed

end
