(* ===== verification/ContactCache.thy ===== *)
theory ContactCache
  imports Contact
begin

text \<open>
  \<open>CachedContacts\<close> of \<open>backend/src/db/cache.rs\<close>: the contacts of one log by id, in display order
  (newest first) and with a multiset index of their serial-like field values. The lemmas show
  that the three structures always describe the same set of contacts.
\<close>

section \<open>The code\<close>

record serial_values =
  serial_global :: "(int \<times> nat) list"
  serial_bands :: "(string, (int \<times> nat) list) hmap"

record cached_contacts =
  ordered_contacts :: "((int \<times> int) reverse \<times> contact) list"
  by_id :: "(int, contact) hmap"
  serials :: "(string, serial_values) hmap"

definition empty_contacts :: cached_contacts where
  "empty_contacts = \<lparr>ordered_contacts = [], by_id = [], serials = []\<rparr>"

definition json_serial_value :: "json \<Rightarrow> int option" where
  "json_serial_value v =
     (case v of
        JInt n \<Rightarrow> as_i64 v
      | JString t \<Rightarrow> parse_signed 64 (trim t)
      | _ \<Rightarrow> None)"

definition update_count :: "(int \<times> nat) list \<Rightarrow> int \<Rightarrow> bool \<Rightarrow> (int \<times> nat) list" where
  "update_count values v insert_it =
     (if insert_it
      then bt_put v ((case map_of values v of Some n \<Rightarrow> n | None \<Rightarrow> 0) + 1) values
      else (case map_of values v of
        None \<Rightarrow> values
      | Some n \<Rightarrow> if n - 1 = 0 then bt_remove v values else bt_put v (n - 1) values))"

definition order_key :: "contact \<Rightarrow> (int \<times> int) reverse" where
  "order_key contact =
     Reverse
       (case Option.bind (contact_adif_value contact ''QSO_DATE_TIME_ON'') as_i64 of Some t \<Rightarrow> t | None \<Rightarrow> 0,
        case contact_id contact of Some i \<Rightarrow> i | None \<Rightarrow> 0)"

definition contact_band :: "contact \<Rightarrow> string" where
  "contact_band contact =
     to_lower (case Option.bind (contact_adif_value contact ''BAND'') as_str of Some b \<Rightarrow> b | None \<Rightarrow> [])"

text \<open>The loop body of \<open>update_serials\<close>.\<close>

definition update_serial_field ::
  "string \<Rightarrow> bool \<Rightarrow> string \<times> json \<Rightarrow> (string, serial_values) hmap \<Rightarrow> (string, serial_values) hmap" where
  "update_serial_field band insert_it entry index =
     (case entry of (field, v) \<Rightarrow>
        (case json_serial_value v of
           None \<Rightarrow> index
         | Some v \<Rightarrow>
             let values = (case hm_get index field of
                             Some s \<Rightarrow> s | None \<Rightarrow> \<lparr>serial_global = [], serial_bands = []\<rparr>);
                 global = update_count (serial_global values) v insert_it;
                 band_values = update_count
                   (case hm_get (serial_bands values) band of Some b \<Rightarrow> b | None \<Rightarrow> []) v insert_it;
                 bands = (if band_values = [] then hm_remove band (serial_bands values)
                          else hm_put band band_values (serial_bands values));
                 values = \<lparr>serial_global = global, serial_bands = bands\<rparr>
             in if global = [] then hm_remove field index else hm_put field values index))"

definition update_serials :: "contact \<Rightarrow> bool \<Rightarrow> cached_contacts \<Rightarrow> cached_contacts" where
  "update_serials contact insert_it cc =
     cc\<lparr>serials := fold (update_serial_field (contact_band contact) insert_it)
          (case contact_adif contact of Some adif \<Rightarrow> adif | None \<Rightarrow> []) (serials cc)\<rparr>"

definition remove_cached :: "int \<Rightarrow> cached_contacts \<Rightarrow> cached_contacts" where
  "remove_cached i cc =
     (case hm_get (by_id cc) i of
        None \<Rightarrow> cc
      | Some contact \<Rightarrow>
          update_serials contact False
            (cc\<lparr>by_id := hm_remove i (by_id cc),
                ordered_contacts := bt_remove (order_key contact) (ordered_contacts cc)\<rparr>))"

text \<open>A persisted contact has an id; the \<open>expect\<close> on it is the \<open>None\<close> result.\<close>

definition upsert_cached :: "contact \<Rightarrow> cached_contacts \<Rightarrow> cached_contacts option" where
  "upsert_cached contact cc =
     (case contact_id contact of
        None \<Rightarrow> None
      | Some i \<Rightarrow>
          let cc = update_serials contact True (remove_cached i cc)
          in Some (cc\<lparr>ordered_contacts := bt_put (order_key contact) contact (ordered_contacts cc),
                      by_id := hm_put i contact (by_id cc)\<rparr>))"

fun upsert_all :: "contact list \<Rightarrow> cached_contacts \<Rightarrow> cached_contacts option" where
  "upsert_all [] cc = Some cc"
| "upsert_all (c # cs) cc = Option.bind (upsert_cached c cc) (upsert_all cs)"

definition new_cached :: "contact list \<Rightarrow> cached_contacts option" where
  "new_cached contacts = upsert_all contacts empty_contacts"

definition cached_to_list :: "cached_contacts \<Rightarrow> contact list" where
  "cached_to_list cc = map snd (ordered_contacts cc)"

definition cached_contact :: "cached_contacts \<Rightarrow> int \<Rightarrow> contact option" where
  "cached_contact cc i = hm_get (by_id cc) i"

definition serial_max :: "cached_contacts \<Rightarrow> string \<Rightarrow> string option \<Rightarrow> int option" where
  "serial_max cc field band =
     (case hm_get (serials cc) (to_upper (trim field)) of
        None \<Rightarrow> None
      | Some values \<Rightarrow>
          (case (case band of
                   Some b \<Rightarrow> hm_get (serial_bands values) (to_lower b)
                 | None \<Rightarrow> Some (serial_global values)) of
             None \<Rightarrow> None
           | Some counts \<Rightarrow> if counts = [] then None else Some (fst (last counts))))"

section \<open>Counting indexes\<close>

text \<open>A counter holds exactly the values with a positive count, in ascending order.\<close>

definition counts_ok :: "(int \<times> nat) list \<Rightarrow> (int \<Rightarrow> nat) \<Rightarrow> bool" where
  "counts_ok m count_fn \<longleftrightarrow> bt_ok m \<and> (\<forall>v. map_of m v = (if count_fn v = 0 then None else Some (count_fn v)))"

lemma counts_ok_Nil [simp]: "counts_ok [] (\<lambda>_. 0)"
  by (simp add: counts_ok_def bt.ok_new)

lemma counts_ok_empty: "counts_ok m f \<Longrightarrow> m = [] \<longleftrightarrow> (\<forall>v. f v = 0)"
proof (cases m)
  case (Cons e m')
  assume "counts_ok m f"
  then have "map_of m (fst e) = (if f (fst e) = 0 then None else Some (f (fst e)))"
    by (simp add: counts_ok_def)
  with Cons have "f (fst e) \<noteq> 0" by (cases e) (simp split: if_splits)
  with Cons show ?thesis by auto
next
  case Nil
  assume "counts_ok m f"
  with Nil have "None = (if f v = 0 then None else Some (f v))" for v
    by (simp add: counts_ok_def)
  then have "f v = 0" for v by (metis option.distinct(1))
  with Nil show ?thesis by simp
qed

lemma counts_ok_incr: "counts_ok m f \<Longrightarrow> counts_ok (update_count m v True) (f(v := f v + 1))"
  by (auto simp: counts_ok_def update_count_def bt_ok_put bt_get_put)

lemma counts_ok_decr: "counts_ok m f \<Longrightarrow> 0 < f v \<Longrightarrow> counts_ok (update_count m v False) (f(v := f v - 1))"
  by (auto simp: counts_ok_def update_count_def bt_ok_put bt_ok_remove bt_get_put bt_get_remove)

lemma counts_ok_last:
  assumes "counts_ok m f" and "m \<noteq> []"
  shows "0 < f (fst (last m)) \<and> (\<forall>v. 0 < f v \<longrightarrow> v \<le> fst (last m))"
proof -
  have keys: "fst ` set m = {v. 0 < f v}"
  proof -
    have "fst ` set m = dom (map_of m)" by (simp add: dom_map_of_conv_image_fst)
    also have "\<dots> = {v. 0 < f v}" using assms(1) by (auto simp: counts_ok_def dom_def)
    finally show ?thesis .
  qed
  have "sorted (map fst m)" using assms(1) by (simp add: counts_ok_def bt_ok_def strict_sorted_imp_sorted)
  moreover obtain ms e where m: "m = ms @ [e]" using assms(2) by (metis append_butlast_last_id)
  ultimately have "sorted (map fst ms @ [fst e])" by simp
  then have "\<forall>v\<in>set (map fst ms). v \<le> fst e" unfolding sorted_append by simp
  then have "\<forall>v\<in>fst ` set m. v \<le> fst (last m)" by (auto simp: m)
  moreover have "fst (last m) \<in> fst ` set m" using assms(2) by simp
  ultimately show ?thesis using keys by blast
qed

text \<open>The serial index describes the counts \<open>g field value\<close> and \<open>b field band value\<close>.\<close>

definition serials_ok ::
  "(string, serial_values) hmap \<Rightarrow> (string \<Rightarrow> int \<Rightarrow> nat) \<Rightarrow> (string \<Rightarrow> string \<Rightarrow> int \<Rightarrow> nat) \<Rightarrow> bool" where
  "serials_ok index g b \<longleftrightarrow>
     (\<forall>f. case hm_get index f of
        None \<Rightarrow> (\<forall>v. g f v = 0) \<and> (\<forall>band v. b f band v = 0)
      | Some sv \<Rightarrow> counts_ok (serial_global sv) (g f)
          \<and> (\<forall>band. case hm_get (serial_bands sv) band of
               None \<Rightarrow> \<forall>v. b f band v = 0
             | Some m \<Rightarrow> counts_ok m (b f band)))"

definition bump :: "bool \<Rightarrow> nat \<Rightarrow> nat" where
  "bump insert_it n = (if insert_it then n + 1 else n - 1)"

lemma counts_ok_update:
  "counts_ok m f \<Longrightarrow> insert_it \<or> 0 < f v \<Longrightarrow> counts_ok (update_count m v insert_it) (f(v := bump insert_it (f v)))"
  by (cases insert_it) (auto simp: bump_def dest: counts_ok_incr counts_ok_decr [of m f v])

lemma serials_ok_field:
  assumes "serials_ok index g b" and v: "json_serial_value j = Some v"
    and pos: "insert_it \<or> 0 < g f v \<and> 0 < b f band v"
  defines "g' \<equiv> g(f := (g f)(v := bump insert_it (g f v)))"
    and "b' \<equiv> b(f := (b f)(band := (b f band)(v := bump insert_it (b f band v))))"
  assumes link: "\<forall>x c. g' f x = 0 \<longrightarrow> b' f c x = 0"
  shows "serials_ok (update_serial_field band insert_it (f, j) index) g' b'"
proof -
  define sv where "sv = (case hm_get index f of Some s \<Rightarrow> s | None \<Rightarrow> \<lparr>serial_global = [], serial_bands = []\<rparr>)"
  define m where "m = (case hm_get (serial_bands sv) band of Some b \<Rightarrow> b | None \<Rightarrow> [])"
  define gl where "gl = update_count (serial_global sv) v insert_it"
  define bl where "bl = update_count m v insert_it"
  define bands where "bands = (if bl = [] then hm_remove band (serial_bands sv) else hm_put band bl (serial_bands sv))"
  have here: "case hm_get index f of
        None \<Rightarrow> (\<forall>v. g f v = 0) \<and> (\<forall>band v. b f band v = 0)
      | Some sv \<Rightarrow> counts_ok (serial_global sv) (g f)
          \<and> (\<forall>band. case hm_get (serial_bands sv) band of
               None \<Rightarrow> \<forall>v. b f band v = 0
             | Some m \<Rightarrow> counts_ok m (b f band))"
    using assms(1) by (simp add: serials_ok_def)
  have zero: "(\<forall>v. h v = 0) \<Longrightarrow> counts_ok [] h" for h by (simp add: counts_ok_def bt.ok_new)
  have g0: "counts_ok (serial_global sv) (g f)"
    using here by (cases "hm_get index f") (simp_all add: sv_def zero)
  have b0: "case hm_get (serial_bands sv) c of None \<Rightarrow> \<forall>v. b f c v = 0 | Some m \<Rightarrow> counts_ok m (b f c)" for c
    using here by (cases "hm_get index f") (simp_all add: sv_def)
  have m0: "counts_ok m (b f band)"
    using b0 [of band] by (cases "hm_get (serial_bands sv) band") (simp_all add: m_def zero)
  have g1: "counts_ok gl (g' f)"
    using counts_ok_update [OF g0, of insert_it v] pos by (auto simp: gl_def g'_def)
  have m1: "counts_ok bl (b' f band)"
    using counts_ok_update [OF m0, of insert_it v] pos by (auto simp: bl_def b'_def)
  have b1: "case hm_get bands c of None \<Rightarrow> \<forall>v. b' f c v = 0 | Some m \<Rightarrow> counts_ok m (b' f c)" for c
  proof (cases "c = band")
    case True
    show ?thesis
    proof (cases "bl = []")
      case True
      with m1 have "\<forall>v. b' f band v = 0" using counts_ok_empty by blast
      with True \<open>c = band\<close> show ?thesis by (simp add: bands_def hm_get_remove)
    next
      case False
      with m1 \<open>c = band\<close> show ?thesis by (simp add: bands_def hm_get_put)
    qed
  next
    case False
    then have "b' f c = b f c" and "hm_get bands c = hm_get (serial_bands sv) c"
      by (simp_all add: b'_def bands_def hm_get_put hm_get_remove)
    then show ?thesis using b0 [of c] by (simp only:)
  qed
  have other: "h \<noteq> f \<Longrightarrow> g' h = g h \<and> b' h = b h" for h by (simp add: g'_def b'_def)
  have step: "update_serial_field band insert_it (f, j) index =
      (if gl = [] then hm_remove f index
       else hm_put f \<lparr>serial_global = gl, serial_bands = bands\<rparr> index)"
    unfolding update_serial_field_def prod.case v option.case Let_def
    unfolding sv_def [symmetric] unfolding m_def [symmetric]
    unfolding gl_def [symmetric] bl_def [symmetric] unfolding bands_def [symmetric]
    by (rule refl)
  show ?thesis
    unfolding serials_ok_def
  proof
    fix h
    show "case hm_get (update_serial_field band insert_it (f, j) index) h of
        None \<Rightarrow> (\<forall>v. g' h v = 0) \<and> (\<forall>band v. b' h band v = 0)
      | Some sv \<Rightarrow> counts_ok (serial_global sv) (g' h)
          \<and> (\<forall>band. case hm_get (serial_bands sv) band of
               None \<Rightarrow> \<forall>v. b' h band v = 0
             | Some m \<Rightarrow> counts_ok m (b' h band))"
    proof (cases "h = f")
      case True
      show ?thesis
      proof (cases "gl = []")
        case True
        with g1 have "\<forall>v. g' f v = 0" using counts_ok_empty by blast
        with True link \<open>h = f\<close> show ?thesis by (simp add: step hm_get_remove)
      next
        case False
        have "\<forall>c. case hm_get bands c of None \<Rightarrow> \<forall>v. b' f c v = 0 | Some m \<Rightarrow> counts_ok m (b' f c)"
          using b1 by blast
        with g1 False show ?thesis unfolding \<open>h = f\<close> by (simp add: step hm_get_put)
      qed
    next
      case False
      then have same: "g' h = g h" "b' h = b h" using other by simp_all
      from False have "hm_get (update_serial_field band insert_it (f, j) index) h = hm_get index h"
        by (simp add: step hm_get_put hm_get_remove)
      with assms(1) show ?thesis
        unfolding same serials_ok_def by (simp only:)
    qed
  qed
qed

section \<open>The index of a contact\<close>

definition contact_serials :: "contact \<Rightarrow> string \<Rightarrow> int option" where
  "contact_serials c field =
     Option.bind (Option.bind (contact_adif c) (\<lambda>adif. map_of adif field)) json_serial_value"

definition fields_distinct :: "contact \<Rightarrow> bool" where
  "fields_distinct c \<longleftrightarrow> (case contact_adif c of Some adif \<Rightarrow> distinct (map fst adif) | None \<Rightarrow> True)"

definition value_count :: "contact multiset \<Rightarrow> string \<Rightarrow> int \<Rightarrow> nat" where
  "value_count M field v = size (filter_mset (\<lambda>c. contact_serials c field = Some v) M)"

definition band_value_count :: "contact multiset \<Rightarrow> string \<Rightarrow> string \<Rightarrow> int \<Rightarrow> nat" where
  "band_value_count M field band v =
     size (filter_mset (\<lambda>c. contact_serials c field = Some v \<and> contact_band c = band) M)"

text \<open>
  \<open>bump_fields\<close> applies a contact's fields one by one to the counts; over distinct fields it adds
  or removes the contact as a whole.
\<close>

definition bump_global :: "bool \<Rightarrow> (string \<times> json) list \<Rightarrow> (string \<Rightarrow> int \<Rightarrow> nat) \<Rightarrow> string \<Rightarrow> int \<Rightarrow> nat" where
  "bump_global insert_it adif g f v =
     (if Option.bind (map_of adif f) json_serial_value = Some v then bump insert_it (g f v) else g f v)"

definition bump_band ::
  "bool \<Rightarrow> string \<Rightarrow> (string \<times> json) list \<Rightarrow> (string \<Rightarrow> string \<Rightarrow> int \<Rightarrow> nat) \<Rightarrow> string \<Rightarrow> string \<Rightarrow> int \<Rightarrow> nat" where
  "bump_band insert_it band adif b f c v =
     (if c = band \<and> Option.bind (map_of adif f) json_serial_value = Some v
      then bump insert_it (b f c v) else b f c v)"

lemma serials_ok_fields:
  assumes "serials_ok index g b" and "distinct (map fst adif)"
    and "\<And>f v. Option.bind (map_of adif f) json_serial_value = Some v \<Longrightarrow>
      insert_it \<or> 0 < g f v \<and> 0 < b f band v"
    and "\<And>f c v. b f c v \<le> g f v"
    and "\<And>f c v. bump_band insert_it band adif b f c v \<le> bump_global insert_it adif g f v"
  shows "serials_ok (fold (update_serial_field band insert_it) adif index)
    (bump_global insert_it adif g) (bump_band insert_it band adif b)"
  using assms
proof (induction adif arbitrary: index g b)
  case Nil
  have "bump_global insert_it [] g = g" "bump_band insert_it band [] b = b"
    by (simp_all add: bump_global_def bump_band_def fun_eq_iff)
  with Nil show ?case by simp
next
  case (Cons e adif)
  obtain f j where e: "e = (f, j)" by fastforce
  have fresh: "map_of adif f = None" using Cons.prems(2) by (simp add: e map_of_eq_None_iff)
  show ?case
  proof (cases "json_serial_value j")
    case None
    then have same: "bump_global insert_it (e # adif) h = bump_global insert_it adif h"
      "bump_band insert_it band (e # adif) k = bump_band insert_it band adif k" for h k
      using fresh by (auto simp: bump_global_def bump_band_def e fun_eq_iff)
    have "update_serial_field band insert_it e index = index"
      by (simp add: update_serial_field_def e None)
    moreover have "serials_ok (fold (update_serial_field band insert_it) adif index)
        (bump_global insert_it adif g) (bump_band insert_it band adif b)"
    proof (rule Cons.IH [OF Cons.prems(1)])
      show "distinct (map fst adif)" using Cons.prems(2) by simp
      show "insert_it \<or> 0 < g h v \<and> 0 < b h band v"
        if "Option.bind (map_of adif h) json_serial_value = Some v" for h v
        using Cons.prems(3) [of h v] that fresh by (cases "h = f") (auto simp: e)
    qed (use Cons.prems(4,5) in \<open>simp_all add: same\<close>)
    ultimately show ?thesis by (simp add: same)
  next
    case (Some v)
    let ?g = "g(f := (g f)(v := bump insert_it (g f v)))"
    let ?b = "b(f := (b f)(band := (b f band)(v := bump insert_it (b f band v))))"
    have pos: "insert_it \<or> 0 < g f v \<and> 0 < b f band v"
      using Cons.prems(3) [of f v] Some by (simp add: e)
    have step: "bump_global insert_it (e # adif) g = bump_global insert_it adif ?g"
      "bump_band insert_it band (e # adif) b = bump_band insert_it band adif ?b"
      using Some fresh by (auto simp: bump_global_def bump_band_def e fun_eq_iff)
    have le: "?b h c x \<le> ?g h x" for h c x
    proof (cases "h = f")
      case True
      have "bump_band insert_it band (e # adif) b f c x \<le> bump_global insert_it (e # adif) g f x"
        using Cons.prems(5) by blast
      then show ?thesis using True fresh by (simp add: step bump_global_def bump_band_def)
    next
      case False
      then show ?thesis using Cons.prems(4) by simp
    qed
    have "serials_ok (update_serial_field band insert_it e index) ?g ?b"
      unfolding e using le by (intro serials_ok_field [OF Cons.prems(1) Some pos]) (metis le_zero_eq)
    then have "serials_ok (fold (update_serial_field band insert_it) adif (update_serial_field band insert_it e index))
        (bump_global insert_it adif ?g) (bump_band insert_it band adif ?b)"
    proof (rule Cons.IH)
      show "distinct (map fst adif)" using Cons.prems(2) by simp
      show "insert_it \<or> 0 < ?g h x \<and> 0 < ?b h band x"
        if "Option.bind (map_of adif h) json_serial_value = Some x" for h x
        using Cons.prems(3) [of h x] that fresh by (cases "h = f") (auto simp: e)
      show "?b h c x \<le> ?g h x" for h c x by (rule le)
      show "bump_band insert_it band adif ?b h c x \<le> bump_global insert_it adif ?g h x" for h c x
        using Cons.prems(5) [of h c x] by (simp only: step)
    qed
    then show ?thesis by (simp add: step)
  qed
qed

lemma value_count_add:
  "value_count (add_mset c M) f v =
     (if contact_serials c f = Some v then Suc (value_count M f v) else value_count M f v)"
  by (simp add: value_count_def)

lemma band_value_count_add:
  "band_value_count (add_mset c M) f b v =
     (if b = contact_band c \<and> contact_serials c f = Some v
      then Suc (band_value_count M f b v) else band_value_count M f b v)"
  by (auto simp: band_value_count_def)

lemma counts_of_contact:
  assumes "fields_distinct c"
  defines "adif \<equiv> (case contact_adif c of Some adif \<Rightarrow> adif | None \<Rightarrow> [])"
  shows "bump_global True adif (value_count M) = value_count (add_mset c M)"
    and "bump_band True (contact_band c) adif (band_value_count M) = band_value_count (add_mset c M)"
    and "bump_global False adif (value_count (add_mset c M)) = value_count M"
    and "bump_band False (contact_band c) adif (band_value_count (add_mset c M)) = band_value_count M"
proof -
  have lookup: "Option.bind (map_of adif f) json_serial_value = contact_serials c f" for f
    by (cases "contact_adif c") (simp_all add: adif_def contact_serials_def)
  show "bump_global True adif (value_count M) = value_count (add_mset c M)"
    by (intro ext) (simp add: bump_global_def lookup bump_def value_count_add)
  show "bump_band True (contact_band c) adif (band_value_count M) = band_value_count (add_mset c M)"
    by (intro ext) (simp add: bump_band_def lookup bump_def band_value_count_add)
  show "bump_global False adif (value_count (add_mset c M)) = value_count M"
    by (intro ext) (simp add: bump_global_def lookup bump_def value_count_add)
  show "bump_band False (contact_band c) adif (band_value_count (add_mset c M)) = band_value_count M"
    by (intro ext) (simp add: bump_band_def lookup bump_def band_value_count_add)
qed

lemma band_le_value: "band_value_count M f c v \<le> value_count M f v"
proof (induction M)
  case empty
  show ?case by (simp add: band_value_count_def)
next
  case (add x M)
  then show ?case by (auto simp: band_value_count_add value_count_add)
qed

definition index_ok :: "contact multiset \<Rightarrow> (string, serial_values) hmap \<Rightarrow> bool" where
  "index_ok M index \<longleftrightarrow> serials_ok index (value_count M) (band_value_count M)"

lemma index_ok_insert:
  assumes "index_ok M (serials cc)" and "fields_distinct c"
  shows "index_ok (add_mset c M) (serials (update_serials c True cc))"
proof -
  let ?adif = "case contact_adif c of Some adif \<Rightarrow> adif | None \<Rightarrow> []"
  have "distinct (map fst ?adif)" using assms(2) by (simp add: fields_distinct_def split: option.splits)
  from serials_ok_fields [OF assms(1) [unfolded index_ok_def] this, of True "contact_band c"]
  show ?thesis
    unfolding counts_of_contact [OF assms(2)] index_ok_def update_serials_def
    by (simp add: band_le_value)
qed

lemma index_ok_remove:
  assumes "index_ok (add_mset c M) (serials cc)" and "fields_distinct c"
  shows "index_ok M (serials (update_serials c False cc))"
proof -
  let ?adif = "case contact_adif c of Some adif \<Rightarrow> adif | None \<Rightarrow> []"
  have "distinct (map fst ?adif)" using assms(2) by (simp add: fields_distinct_def split: option.splits)
  moreover have "0 < value_count (add_mset c M) f v \<and> 0 < band_value_count (add_mset c M) f (contact_band c) v"
    if "Option.bind (map_of ?adif f) json_serial_value = Some v" for f v
    using that by (auto simp: value_count_def band_value_count_def contact_serials_def split: option.splits bind_splits)
  ultimately show ?thesis
    using serials_ok_fields [OF assms(1) [unfolded index_ok_def], of ?adif False "contact_band c"]
    unfolding counts_of_contact [OF assms(2)] index_ok_def update_serials_def
    by (simp add: band_le_value)
qed

section \<open>The cache of a log\<close>

text \<open>
  The abstract state is the map from ids to contacts; the three structures are determined by it.
\<close>

definition cached_multiset :: "(int, contact) hmap \<Rightarrow> contact multiset" where
  "cached_multiset m = mset (map snd m)"

definition contacts_ok :: "cached_contacts \<Rightarrow> bool" where
  "contacts_ok cc \<longleftrightarrow>
     hm_ok (by_id cc)
     \<and> (\<forall>i c. hm_get (by_id cc) i = Some c \<longrightarrow> contact_id c = Some i \<and> fields_distinct c)
     \<and> bt_ok (ordered_contacts cc)
     \<and> (\<forall>k c. map_of (ordered_contacts cc) k = Some c \<longleftrightarrow>
          (\<exists>i. hm_get (by_id cc) i = Some c) \<and> k = order_key c)
     \<and> index_ok (cached_multiset (by_id cc)) (serials cc)"

lemma order_key_inj:
  "contact_id c = Some i \<Longrightarrow> contact_id d = Some j \<Longrightarrow> order_key c = order_key d \<Longrightarrow> i = j"
  by (simp add: order_key_def)

lemma cached_multiset_remove:
  "hm_ok m \<Longrightarrow> hm_get m i = Some c \<Longrightarrow> cached_multiset m = add_mset c (cached_multiset (hm_remove i m))"
proof (induction m)
  case (Cons e m)
  obtain j d where e: "e = (j, d)" by fastforce
  show ?case
  proof (cases "j = i")
    case True
    have "i \<notin> fst ` set m" using Cons.prems(1) True by (simp add: hm_ok_def e)
    then have "filter (\<lambda>(k, v). i \<noteq> k) m = m" by (force simp: filter_id_conv)
    with True Cons.prems(2) show ?thesis
      by (simp add: cached_multiset_def hm_remove_def e AList.delete_eq)
  next
    case False
    with Cons show ?thesis by (simp add: cached_multiset_def hm_remove_def e hm_ok_def)
  qed
qed simp

lemma cached_multiset_put:
  "hm_get m i = None \<Longrightarrow> cached_multiset (hm_put i c m) = add_mset c (cached_multiset m)"
  by (induction m) (auto simp: cached_multiset_def hm_put_def split: if_splits)

lemma update_serials_frame [simp]:
  "by_id (update_serials c ins cc) = by_id cc"
  "ordered_contacts (update_serials c ins cc) = ordered_contacts cc"
  by (simp_all add: update_serials_def)

lemma remove_cached_ok:
  assumes "contacts_ok cc"
  shows "contacts_ok (remove_cached i cc) \<and> hm_get (by_id (remove_cached i cc)) = (hm_get (by_id cc))(i := None)"
proof (cases "hm_get (by_id cc) i")
  case None
  then show ?thesis using assms by (auto simp: remove_cached_def fun_eq_iff)
next
  case (Some c)
  let ?cc = "cc\<lparr>by_id := hm_remove i (by_id cc), ordered_contacts := bt_remove (order_key c) (ordered_contacts cc)\<rparr>"
  have r: "remove_cached i cc = update_serials c False ?cc" by (simp add: remove_cached_def Some)
  have c: "contact_id c = Some i" "fields_distinct c"
    using assms Some by (auto simp: contacts_ok_def)
  have ok: "hm_ok (by_id cc)" using assms by (simp add: contacts_ok_def)
  have "index_ok (add_mset c (cached_multiset (hm_remove i (by_id cc)))) (serials ?cc)"
    using assms cached_multiset_remove [OF ok Some] by (simp add: contacts_ok_def)
  from index_ok_remove [OF this c(2)]
  have idx: "index_ok (cached_multiset (hm_remove i (by_id cc))) (serials (update_serials c False ?cc))" .
  have keys: "map_of (ordered_contacts cc) k = Some d \<longleftrightarrow> (\<exists>j. hm_get (by_id cc) j = Some d) \<and> k = order_key d"
    for k d using assms by (simp add: contacts_ok_def)
  have ids: "hm_get (by_id cc) j = Some d \<Longrightarrow> contact_id d = Some j \<and> fields_distinct d" for j d
    using assms by (simp add: contacts_ok_def)
  have other: "(\<exists>j. hm_get (hm_remove i (by_id cc)) j = Some d) \<longleftrightarrow>
      (\<exists>j. hm_get (by_id cc) j = Some d) \<and> order_key d \<noteq> order_key c" for d
  proof
    assume "\<exists>j. hm_get (hm_remove i (by_id cc)) j = Some d"
    then obtain j where j: "j \<noteq> i" "hm_get (by_id cc) j = Some d" by (auto simp: hm_get_remove split: if_splits)
    then show "(\<exists>j. hm_get (by_id cc) j = Some d) \<and> order_key d \<noteq> order_key c"
      using order_key_inj [of d j c i] ids [OF j(2)] c(1) by blast
  next
    assume "(\<exists>j. hm_get (by_id cc) j = Some d) \<and> order_key d \<noteq> order_key c"
    then obtain j where j: "hm_get (by_id cc) j = Some d" "order_key d \<noteq> order_key c" by blast
    then have "j \<noteq> i" using Some by auto
    with j show "\<exists>j. hm_get (hm_remove i (by_id cc)) j = Some d" by (intro exI [of _ j]) (simp add: hm_get_remove)
  qed
  have "map_of (bt_remove (order_key c) (ordered_contacts cc)) k = Some d \<longleftrightarrow>
      (\<exists>j. hm_get (hm_remove i (by_id cc)) j = Some d) \<and> k = order_key d" for k d
    unfolding other bt_get_remove using keys [of k d] by auto
  moreover have "hm_get (hm_remove i (by_id cc)) j = Some d \<longrightarrow> contact_id d = Some j \<and> fields_distinct d" for j d
    using ids by (simp add: hm_get_remove)
  moreover have "hm_ok (hm_remove i (by_id cc))" "bt_ok (bt_remove (order_key c) (ordered_contacts cc))"
    using assms by (simp_all add: contacts_ok_def hm.ok_remove bt_ok_remove)
  ultimately have "contacts_ok (remove_cached i cc)"
    using idx by (simp add: r contacts_ok_def)
  then show ?thesis by (auto simp: r hm_get_remove fun_eq_iff)
qed

lemma upsert_cached_ok:
  assumes "contacts_ok cc" and "contact_id c = Some i" and "fields_distinct c"
  shows "\<exists>cc'. upsert_cached c cc = Some cc' \<and> contacts_ok cc'
    \<and> hm_get (by_id cc') = (hm_get (by_id cc))(i \<mapsto> c)"
proof -
  let ?r = "remove_cached i cc"
  have r: "contacts_ok ?r" and rid: "hm_get (by_id ?r) = (hm_get (by_id cc))(i := None)"
    using remove_cached_ok [OF assms(1)] by simp_all
  let ?cc = "(update_serials c True ?r)\<lparr>ordered_contacts := bt_put (order_key c) c (ordered_contacts ?r),
      by_id := hm_put i c (by_id ?r)\<rparr>"
  have u: "upsert_cached c cc = Some ?cc" by (simp add: upsert_cached_def assms(2) Let_def)
  have none: "hm_get (by_id ?r) i = None" by (simp add: rid)
  have "index_ok (cached_multiset (by_id ?r)) (serials ?r)" using r by (simp add: contacts_ok_def)
  from index_ok_insert [OF this assms(3)]
  have idx: "index_ok (cached_multiset (hm_put i c (by_id ?r))) (serials (update_serials c True ?r))"
    by (simp add: cached_multiset_put [OF none])
  have keys: "map_of (ordered_contacts ?r) k = Some d \<longleftrightarrow> (\<exists>j. hm_get (by_id ?r) j = Some d) \<and> k = order_key d"
    for k d using r by (simp add: contacts_ok_def)
  have ids: "hm_get (by_id ?r) j = Some d \<Longrightarrow> contact_id d = Some j \<and> fields_distinct d" for j d
    using r by (simp add: contacts_ok_def)
  have new: "hm_get (by_id ?r) j = Some d \<Longrightarrow> order_key d \<noteq> order_key c" for j d
    using ids none assms(2) order_key_inj by (metis option.distinct(1))
  have "map_of (bt_put (order_key c) c (ordered_contacts ?r)) k = Some d \<longleftrightarrow>
      (\<exists>j. hm_get (hm_put i c (by_id ?r)) j = Some d) \<and> k = order_key d" for k d
  proof (cases "d = c")
    case True
    have "hm_get (hm_put i c (by_id ?r)) i = Some c" by (simp add: hm_get_put)
    with True keys [of k c] new show ?thesis by (auto simp: bt_get_put)
  next
    case False
    have "(\<exists>j. hm_get (hm_put i c (by_id ?r)) j = Some d) = (\<exists>j. hm_get (by_id ?r) j = Some d)"
      using False none by (metis hm_get_put option.distinct(1) option.inject)
    with False keys [of k d] new [of _ d] show ?thesis by (auto simp: bt_get_put)
  qed
  moreover have "hm_ok (hm_put i c (by_id ?r))" "bt_ok (bt_put (order_key c) c (ordered_contacts ?r))"
    using r by (simp_all add: contacts_ok_def hm.ok_put bt_ok_put)
  moreover have "hm_get (hm_put i c (by_id ?r)) j = Some d \<longrightarrow> contact_id d = Some j \<and> fields_distinct d" for j d
    using ids assms(2,3) by (auto simp: hm_get_put)
  ultimately have "contacts_ok ?cc" using idx by (simp add: contacts_ok_def)
  moreover have "hm_get (by_id ?cc) = (hm_get (by_id cc))(i \<mapsto> c)"
    by (auto simp: hm_get_put rid fun_eq_iff)
  ultimately show ?thesis using u by blast
qed

lemma empty_contacts_ok: "contacts_ok empty_contacts"
  by (auto simp: contacts_ok_def empty_contacts_def hm_ok_def bt.ok_new index_ok_def serials_ok_def
      cached_multiset_def value_count_def band_value_count_def)

lemma cached_to_list_set:
  assumes "contacts_ok cc"
  shows "set (cached_to_list cc) = ran (hm_get (by_id cc))"
proof -
  have d: "distinct (map fst (ordered_contacts cc))"
    using assms by (simp add: contacts_ok_def bt_ok_distinct)
  have "c \<in> snd ` set (ordered_contacts cc) \<longleftrightarrow> (\<exists>k. map_of (ordered_contacts cc) k = Some c)" for c
    using d by (force simp: map_of_eq_Some_iff)
  then show ?thesis
    using assms by (auto simp: cached_to_list_def contacts_ok_def ran_def)
qed

text \<open>
  C31. Removing and storing a contact in the cache of a log are exactly removal and update of the
  map from ids to contacts, and keep the three structures consistent; storing cannot fail for a
  contact with an id.
\<close>

theorem contact_cache_refines:
  assumes "contacts_ok cc" and "contact_id c = Some i" and "fields_distinct c"
  shows "contacts_ok (remove_cached j cc)
    \<and> cached_contact (remove_cached j cc) = (cached_contact cc)(j := None)
    \<and> (\<exists>cc'. upsert_cached c cc = Some cc' \<and> contacts_ok cc'
         \<and> cached_contact cc' = (cached_contact cc)(i \<mapsto> c))"
proof -
  have eq: "cached_contact cc = hm_get (by_id cc)" for cc by (simp add: cached_contact_def fun_eq_iff)
  show ?thesis
    using remove_cached_ok [OF assms(1)] upsert_cached_ok [OF assms] by (simp add: eq)
qed

definition stx_contact :: "int \<Rightarrow> int \<Rightarrow> int \<Rightarrow> string \<Rightarrow> contact" where
  "stx_contact i time stx band =
     build_contact [(''id'', JInt i)]
       [(''BAND'', JString band), (''QSO_DATE_TIME_ON'', JInt time), (''STX'', JInt stx)]"

theorem contact_cache_refines_witness:
  "\<exists>cc'. upsert_cached (stx_contact 5 100 7 ''20m'') empty_contacts = Some cc'
     \<and> cached_contact cc' 5 = Some (stx_contact 5 100 7 ''20m'')"
proof -
  have "contact_id (stx_contact 5 100 7 ''20m'') = Some 5" and "fields_distinct (stx_contact 5 100 7 ''20m'')"
    by (code_simp, code_simp)
  from contact_cache_refines [OF empty_contacts_ok this, of 0] show ?thesis by auto
qed

text \<open>
  The cache lists the contacts of the log newest first: each stored contact exactly once, in
  strictly descending order of time and id.
\<close>

theorem cached_list_order:
  assumes "contacts_ok cc"
  shows "set (cached_to_list cc) = ran (cached_contact cc)
    \<and> sorted_wrt (\<lambda>c d. order_key c < order_key d) (cached_to_list cc)"
proof -
  have "cached_contact cc = hm_get (by_id cc)" by (simp add: cached_contact_def fun_eq_iff)
  moreover have "k = order_key c" if "(k, c) \<in> set (ordered_contacts cc)" for k c
  proof -
    have "map_of (ordered_contacts cc) k = Some c"
      using assms that by (simp add: contacts_ok_def bt_ok_distinct)
    with assms show ?thesis by (simp add: contacts_ok_def)
  qed
  then have "map order_key (cached_to_list cc) = map fst (ordered_contacts cc)"
    by (auto simp: map_eq_conv cached_to_list_def)
  then have "sorted_wrt (<) (map order_key (cached_to_list cc))"
    using assms by (simp only: contacts_ok_def bt_ok_def)
  ultimately show ?thesis using cached_to_list_set [OF assms] by (simp add: sorted_wrt_map)
qed

definition two_contacts :: cached_contacts where
  "two_contacts =
     (case new_cached [stx_contact 5 100 7 ''20m'', stx_contact 6 200 9 ''40m''] of
        Some cc \<Rightarrow> cc | None \<Rightarrow> empty_contacts)"

lemma upsert_all_ok:
  "contacts_ok cc \<Longrightarrow> \<forall>c\<in>set cs. contact_id c \<noteq> None \<and> fields_distinct c \<Longrightarrow>
     \<exists>cc'. upsert_all cs cc = Some cc' \<and> contacts_ok cc'"
proof (induction cs arbitrary: cc)
  case (Cons c cs)
  then obtain i where "contact_id c = Some i" by auto
  with Cons.prems upsert_cached_ok [of cc c i] obtain cc1 where "upsert_cached c cc = Some cc1" "contacts_ok cc1"
    by auto
  with Cons show ?case by simp
qed simp

lemma two_contacts_ok: "contacts_ok two_contacts"
proof -
  have "\<forall>c\<in>set [stx_contact 5 100 7 ''20m'', stx_contact 6 200 9 ''40m''].
      contact_id c \<noteq> None \<and> fields_distinct c" by code_simp
  from upsert_all_ok [OF empty_contacts_ok this] show ?thesis
    by (auto simp: two_contacts_def new_cached_def)
qed

theorem cached_list_order_witness:
  "map contact_id (cached_to_list two_contacts) = [Some 6, Some 5]
   \<and> sorted_wrt (\<lambda>c d. order_key c < order_key d) (cached_to_list two_contacts)"
proof
  show "map contact_id (cached_to_list two_contacts) = [Some 6, Some 5]" by code_simp
  show "sorted_wrt (\<lambda>c d. order_key c < order_key d) (cached_to_list two_contacts)"
    using cached_list_order [OF two_contacts_ok] by blast
qed

lemma size_filter_pos: "0 < size (filter_mset P M) \<longleftrightarrow> (\<exists>x\<in>#M. P x)"
  by (induction M) auto

lemma value_count_pos:
  assumes "hm_ok m"
  shows "0 < value_count (cached_multiset m) f v \<longleftrightarrow>
    (\<exists>i c. hm_get m i = Some c \<and> contact_serials c f = Some v)"
    and "0 < band_value_count (cached_multiset m) f b v \<longleftrightarrow>
    (\<exists>i c. hm_get m i = Some c \<and> contact_serials c f = Some v \<and> contact_band c = b)"
proof -
  have mem: "c \<in># cached_multiset m \<longleftrightarrow> (\<exists>i. hm_get m i = Some c)" for c
    using assms by (force simp: cached_multiset_def hm_ok_def map_of_eq_Some_iff)
  show "0 < value_count (cached_multiset m) f v \<longleftrightarrow>
      (\<exists>i c. hm_get m i = Some c \<and> contact_serials c f = Some v)"
    and "0 < band_value_count (cached_multiset m) f b v \<longleftrightarrow>
      (\<exists>i c. hm_get m i = Some c \<and> contact_serials c f = Some v \<and> contact_band c = b)"
    unfolding value_count_def band_value_count_def size_filter_pos Bex_def mem by blast+
qed

lemma serial_max_spec:
  fixes band :: "string option"
  assumes "contacts_ok cc" and "to_upper (trim field) = f"
  defines "has \<equiv> (\<lambda>v. \<exists>i c. cached_contact cc i = Some c \<and> contact_serials c f = Some v
      \<and> (case band of None \<Rightarrow> True | Some b \<Rightarrow> contact_band c = to_lower b))"
  shows "case serial_max cc field band of
      None \<Rightarrow> \<forall>v. \<not> has v
    | Some v \<Rightarrow> has v \<and> (\<forall>w. has w \<longrightarrow> w \<le> v)"
proof -
  have ok: "hm_ok (by_id cc)" using assms(1) by (simp add: contacts_ok_def)
  define g where "g = value_count (cached_multiset (by_id cc)) f"
  define h where "h = (\<lambda>b. band_value_count (cached_multiset (by_id cc)) f b)"
  have idx: "case hm_get (serials cc) f of
        None \<Rightarrow> (\<forall>v. g v = 0) \<and> (\<forall>band v. h band v = 0)
      | Some sv \<Rightarrow> counts_ok (serial_global sv) g
          \<and> (\<forall>band. case hm_get (serial_bands sv) band of
               None \<Rightarrow> \<forall>v. h band v = 0
             | Some m \<Rightarrow> counts_ok m (h band))"
    using assms(1) unfolding contacts_ok_def index_ok_def serials_ok_def g_def h_def by blast
  define cnt where "cnt = (case band of None \<Rightarrow> g | Some b \<Rightarrow> h (to_lower b))"
  have has: "has v \<longleftrightarrow> 0 < cnt v" for v
    using value_count_pos(1) [OF ok] value_count_pos(2) [OF ok]
    by (cases band) (auto simp: has_def cnt_def g_def h_def cached_contact_def)
  have fin: "case (if m = [] then None else Some (fst (last m))) of
      None \<Rightarrow> \<forall>v. \<not> has v | Some v \<Rightarrow> has v \<and> (\<forall>w. has w \<longrightarrow> w \<le> v)" if "counts_ok m cnt" for m
    using counts_ok_last [OF that] counts_ok_empty [OF that] by (auto simp: has)
  show ?thesis
  proof (cases "hm_get (serials cc) f")
    case None
    with idx have "\<forall>v. cnt v = 0" by (cases band) (simp_all add: cnt_def)
    with None show ?thesis by (simp add: serial_max_def assms(2) has)
  next
    case (Some sv)
    show ?thesis
    proof (cases band)
      case None
      with Some idx have "counts_ok (serial_global sv) cnt" by (simp add: cnt_def)
      from fin [OF this] None Some show ?thesis by (simp add: serial_max_def assms(2))
    next
      case (Some b)
      note sv = \<open>hm_get (serials cc) f = Some sv\<close>
      show ?thesis
      proof (cases "hm_get (serial_bands sv) (to_lower b)")
        case None
        with idx sv have "\<forall>v. h (to_lower b) v = 0" by (auto dest: spec [of _ "to_lower b"])
        with None sv Some show ?thesis by (simp add: serial_max_def assms(2) has cnt_def)
      next
        case (Some m)
        with idx sv have "counts_ok m (h (to_lower b))" by (auto dest: spec [of _ "to_lower b"])
        then have "counts_ok m cnt" using \<open>band = Some b\<close> by (simp add: cnt_def)
        from fin [OF this] Some sv \<open>band = Some b\<close> show ?thesis by (simp add: serial_max_def assms(2))
      qed
    qed
  qed
qed

text \<open>
  The serial index answers with the greatest value of a field over the contacts of the log
  (of a band, when one is given), and with nothing exactly when no contact has one.
\<close>

theorem serial_max_is_max:
  fixes band :: "string option"
  assumes "contacts_ok cc" and "to_upper (trim field) = f"
  defines "has \<equiv> (\<lambda>v. \<exists>i c. cached_contact cc i = Some c \<and> contact_serials c f = Some v
      \<and> (case band of None \<Rightarrow> True | Some b \<Rightarrow> contact_band c = to_lower b))"
  shows "case serial_max cc field band of
      None \<Rightarrow> \<forall>v. \<not> has v
    | Some v \<Rightarrow> has v \<and> (\<forall>w. has w \<longrightarrow> w \<le> v)"
  unfolding has_def by (rule serial_max_spec [OF assms(1,2)])

theorem serial_max_is_max_witness:
  "serial_max two_contacts '' stx'' None = Some 9 \<and> serial_max two_contacts ''STX'' (Some ''20M'') = Some 7
   \<and> \<not> (\<exists>i c. cached_contact two_contacts i = Some c \<and> contact_serials c ''STX'' = Some 11)"
proof -
  have v: "serial_max two_contacts '' stx'' None = Some 9" "serial_max two_contacts ''STX'' (Some ''20M'') = Some 7"
    and f: "to_upper (trim '' stx'') = ''STX''"
    by (code_simp, code_simp, code_simp)
  from serial_max_is_max [OF two_contacts_ok f, of None] v
  have "\<forall>w. (\<exists>i c. cached_contact two_contacts i = Some c \<and> contact_serials c ''STX'' = Some w) \<longrightarrow> w \<le> 9"
    by simp
  from this [THEN spec, of 11] v show ?thesis by auto
qed

end
