(* ===== verification/ContactRow.thy ===== *)
theory ContactRow
  imports ContactCache
begin

text \<open>
  \<open>backend/src/db/contacts.rs\<close>: how a contact is stored in the \<open>qsos\<close> table and read back.

  SQLite and the JSON parser are outside the model. What the code leaves to them is the record
  \<open>sql_env\<close>: the parser of JSON texts, the conversion of a decimal frequency text to hertz
  (binary64) and the row id SQLite gives to an inserted row, if any is free. The table is \<open>STRICT\<close>, so a column
  only holds values of its type; a row is the list of its column values in the order of
  \<open>QSO_COLUMNS\<close>. The SQL statements of the file are modelled by what they say: \<open>NOT NULL\<close> and
  foreign key violations fail, a conflict on \<open>ID\<close> replaces every column.
\<close>

section \<open>Rows\<close>

datatype sql_value = SqlNull | SqlInteger int | SqlText string

record qso_row =
  row_id :: int
  row_values :: "(string \<times> sql_value) list"

type_synonym qso_table = "(int \<times> qso_row) list"

record sql_env =
  parse_json :: "string \<Rightarrow> json option"
  decimal_hz :: "string \<Rightarrow> int option"
  fresh_row_id :: "qso_table \<Rightarrow> int option"

definition QSO_COLUMNS :: "string list" where
  "QSO_COLUMNS =
     [''LOG_ID'', ''QSO_DATE_TIME_ON'', ''STATION_CALLSIGN'', ''OPERATOR'', ''CONTEST_ID'', ''CALL'',
      ''BAND'', ''FREQ'', ''MODE'', ''RST_SENT'', ''RST_RCVD'', ''ARRL_SECT'', ''CNTY'', ''CQZ'',
      ''CONT'', ''DXCC'', ''APP_LOG73_DXCC_PFX'', ''GRIDSQUARE'', ''MY_CNTY'', ''MY_CONT'',
      ''MY_CQ_ZONE'', ''MY_DXCC'', ''APP_LOG73_MY_DXCC_PFX'', ''MY_GRIDSQUARE'', ''MY_STATE'',
      ''MY_ARRL_SECT'', ''SRX'', ''SRX_STRING'', ''STATE'', ''STX'', ''STX_STRING'', ''TX_PWR'',
      ''JSON'', ''WARNINGS_JSON'']"

definition INTEGER_COLUMNS :: "string list" where
  "INTEGER_COLUMNS =
     [''LOG_ID'', ''QSO_DATE_TIME_ON'', ''FREQ'', ''RST_SENT'', ''RST_RCVD'', ''CQZ'', ''DXCC'',
      ''MY_DXCC'', ''MY_CQ_ZONE'', ''SRX'', ''STX'', ''TX_PWR'']"

definition mapped_json_keys :: "string list" where
  "mapped_json_keys = ''ID'' # filter (\<lambda>c. c \<noteq> ''JSON'' \<and> c \<noteq> ''LOG_ID'') QSO_COLUMNS"

definition extra_fields :: "contact \<Rightarrow> (string \<times> json) list" where
  "extra_fields contact =
     (case contact_adif contact of
        Some adif \<Rightarrow> filter (\<lambda>(key, _). key \<notin> set mapped_json_keys) adif
      | None \<Rightarrow> filter (\<lambda>(key, _). \<not> prefix ''_'' key \<and> key \<notin> set mapped_json_keys) contact)"

definition extra_json :: "contact \<Rightarrow> string" where
  "extra_json contact = json_text (JObject (extra_fields contact))"

definition sql_integer :: "int option \<Rightarrow> sql_value" where
  "sql_integer i = (case i of Some n \<Rightarrow> SqlInteger n | None \<Rightarrow> SqlNull)"

definition sql_text :: "string option \<Rightarrow> sql_value" where
  "sql_text t = (case t of Some s \<Rightarrow> SqlText s | None \<Rightarrow> SqlNull)"

definition column_value :: "sql_env \<Rightarrow> contact \<Rightarrow> string \<Rightarrow> sql_value" where
  "column_value env contact column =
     (if column = ''JSON'' then SqlText (extra_json contact)
      else if column = ''WARNINGS_JSON'' then SqlText (contact_warnings_json contact)
      else if column = ''LOG_ID'' then
        SqlInteger (case contact_log_id contact of Some i \<Rightarrow> i | None \<Rightarrow> 1)
      else if column = ''QSO_DATE_TIME_ON'' then
        sql_integer (json_i64 (contact_adif_value contact ''QSO_DATE_TIME_ON''))
      else if column = ''FREQ'' then
        sql_integer (frequency_hz (decimal_hz env) (contact_adif_value contact ''FREQ''))
      else if column \<in> set INTEGER_COLUMNS then sql_integer (json_i64 (contact_adif_value contact column))
      else sql_text (json_string (contact_adif_value contact column)))"

definition contact_to_sql_values :: "sql_env \<Rightarrow> contact \<Rightarrow> (string \<times> sql_value) list" where
  "contact_to_sql_values env contact = map (\<lambda>column. (column, column_value env contact column)) QSO_COLUMNS"

definition row_integer :: "qso_row \<Rightarrow> string \<Rightarrow> int option" where
  "row_integer row column = (case map_of (row_values row) column of Some (SqlInteger n) \<Rightarrow> Some n | _ \<Rightarrow> None)"

definition row_text :: "qso_row \<Rightarrow> string \<Rightarrow> string option" where
  "row_text row column = (case map_of (row_values row) column of Some (SqlText t) \<Rightarrow> Some t | _ \<Rightarrow> None)"

definition row_column :: "qso_row \<Rightarrow> string \<Rightarrow> json option" where
  "row_column row column =
     (if column \<in> set INTEGER_COLUMNS then map_option JInt (row_integer row column)
      else map_option JString (row_text row column))"

definition put_column :: "qso_row \<Rightarrow> string \<Rightarrow> contact_fields \<Rightarrow> contact_fields" where
  "put_column row column adif =
     (case row_column row column of None \<Rightarrow> adif | Some v \<Rightarrow> bt_put column v adif)"

definition row_log_id :: "qso_row \<Rightarrow> int" where
  "row_log_id row = (case row_integer row ''LOG_ID'' of Some l \<Rightarrow> l | None \<Rightarrow> 0)"

definition row_to_contact :: "sql_env \<Rightarrow> qso_row \<Rightarrow> contact" where
  "row_to_contact env row =
     (let extra = (case Option.bind (row_text row ''JSON'') (parse_json env) of
                     Some (JObject m) \<Rightarrow> foldl (\<lambda>a (k, v). bt_put k v a) [] m
                   | _ \<Rightarrow> []);
          meta = bt_put ''status'' (JString ''Committed'')
                   (bt_put ''logId'' (JInt (row_log_id row)) (bt_put ''id'' (JInt (row_id row)) []));
          meta = (case Option.bind (row_text row ''WARNINGS_JSON'') (parse_json env) of
                    Some (JArray (w # ws)) \<Rightarrow> bt_put ''warnings'' (JArray (w # ws)) meta
                  | _ \<Rightarrow> meta);
          adif = fold (put_column row)
                   (filter (\<lambda>c. c \<noteq> ''JSON'' \<and> c \<noteq> ''LOG_ID'') QSO_COLUMNS) extra
      in build_contact meta adif)"

section \<open>Statements\<close>

text \<open>The \<open>NOT NULL\<close> columns of the schema that a contact can leave empty.\<close>

definition required_columns :: "string list" where
  "required_columns =
     [''QSO_DATE_TIME_ON'', ''STATION_CALLSIGN'', ''CONTEST_ID'', ''CALL'', ''BAND'', ''FREQ'', ''MODE'']"

definition row_rejected :: "int list \<Rightarrow> qso_row \<Rightarrow> bool" where
  "row_rejected log_ids row \<longleftrightarrow>
     list_ex (\<lambda>c. map_of (row_values row) c = Some SqlNull) required_columns
     \<or> row_log_id row \<notin> set log_ids"

definition upsert_contact ::
  "sql_env \<Rightarrow> int list \<Rightarrow> contact \<Rightarrow> qso_table \<Rightarrow> (contact \<times> qso_table) option" where
  "upsert_contact env log_ids contact table =
     (case (case contact_id contact of Some i \<Rightarrow> Some i | None \<Rightarrow> fresh_row_id env table) of
        None \<Rightarrow> None
      | Some i \<Rightarrow>
          let row = \<lparr>row_id = i, row_values = contact_to_sql_values env contact\<rparr>
          in if row_rejected log_ids row then None
             else Some (row_to_contact env row, bt_put i row table))"

definition complete_contact :: "int \<Rightarrow> string \<Rightarrow> contact \<Rightarrow> contact" where
  "complete_contact log_id contest_id contact =
     (let contact = set_contact_meta contact ''logId'' (JInt log_id)
      in (case map_option trim (Option.bind (contact_adif_value contact ''CONTEST_ID'') as_str) of
            Some (_ # _) \<Rightarrow> contact
          | _ \<Rightarrow> set_contact_adif contact ''CONTEST_ID'' (JString contest_id)))"

text \<open>The transaction: a failing statement leaves the table as it was.\<close>

fun db_upsert_contacts ::
  "sql_env \<Rightarrow> int list \<Rightarrow> int \<Rightarrow> string \<Rightarrow> contact list \<Rightarrow> qso_table \<Rightarrow> (contact list \<times> qso_table) option" where
  "db_upsert_contacts env log_ids log_id contest_id [] table = Some ([], table)"
| "db_upsert_contacts env log_ids log_id contest_id (contact # contacts) table =
     (case upsert_contact env log_ids (complete_contact log_id contest_id contact) table of
        None \<Rightarrow> None
      | Some (committed, table) \<Rightarrow>
          (case db_upsert_contacts env log_ids log_id contest_id contacts table of
             None \<Rightarrow> None
           | Some (rest, table) \<Rightarrow> Some (committed # rest, table)))"

definition display_key :: "qso_row \<Rightarrow> (int \<times> int) reverse" where
  "display_key row =
     Reverse (case row_integer row ''QSO_DATE_TIME_ON'' of Some t \<Rightarrow> t | None \<Rightarrow> 0, row_id row)"

definition db_contacts :: "sql_env \<Rightarrow> int \<Rightarrow> qso_table \<Rightarrow> contact list" where
  "db_contacts env log_id table =
     map (row_to_contact env)
       (sort_key display_key (filter (\<lambda>row. row_log_id row = log_id) (map snd table)))"

definition db_delete_contact :: "int \<Rightarrow> qso_table \<Rightarrow> int option \<times> qso_table" where
  "db_delete_contact i table =
     (case map_of table i of
        None \<Rightarrow> (None, table)
      | Some row \<Rightarrow> (Some (row_log_id row), bt_remove i table))"

definition db_contact_has_warnings :: "sql_env \<Rightarrow> int \<Rightarrow> qso_table \<Rightarrow> bool" where
  "db_contact_has_warnings env i table =
     (case Option.bind (Option.bind (map_of table i) (\<lambda>row. row_text row ''WARNINGS_JSON''))
             (parse_json env) of
        Some (JArray (_ # _)) \<Rightarrow> True
      | _ \<Rightarrow> False)"

section \<open>What is read back\<close>

lemma row_to_contact_meta:
  "contact_meta_value (row_to_contact env row) ''id'' = Some (JInt (row_id row))"
  "contact_meta_value (row_to_contact env row) ''logId'' = Some (JInt (row_log_id row))"
  by (simp_all add: row_to_contact_def Let_def contact_meta_value_def contact_meta_def build_contact_def
      bt_get_put split: option.splits json.splits list.splits)

text \<open>Identifiers are \<open>i64\<close> columns.\<close>

definition row_ok :: "int \<Rightarrow> qso_row \<Rightarrow> bool" where
  "row_ok i row \<longleftrightarrow> row_id row = i \<and> i64_min \<le> i \<and> i \<le> i64_max
     \<and> i64_min \<le> row_log_id row \<and> row_log_id row \<le> i64_max"

definition table_ok :: "qso_table \<Rightarrow> bool" where
  "table_ok table \<longleftrightarrow> bt_ok table \<and> (\<forall>i row. map_of table i = Some row \<longrightarrow> row_ok i row)"

lemma row_to_contact_ids:
  "row_ok i row \<Longrightarrow> contact_id (row_to_contact env row) = Some i
     \<and> contact_log_id (row_to_contact env row) = Some (row_log_id row)"
  by (simp add: row_ok_def contact_id_def contact_log_id_def row_to_contact_meta json_i64_value_int)

lemma row_to_contact_fields: "fields_distinct (row_to_contact env row)"
proof -
  have "contact_adif (build_contact m a) = Some (normalize_contact_adif a)" for m a
    by (simp add: contact_adif_def build_contact_def bt_get_put)
  then show ?thesis
    by (simp add: fields_distinct_def row_to_contact_def Let_def normalize_contact_adif_ok bt_ok_distinct)
qed

definition sql_json :: "sql_value \<Rightarrow> json option" where
  "sql_json v = (case v of SqlNull \<Rightarrow> None | SqlInteger n \<Rightarrow> Some (JInt n) | SqlText t \<Rightarrow> Some (JString t))"

lemma sql_json_column:
  "sql_json (sql_integer i) = map_option JInt i" "sql_json (sql_text t) = map_option JString t"
  "sql_json (SqlText u) = Some (JString u)"
  by (simp_all add: sql_json_def sql_integer_def sql_text_def split: option.split)

lemma map_of_columns:
  "column \<in> set QSO_COLUMNS \<Longrightarrow>
     map_of (contact_to_sql_values env c) column = Some (column_value env c column)"
  unfolding contact_to_sql_values_def by (simp add: map_of_map_restrict)

lemma row_column_of_contact:
  assumes "column \<in> set QSO_COLUMNS"
  shows "row_column \<lparr>row_id = i, row_values = contact_to_sql_values env c\<rparr> column =
    sql_json (column_value env c column)"
proof (cases "column \<in> set INTEGER_COLUMNS")
  case True
  then have "column \<noteq> ''JSON'' \<and> column \<noteq> ''WARNINGS_JSON''" by (auto simp: INTEGER_COLUMNS_def)
  with True assms show ?thesis
    by (auto simp: row_column_def row_integer_def map_of_columns column_value_def sql_integer_def
        sql_json_def split: option.splits)
next
  case False
  then have "column \<noteq> ''LOG_ID'' \<and> column \<noteq> ''QSO_DATE_TIME_ON'' \<and> column \<noteq> ''FREQ''"
    by (auto simp: INTEGER_COLUMNS_def)
  with False assms show ?thesis
    by (auto simp: row_column_def row_text_def map_of_columns column_value_def sql_text_def
        sql_json_def split: option.splits)
qed

lemma map_of_put_columns:
  "map_of (fold (put_column row) columns adif) k =
     (if k \<in> set columns \<and> row_column row k \<noteq> None then row_column row k else map_of adif k)"
  by (induction columns arbitrary: adif) (auto simp: put_column_def bt_get_put split: option.splits)

lemma bt_ok_put_columns: "bt_ok adif \<Longrightarrow> bt_ok (fold (put_column row) columns adif)"
  by (induction columns arbitrary: adif) (auto simp: put_column_def bt_ok_put split: option.splits)

lemma keys_put_columns: "fst ` set (fold (put_column row) columns adif) \<subseteq> fst ` set adif \<union> set columns"
  using map_of_put_columns [of row columns adif]
  by (metis (no_types, lifting) Un_iff dom_map_of_conv_image_fst domIff subsetI)

lemma map_of_find:
  "map_option snd (find (\<lambda>(key, v). key = k) xs) = map_of xs k"
  by (induction xs) auto

lemma map_of_rev: "distinct (map fst xs) \<Longrightarrow> map_of (rev xs) = map_of xs"
  by (metis distinct_rev map_of_inject_set rev_map set_rev)

lemma normalize_contact_adif_id:
  assumes "bt_ok adif" and "\<forall>k\<in>fst ` set adif. normalize_adif_field_name k = k"
  shows "map_of (normalize_contact_adif adif) k = map_of adif k"
proof -
  have "find (\<lambda>(key, v). normalize_adif_field_name key = k) (rev adif) = find (\<lambda>(key, v). key = k) (rev adif)"
    using assms(2) by (intro find_cong) auto
  then have "map_of (normalize_contact_adif adif) k = map_option snd (find (\<lambda>(key, v). key = k) (rev adif))"
    by (auto simp: normalize_contact_adif_def normalize_fold split: option.splits)
  also have "\<dots> = map_of adif k"
    by (simp add: map_of_find map_of_rev [OF bt_ok_distinct [OF assms(1)]])
  finally show ?thesis .
qed

lemma map_of_collect:
  assumes "distinct (map fst m)"
  shows "map_of (foldl (\<lambda>a (k, v). bt_put k v a) [] m) k = map_of m k"
proof -
  have "map_of (foldl (\<lambda>a (k, v). bt_put k v a) a0 m) = map_of a0 ++ map_of (rev m)" for a0
    by (induction m arbitrary: a0) (auto simp: bt_get_put map_add_def fun_eq_iff split: option.splits)
  then show ?thesis using map_of_rev [OF assms] by simp
qed

lemma map_of_filter_key:
  "map_of (filter (\<lambda>(key, v). P key) m) k = (if P k then map_of m k else None)"
  by (induction m) auto

lemma bt_ok_collect: "bt_ok (foldl (\<lambda>a (k, v). bt_put k v a) [] m)"
proof -
  have "bt_ok a0 \<Longrightarrow> bt_ok (foldl (\<lambda>a (k, v). bt_put k v a) a0 m)" for a0
    by (induction m arbitrary: a0) (auto intro: bt_ok_put)
  then show ?thesis by (simp add: bt.ok_new)
qed

lemma column_names_normal: "column \<in> set QSO_COLUMNS \<Longrightarrow> normalize_adif_field_name column = column"
proof -
  have "list_all (\<lambda>c. normalize_adif_field_name c = c) QSO_COLUMNS" by code_simp
  then show "column \<in> set QSO_COLUMNS \<Longrightarrow> normalize_adif_field_name column = column"
    by (simp add: list_all_iff)
qed

text \<open>
  C35. What is read back of a stored contact. A field with an integer column comes back as the
  integer it reads as, \<open>FREQ\<close> as its hertz, and is lost if it does not read as one; a field with a
  text column comes back as its text and is lost if it has none; every other field comes back
  unchanged, and the field \<open>ID\<close> is dropped. The column \<open>WARNINGS_JSON\<close>, the server's diagnostics,
  comes back as an ADIF field of the contact.
\<close>

theorem stored_contact_readback:
  assumes "upsert_contact env log_ids c table = Some (r, table')"
    and "contact_adif c = Some adif" and "bt_ok adif"
    and "\<forall>k\<in>fst ` set adif. normalize_adif_field_name k = k"
    and "parse_json env (extra_json c) = Some (JObject (extra_fields c))"
    and "normalize_adif_field_name k = k"
  shows "contact_adif_value r k =
      (if k = ''ID'' then None
       else if k \<notin> set QSO_COLUMNS \<or> k = ''JSON'' \<or> k = ''LOG_ID'' then contact_adif_value c k
       else if k = ''WARNINGS_JSON'' then Some (JString (contact_warnings_json c))
       else if k = ''FREQ'' then map_option JInt (frequency_hz (decimal_hz env) (contact_adif_value c k))
       else if k \<in> set INTEGER_COLUMNS then map_option JInt (json_i64 (contact_adif_value c k))
       else map_option JString (json_string (contact_adif_value c k)))
    \<and> contact_adif_value r ''WARNINGS_JSON'' = Some (JString (contact_warnings_json c))"
proof -
  obtain i row where row: "row = \<lparr>row_id = i, row_values = contact_to_sql_values env c\<rparr>"
    and r: "r = row_to_contact env row"
    using assms(1) by (auto simp: upsert_contact_def Let_def split: if_splits option.splits)
  define cols where "cols = filter (\<lambda>c. c \<noteq> ''JSON'' \<and> c \<noteq> ''LOG_ID'') QSO_COLUMNS"
  define extra where "extra = foldl (\<lambda>a (k, v). bt_put k v a) [] (extra_fields c)"
  have "''JSON'' \<in> set QSO_COLUMNS" by (simp add: QSO_COLUMNS_def)
  then have "row_text row ''JSON'' = Some (extra_json c)"
    by (simp add: row row_text_def map_of_columns column_value_def)
  then have adif_r: "contact_adif r = Some (normalize_contact_adif (fold (put_column row) cols extra))"
    by (simp add: r row_to_contact_def Let_def assms(5) contact_adif_def build_contact_def bt_get_put
        cols_def extra_def)
  have ef: "extra_fields c = filter (\<lambda>(key, _). key \<notin> set mapped_json_keys) adif"
    by (simp add: extra_fields_def assms(2))
  have dist: "distinct (map fst (extra_fields c))"
    using bt_ok_distinct [OF assms(3)] unfolding ef by (induction adif) auto
  have extra_get: "map_of extra l = (if l \<in> set mapped_json_keys then None else map_of adif l)" for l
    unfolding extra_def map_of_collect [OF dist] unfolding ef map_of_filter_key by simp
  have "fst ` set extra \<subseteq> fst ` set adif"
    using extra_get by (metis (no_types, lifting) dom_map_of_conv_image_fst domIff subsetI)
  moreover have "set cols \<subseteq> set QSO_COLUMNS" by (auto simp: cols_def)
  ultimately have "fst ` set (fold (put_column row) cols extra) \<subseteq> fst ` set adif \<union> set QSO_COLUMNS"
    using keys_put_columns [of row cols extra] by blast
  then have keys: "\<forall>l\<in>fst ` set (fold (put_column row) cols extra). normalize_adif_field_name l = l"
    using assms(4) column_names_normal by blast
  have "bt_ok extra" unfolding extra_def by (rule bt_ok_collect)
  then have id: "map_of (normalize_contact_adif (fold (put_column row) cols extra)) l =
      map_of (fold (put_column row) cols extra) l" for l
    using normalize_contact_adif_id [OF bt_ok_put_columns keys] by blast
  then have get: "contact_adif_value r l = map_of (fold (put_column row) cols extra) l"
    if "normalize_adif_field_name l = l" for l
    using id that by (simp add: contact_adif_value_def adif_r)
  have col: "row_column row l = sql_json (column_value env c l)" if "l \<in> set cols" for l
    using that row_column_of_contact by (simp add: row cols_def)
  have mapped: "l \<in> set mapped_json_keys \<longleftrightarrow> l = ''ID'' \<or> l \<in> set cols" for l
    by (auto simp: mapped_json_keys_def cols_def)
  have noid: "''ID'' \<notin> set cols" by (simp add: cols_def QSO_COLUMNS_def)
  have warn: "''WARNINGS_JSON'' \<in> set cols" by (simp add: cols_def QSO_COLUMNS_def)
  have "contact_adif_value r k =
      (if k = ''ID'' then None else if k \<in> set cols then sql_json (column_value env c k)
       else contact_adif_value c k)"
    unfolding get [OF assms(6)] map_of_put_columns extra_get
    using col [of k] mapped [of k] noid assms(2,6) by (auto simp: contact_adif_value_def)
  moreover have "normalize_adif_field_name ''WARNINGS_JSON'' = ''WARNINGS_JSON''"
    using warn column_names_normal by (simp add: cols_def)
  then have "contact_adif_value r ''WARNINGS_JSON'' = Some (JString (contact_warnings_json c))"
    unfolding get map_of_put_columns using col [OF warn] warn
    by (simp add: get map_of_put_columns column_value_def sql_json_def)
  moreover have time: "''QSO_DATE_TIME_ON'' \<in> set INTEGER_COLUMNS" by (simp add: INTEGER_COLUMNS_def)
  have "sql_json (column_value env c k) =
      (if k = ''WARNINGS_JSON'' then Some (JString (contact_warnings_json c))
       else if k = ''FREQ'' then map_option JInt (frequency_hz (decimal_hz env) (contact_adif_value c k))
       else if k \<in> set INTEGER_COLUMNS then map_option JInt (json_i64 (contact_adif_value c k))
       else map_option JString (json_string (contact_adif_value c k)))" if "k \<noteq> ''JSON''" "k \<noteq> ''LOG_ID''"
    using that unfolding column_value_def by (simp add: sql_json_column time)
  ultimately show ?thesis by (simp add: cols_def)
qed

definition sample_env :: sql_env where
  "sample_env = \<lparr>
     parse_json = (\<lambda>t. if t = json_text (JObject [(''COMMENT'', JString ''hi'')])
                      then Some (JObject [(''COMMENT'', JString ''hi'')])
                      else if t = ''[]'' then Some (JArray []) else None),
     decimal_hz = (\<lambda>_. None),
     fresh_row_id = (\<lambda>table. if table = [] then Some 1 else None)\<rparr>"

definition full_contact :: contact where
  "full_contact = build_contact [(''id'', JInt 4), (''logId'', JInt 1)]
     [(''BAND'', JString ''20m''), (''CALL'', JString ''DL1A''), (''COMMENT'', JString ''hi''),
      (''CONTEST_ID'', JString ''T''), (''FREQ'', JInt 14074000), (''MODE'', JString ''CW''),
      (''QSO_DATE_TIME_ON'', JInt 1000), (''STATION_CALLSIGN'', JString ''W1AW''), (''STX'', JString ''7'')]"

theorem stored_contact_readback_witness:
  "\<exists>r table. upsert_contact sample_env [1] full_contact [] = Some (r, table)
     \<and> contact_adif_value r ''COMMENT'' = Some (JString ''hi'')
     \<and> contact_adif_value r ''WARNINGS_JSON'' = Some (JString ''[]'')"
proof -
  have "upsert_contact sample_env [1] full_contact [] \<noteq> None" by code_simp
  then obtain r table where u: "upsert_contact sample_env [1] full_contact [] = Some (r, table)" by auto
  obtain adif where adif: "contact_adif full_contact = Some adif" "bt_ok adif"
    "\<forall>k\<in>fst ` set adif. normalize_adif_field_name k = k"
  proof -
    let ?a = "the (contact_adif full_contact)"
    have "contact_adif full_contact = Some ?a" and "bt_ok ?a"
      and "list_all (\<lambda>k. normalize_adif_field_name k = k) (map fst ?a)"
      by (code_simp, code_simp, code_simp)
    then show thesis by (intro that) (auto simp: list_all_iff)
  qed
  have p: "parse_json sample_env (extra_json full_contact) = Some (JObject (extra_fields full_contact))"
    by code_simp
  have n: "normalize_adif_field_name ''COMMENT'' = ''COMMENT''"
    and v: "contact_adif_value full_contact ''COMMENT'' = Some (JString ''hi'')"
    and w: "contact_warnings_json full_contact = ''[]''"
    and c: "''COMMENT'' \<notin> set QSO_COLUMNS"
    by (code_simp, code_simp, code_simp, code_simp)
  from stored_contact_readback [OF u adif p n] u v w c show ?thesis by auto
qed

end
