(* ===== verification/DbWorker.thy ===== *)
theory DbWorker
  imports ContactRow
begin

text \<open>
  \<open>DatabaseCache\<close> of \<open>backend/src/db/cache.rs\<close> and the single database worker of
  \<open>backend/src/db/worker.rs\<close>, with \<open>logs.rs\<close> and \<open>serials.rs\<close>. The worker executes one command at a
  time: it runs the statements and publishes the result in the cache every reader uses. The state
  is the pair of SQLite's tables and that cache. Configuration and radios, which no other modelled
  part reads, are left out of the cache, as are metrics and the channel.

  A failing statement is \<open>Failed\<close>; an \<open>expect\<close> on a missing value or on the overflow of the revision
  counter, a \<open>u64\<close>, and a \<open>usize\<close> underflow are \<open>Panicked\<close>: the tables are then as committed and the
  cache as it was written up to the panic. The invariant \<open>coherent\<close> says that the cache is exactly the contents of the tables.
\<close>

section \<open>State\<close>

record log =
  lg_id :: int
  lg_name :: string
  lg_contest_id :: string
  lg_station_callsign :: string
  lg_contest_params :: json

record cached_log_entry =
  entry_log :: log
  entry_revision :: nat

record database_cache =
  dc_logs :: "(int, cached_log_entry) hmap"
  dc_owners :: "(int, int) hmap"
  dc_counts :: "(int, nat) hmap"
  dc_contacts :: "(int, cached_contacts) hmap"
  dc_next_serial :: "(int \<times> string, int) hmap"
  next_revision :: nat

record tables =
  t_logs :: "(int \<times> log) list"
  t_qsos :: qso_table
  t_serials :: "((int \<times> string) \<times> int) list"

record worker_env =
  env_sql :: sql_env
  fresh_log_id :: "(int \<times> log) list \<Rightarrow> int option"

datatype 'a outcome = Done 'a | Failed | Panicked

record log_snapshot =
  snap_log :: log
  snap_revision :: nat
  snap_contacts :: cached_contacts

record contact_mutation =
  mut_previous_revision :: nat
  mut_revision :: nat
  mut_contacts :: "contact list"

record contact_deletion =
  del_log_id :: int
  del_previous_revision :: nat
  del_revision :: nat

section \<open>The cache\<close>

text \<open>
  \<open>None\<close> is the panic \<open>cache revision overflow\<close>, before anything is written. \<open>publish_log\<close> has
  entered the log by then: its flag says whether it went on.
\<close>

definition bump_revision :: "int \<Rightarrow> database_cache \<Rightarrow> (nat \<times> database_cache) option" where
  "bump_revision l cache =
     (if next_revision cache \<ge> u64_max then None
      else
        let r = next_revision cache + 1;
            cache = cache\<lparr>next_revision := r\<rparr>
        in Some (r,
            (case hm_get (dc_logs cache) l of
               Some entry \<Rightarrow> cache\<lparr>dc_logs := hm_put l (entry\<lparr>entry_revision := r\<rparr>) (dc_logs cache)\<rparr>
             | None \<Rightarrow> cache)))"

definition publish_log :: "log \<Rightarrow> bool \<Rightarrow> database_cache \<Rightarrow> bool \<times> database_cache" where
  "publish_log lg new_log cache =
     (let l = lg_id lg;
          entry = (case hm_get (dc_logs cache) l of
                     Some entry \<Rightarrow> entry\<lparr>entry_log := lg\<rparr>
                   | None \<Rightarrow> \<lparr>entry_log = lg, entry_revision = 0\<rparr>);
          cache = cache\<lparr>dc_logs := hm_put l entry (dc_logs cache)\<rparr>
      in (case bump_revision l cache of
            None \<Rightarrow> (False, cache)
          | Some (_, cache) \<Rightarrow>
              (True,
               if new_log
               then cache\<lparr>dc_counts := hm_put l 0 (dc_counts cache),
                          dc_contacts := hm_put l empty_contacts (dc_contacts cache)\<rparr>
               else cache)))"

definition uncache_log :: "int \<Rightarrow> database_cache \<Rightarrow> database_cache" where
  "uncache_log l cache =
     cache\<lparr>dc_logs := hm_remove l (dc_logs cache),
           dc_contacts := hm_remove l (dc_contacts cache),
           dc_counts := hm_remove l (dc_counts cache),
           dc_owners := hm_retain (\<lambda>_ owner. owner \<noteq> l) (dc_owners cache),
           dc_next_serial := hm_retain (\<lambda>(owner, _) _. owner \<noteq> l) (dc_next_serial cache)\<rparr>"

definition snapshot :: "int \<Rightarrow> database_cache \<Rightarrow> log_snapshot option" where
  "snapshot l cache =
     (case hm_get (dc_logs cache) l of
        None \<Rightarrow> None
      | Some entry \<Rightarrow>
          map_option (\<lambda>cc. \<lparr>snap_log = entry_log entry, snap_revision = entry_revision entry,
                           snap_contacts = cc\<rparr>) (hm_get (dc_contacts cache) l))"

definition log_revision :: "int \<Rightarrow> database_cache \<Rightarrow> nat option" where
  "log_revision l cache = map_option entry_revision (hm_get (dc_logs cache) l)"

definition incr_count :: "int \<Rightarrow> (int, nat) hmap \<Rightarrow> (int, nat) hmap" where
  "incr_count l counts = hm_put l ((case hm_get counts l of Some n \<Rightarrow> n | None \<Rightarrow> 0) + 1) counts"

definition load_serial ::
  "(int \<times> string) \<times> int \<Rightarrow> (int \<times> string, int) hmap \<Rightarrow> (int \<times> string, int) hmap" where
  "load_serial row m =
     (case row of ((l, field), nxt) \<Rightarrow>
        let key = (l, to_upper (trim field));
            old = (case hm_get m key of Some n \<Rightarrow> n | None \<Rightarrow> 0)
        in hm_put key (max old nxt) m)"

fun publish_logs :: "log list \<Rightarrow> database_cache \<Rightarrow> database_cache option" where
  "publish_logs [] cache = Some cache"
| "publish_logs (lg # lgs) cache =
     (case publish_log lg False cache of (ok, cache) \<Rightarrow> if ok then publish_logs lgs cache else None)"

text \<open>\<open>db_logs\<close> reads the logs in the order of their names and ids.\<close>

definition db_logs :: "tables \<Rightarrow> (int \<times> log) list" where
  "db_logs t = sort_key (\<lambda>(i, lg). (lg_name lg, i)) (t_logs t)"

definition empty_cache :: database_cache where
  "empty_cache = \<lparr>dc_logs = [], dc_owners = [], dc_counts = [], dc_contacts = [], dc_next_serial = [],
                 next_revision = 0\<rparr>"

definition load_cache :: "tables \<Rightarrow> database_cache option" where
  "load_cache t =
     (case publish_logs (map snd (db_logs t)) empty_cache of
        None \<Rightarrow> None
      | Some cache \<Rightarrow>
          let cache = fold (\<lambda>(i, row) c. c\<lparr>dc_owners := hm_put i (row_log_id row) (dc_owners c),
                                          dc_counts := incr_count (row_log_id row) (dc_counts c)\<rparr>)
                        (t_qsos t) cache;
              cache = fold (\<lambda>(l, _) c. if (case hm_get (dc_counts c) l of Some n \<Rightarrow> n | None \<Rightarrow> 0) = 0
                                         then c\<lparr>dc_contacts := hm_put l empty_contacts (dc_contacts c)\<rparr> else c)
                        (dc_logs cache) cache
          in Some (cache\<lparr>dc_next_serial := fold load_serial (t_serials t) []\<rparr>))"

section \<open>Statements on logs and serials\<close>

text \<open>
  A log is stored with trimmed texts and its parameters as JSON text; what is read back of the
  parameters is the parse of that text, or an empty object.
\<close>

definition stored_params :: "worker_env \<Rightarrow> json \<Rightarrow> json" where
  "stored_params env params =
     (case parse_json (env_sql env) (json_text params) of Some v \<Rightarrow> v | None \<Rightarrow> JObject [])"

definition db_create_log :: "worker_env \<Rightarrow> string \<Rightarrow> string \<Rightarrow> string \<Rightarrow> json \<Rightarrow> tables \<Rightarrow> (log \<times> tables) option" where
  "db_create_log env name contest_id station params t =
     map_option (\<lambda>l.
      let lg = \<lparr>lg_id = l, lg_name = trim name, lg_contest_id = trim contest_id,
                lg_station_callsign = to_upper (trim station), lg_contest_params = stored_params env params\<rparr>
      in (lg, t\<lparr>t_logs := bt_put l lg (t_logs t)\<rparr>)) (fresh_log_id env (t_logs t))"

definition db_update_log :: "worker_env \<Rightarrow> int \<Rightarrow> string \<Rightarrow> string \<Rightarrow> json \<Rightarrow> tables \<Rightarrow> log option \<times> tables" where
  "db_update_log env l name station params t =
     (case map_of (t_logs t) l of
        None \<Rightarrow> (None, t)
      | Some old \<Rightarrow>
          let lg = old\<lparr>lg_name := trim name, lg_station_callsign := to_upper (trim station),
                       lg_contest_params := stored_params env params\<rparr>
          in (Some lg, t\<lparr>t_logs := bt_put l lg (t_logs t)\<rparr>))"

text \<open>\<open>foreign_keys\<close> is on: deleting a log deletes its rows in the other tables.\<close>

definition db_delete_log :: "int \<Rightarrow> tables \<Rightarrow> bool \<times> tables" where
  "db_delete_log l t =
     (if map_of (t_logs t) l = None then (False, t)
      else (True, t\<lparr>t_logs := bt_remove l (t_logs t),
                    t_qsos := filter (\<lambda>(_, row). row_log_id row \<noteq> l) (t_qsos t),
                    t_serials := filter (\<lambda>((owner, _), _). owner \<noteq> l) (t_serials t)\<rparr>))"

definition db_allocate_serial :: "int \<Rightarrow> string \<Rightarrow> int \<Rightarrow> tables \<Rightarrow> tables option" where
  "db_allocate_serial l field serial t =
     (case checked_i64 (serial + 1) of
        None \<Rightarrow> None
      | Some nxt \<Rightarrow>
          if map_of (t_logs t) l = None \<or> nxt \<le> 0 then None
          else Some (t\<lparr>t_serials := bt_put (l, field) nxt (t_serials t)\<rparr>))"

section \<open>Commands\<close>

definition load_contacts :: "worker_env \<Rightarrow> int \<Rightarrow> tables \<Rightarrow> database_cache \<Rightarrow> database_cache outcome" where
  "load_contacts env l t cache =
     (if hm_get (dc_logs cache) l = None \<or> hm_get (dc_contacts cache) l \<noteq> None then Done cache
      else (case new_cached (db_contacts (env_sql env) l (t_qsos t)) of
        None \<Rightarrow> Panicked
      | Some cc \<Rightarrow> Done (cache\<lparr>dc_contacts := hm_put l cc (dc_contacts cache)\<rparr>)))"

definition foreign_owner :: "int \<Rightarrow> database_cache \<Rightarrow> contact \<Rightarrow> bool" where
  "foreign_owner l cache contact =
     (case Option.bind (contact_id contact) (hm_get (dc_owners cache)) of
        Some owner \<Rightarrow> owner \<noteq> l | None \<Rightarrow> False)"

definition publish_contact :: "int \<Rightarrow> contact \<Rightarrow> database_cache \<Rightarrow> database_cache option" where
  "publish_contact l contact cache =
     (case (contact_id contact, hm_get (dc_contacts cache) l) of
        (Some i, Some cc) \<Rightarrow>
          (case upsert_cached contact cc of
             None \<Rightarrow> None
           | Some cc \<Rightarrow>
               Some (cache\<lparr>dc_owners := hm_put i l (dc_owners cache),
                           dc_counts := (if hm_get (dc_owners cache) i = None
                                         then incr_count l (dc_counts cache) else dc_counts cache),
                           dc_contacts := hm_put l cc (dc_contacts cache)\<rparr>))
      | _ \<Rightarrow> None)"

fun publish_contacts :: "int \<Rightarrow> contact list \<Rightarrow> database_cache \<Rightarrow> database_cache option" where
  "publish_contacts l [] cache = Some cache"
| "publish_contacts l (c # cs) cache = Option.bind (publish_contact l c cache) (publish_contacts l cs)"

definition write_contacts ::
  "worker_env \<Rightarrow> int \<Rightarrow> contact list \<Rightarrow> tables \<Rightarrow> database_cache
     \<Rightarrow> contact_mutation outcome \<times> tables \<times> database_cache" where
  "write_contacts env l contacts t cache =
     (case load_contacts env l t cache of
        Failed \<Rightarrow> (Failed, t, cache)
      | Panicked \<Rightarrow> (Panicked, t, cache)
      | Done cache \<Rightarrow>
          (case hm_get (dc_logs cache) l of
             None \<Rightarrow> (Failed, t, cache)
           | Some entry \<Rightarrow>
               if list_ex (foreign_owner l cache) contacts then (Failed, t, cache)
               else (case db_upsert_contacts (env_sql env) (map fst (t_logs t)) l
                           (lg_contest_id (entry_log entry)) contacts (t_qsos t) of
                 None \<Rightarrow> (Failed, t, cache)
               | Some (committed, table) \<Rightarrow>
                   let t = t\<lparr>t_qsos := table\<rparr>
                   in (case publish_contacts l committed cache of
                         None \<Rightarrow> (Panicked, t, cache)
                       | Some cache \<Rightarrow>
                           (case bump_revision l cache of
                              None \<Rightarrow> (Panicked, t, cache)
                            | Some (r, cache) \<Rightarrow>
                                (Done \<lparr>mut_previous_revision = entry_revision entry, mut_revision = r,
                                      mut_contacts = committed\<rparr>, t, cache))))))"

definition next_serial_value :: "int \<Rightarrow> string \<Rightarrow> database_cache \<Rightarrow> int outcome" where
  "next_serial_value l field cache =
     (case hm_get (dc_contacts cache) l of
        None \<Rightarrow> Failed
      | Some cc \<Rightarrow>
          (case (case serial_max cc field None of
                   Some v \<Rightarrow> checked_i64 (v + 1)
                 | None \<Rightarrow> Some 1) of
             None \<Rightarrow> Failed
           | Some committed_next \<Rightarrow>
               Done (max (max (case hm_get (dc_next_serial cache) (l, field) of Some n \<Rightarrow> n | None \<Rightarrow> 1)
                              committed_next) 1)))"

text \<open>The allocation carries the requested spelling of the field, which no reader compares.\<close>

definition reserve_serial ::
  "worker_env \<Rightarrow> int \<Rightarrow> string \<Rightarrow> tables \<Rightarrow> database_cache \<Rightarrow> int outcome \<times> tables \<times> database_cache" where
  "reserve_serial env l field_adif t cache =
     (let field = to_upper (trim field_adif)
      in if l \<le> 0 \<or> field = [] then (Failed, t, cache)
         else (case load_contacts env l t cache of
           Failed \<Rightarrow> (Failed, t, cache)
         | Panicked \<Rightarrow> (Panicked, t, cache)
         | Done cache \<Rightarrow>
             (case next_serial_value l field cache of
                Failed \<Rightarrow> (Failed, t, cache)
              | Panicked \<Rightarrow> (Panicked, t, cache)
              | Done serial \<Rightarrow>
                  (case db_allocate_serial l field serial t of
                     None \<Rightarrow> (Failed, t, cache)
                   | Some t \<Rightarrow>
                       (Done serial, t,
                        cache\<lparr>dc_next_serial := hm_put (l, field) (serial + 1) (dc_next_serial cache)\<rparr>)))))"

definition remove_contact ::
  "int \<Rightarrow> tables \<Rightarrow> database_cache \<Rightarrow> contact_deletion option outcome \<times> tables \<times> database_cache" where
  "remove_contact i t cache =
     (case db_delete_contact i (t_qsos t) of
        (None, _) \<Rightarrow> (Done None, t, cache)
      | (Some l, table) \<Rightarrow>
          let t = t\<lparr>t_qsos := table\<rparr>
          in (case (hm_get (dc_logs cache) l, hm_get (dc_counts cache) l) of
                (Some entry, Some (Suc n)) \<Rightarrow>
                  let cache = cache\<lparr>dc_owners := hm_remove i (dc_owners cache),
                                    dc_counts := hm_put l n (dc_counts cache),
                                    dc_contacts :=
                                      (case hm_get (dc_contacts cache) l of
                                         Some cc \<Rightarrow> hm_put l (remove_cached i cc) (dc_contacts cache)
                                       | None \<Rightarrow> dc_contacts cache)\<rparr>
                  in (case bump_revision l cache of
                        None \<Rightarrow> (Panicked, t, cache)
                      | Some (r, cache) \<Rightarrow>
                          (Done (Some \<lparr>del_log_id = l, del_previous_revision = entry_revision entry,
                                      del_revision = r\<rparr>), t, cache))
              | _ \<Rightarrow> (Panicked, t, cache)))"

datatype db_command =
    CreateLog string string string json
  | UpdateLog int string string json
  | DeleteLog int
  | LoadContacts int
  | UpsertContacts int "contact list"
  | AllocateSerial int string
  | DeleteContact int

datatype db_reply =
    LogReply "log option"
  | DeletedReply bool
  | LoadedReply
  | MutationReply contact_mutation
  | SerialReply int
  | DeletionReply "contact_deletion option"
  | FailedReply
  | PanicReply

definition reply_of :: "('a \<Rightarrow> db_reply) \<Rightarrow> 'a outcome \<Rightarrow> db_reply" where
  "reply_of f result = (case result of Done x \<Rightarrow> f x | Failed \<Rightarrow> FailedReply | Panicked \<Rightarrow> PanicReply)"

fun run_command ::
  "worker_env \<Rightarrow> db_command \<Rightarrow> tables \<times> database_cache \<Rightarrow> db_reply \<times> tables \<times> database_cache" where
  "run_command env (CreateLog name contest_id station params) (t, cache) =
     (case db_create_log env name contest_id station params t of
        None \<Rightarrow> (FailedReply, t, cache)
      | Some (lg, t) \<Rightarrow>
          (case publish_log lg True cache of (ok, cache) \<Rightarrow>
             (if ok then LogReply (Some lg) else PanicReply, t, cache)))"
| "run_command env (UpdateLog l name station params) (t, cache) =
     (case db_update_log env l name station params t of
        (None, t) \<Rightarrow> (LogReply None, t, cache)
      | (Some lg, t) \<Rightarrow>
          (case publish_log lg False cache of (ok, cache) \<Rightarrow>
             (if ok then LogReply (Some lg) else PanicReply, t, cache)))"
| "run_command env (DeleteLog l) (t, cache) =
     (let (deleted, t) = db_delete_log l t
      in (DeletedReply deleted, t, if deleted then uncache_log l cache else cache))"
| "run_command env (LoadContacts l) (t, cache) =
     (case load_contacts env l t cache of
        Done cache \<Rightarrow> (LoadedReply, t, cache)
      | Failed \<Rightarrow> (FailedReply, t, cache)
      | Panicked \<Rightarrow> (PanicReply, t, cache))"
| "run_command env (UpsertContacts l contacts) (t, cache) =
     (case write_contacts env l contacts t cache of (r, t, cache) \<Rightarrow> (reply_of MutationReply r, t, cache))"
| "run_command env (AllocateSerial l field) (t, cache) =
     (case reserve_serial env l field t cache of (r, t, cache) \<Rightarrow> (reply_of SerialReply r, t, cache))"
| "run_command env (DeleteContact i) (t, cache) =
     (case remove_contact i t cache of (r, t, cache) \<Rightarrow> (reply_of DeletionReply r, t, cache))"

end
