(* ===== verification/DbCoherence.thy ===== *)
theory DbCoherence
  imports DbWorker
begin

text \<open>
  The invariant of the database worker: after any sequence of commands the cache is exactly the
  contents of SQLite's tables and no command panics; allocated serials are above every logged
  serial and strictly increase.
\<close>

section \<open>The invariant\<close>

definition in_i64 :: "int \<Rightarrow> bool" where
  "in_i64 i \<longleftrightarrow> i64_min \<le> i \<and> i \<le> i64_max"

text \<open>What SQLite documents of the row ids it assigns.\<close>

definition env_ok :: "worker_env \<Rightarrow> bool" where
  "env_ok env \<longleftrightarrow>
     (\<forall>T i. fresh_row_id (env_sql env) T = Some i \<longrightarrow> map_of T i = None \<and> in_i64 i)
     \<and> (\<forall>T l. fresh_log_id env T = Some l \<longrightarrow> map_of T l = None \<and> in_i64 l)"

definition tables_ok :: "tables \<Rightarrow> bool" where
  "tables_ok t \<longleftrightarrow>
     bt_ok (t_logs t) \<and> (\<forall>l lg. map_of (t_logs t) l = Some lg \<longrightarrow> lg_id lg = l \<and> in_i64 l)
     \<and> table_ok (t_qsos t)
     \<and> (\<forall>i row. map_of (t_qsos t) i = Some row \<longrightarrow> map_of (t_logs t) (row_log_id row) \<noteq> None)
     \<and> bt_ok (t_serials t)
     \<and> (\<forall>l f n. map_of (t_serials t) (l, f) = Some n \<longrightarrow> to_upper (trim f) = f \<and> 0 < n)"

definition log_rows :: "sql_env \<Rightarrow> int \<Rightarrow> qso_table \<Rightarrow> int \<Rightarrow> contact option" where
  "log_rows env l table i =
     (case map_of table i of
        Some row \<Rightarrow> if row_log_id row = l then Some (row_to_contact env row) else None
      | None \<Rightarrow> None)"

definition row_count :: "qso_table \<Rightarrow> int \<Rightarrow> nat" where
  "row_count table l = card {i. \<exists>row. map_of table i = Some row \<and> row_log_id row = l}"

definition cached_count :: "database_cache \<Rightarrow> int \<Rightarrow> nat" where
  "cached_count cache l = (case hm_get (dc_counts cache) l of Some n \<Rightarrow> n | None \<Rightarrow> 0)"

definition logs_coherent :: "tables \<Rightarrow> database_cache \<Rightarrow> bool" where
  "logs_coherent t cache \<longleftrightarrow>
     (\<forall>l. map_option entry_log (hm_get (dc_logs cache) l) = map_of (t_logs t) l)
     \<and> (\<forall>l e. hm_get (dc_logs cache) l = Some e \<longrightarrow> entry_revision e \<le> next_revision cache)"

definition rows_coherent :: "sql_env \<Rightarrow> qso_table \<Rightarrow> database_cache \<Rightarrow> bool" where
  "rows_coherent env table cache \<longleftrightarrow>
     hm_ok (dc_owners cache)
     \<and> (\<forall>i. hm_get (dc_owners cache) i = map_option row_log_id (map_of table i))
     \<and> (\<forall>l. cached_count cache l = row_count table l)
     \<and> (\<forall>l cc. hm_get (dc_contacts cache) l = Some cc \<longrightarrow>
          contacts_ok cc \<and> cached_contact cc = log_rows env l table)"

definition serials_coherent :: "tables \<Rightarrow> database_cache \<Rightarrow> bool" where
  "serials_coherent t cache \<longleftrightarrow>
     hm_ok (dc_next_serial cache)
     \<and> (\<forall>k. hm_get (dc_next_serial cache) k = map_of (t_serials t) k)"

definition coherent :: "worker_env \<Rightarrow> tables \<times> database_cache \<Rightarrow> bool" where
  "coherent env s \<longleftrightarrow>
     tables_ok (fst s) \<and> logs_coherent (fst s) (snd s)
     \<and> rows_coherent (env_sql env) (t_qsos (fst s)) (snd s)
     \<and> serials_coherent (fst s) (snd s)
     \<and> (\<forall>l. hm_get (dc_contacts (snd s)) l \<noteq> None \<longrightarrow> map_of (t_logs (fst s)) l \<noteq> None)"

section \<open>Counting rows\<close>

lemma finite_rows: "finite {i. \<exists>row. map_of table i = Some row \<and> row_log_id row = l}"
  by (rule finite_subset [OF _ finite_dom_map_of [of table]]) auto

lemma row_count_put_new:
  assumes "map_of table i = None"
  shows "row_count (bt_put i row table) l = row_count table l + (if row_log_id row = l then 1 else 0)"
proof -
  have "{j. \<exists>r. map_of (bt_put i row table) j = Some r \<and> row_log_id r = l} =
      (if row_log_id row = l then insert i else id) {j. \<exists>r. map_of table j = Some r \<and> row_log_id r = l}"
    using assms by (auto simp: bt_get_put)
  moreover have "i \<notin> {j. \<exists>r. map_of table j = Some r \<and> row_log_id r = l}" using assms by simp
  ultimately show ?thesis using finite_rows [of table l] by (simp add: row_count_def)
qed

lemma row_count_put_same:
  assumes "map_of table i = Some old" and "row_log_id old = row_log_id row"
  shows "row_count (bt_put i row table) l = row_count table l"
proof -
  have "{j. \<exists>r. map_of (bt_put i row table) j = Some r \<and> row_log_id r = l} =
      {j. \<exists>r. map_of table j = Some r \<and> row_log_id r = l}"
    using assms by (auto simp: bt_get_put)
  then show ?thesis by (simp add: row_count_def)
qed

lemma row_count_remove:
  assumes "map_of table i = Some old"
  shows "row_count table l = row_count (bt_remove i table) l + (if row_log_id old = l then 1 else 0)"
proof -
  have eq: "{j. \<exists>r. map_of table j = Some r \<and> row_log_id r = l} =
      (if row_log_id old = l then insert i else id)
        {j. \<exists>r. map_of (bt_remove i table) j = Some r \<and> row_log_id r = l}"
    using assms by (auto simp: bt_get_remove)
  have "i \<notin> {j. \<exists>r. map_of (bt_remove i table) j = Some r \<and> row_log_id r = l}"
    by (simp add: bt_get_remove)
  then show ?thesis
    using finite_rows [of "bt_remove i table" l] unfolding row_count_def eq by simp
qed

lemma row_count_zero: "row_count table l = 0 \<longleftrightarrow> (\<forall>i row. map_of table i = Some row \<longrightarrow> row_log_id row \<noteq> l)"
  using finite_rows [of table l] by (auto simp: row_count_def)

section \<open>Logs\<close>

lemma bump_revision_none: "bump_revision l cache = None \<longleftrightarrow> u64_max \<le> next_revision cache"
  by (simp add: bump_revision_def Let_def)

lemma bump_revision_facts:
  assumes "bump_revision l cache = Some (r, cache')"
  shows "r = next_revision cache + 1" and "next_revision cache' = r"
    and "dc_owners cache' = dc_owners cache" and "dc_counts cache' = dc_counts cache"
    and "dc_contacts cache' = dc_contacts cache" and "dc_next_serial cache' = dc_next_serial cache"
    and "hm_get (dc_logs cache') k =
      (case hm_get (dc_logs cache) k of
         Some e \<Rightarrow> Some (if k = l then e\<lparr>entry_revision := r\<rparr> else e) | None \<Rightarrow> None)"
  using assms
  by (auto simp: bump_revision_def Let_def hm_get_put split: option.splits if_splits)

lemma bump_revision_coherent:
  assumes "bump_revision l cache = Some (r, cache')"
  shows "logs_coherent t cache \<Longrightarrow> logs_coherent t cache'"
    and "rows_coherent env table cache' = rows_coherent env table cache"
    and "serials_coherent t cache' = serials_coherent t cache"
proof -
  note b = bump_revision_facts [OF assms]
  show "rows_coherent env table cache' = rows_coherent env table cache"
    by (simp add: rows_coherent_def cached_count_def b)
  show "serials_coherent t cache' = serials_coherent t cache"
    by (simp add: serials_coherent_def b)
  assume log: "logs_coherent t cache"
  have "map_option entry_log (hm_get (dc_logs cache') k) = map_option entry_log (hm_get (dc_logs cache) k)" for k
    by (auto simp: b(7) split: option.splits)
  moreover have "entry_revision e \<le> next_revision cache'" if e: "hm_get (dc_logs cache') k = Some e" for k e
  proof -
    obtain e0 where "hm_get (dc_logs cache) k = Some e0" "e = (if k = l then e0\<lparr>entry_revision := r\<rparr> else e0)"
      using e unfolding b(7) by (cases "hm_get (dc_logs cache) k") simp_all
    with log b(1,2) show ?thesis by (fastforce simp: logs_coherent_def split: if_splits)
  qed
  ultimately show "logs_coherent t cache'" using log by (simp add: logs_coherent_def)
qed

lemma publish_log_all:
  fixes lg :: log and cache :: database_cache and new_log :: bool
  defines "ok \<equiv> fst (publish_log lg new_log cache)" and "c \<equiv> snd (publish_log lg new_log cache)"
  assumes "\<forall>l e. hm_get (dc_logs cache) l = Some e \<longrightarrow> entry_revision e \<le> next_revision cache"
  shows "(\<forall>l. map_option entry_log (hm_get (dc_logs c) l) =
      (if l = lg_id lg then Some lg else map_option entry_log (hm_get (dc_logs cache) l)))
    \<and> (\<forall>l e. hm_get (dc_logs c) l = Some e \<longrightarrow> entry_revision e \<le> next_revision c)
    \<and> dc_owners c = dc_owners cache \<and> dc_next_serial c = dc_next_serial cache
    \<and> dc_counts c = (if new_log \<and> ok then hm_put (lg_id lg) 0 (dc_counts cache) else dc_counts cache)
    \<and> dc_contacts c = (if new_log \<and> ok then hm_put (lg_id lg) empty_contacts (dc_contacts cache) else dc_contacts cache)
    \<and> (ok \<longleftrightarrow> next_revision cache < u64_max)
    \<and> next_revision c = next_revision cache + (if ok then 1 else 0)"
proof -
  define entry where "entry = (case hm_get (dc_logs cache) (lg_id lg) of
      Some entry \<Rightarrow> entry\<lparr>entry_log := lg\<rparr> | None \<Rightarrow> \<lparr>entry_log = lg, entry_revision = 0\<rparr>)"
  define c0 where "c0 = cache\<lparr>dc_logs := hm_put (lg_id lg) entry (dc_logs cache)\<rparr>"
  have el: "entry_log entry = lg" by (simp add: entry_def split: option.splits)
  have old: "entry_revision entry \<le> next_revision cache"
    using assms(3) by (auto simp: entry_def split: option.splits)
  show ?thesis
  proof (cases "bump_revision (lg_id lg) c0")
    case None
    then have "publish_log lg new_log cache = (False, c0)"
      by (simp add: publish_log_def Let_def entry_def c0_def)
    moreover have "u64_max \<le> next_revision cache" using None by (simp add: bump_revision_none c0_def)
    ultimately show ?thesis
      using assms(3) old by (auto simp: ok_def c_def c0_def hm_get_put el)
  next
    case (Some rc)
    obtain r c1 where b: "bump_revision (lg_id lg) c0 = Some (r, c1)" using Some by (metis prod.collapse)
    note f = bump_revision_facts [OF b]
    have p: "publish_log lg new_log cache = (True, if new_log then c1\<lparr>dc_counts := hm_put (lg_id lg) 0 (dc_counts c1),
        dc_contacts := hm_put (lg_id lg) empty_contacts (dc_contacts c1)\<rparr> else c1)"
      using b by (simp add: publish_log_def Let_def entry_def c0_def)
    have lt: "next_revision cache < u64_max"
      using b by (simp add: bump_revision_def Let_def c0_def split: if_splits)
    have logs: "hm_get (dc_logs c) l =
        (if l = lg_id lg then Some (entry\<lparr>entry_revision := r\<rparr>) else hm_get (dc_logs cache) l)" for l
      by (auto simp: c_def p f(7) c0_def hm_get_put split: option.splits)
    have nr: "next_revision c = r" "r = next_revision cache + 1"
      using f(1,2) by (simp_all add: c_def p c0_def)
    have rest: "ok" "dc_owners c = dc_owners cache" "dc_next_serial c = dc_next_serial cache"
      "dc_counts c = (if new_log then hm_put (lg_id lg) 0 (dc_counts cache) else dc_counts cache)"
      "dc_contacts c = (if new_log then hm_put (lg_id lg) empty_contacts (dc_contacts cache) else dc_contacts cache)"
      by (simp_all add: ok_def c_def p f c0_def)
    show ?thesis
      using assms(3) lt rest by (auto simp: logs nr le_SucI el)
  qed
qed

lemma publish_log_facts:
  fixes lg :: log and cache :: database_cache and new_log :: bool
  defines "ok \<equiv> fst (publish_log lg new_log cache)" and "c \<equiv> snd (publish_log lg new_log cache)"
  assumes "\<forall>l e. hm_get (dc_logs cache) l = Some e \<longrightarrow> entry_revision e \<le> next_revision cache"
  shows "map_option entry_log (hm_get (dc_logs c) l) =
      (if l = lg_id lg then Some lg else map_option entry_log (hm_get (dc_logs cache) l))"
    and "\<forall>l e. hm_get (dc_logs c) l = Some e \<longrightarrow> entry_revision e \<le> next_revision c"
    and "dc_owners c = dc_owners cache" and "dc_next_serial c = dc_next_serial cache"
    and "dc_counts c = (if new_log \<and> ok then hm_put (lg_id lg) 0 (dc_counts cache) else dc_counts cache)"
    and "dc_contacts c = (if new_log \<and> ok then hm_put (lg_id lg) empty_contacts (dc_contacts cache) else dc_contacts cache)"
    and "ok \<longleftrightarrow> next_revision cache < u64_max"
    and "next_revision c = next_revision cache + (if ok then 1 else 0)"
  using publish_log_all [OF assms(3), of lg new_log] unfolding ok_def c_def by blast+

lemma empty_contact [simp]: "cached_contact empty_contacts = (\<lambda>_. None)"
  by (simp add: cached_contact_def empty_contacts_def fun_eq_iff)

lemma create_log_coherent:
  assumes "env_ok env" and "coherent env (t, cache)"
    and "db_create_log env name contest station params t = Some (lg, t')"
  shows "coherent env (t', snd (publish_log lg True cache))"
proof -
  obtain l where l: "fresh_log_id env (t_logs t) = Some l" and lg: "lg_id lg = l"
    and t': "t' = t\<lparr>t_logs := bt_put l lg (t_logs t)\<rparr>"
    using assms(3) by (auto simp: db_create_log_def Let_def)
  have fresh: "map_of (t_logs t) l = None" "in_i64 l" using assms(1) l by (auto simp: env_ok_def)
  have rev: "\<forall>l e. hm_get (dc_logs cache) l = Some e \<longrightarrow> entry_revision e \<le> next_revision cache"
    using assms(2) by (simp add: coherent_def logs_coherent_def)
  note p = publish_log_facts [OF rev, of lg True]
  have away: "row_log_id row \<noteq> l" if "map_of (t_qsos t) i = Some row" for i row
    using assms(2) fresh(1) that unfolding coherent_def tables_ok_def fst_conv by metis
  then have none: "log_rows (env_sql env) l (t_qsos t) = (\<lambda>_. None)" and zero: "row_count (t_qsos t) l = 0"
    by (auto simp: log_rows_def row_count_zero fun_eq_iff split: option.splits)
  have "tables_ok t'"
    using assms(2) fresh lg by (auto simp: coherent_def tables_ok_def t' bt_ok_put bt_get_put)
  moreover have "logs_coherent t' (snd (publish_log lg True cache))"
    using assms(2) p(1,2) by (auto simp: coherent_def logs_coherent_def t' bt_get_put lg)
  moreover have "rows_coherent (env_sql env) (t_qsos t') (snd (publish_log lg True cache))"
    using assms(2) zero none empty_contacts_ok
    by (auto simp: coherent_def rows_coherent_def t' p(3-6) cached_count_def hm_get_put lg)
  moreover have "serials_coherent t' (snd (publish_log lg True cache))"
    using assms(2) by (simp add: coherent_def serials_coherent_def t' p(4))
  ultimately show ?thesis
    using assms(2) by (auto simp: coherent_def t' bt_get_put p(6) hm_get_put lg)
qed

lemma update_log_coherent:
  assumes "coherent env (t, cache)" and "db_update_log env l name station params t = (Some lg, t')"
  shows "coherent env (t', snd (publish_log lg False cache))"
proof -
  obtain old where old: "map_of (t_logs t) l = Some old" and lg0: "lg_id lg = lg_id old"
    and t': "t' = t\<lparr>t_logs := bt_put l lg (t_logs t)\<rparr>"
    using assms(2) by (auto simp: db_update_log_def Let_def split: option.splits)
  have lg: "lg_id lg = l" "in_i64 l" using assms(1) old lg0 by (auto simp: coherent_def tables_ok_def)
  have rev: "\<forall>l e. hm_get (dc_logs cache) l = Some e \<longrightarrow> entry_revision e \<le> next_revision cache"
    using assms(1) by (simp add: coherent_def logs_coherent_def)
  note p = publish_log_facts [OF rev, of lg False]
  have "tables_ok t'"
    using assms(1) lg by (auto simp: coherent_def tables_ok_def t' bt_ok_put bt_get_put)
  moreover have "logs_coherent t' (snd (publish_log lg False cache))"
    using assms(1) p(1,2) by (auto simp: coherent_def logs_coherent_def t' bt_get_put lg)
  moreover have "rows_coherent (env_sql env) (t_qsos t') (snd (publish_log lg False cache))"
    using assms(1) by (simp add: coherent_def rows_coherent_def t' p(3-6) cached_count_def)
  moreover have "serials_coherent t' (snd (publish_log lg False cache))"
    using assms(1) by (simp add: coherent_def serials_coherent_def t' p(4))
  ultimately show ?thesis
    using assms(1) by (auto simp: coherent_def t' bt_get_put p(6))
qed

lemma delete_log_coherent:
  assumes "coherent env (t, cache)" and "db_delete_log l t = (True, t')"
  shows "coherent env (t', uncache_log l cache)"
proof -
  have t': "t' = t\<lparr>t_logs := bt_remove l (t_logs t),
                    t_qsos := filter (\<lambda>(_, row). row_log_id row \<noteq> l) (t_qsos t),
                    t_serials := filter (\<lambda>((owner, _), _). owner \<noteq> l) (t_serials t)\<rparr>"
    using assms(2) by (simp add: db_delete_log_def split: if_splits)
  have tok: "tables_ok t" and log: "logs_coherent t cache"
    and rows: "rows_coherent (env_sql env) (t_qsos t) cache" and ser: "serials_coherent t cache"
    and cached: "hm_get (dc_contacts cache) k \<noteq> None \<Longrightarrow> map_of (t_logs t) k \<noteq> None" for k
    using assms(1) by (auto simp: coherent_def)
  have dist: "distinct (map fst (t_qsos t))" "distinct (map fst (t_serials t))"
    using tok by (simp_all add: tables_ok_def table_ok_def bt_ok_distinct)
  have filt: "map_of (filter (\<lambda>(k, v). P k v) m) k =
      (case map_of m k of Some v \<Rightarrow> if P k v then Some v else None | None \<Rightarrow> None)"
    if "distinct (map fst m)" for P and m :: "('k \<times> 'v) list" and k
    using hm_get_retain [of m P k] that by (auto simp: hm_ok_def hm_retain_def split: option.splits)
  have bfilt: "bt_ok m \<Longrightarrow> bt_ok (filter P m)" for P and m :: "('k::linorder \<times> 'v) list"
    by (induction m) (auto simp: bt_ok_def)
  have q: "map_of (t_qsos t') i = (case map_of (t_qsos t) i of
      Some row \<Rightarrow> if row_log_id row \<noteq> l then Some row else None | None \<Rightarrow> None)" for i
    using filt [OF dist(1), of "\<lambda>_ row. row_log_id row \<noteq> l"] by (simp add: t')
  have sr: "map_of (t_serials t') (k, f) = (if k \<noteq> l then map_of (t_serials t) (k, f) else None)" for k f
    using filt [OF dist(2), of "\<lambda>(owner, _) _. owner \<noteq> l" "(k, f)"]
    by (simp add: t' case_prod_unfold split: option.splits)
  have "table_ok (t_qsos t')"
    using tok unfolding tables_ok_def table_ok_def q
    by (auto simp: t' bfilt split: option.splits if_splits)
  moreover have "bt_ok (t_logs t')" "bt_ok (t_serials t')"
    using tok by (simp_all add: tables_ok_def t' bt_ok_remove bfilt)
  moreover have "map_of (t_logs t') (row_log_id row) \<noteq> None" if "map_of (t_qsos t') i = Some row" for i row
    using tok that unfolding q by (auto simp: tables_ok_def t' bt_get_remove split: option.splits if_splits)
  moreover have "to_upper (trim f) = f \<and> 0 < n" if "map_of (t_serials t') (k, f) = Some n" for k f n
    using tok that unfolding sr by (auto simp: tables_ok_def split: if_splits)
  moreover have "lg_id lg = k \<and> in_i64 k" if "map_of (t_logs t') k = Some lg" for k lg
    using tok that by (auto simp: tables_ok_def t' bt_get_remove split: if_splits)
  ultimately have tok': "tables_ok t'" unfolding tables_ok_def by blast
  have "logs_coherent t' (uncache_log l cache)"
    using log by (auto simp: logs_coherent_def uncache_log_def t' bt_get_remove hm_get_remove)
  moreover have "rows_coherent (env_sql env) (t_qsos t') (uncache_log l cache)"
  proof -
    have own: "hm_ok (dc_owners cache)" "\<And>i. hm_get (dc_owners cache) i = map_option row_log_id (map_of (t_qsos t) i)"
      using rows by (simp_all add: rows_coherent_def)
    have "hm_get (dc_owners (uncache_log l cache)) i = map_option row_log_id (map_of (t_qsos t') i)" for i
      using hm_get_retain [OF own(1), of "\<lambda>_ owner. owner \<noteq> l" i]
      by (auto simp: uncache_log_def own(2) q split: option.splits)
    moreover have "cached_count (uncache_log l cache) k = row_count (t_qsos t') k" for k
    proof (cases "k = l")
      case True
      have "row_count (t_qsos t') l = 0" by (auto simp: row_count_zero q split: option.splits if_splits)
      with True show ?thesis by (simp add: cached_count_def uncache_log_def hm_get_remove)
    next
      case False
      have "{i. \<exists>row. map_of (t_qsos t') i = Some row \<and> row_log_id row = k} =
          {i. \<exists>row. map_of (t_qsos t) i = Some row \<and> row_log_id row = k}"
        using False by (auto simp: q split: option.splits if_splits)
      with False rows show ?thesis
        by (simp add: cached_count_def uncache_log_def hm_get_remove row_count_def rows_coherent_def)
    qed
    moreover have "log_rows (env_sql env) k (t_qsos t') = log_rows (env_sql env) k (t_qsos t)" if "k \<noteq> l" for k
      using that by (auto simp: log_rows_def q fun_eq_iff split: option.splits)
    ultimately show ?thesis
      using rows own(1) by (auto simp: rows_coherent_def uncache_log_def hm_get_remove hm_ok_retain split: if_splits)
  qed
  moreover have "serials_coherent t' (uncache_log l cache)"
  proof -
    have ok: "hm_ok (dc_next_serial cache)" and eq: "\<And>k f. hm_get (dc_next_serial cache) (k, f) = map_of (t_serials t) (k, f)"
      using ser unfolding serials_coherent_def by blast+
    have "hm_get (dc_next_serial (uncache_log l cache)) (k, f) = map_of (t_serials t') (k, f)" for k f
      using hm_get_retain [OF ok, of "\<lambda>(owner, _) _. owner \<noteq> l" "(k, f)"]
      by (simp add: uncache_log_def sr eq split: option.splits)
    then show ?thesis by (auto simp: serials_coherent_def uncache_log_def hm_ok_retain ok)
  qed
  moreover have "hm_get (dc_contacts (uncache_log l cache)) k \<noteq> None \<Longrightarrow> map_of (t_logs t') k \<noteq> None" for k
    using cached [of k] by (auto simp: uncache_log_def hm_get_remove t' bt_get_remove split: if_splits)
  ultimately show ?thesis using tok' by (simp add: coherent_def)
qed

section \<open>Loading the contacts of a log\<close>

lemma upsert_all_lookup:
  "contacts_ok cc \<Longrightarrow> \<forall>c\<in>set cs. contact_id c \<noteq> None \<and> fields_distinct c \<Longrightarrow>
     \<exists>cc'. upsert_all cs cc = Some cc' \<and> contacts_ok cc'
       \<and> (\<forall>i. cached_contact cc' i =
            (case find (\<lambda>c. contact_id c = Some i) (rev cs) of Some c \<Rightarrow> Some c | None \<Rightarrow> cached_contact cc i))"
proof (induction cs arbitrary: cc)
  case (Cons c cs)
  then obtain j where j: "contact_id c = Some j" by auto
  from upsert_cached_ok [OF Cons.prems(1) j] Cons.prems(2) obtain cc1
    where u: "upsert_cached c cc = Some cc1" and ok: "contacts_ok cc1"
      and get: "hm_get (by_id cc1) = (hm_get (by_id cc))(j \<mapsto> c)"
    by auto
  have "\<forall>c\<in>set cs. contact_id c \<noteq> None \<and> fields_distinct c" using Cons.prems(2) by simp
  from Cons.IH [OF ok this] obtain cc' where cc': "upsert_all cs cc1 = Some cc'" "contacts_ok cc'"
    and l: "\<forall>i. cached_contact cc' i =
            (case find (\<lambda>c. contact_id c = Some i) (rev cs) of Some c \<Rightarrow> Some c | None \<Rightarrow> cached_contact cc1 i)"
    by blast
  have one: "cached_contact cc1 i = (if i = j then Some c else cached_contact cc i)" for i
    by (simp add: cached_contact_def get)
  have "cached_contact cc' i = (case find (\<lambda>c. contact_id c = Some i) (rev (c # cs)) of
      Some c \<Rightarrow> Some c | None \<Rightarrow> cached_contact cc i)" for i
    unfolding l [rule_format, of i] one
    by (cases "find (\<lambda>c. contact_id c = Some i) (rev cs)") (simp_all add: find_snoc j)
  then show ?case
    unfolding upsert_all.simps u Option.bind_lunit using cc' by blast
qed simp

lemma find_unique:
  assumes "x \<in> set xs" and "P x" and "\<forall>y\<in>set xs. P y \<longrightarrow> y = x"
  shows "find P xs = Some x"
proof (cases "find P xs")
  case None
  with assms(1,2) show ?thesis by (simp add: find_None_iff)
next
  case (Some y)
  then have "y \<in> set xs" "P y" by (auto simp: find_Some_iff)
  with assms(3) Some show ?thesis by simp
qed

lemma db_contacts_loaded:
  assumes "table_ok table"
  shows "\<exists>cc. new_cached (db_contacts env l table) = Some cc \<and> contacts_ok cc
    \<and> cached_contact cc = log_rows env l table"
proof -
  let ?cs = "db_contacts env l table"
  have mem: "c \<in> set ?cs \<longleftrightarrow> (\<exists>i row. map_of table i = Some row \<and> row_log_id row = l \<and> c = row_to_contact env row)"
    for c
  proof -
    have "row \<in> snd ` set table \<longleftrightarrow> (\<exists>i. map_of table i = Some row)" for row
      using assms by (force simp: table_ok_def bt_ok_distinct)
    then show ?thesis by (auto simp: db_contacts_def)
  qed
  have ids: "contact_id (row_to_contact env row) = Some i" if "map_of table i = Some row" for i row
    using assms that row_to_contact_ids by (auto simp: table_ok_def)
  have "\<forall>c\<in>set ?cs. contact_id c \<noteq> None \<and> fields_distinct c"
    using ids by (auto simp: mem row_to_contact_fields)
  from upsert_all_lookup [OF empty_contacts_ok this] obtain cc
    where cc: "new_cached ?cs = Some cc" "contacts_ok cc"
      and l0: "\<forall>i. cached_contact cc i =
            (case find (\<lambda>c. contact_id c = Some i) (rev ?cs) of
               Some c \<Rightarrow> Some c | None \<Rightarrow> cached_contact empty_contacts i)"
    unfolding new_cached_def by blast
  have l: "cached_contact cc i = find (\<lambda>c. contact_id c = Some i) (rev ?cs)" for i
    using l0 [rule_format, of i] by (simp split: option.splits)
  have "cached_contact cc i = log_rows env l table i" for i
  proof (cases "log_rows env l table i")
    case None
    then have "\<not> (\<exists>c\<in>set (rev ?cs). contact_id c = Some i)"
      using ids by (auto simp: mem log_rows_def split: option.splits if_splits)
    then show ?thesis using None by (auto simp: l find_None_iff)
  next
    case (Some c)
    then obtain row where row: "map_of table i = Some row" "row_log_id row = l" "c = row_to_contact env row"
      by (auto simp: log_rows_def split: option.splits if_splits)
    have "find (\<lambda>c. contact_id c = Some i) (rev ?cs) = Some c"
    proof (rule find_unique)
      show "c \<in> set (rev ?cs)" using row by (auto simp: mem)
      show "contact_id c = Some i" using row ids by simp
      show "\<forall>d\<in>set (rev ?cs). contact_id d = Some i \<longrightarrow> d = c"
      proof (intro ballI impI)
        fix d assume "d \<in> set (rev ?cs)" and d: "contact_id d = Some i"
        then obtain j row' where "map_of table j = Some row'" "d = row_to_contact env row'"
          using mem by auto
        with d ids row(1,3) show "d = c" by (metis option.inject)
      qed
    qed
    with Some show ?thesis by (simp add: l)
  qed
  with cc show ?thesis by auto
qed

lemma load_contacts_coherent:
  assumes "coherent env (t, cache)"
  shows "\<exists>cache'. load_contacts env l t cache = Done cache' \<and> coherent env (t, cache')
    \<and> dc_logs cache' = dc_logs cache \<and> dc_next_serial cache' = dc_next_serial cache
    \<and> dc_owners cache' = dc_owners cache \<and> next_revision cache' = next_revision cache
    \<and> (hm_get (dc_logs cache) l \<noteq> None \<longrightarrow> hm_get (dc_contacts cache') l \<noteq> None)"
proof (cases "hm_get (dc_logs cache) l = None \<or> hm_get (dc_contacts cache) l \<noteq> None")
  case True
  with assms show ?thesis by (auto simp: load_contacts_def)
next
  case False
  have "table_ok (t_qsos t)" using assms by (simp add: coherent_def tables_ok_def)
  from db_contacts_loaded [OF this] obtain cc
    where cc: "new_cached (db_contacts (env_sql env) l (t_qsos t)) = Some cc" "contacts_ok cc"
      "cached_contact cc = log_rows (env_sql env) l (t_qsos t)" by blast
  have "map_of (t_logs t) l \<noteq> None"
    using False assms by (metis coherent_def fst_conv logs_coherent_def option.map_disc_iff snd_conv)
  with assms cc have "coherent env (t, cache\<lparr>dc_contacts := hm_put l cc (dc_contacts cache)\<rparr>)"
    by (auto simp: coherent_def logs_coherent_def rows_coherent_def serials_coherent_def cached_count_def hm_get_put)
  with False cc(1) show ?thesis by (auto simp: load_contacts_def hm_get_put)
qed

section \<open>Writing contacts\<close>

lemma contact_id_range: "contact_id c = Some i \<Longrightarrow> in_i64 i"
proof -
  have wrap: "in_i64 (wrap_i64 n)" for n
  proof -
    have "0 \<le> (n + 9223372036854775808) mod 18446744073709551616"
      "(n + 9223372036854775808) mod 18446744073709551616 < 18446744073709551616" by simp_all
    then show ?thesis unfolding in_i64_def wrap_i64_def i64_min_def i64_max_def by linarith
  qed
  have parse: "parse_signed 64 t = Some j \<Longrightarrow> in_i64 j" for t j
    unfolding parse_signed_def Let_def in_i64_def i64_min_def i64_max_def
    by (simp split: if_split_asm)
  have num: "as_i64 v = Some j \<Longrightarrow> in_i64 j" for v j
    by (cases v) (auto simp: in_i64_def split: if_splits)
  have "json_i64_value v = Some i \<Longrightarrow> in_i64 i" for v
    by (cases v) (auto simp del: as_i64.simps simp: json_i64_value_def wrap dest: parse num split: option.splits)
  then show "contact_id c = Some i \<Longrightarrow> in_i64 i"
    by (auto simp: contact_id_def bind_eq_Some_conv)
qed

text \<open>A stored row carries its id and the log it was stored for.\<close>

lemma upsert_contact_row:
  assumes "upsert_contact env log_ids (complete_contact l contest c) table = Some (r, table')" and "in_i64 l"
  obtains i row where "table' = bt_put i row table" and "r = row_to_contact env row"
    and "row_id row = i" and "row_log_id row = l"
    and "contact_id c = Some i \<or> contact_id c = None \<and> fresh_row_id env table = Some i"
proof -
  let ?c = "complete_contact l contest c"
  have id: "contact_id ?c = contact_id c"
    by (auto simp: complete_contact_def Let_def split: option.splits list.splits)
  have log: "contact_log_id ?c = Some l"
    using assms(2) contact_log_id_set_log_id [of l c]
    by (auto simp: complete_contact_def Let_def in_i64_def split: option.splits list.splits)
  obtain i where i: "(case contact_id c of Some i \<Rightarrow> Some i | None \<Rightarrow> fresh_row_id env table) = Some i"
    using assms(1) by (auto simp: upsert_contact_def id split: option.splits)
  let ?row = "\<lparr>row_id = i, row_values = contact_to_sql_values env ?c\<rparr>"
  have "''LOG_ID'' \<in> set QSO_COLUMNS" by (simp add: QSO_COLUMNS_def)
  then have "row_log_id ?row = l"
    by (simp add: row_log_id_def row_integer_def map_of_columns column_value_def log)
  moreover have "table' = bt_put i ?row table" "r = row_to_contact env ?row"
    using assms(1) i by (auto simp: upsert_contact_def id Let_def split: if_splits)
  ultimately show thesis
    using that [of i ?row] i by (auto split: option.splits)
qed

lemma publish_row_coherent:
  assumes rows: "rows_coherent env table cache" and tok: "table_ok table"
    and cached: "hm_get (dc_contacts cache) l \<noteq> None"
    and row: "row_id row = i" "row_log_id row = l" "in_i64 i" "in_i64 l"
    and own: "\<And>old. map_of table i = Some old \<Longrightarrow> row_log_id old = l"
  shows "\<exists>cache'. publish_contact l (row_to_contact env row) cache = Some cache'
    \<and> rows_coherent env (bt_put i row table) cache' \<and> table_ok (bt_put i row table)
    \<and> dc_logs cache' = dc_logs cache \<and> dc_next_serial cache' = dc_next_serial cache
    \<and> next_revision cache' = next_revision cache
    \<and> (\<forall>k. hm_get (dc_contacts cache') k = None \<longleftrightarrow> hm_get (dc_contacts cache) k = None)"
proof -
  let ?c = "row_to_contact env row"
  have rok: "row_ok i row" using row by (simp add: row_ok_def in_i64_def)
  have id: "contact_id ?c = Some i" using row_to_contact_ids [OF rok] by simp
  obtain cc where cc: "hm_get (dc_contacts cache) l = Some cc" using cached by auto
  have ok: "contacts_ok cc" and lookup: "cached_contact cc = log_rows env l table"
    using rows cc unfolding rows_coherent_def by blast+
  from upsert_cached_ok [OF ok id row_to_contact_fields] obtain cc'
    where cc': "upsert_cached ?c cc = Some cc'" "contacts_ok cc'"
      "hm_get (by_id cc') = (hm_get (by_id cc))(i \<mapsto> ?c)" by blast
  define cache' where "cache' = cache\<lparr>dc_owners := hm_put i l (dc_owners cache),
      dc_counts := (if hm_get (dc_owners cache) i = None then incr_count l (dc_counts cache) else dc_counts cache),
      dc_contacts := hm_put l cc' (dc_contacts cache)\<rparr>"
  have pub: "publish_contact l ?c cache = Some cache'"
    by (simp add: publish_contact_def id cc cc'(1) cache'_def)
  have owners: "hm_get (dc_owners cache) j = map_option row_log_id (map_of table j)" for j
    using rows unfolding rows_coherent_def by blast
  have counts: "cached_count cache k = row_count table k" for k
    using rows unfolding rows_coherent_def by blast
  have "cached_count cache' k = row_count (bt_put i row table) k" for k
  proof (cases "map_of table i")
    case None
    then show ?thesis
      using counts [of k] row(2) unfolding row_count_put_new [OF None]
      by (auto simp: cached_count_def cache'_def owners incr_count_def hm_get_put split: option.splits)
  next
    case (Some old)
    with own row(2) have same: "row_log_id old = row_log_id row" by simp
    show ?thesis
      using counts [of k] unfolding row_count_put_same [OF Some same]
      by (simp add: cached_count_def cache'_def owners Some)
  qed
  moreover have "hm_get (dc_owners cache') j = map_option row_log_id (map_of (bt_put i row table) j)" for j
    using row(2) by (simp add: cache'_def hm_get_put bt_get_put owners)
  moreover have "contacts_ok dd \<and> cached_contact dd = log_rows env k (bt_put i row table)"
    if "hm_get (dc_contacts cache') k = Some dd" for k dd
  proof (cases "k = l")
    case True
    then have "dd = cc'" using that by (simp add: cache'_def hm_get_put)
    moreover have "cached_contact cc' j = log_rows env l (bt_put i row table) j" for j
      using fun_cong [OF lookup, of j] row(2)
      by (auto simp: cached_contact_def cc'(3) log_rows_def bt_get_put)
    ultimately show ?thesis using True cc'(2) by auto
  next
    case False
    with that have "hm_get (dc_contacts cache) k = Some dd" by (simp add: cache'_def hm_get_put)
    then have "contacts_ok dd" "cached_contact dd = log_rows env k table"
      using rows unfolding rows_coherent_def by blast+
    moreover have "log_rows env k (bt_put i row table) j = log_rows env k table j" for j
      using False row(2) own by (auto simp: log_rows_def bt_get_put split: option.splits)
    ultimately show ?thesis by auto
  qed
  moreover have "hm_ok (dc_owners cache')"
    using rows by (simp add: rows_coherent_def cache'_def hm.ok_put)
  ultimately have "rows_coherent env (bt_put i row table) cache'" unfolding rows_coherent_def by blast
  moreover have "table_ok (bt_put i row table)"
    using tok rok by (auto simp: table_ok_def bt_ok_put bt_get_put)
  moreover have "dc_logs cache' = dc_logs cache" "dc_next_serial cache' = dc_next_serial cache"
    "next_revision cache' = next_revision cache"
    "\<forall>k. hm_get (dc_contacts cache') k = None \<longleftrightarrow> hm_get (dc_contacts cache) k = None"
    using cc by (auto simp: cache'_def hm_get_put)
  ultimately show ?thesis using pub by blast
qed

lemma publish_contacts_coherent:
  assumes "\<forall>T i. fresh_row_id env T = Some i \<longrightarrow> map_of T i = None \<and> in_i64 i" and "in_i64 l"
    and "db_upsert_contacts env ids l contest cs T = Some (committed, T')"
    and "rows_coherent env T cache" and "table_ok T" and "hm_get (dc_contacts cache) l \<noteq> None"
    and "\<forall>c\<in>set cs. \<forall>i old. contact_id c = Some i \<longrightarrow> map_of T i = Some old \<longrightarrow> row_log_id old = l"
  shows "\<exists>cache'. publish_contacts l committed cache = Some cache'
    \<and> rows_coherent env T' cache' \<and> table_ok T'
    \<and> (\<forall>i row. map_of T' i = Some row \<longrightarrow> map_of T i = Some row \<or> row_log_id row = l)
    \<and> dc_logs cache' = dc_logs cache \<and> dc_next_serial cache' = dc_next_serial cache
    \<and> next_revision cache' = next_revision cache
    \<and> (\<forall>k. hm_get (dc_contacts cache') k = None \<longleftrightarrow> hm_get (dc_contacts cache) k = None)"
  using assms(3-7)
proof (induction cs arbitrary: T cache committed)
  case Nil
  then show ?case by auto
next
  case (Cons c cs)
  obtain r T1 rest where u: "upsert_contact env ids (complete_contact l contest c) T = Some (r, T1)"
    and rest: "db_upsert_contacts env ids l contest cs T1 = Some (rest, T')" and cm: "committed = r # rest"
    using Cons.prems(1) by (auto split: option.splits)
  obtain i row where T1: "T1 = bt_put i row T" and r: "r = row_to_contact env row"
    and row: "row_id row = i" "row_log_id row = l"
    and id: "contact_id c = Some i \<or> contact_id c = None \<and> fresh_row_id env T = Some i"
    using upsert_contact_row [OF u assms(2)] by blast
  have i: "in_i64 i" using id assms(1) contact_id_range by blast
  have own: "row_log_id old = l" if "map_of T i = Some old" for old
    using id
  proof
    assume "contact_id c = Some i"
    moreover have "c \<in> set (c # cs)" by simp
    ultimately show ?thesis using Cons.prems(5) that by blast
  next
    assume "contact_id c = None \<and> fresh_row_id env T = Some i"
    then show ?thesis using assms(1) that by auto
  qed
  obtain c1 where p: "publish_contact l r cache = Some c1" and rc: "rows_coherent env T1 c1" "table_ok T1"
    and f: "dc_logs c1 = dc_logs cache" "dc_next_serial c1 = dc_next_serial cache"
      "next_revision c1 = next_revision cache"
      "\<forall>k. hm_get (dc_contacts c1) k = None \<longleftrightarrow> hm_get (dc_contacts cache) k = None"
    using publish_row_coherent [OF Cons.prems(2-4) row i assms(2) own] unfolding T1 r by blast
  have "hm_get (dc_contacts c1) l \<noteq> None" using f(4) Cons.prems(4) by simp
  moreover have "\<forall>c\<in>set cs. \<forall>j old. contact_id c = Some j \<longrightarrow> map_of T1 j = Some old \<longrightarrow> row_log_id old = l"
    using Cons.prems(5) row(2) unfolding T1 by (auto simp: bt_get_put)
  ultimately obtain c2 where c2: "publish_contacts l rest c1 = Some c2" "rows_coherent env T' c2" "table_ok T'"
      "\<forall>i row. map_of T' i = Some row \<longrightarrow> map_of T1 i = Some row \<or> row_log_id row = l"
      "dc_logs c2 = dc_logs c1" "dc_next_serial c2 = dc_next_serial c1" "next_revision c2 = next_revision c1"
      "\<forall>k. hm_get (dc_contacts c2) k = None \<longleftrightarrow> hm_get (dc_contacts c1) k = None"
    using Cons.IH [OF rest rc] by blast
  have "map_of T j = Some row' \<or> row_log_id row' = l" if "map_of T' j = Some row'" for j row'
    using c2(4) that row(2) unfolding T1 by (auto simp: bt_get_put split: if_splits)
  with c2 f p show ?case unfolding cm by simp
qed

lemma write_contacts_coherent:
  assumes env: "env_ok env" and coh: "coherent env (t, cache)"
    and run: "write_contacts env l contacts t cache = (result, t', cache')"
  shows "coherent env (t', cache') \<and> (result = Panicked \<longrightarrow> u64_max \<le> next_revision cache)"
proof -
  obtain c0 where load: "load_contacts env l t cache = Done c0" and c0: "coherent env (t, c0)"
    and loaded: "hm_get (dc_logs cache) l \<noteq> None \<longrightarrow> hm_get (dc_contacts c0) l \<noteq> None"
    and logs0: "dc_logs c0 = dc_logs cache" and rev0: "next_revision c0 = next_revision cache"
    using load_contacts_coherent [OF coh, of l] by blast
  show ?thesis
  proof (cases "hm_get (dc_logs c0) l")
    case None
    with run load coh c0 show ?thesis by (auto simp: write_contacts_def)
  next
    case (Some entry)
    let ?up = "db_upsert_contacts (env_sql env) (map fst (t_logs t)) l (lg_contest_id (entry_log entry)) contacts (t_qsos t)"
    consider "list_ex (foreign_owner l c0) contacts \<or> ?up = None"
      | committed table where "\<not> list_ex (foreign_owner l c0) contacts" "?up = Some (committed, table)"
      by (cases ?up) auto
    then show ?thesis
    proof cases
      case 1
      with run load Some c0 show ?thesis by (auto simp: write_contacts_def split: if_splits)
    next
      case 2
      have tok: "tables_ok t" and log: "logs_coherent t c0" and rows: "rows_coherent (env_sql env) (t_qsos t) c0"
        and ser: "serials_coherent t c0"
        and cached: "\<forall>k. hm_get (dc_contacts c0) k \<noteq> None \<longrightarrow> map_of (t_logs t) k \<noteq> None"
        using c0 unfolding coherent_def fst_conv snd_conv by blast+
      have stored: "map_of (t_logs t) l = Some (entry_log entry)"
        using log Some unfolding logs_coherent_def by (metis option.simps(9))
      then have l: "in_i64 l" using tok unfolding tables_ok_def by blast
      have owners: "hm_get (dc_owners c0) j = map_option row_log_id (map_of (t_qsos t) j)" for j
        using rows unfolding rows_coherent_def by blast
      have own: "\<forall>c\<in>set contacts. \<forall>i old. contact_id c = Some i \<longrightarrow> map_of (t_qsos t) i = Some old \<longrightarrow> row_log_id old = l"
        using 2(1) by (auto simp: list_ex_iff foreign_owner_def owners)
      have fresh: "\<forall>T i. fresh_row_id (env_sql env) T = Some i \<longrightarrow> map_of T i = None \<and> in_i64 i"
        using env by (simp add: env_ok_def)
      have tbl: "table_ok (t_qsos t)" using tok by (simp add: tables_ok_def)
      have ne: "hm_get (dc_contacts c0) l \<noteq> None" using loaded Some logs0 by simp
      from publish_contacts_coherent [OF fresh l 2(2) rows tbl ne own] obtain c1
        where c1: "publish_contacts l committed c0 = Some c1" "rows_coherent (env_sql env) table c1" "table_ok table"
          and from_old: "\<forall>i row. map_of table i = Some row \<longrightarrow> map_of (t_qsos t) i = Some row \<or> row_log_id row = l"
          and f: "dc_logs c1 = dc_logs c0" "dc_next_serial c1 = dc_next_serial c0" "next_revision c1 = next_revision c0"
            "\<forall>k. hm_get (dc_contacts c1) k = None \<longleftrightarrow> hm_get (dc_contacts c0) k = None"
        by blast
      have rest: "tables_ok (t\<lparr>t_qsos := table\<rparr>)"
        using tok c1(3) from_old stored unfolding tables_ok_def by fastforce
      have log1: "logs_coherent t c1" using log by (simp add: logs_coherent_def f)
      show ?thesis
      proof (cases "bump_revision l c1")
        case None
        have "t' = t\<lparr>t_qsos := table\<rparr>" "cache' = c1"
          using run load Some 2 c1(1) None by (auto simp: write_contacts_def Let_def)
        then show ?thesis
          using rest c1(2) ser log1 cached f rev0 None
          by (simp add: coherent_def serials_coherent_def logs_coherent_def bump_revision_none)
      next
        case bumped: (Some rc)
        obtain rv c2 where b: "bump_revision l c1 = Some (rv, c2)" using bumped by (metis prod.collapse)
        have res: "result = Done \<lparr>mut_previous_revision = entry_revision entry, mut_revision = rv, mut_contacts = committed\<rparr>"
          "t' = t\<lparr>t_qsos := table\<rparr>" "cache' = c2"
          using run load Some 2 c1(1) b by (auto simp: write_contacts_def Let_def)
        have "tables_ok t'" using rest by (simp add: res(2))
        moreover have "logs_coherent t' c2"
        proof -
          have "logs_coherent t c2" by (rule bump_revision_coherent(1) [OF b log1])
          then show ?thesis by (simp add: logs_coherent_def res(2))
        qed
        moreover have "rows_coherent (env_sql env) (t_qsos t') c2"
          using c1(2) bump_revision_coherent(2) [OF b] by (simp add: res(2))
        moreover have "serials_coherent t' c2"
          using ser by (simp add: serials_coherent_def res(2) bump_revision_facts [OF b] f)
        moreover have "\<forall>k. hm_get (dc_contacts c2) k \<noteq> None \<longrightarrow> map_of (t_logs t') k \<noteq> None"
          using cached f(4) by (simp add: bump_revision_facts [OF b] res(2))
        ultimately show ?thesis unfolding coherent_def fst_conv snd_conv res by simp
      qed
    qed
  qed
qed

section \<open>Serials and deletions\<close>

lemma reserve_serial_coherent:
  assumes coh: "coherent env (t, cache)" and run: "reserve_serial env l field t cache = (result, t', cache')"
  shows "coherent env (t', cache') \<and> result \<noteq> Panicked"
proof -
  obtain c0 where load: "load_contacts env l t cache = Done c0" and c0: "coherent env (t, c0)"
    using load_contacts_coherent [OF coh, of l] by blast
  let ?f = "to_upper (trim field)"
  consider "l \<le> 0 \<or> ?f = []" | "\<not> (l \<le> 0 \<or> ?f = [])" "next_serial_value l ?f c0 = Failed"
    | serial where "\<not> (l \<le> 0 \<or> ?f = [])" "next_serial_value l ?f c0 = Done serial"
    by (cases "next_serial_value l ?f c0") (auto simp: next_serial_value_def split: option.splits)
  then show ?thesis
  proof cases
    case 1
    with run coh show ?thesis by (auto simp: reserve_serial_def Let_def)
  next
    case 2
    with run load c0 show ?thesis by (auto simp: reserve_serial_def Let_def)
  next
    case 3
    show ?thesis
    proof (cases "db_allocate_serial l ?f serial t")
      case None
      with 3 run load c0 show ?thesis by (auto simp: reserve_serial_def Let_def)
    next
      case (Some t1)
      have t1: "t1 = t\<lparr>t_serials := bt_put (l, ?f) (serial + 1) (t_serials t)\<rparr>" and pos: "0 < serial + 1"
        using Some by (auto simp: db_allocate_serial_def checked_i64_def split: option.splits if_splits)
      have res: "result = Done serial" "t' = t1"
        "cache' = c0\<lparr>dc_next_serial := hm_put (l, ?f) (serial + 1) (dc_next_serial c0)\<rparr>"
        using 3 run load Some by (auto simp: reserve_serial_def Let_def)
      have f: "to_upper (trim ?f) = ?f" by (simp add: trim_to_upper)
      have "tables_ok t'"
        using c0 pos f by (auto simp: coherent_def tables_ok_def res(2) t1 bt_ok_put bt_get_put)
      moreover have "serials_coherent t' cache'"
        using c0 by (auto simp: coherent_def serials_coherent_def res t1 hm.ok_put hm_get_put bt_get_put)
      ultimately show ?thesis
        using c0 by (simp add: coherent_def logs_coherent_def rows_coherent_def cached_count_def res t1)
    qed
  qed
qed

lemma remove_contact_coherent:
  assumes coh: "coherent env (t, cache)" and run: "remove_contact i t cache = (result, t', cache')"
  shows "coherent env (t', cache') \<and> (result = Panicked \<longrightarrow> u64_max \<le> next_revision cache)"
proof (cases "map_of (t_qsos t) i")
  case None
  with run coh show ?thesis by (auto simp: remove_contact_def db_delete_contact_def)
next
  case (Some row)
  define l where "l = row_log_id row"
  have tok: "tables_ok t" and log: "logs_coherent t cache" and rows: "rows_coherent (env_sql env) (t_qsos t) cache"
    and ser: "serials_coherent t cache"
    and cached: "\<forall>k. hm_get (dc_contacts cache) k \<noteq> None \<longrightarrow> map_of (t_logs t) k \<noteq> None"
    using coh unfolding coherent_def fst_conv snd_conv by blast+
  have "map_of (t_logs t) l \<noteq> None" using tok Some unfolding tables_ok_def l_def by blast
  then obtain entry where entry: "hm_get (dc_logs cache) l = Some entry"
    using log unfolding logs_coherent_def by (metis option.collapse option.map_disc_iff)
  have owners: "hm_ok (dc_owners cache)" "hm_get (dc_owners cache) j = map_option row_log_id (map_of (t_qsos t) j)" for j
    using rows unfolding rows_coherent_def by blast+
  have counts: "cached_count cache k = row_count (t_qsos t) k" for k
    using rows unfolding rows_coherent_def by blast
  have "0 < row_count (t_qsos t) l" using row_count_remove [OF Some, of l] by (simp add: l_def)
  then obtain n where n: "hm_get (dc_counts cache) l = Some (Suc n)"
    using counts [of l] by (cases "hm_get (dc_counts cache) l") (auto simp: cached_count_def gr0_conv_Suc)
  define c1 where "c1 = cache\<lparr>dc_owners := hm_remove i (dc_owners cache),
      dc_counts := hm_put l n (dc_counts cache),
      dc_contacts := (case hm_get (dc_contacts cache) l of
          Some cc \<Rightarrow> hm_put l (remove_cached i cc) (dc_contacts cache) | None \<Rightarrow> dc_contacts cache)\<rparr>"
  have del: "db_delete_contact i (t_qsos t) = (Some l, bt_remove i (t_qsos t))"
    by (simp add: db_delete_contact_def Some l_def)
  have "cached_count c1 k = row_count (bt_remove i (t_qsos t)) k" for k
    using counts [of k] row_count_remove [OF Some, of k] n
    by (auto simp: cached_count_def c1_def hm_get_put l_def split: if_splits)
  moreover have "contacts_ok dd \<and> cached_contact dd = log_rows (env_sql env) k (bt_remove i (t_qsos t))"
    if dd: "hm_get (dc_contacts c1) k = Some dd" for k dd
  proof (cases "k = l")
    case True
    obtain cc where cc: "hm_get (dc_contacts cache) l = Some cc" "dd = remove_cached i cc"
      using dd True by (auto simp: c1_def hm_get_put split: option.splits)
    then have "contacts_ok cc" "cached_contact cc = log_rows (env_sql env) l (t_qsos t)"
      using rows unfolding rows_coherent_def by blast+
    moreover have "cached_contact (remove_cached i cc) j = (if j = i then None else cached_contact cc j)" for j
      using remove_cached_ok [OF \<open>contacts_ok cc\<close>, of i] by (simp add: cached_contact_def)
    ultimately show ?thesis
      using remove_cached_ok [OF \<open>contacts_ok cc\<close>, of i] True
      by (auto simp: cc(2) log_rows_def bt_get_remove fun_eq_iff)
  next
    case False
    with dd have "hm_get (dc_contacts cache) k = Some dd"
      by (auto simp: c1_def hm_get_put split: option.splits)
    then have "contacts_ok dd" "cached_contact dd = log_rows (env_sql env) k (t_qsos t)"
      using rows unfolding rows_coherent_def by blast+
    moreover have "log_rows (env_sql env) k (bt_remove i (t_qsos t)) j = log_rows (env_sql env) k (t_qsos t) j" for j
      using False Some by (auto simp: log_rows_def bt_get_remove l_def)
    ultimately show ?thesis by auto
  qed
  moreover have "hm_ok (dc_owners c1)"
    "hm_get (dc_owners c1) j = map_option row_log_id (map_of (bt_remove i (t_qsos t)) j)" for j
    using owners by (auto simp: c1_def hm.ok_remove hm_get_remove bt_get_remove)
  ultimately have rows1: "rows_coherent (env_sql env) (bt_remove i (t_qsos t)) c1" unfolding rows_coherent_def by blast
  have tok1: "tables_ok (t\<lparr>t_qsos := bt_remove i (t_qsos t)\<rparr>)"
    using tok by (auto simp: tables_ok_def table_ok_def bt_ok_remove bt_get_remove)
  have log1: "logs_coherent t c1" using log by (simp add: logs_coherent_def c1_def)
  have cached1: "\<forall>k. hm_get (dc_contacts c1) k \<noteq> None \<longrightarrow> map_of (t_logs t) k \<noteq> None"
    using cached by (auto simp: c1_def hm_get_put split: option.splits)
  have ser1: "serials_coherent t c1" using ser by (simp add: serials_coherent_def c1_def)
  show ?thesis
  proof (cases "bump_revision l c1")
    case None
    have "t' = t\<lparr>t_qsos := bt_remove i (t_qsos t)\<rparr>" "cache' = c1"
      using run None unfolding remove_contact_def del by (simp_all add: entry n Let_def c1_def)
    moreover have "u64_max \<le> next_revision cache" using None by (simp add: bump_revision_none c1_def)
    ultimately show ?thesis
      using tok1 log1 cached1 ser1 rows1 by (simp add: coherent_def logs_coherent_def serials_coherent_def)
  next
    case bumped: (Some rc)
    obtain rv c2 where b: "bump_revision l c1 = Some (rv, c2)" using bumped by (metis prod.collapse)
    have res: "result = Done (Some \<lparr>del_log_id = l, del_previous_revision = entry_revision entry, del_revision = rv\<rparr>)"
      "t' = t\<lparr>t_qsos := bt_remove i (t_qsos t)\<rparr>" "cache' = c2"
      using run unfolding remove_contact_def del by (simp_all add: entry n Let_def b [unfolded c1_def])
    have "tables_ok t'" using tok1 by (simp add: res(2))
    moreover have "rows_coherent (env_sql env) (t_qsos t') c2"
      using rows1 bump_revision_coherent(2) [OF b] by (simp add: res(2))
    moreover have "logs_coherent t' c2"
      using bump_revision_coherent(1) [OF b log1] by (simp add: logs_coherent_def res(2))
    moreover have "serials_coherent t' c2"
      using ser1 bump_revision_coherent(3) [OF b] by (simp add: serials_coherent_def res(2))
    moreover have "\<forall>k. hm_get (dc_contacts c2) k \<noteq> None \<longrightarrow> map_of (t_logs t') k \<noteq> None"
      using cached1 by (simp add: bump_revision_facts [OF b] res(2))
    ultimately show ?thesis unfolding coherent_def fst_conv snd_conv res by simp
  qed
qed

section \<open>The start\<close>

lemma load_logs:
  assumes "distinct (map fst xs)" and "\<forall>k lg. map_of xs k = Some lg \<longrightarrow> lg_id lg = k"
    and "\<forall>l e. hm_get (dc_logs c) l = Some e \<longrightarrow> entry_revision e \<le> next_revision c"
    and "publish_logs (map snd xs) c = Some c'"
  shows "(\<forall>l. map_option entry_log (hm_get (dc_logs c') l) =
      (case map_of xs l of Some lg \<Rightarrow> Some lg | None \<Rightarrow> map_option entry_log (hm_get (dc_logs c) l)))
    \<and> (\<forall>l e. hm_get (dc_logs c') l = Some e \<longrightarrow> entry_revision e \<le> next_revision c')
    \<and> dc_owners c' = dc_owners c \<and> dc_counts c' = dc_counts c \<and> dc_contacts c' = dc_contacts c
    \<and> dc_next_serial c' = dc_next_serial c \<and> next_revision c' = next_revision c + length xs"
  using assms
proof (induction xs arbitrary: c)
  case (Cons x xs)
  obtain k lg where x: "x = (k, lg)" by fastforce
  have k: "lg_id lg = k" using Cons.prems(2) by (simp add: x)
  have away: "map_of xs k = None" using Cons.prems(1) by (simp add: x map_of_eq_None_iff)
  have d: "distinct (map fst xs)" using Cons.prems(1) by simp
  have ids: "\<forall>j l. map_of xs j = Some l \<longrightarrow> lg_id l = j"
  proof (intro allI impI)
    fix j l assume j: "map_of xs j = Some l"
    with away have "j \<noteq> k" by auto
    with j have "map_of (x # xs) j = Some l" by (simp add: x)
    then show "lg_id l = j" using Cons.prems(2) by blast
  qed
  note p = publish_log_facts [OF Cons.prems(3), of lg False]
  have ok: "fst (publish_log lg False c)" and rest: "publish_logs (map snd xs) (snd (publish_log lg False c)) = Some c'"
    using Cons.prems(4) by (auto simp: x split: prod.splits if_splits)
  have one: "map_option entry_log (hm_get (dc_logs (snd (publish_log lg False c))) l) =
      (if l = k then Some lg else map_option entry_log (hm_get (dc_logs c) l))" for l
    using p(1) k by simp
  note IH = Cons.IH [OF d ids p(2) rest, unfolded one p(3-6,8) simp_thms if_False]
  have "map_option entry_log (hm_get (dc_logs c') l) =
      (case map_of (x # xs) l of Some g \<Rightarrow> Some g | None \<Rightarrow> map_option entry_log (hm_get (dc_logs c) l))" for l
    using conjunct1 [OF IH, THEN spec, of l] away by (cases "l = k") (simp_all add: x)
  moreover have "next_revision c' = next_revision c + length (x # xs)" using IH ok by simp
  ultimately show ?case using IH by blast
qed auto

lemma publish_logs_none:
  assumes "\<forall>l e. hm_get (dc_logs c) l = Some e \<longrightarrow> entry_revision e \<le> next_revision c"
    and "next_revision c + length lgs \<le> u64_max"
  shows "publish_logs lgs c \<noteq> None"
  using assms
proof (induction lgs arbitrary: c)
  case (Cons lg lgs)
  note p = publish_log_facts [OF Cons.prems(1), of lg False]
  have "fst (publish_log lg False c)" using p(7) Cons.prems(2) by simp
  moreover from this have "publish_logs lgs (snd (publish_log lg False c)) \<noteq> None"
    using Cons.IH [OF p(2)] p(8) Cons.prems(2) by simp
  ultimately show ?case by (cases "publish_log lg False c") simp
qed simp

lemma db_logs_lookup:
  assumes "bt_ok (t_logs t)"
  shows "distinct (map fst (db_logs t))" and "map_of (db_logs t) = map_of (t_logs t)"
    and "length (db_logs t) = length (t_logs t)"
proof -
  have "mset (map fst (db_logs t)) = mset (map fst (t_logs t))" by (simp add: db_logs_def)
  with assms show d: "distinct (map fst (db_logs t))"
    using bt_ok_distinct mset_eq_imp_distinct_iff by blast
  show "map_of (db_logs t) = map_of (t_logs t)"
    using map_of_inject_set [OF d] assms by (simp add: bt_ok_distinct db_logs_def)
  show "length (db_logs t) = length (t_logs t)" by (simp add: db_logs_def)
qed

lemma load_owners:
  assumes "distinct (map fst xs)" and "hm_ok (dc_owners c)"
  defines "c' \<equiv> fold (\<lambda>(i, row) c. c\<lparr>dc_owners := hm_put i (row_log_id row) (dc_owners c),
      dc_counts := incr_count (row_log_id row) (dc_counts c)\<rparr>) xs c"
  shows "hm_ok (dc_owners c')
    \<and> (\<forall>i. hm_get (dc_owners c') i = (case map_of xs i of Some row \<Rightarrow> Some (row_log_id row) | None \<Rightarrow> hm_get (dc_owners c) i))
    \<and> (\<forall>l. cached_count c' l = cached_count c l + row_count xs l)
    \<and> dc_logs c' = dc_logs c \<and> dc_contacts c' = dc_contacts c \<and> dc_next_serial c' = dc_next_serial c
    \<and> next_revision c' = next_revision c"
  using assms(1,2) unfolding c'_def
proof (induction xs arbitrary: c)
  case (Cons x xs)
  obtain i row where x: "x = (i, row)" by fastforce
  have away: "map_of xs i = None" using Cons.prems(1) by (simp add: x map_of_eq_None_iff)
  let ?c = "c\<lparr>dc_owners := hm_put i (row_log_id row) (dc_owners c),
      dc_counts := incr_count (row_log_id row) (dc_counts c)\<rparr>"
  have d: "distinct (map fst xs)" and ok: "hm_ok (dc_owners ?c)"
    using Cons.prems by (simp_all add: hm.ok_put)
  have one: "cached_count ?c l = cached_count c l + (if row_log_id row = l then 1 else 0)" for l
    by (auto simp: cached_count_def incr_count_def hm_get_put split: option.splits)
  have "{j. \<exists>r. map_of (x # xs) j = Some r \<and> row_log_id r = l} =
      (if row_log_id row = l then insert i else id) {j. \<exists>r. map_of xs j = Some r \<and> row_log_id r = l}" for l
    using away by (auto simp: x)
  then have count: "row_count (x # xs) l = row_count xs l + (if row_log_id row = l then 1 else 0)" for l
    using finite_rows [of xs l] away by (simp add: row_count_def)
  show ?case
    using Cons.IH [OF d ok] away by (auto simp: x one count [unfolded x] hm_get_put split: option.splits)
qed (auto simp: row_count_def)

lemma load_empty:
  fixes xs :: "(int \<times> cached_log_entry) list" and c :: database_cache
  defines "step \<equiv> (\<lambda>(l, _ :: cached_log_entry) c. if (case hm_get (dc_counts c) l of Some n \<Rightarrow> n | None \<Rightarrow> 0) = 0
      then c\<lparr>dc_contacts := hm_put l empty_contacts (dc_contacts c)\<rparr> else c)"
  defines "c' \<equiv> fold step xs c"
  shows "(\<forall>l. hm_get (dc_contacts c') l =
      (if l \<in> fst ` set xs \<and> cached_count c l = 0 then Some empty_contacts else hm_get (dc_contacts c) l))
    \<and> dc_logs c' = dc_logs c \<and> dc_owners c' = dc_owners c \<and> dc_counts c' = dc_counts c
    \<and> dc_next_serial c' = dc_next_serial c \<and> next_revision c' = next_revision c"
  unfolding c'_def
proof (induction xs arbitrary: c)
  case (Cons x xs)
  obtain l e where x: "x = (l, e)" by fastforce
  have s: "step x c = (if cached_count c l = 0
      then c\<lparr>dc_contacts := hm_put l empty_contacts (dc_contacts c)\<rparr> else c)"
    by (simp add: step_def x cached_count_def)
  have cc: "cached_count (step x c) k = cached_count c k" for k by (simp add: s cached_count_def)
  have mem: "k \<in> fst ` set (x # xs) \<longleftrightarrow> k = l \<or> k \<in> fst ` set xs" for k by (auto simp: x)
  have contacts: "hm_get (dc_contacts (step x c)) k =
      (if k = l \<and> cached_count c k = 0 then Some empty_contacts else hm_get (dc_contacts c) k)" for k
    by (auto simp: s hm_get_put)
  have frame: "dc_logs (step x c) = dc_logs c" "dc_owners (step x c) = dc_owners c"
    "dc_counts (step x c) = dc_counts c" "dc_next_serial (step x c) = dc_next_serial c"
    "next_revision (step x c) = next_revision c"
    by (simp_all add: s)
  show ?case
    unfolding fold.simps o_apply mem using Cons.IH [of "step x c", unfolded cc contacts frame] by auto
qed simp

lemma load_serials:
  assumes "distinct (map fst xs)" and "hm_ok m"
    and "\<forall>l f n. map_of xs (l, f) = Some n \<longrightarrow> to_upper (trim f) = f \<and> 0 < n"
    and "\<forall>k\<in>fst ` set xs. hm_get m k = None"
  shows "hm_ok (fold load_serial xs m)
    \<and> (\<forall>k. hm_get (fold load_serial xs m) k = (case map_of xs k of Some n \<Rightarrow> Some n | None \<Rightarrow> hm_get m k))"
  using assms
proof (induction xs arbitrary: m)
  case (Cons x xs)
  obtain l f n where x: "x = ((l, f), n)" by (metis prod.collapse)
  have away: "map_of xs (l, f) = None" using Cons.prems(1) by (simp add: x map_of_eq_None_iff)
  have norm: "to_upper (trim f) = f" "0 < n"
    using Cons.prems(3) [rule_format, of l f n] by (simp_all add: x)
  have none: "hm_get m (l, f) = None" using Cons.prems(4) by (simp add: x)
  have s: "load_serial x m = hm_put (l, f) n m"
    using norm by (simp add: x load_serial_def none Let_def)
  have "distinct (map fst xs)" "hm_ok (hm_put (l, f) n m)"
    using Cons.prems(1,2) by (simp_all add: hm.ok_put)
  moreover have "\<forall>k g j. map_of xs (k, g) = Some j \<longrightarrow> to_upper (trim g) = g \<and> 0 < j"
  proof (intro allI impI)
    fix k g j assume "map_of xs (k, g) = Some j"
    with away have "map_of (x # xs) (k, g) = Some j" by (auto simp: x)
    then show "to_upper (trim g) = g \<and> 0 < j" using Cons.prems(3) by blast
  qed
  moreover have "\<forall>k\<in>fst ` set xs. hm_get (hm_put (l, f) n m) k = None"
  proof
    fix k assume k: "k \<in> fst ` set xs"
    moreover have "(l, f) \<notin> fst ` set xs" using Cons.prems(1) by (simp add: x)
    ultimately have "k \<noteq> (l, f)" by metis
    moreover have "hm_get m k = None" using k Cons.prems(4) by (metis image_insert insertCI list.simps(15))
    ultimately show "hm_get (hm_put (l, f) n m) k = None" by (simp add: hm_get_put)
  qed
  ultimately have "hm_ok (fold load_serial xs (hm_put (l, f) n m))
    \<and> (\<forall>k. hm_get (fold load_serial xs (hm_put (l, f) n m)) k =
        (case map_of xs k of Some n \<Rightarrow> Some n | None \<Rightarrow> hm_get (hm_put (l, f) n m) k))"
    by (rule Cons.IH)
  then show ?case using away by (auto simp: s) (auto simp: x hm_get_put split: option.splits)
qed simp

lemma load_cache_coherent:
  assumes "tables_ok t" and "load_cache t = Some cache"
  shows "coherent env (t, cache) \<and> next_revision cache = length (t_logs t)"
proof -
  obtain c1 where c1: "publish_logs (map snd (db_logs t)) empty_cache = Some c1"
    using assms(2) by (auto simp: load_cache_def split: option.splits)
  define c2 where "c2 = fold (\<lambda>(i, row) c. c\<lparr>dc_owners := hm_put i (row_log_id row) (dc_owners c),
      dc_counts := incr_count (row_log_id row) (dc_counts c)\<rparr>) (t_qsos t) c1"
  define c3 where "c3 = fold (\<lambda>(l, _) c. if (case hm_get (dc_counts c) l of Some n \<Rightarrow> n | None \<Rightarrow> 0) = 0
      then c\<lparr>dc_contacts := hm_put l empty_contacts (dc_contacts c)\<rparr> else c) (dc_logs c2) c2"
  define ns where "ns = fold load_serial (t_serials t) []"
  have load: "cache = c3\<lparr>dc_next_serial := ns\<rparr>"
    using assms(2) by (simp add: load_cache_def Let_def c1 c2_def c3_def ns_def)
  have bt: "bt_ok (t_logs t)" using assms(1) by (simp add: tables_ok_def)
  note dbl = db_logs_lookup [OF bt]
  have dist: "distinct (map fst (db_logs t))" "distinct (map fst (t_qsos t))" "distinct (map fst (t_serials t))"
    using assms(1) dbl(1) by (simp_all add: tables_ok_def table_ok_def bt_ok_distinct)
  have ids: "\<forall>k lg. map_of (db_logs t) k = Some lg \<longrightarrow> lg_id lg = k"
    using assms(1) unfolding tables_ok_def dbl(2) by blast
  have owned: "\<forall>i row. map_of (t_qsos t) i = Some row \<longrightarrow> map_of (t_logs t) (row_log_id row) \<noteq> None"
    using assms(1) unfolding tables_ok_def by blast
  have sers: "\<forall>l f n. map_of (t_serials t) (l, f) = Some n \<longrightarrow> to_upper (trim f) = f \<and> 0 < n"
    using assms(1) unfolding tables_ok_def by blast
  note one = load_logs [OF dist(1) ids _ c1, unfolded dbl(2,3) empty_cache_def, simplified]
  have "hm_ok (dc_owners c1)" using one by (simp add: hm_ok_def)
  note two = load_owners [OF dist(2) this, folded c2_def]
  note three = load_empty [of "dc_logs c2" c2, folded c3_def]
  have four: "hm_ok ns \<and> (\<forall>k. hm_get ns k = map_of (t_serials t) k)"
    using load_serials [OF dist(3) _ sers, of "[]"] by (auto simp: ns_def hm_ok_def split: option.splits)
  have logs: "\<forall>l. map_option entry_log (hm_get (dc_logs c3) l) = map_of (t_logs t) l"
    using one two three by (auto split: option.splits)
  have revs: "\<forall>l e. hm_get (dc_logs c3) l = Some e \<longrightarrow> entry_revision e \<le> next_revision c3"
    using one two three by metis
  have count2: "cached_count c2 l = row_count (t_qsos t) l" for l
    using one two by (simp add: cached_count_def)
  have contacts: "hm_get (dc_contacts c3) l = Some dd \<Longrightarrow>
      dd = empty_contacts \<and> row_count (t_qsos t) l = 0 \<and> hm_get (dc_logs c3) l \<noteq> None" for l dd
    using one two three count2 by (auto split: if_splits simp: map_of_eq_None_iff)
  have "rows_coherent (env_sql env) (t_qsos t) cache"
  proof -
    have "contacts_ok dd \<and> cached_contact dd = log_rows (env_sql env) l (t_qsos t)"
      if "hm_get (dc_contacts c3) l = Some dd" for l dd
    proof -
      have "dd = empty_contacts" "row_count (t_qsos t) l = 0" using contacts [OF that] by auto
      then show ?thesis
        using empty_contacts_ok by (auto simp: row_count_zero log_rows_def fun_eq_iff split: option.splits)
    qed
    moreover have "hm_ok (dc_owners c3)"
      "\<forall>i. hm_get (dc_owners c3) i = map_option row_log_id (map_of (t_qsos t) i)"
      using one two three by (auto split: option.splits)
    moreover have "\<forall>l. cached_count c3 l = row_count (t_qsos t) l"
      using count2 three by (simp add: cached_count_def)
    ultimately show ?thesis unfolding rows_coherent_def load by (simp add: cached_count_def)
  qed
  moreover have "logs_coherent t cache" using logs revs by (simp add: logs_coherent_def load)
  moreover have "serials_coherent t cache" using four by (simp add: serials_coherent_def load)
  moreover have "\<forall>l. hm_get (dc_contacts cache) l \<noteq> None \<longrightarrow> map_of (t_logs t) l \<noteq> None"
  proof (intro allI impI)
    fix l assume "hm_get (dc_contacts cache) l \<noteq> None"
    then have "hm_get (dc_logs c3) l \<noteq> None" using contacts by (auto simp: load)
    then show "map_of (t_logs t) l \<noteq> None" using logs by (metis option.map_disc_iff)
  qed
  moreover have "next_revision cache = length (t_logs t)" using one two three by (simp add: load)
  ultimately show ?thesis using assms(1) by (simp add: coherent_def)
qed

lemma load_cache_defined:
  assumes "tables_ok t" and "length (t_logs t) \<le> u64_max"
  shows "load_cache t \<noteq> None"
proof -
  have "bt_ok (t_logs t)" using assms(1) by (simp add: tables_ok_def)
  then have "publish_logs (map snd (db_logs t)) empty_cache \<noteq> None"
    using publish_logs_none [of empty_cache "map snd (db_logs t)"] assms(2)
    by (simp add: db_logs_lookup empty_cache_def)
  then show ?thesis by (auto simp: load_cache_def Let_def split: option.splits)
qed

end
