(* ===== verification/DbWorkerSpec.thy ===== *)
theory DbWorkerSpec
  imports DbCoherence
begin

text \<open>
  The contract of the database worker over whole runs: the states it can reach from any stored
  database, what a reader of the cache sees, failed commands, revisions and serials.
\<close>

section \<open>Runs\<close>

inductive worker_reachable :: "worker_env \<Rightarrow> tables \<Rightarrow> tables \<times> database_cache \<Rightarrow> bool"
  for env t0 where
  start: "load_cache t0 = Some cache \<Longrightarrow> worker_reachable env t0 (t0, cache)"
| step: "worker_reachable env t0 s \<Longrightarrow> run_command env c s = (reply, s') \<Longrightarrow> worker_reachable env t0 s'"

fun run_commands ::
  "worker_env \<Rightarrow> db_command list \<Rightarrow> tables \<times> database_cache \<Rightarrow> db_reply list \<times> tables \<times> database_cache" where
  "run_commands env [] s = ([], s)"
| "run_commands env (c # cs) s =
     (case run_command env c s of (r, s) \<Rightarrow> (case run_commands env cs s of (rs, s) \<Rightarrow> (r # rs, s)))"

lemma reply_of_panic: "(\<And>x. f x \<noteq> PanicReply) \<Longrightarrow> reply_of f result = PanicReply \<longleftrightarrow> result = Panicked"
  by (cases result) (auto simp: reply_of_def)

lemma run_command_coherent:
  assumes env: "env_ok env" and coh: "coherent env (t, cache)"
    and run: "run_command env c (t, cache) = (reply, t', cache')"
  shows "coherent env (t', cache') \<and> (reply = PanicReply \<longrightarrow> u64_max \<le> next_revision cache)"
proof (cases c)
  case (CreateLog name contest station params)
  have rev: "\<forall>l e. hm_get (dc_logs cache) l = Some e \<longrightarrow> entry_revision e \<le> next_revision cache"
    using coh by (simp add: coherent_def logs_coherent_def)
  show ?thesis
  proof (cases "db_create_log env name contest station params t")
    case None
    with run coh show ?thesis by (simp add: CreateLog)
  next
    case (Some x)
    obtain lg t1 where d: "db_create_log env name contest station params t = Some (lg, t1)"
      using Some by (cases x) simp
    obtain ok c1 where p: "publish_log lg True cache = (ok, c1)" by fastforce
    have "reply = (if ok then LogReply (Some lg) else PanicReply)" "t' = t1" "cache' = c1"
      using run by (simp_all add: CreateLog d p)
    then show ?thesis
      using create_log_coherent [OF env coh d] publish_log_facts(7) [OF rev, of lg True] by (simp add: p)
  qed
next
  case (UpdateLog l name station params)
  obtain r t1 where u: "db_update_log env l name station params t = (r, t1)" by fastforce
  show ?thesis
  proof (cases r)
    case None
    then have "t1 = t" using u by (auto simp: db_update_log_def Let_def split: option.splits)
    with None u run coh show ?thesis by (auto simp: UpdateLog)
  next
    case (Some lg)
    have rev: "\<forall>l e. hm_get (dc_logs cache) l = Some e \<longrightarrow> entry_revision e \<le> next_revision cache"
      using coh by (simp add: coherent_def logs_coherent_def)
    obtain ok c1 where p: "publish_log lg False cache = (ok, c1)" by fastforce
    have "reply = (if ok then LogReply (Some lg) else PanicReply)" "t' = t1" "cache' = c1"
      using run Some u by (simp_all add: UpdateLog p)
    then show ?thesis
      using update_log_coherent [OF coh, of l name station params lg t1] Some u
        publish_log_facts(7) [OF rev, of lg False] by (simp add: p)
  qed
next
  case (DeleteLog l)
  obtain b t1 where d: "db_delete_log l t = (b, t1)" by fastforce
  show ?thesis
  proof (cases b)
    case False
    then have "t1 = t" using d by (auto simp: db_delete_log_def split: if_splits)
    with False d run coh show ?thesis by (auto simp: DeleteLog)
  next
    case True
    with d run delete_log_coherent [OF coh, of l t1] show ?thesis by (auto simp: DeleteLog)
  qed
next
  case (LoadContacts l)
  then show ?thesis using run load_contacts_coherent [OF coh, of l] by auto
next
  case (UpsertContacts l contacts)
  obtain r t1 c1 where w: "write_contacts env l contacts t cache = (r, t1, c1)" by (metis prod.collapse)
  with run have "reply = reply_of MutationReply r" "t' = t1" "cache' = c1" by (simp_all add: UpsertContacts)
  then show ?thesis using write_contacts_coherent [OF env coh w] by (simp add: reply_of_panic)
next
  case (AllocateSerial l field)
  obtain r t1 c1 where w: "reserve_serial env l field t cache = (r, t1, c1)" by (metis prod.collapse)
  with run have "reply = reply_of SerialReply r" "t' = t1" "cache' = c1" by (simp_all add: AllocateSerial)
  then show ?thesis using reserve_serial_coherent [OF coh w] by (simp add: reply_of_panic)
next
  case (DeleteContact i)
  obtain r t1 c1 where w: "remove_contact i t cache = (r, t1, c1)" by (metis prod.collapse)
  with run have "reply = reply_of DeletionReply r" "t' = t1" "cache' = c1" by (simp_all add: DeleteContact)
  then show ?thesis using remove_contact_coherent [OF coh w] by (simp add: reply_of_panic)
qed

lemma reachable_coherent:
  assumes "env_ok env" and "tables_ok t0" and "worker_reachable env t0 s"
  shows "coherent env s"
  using assms(3)
proof (induction rule: worker_reachable.induct)
  case (start cache)
  then show ?case using load_cache_coherent [OF assms(2)] by blast
next
  case (step s c reply s')
  then show ?case using run_command_coherent [OF assms(1)] by (metis prod.collapse)
qed

section \<open>The database of the program\<close>

text \<open>
  A database starts empty and is written by commands alone; the process may be stopped and started
  again between any two of them, and then loads the cache anew. The number counts the commands.
\<close>

definition no_tables :: tables where
  "no_tables = \<lparr>t_logs = [], t_qsos = [], t_serials = []\<rparr>"

inductive worker_history :: "worker_env \<Rightarrow> nat \<Rightarrow> tables \<times> database_cache \<Rightarrow> bool" for env where
  created: "load_cache no_tables = Some cache \<Longrightarrow> worker_history env 0 (no_tables, cache)"
| command: "worker_history env n s \<Longrightarrow> run_command env c s = (reply, s') \<Longrightarrow> worker_history env (Suc n) s'"
| restart: "worker_history env n (t, cache) \<Longrightarrow> load_cache t = Some cache' \<Longrightarrow> worker_history env n (t, cache')"

lemma no_tables_ok: "tables_ok no_tables"
  by (simp add: tables_ok_def no_tables_def table_ok_def bt.ok_new)

lemma load_contacts_frame:
  assumes "load_contacts env l t cache = Done c"
  shows "dc_logs c = dc_logs cache" and "dc_owners c = dc_owners cache" and "dc_counts c = dc_counts cache"
    and "dc_next_serial c = dc_next_serial cache" and "next_revision c = next_revision cache"
  using assms by (auto simp: load_contacts_def split: if_splits option.splits)

lemma load_contacts_not_failed: "load_contacts env l t cache \<noteq> Failed"
  by (simp add: load_contacts_def split: option.split)

lemma publish_contacts_frame:
  "publish_contacts l cs d = Some d' \<Longrightarrow> dc_logs d' = dc_logs d \<and> next_revision d' = next_revision d"
proof (induction cs arbitrary: d)
  case (Cons c cs)
  have "dc_logs d' = dc_logs d \<and> next_revision d' = next_revision d" if "publish_contact l c d = Some d'" for d'
    using that by (auto simp: publish_contact_def split: option.splits)
  then show ?case using Cons by (fastforce simp: bind_eq_Some_conv)
qed simp

lemma length_bt_put: "length (bt_put k v m) \<le> Suc (length m)"
  by (induction m) auto

lemma length_bt_remove: "length (bt_remove k m) \<le> length m"
  by (simp add: bt_remove_def)

text \<open>A command advances the revision by one at most and adds one log at most.\<close>

lemma publish_log_grows: "next_revision (snd (publish_log lg new_log cache)) \<le> Suc (next_revision cache)"
  by (auto simp: publish_log_def bump_revision_def Let_def split: option.splits if_splits)

lemma run_command_grows:
  assumes "run_command env c (t, cache) = (reply, t', cache')"
  shows "next_revision cache' \<le> Suc (next_revision cache) \<and> length (t_logs t') \<le> Suc (length (t_logs t))"
proof (cases c)
  case (CreateLog name contest station params)
  show ?thesis
  proof (cases "db_create_log env name contest station params t")
    case None
    with assms show ?thesis by (simp add: CreateLog)
  next
    case (Some x)
    obtain lg t1 where d: "db_create_log env name contest station params t = Some (lg, t1)"
      using Some by (cases x) simp
    then obtain l where t1: "t1 = t\<lparr>t_logs := bt_put l lg (t_logs t)\<rparr>" by (auto simp: db_create_log_def Let_def)
    have "t' = t1" "cache' = snd (publish_log lg True cache)"
      using assms by (simp_all add: CreateLog d split: prod.splits)
    then show ?thesis using publish_log_grows length_bt_put by (simp add: t1)
  qed
next
  case (UpdateLog l name station params)
  obtain r t1 where u: "db_update_log env l name station params t = (r, t1)" by fastforce
  have t1: "length (t_logs t1) \<le> Suc (length (t_logs t))"
    using u length_bt_put by (auto simp: db_update_log_def Let_def split: option.splits)
  have "t' = t1 \<and> (cache' = cache \<or> (\<exists>lg. cache' = snd (publish_log lg False cache)))"
  proof (cases r)
    case (Some lg)
    then have "t' = t1" "cache' = snd (publish_log lg False cache)"
      using assms by (simp_all add: UpdateLog u split: prod.splits)
    then show ?thesis by blast
  qed (use assms u in \<open>simp add: UpdateLog\<close>)
  then show ?thesis using t1 publish_log_grows by auto
next
  case (DeleteLog l)
  with assms length_bt_remove [of l "t_logs t"] show ?thesis
    by (auto simp: db_delete_log_def uncache_log_def Let_def split: if_splits)
next
  case (LoadContacts l)
  with assms load_contacts_frame(5) show ?thesis by (fastforce split: outcome.splits)
next
  case (UpsertContacts l contacts)
  with assms show ?thesis
    by (auto simp: write_contacts_def Let_def bump_revision_facts publish_contacts_frame load_contacts_frame
        dest: bump_revision_facts(1) split: outcome.splits option.splits if_splits prod.splits)
next
  case (AllocateSerial l field)
  with assms show ?thesis
    by (auto simp: reserve_serial_def db_allocate_serial_def Let_def load_contacts_frame
        split: outcome.splits option.splits if_splits prod.splits)
next
  case (DeleteContact i)
  with assms show ?thesis
    by (auto simp: remove_contact_def Let_def bump_revision_facts
        dest: bump_revision_facts(1) split: option.splits nat.splits prod.splits)
qed

lemma history_ok:
  assumes "env_ok env" and "worker_history env n s"
  shows "coherent env s \<and> next_revision (snd s) \<le> n \<and> length (t_logs (fst s)) \<le> n"
  using assms(2)
proof (induction rule: worker_history.induct)
  case (created cache)
  then show ?case using load_cache_coherent [OF no_tables_ok created] by (simp add: no_tables_def)
next
  case (command n s c reply s')
  obtain t cache t' cache' where s: "s = (t, cache)" "s' = (t', cache')" by fastforce
  note run = command.hyps(2) [unfolded s]
  have "coherent env (t, cache)" using command.IH by (simp add: s)
  from run_command_coherent [OF assms(1) this run] run_command_grows [OF run] command.IH
  show ?case by (auto simp: s)
next
  case (restart n t cache cache')
  then have "tables_ok t" by (simp add: coherent_def)
  from load_cache_coherent [OF this restart.hyps(2)] restart.IH show ?case by simp
qed

text \<open>
  C4. In a database the program itself wrote, through commands and restarts, the cache is the contents
  of the tables. As long as fewer than \<open>2^64 - 1\<close> commands were run on it, no command panics, whatever
  it is, and neither does loading the cache at a restart: the revision, which counts at most the
  commands and the logs loaded, stays below its maximum.
\<close>

theorem worker_never_panics:
  assumes "env_ok env" and "worker_history env n s" and "n < u64_max"
  shows "coherent env s \<and> fst (run_command env c s) \<noteq> PanicReply \<and> load_cache (fst s) \<noteq> None"
proof -
  obtain t cache where s: "s = (t, cache)" by fastforce
  note ok = history_ok [OF assms(1,2), unfolded s fst_conv snd_conv]
  obtain reply t' cache' where run: "run_command env c (t, cache) = (reply, t', cache')" by (metis prod.collapse)
  have "reply \<noteq> PanicReply"
    using run_command_coherent [OF assms(1) _ run] ok assms(3) by fastforce
  moreover have "load_cache t \<noteq> None"
    using load_cache_defined ok assms(3) by (simp add: coherent_def)
  ultimately show ?thesis using ok by (simp add: s run)
qed

section \<open>Readers\<close>

lemma set_db_contacts:
  assumes "table_ok table"
  shows "c \<in> set (db_contacts env l table) \<longleftrightarrow> (\<exists>i. log_rows env l table i = Some c)"
proof -
  have "row \<in> snd ` set table \<longleftrightarrow> (\<exists>i. map_of table i = Some row)" for row
    using assms by (force simp: table_ok_def bt_ok_distinct)
  then have "c \<in> set (db_contacts env l table) \<longleftrightarrow>
      (\<exists>i row. map_of table i = Some row \<and> row_log_id row = l \<and> c = row_to_contact env row)"
    by (auto simp: db_contacts_def)
  also have "\<dots> \<longleftrightarrow> (\<exists>i. log_rows env l table i = Some c)"
    by (auto simp: log_rows_def split: option.splits if_splits)
  finally show ?thesis .
qed

lemma snapshot_rows:
  assumes "env_ok env" and "tables_ok t0" and "worker_reachable env t0 (t, cache)"
    and "snapshot l cache = Some snap"
  shows "map_of (t_logs t) l = Some (snap_log snap)" and "contacts_ok (snap_contacts snap)"
    and "set (cached_to_list (snap_contacts snap)) = set (db_contacts (env_sql env) l (t_qsos t))"
proof -
  have coh: "coherent env (t, cache)" by (rule reachable_coherent [OF assms(1-3)])
  obtain entry cc where e: "hm_get (dc_logs cache) l = Some entry" "hm_get (dc_contacts cache) l = Some cc"
    and snap: "snap_log snap = entry_log entry" "snap_contacts snap = cc"
    using assms(4) by (auto simp: snapshot_def split: option.splits)
  show "map_of (t_logs t) l = Some (snap_log snap)"
    using coh e(1) unfolding snap coherent_def logs_coherent_def fst_conv snd_conv by (metis option.simps(9))
  have cc: "contacts_ok cc" "cached_contact cc = log_rows (env_sql env) l (t_qsos t)"
    using coh e(2) unfolding coherent_def rows_coherent_def fst_conv snd_conv by blast+
  show "contacts_ok (snap_contacts snap)" using cc(1) by (simp add: snap)
  have "table_ok (t_qsos t)" using coh by (simp add: coherent_def tables_ok_def)
  from set_db_contacts [OF this] have "set (db_contacts (env_sql env) l (t_qsos t)) = ran (cached_contact cc)"
    by (auto simp: cc(2) ran_def)
  moreover have "cached_contact cc = hm_get (by_id cc)" by (simp add: cached_contact_def fun_eq_iff)
  ultimately show "set (cached_to_list (snap_contacts snap)) = set (db_contacts (env_sql env) l (t_qsos t))"
    using cached_to_list_set [OF cc(1)] by (simp add: snap)
qed

text \<open>
  A reader that finds a log in the cache gets the stored log and exactly the contacts that the
  query on the table would return.
\<close>

theorem snapshot_is_stored:
  assumes "env_ok env" and "tables_ok t0" and "worker_reachable env t0 (t, cache)"
    and "snapshot l cache = Some snap"
  shows "map_of (t_logs t) l = Some (snap_log snap)
    \<and> set (cached_to_list (snap_contacts snap)) = set (db_contacts (env_sql env) l (t_qsos t))"
  using snapshot_rows [OF assms] by blast

section \<open>Failed commands\<close>

text \<open>
  C30. A command that fails changes neither the tables nor anything the cache publishes: it can only
  have loaded the contacts of its log.
\<close>

theorem failed_command_changes_nothing:
  assumes "run_command env c (t, cache) = (FailedReply, t', cache')"
  shows "t' = t \<and> cache' = cache\<lparr>dc_contacts := dc_contacts cache'\<rparr>"
proof -
  have frame: "c0 = cache\<lparr>dc_contacts := dc_contacts c0\<rparr>" if "load_contacts env l t cache = Done c0" for l c0
    using load_contacts_frame [OF that] by simp
  have reply: "reply_of f r = FailedReply \<longleftrightarrow> r = Failed" if "\<And>x. f x \<noteq> FailedReply" for f and r :: "'a outcome"
    using that by (cases r) (auto simp: reply_of_def)
  show ?thesis
  proof (cases c)
    case (UpsertContacts l contacts)
    then have "write_contacts env l contacts t cache = (Failed, t', cache')"
      using assms by (auto simp: reply_of_def split: prod.splits outcome.splits)
    then show ?thesis
      using frame load_contacts_not_failed
      by (auto simp: write_contacts_def Let_def split: outcome.splits option.splits if_splits prod.splits)
  next
    case (AllocateSerial l field)
    then have "reserve_serial env l field t cache = (Failed, t', cache')"
      using assms by (auto simp: reply_of_def split: prod.splits outcome.splits)
    then show ?thesis
      using frame load_contacts_not_failed
      by (auto simp: reserve_serial_def Let_def split: outcome.splits option.splits if_splits)
  next
    case (DeleteContact i)
    then have "remove_contact i t cache = (Failed, t', cache')"
      using assms by (auto simp: reply_of_def split: prod.splits outcome.splits)
    then show ?thesis
      by (auto simp: remove_contact_def Let_def split: option.splits nat.splits prod.splits)
  qed (use assms load_contacts_not_failed in
    \<open>auto simp: Let_def db_update_log_def split: option.splits outcome.splits prod.splits if_splits\<close>)
qed

section \<open>Revisions\<close>

text \<open>
  Storing contacts answers with the revision of the log before and after: the first is the
  published one, the second is published now and is greater.
\<close>

theorem mutation_revisions:
  assumes "env_ok env" and "tables_ok t0" and "worker_reachable env t0 (t, cache)"
    and "run_command env (UpsertContacts l contacts) (t, cache) = (MutationReply m, t', cache')"
  shows "log_revision l cache = Some (mut_previous_revision m)
    \<and> log_revision l cache' = Some (mut_revision m) \<and> mut_previous_revision m < mut_revision m"
proof -
  have coh: "coherent env (t, cache)" by (rule reachable_coherent [OF assms(1-3)])
  have w: "write_contacts env l contacts t cache = (Done m, t', cache')"
    using assms(4) by (auto simp: reply_of_def split: prod.splits outcome.splits)
  obtain c0 entry committed table c1 rv where load: "load_contacts env l t cache = Done c0"
    and entry: "hm_get (dc_logs c0) l = Some entry" and p: "publish_contacts l committed c0 = Some c1"
    and b: "bump_revision l c1 = Some (rv, cache')"
    and m: "mut_previous_revision m = entry_revision entry" "mut_revision m = rv"
    using w by (auto simp: write_contacts_def Let_def split: outcome.splits option.splits if_splits prod.splits)
  note f = bump_revision_facts [OF b] and lf = load_contacts_frame [OF load]
  have e1: "hm_get (dc_logs cache) l = Some entry" using entry lf by simp
  then have "entry_revision entry \<le> next_revision cache"
    using coh unfolding coherent_def logs_coherent_def fst_conv snd_conv by blast
  with publish_contacts_frame [OF p] e1 m f(1) f(7) [of l] lf show ?thesis by (simp add: log_revision_def)
qed

section \<open>Serials\<close>

definition stored_next :: "tables \<Rightarrow> int \<Rightarrow> string \<Rightarrow> int" where
  "stored_next t l f = (case map_of (t_serials t) (l, f) of Some n \<Rightarrow> n | None \<Rightarrow> 1)"

lemma reserve_serial_facts:
  assumes coh: "coherent env (t, cache)" and run: "reserve_serial env l field t cache = (Done n, t', cache')"
  defines "f \<equiv> to_upper (trim field)"
  shows "stored_next t l f \<le> n" and "0 < n" and "t' = t\<lparr>t_serials := bt_put (l, f) (n + 1) (t_serials t)\<rparr>"
    and "log_rows (env_sql env) l (t_qsos t) i = Some c \<Longrightarrow> contact_serials c f = Some v \<Longrightarrow> v < n"
proof -
  obtain c0 where load: "load_contacts env l t cache = Done c0" and c0: "coherent env (t, c0)"
    using load_contacts_coherent [OF coh, of l] by blast
  have nv: "next_serial_value l f c0 = Done n" and al: "\<exists>t1. db_allocate_serial l f n t = Some t1 \<and> t' = t1"
    using run load by (auto simp: reserve_serial_def f_def Let_def split: if_splits outcome.splits option.splits)
  show "t' = t\<lparr>t_serials := bt_put (l, f) (n + 1) (t_serials t)\<rparr>"
    using al by (auto simp: db_allocate_serial_def checked_i64_def split: option.splits if_splits)
  obtain cc where cc: "hm_get (dc_contacts c0) l = Some cc"
    using nv by (auto simp: next_serial_value_def split: option.splits)
  have ok: "contacts_ok cc" "cached_contact cc = log_rows (env_sql env) l (t_qsos t)"
    using c0 cc unfolding coherent_def rows_coherent_def fst_conv snd_conv by blast+
  have stored: "hm_get (dc_next_serial c0) (l, f) = map_of (t_serials t) (l, f)"
    using c0 unfolding coherent_def serials_coherent_def fst_conv snd_conv by blast
  define committed where "committed = (case serial_max cc f None of Some v \<Rightarrow> v + 1 | None \<Rightarrow> 1)"
  have n: "n = max (max (stored_next t l f) committed) 1"
    using nv by (auto simp: next_serial_value_def cc stored stored_next_def committed_def checked_i64_def
        split: option.splits if_splits)
  then show "stored_next t l f \<le> n" "0 < n" by simp_all
  assume c: "log_rows (env_sql env) l (t_qsos t) i = Some c" "contact_serials c f = Some v"
  have ff: "to_upper (trim f) = f" by (simp add: f_def trim_to_upper)
  show "v < n"
  proof (cases "serial_max cc f None")
    case None
    with serial_max_spec [OF ok(1) ff, of None] c show ?thesis by (auto simp: ok(2))
  next
    case (Some w)
    with serial_max_spec [OF ok(1) ff, of None] c have "v \<le> w" by (auto simp: ok(2))
    with Some n show ?thesis by (simp add: committed_def)
  qed
qed

text \<open>
  A serial handed out is positive and above every serial of that field in the logged contacts,
  and at least the stored next value.
\<close>

theorem allocated_serial_is_new:
  assumes "env_ok env" and "tables_ok t0" and "worker_reachable env t0 (t, cache)"
    and "run_command env (AllocateSerial l field) (t, cache) = (SerialReply n, t', cache')"
    and "c \<in> set (db_contacts (env_sql env) l (t_qsos t))"
    and "contact_serials c (to_upper (trim field)) = Some v"
  shows "v < n \<and> 0 < n \<and> stored_next t l (to_upper (trim field)) \<le> n"
proof -
  have coh: "coherent env (t, cache)" by (rule reachable_coherent [OF assms(1-3)])
  have w: "reserve_serial env l field t cache = (Done n, t', cache')"
    using assms(4) by (auto simp: reply_of_def split: prod.splits outcome.splits)
  have "table_ok (t_qsos t)" using coh by (simp add: coherent_def tables_ok_def)
  then obtain i where "log_rows (env_sql env) l (t_qsos t) i = Some c"
    using assms(5) by (auto simp: set_db_contacts)
  with reserve_serial_facts [OF coh w] assms(6) show ?thesis by blast
qed

lemma stored_next_grows:
  assumes env: "env_ok env" and coh: "coherent env (t, cache)"
    and run: "run_command env c (t, cache) = (reply, t', cache')"
    and "c \<noteq> DeleteLog l"
  shows "stored_next t l f \<le> stored_next t' l f"
proof (cases c)
  case (DeleteLog k)
  have "distinct (map fst (t_serials t))"
    using coh by (simp add: coherent_def tables_ok_def bt_ok_distinct)
  then have ok: "hm_ok (t_serials t)" by (simp add: hm_ok_def)
  have "t_serials t' = t_serials t \<or> t_serials t' = hm_retain (\<lambda>(owner, _) _. owner \<noteq> k) (t_serials t)"
    using run by (auto simp: DeleteLog Let_def db_delete_log_def hm_retain_def case_prod_unfold split: if_splits)
  moreover have "map_of (hm_retain (\<lambda>(owner, _) _. owner \<noteq> k) (t_serials t)) (l, f) = map_of (t_serials t) (l, f)"
    using hm_get_retain [OF ok, of "\<lambda>(owner, _) _. owner \<noteq> k" "(l, f)"] assms(4) DeleteLog
    by (simp split: option.splits)
  ultimately show ?thesis by (auto simp: stored_next_def)
next
  case (AllocateSerial k field)
  obtain r where r: "reserve_serial env k field t cache = (r, t', cache')"
    using run by (auto simp: AllocateSerial split: prod.splits)
  show ?thesis
  proof (cases r)
    case (Done n)
    note fact = reserve_serial_facts [OF coh r [unfolded Done]]
    show ?thesis using fact(1) by (auto simp: fact(3) stored_next_def bt_get_put split: if_splits)
  next
    case Failed
    then have "t' = t" using r by (auto simp: reserve_serial_def Let_def split: if_splits outcome.splits option.splits)
    then show ?thesis by simp
  next
    case Panicked
    with reserve_serial_coherent [OF coh r] show ?thesis by simp
  qed
qed (use run in \<open>auto simp: stored_next_def Let_def db_create_log_def db_update_log_def write_contacts_def
    remove_contact_def split: option.splits outcome.splits prod.splits if_splits nat.splits\<close>)

lemma run_commands_grow:
  assumes env: "env_ok env" and "coherent env s" and "run_commands env cs s = (rs, s')"
    and "DeleteLog l \<notin> set cs"
  shows "coherent env s' \<and> stored_next (fst s) l f \<le> stored_next (fst s') l f"
  using assms(2-4)
proof (induction cs arbitrary: s rs)
  case (Cons c cs)
  obtain t cache where s: "s = (t, cache)" by fastforce
  obtain r t1 cache1 where one: "run_command env c (t, cache) = (r, t1, cache1)" by (metis prod.collapse)
  obtain rs' where rest: "run_commands env cs (t1, cache1) = (rs', s')"
    using Cons.prems(2) one by (auto simp: s split: prod.splits)
  have coh: "coherent env (t, cache)" using Cons.prems(1) s by simp
  have "coherent env (t1, cache1)" using run_command_coherent [OF env coh one] by simp
  moreover have "stored_next t l f \<le> stored_next t1 l f"
    using stored_next_grows [OF env coh one, of l f] Cons.prems(3) by (metis list.set_intros(1))
  ultimately show ?case using Cons.IH [OF _ rest] Cons.prems(3) by (fastforce simp: s)
qed simp

text \<open>
  C29. No serial of a field is handed out twice while its log exists, whatever happens between the
  two allocations: the later one is greater.
\<close>

theorem serials_increase:
  assumes "env_ok env" and "tables_ok t0" and "worker_reachable env t0 s"
    and "run_command env (AllocateSerial l field) s = (SerialReply n, s1)"
    and "run_commands env cs s1 = (rs, s2)" and "DeleteLog l \<notin> set cs"
    and "run_command env (AllocateSerial l field') s2 = (SerialReply m, s3)"
    and "to_upper (trim field') = to_upper (trim field)"
  shows "n < m"
proof -
  let ?f = "to_upper (trim field)"
  obtain t cache t1 cache1 t2 cache2 t3 cache3 where
    s: "s = (t, cache)" "s1 = (t1, cache1)" "s2 = (t2, cache2)" "s3 = (t3, cache3)"
    by (metis prod.collapse)
  have coh: "coherent env (t, cache)" using reachable_coherent [OF assms(1-3)] by (simp add: s)
  have w: "reserve_serial env l field t cache = (Done n, t1, cache1)"
    using assms(4) by (auto simp: s reply_of_def split: prod.splits outcome.splits)
  have coh1: "coherent env s1" using reserve_serial_coherent [OF coh w] by (simp add: s)
  have "stored_next t1 l ?f = n + 1"
    using reserve_serial_facts(3) [OF coh w] by (simp add: stored_next_def bt_get_put)
  moreover have coh2: "coherent env (t2, cache2)" and "stored_next t1 l ?f \<le> stored_next t2 l ?f"
    using run_commands_grow [OF assms(1) coh1 assms(5,6), of ?f] by (simp_all add: s)
  moreover have "reserve_serial env l field' t2 cache2 = (Done m, t3, cache3)"
    using assms(7) by (auto simp: s reply_of_def split: prod.splits outcome.splits)
  from reserve_serial_facts(1) [OF coh2 this] assms(8) have "stored_next t2 l ?f \<le> m" by simp
  ultimately show ?thesis by simp
qed

section \<open>A sample run\<close>

definition run_env :: worker_env where
  "run_env = \<lparr>env_sql = sample_env, fresh_log_id = (\<lambda>logs. if logs = [] then Some 1 else None)\<rparr>"

definition session_commands :: "db_command list" where
  "session_commands =
     [CreateLog ''Test'' ''T'' ''w1aw'' (JObject []), UpsertContacts 1 [full_contact]]"

definition session_state :: "tables \<times> database_cache" where
  "session_state = snd (run_commands run_env session_commands (no_tables, empty_cache))"

lemma run_env_ok: "env_ok run_env"
  by (auto simp: env_ok_def run_env_def sample_env_def in_i64_def i64_min_def i64_max_def)

lemma run_commands_reachable:
  "worker_reachable env t0 s \<Longrightarrow> run_commands env cs s = (rs, s') \<Longrightarrow> worker_reachable env t0 s'"
proof (induction cs arbitrary: s rs)
  case (Cons c cs)
  obtain r s1 where one: "run_command env c s = (r, s1)" by (meson surj_pair)
  obtain rs' where "run_commands env cs s1 = (rs', s')"
    using Cons.prems(2) one by (auto split: prod.splits)
  then show ?case by (rule Cons.IH [OF worker_reachable.step [OF Cons.prems(1) one]])
qed simp

lemma no_tables_loaded: "load_cache no_tables = Some empty_cache"
  by (simp add: load_cache_def no_tables_def db_logs_def empty_cache_def)

lemma session_reachable: "worker_reachable run_env no_tables session_state"
  unfolding session_state_def
  by (rule run_commands_reachable [OF worker_reachable.start [OF no_tables_loaded]]) (simp add: prod_eq_iff)

lemma run_commands_history:
  "worker_history env n s \<Longrightarrow> run_commands env cs s = (rs, s') \<Longrightarrow> worker_history env (length cs + n) s'"
proof (induction cs arbitrary: s rs n)
  case (Cons c cs)
  obtain r s1 where one: "run_command env c s = (r, s1)" by (meson surj_pair)
  obtain rs' where "run_commands env cs s1 = (rs', s')"
    using Cons.prems(2) one by (auto split: prod.splits)
  from Cons.IH [OF worker_history.command [OF Cons.prems(1) one] this] show ?case by simp
qed simp

lemma session_history: "worker_history run_env 2 session_state"
proof -
  have "run_commands run_env session_commands (no_tables, empty_cache) =
      (fst (run_commands run_env session_commands (no_tables, empty_cache)), session_state)"
    by (simp add: session_state_def del: run_commands.simps)
  from run_commands_history [OF worker_history.created [OF no_tables_loaded] this]
  have "worker_history run_env (length session_commands + 0) session_state" .
  moreover have "length session_commands + 0 = 2" by (simp add: session_commands_def)
  ultimately show ?thesis by (simp only:)
qed

theorem worker_never_panics_witness:
  "coherent run_env session_state \<and> load_cache (fst session_state) \<noteq> None
   \<and> fst (run_command run_env (AllocateSerial 1 ''stx'') session_state) = SerialReply 8"
proof -
  have "(2::nat) < u64_max" by (simp add: u64_max_def)
  note ok = worker_never_panics [OF run_env_ok session_history this]
  have "fst (run_command run_env (AllocateSerial 1 ''stx'') session_state) = SerialReply 8" by code_simp
  with ok show ?thesis by blast
qed

theorem failed_command_changes_nothing_witness:
  "fst (run_command run_env (AllocateSerial 2 ''STX'') session_state) = FailedReply
   \<and> fst (snd (run_command run_env (AllocateSerial 2 ''STX'') session_state)) = fst session_state"
proof -
  obtain t cache where s: "session_state = (t, cache)" by fastforce
  have f: "fst (run_command run_env (AllocateSerial 2 ''STX'') session_state) = FailedReply" by code_simp
  then obtain t' cache' where r: "run_command run_env (AllocateSerial 2 ''STX'') (t, cache) = (FailedReply, t', cache')"
    unfolding s by (metis prod.collapse)
  from failed_command_changes_nothing [OF r] have "t' = t" by blast
  with f r show ?thesis unfolding s by (simp only: fst_conv snd_conv)
qed

theorem serials_increase_witness:
  "\<exists>n s1 m s3. run_command run_env (AllocateSerial 1 ''stx'') session_state = (SerialReply n, s1)
     \<and> run_command run_env (AllocateSerial 1 '' Stx'') s1 = (SerialReply m, s3) \<and> n < m"
proof -
  let ?one = "run_command run_env (AllocateSerial 1 ''stx'') session_state"
  let ?two = "run_command run_env (AllocateSerial 1 '' Stx'') (snd ?one)"
  have "fst ?one = SerialReply 8" "fst ?two = SerialReply 9" by (code_simp, code_simp)
  then have one: "?one = (SerialReply 8, snd ?one)" and two: "?two = (SerialReply 9, snd ?two)"
    by (metis prod.collapse)+
  have none: "run_commands run_env [] (snd ?one) = ([], snd ?one)" "DeleteLog 1 \<notin> set []"
    and same: "to_upper (trim '' Stx'') = to_upper (trim ''stx'')"
    by (simp, simp, code_simp)
  from serials_increase [OF run_env_ok no_tables_ok session_reachable one none two same] one two
  show ?thesis by blast
qed

end
