(* ===== verification/LogCache.thy ===== *)
theory LogCache
  imports IncrementalScore DbWorker Dxcc
begin

text \<open>
  \<open>backend/src/log_cache.rs\<close>: the derived state of each log (its contacts newest first with their
  scores, the index of callsigns and the positions), kept next to the database cache, and the
  processors that follow it (score, band map, statistics, partial callsigns).

  A processor is a record of the trait's methods over one state \<open>'p\<close> shared by all of them. The
  lock that serialises the operations on a log is the sequential order of the model. The database
  is used by other tasks meanwhile, so what each query on it answers is an argument: a \<open>db_view\<close>
  holds the answers of one round of the loop of \<open>ensure_loaded_locked\<close>, and running out of views
  (\<open>None\<close>) is a loop that has not ended yet.
\<close>

section \<open>Keys and orders\<close>

definition contact_order_key :: "contact \<Rightarrow> int \<times> int" where
  "contact_order_key contact =
     (case Option.bind (contact_adif_value contact ''QSO_DATE_TIME_ON'') as_i64 of Some t \<Rightarrow> t | None \<Rightarrow> 0,
      case contact_id contact of Some i \<Rightarrow> i | None \<Rightarrow> 0)"

definition sort_contacts_desc :: "contact list \<Rightarrow> contact list" where
  "sort_contacts_desc contacts = sort_key (\<lambda>c. Reverse (contact_order_key c)) contacts"

definition contact_callsign :: "contact \<Rightarrow> string option" where
  "contact_callsign contact =
     (let callsign = to_upper (trim (case Option.bind (contact_adif_value contact ''CALL'') as_str of
                                       Some s \<Rightarrow> s | None \<Rightarrow> []))
      in if callsign = [] then None else Some callsign)"

definition normalized_callsign_prefix :: "string option \<Rightarrow> string option" where
  "normalized_callsign_prefix wanted =
     (let p = to_upper (trim (case wanted of Some s \<Rightarrow> s | None \<Rightarrow> []))
      in if p = [] then None else Some p)"

fun dedupe_from :: "contact list \<Rightarrow> int list \<Rightarrow> int list \<Rightarrow> contact list" where
  "dedupe_from [] excluded seen = []"
| "dedupe_from (c # cs) excluded seen =
     (case contact_id c of
        None \<Rightarrow> dedupe_from cs excluded seen
      | Some i \<Rightarrow>
          if i \<in> set excluded \<or> i \<in> set seen then dedupe_from cs excluded seen
          else c # dedupe_from cs excluded (i # seen))"

definition dedupe_contacts :: "contact list \<Rightarrow> int list \<Rightarrow> contact list" where
  "dedupe_contacts contacts excluded = dedupe_from contacts excluded []"

definition merge_contact :: "contact list \<Rightarrow> contact \<Rightarrow> contact list" where
  "merge_contact contacts contact =
     (case contact_id contact of
        None \<Rightarrow> contacts @ [contact]
      | Some i \<Rightarrow>
          (case position (\<lambda>c. contact_id c = Some i) contacts of
             Some index \<Rightarrow> contacts[index := contact]
           | None \<Rightarrow> contacts @ [contact]))"

section \<open>Filling in what the DXCC database knows\<close>

definition station_call :: "contact \<Rightarrow> string option" where
  "station_call contact =
     (case map_option trim (Option.bind (contact_adif_value contact ''STATION_CALLSIGN'') as_str) of
        Some (c # cs) \<Rightarrow> Some (to_upper (c # cs))
      | _ \<Rightarrow> None)"

definition worked_call :: "contact \<Rightarrow> string option" where
  "worked_call contact =
     (case map_option trim (Option.bind (contact_adif_value contact ''CALL'') as_str) of
        Some (c # cs) \<Rightarrow> Some (c # cs)
      | _ \<Rightarrow> None)"

definition stamp_station :: "dxcc_info \<Rightarrow> contact \<Rightarrow> contact" where
  "stamp_station info contact =
     (let contact = set_contact_adif contact ''MY_DXCC'' (JInt (int (info_adif info)));
          contact = set_contact_adif contact ''MY_CONT'' (JString (info_continent info))
      in set_contact_adif contact ''APP_LOG73_MY_DXCC_PFX'' (JString (info_primary_prefix info)))"

definition text_missing :: "contact \<Rightarrow> string \<Rightarrow> bool" where
  "text_missing contact name \<longleftrightarrow>
     (case Option.bind (contact_adif_value contact name) as_str of Some t \<Rightarrow> trim t = [] | None \<Rightarrow> True)"

definition dxcc_missing :: "contact \<Rightarrow> bool" where
  "dxcc_missing contact \<longleftrightarrow>
     (case contact_adif_value contact ''DXCC'' of None \<Rightarrow> True | Some v \<Rightarrow> v = JNull)"

definition stamp_worked :: "dxcc_database \<Rightarrow> contact \<Rightarrow> contact" where
  "stamp_worked db contact =
     (case worked_call contact of
        None \<Rightarrow> contact
      | Some callsign \<Rightarrow>
          let no_dxcc = dxcc_missing contact;
              no_prefix = text_missing contact ''APP_LOG73_DXCC_PFX'';
              no_continent = text_missing contact ''CONT''
          in if \<not> no_dxcc \<and> \<not> no_prefix \<and> \<not> no_continent then contact
             else (case dxcc_lookup db callsign of
               None \<Rightarrow> contact
             | Some info \<Rightarrow>
                 let contact = (if no_dxcc then set_contact_adif contact ''DXCC'' (JInt (int (info_adif info)))
                                else contact);
                     contact = (if no_prefix \<and> trim (info_primary_prefix info) \<noteq> []
                                then set_contact_adif contact ''APP_LOG73_DXCC_PFX''
                                       (JString (info_primary_prefix info))
                                else contact)
                 in if no_continent \<and> trim (info_continent info) \<noteq> []
                    then set_contact_adif contact ''CONT'' (JString (info_continent info))
                    else contact))"

text \<open>The lookups of station callsigns are remembered while the contacts are enriched.\<close>

fun enrich_from ::
  "dxcc_database \<Rightarrow> contact list \<Rightarrow> (string, dxcc_info option) hmap \<Rightarrow> contact list" where
  "enrich_from db [] known = []"
| "enrich_from db (contact # contacts) known =
     (let (info, known) =
            (case station_call contact of
               None \<Rightarrow> (None, known)
             | Some callsign \<Rightarrow>
                 (case hm_get known callsign of
                    Some info \<Rightarrow> (info, known)
                  | None \<Rightarrow> let info = dxcc_lookup db callsign in (info, hm_put callsign info known)));
          contact = (case info of Some i \<Rightarrow> stamp_station i contact | None \<Rightarrow> contact)
      in stamp_worked db contact # enrich_from db contacts known)"

definition enrich_missing_dxcc :: "dxcc_database \<Rightarrow> contact list \<Rightarrow> contact list" where
  "enrich_missing_dxcc db contacts = enrich_from db contacts []"

section \<open>The cached log\<close>

record cached_log =
  cl_revision :: nat
  cl_module :: module_arc
  cl_contacts :: "contact list"
  callsign_index :: "(string \<times> int list) list"
  contact_positions :: "(int, nat) hmap"

definition push_callsign :: "contact \<Rightarrow> (string \<times> int list) list \<Rightarrow> (string \<times> int list) list" where
  "push_callsign contact index =
     (case (contact_id contact, contact_callsign contact) of
        (Some i, Some callsign) \<Rightarrow>
          bt_put callsign ((case map_of index callsign of Some ids \<Rightarrow> ids | None \<Rightarrow> []) @ [i]) index
      | _ \<Rightarrow> index)"

fun set_positions :: "nat \<Rightarrow> contact list \<Rightarrow> (int, nat) hmap \<Rightarrow> (int, nat) hmap" where
  "set_positions index [] m = m"
| "set_positions index (c # cs) m =
     set_positions (Suc index) cs
       (case contact_id c of Some i \<Rightarrow> hm_put i index m | None \<Rightarrow> m)"

definition rebuild_indexes :: "cached_log \<Rightarrow> cached_log" where
  "rebuild_indexes cl =
     cl\<lparr>callsign_index := fold push_callsign (cl_contacts cl) [],
        contact_positions := set_positions 0 (cl_contacts cl) []\<rparr>"

definition new_cached_log :: "module_arc \<Rightarrow> contact list \<Rightarrow> cached_log" where
  "new_cached_log arc contacts =
     rebuild_indexes \<lparr>cl_revision = 0, cl_module = arc, cl_contacts = contacts,
                      callsign_index = [], contact_positions = []\<rparr>"

definition contact_by_id :: "cached_log \<Rightarrow> int \<Rightarrow> contact option" where
  "contact_by_id cl i =
     (case hm_get (contact_positions cl) i of
        None \<Rightarrow> None
      | Some index \<Rightarrow> if index < length (cl_contacts cl) then Some (cl_contacts cl ! index) else None)"

text \<open>\<open>range(prefix..)\<close> until the first key without the prefix.\<close>

definition matching_contact_ids_for_prefix :: "cached_log \<Rightarrow> string \<Rightarrow> int list" where
  "matching_contact_ids_for_prefix cl p =
     fold (\<lambda>(_, ids) acc. fold hs_insert ids acc)
       (takeWhile (\<lambda>(callsign, _). prefix p callsign)
         (dropWhile (\<lambda>(callsign, _). callsign < p) (callsign_index cl))) []"

definition sorted_insert_position :: "cached_log \<Rightarrow> contact \<Rightarrow> nat" where
  "sorted_insert_position cl contact =
     (let key = contact_order_key contact
      in (case cl_contacts cl of
            [] \<Rightarrow> 0
          | first # _ \<Rightarrow>
              if contact_order_key first < key then 0
              else if key \<le> contact_order_key (last (cl_contacts cl)) then length (cl_contacts cl)
              else partition_point (\<lambda>c. key \<le> contact_order_key c) (cl_contacts cl)))"

definition insert_new_contact_sorted :: "contact \<Rightarrow> cached_log \<Rightarrow> cached_log" where
  "insert_new_contact_sorted contact cl =
     (let index = sorted_insert_position cl contact;
          contacts = insert_at index contact (cl_contacts cl)
      in cl\<lparr>cl_contacts := contacts,
            contact_positions := set_positions index (drop index contacts) (contact_positions cl),
            callsign_index := push_callsign contact (callsign_index cl)\<rparr>)"

definition has_contact_id :: "cached_log \<Rightarrow> contact \<Rightarrow> bool" where
  "has_contact_id cl contact \<longleftrightarrow>
     (case contact_id contact of Some i \<Rightarrow> hm_get (contact_positions cl) i \<noteq> None | None \<Rightarrow> False)"

fun insert_committed :: "contact list \<Rightarrow> bool \<Rightarrow> cached_log \<Rightarrow> bool \<times> cached_log" where
  "insert_committed [] dirty cl = (dirty, cl)"
| "insert_committed (c # cs) dirty cl =
     (if dirty \<or> has_contact_id cl c
      then insert_committed cs True (cl\<lparr>cl_contacts := merge_contact (cl_contacts cl) c\<rparr>)
      else insert_committed cs False (insert_new_contact_sorted c cl))"

definition apply_upserted_contacts ::
  "contact list \<Rightarrow> contact option list \<Rightarrow> cached_log \<Rightarrow> bool \<times> cached_log" where
  "apply_upserted_contacts committed previous cl =
     (if list_ex (\<lambda>p. p \<noteq> None) previous
      then (True, cl\<lparr>cl_contacts := sort_contacts_desc (foldl merge_contact (cl_contacts cl) committed)\<rparr>)
      else (case insert_committed committed False cl of
        (dirty, cl) \<Rightarrow>
          (dirty, if dirty then cl\<lparr>cl_contacts := sort_contacts_desc (cl_contacts cl)\<rparr> else cl)))"

section \<open>The cache and its processors\<close>

record 'p processor =
  on_log_loaded :: "int \<Rightarrow> module_arc \<Rightarrow> contact list \<Rightarrow> 'p \<Rightarrow> contact list \<times> 'p"
  on_contacts_upserted ::
    "int \<Rightarrow> module_arc \<Rightarrow> contact list \<Rightarrow> contact list \<Rightarrow> contact option list \<Rightarrow> 'p
       \<Rightarrow> contact list \<times> contact list \<times> 'p"
  on_contact_deleted ::
    "int \<Rightarrow> module_arc \<Rightarrow> contact list \<Rightarrow> contact \<Rightarrow> 'p \<Rightarrow> contact list \<times> contact list \<times> 'p"
  on_log_removed :: "int \<Rightarrow> 'p \<Rightarrow> 'p"

record 'p log_cache =
  lc_logs :: "(int, cached_log) hmap"
  lc_modules :: scoring_modules
  lc_state :: 'p

record log_cache_env =
  rules_store :: "string \<Rightarrow> contest_rules option"
  distance_fn :: "grid_center \<Rightarrow> grid_center \<Rightarrow> int \<Rightarrow> int"
  dxcc_db :: dxcc_database

datatype log_cache_error = DbError string | LogNotFound int | UnknownContest string | NotLoaded int

record db_view =
  view_snapshot :: "string + log_snapshot option"
  revision_before :: "nat option"
  revision_after :: "nat option"

fun run_loaded ::
  "'p processor list \<Rightarrow> int \<Rightarrow> module_arc \<Rightarrow> contact list \<Rightarrow> 'p \<Rightarrow> contact list \<times> 'p" where
  "run_loaded [] l arc contacts s = (contacts, s)"
| "run_loaded (p # ps) l arc contacts s =
     (case on_log_loaded p l arc contacts s of (contacts, s) \<Rightarrow> run_loaded ps l arc contacts s)"

fun run_upserted ::
  "'p processor list \<Rightarrow> int \<Rightarrow> module_arc \<Rightarrow> contact list \<Rightarrow> contact option list \<Rightarrow> contact list \<Rightarrow> 'p
     \<Rightarrow> contact list \<times> contact list \<times> 'p" where
  "run_upserted [] l arc committed previous contacts s = ([], contacts, s)"
| "run_upserted (p # ps) l arc committed previous contacts s =
     (case on_contacts_upserted p l arc contacts committed previous s of
        (changed, contacts, s) \<Rightarrow>
          (case run_upserted ps l arc committed previous contacts s of
             (rest, contacts, s) \<Rightarrow> (changed @ rest, contacts, s)))"

fun run_deleted ::
  "'p processor list \<Rightarrow> int \<Rightarrow> module_arc \<Rightarrow> contact \<Rightarrow> contact list \<Rightarrow> 'p
     \<Rightarrow> contact list \<times> contact list \<times> 'p" where
  "run_deleted [] l arc deleted contacts s = ([], contacts, s)"
| "run_deleted (p # ps) l arc deleted contacts s =
     (case on_contact_deleted p l arc contacts deleted s of
        (changed, contacts, s) \<Rightarrow>
          (case run_deleted ps l arc deleted contacts s of
             (rest, contacts, s) \<Rightarrow> (changed @ rest, contacts, s)))"

definition run_removed :: "'p processor list \<Rightarrow> int \<Rightarrow> 'p \<Rightarrow> 'p" where
  "run_removed procs l s = fold (\<lambda>p. on_log_removed p l) procs s"

definition clear_log :: "'p processor list \<Rightarrow> int \<Rightarrow> 'p log_cache \<Rightarrow> 'p log_cache" where
  "clear_log procs l lc =
     lc\<lparr>lc_logs := hm_remove l (lc_logs lc), lc_state := run_removed procs l (lc_state lc)\<rparr>"

definition is_loaded :: "nat option \<Rightarrow> int \<Rightarrow> 'p log_cache \<Rightarrow> bool" where
  "is_loaded current l lc \<longleftrightarrow>
     (case hm_get (lc_logs lc) l of Some cl \<Rightarrow> current = Some (cl_revision cl) | None \<Rightarrow> False)"

definition load_log ::
  "log_cache_env \<Rightarrow> log_snapshot \<Rightarrow> scoring_modules
     \<Rightarrow> (log_cache_error + module_arc \<times> contact list) \<times> scoring_modules" where
  "load_log env snap mods =
     (case rules_store env (lg_contest_id (snap_log snap)) of
        None \<Rightarrow> (Inl (UnknownContest (lg_contest_id (snap_log snap))), mods)
      | Some rules \<Rightarrow>
          let (arc, mods) = modules_get (distance_fn env) rules (lg_contest_params (snap_log snap)) mods;
              contacts = enrich_missing_dxcc (dxcc_db env) (cached_to_list (snap_contacts snap))
          in (Inr (arc, sort_contacts_desc contacts), mods))"

fun ensure_loop ::
  "log_cache_env \<Rightarrow> 'p processor list \<Rightarrow> int \<Rightarrow> db_view list \<Rightarrow> 'p log_cache
     \<Rightarrow> (log_cache_error + unit) option \<times> 'p log_cache" where
  "ensure_loop env procs l [] lc = (None, lc)"
| "ensure_loop env procs l (v # vs) lc =
     (case view_snapshot v of
        Inl e \<Rightarrow> (Some (Inl (DbError e)), lc)
      | Inr None \<Rightarrow> (Some (Inl (LogNotFound l)), clear_log procs l lc)
      | Inr (Some snap) \<Rightarrow>
          (case load_log env snap (lc_modules lc) of
             (Inl e, mods) \<Rightarrow> (Some (Inl e), lc\<lparr>lc_modules := mods\<rparr>)
           | (Inr (arc, contacts), mods) \<Rightarrow>
               let lc = lc\<lparr>lc_modules := mods\<rparr>
               in if revision_before v \<noteq> Some (snap_revision snap) then ensure_loop env procs l vs lc
                  else (case run_loaded procs l arc contacts (lc_state lc) of
                    (contacts, s) \<Rightarrow>
                      if revision_after v \<noteq> Some (snap_revision snap)
                      then ensure_loop env procs l vs
                             (lc\<lparr>lc_logs := hm_remove l (lc_logs lc), lc_state := run_removed procs l s\<rparr>)
                      else
                        let cached = (new_cached_log arc (sort_contacts_desc contacts))
                                       \<lparr>cl_revision := snap_revision snap\<rparr>
                        in (Some (Inr ()), lc\<lparr>lc_logs := hm_put l cached (lc_logs lc), lc_state := s\<rparr>))))"

text \<open>\<open>current\<close> is the revision \<open>is_loaded\<close> reads.\<close>

definition ensure_loaded_locked ::
  "log_cache_env \<Rightarrow> 'p processor list \<Rightarrow> int \<Rightarrow> nat option \<Rightarrow> db_view list \<Rightarrow> 'p log_cache
     \<Rightarrow> (log_cache_error + unit) option \<times> 'p log_cache" where
  "ensure_loaded_locked env procs l current views lc =
     (if is_loaded current l lc then (Some (Inr ()), lc) else ensure_loop env procs l views lc)"

section \<open>Operations\<close>

definition display_page :: "cached_log \<Rightarrow> nat \<Rightarrow> nat \<Rightarrow> string option \<Rightarrow> contact list" where
  "display_page cl offset limit wanted =
     (case normalized_callsign_prefix wanted of
        Some p \<Rightarrow>
          let positions = sort (List.map_filter (hm_get (contact_positions cl))
                            (matching_contact_ids_for_prefix cl p))
          in List.map_filter
               (\<lambda>i. if i < length (cl_contacts cl) then Some (cl_contacts cl ! i) else None)
               (take limit (drop offset positions))
      | None \<Rightarrow> take limit (drop offset (cl_contacts cl)))"

definition contacts_display_page ::
  "log_cache_env \<Rightarrow> 'p processor list \<Rightarrow> int \<Rightarrow> nat option \<Rightarrow> db_view list \<Rightarrow> nat \<Rightarrow> nat \<Rightarrow> string option
     \<Rightarrow> 'p log_cache \<Rightarrow> (log_cache_error + contact list) option \<times> 'p log_cache" where
  "contacts_display_page env procs l current views offset limit wanted lc =
     (if limit = 0 then (Some (Inr []), lc)
      else (case ensure_loaded_locked env procs l current views lc of
        (None, lc) \<Rightarrow> (None, lc)
      | (Some (Inl e), lc) \<Rightarrow> (Some (Inl e), lc)
      | (Some (Inr ()), lc) \<Rightarrow>
          (case hm_get (lc_logs lc) l of
             None \<Rightarrow> (Some (Inr []), lc)
           | Some cl \<Rightarrow> (Some (Inr (display_page cl offset limit wanted)), lc))))"

text \<open>The last of the contacts with the same id, in the order of the batch.\<close>

definition final_contacts :: "contact list \<Rightarrow> contact list" where
  "final_contacts committed = rev (dedupe_from (rev committed) [] [])"

definition upsert_cached_log ::
  "'p processor list \<Rightarrow> int \<Rightarrow> nat \<Rightarrow> contact list \<Rightarrow> cached_log \<Rightarrow> 'p
     \<Rightarrow> (contact list \<times> contact list) \<times> cached_log \<times> 'p" where
  "upsert_cached_log procs l revision committed cl s =
     (let final = final_contacts committed;
          previous = map (\<lambda>c. Option.bind (contact_id c) (contact_by_id cl)) final;
          (dirty, cl) = apply_upserted_contacts final previous cl;
          (changed, contacts, s) = run_upserted procs l (cl_module cl) final previous (cl_contacts cl) s;
          cl = cl\<lparr>cl_contacts := contacts\<rparr>;
          cl = (if dirty then rebuild_indexes cl else cl)\<lparr>cl_revision := revision\<rparr>
      in ((List.map_filter (\<lambda>c. Option.bind (contact_id c) (contact_by_id cl)) committed,
           dedupe_contacts changed (List.map_filter contact_id committed)), cl, s))"

text \<open>
  \<open>store\<close> is the answer of the database to the enriched contacts, \<open>now\<close> the revision read after
  it; \<open>current'\<close> and \<open>views'\<close> are what the second load sees when another task has interfered.
\<close>

definition log_cache_upsert ::
  "log_cache_env \<Rightarrow> 'p processor list \<Rightarrow> int \<Rightarrow> nat option \<Rightarrow> db_view list
     \<Rightarrow> (contact list \<Rightarrow> string + contact_mutation) \<Rightarrow> nat option \<Rightarrow> nat option \<Rightarrow> db_view list
     \<Rightarrow> contact list \<Rightarrow> 'p log_cache
     \<Rightarrow> (log_cache_error + contact list \<times> contact list) option \<times> 'p log_cache" where
  "log_cache_upsert env procs l current views store now current' views' contacts lc =
     (case ensure_loaded_locked env procs l current views lc of
        (None, lc) \<Rightarrow> (None, lc)
      | (Some (Inl e), lc) \<Rightarrow> (Some (Inl e), lc)
      | (Some (Inr ()), lc) \<Rightarrow>
          (case store (enrich_missing_dxcc (dxcc_db env) contacts) of
             Inl e \<Rightarrow> (Some (Inl (DbError e)), lc)
           | Inr mutation \<Rightarrow>
               let committed = mut_contacts mutation
               in if map_option cl_revision (hm_get (lc_logs lc) l) \<noteq> Some (mut_previous_revision mutation)
                     \<or> now \<noteq> Some (mut_revision mutation)
                  then (case ensure_loaded_locked env procs l current' views' lc of
                      (None, lc) \<Rightarrow> (None, lc)
                    | (Some (Inl e), lc) \<Rightarrow> (Some (Inl e), lc)
                    | (Some (Inr ()), lc) \<Rightarrow>
                        (case hm_get (lc_logs lc) l of
                           None \<Rightarrow> (Some (Inl (NotLoaded l)), lc)
                         | Some cl \<Rightarrow>
                             (Some (Inr
                               (List.map_filter (\<lambda>c. Option.bind (contact_id c) (contact_by_id cl)) committed,
                                dedupe_contacts (cl_contacts cl) (List.map_filter contact_id committed))), lc)))
                  else (case hm_get (lc_logs lc) l of
                      None \<Rightarrow> (Some (Inl (NotLoaded l)), lc)
                    | Some cl \<Rightarrow>
                        (case upsert_cached_log procs l (mut_revision mutation) committed cl (lc_state lc) of
                           (result, cl, s) \<Rightarrow>
                             (Some (Inr result), lc\<lparr>lc_logs := hm_put l cl (lc_logs lc), lc_state := s\<rparr>)))))"

definition delete_cached_contact ::
  "'p processor list \<Rightarrow> int \<Rightarrow> nat \<Rightarrow> int \<Rightarrow> cached_log \<Rightarrow> 'p
     \<Rightarrow> (contact list \<times> cached_log \<times> 'p) option" where
  "delete_cached_contact procs l revision i cl s =
     (case position (\<lambda>c. contact_id c = Some i) (cl_contacts cl) of
        None \<Rightarrow> None
      | Some index \<Rightarrow>
          let (changed, contacts, s) =
                run_deleted procs l (cl_module cl) (cl_contacts cl ! index) (remove_at index (cl_contacts cl)) s;
              cl = (rebuild_indexes (cl\<lparr>cl_contacts := contacts\<rparr>))\<lparr>cl_revision := revision\<rparr>
          in Some (dedupe_contacts changed [], cl, s))"

definition log_cache_delete ::
  "log_cache_env \<Rightarrow> 'p processor list \<Rightarrow> int \<Rightarrow> string + int option \<Rightarrow> nat option \<Rightarrow> db_view list
     \<Rightarrow> string + contact_deletion option \<Rightarrow> nat option \<Rightarrow> nat option \<Rightarrow> db_view list \<Rightarrow> 'p log_cache
     \<Rightarrow> (log_cache_error + (int \<times> contact list) option) option \<times> 'p log_cache" where
  "log_cache_delete env procs i owner current views deleted now current' views' lc =
     (case owner of
        Inl e \<Rightarrow> (Some (Inl (DbError e)), lc)
      | Inr None \<Rightarrow> (Some (Inr None), lc)
      | Inr (Some l) \<Rightarrow>
          (case ensure_loaded_locked env procs l current views lc of
             (None, lc) \<Rightarrow> (None, lc)
           | (Some (Inl e), lc) \<Rightarrow> (Some (Inl e), lc)
           | (Some (Inr ()), lc) \<Rightarrow>
               (case deleted of
                  Inl e \<Rightarrow> (Some (Inl (DbError e)), lc)
                | Inr None \<Rightarrow> (Some (Inr None), lc)
                | Inr (Some d) \<Rightarrow>
                    if del_log_id d \<noteq> l then (Some (Inr (Some (del_log_id d, []))), lc)
                    else if map_option cl_revision (hm_get (lc_logs lc) l) \<noteq> Some (del_previous_revision d)
                      \<or> now \<noteq> Some (del_revision d)
                    then (case ensure_loaded_locked env procs l current' views' lc of
                        (None, lc) \<Rightarrow> (None, lc)
                      | (Some (Inl e), lc) \<Rightarrow> (Some (Inl e), lc)
                      | (Some (Inr ()), lc) \<Rightarrow>
                          (Some (Inr (Some (l,
                             case hm_get (lc_logs lc) l of Some cl \<Rightarrow> cl_contacts cl | None \<Rightarrow> []))), lc))
                    else (case hm_get (lc_logs lc) l of
                        None \<Rightarrow> (Some (Inr (Some (l, []))), lc)
                      | Some cl \<Rightarrow>
                          (case delete_cached_contact procs l (del_revision d) i cl (lc_state lc) of
                             None \<Rightarrow> (Some (Inr (Some (l, []))), lc)
                           | Some (changed, cl, s) \<Rightarrow>
                               (Some (Inr (Some (l, changed))),
                                lc\<lparr>lc_logs := hm_put l cl (lc_logs lc), lc_state := s\<rparr>))))))"

end
