(* ===== verification/LogCacheSpec.thy ===== *)
theory LogCacheSpec
  imports LogCache ScoringSpec
begin

text \<open>
  The cached log of \<open>LogCache\<close>: its invariant (contacts newest first with distinct ids, positions
  and callsign index exact), the map of records it implements, the search by prefix, and that
  every operation keeps them under the contract of the processors, the locale \<open>log_processors\<close>.
\<close>

section \<open>Ordered contacts\<close>

definition newer :: "contact \<Rightarrow> contact \<Rightarrow> bool" where
  "newer c d \<longleftrightarrow> contact_order_key d \<le> contact_order_key c"

interpretation cv: ordered_vector newer
  by unfold_locales (auto simp: newer_def intro: order_trans)

lemma cv_ordered: "cv.ordered cs \<longleftrightarrow> sorted_wrt newer cs"
  by (simp add: cv.ordered_def)

lemma sort_contacts_desc_ordered: "cv.ordered (sort_contacts_desc cs)"
proof -
  have "sorted (map (\<lambda>c. Reverse (contact_order_key c)) (sort_contacts_desc cs))"
    by (simp add: sort_contacts_desc_def)
  moreover have "newer = (\<lambda>c d. contact_order_key d \<le> contact_order_key c)"
    by (intro ext) (simp add: newer_def)
  ultimately show ?thesis by (simp add: cv.ordered_def sorted_wrt_map)
qed

lemma sort_contacts_desc_mset [simp]: "mset (sort_contacts_desc cs) = mset cs"
  by (simp add: sort_contacts_desc_def)

lemma sort_contacts_desc_set [simp]: "set (sort_contacts_desc cs) = set cs"
  by (simp add: sort_contacts_desc_def)

text \<open>The two shortcuts of \<open>sorted_insert_position\<close> agree with the search.\<close>

lemma sorted_insert_position_search:
  assumes "cv.ordered (cl_contacts cl)"
  shows "sorted_insert_position cl c = partition_point (\<lambda>d. newer d c) (cl_contacts cl)"
proof -
  let ?cs = "cl_contacts cl"
  have closed: "cv.down_closed (\<lambda>d. newer d c)"
    unfolding cv.down_closed_def by (auto simp: newer_def)
  have p: "partition_point (\<lambda>d. newer d c) ?cs = length (takeWhile (\<lambda>d. newer d c) ?cs)"
    by (rule cv.partition_point_ordered [OF assms closed])
  show ?thesis
  proof (cases ?cs)
    case Nil
    then show ?thesis
      by (simp add: sorted_insert_position_def partition_point_def search_index_def)
  next
    case (Cons first rest)
    have last: "takeWhile (\<lambda>d. newer d c) ?cs = ?cs" if "newer (last ?cs) c"
    proof -
      have "newer d c" if "d \<in> set ?cs" for d
      proof -
        obtain i where i: "i < length ?cs" "d = ?cs ! i" using \<open>d \<in> set ?cs\<close> by (metis in_set_conv_nth)
        have "last ?cs = ?cs ! (length ?cs - 1)" using Cons by (simp add: last_conv_nth)
        moreover have "i = length ?cs - 1 \<or> i < length ?cs - 1" using i(1) by linarith
        ultimately have "d = last ?cs \<or> newer d (last ?cs)"
          using assms i unfolding cv.ordered_def by (auto intro: sorted_wrt_nth_less)
        with \<open>newer (last ?cs) c\<close> show ?thesis by (auto simp: newer_def)
      qed
      then show ?thesis by (auto simp: takeWhile_eq_all_conv)
    qed
    have sip: "sorted_insert_position cl c = (if \<not> newer first c then 0
        else if newer (last ?cs) c then length ?cs else partition_point (\<lambda>d. newer d c) ?cs)"
      by (auto simp: sorted_insert_position_def Let_def Cons newer_def not_le)
    have "takeWhile (\<lambda>d. newer d c) ?cs = []" if "\<not> newer first c" using that by (simp add: Cons)
    with last p show ?thesis unfolding sip by (auto simp del: takeWhile_eq_all_conv)
  qed
qed

section \<open>The invariant\<close>

definition contact_ids_ok :: "contact list \<Rightarrow> bool" where
  "contact_ids_ok cs \<longleftrightarrow> (\<forall>c\<in>set cs. contact_id c \<noteq> None) \<and> distinct (map contact_id cs)"

definition positions_ok :: "contact list \<Rightarrow> (int, nat) hmap \<Rightarrow> bool" where
  "positions_ok cs m \<longleftrightarrow>
     hm_ok m \<and> (\<forall>i n. hm_get m i = Some n \<longleftrightarrow> n < length cs \<and> contact_id (cs ! n) = Some i)"

definition callsigns_ok :: "contact list \<Rightarrow> (string \<times> int list) list \<Rightarrow> bool" where
  "callsigns_ok cs index \<longleftrightarrow>
     bt_ok index
     \<and> (\<forall>k i. (\<exists>ids. map_of index k = Some ids \<and> i \<in> set ids) \<longleftrightarrow>
          (\<exists>c\<in>set cs. contact_id c = Some i \<and> contact_callsign c = Some k))"

definition cached_log_ok :: "cached_log \<Rightarrow> bool" where
  "cached_log_ok cl \<longleftrightarrow>
     cv.ordered (cl_contacts cl) \<and> contact_ids_ok (cl_contacts cl)
     \<and> positions_ok (cl_contacts cl) (contact_positions cl)
     \<and> callsigns_ok (cl_contacts cl) (callsign_index cl)"

section \<open>Indexes\<close>

lemma set_positions_get:
  "contact_ids_ok cs \<Longrightarrow>
     hm_get (set_positions k cs m) i =
       (case position (\<lambda>c. contact_id c = Some i) cs of Some n \<Rightarrow> Some (k + n) | None \<Rightarrow> hm_get m i)"
proof (induction cs arbitrary: k m)
  case Nil
  then show ?case by simp
next
  case (Cons c cs)
  obtain j where j: "contact_id c = Some j" using Cons.prems by (auto simp: contact_ids_ok_def)
  have ok: "contact_ids_ok cs" using Cons.prems by (simp add: contact_ids_ok_def)
  have away: "position (\<lambda>c. contact_id c = Some j) cs = None"
    using Cons.prems j by (force simp: contact_ids_ok_def position_None)
  show ?case
    using Cons.IH [OF ok] j away
    by (auto simp: position_Cons hm_get_put split: option.splits)
qed

lemma set_positions_hm_ok: "hm_ok m \<Longrightarrow> hm_ok (set_positions k cs m)"
  by (induction cs arbitrary: k m) (auto simp: hm.ok_put split: option.splits)

lemma position_ids:
  assumes "contact_ids_ok cs"
  shows "position (\<lambda>c. contact_id c = Some i) cs = Some n \<longleftrightarrow> n < length cs \<and> contact_id (cs ! n) = Some i"
proof
  assume "position (\<lambda>c. contact_id c = Some i) cs = Some n"
  then show "n < length cs \<and> contact_id (cs ! n) = Some i" by (auto dest: position_Some)
next
  assume n: "n < length cs \<and> contact_id (cs ! n) = Some i"
  then have "position (\<lambda>c. contact_id c = Some i) cs \<noteq> None" by (auto simp: position_None)
  then obtain k where k: "position (\<lambda>c. contact_id c = Some i) cs = Some k" by auto
  then have "k < length cs" "contact_id (cs ! k) = Some i" by (auto dest: position_Some)
  then have "k = n"
    using n assms unfolding contact_ids_ok_def by (metis distinct_conv_nth length_map nth_map)
  with k show "position (\<lambda>c. contact_id c = Some i) cs = Some n" by simp
qed

lemma set_positions_ok:
  assumes "contact_ids_ok cs"
  shows "positions_ok cs (set_positions 0 cs [])"
proof -
  have "hm_get (set_positions 0 cs []) i = Some n \<longleftrightarrow> n < length cs \<and> contact_id (cs ! n) = Some i" for i n
    unfolding set_positions_get [OF assms] position_ids [OF assms, symmetric] by (simp split: option.split)
  moreover have "hm_ok (set_positions 0 cs [])" by (rule set_positions_hm_ok) (simp add: hm_ok_def)
  ultimately show ?thesis by (simp add: positions_ok_def)
qed

lemma push_callsign_ok:
  assumes "callsigns_ok cs index" and "contact_id c \<noteq> None" and "set ds = insert c (set cs)"
  shows "callsigns_ok ds (push_callsign c index)"
proof -
  obtain i where i: "contact_id c = Some i" using assms(2) by auto
  have ok: "bt_ok index" and get: "\<And>k j. (\<exists>ids. map_of index k = Some ids \<and> j \<in> set ids) \<longleftrightarrow>
      (\<exists>c\<in>set cs. contact_id c = Some j \<and> contact_callsign c = Some k)"
    using assms(1) unfolding callsigns_ok_def by blast+
  show ?thesis
  proof (cases "contact_callsign c")
    case None
    then show ?thesis
      using ok get by (auto simp: callsigns_ok_def push_callsign_def i assms(3))
  next
    case (Some a)
    let ?ids = "case map_of index a of Some ids \<Rightarrow> ids | None \<Rightarrow> []"
    have p: "push_callsign c index = bt_put a (?ids @ [i]) index"
      by (simp add: push_callsign_def i Some)
    have mem: "j \<in> set ?ids \<longleftrightarrow> (\<exists>c\<in>set cs. contact_id c = Some j \<and> contact_callsign c = Some a)" for j
      unfolding get [of a j, symmetric] by (cases "map_of index a") auto
    have "(\<exists>ids. map_of (push_callsign c index) k = Some ids \<and> j \<in> set ids) \<longleftrightarrow>
        (\<exists>d\<in>set ds. contact_id d = Some j \<and> contact_callsign d = Some k)" for k j
    proof (cases "k = a")
      case True
      then show ?thesis using mem [of j] by (auto simp: p bt_get_put assms(3) i Some)
    next
      case False
      then show ?thesis using get [of k j] by (auto simp: p bt_get_put assms(3) i Some)
    qed
    then show ?thesis using ok by (simp add: callsigns_ok_def p bt_ok_put)
  qed
qed

lemma fold_push_callsign_ok:
  "\<forall>c\<in>set cs. contact_id c \<noteq> None \<Longrightarrow> callsigns_ok cs (fold push_callsign cs [])"
proof (induction cs rule: rev_induct)
  case Nil
  then show ?case by (simp add: callsigns_ok_def bt.ok_new)
next
  case (snoc c cs)
  then show ?case using push_callsign_ok [of cs "fold push_callsign cs []" c "cs @ [c]"] by simp
qed

lemma rebuild_indexes_ok:
  assumes "cv.ordered (cl_contacts cl)" and "contact_ids_ok (cl_contacts cl)"
  shows "cached_log_ok (rebuild_indexes cl)"
  using assms set_positions_ok [OF assms(2)] fold_push_callsign_ok [of "cl_contacts cl"]
  by (simp add: cached_log_ok_def rebuild_indexes_def contact_ids_ok_def)

lemma contact_by_id_ok:
  assumes "contact_ids_ok (cl_contacts cl)" and "positions_ok (cl_contacts cl) (contact_positions cl)"
  shows "contact_by_id cl i = Some c \<longleftrightarrow> c \<in> set (cl_contacts cl) \<and> contact_id c = Some i"
proof -
  have m: "hm_get (contact_positions cl) i = Some n \<longleftrightarrow> n < length (cl_contacts cl) \<and> contact_id (cl_contacts cl ! n) = Some i"
    for n using assms(2) by (simp add: positions_ok_def)
  show ?thesis
  proof
    assume "contact_by_id cl i = Some c"
    then obtain n where "hm_get (contact_positions cl) i = Some n" "c = cl_contacts cl ! n"
      by (auto simp: contact_by_id_def split: option.splits if_splits)
    then show "c \<in> set (cl_contacts cl) \<and> contact_id c = Some i"
      using m [of n] by simp
  next
    assume "c \<in> set (cl_contacts cl) \<and> contact_id c = Some i"
    then obtain n where "n < length (cl_contacts cl)" "cl_contacts cl ! n = c" "contact_id c = Some i"
      by (metis in_set_conv_nth)
    then show "contact_by_id cl i = Some c" using m [of n] by (simp add: contact_by_id_def)
  qed
qed

section \<open>Inserting and merging\<close>

lemma insert_at_nth:
  "k \<le> length xs \<Longrightarrow>
     insert_at k x xs ! n = (if n < k then xs ! n else if n = k then x else xs ! (n - 1))"
  by (auto simp: insert_at_def nth_append nth_Cons' min_def)

lemma positions_insert:
  assumes "positions_ok cs m" and "k \<le> length cs" and "contact_ids_ok (insert_at k c cs)"
  shows "positions_ok (insert_at k c cs) (set_positions k (drop k (insert_at k c cs)) m)"
proof -
  let ?ds = "insert_at k c cs"
  have ids: "contact_ids_ok (drop k ?ds)"
    using assms(3) unfolding contact_ids_ok_def by (metis distinct_drop drop_map in_set_dropD)
  have ok: "hm_ok (set_positions k (drop k ?ds) m)"
    using assms(1) by (simp add: positions_ok_def set_positions_hm_ok)
  have old: "hm_get m i = Some n \<longleftrightarrow> n < length cs \<and> contact_id (cs ! n) = Some i" for i n
    using assms(1) by (simp add: positions_ok_def)
  have "hm_get (set_positions k (drop k ?ds) m) i = Some n \<longleftrightarrow> n < length ?ds \<and> contact_id (?ds ! n) = Some i" for i n
  proof (cases "position (\<lambda>c. contact_id c = Some i) (drop k ?ds)")
    case (Some p)
    then have p: "p < length (drop k ?ds)" "contact_id (drop k ?ds ! p) = Some i"
      using position_ids [OF ids] by auto
    have "n < length ?ds \<and> contact_id (?ds ! n) = Some i \<longleftrightarrow> n = k + p"
    proof
      assume n: "n < length ?ds \<and> contact_id (?ds ! n) = Some i"
      have "k + p < length ?ds" "contact_id (?ds ! (k + p)) = Some i" using p assms(2) by simp_all
      then show "n = k + p"
        using n nth_eq_iff_index_eq [of "map contact_id ?ds" n "k + p"] assms(3)
        by (simp add: contact_ids_ok_def)
    next
      assume "n = k + p"
      then show "n < length ?ds \<and> contact_id (?ds ! n) = Some i" using p assms(2) by simp
    qed
    then show ?thesis unfolding set_positions_get [OF ids] Some by auto
  next
    case None
    have none: "contact_id (drop k ?ds ! q) \<noteq> Some i" if "q < length ?ds - k" for q
    proof -
      have "drop k ?ds ! q \<in> set (drop k ?ds)" using that by (intro nth_mem) simp
      with None show ?thesis by (simp add: position_None)
    qed
    have "n < length ?ds \<and> contact_id (?ds ! n) = Some i \<longleftrightarrow> n < length cs \<and> contact_id (cs ! n) = Some i"
    proof (cases "n < k")
      case True
      then show ?thesis using assms(2) by (simp add: insert_at_nth)
    next
      case False
      have "contact_id (?ds ! n) \<noteq> Some i" if "n < length ?ds"
        using none [of "n - k"] that False assms(2) by simp
      moreover have "contact_id (cs ! n) \<noteq> Some i" if "n < length cs"
        using none [of "Suc n - k"] that False assms(2) by (simp add: Suc_diff_le insert_at_nth)
      ultimately show ?thesis by blast
    qed
    then show ?thesis unfolding set_positions_get [OF ids] None by (simp add: old)
  qed
  with ok show ?thesis by (simp add: positions_ok_def)
qed

lemma insert_at_ids:
  "contact_ids_ok (insert_at k c cs) \<longleftrightarrow>
     contact_ids_ok cs \<and> contact_id c \<noteq> None \<and> contact_id c \<notin> contact_id ` set cs"
proof -
  have "mset (map contact_id (insert_at k c cs)) = mset (contact_id c # map contact_id cs)" by simp
  then have "distinct (map contact_id (insert_at k c cs)) \<longleftrightarrow> distinct (contact_id c # map contact_id cs)"
    by (metis mset_eq_imp_distinct_iff)
  then show ?thesis by (auto simp: contact_ids_ok_def)
qed

lemma insert_new_ok:
  assumes "cached_log_ok cl" and "contact_id c \<noteq> None" and "contact_id c \<notin> contact_id ` set (cl_contacts cl)"
  shows "cached_log_ok (insert_new_contact_sorted c cl)
    \<and> set (cl_contacts (insert_new_contact_sorted c cl)) = insert c (set (cl_contacts cl))"
proof -
  let ?cs = "cl_contacts cl"
  define k where "k = sorted_insert_position cl c"
  have ord: "cv.ordered ?cs" and ids: "contact_ids_ok ?cs" and pos: "positions_ok ?cs (contact_positions cl)"
    and call: "callsigns_ok ?cs (callsign_index cl)"
    using assms(1) by (simp_all add: cached_log_ok_def)
  have k: "k = partition_point (\<lambda>d. newer d c) ?cs"
    using sorted_insert_position_search [OF ord] by (simp add: k_def)
  have "cv.down_closed (\<lambda>d. newer d c)" unfolding cv.down_closed_def by (auto simp: newer_def)
  from cv.partition_point_ordered [OF ord this] have le: "k \<le> length ?cs"
    by (simp add: k length_takeWhile_le)
  have ids': "contact_ids_ok (insert_at k c ?cs)" using ids assms(2,3) by (simp add: insert_at_ids)
  have "cv.ordered (insert_at k c ?cs)" unfolding k by (rule cv.insert_ordered [OF ord])
  moreover have "positions_ok (insert_at k c ?cs) (set_positions k (drop k (insert_at k c ?cs)) (contact_positions cl))"
    by (rule positions_insert [OF pos le ids'])
  moreover have "callsigns_ok (insert_at k c ?cs) (push_callsign c (callsign_index cl))"
    by (rule push_callsign_ok [OF call assms(2)]) simp
  ultimately show ?thesis
    using ids' by (simp add: cached_log_ok_def insert_new_contact_sorted_def Let_def k_def [symmetric])
qed

lemma option_ext: "(\<And>x. a = Some x \<longleftrightarrow> b = Some x) \<Longrightarrow> a = b"
  by (cases a; cases b) auto

text \<open>The records of a list of contacts by id.\<close>

definition contact_with :: "contact list \<Rightarrow> int \<Rightarrow> contact option" where
  "contact_with cs i = find (\<lambda>c. contact_id c = Some i) cs"

lemma contact_with_Some:
  assumes "contact_ids_ok cs"
  shows "contact_with cs i = Some c \<longleftrightarrow> c \<in> set cs \<and> contact_id c = Some i"
proof
  assume "contact_with cs i = Some c"
  then show "c \<in> set cs \<and> contact_id c = Some i" by (auto simp: contact_with_def find_Some_iff)
next
  assume c: "c \<in> set cs \<and> contact_id c = Some i"
  have uniq: "d = c" if "d \<in> set cs" "contact_id d = Some i" for d
    using assms c that unfolding contact_ids_ok_def by (metis distinct_map inj_onD)
  show "contact_with cs i = Some c"
  proof (cases "contact_with cs i")
    case None
    with c show ?thesis by (auto simp: contact_with_def find_None_iff)
  next
    case (Some d)
    then have "d \<in> set cs" "contact_id d = Some i" by (auto simp: contact_with_def find_Some_iff)
    with uniq Some show ?thesis by simp
  qed
qed

lemma contact_by_id_with:
  "cached_log_ok cl \<Longrightarrow> contact_by_id cl i = contact_with (cl_contacts cl) i"
  using contact_by_id_ok [of cl i] contact_with_Some [of "cl_contacts cl" i]
  by (cases "contact_by_id cl i"; cases "contact_with (cl_contacts cl) i") (auto simp: cached_log_ok_def)

lemma contact_with_set:
  assumes "contact_ids_ok cs" and "contact_ids_ok ds" and "set ds = set cs"
  shows "contact_with ds = contact_with cs"
proof
  fix i show "contact_with ds i = contact_with cs i"
    using contact_with_Some [OF assms(1), of i] contact_with_Some [OF assms(2), of i] assms(3)
    by (cases "contact_with ds i"; cases "contact_with cs i") auto
qed

lemma contact_ids_ok_mset:
  assumes "contact_ids_ok cs" and "mset ds = mset cs"
  shows "contact_ids_ok ds"
proof -
  have "mset (map contact_id ds) = mset (map contact_id cs)" using assms(2) by simp
  then show ?thesis
    using assms unfolding contact_ids_ok_def by (metis mset_eq_imp_distinct_iff mset_eq_setD)
qed

lemma merge_contact_ok:
  assumes "contact_ids_ok cs" and "contact_id c = Some i"
  shows "contact_ids_ok (merge_contact cs c) \<and> contact_with (merge_contact cs c) = (contact_with cs)(i \<mapsto> c)"
proof (cases "position (\<lambda>c. contact_id c = Some i) cs")
  case None
  then have away: "\<forall>d\<in>set cs. contact_id d \<noteq> Some i" by (simp add: position_None)
  have ok: "contact_ids_ok (cs @ [c])"
    using assms away by (force simp: contact_ids_ok_def)
  have none: "contact_with cs i = None" using away by (simp add: contact_with_def find_None_iff)
  have "contact_with (cs @ [c]) j = ((contact_with cs)(i \<mapsto> c)) j" for j
    using none assms(2) by (cases "j = i") (auto simp: contact_with_def find_snoc split: option.split)
  then show ?thesis using ok by (auto simp: merge_contact_def assms(2) None)
next
  case (Some n)
  have n: "n < length cs" "contact_id (cs ! n) = Some i" using Some position_ids [OF assms(1)] by auto
  have same: "map contact_id (cs[n := c]) = map contact_id cs"
    using n assms(2) by (simp add: map_update list_update_same_conv)
  have "\<forall>d\<in>set (cs[n := c]). contact_id d \<noteq> None"
    using assms set_update_subset_insert [of cs n c] by (auto simp: contact_ids_ok_def)
  with same assms(1) have ok: "contact_ids_ok (cs[n := c])" by (simp add: contact_ids_ok_def)
  have mem: "d \<in> set (cs[n := c]) \<longleftrightarrow> d = c \<or> (d \<in> set cs \<and> contact_id d \<noteq> Some i)" for d
  proof -
    have "d \<in> set (cs[n := c]) \<longleftrightarrow> (\<exists>k<length cs. d = (if k = n then c else cs ! k))"
      by (auto simp: in_set_conv_nth nth_list_update)
    also have "\<dots> \<longleftrightarrow> d = c \<or> (\<exists>k<length cs. k \<noteq> n \<and> d = cs ! k)" using n(1) by (auto split: if_splits)
    also have "(\<exists>k<length cs. k \<noteq> n \<and> d = cs ! k) \<longleftrightarrow> d \<in> set cs \<and> contact_id d \<noteq> Some i"
      using position_ids [OF assms(1), of i] Some
      by (metis in_set_conv_nth option.inject)
    finally show ?thesis .
  qed
  have "contact_with (cs[n := c]) j = ((contact_with cs)(i \<mapsto> c)) j" for j
  proof (rule option_ext)
    fix d
    show "contact_with (cs[n := c]) j = Some d \<longleftrightarrow> ((contact_with cs)(i \<mapsto> c)) j = Some d"
      using assms(2) by (cases "j = i") (auto simp: contact_with_Some [OF ok] contact_with_Some [OF assms(1)] mem)
  qed
  then show ?thesis using ok by (auto simp: merge_contact_def assms(2) Some)
qed

section \<open>The contract of the processors\<close>

text \<open>A processor may only change the scores, the meta fields of a contact.\<close>

definition same_record :: "contact \<Rightarrow> contact \<Rightarrow> bool" where
  "same_record c d \<longleftrightarrow> contact_id c = contact_id d \<and> contact_adif c = contact_adif d"

definition same_records :: "contact list \<Rightarrow> contact list \<Rightarrow> bool" where
  "same_records cs ds \<longleftrightarrow> list_all2 same_record cs ds"

definition adif_with :: "contact list \<Rightarrow> int \<Rightarrow> contact_fields option option" where
  "adif_with cs i = map_option contact_adif (contact_with cs i)"

lemma same_record_refl [simp]: "same_record c c"
  by (simp add: same_record_def)

lemma same_records_refl [simp]: "same_records cs cs"
  by (simp add: same_records_def list_all2_refl)

lemma same_records_trans: "same_records cs ds \<Longrightarrow> same_records ds es \<Longrightarrow> same_records cs es"
  unfolding same_records_def by (rule list_all2_trans [of same_record same_record]) (auto simp: same_record_def)

lemma same_record_keys:
  "same_record c d \<Longrightarrow> contact_order_key c = contact_order_key d \<and> contact_callsign c = contact_callsign d"
  by (simp add: same_record_def contact_order_key_def contact_callsign_def contact_adif_value_def)

lemma bex_nth: "(\<exists>x\<in>set xs. Q x) \<longleftrightarrow> (\<exists>n<length xs. Q (xs ! n))"
  by (metis in_set_conv_nth)

lemma same_records_nth:
  assumes "same_records cs ds"
  shows "length cs = length ds"
    and "n < length ds \<Longrightarrow> contact_id (cs ! n) = contact_id (ds ! n)
      \<and> contact_order_key (cs ! n) = contact_order_key (ds ! n)
      \<and> contact_callsign (cs ! n) = contact_callsign (ds ! n)"
proof -
  show len: "length cs = length ds" using assms by (simp add: same_records_def list_all2_lengthD)
  assume "n < length ds"
  then have "same_record (cs ! n) (ds ! n)"
    using assms by (simp add: same_records_def list_all2_nthD2)
  then show "contact_id (cs ! n) = contact_id (ds ! n)
      \<and> contact_order_key (cs ! n) = contact_order_key (ds ! n)
      \<and> contact_callsign (cs ! n) = contact_callsign (ds ! n)"
    using same_record_keys [OF \<open>same_record (cs ! n) (ds ! n)\<close>] by (simp add: same_record_def)
qed

lemma same_records_ordered:
  assumes "same_records cs ds" and "cv.ordered ds"
  shows "cv.ordered cs"
  unfolding cv.ordered_def sorted_wrt_iff_nth_less
proof (intro allI impI)
  fix i j assume ij: "i < j" "j < length cs"
  then have "newer (ds ! i) (ds ! j)"
    using assms(2) same_records_nth(1) [OF assms(1)] by (simp add: cv.ordered_def sorted_wrt_nth_less)
  then show "newer (cs ! i) (cs ! j)"
    using same_records_nth [OF assms(1)] ij by (simp add: newer_def)
qed

lemma same_records_ids:
  assumes "same_records cs ds"
  shows "map contact_id cs = map contact_id ds"
  using assms unfolding same_records_def
  by (intro nth_equalityI) (simp_all add: list_all2_conv_all_nth same_record_def)

lemma contact_ids_ok_map: "contact_ids_ok cs \<longleftrightarrow> None \<notin> set (map contact_id cs) \<and> distinct (map contact_id cs)"
  by (auto simp: contact_ids_ok_def) (metis not_Some_eq rev_image_eqI)

lemma same_records_ids_ok: "same_records cs ds \<Longrightarrow> contact_ids_ok cs = contact_ids_ok ds"
  by (simp add: contact_ids_ok_map same_records_ids)

lemma same_records_positions:
  assumes "same_records cs ds"
  shows "positions_ok cs m = positions_ok ds m"
proof -
  have "n < length cs \<and> contact_id (cs ! n) = Some i \<longleftrightarrow> n < length ds \<and> contact_id (ds ! n) = Some i" for n i
    using same_records_nth [OF assms] by auto
  then show ?thesis by (simp add: positions_ok_def)
qed

lemma same_records_callsigns:
  assumes "same_records cs ds"
  shows "callsigns_ok cs index = callsigns_ok ds index"
proof -
  have "(\<exists>c\<in>set cs. contact_id c = Some i \<and> contact_callsign c = Some k) \<longleftrightarrow>
      (\<exists>d\<in>set ds. contact_id d = Some i \<and> contact_callsign d = Some k)" for i k
    unfolding bex_nth using same_records_nth [OF assms] by auto
  then show ?thesis by (simp add: callsigns_ok_def)
qed

lemma same_records_adif: "same_records cs ds \<Longrightarrow> adif_with cs i = adif_with ds i"
  unfolding same_records_def adif_with_def contact_with_def
  by (induction rule: list_all2_induct) (auto simp: same_record_def)

lemma cached_log_ok_same:
  assumes "cached_log_ok cl" and "same_records cs (cl_contacts cl)"
  shows "cached_log_ok (cl\<lparr>cl_contacts := cs\<rparr>)"
  using assms same_records_ordered same_records_ids_ok same_records_positions same_records_callsigns
  by (simp add: cached_log_ok_def)

section \<open>Upserts\<close>

lemma dedupe_from_facts:
  "contact_ids_ok (dedupe_from cs ex seen)
   \<and> (\<forall>c\<in>set (dedupe_from cs ex seen). the (contact_id c) \<notin> set ex \<union> set seen)
   \<and> (\<forall>i. i \<notin> set ex \<longrightarrow> i \<notin> set seen \<longrightarrow> contact_with (dedupe_from cs ex seen) i = contact_with cs i)"
proof (induction cs ex seen rule: dedupe_from.induct)
  case (1 ex seen)
  then show ?case by (simp add: contact_ids_ok_def)
next
  case (2 c cs ex seen)
  show ?case
  proof (cases "contact_id c")
    case None
    then show ?thesis using "2.IH"(1) by (simp add: contact_with_def)
  next
    case (Some i)
    show ?thesis
    proof (cases "i \<in> set ex \<or> i \<in> set seen")
      case True
      then show ?thesis using "2.IH"(2) [OF Some True] Some by (auto simp: contact_with_def)
    next
      case False
      note IH = "2.IH"(3) [OF Some False]
      have "Some i \<notin> contact_id ` set (dedupe_from cs ex (i # seen))"
      proof
        assume "Some i \<in> contact_id ` set (dedupe_from cs ex (i # seen))"
        then obtain d where "d \<in> set (dedupe_from cs ex (i # seen))" "contact_id d = Some i" by auto
        moreover have "\<forall>d\<in>set (dedupe_from cs ex (i # seen)). the (contact_id d) \<notin> set ex \<union> set (i # seen)"
          using IH by blast
        ultimately have "the (contact_id d) \<notin> set ex \<union> set (i # seen)" by blast
        with \<open>contact_id d = Some i\<close> show False by simp
      qed
      then have "contact_ids_ok (c # dedupe_from cs ex (i # seen))"
        using IH Some by (simp add: contact_ids_ok_def)
      then show ?thesis using IH Some False by (auto simp: contact_with_def)
    qed
  qed
qed

lemma contact_ids_ok_rev: "contact_ids_ok (rev cs) = contact_ids_ok cs"
  by (simp add: contact_ids_ok_def rev_map [symmetric])

lemma final_contacts_facts:
  "contact_ids_ok (final_contacts committed)"
  "contact_with (final_contacts committed) i = contact_with (rev committed) i"
proof -
  note f = dedupe_from_facts [of "rev committed" "[]" "[]"]
  show ok: "contact_ids_ok (final_contacts committed)"
    using f by (simp add: final_contacts_def contact_ids_ok_rev)
  have "contact_with (final_contacts committed) = contact_with (dedupe_from (rev committed) [] [])"
    using f ok by (intro contact_with_set) (simp_all add: final_contacts_def)
  then show "contact_with (final_contacts committed) i = contact_with (rev committed) i" using f by simp
qed

lemma foldl_merge_ok:
  "contact_ids_ok cs \<Longrightarrow> contact_ids_ok ds \<Longrightarrow>
     contact_ids_ok (foldl merge_contact cs ds)
     \<and> (\<forall>i. contact_with (foldl merge_contact cs ds) i =
          (case contact_with ds i of Some d \<Rightarrow> Some d | None \<Rightarrow> contact_with cs i))"
proof (induction ds arbitrary: cs)
  case Nil
  then show ?case by (simp add: contact_with_def)
next
  case (Cons d ds)
  obtain j where j: "contact_id d = Some j" using Cons.prems(2) by (auto simp: contact_ids_ok_def)
  have ds: "contact_ids_ok ds" using Cons.prems(2) by (simp add: contact_ids_ok_def)
  have away: "contact_with ds j = None"
    using Cons.prems(2) j by (force simp: contact_with_def contact_ids_ok_def find_None_iff)
  have m: "contact_ids_ok (merge_contact cs d)" "contact_with (merge_contact cs d) = (contact_with cs)(j \<mapsto> d)"
    using merge_contact_ok [OF Cons.prems(1) j] by blast+
  have "contact_with (d # ds) i = (if i = j then Some d else contact_with ds i)" for i
    using j by (simp add: contact_with_def)
  then show ?case using Cons.IH [OF m(1) ds] away by (auto simp: m(2) split: option.splits)
qed

lemma contact_with_None: "contact_with cs i = None \<longleftrightarrow> Some i \<notin> contact_id ` set cs"
  by (force simp: contact_with_def find_None_iff)

lemma has_contact_id_iff:
  assumes "cached_log_ok cl" and "contact_id c = Some i"
  shows "has_contact_id cl c \<longleftrightarrow> contact_with (cl_contacts cl) i \<noteq> None"
proof -
  have ids: "contact_ids_ok (cl_contacts cl)" using assms(1) by (simp add: cached_log_ok_def)
  have "hm_get (contact_positions cl) i = Some n \<longleftrightarrow> n < length (cl_contacts cl) \<and> contact_id (cl_contacts cl ! n) = Some i" for n
    using assms(1) by (simp add: cached_log_ok_def positions_ok_def)
  then have "hm_get (contact_positions cl) i \<noteq> None \<longleftrightarrow> (\<exists>n<length (cl_contacts cl). contact_id (cl_contacts cl ! n) = Some i)"
    by (metis not_Some_eq)
  also have "\<dots> \<longleftrightarrow> (\<exists>c\<in>set (cl_contacts cl). contact_id c = Some i)" by (rule bex_nth [symmetric])
  also have "\<dots> \<longleftrightarrow> Some i \<in> contact_id ` set (cl_contacts cl)"
    by (simp add: image_iff eq_commute [of "Some i"])
  finally show ?thesis using assms(2) by (simp add: has_contact_id_def contact_with_None)
qed

lemma insert_committed_ok:
  "cached_log_ok cl \<Longrightarrow> contact_ids_ok ds \<Longrightarrow> \<forall>d\<in>set ds. contact_id d \<notin> contact_id ` set (cl_contacts cl) \<Longrightarrow>
     fst (insert_committed ds False cl) = False
     \<and> cached_log_ok (snd (insert_committed ds False cl))
     \<and> cl_module (snd (insert_committed ds False cl)) = cl_module cl
     \<and> set (cl_contacts (snd (insert_committed ds False cl))) = set (cl_contacts cl) \<union> set ds"
proof (induction ds arbitrary: cl)
  case (Cons d ds)
  obtain j where j: "contact_id d = Some j" using Cons.prems(2) by (auto simp: contact_ids_ok_def)
  have new: "contact_id d \<notin> contact_id ` set (cl_contacts cl)" using Cons.prems(3) by simp
  then have no: "\<not> has_contact_id cl d"
    using has_contact_id_iff [OF Cons.prems(1) j] j by (simp add: contact_with_None)
  have one: "cached_log_ok (insert_new_contact_sorted d cl)"
    "set (cl_contacts (insert_new_contact_sorted d cl)) = insert d (set (cl_contacts cl))"
    using insert_new_ok [OF Cons.prems(1) _ new] j by simp_all
  have m: "cl_module (insert_new_contact_sorted d cl) = cl_module cl"
    by (simp add: insert_new_contact_sorted_def Let_def)
  have ds: "contact_ids_ok ds" using Cons.prems(2) by (simp add: contact_ids_ok_def)
  have "contact_id d \<notin> contact_id ` set ds" using Cons.prems(2) by (simp add: contact_ids_ok_def)
  then have other: "contact_id e \<noteq> contact_id d" if "e \<in> set ds" for e using that by (metis imageI)
  have "\<forall>e\<in>set ds. contact_id e \<notin> contact_id ` set (cl_contacts (insert_new_contact_sorted d cl))"
  proof
    fix e assume e: "e \<in> set ds"
    then have "contact_id e \<notin> contact_id ` set (cl_contacts cl)" using Cons.prems(3) by simp
    with other [OF e] show "contact_id e \<notin> contact_id ` set (cl_contacts (insert_new_contact_sorted d cl))"
      unfolding one(2) image_insert by blast
  qed
  from Cons.IH [OF one(1) ds this] show ?case using no by (auto simp: one(2) m)
qed (simp add: contact_ids_ok_def)

lemma apply_upserted_ok:
  assumes ok: "cached_log_ok cl" and ds: "contact_ids_ok ds"
    and prev: "previous = map (\<lambda>c. Option.bind (contact_id c) (contact_by_id cl)) ds"
    and run: "apply_upserted_contacts ds previous cl = (dirty, cl')"
  shows "cv.ordered (cl_contacts cl') \<and> contact_ids_ok (cl_contacts cl') \<and> (\<not> dirty \<longrightarrow> cached_log_ok cl')
    \<and> cl_module cl' = cl_module cl
    \<and> (\<forall>i. contact_with (cl_contacts cl') i =
         (case contact_with ds i of Some d \<Rightarrow> Some d | None \<Rightarrow> contact_with (cl_contacts cl) i))"
proof (cases "list_ex (\<lambda>p. p \<noteq> None) previous")
  case True
  have ids: "contact_ids_ok (cl_contacts cl)" using ok by (simp add: cached_log_ok_def)
  let ?m = "foldl merge_contact (cl_contacts cl) ds"
  note f = foldl_merge_ok [OF ids ds]
  have s: "contact_ids_ok (sort_contacts_desc ?m)" by (rule contact_ids_ok_mset [of ?m]) (use f in simp_all)
  have "contact_with (sort_contacts_desc ?m) = contact_with ?m"
    by (rule contact_with_set) (use f s in simp_all)
  with True run f s show ?thesis
    by (auto simp: apply_upserted_contacts_def sort_contacts_desc_ordered)
next
  case False
  have by_id: "contact_by_id cl i = contact_with (cl_contacts cl) i" for i
    by (rule contact_by_id_with [OF ok])
  have new: "\<forall>d\<in>set ds. contact_id d \<notin> contact_id ` set (cl_contacts cl)"
  proof
    fix d assume d: "d \<in> set ds"
    then obtain i where i: "contact_id d = Some i" using ds by (auto simp: contact_ids_ok_def)
    have "Option.bind (contact_id d) (contact_by_id cl) = None"
      using False d by (auto simp: prev list_ex_iff)
    then show "contact_id d \<notin> contact_id ` set (cl_contacts cl)" by (simp add: i by_id contact_with_None)
  qed
  note f = insert_committed_ok [OF ok ds new]
  have e: "insert_committed ds False cl = (False, snd (insert_committed ds False cl))"
    using f by (metis prod.collapse)
  have res: "dirty = False" "cl' = snd (insert_committed ds False cl)"
    using run False e by (auto simp: apply_upserted_contacts_def split: prod.splits)
  have ok': "cached_log_ok cl'" using f res by simp
  have ids: "contact_ids_ok (cl_contacts cl)" "contact_ids_ok (cl_contacts cl')"
    using ok ok' by (simp_all add: cached_log_ok_def)
  have "contact_with (cl_contacts cl') i =
      (case contact_with ds i of Some d \<Rightarrow> Some d | None \<Rightarrow> contact_with (cl_contacts cl) i)" for i
  proof (rule option_ext)
    fix d
    have set: "set (cl_contacts cl') = set (cl_contacts cl) \<union> set ds" using f res by simp
    show "contact_with (cl_contacts cl') i = Some d \<longleftrightarrow>
        (case contact_with ds i of Some d \<Rightarrow> Some d | None \<Rightarrow> contact_with (cl_contacts cl) i) = Some d"
    proof (cases "contact_with ds i")
      case None
      then have "d \<in> set ds \<Longrightarrow> contact_id d \<noteq> Some i" by (metis contact_with_None imageI)
      then show ?thesis
        using None by (auto simp: contact_with_Some [OF ids(1)] contact_with_Some [OF ids(2)] set)
    next
      case (Some e)
      then have e: "e \<in> set ds" "contact_id e = Some i" by (simp_all add: contact_with_Some [OF ds])
      have "contact_id d = Some i \<Longrightarrow> d \<notin> set (cl_contacts cl)" using new e by (metis imageI)
      then show ?thesis
        using Some e contact_with_Some [OF ds, of i d]
        by (auto simp: contact_with_Some [OF ids(2)] set)
    qed
  qed
  with ok' f res show ?thesis by (simp add: cached_log_ok_def)
qed

text \<open>What a loaded or updated log offers to its readers: the stored fields of each contact.\<close>

definition records_after :: "contact list \<Rightarrow> contact list \<Rightarrow> int \<Rightarrow> contact_fields option option" where
  "records_after committed cs i =
     (case contact_with (rev committed) i of Some c \<Rightarrow> Some (contact_adif c) | None \<Rightarrow> adif_with cs i)"

locale log_processors =
  fixes procs :: "'p processor list"
  assumes loaded_same: "p \<in> set procs \<Longrightarrow> same_records (fst (on_log_loaded p l arc cs s)) cs"
    and upserted_same:
      "p \<in> set procs \<Longrightarrow> same_records (fst (snd (on_contacts_upserted p l arc cs committed previous s))) cs"
    and deleted_same:
      "p \<in> set procs \<Longrightarrow> same_records (fst (snd (on_contact_deleted p l arc cs deleted s))) cs"
begin

lemma run_loaded_same: "set ps \<subseteq> set procs \<Longrightarrow> same_records (fst (run_loaded ps l arc cs s)) cs"
proof (induction ps arbitrary: cs s)
  case (Cons p ps)
  obtain ds s' where one: "on_log_loaded p l arc cs s = (ds, s')" by fastforce
  have "same_records ds cs" using loaded_same [of p l arc cs s] Cons.prems one by simp
  moreover have "same_records (fst (run_loaded ps l arc ds s')) ds" using Cons by simp
  ultimately show ?case using one same_records_trans by simp
qed simp

lemma run_upserted_same:
  "set ps \<subseteq> set procs \<Longrightarrow> same_records (fst (snd (run_upserted ps l arc committed previous cs s))) cs"
proof (induction ps arbitrary: cs s)
  case (Cons p ps)
  obtain ch ds s' where one: "on_contacts_upserted p l arc cs committed previous s = (ch, ds, s')"
    by (metis prod.collapse)
  have "same_records ds cs" using upserted_same [of p l arc cs committed previous s] Cons.prems one by simp
  moreover have "same_records (fst (snd (run_upserted ps l arc committed previous ds s'))) ds" using Cons by simp
  ultimately have "same_records (fst (snd (run_upserted ps l arc committed previous ds s'))) cs"
    using same_records_trans by blast
  then show ?case using one by (simp add: case_prod_unfold)
qed simp

lemma run_deleted_same:
  "set ps \<subseteq> set procs \<Longrightarrow> same_records (fst (snd (run_deleted ps l arc deleted cs s))) cs"
proof (induction ps arbitrary: cs s)
  case (Cons p ps)
  obtain ch ds s' where one: "on_contact_deleted p l arc cs deleted s = (ch, ds, s')"
    by (metis prod.collapse)
  have "same_records ds cs" using deleted_same [of p l arc cs deleted s] Cons.prems one by simp
  moreover have "same_records (fst (snd (run_deleted ps l arc deleted ds s'))) ds" using Cons by simp
  ultimately have "same_records (fst (snd (run_deleted ps l arc deleted ds s'))) cs"
    using same_records_trans by blast
  then show ?case using one by (simp add: case_prod_unfold)
qed simp

lemma upsert_ok:
  assumes ok: "cached_log_ok cl"
    and run: "upsert_cached_log procs l revision committed cl s = (result, cl', s')"
  shows "cached_log_ok cl' \<and> cl_revision cl' = revision
    \<and> (\<forall>i. adif_with (cl_contacts cl') i = records_after committed (cl_contacts cl) i)"
proof -
  define final where "final = final_contacts committed"
  define previous where "previous = map (\<lambda>c. Option.bind (contact_id c) (contact_by_id cl)) final"
  obtain dirty c1 where a: "apply_upserted_contacts final previous cl = (dirty, c1)" by fastforce
  have final: "contact_ids_ok final" "contact_with final i = contact_with (rev committed) i" for i
    by (simp_all add: final_def final_contacts_facts)
  have c1: "cv.ordered (cl_contacts c1)" "contact_ids_ok (cl_contacts c1)" "\<not> dirty \<longrightarrow> cached_log_ok c1"
    "\<forall>i. contact_with (cl_contacts c1) i =
         (case contact_with final i of Some d \<Rightarrow> Some d | None \<Rightarrow> contact_with (cl_contacts cl) i)"
    using apply_upserted_ok [OF ok final(1) previous_def a] by blast+
  obtain changed cs s1 where r: "run_upserted procs l (cl_module c1) final previous (cl_contacts c1) s = (changed, cs, s1)"
    by (metis prod.collapse)
  have same: "same_records cs (cl_contacts c1)"
    using run_upserted_same [of procs l "cl_module c1" final previous "cl_contacts c1" s] r by simp
  have cl': "cl' = (if dirty then rebuild_indexes (c1\<lparr>cl_contacts := cs\<rparr>) else c1\<lparr>cl_contacts := cs\<rparr>)\<lparr>cl_revision := revision\<rparr>"
    using run a r by (simp add: upsert_cached_log_def Let_def final_def [symmetric] previous_def [symmetric])
  have "cached_log_ok (if dirty then rebuild_indexes (c1\<lparr>cl_contacts := cs\<rparr>) else c1\<lparr>cl_contacts := cs\<rparr>)"
  proof (cases dirty)
    case True
    have "cached_log_ok (rebuild_indexes (c1\<lparr>cl_contacts := cs\<rparr>))"
      by (rule rebuild_indexes_ok)
        (use same same_records_ordered c1(1,2) same_records_ids_ok in simp_all)
    with True show ?thesis by simp
  next
    case False
    then show ?thesis using cached_log_ok_same [OF _ same] c1(3) by simp
  qed
  then have "cached_log_ok cl'" by (simp add: cl' cached_log_ok_def)
  moreover have "cl_contacts cl' = cs" by (simp add: cl' rebuild_indexes_def)
  moreover have "adif_with cs i = records_after committed (cl_contacts cl) i" for i
  proof -
    have "adif_with cs i = adif_with (cl_contacts c1) i" by (rule same_records_adif [OF same])
    then show ?thesis
      unfolding adif_with_def records_after_def c1(4) [rule_format] final(2) by (simp split: option.split)
  qed
  ultimately show ?thesis by (simp add: cl')
qed

lemma remove_at_ids:
  assumes "contact_ids_ok cs" and "n < length cs"
  shows "contact_ids_ok (remove_at n cs)
    \<and> (\<forall>i. contact_with (remove_at n cs) i = (if contact_id (cs ! n) = Some i then None else contact_with cs i))"
proof -
  have split: "cs = take n cs @ cs ! n # drop (Suc n) cs" using assms(2) by (simp add: id_take_nth_drop)
  have r: "remove_at n cs = take n cs @ drop (Suc n) cs" by (simp add: remove_at_def)
  have "contact_ids_ok (take n cs @ cs ! n # drop (Suc n) cs)" using assms(1) split by simp
  then have ids: "contact_ids_ok (take n cs @ drop (Suc n) cs)"
    and away: "contact_id (cs ! n) \<notin> contact_id ` set (take n cs @ drop (Suc n) cs)"
    unfolding contact_ids_ok_map by auto
  have mem: "d \<in> set cs \<longleftrightarrow> d = cs ! n \<or> d \<in> set (remove_at n cs)" for d
    by (subst (1) split) (auto simp: r)
  have ids': "contact_ids_ok (remove_at n cs)" using ids r by simp
  moreover have "contact_with (remove_at n cs) i = (if contact_id (cs ! n) = Some i then None else contact_with cs i)" for i
  proof (cases "contact_id (cs ! n) = Some i")
    case True
    with away have "Some i \<notin> contact_id ` set (remove_at n cs)" by (simp add: r)
    with True show ?thesis by (simp add: contact_with_None)
  next
    case False
    have "contact_with (remove_at n cs) i = contact_with cs i"
      by (rule option_ext) (use False mem in \<open>auto simp: contact_with_Some [OF ids'] contact_with_Some [OF assms(1)]\<close>)
    with False show ?thesis by simp
  qed
  ultimately show ?thesis by blast
qed

lemma delete_ok:
  assumes ok: "cached_log_ok cl"
    and run: "delete_cached_contact procs l revision i cl s = Some (changed, cl', s')"
  shows "cached_log_ok cl' \<and> cl_revision cl' = revision
    \<and> adif_with (cl_contacts cl') = (adif_with (cl_contacts cl))(i := None)"
proof -
  have ids: "contact_ids_ok (cl_contacts cl)" and ord: "cv.ordered (cl_contacts cl)"
    using ok by (simp_all add: cached_log_ok_def)
  obtain n where "position (\<lambda>c. contact_id c = Some i) (cl_contacts cl) = Some n"
    using run by (auto simp: delete_cached_contact_def split: option.splits)
  then have n: "n < length (cl_contacts cl)" "contact_id (cl_contacts cl ! n) = Some i"
    and pos: "position (\<lambda>c. contact_id c = Some i) (cl_contacts cl) = Some n"
    using position_ids [OF ids] by auto
  let ?cs = "remove_at n (cl_contacts cl)"
  obtain ch cs s1 where r: "run_deleted procs l (cl_module cl) (cl_contacts cl ! n) ?cs s = (ch, cs, s1)"
    by (metis prod.collapse)
  have same: "same_records cs ?cs"
    using run_deleted_same [of procs l "cl_module cl" "cl_contacts cl ! n" ?cs s] r by simp
  have cl': "cl' = (rebuild_indexes (cl\<lparr>cl_contacts := cs\<rparr>))\<lparr>cl_revision := revision\<rparr>"
    using run pos r by (auto simp: delete_cached_contact_def)
  have "cv.ordered ?cs" by (rule cv.remove_ordered [OF ord])
  with remove_at_ids [OF ids n(1)] have "cached_log_ok (rebuild_indexes (cl\<lparr>cl_contacts := cs\<rparr>))"
    by (intro rebuild_indexes_ok) (use same same_records_ordered same_records_ids_ok in auto)
  then have "cached_log_ok cl'" by (simp add: cl' cached_log_ok_def)
  moreover have "adif_with (cl_contacts cl') j = ((adif_with (cl_contacts cl))(i := None)) j" for j
    using remove_at_ids [OF ids n(1)] n(2) same_records_adif [OF same, of j]
    by (auto simp: cl' rebuild_indexes_def adif_with_def)
  ultimately show ?thesis by (auto simp: cl')
qed

end

section \<open>The search by prefix\<close>

text \<open>In the order of texts, those with a prefix are one range that starts at the prefix.\<close>

lemma prefix_range_le:
  fixes p s :: string
  shows "prefix p s \<Longrightarrow> p \<le> s"
proof (induction p arbitrary: s)
  case (Cons c p)
  then show ?case by (cases s) auto
qed simp

lemma prefix_range_end:
  fixes p s t :: string
  assumes "p \<le> s" and "s \<le> t" and "prefix p t"
  shows "prefix p s"
  using assms
proof (induction p arbitrary: s t)
  case (Cons c p)
  obtain t' where t: "t = c # t'" "prefix p t'" using Cons.prems(3) by (cases t) auto
  obtain d s' where s: "s = d # s'" using Cons.prems(1) by (cases s) auto
  have "d = c" using Cons.prems(1,2) unfolding s t by auto
  then show ?case using Cons.IH [of s' t'] Cons.prems(1,2) t(2) unfolding s t by auto
qed simp

lemma prefix_range:
  fixes index :: "(string \<times> int list) list"
  assumes "bt_ok index"
  shows "takeWhile (\<lambda>(callsign, _). prefix p callsign) (dropWhile (\<lambda>(callsign, _). callsign < p) index)
    = filter (\<lambda>(callsign, _). prefix p callsign) index"
proof -
  have sorted: "sorted_wrt (\<lambda>x y. fst x < fst y) index"
    using assms by (simp add: bt_ok_def sorted_wrt_map)
  show ?thesis
    using sorted
  proof (induction index)
    case (Cons x index)
    obtain k ids where x: "x = (k, ids)" by fastforce
    have tail: "\<forall>y\<in>set index. k < fst y" and srt: "sorted_wrt (\<lambda>x y. fst x < fst y) index"
      using Cons.prems by (simp_all add: x)
    show ?case
    proof (cases "k < p")
      case True
      then have "\<not> prefix p k" using prefix_range_le by fastforce
      with True Cons.IH [OF srt] show ?thesis by (simp add: x)
    next
      case False
      then have above: "\<forall>y\<in>set index. \<not> fst y < p" using tail by force
      then have drop: "dropWhile (\<lambda>(callsign, _). callsign < p) index = index"
        by (cases index) auto
      show ?thesis
      proof (cases "prefix p k")
        case True
        with False Cons.IH [OF srt] drop show ?thesis by (simp add: x)
      next
        case no: False
        have "\<not> prefix p (fst y)" if "y \<in> set index" for y
          using prefix_range_end [of p k "fst y"] no False tail that by force
        then have "filter (\<lambda>(callsign, _). prefix p callsign) index = []"
          by (auto simp: filter_empty_conv)
        with no False show ?thesis by (simp add: x)
      qed
    qed
  qed simp
qed

lemma fold_hs_insert_set: "set (fold hs_insert ids acc) = set ids \<union> set acc"
  by (induction ids arbitrary: acc) (auto simp: hs_insert_def)

lemma matching_ids:
  assumes "callsigns_ok cs (callsign_index cl)"
  shows "set (matching_contact_ids_for_prefix cl p) =
    {i. \<exists>c\<in>set cs. contact_id c = Some i \<and> (\<exists>k. contact_callsign c = Some k \<and> prefix p k)}"
proof -
  have bt: "bt_ok (callsign_index cl)"
    and get: "\<And>k i. (\<exists>ids. map_of (callsign_index cl) k = Some ids \<and> i \<in> set ids) \<longleftrightarrow>
      (\<exists>c\<in>set cs. contact_id c = Some i \<and> contact_callsign c = Some k)"
    using assms unfolding callsigns_ok_def by blast+
  have all: "set (fold (\<lambda>(_, ids) acc. fold hs_insert ids acc) xs acc) = (\<Union>x\<in>set xs. set (snd x)) \<union> set acc"
    for xs :: "(string \<times> int list) list" and acc
    by (induction xs arbitrary: acc) (auto simp: fold_hs_insert_set)
  have mem: "(k, ids) \<in> set (callsign_index cl) \<longleftrightarrow> map_of (callsign_index cl) k = Some ids" for k ids
    using bt_ok_distinct [OF bt] by simp
  have "i \<in> set (matching_contact_ids_for_prefix cl p) \<longleftrightarrow>
      (\<exists>k. prefix p k \<and> (\<exists>ids. map_of (callsign_index cl) k = Some ids \<and> i \<in> set ids))" for i
    unfolding matching_contact_ids_for_prefix_def prefix_range [OF bt] all using mem by auto
  then show ?thesis unfolding get by blast
qed

definition matches_prefix :: "string \<Rightarrow> contact \<Rightarrow> bool" where
  "matches_prefix p c \<longleftrightarrow> (case contact_callsign c of Some k \<Rightarrow> prefix p k | None \<Rightarrow> False)"

lemma set_map_filter_eq: "n \<in> set (List.map_filter f xs) \<longleftrightarrow> (\<exists>x\<in>set xs. f x = Some n)"
  by (induction xs) (auto simp: map_filter_simps split: option.splits)

lemma distinct_map_filter:
  assumes "distinct xs" and "\<And>x y n. f x = Some n \<Longrightarrow> f y = Some n \<Longrightarrow> x = y"
  shows "distinct (List.map_filter f xs)"
  using assms(1)
proof (induction xs)
  case (Cons x xs)
  then show ?case using assms(2)
    by (cases "f x") (auto simp: map_filter_simps set_map_filter_eq)
qed (simp add: map_filter_simps)

lemma matching_ids_distinct: "distinct (matching_contact_ids_for_prefix cl p)"
proof -
  have ins: "distinct acc \<Longrightarrow> distinct (fold hs_insert ids acc)" for ids acc :: "int list"
    by (induction ids arbitrary: acc) (auto simp: hs_insert_def)
  have "distinct acc \<Longrightarrow> distinct (fold (\<lambda>(_, ids) acc. fold hs_insert ids acc) xs acc)"
    for xs :: "(string \<times> int list) list" and acc
    by (induction xs arbitrary: acc) (simp_all add: ins split: prod.split)
  then show ?thesis by (simp add: matching_contact_ids_for_prefix_def)
qed

lemma filter_nths: "filter Q xs = map (\<lambda>n. xs ! n) (filter (\<lambda>n. Q (xs ! n)) [0..<length xs])"
  by (metis (no_types, lifting) filter_cong filter_map map_nth o_apply)

lemma display_page_spec:
  assumes ok: "cached_log_ok cl" and p: "normalized_callsign_prefix wanted = Some p"
  shows "display_page cl offset limit wanted = take limit (drop offset (filter (matches_prefix p) (cl_contacts cl)))"
proof -
  let ?cs = "cl_contacts cl"
  define ns where "ns = List.map_filter (hm_get (contact_positions cl)) (matching_contact_ids_for_prefix cl p)"
  have ids: "contact_ids_ok ?cs" and call: "callsigns_ok ?cs (callsign_index cl)"
    and pos: "hm_get (contact_positions cl) i = Some n \<longleftrightarrow> n < length ?cs \<and> contact_id (?cs ! n) = Some i" for i n
    using ok by (simp_all add: cached_log_ok_def positions_ok_def)
  have "distinct ns" unfolding ns_def
    by (rule distinct_map_filter [OF matching_ids_distinct]) (auto simp: pos)
  have mem: "n \<in> set ns \<longleftrightarrow> n < length ?cs \<and> matches_prefix p (?cs ! n)" for n
  proof -
    have "n \<in> set ns \<longleftrightarrow> (\<exists>i. i \<in> set (matching_contact_ids_for_prefix cl p) \<and> n < length ?cs \<and> contact_id (?cs ! n) = Some i)"
      by (auto simp: ns_def set_map_filter_eq pos)
    also have "\<dots> \<longleftrightarrow> n < length ?cs \<and> (\<exists>k. contact_callsign (?cs ! n) = Some k \<and> prefix p k)"
    proof
      assume "\<exists>i. i \<in> set (matching_contact_ids_for_prefix cl p) \<and> n < length ?cs \<and> contact_id (?cs ! n) = Some i"
      then obtain i c k where n: "n < length ?cs" "contact_id (?cs ! n) = Some i"
        and c: "c \<in> set ?cs" "contact_id c = Some i" "contact_callsign c = Some k" "prefix p k"
        unfolding matching_ids [OF call] by blast
      have "c = ?cs ! n" using contact_with_Some [OF ids, of i c] contact_with_Some [OF ids, of i "?cs ! n"] n c by simp
      with n c show "n < length ?cs \<and> (\<exists>k. contact_callsign (?cs ! n) = Some k \<and> prefix p k)" by blast
    next
      assume n: "n < length ?cs \<and> (\<exists>k. contact_callsign (?cs ! n) = Some k \<and> prefix p k)"
      then have "?cs ! n \<in> set ?cs" by simp
      moreover from this obtain i where "contact_id (?cs ! n) = Some i" using ids by (auto simp: contact_ids_ok_def)
      ultimately show "\<exists>i. i \<in> set (matching_contact_ids_for_prefix cl p) \<and> n < length ?cs \<and> contact_id (?cs ! n) = Some i"
        using n unfolding matching_ids [OF call] by blast
    qed
    also have "\<dots> \<longleftrightarrow> n < length ?cs \<and> matches_prefix p (?cs ! n)"
      by (simp add: matches_prefix_def split: option.split)
    finally show ?thesis .
  qed
  have "sort ns = filter (\<lambda>n. matches_prefix p (?cs ! n)) [0..<length ?cs]"
  proof (rule sorted_distinct_set_unique)
    show "distinct (sort ns)" using \<open>distinct ns\<close> by simp
    show "sorted (filter (\<lambda>n. matches_prefix p (?cs ! n)) [0..<length ?cs])"
      by (rule sorted_wrt_filter) simp
    show "set (sort ns) = set (filter (\<lambda>n. matches_prefix p (?cs ! n)) [0..<length ?cs])"
      using mem by (simp add: set_eq_iff)
  qed simp_all
  then have eq: "display_page cl offset limit wanted = List.map_filter
      (\<lambda>i. if i < length ?cs then Some (?cs ! i) else None)
      (take limit (drop offset (filter (\<lambda>n. matches_prefix p (?cs ! n)) [0..<length ?cs])))"
    by (simp add: display_page_def p ns_def [symmetric])
  have nth: "List.map_filter (\<lambda>i. if i < length ?cs then Some (?cs ! i) else None) xs = map ((!) ?cs) xs"
    if "set xs \<subseteq> {..<length ?cs}" for xs
    using that by (induction xs) (auto simp: map_filter_simps)
  have "set (take limit (drop offset (filter (\<lambda>n. matches_prefix p (?cs ! n)) [0..<length ?cs]))) \<subseteq> {..<length ?cs}"
    by (rule subset_trans [OF set_take_subset subset_trans [OF set_drop_subset]]) auto
  from nth [OF this] show ?thesis
    unfolding eq filter_nths [of "matches_prefix p" ?cs] by (simp add: take_map drop_map)
qed

section \<open>Enrichment\<close>

definition enrich_one :: "dxcc_database \<Rightarrow> contact \<Rightarrow> contact" where
  "enrich_one db contact =
     stamp_worked db
       (case Option.bind (station_call contact) (dxcc_lookup db) of
          Some info \<Rightarrow> stamp_station info contact | None \<Rightarrow> contact)"

lemma enrich_from_map:
  "\<forall>k v. hm_get known k = Some v \<longrightarrow> v = dxcc_lookup db k \<Longrightarrow> enrich_from db cs known = map (enrich_one db) cs"
proof (induction cs arbitrary: known)
  case (Cons c cs)
  show ?case
  proof (cases "station_call c")
    case None
    with Cons show ?thesis by (simp add: enrich_one_def)
  next
    case (Some s)
    show ?thesis
    proof (cases "hm_get known s")
      case None
      have "\<forall>k v. hm_get (hm_put s (dxcc_lookup db s) known) k = Some v \<longrightarrow> v = dxcc_lookup db k"
        using Cons.prems by (auto simp: hm_get_put)
      from Cons.IH [OF this] show ?thesis by (simp add: Some None enrich_one_def Let_def)
    next
      case v: (Some info)
      have "info = dxcc_lookup db s" using Cons.prems v by blast
      with Cons.IH [OF Cons.prems] Some v show ?thesis by (simp add: enrich_one_def)
    qed
  qed
qed simp

lemma enrich_missing_dxcc_map: "enrich_missing_dxcc db cs = map (enrich_one db) cs"
  by (simp add: enrich_missing_dxcc_def enrich_from_map)

lemma contact_adif_value_set:
  "contact_adif_value (set_contact_adif c key v) name =
     (if normalize_adif_field_name name = normalize_adif_field_name key then Some v
      else contact_adif_value c name)"
  by (auto simp: contact_adif_value_def contact_adif_set_adif bt_get_put split: option.splits)

lemma dxcc_names:
  "normalize_adif_field_name ''DXCC'' = ''DXCC''"
  "normalize_adif_field_name ''APP_LOG73_DXCC_PFX'' = ''APP_LOG73_DXCC_PFX''"
  "normalize_adif_field_name ''CONT'' = ''CONT''"
  "normalize_adif_field_name ''MY_DXCC'' = ''MY_DXCC''"
  "normalize_adif_field_name ''MY_CONT'' = ''MY_CONT''"
  "normalize_adif_field_name ''APP_LOG73_MY_DXCC_PFX'' = ''APP_LOG73_MY_DXCC_PFX''"
  "normalize_adif_field_name ''CALL'' = ''CALL''"
  "normalize_adif_field_name ''STATION_CALLSIGN'' = ''STATION_CALLSIGN''"
  by code_simp+

definition station_names :: "string list" where
  "station_names = [''MY_DXCC'', ''MY_CONT'', ''APP_LOG73_MY_DXCC_PFX'']"

definition worked_names :: "string list" where
  "worked_names = [''DXCC'', ''APP_LOG73_DXCC_PFX'', ''CONT'']"

text \<open>Two contacts with the same QSO fields.\<close>

definition same_values :: "contact \<Rightarrow> contact \<Rightarrow> bool" where
  "same_values c d \<longleftrightarrow> contact_adif_value c = contact_adif_value d"

lemma stamp_station_value:
  "contact_adif_value (stamp_station info c) name =
     (let name' = normalize_adif_field_name name
      in if name' = ''APP_LOG73_MY_DXCC_PFX'' then Some (JString (info_primary_prefix info))
         else if name' = ''MY_CONT'' then Some (JString (info_continent info))
         else if name' = ''MY_DXCC'' then Some (JInt (int (info_adif info)))
         else contact_adif_value c name)"
  unfolding stamp_station_def Let_def contact_adif_value_set dxcc_names by (rule refl)

lemma stamp_worked_other:
  assumes "normalize_adif_field_name name \<notin> set worked_names"
  shows "contact_adif_value (stamp_worked db c) name = contact_adif_value c name"
  using assms
  by (simp add: stamp_worked_def Let_def contact_adif_value_set dxcc_names worked_names_def
      split: option.split)

lemma stamp_worked_calls [simp]:
  "station_call (stamp_worked db c) = station_call c" "worked_call (stamp_worked db c) = worked_call c"
  unfolding station_call_def worked_call_def
  by (simp_all add: stamp_worked_other dxcc_names worked_names_def)

lemma stamp_station_calls [simp]:
  "station_call (stamp_station info c) = station_call c" "worked_call (stamp_station info c) = worked_call c"
  unfolding station_call_def worked_call_def
  by (simp_all add: stamp_station_value dxcc_names)

lemma missing_set:
  "dxcc_missing (set_contact_adif c key v) =
     (if normalize_adif_field_name key = ''DXCC'' then v = JNull else dxcc_missing c)"
  "text_missing (set_contact_adif c key v) name =
     (if normalize_adif_field_name name = normalize_adif_field_name key
      then (case as_str v of Some t \<Rightarrow> trim t = [] | None \<Rightarrow> True) else text_missing c name)"
  by (auto simp: dxcc_missing_def text_missing_def contact_adif_value_set dxcc_names)

lemma stamp_worked_idem [simp]: "stamp_worked db (stamp_worked db c) = stamp_worked db c"
proof (cases "worked_call c")
  case None
  then show ?thesis by (simp add: stamp_worked_def)
next
  case (Some call)
  show ?thesis
  proof (cases "dxcc_lookup db call")
    case None
    with Some show ?thesis by (simp add: stamp_worked_def Let_def)
  next
    case info: (Some info)
    let ?d = "stamp_worked db c"
    have "\<not> dxcc_missing ?d" "text_missing ?d ''APP_LOG73_DXCC_PFX'' \<Longrightarrow> trim (info_primary_prefix info) = []"
      "text_missing ?d ''CONT'' \<Longrightarrow> trim (info_continent info) = []"
      by (auto simp: stamp_worked_def Some info Let_def missing_set dxcc_names split: if_splits)
    moreover have "worked_call ?d = Some call" using Some by simp
    ultimately show ?thesis
      by (subst (1) stamp_worked_def) (auto simp: info Let_def)
  qed
qed

lemma stamp_worked_present:
  "\<not> dxcc_missing c \<Longrightarrow> contact_adif_value (stamp_worked db c) ''DXCC'' = contact_adif_value c ''DXCC''"
  "name \<in> {''APP_LOG73_DXCC_PFX'', ''CONT''} \<Longrightarrow> \<not> text_missing c name \<Longrightarrow>
     contact_adif_value (stamp_worked db c) name = contact_adif_value c name"
  by (auto simp: stamp_worked_def Let_def contact_adif_value_set dxcc_names split: option.split)

lemma same_values_calls:
  "same_values c d \<Longrightarrow> station_call c = station_call d"
  "same_values c d \<Longrightarrow> worked_call c = worked_call d"
  by (simp_all add: same_values_def station_call_def worked_call_def)

lemma same_values_set:
  "same_values c d \<Longrightarrow> same_values (set_contact_adif c key v) (set_contact_adif d key v)"
  by (simp add: same_values_def fun_eq_iff contact_adif_value_set)

lemma same_values_stamp_worked:
  assumes "same_values c d"
  shows "same_values (stamp_worked db c) (stamp_worked db d)"
proof -
  have eq: "contact_adif_value c = contact_adif_value d" using assms by (simp add: same_values_def)
  have "dxcc_missing c = dxcc_missing d" "text_missing c = text_missing d"
    by (simp_all add: dxcc_missing_def text_missing_def eq fun_eq_iff)
  with assms same_values_calls(2) [OF assms] show ?thesis
    by (auto simp: stamp_worked_def Let_def same_values_set split: option.split)
qed

lemma enrich_one_idem: "same_values (enrich_one db (enrich_one db c)) (enrich_one db c)"
proof -
  define st where "st c = (case Option.bind (station_call c) (dxcc_lookup db) of
    Some info \<Rightarrow> stamp_station info c | None \<Rightarrow> c)" for c
  have one: "enrich_one db c = stamp_worked db (st c)" for c by (simp add: enrich_one_def st_def)
  have call: "station_call (st c) = station_call c"
    by (auto simp: st_def split: option.split)
  have again: "same_values (st (stamp_worked db (st c))) (stamp_worked db (st c))"
  proof (cases "Option.bind (station_call c) (dxcc_lookup db)")
    case None
    then show ?thesis by (simp add: st_def [of "stamp_worked db (st c)"] call same_values_def)
  next
    case (Some info)
    have "contact_adif_value (stamp_station info (stamp_worked db (st c))) name
      = contact_adif_value (stamp_worked db (st c)) name" for name
      unfolding stamp_station_value
      by (auto simp: Let_def st_def Some stamp_worked_other worked_names_def stamp_station_value)
    then show ?thesis by (simp add: st_def [of "stamp_worked db (st c)"] call Some same_values_def fun_eq_iff)
  qed
  have "same_values (stamp_worked db (st (stamp_worked db (st c)))) (stamp_worked db (stamp_worked db (st c)))"
    by (rule same_values_stamp_worked [OF again])
  then show ?thesis by (simp add: one)
qed

lemma enrich_one_keeps:
  "contact_meta (enrich_one db c) = contact_meta c"
  "normalize_adif_field_name name \<notin> set (station_names @ worked_names) \<Longrightarrow>
     contact_adif_value (enrich_one db c) name = contact_adif_value c name"
  "\<not> dxcc_missing c \<Longrightarrow> contact_adif_value (enrich_one db c) ''DXCC'' = contact_adif_value c ''DXCC''"
  "name \<in> {''APP_LOG73_DXCC_PFX'', ''CONT''} \<Longrightarrow> \<not> text_missing c name \<Longrightarrow>
     contact_adif_value (enrich_one db c) name = contact_adif_value c name"
proof -
  show "contact_meta (enrich_one db c) = contact_meta c"
    by (simp add: enrich_one_def stamp_worked_def stamp_station_def Let_def split: option.split)
  have st: "contact_adif_value (case info of Some info \<Rightarrow> stamp_station info c | None \<Rightarrow> c) name
    = contact_adif_value c name" if "normalize_adif_field_name name \<notin> set station_names" for info name
    using that by (auto simp: stamp_station_value station_names_def split: option.split)
  {
    assume "normalize_adif_field_name name \<notin> set (station_names @ worked_names)"
    then have s: "normalize_adif_field_name name \<notin> set station_names"
      and w: "normalize_adif_field_name name \<notin> set worked_names" by simp_all
    show "contact_adif_value (enrich_one db c) name = contact_adif_value c name"
      unfolding enrich_one_def stamp_worked_other [OF w] by (rule st [OF s])
  }
  let ?c = "case Option.bind (station_call c) (dxcc_lookup db) of Some info \<Rightarrow> stamp_station info c | None \<Rightarrow> c"
  have names: "normalize_adif_field_name n = n \<and> n \<notin> set station_names"
    if "n \<in> {''DXCC'', ''APP_LOG73_DXCC_PFX'', ''CONT''}" for n
    using that by (auto simp: dxcc_names station_names_def)
  have v: "contact_adif_value ?c n = contact_adif_value c n" if "n \<in> {''DXCC'', ''APP_LOG73_DXCC_PFX'', ''CONT''}" for n
    using names [OF that] by (intro st) simp
  {
    assume "\<not> dxcc_missing c"
    then have "\<not> dxcc_missing ?c" by (simp add: dxcc_missing_def v)
    then show "contact_adif_value (enrich_one db c) ''DXCC'' = contact_adif_value c ''DXCC''"
      unfolding enrich_one_def by (rule trans [OF stamp_worked_present(1) v]) (rule insertI1)
  }
  {
    assume n: "name \<in> {''APP_LOG73_DXCC_PFX'', ''CONT''}" and "\<not> text_missing c name"
    then have "\<not> text_missing ?c name" by (simp add: text_missing_def v [OF insertI2 [OF n]])
    then show "contact_adif_value (enrich_one db c) name = contact_adif_value c name"
      unfolding enrich_one_def by (rule trans [OF stamp_worked_present(2) [OF n] v [OF insertI2 [OF n]]])
  }
qed

section \<open>Loading a log\<close>

text \<open>A snapshot of a consistent contact cache lists its contacts with distinct ids.\<close>

lemma contacts_ok_ids:
  assumes "contacts_ok cc"
  shows "contact_ids_ok (cached_to_list cc)"
proof -
  have get: "c \<in> set (cached_to_list cc) \<Longrightarrow> \<exists>i. hm_get (by_id cc) i = Some c \<and> contact_id c = Some i" for c
    using cached_to_list_set [OF assms] assms by (force simp: ran_def contacts_ok_def)
  have srt: "sorted_wrt (\<lambda>c d. order_key c < order_key d) (cached_to_list cc)"
  proof -
    have "k = order_key c" if "(k, c) \<in> set (ordered_contacts cc)" for k c
    proof -
      have "map_of (ordered_contacts cc) k = Some c"
        using assms that by (simp add: contacts_ok_def bt_ok_distinct)
      with assms show ?thesis by (simp add: contacts_ok_def)
    qed
    then have "map order_key (cached_to_list cc) = map fst (ordered_contacts cc)"
      by (auto simp: map_eq_conv cached_to_list_def)
    then have "sorted_wrt (<) (map order_key (cached_to_list cc))"
      using assms by (simp only: contacts_ok_def bt_ok_def)
    then show ?thesis by (simp add: sorted_wrt_map)
  qed
  have "sorted_wrt (\<lambda>c d. contact_id c \<noteq> contact_id d) (cached_to_list cc)"
  proof (rule sorted_wrt_mono_rel [OF _ srt])
    fix c d assume cd: "c \<in> set (cached_to_list cc)" "d \<in> set (cached_to_list cc)"
      and less: "order_key c < order_key d"
    show "contact_id c \<noteq> contact_id d"
    proof
      assume eq: "contact_id c = contact_id d"
      obtain i j where "hm_get (by_id cc) i = Some c" "contact_id c = Some i"
        "hm_get (by_id cc) j = Some d" "contact_id d = Some j" using get cd by meson
      with eq have "c = d" by simp
      with less show False by simp
    qed
  qed
  then have "distinct (map contact_id (cached_to_list cc))"
    by (simp add: distinct_conv_nth sorted_wrt_iff_nth_less) (metis linorder_neqE_nat)
  then show ?thesis unfolding contact_ids_ok_def using get by fastforce
qed

definition view_ok :: "db_view \<Rightarrow> bool" where
  "view_ok v \<longleftrightarrow>
     (case view_snapshot v of Inr (Some snap) \<Rightarrow> contacts_ok (snap_contacts snap) | _ \<Rightarrow> True)"

definition cache_ok :: "'p log_cache \<Rightarrow> bool" where
  "cache_ok lc \<longleftrightarrow> hm_ok (lc_logs lc) \<and> (\<forall>l cl. hm_get (lc_logs lc) l = Some cl \<longrightarrow> cached_log_ok cl)"

lemma cache_ok_empty: "cache_ok \<lparr>lc_logs = [], lc_modules = mods, lc_state = s\<rparr>"
  by (simp add: cache_ok_def hm_ok_def)

lemma cache_ok_put:
  "cache_ok lc \<Longrightarrow> cached_log_ok cl \<Longrightarrow> cache_ok (lc\<lparr>lc_logs := hm_put l cl (lc_logs lc), lc_state := s\<rparr>)"
  by (auto simp: cache_ok_def hm.ok_put hm_get_put)

lemma cache_ok_remove:
  "cache_ok lc \<Longrightarrow> cache_ok (lc\<lparr>lc_logs := hm_remove l (lc_logs lc), lc_state := s\<rparr>)"
  by (auto simp: cache_ok_def hm.ok_remove hm_get_remove)

lemma cache_ok_modules [simp]: "cache_ok (lc\<lparr>lc_modules := mods\<rparr>) = cache_ok lc"
  by (simp add: cache_ok_def)

lemma new_cached_log_ok:
  assumes "contact_ids_ok cs"
  shows "cached_log_ok ((new_cached_log arc (sort_contacts_desc cs))\<lparr>cl_revision := r\<rparr>)"
proof -
  have "contact_ids_ok (sort_contacts_desc cs)"
    using contact_ids_ok_mset [of cs "sort_contacts_desc cs"] assms by simp
  then have "cached_log_ok (new_cached_log arc (sort_contacts_desc cs))"
    unfolding new_cached_log_def by (intro rebuild_indexes_ok) (simp_all add: sort_contacts_desc_ordered)
  then show ?thesis by (simp add: cached_log_ok_def)
qed

lemma enrich_ids: "map contact_id (enrich_missing_dxcc db cs) = map contact_id cs"
  by (simp add: enrich_missing_dxcc_map contact_id_def contact_meta_value_def enrich_one_keeps(1))

definition loaded_from :: "log_cache_env \<Rightarrow> log_snapshot \<Rightarrow> cached_log \<Rightarrow> bool" where
  "loaded_from env snap cl \<longleftrightarrow>
     cl_revision cl = snap_revision snap
     \<and> (\<forall>i. adif_with (cl_contacts cl) i =
            adif_with (enrich_missing_dxcc (dxcc_db env) (cached_to_list (snap_contacts snap))) i)"

definition steady :: "db_view \<Rightarrow> log_snapshot \<Rightarrow> bool" where
  "steady v snap \<longleftrightarrow>
     view_snapshot v = Inr (Some snap) \<and> revision_before v = Some (snap_revision snap)
     \<and> revision_after v = Some (snap_revision snap)"

lemma load_log_contacts:
  "load_log env snap mods = (Inr (arc, cs), mods') \<Longrightarrow>
     cs = sort_contacts_desc (enrich_missing_dxcc (dxcc_db env) (cached_to_list (snap_contacts snap)))"
  by (auto simp: load_log_def split: option.splits prod.splits)

lemma load_log_ids:
  assumes "load_log env snap mods = (Inr (arc, cs), mods')" and "contacts_ok (snap_contacts snap)"
  shows "contact_ids_ok cs"
    and "adif_with cs i = adif_with (enrich_missing_dxcc (dxcc_db env) (cached_to_list (snap_contacts snap))) i"
proof -
  let ?ds = "enrich_missing_dxcc (dxcc_db env) (cached_to_list (snap_contacts snap))"
  have ok: "contact_ids_ok ?ds"
    using contacts_ok_ids [OF assms(2)] unfolding contact_ids_ok_map enrich_ids .
  have cs: "cs = sort_contacts_desc ?ds" by (rule load_log_contacts [OF assms(1)])
  show ids: "contact_ids_ok cs" using contact_ids_ok_mset [OF ok, of cs] by (simp add: cs)
  have "contact_with cs = contact_with ?ds"
    by (rule contact_with_set [OF ok ids]) (simp add: cs)
  then show "adif_with cs i = adif_with ?ds i" by (simp add: adif_with_def)
qed

text \<open>Induction over the rounds of the load.\<close>

lemma ensure_loop_induct:
  assumes start: "P lc" and run: "ensure_loop env procs l views lc = (r, lc')"
    and modules: "\<And>lc mods. P lc \<Longrightarrow> P (lc\<lparr>lc_modules := mods\<rparr>)"
    and clear: "\<And>lc. P lc \<Longrightarrow> P (clear_log procs l lc)"
    and loaded: "\<And>lc v snap arc cs ds s mods. P lc \<Longrightarrow> v \<in> set views \<Longrightarrow> view_snapshot v = Inr (Some snap) \<Longrightarrow>
      load_log env snap mods = (Inr (arc, cs), lc_modules lc) \<Longrightarrow> run_loaded procs l arc cs (lc_state lc) = (ds, s) \<Longrightarrow>
      P (lc\<lparr>lc_logs := hm_remove l (lc_logs lc), lc_state := run_removed procs l s\<rparr>)
      \<and> P (lc\<lparr>lc_logs := hm_put l ((new_cached_log arc (sort_contacts_desc ds))\<lparr>cl_revision := snap_revision snap\<rparr>) (lc_logs lc),
              lc_state := s\<rparr>)"
  shows "P lc'"
  using start run loaded
proof (induction views arbitrary: lc)
  case (Cons v views)
  note loaded' = Cons.prems(3)
  have IH: "P lc1 \<Longrightarrow> ensure_loop env procs l views lc1 = (r, lc') \<Longrightarrow> P lc'" for lc1
    by (rule Cons.IH, assumption+, rule loaded', assumption, rule list.set_intros(2), assumption+)
  show ?case
  proof (cases "view_snapshot v")
    case (Inl e)
    with Cons.prems show ?thesis by simp
  next
    case (Inr found)
    show ?thesis
    proof (cases found)
      case None
      with Inr Cons.prems(1,2) clear show ?thesis by auto
    next
      case (Some snap)
      obtain a mods where ll: "load_log env snap (lc_modules lc) = (a, mods)" by fastforce
      have m: "P (lc\<lparr>lc_modules := mods\<rparr>)" by (rule modules [OF Cons.prems(1)])
      show ?thesis
      proof (cases a)
        case (Inl e)
        with Inr Some ll Cons.prems(2) m show ?thesis by auto
      next
        case a: (Inr x)
        obtain arc cs where x: "x = (arc, cs)" by fastforce
        obtain ds s where run: "run_loaded procs l arc cs (lc_state lc) = (ds, s)" by fastforce
        have "load_log env snap (lc_modules lc) = (Inr (arc, cs), lc_modules (lc\<lparr>lc_modules := mods\<rparr>))"
          using ll a x by simp
        moreover have "run_loaded procs l arc cs (lc_state (lc\<lparr>lc_modules := mods\<rparr>)) = (ds, s)" using run by simp
        ultimately have both: "P (lc\<lparr>lc_modules := mods, lc_logs := hm_remove l (lc_logs lc), lc_state := run_removed procs l s\<rparr>)"
          "P (lc\<lparr>lc_modules := mods, lc_logs := hm_put l ((new_cached_log arc (sort_contacts_desc ds))\<lparr>cl_revision := snap_revision snap\<rparr>) (lc_logs lc),
              lc_state := s\<rparr>)"
          using loaded' [OF m _ Inr [unfolded Some]] by force+
        show ?thesis
          using Cons.prems(2) Inr Some ll a x run both m IH by (auto simp: Let_def split: if_splits)
      qed
    qed
  qed
qed simp

text \<open>What an operation leaves: the state of a load, or that with the change applied.\<close>

lemma cache_upsert_cases:
  assumes run: "log_cache_upsert env procs l current views store now current' views' contacts lc = (r, lc')"
    and e: "ensure_loaded_locked env procs l current views lc = (r1, lc1)"
    and e2: "ensure_loaded_locked env procs l current' views' lc1 = (r2, lc2)"
  obtains "lc' = lc1" | "lc' = lc2"
    | (applied) cl rev committed result cl' s' where "hm_get (lc_logs lc1) l = Some cl"
        and "upsert_cached_log procs l rev committed cl (lc_state lc1) = (result, cl', s')"
        and "lc' = lc1\<lparr>lc_logs := hm_put l cl' (lc_logs lc1), lc_state := s'\<rparr>"
proof -
  have "lc' = lc1 \<or> lc' = lc2 \<or> (\<exists>cl rev committed result cl' s'. hm_get (lc_logs lc1) l = Some cl
      \<and> upsert_cached_log procs l rev committed cl (lc_state lc1) = (result, cl', s')
      \<and> lc' = lc1\<lparr>lc_logs := hm_put l cl' (lc_logs lc1), lc_state := s'\<rparr>)"
    using run
    by (auto simp: log_cache_upsert_def e e2 Let_def
        split: option.splits sum.splits if_splits prod.splits unit.splits) blast
  then show thesis using that by blast
qed

lemma cache_delete_cases:
  assumes run: "log_cache_delete env procs i (Inr (Some l)) current views deleted now current' views' lc = (r, lc')"
    and e: "ensure_loaded_locked env procs l current views lc = (r1, lc1)"
    and e2: "ensure_loaded_locked env procs l current' views' lc1 = (r2, lc2)"
  obtains "lc' = lc1" | "lc' = lc2"
    | (applied) cl rev changed cl' s' where "hm_get (lc_logs lc1) l = Some cl"
        and "delete_cached_contact procs l rev i cl (lc_state lc1) = Some (changed, cl', s')"
        and "lc' = lc1\<lparr>lc_logs := hm_put l cl' (lc_logs lc1), lc_state := s'\<rparr>"
proof -
  have "lc' = lc1 \<or> lc' = lc2 \<or> (\<exists>cl rev changed cl' s'. hm_get (lc_logs lc1) l = Some cl
      \<and> delete_cached_contact procs l rev i cl (lc_state lc1) = Some (changed, cl', s')
      \<and> lc' = lc1\<lparr>lc_logs := hm_put l cl' (lc_logs lc1), lc_state := s'\<rparr>)"
    using run
    by (auto simp: log_cache_delete_def e e2 split: option.splits sum.splits if_splits prod.splits unit.splits)
  then show thesis using that by blast
qed

lemma log_cache_delete_unknown:
  "owner = Inl e \<or> owner = Inr None \<Longrightarrow>
     snd (log_cache_delete env procs i owner current views deleted now current' views' lc) = lc"
  by (auto simp: log_cache_delete_def)

context log_processors
begin

lemma ensure_loop_ok:
  assumes "cache_ok lc" and "\<And>v. v \<in> set views \<Longrightarrow> view_ok v"
    and "ensure_loop env procs l views lc = (r, lc')"
  shows "cache_ok lc'
    \<and> (r = Some (Inr ()) \<longrightarrow> (\<exists>v\<in>set views. \<exists>snap cl. steady v snap
          \<and> hm_get (lc_logs lc') l = Some cl \<and> loaded_from env snap cl))"
  using assms
proof (induction views arbitrary: lc)
  case Nil
  then show ?case by simp
next
  case (Cons v views)
  show ?case
  proof (cases "view_snapshot v")
    case (Inl e)
    with Cons.prems show ?thesis by auto
  next
    case (Inr found)
    show ?thesis
    proof (cases found)
      case None
      with Inr Cons.prems(1,3) show ?thesis by (auto simp: clear_log_def cache_ok_remove)
    next
      case (Some snap)
      have cc: "contacts_ok (snap_contacts snap)"
        using Cons.prems(2) [of v] Inr Some by (simp add: view_ok_def)
      obtain a mods where ll: "load_log env snap (lc_modules lc) = (a, mods)" by fastforce
      show ?thesis
      proof (cases a)
        case (Inl e)
        with Inr Some ll Cons.prems(1,3) show ?thesis by auto
      next
        case a: (Inr x)
        obtain arc cs where x: "a = Inr (arc, cs)" using a by (cases x) auto
        note ids = load_log_ids [OF ll [unfolded x] cc]
        obtain ds s where run: "run_loaded procs l arc cs (lc_state lc) = (ds, s)" by fastforce
        have same: "same_records ds cs" using run_loaded_same [of procs l arc cs "lc_state lc"] run by simp
        then have ds: "contact_ids_ok ds" using ids(1) same_records_ids_ok by blast
        have removed: "cache_ok (lc\<lparr>lc_modules := mods, lc_logs := hm_remove l (lc_logs lc), lc_state := t\<rparr>)" for t
          using cache_ok_remove [where lc = "lc\<lparr>lc_modules := mods\<rparr>"] Cons.prems(1) by simp
        show ?thesis
        proof (cases "revision_before v = Some (snap_revision snap)
            \<and> revision_after v = Some (snap_revision snap)")
          case True
          let ?cl = "(new_cached_log arc (sort_contacts_desc ds))\<lparr>cl_revision := snap_revision snap\<rparr>"
          have r: "r = Some (Inr ())"
            and lc': "lc' = lc\<lparr>lc_modules := mods, lc_logs := hm_put l ?cl (lc_logs lc), lc_state := s\<rparr>"
            using Cons.prems(3) Inr Some ll x run True by (auto simp: Let_def)
          have "cached_log_ok ?cl" by (rule new_cached_log_ok [OF ds])
          then have "cache_ok lc'"
            using cache_ok_put [where lc = "lc\<lparr>lc_modules := mods\<rparr>" and cl = ?cl and l = l and s = s] Cons.prems(1) by (simp add: lc')
          moreover have "steady v snap" using Inr Some True by (simp add: steady_def)
          moreover have "contact_with (sort_contacts_desc ds) = contact_with ds"
            using contact_ids_ok_mset [OF ds] ds by (intro contact_with_set) simp_all
          then have "loaded_from env snap ?cl"
            using ids(2) same_records_adif [OF same]
            by (simp add: loaded_from_def new_cached_log_def rebuild_indexes_def adif_with_def)
          ultimately show ?thesis by (auto simp: lc' hm_get_put)
        next
          case False
          have step: "cache_ok lc1 \<Longrightarrow> ensure_loop env procs l views lc1 = (r, lc') \<Longrightarrow> ?thesis" for lc1
            using Cons.IH [of lc1] Cons.prems(2) by auto
          show ?thesis
          proof (cases "revision_before v = Some (snap_revision snap)")
            case True
            then show ?thesis
              using False Cons.prems(3) Inr Some ll x run by (intro step [OF removed]) (simp add: Let_def)
          next
            case no: False
            then show ?thesis
              using Cons.prems(1,3) Inr Some ll x run
              by (intro step [of "lc\<lparr>lc_modules := mods\<rparr>"]) (simp_all add: Let_def)
          qed
        qed
      qed
    qed
  qed
qed

lemma ensure_locked_ok:
  assumes "cache_ok lc" and "\<And>v. v \<in> set views \<Longrightarrow> view_ok v"
    and "ensure_loaded_locked env procs l current views lc = (r, lc')"
  shows "cache_ok lc'"
  using assms ensure_loop_ok [of lc views env l r lc']
  by (auto simp: ensure_loaded_locked_def split: if_splits)

lemma cache_upsert_ok:
  assumes ok: "cache_ok lc"
    and views: "\<And>v. v \<in> set views \<Longrightarrow> view_ok v" "\<And>v. v \<in> set views' \<Longrightarrow> view_ok v"
    and run: "log_cache_upsert env procs l current views store now current' views' contacts lc = (r, lc')"
  shows "cache_ok lc'"
proof -
  obtain r1 lc1 where e: "ensure_loaded_locked env procs l current views lc = (r1, lc1)" by fastforce
  have ok1: "cache_ok lc1" by (rule ensure_locked_ok [OF ok views(1) e])
  obtain r2 lc2 where e2: "ensure_loaded_locked env procs l current' views' lc1 = (r2, lc2)" by fastforce
  have ok2: "cache_ok lc2" by (rule ensure_locked_ok [OF ok1 views(2) e2])
  from run e e2 show ?thesis
  proof (cases rule: cache_upsert_cases)
    case (applied cl rev committed result cl' s')
    then have "cached_log_ok cl" using ok1 by (auto simp: cache_ok_def)
    from upsert_ok [OF this applied(2)] applied(3) show ?thesis by (simp add: cache_ok_put [OF ok1])
  qed (use ok1 ok2 in simp_all)
qed

lemma cache_delete_ok:
  assumes ok: "cache_ok lc"
    and views: "\<And>v. v \<in> set views \<Longrightarrow> view_ok v" "\<And>v. v \<in> set views' \<Longrightarrow> view_ok v"
    and run: "log_cache_delete env procs i owner current views deleted now current' views' lc = (r, lc')"
  shows "cache_ok lc'"
proof (cases "\<exists>l. owner = Inr (Some l)")
  case False
  then have "owner = Inr None \<or> (\<exists>e. owner = Inl e)" by (cases owner) auto
  then have "lc' = lc" using run log_cache_delete_unknown by (metis snd_conv)
  with ok show ?thesis by simp
next
  case True
  then obtain l where l: "owner = Inr (Some l)" by blast
  obtain r1 lc1 where e: "ensure_loaded_locked env procs l current views lc = (r1, lc1)" by fastforce
  have ok1: "cache_ok lc1" by (rule ensure_locked_ok [OF ok views(1) e])
  obtain r2 lc2 where e2: "ensure_loaded_locked env procs l current' views' lc1 = (r2, lc2)" by fastforce
  have ok2: "cache_ok lc2" by (rule ensure_locked_ok [OF ok1 views(2) e2])
  from run [unfolded l] e e2 show ?thesis
  proof (cases rule: cache_delete_cases)
    case (applied cl rev changed cl' s')
    then have "cached_log_ok cl" using ok1 by (auto simp: cache_ok_def)
    from delete_ok [OF this applied(2)] applied(3) show ?thesis by (simp add: cache_ok_put [OF ok1])
  qed (use ok1 ok2 in simp_all)
qed

lemma cache_upsert_applies:
  assumes ok: "cache_ok lc" and cl: "hm_get (lc_logs lc) l = Some cl" and cur: "current = Some (cl_revision cl)"
    and store: "store (enrich_missing_dxcc (dxcc_db env) contacts) = Inr mutation"
    and steady: "mut_previous_revision mutation = cl_revision cl" "now = Some (mut_revision mutation)"
  shows "\<exists>result lc' cl'.
    log_cache_upsert env procs l current views store now current' views' contacts lc = (Some (Inr result), lc')
    \<and> hm_get (lc_logs lc') l = Some cl' \<and> cached_log_ok cl' \<and> cl_revision cl' = mut_revision mutation
    \<and> (\<forall>i. adif_with (cl_contacts cl') i = records_after (mut_contacts mutation) (cl_contacts cl) i)"
proof -
  obtain result cl' s' where u:
    "upsert_cached_log procs l (mut_revision mutation) (mut_contacts mutation) cl (lc_state lc) = (result, cl', s')"
    by (metis prod.collapse)
  have "cached_log_ok cl" using ok cl by (auto simp: cache_ok_def)
  from upsert_ok [OF this u] have "cached_log_ok cl' \<and> cl_revision cl' = mut_revision mutation
    \<and> (\<forall>i. adif_with (cl_contacts cl') i = records_after (mut_contacts mutation) (cl_contacts cl) i)" .
  moreover have "log_cache_upsert env procs l current views store now current' views' contacts lc
      = (Some (Inr result), lc\<lparr>lc_logs := hm_put l cl' (lc_logs lc), lc_state := s'\<rparr>)"
    by (simp add: log_cache_upsert_def ensure_loaded_locked_def is_loaded_def cl cur store steady u Let_def split: unit.split)
  ultimately show ?thesis by (auto simp: hm_get_put)
qed

lemma cache_delete_applies:
  assumes ok: "cache_ok lc" and cl: "hm_get (lc_logs lc) l = Some cl" and cur: "current = Some (cl_revision cl)"
    and owner: "owner = Inr (Some l)"
    and deleted: "deleted = Inr (Some d)" "del_log_id d = l" "del_previous_revision d = cl_revision cl"
      "now = Some (del_revision d)"
    and present: "adif_with (cl_contacts cl) i \<noteq> None"
  shows "\<exists>changed lc' cl'.
    log_cache_delete env procs i owner current views deleted now current' views' lc = (Some (Inr (Some (l, changed))), lc')
    \<and> hm_get (lc_logs lc') l = Some cl' \<and> cached_log_ok cl' \<and> cl_revision cl' = del_revision d
    \<and> adif_with (cl_contacts cl') = (adif_with (cl_contacts cl))(i := None)"
proof -
  have "contact_with (cl_contacts cl) i \<noteq> None" using present by (auto simp: adif_with_def)
  then have "Some i \<in> contact_id ` set (cl_contacts cl)" by (metis contact_with_None)
  then have "position (\<lambda>c. contact_id c = Some i) (cl_contacts cl) \<noteq> None"
    unfolding position_None by force
  then have "delete_cached_contact procs l (del_revision d) i cl (lc_state lc) \<noteq> None"
    by (auto simp: delete_cached_contact_def split: option.split prod.split)
  then obtain changed cl' s' where u:
    "delete_cached_contact procs l (del_revision d) i cl (lc_state lc) = Some (changed, cl', s')"
    by (metis not_None_eq prod.collapse)
  have "cached_log_ok cl" using ok cl by (auto simp: cache_ok_def)
  from delete_ok [OF this u] have "cached_log_ok cl' \<and> cl_revision cl' = del_revision d
    \<and> adif_with (cl_contacts cl') = (adif_with (cl_contacts cl))(i := None)" .
  moreover have "log_cache_delete env procs i owner current views deleted now current' views' lc
      = (Some (Inr (Some (l, changed))), lc\<lparr>lc_logs := hm_put l cl' (lc_logs lc), lc_state := s'\<rparr>)"
    by (simp add: log_cache_delete_def ensure_loaded_locked_def is_loaded_def cl cur owner deleted u split: unit.split)
  ultimately show ?thesis by (auto simp: hm_get_put)
qed

end

section \<open>What readers see\<close>

text \<open>
  C39. The display page of a log for a callsign prefix, found through the index of callsigns and
  the positions, is the requested slice of the log's contacts, newest first, whose callsign has
  the prefix; without a prefix it is the slice of all contacts.
\<close>

theorem display_page_matches:
  assumes "cached_log_ok cl"
  shows "display_page cl offset limit wanted =
    take limit (drop offset
      (case normalized_callsign_prefix wanted of
         Some p \<Rightarrow> filter (matches_prefix p) (cl_contacts cl)
       | None \<Rightarrow> cl_contacts cl))"
proof (cases "normalized_callsign_prefix wanted")
  case None
  then show ?thesis by (simp add: display_page_def)
next
  case (Some p)
  from display_page_spec [OF assms Some, of offset limit] Some show ?thesis by simp
qed

definition called_contact :: "int \<Rightarrow> int \<Rightarrow> string \<Rightarrow> contact" where
  "called_contact i time call =
     build_contact [(''id'', JInt i)] [(''CALL'', JString call), (''QSO_DATE_TIME_ON'', JInt time)]"

definition called_contacts :: "contact list" where
  "called_contacts =
     [called_contact 1 100 ''W1AW'', called_contact 2 300 ''W1ABC'', called_contact 3 200 ''K1A'']"

definition called_log :: cached_log where
  "called_log =
     new_cached_log \<lparr>arc_address = 0, arc_module = new_module no_distance sample_rules JNull\<rparr>
       (sort_contacts_desc called_contacts)"

lemma called_ids: "map contact_id called_contacts = [Some 1, Some 2, Some 3]"
  by code_simp

lemma called_log_ok: "cached_log_ok called_log"
proof -
  have "contact_ids_ok called_contacts" by (simp add: contact_ids_ok_map called_ids)
  from new_cached_log_ok [OF this] show ?thesis
    by (simp add: called_log_def cached_log_ok_def new_cached_log_def rebuild_indexes_def)
qed

theorem display_page_matches_witness:
  "map contact_id (display_page called_log 0 5 (Some '' w1a'')) = [Some 2, Some 1]
   \<and> map contact_id (take 5 (drop 0 (filter (matches_prefix ''W1A'') (cl_contacts called_log)))) = [Some 2, Some 1]"
proof -
  have "map contact_id (display_page called_log 0 5 (Some '' w1a'')) = [Some 2, Some 1]" by code_simp
  moreover have "normalized_callsign_prefix (Some '' w1a'') = Some ''W1A''" by code_simp
  ultimately show ?thesis
    using display_page_matches [OF called_log_ok, of 0 5 "Some '' w1a''"] by simp
qed

text \<open>
  Filling in what the DXCC database knows treats every contact alone: it never touches the
  metadata or another field, keeps a country, prefix or continent that is there, and doing it
  again leaves every field as it is.
\<close>

theorem enrichment_fills_gaps:
  assumes "n < length cs" and "normalize_adif_field_name name \<notin> set (station_names @ worked_names)"
  shows "length (enrich_missing_dxcc db cs) = length cs
    \<and> contact_meta (enrich_missing_dxcc db cs ! n) = contact_meta (cs ! n)
    \<and> contact_adif_value (enrich_missing_dxcc db cs ! n) name = contact_adif_value (cs ! n) name
    \<and> (dxcc_missing (cs ! n)
       \<or> contact_adif_value (enrich_missing_dxcc db cs ! n) ''DXCC'' = contact_adif_value (cs ! n) ''DXCC'')
    \<and> (text_missing (cs ! n) ''APP_LOG73_DXCC_PFX''
       \<or> contact_adif_value (enrich_missing_dxcc db cs ! n) ''APP_LOG73_DXCC_PFX''
         = contact_adif_value (cs ! n) ''APP_LOG73_DXCC_PFX'')
    \<and> (text_missing (cs ! n) ''CONT''
       \<or> contact_adif_value (enrich_missing_dxcc db cs ! n) ''CONT'' = contact_adif_value (cs ! n) ''CONT'')
    \<and> contact_adif_value (enrich_missing_dxcc db (enrich_missing_dxcc db cs) ! n)
      = contact_adif_value (enrich_missing_dxcc db cs ! n)"
proof -
  let ?c = "cs ! n"
  have one: "enrich_missing_dxcc db cs ! n = enrich_one db ?c"
    "enrich_missing_dxcc db (enrich_missing_dxcc db cs) ! n = enrich_one db (enrich_one db ?c)"
    using assms(1) by (simp_all add: enrich_missing_dxcc_map)
  have len: "length (enrich_missing_dxcc db cs) = length cs" by (simp add: enrich_missing_dxcc_map)
  have again: "contact_adif_value (enrich_one db (enrich_one db ?c)) = contact_adif_value (enrich_one db ?c)"
    using enrich_one_idem [of db ?c] by (simp add: same_values_def)
  show ?thesis
    unfolding one len again
    using enrich_one_keeps(1) [of db ?c] enrich_one_keeps(2) [OF assms(2), of db ?c]
      enrich_one_keeps(3) [of ?c db] enrich_one_keeps(4) [of "''APP_LOG73_DXCC_PFX''" ?c db]
      enrich_one_keeps(4) [of "''CONT''" ?c db]
    by blast
qed

definition german_contact :: contact where
  "german_contact =
     build_contact [(''id'', JInt 4)] [(''CALL'', JString ''DL1XYZ''), (''CONT'', JString ''XX''), (''DXCC'', JNull)]"

theorem enrichment_fills_gaps_witness:
  "contact_adif_value (enrich_missing_dxcc sample_database [german_contact] ! 0) ''CALL'' = Some (JString ''DL1XYZ'')
   \<and> contact_adif_value (enrich_missing_dxcc sample_database [german_contact] ! 0) ''CONT'' = Some (JString ''XX'')
   \<and> contact_adif_value (enrich_missing_dxcc sample_database [german_contact] ! 0) ''DXCC'' \<noteq> Some JNull"
proof -
  have name: "normalize_adif_field_name ''CALL'' \<notin> set (station_names @ worked_names)"
    by (simp add: dxcc_names station_names_def worked_names_def)
  have "contact_adif_value german_contact ''CALL'' = Some (JString ''DL1XYZ'')"
    "contact_adif_value german_contact ''CONT'' = Some (JString ''XX'')"
    "\<not> text_missing german_contact ''CONT''"
    "contact_adif_value (enrich_missing_dxcc sample_database [german_contact] ! 0) ''DXCC'' \<noteq> Some JNull"
    by (code_simp, code_simp, code_simp, code_simp)
  with enrichment_fills_gaps [of 0 "[german_contact]" "''CALL''" sample_database, OF _ name] show ?thesis
    by simp
qed

end
