(* ===== verification/Stats.thy ===== *)
theory Stats
  imports LogCacheSpec
begin

text \<open>
  \<open>backend/src/stats.rs\<close>: the contact rates of each log. A \<open>f64\<close> rate is kept as the quotient it
  is computed from, \<open>(numerator, denominator)\<close>; differences of times wrap at 64 bits. The clock is
  the argument \<open>now\<close>. The lemmas show that the entries maintained contact by contact are those
  computed from the whole log, and what the windows count.
\<close>

section \<open>The code\<close>

definition LAST_10_CONTACTS :: nat where "LAST_10_CONTACTS = 10"
definition LAST_100_CONTACTS :: nat where "LAST_100_CONTACTS = 100"
definition HOUR_SECONDS :: int where "HOUR_SECONDS = 60 * 60"

record rate_stat =
  rate_qso_count :: nat
  rate_per_hour :: "(int \<times> int) option"

record log_window_stats =
  last_10_contacts :: rate_stat
  last_100_contacts :: rate_stat
  moving_hour :: rate_stat
  clock_hour :: rate_stat

record log_stats_snapshot =
  generated_at :: int
  overall :: log_window_stats
  by_operator :: "(string \<times> log_window_stats) list"

record stats_entry =
  se_id :: int
  se_epoch :: int
  se_operator :: string

type_synonym stats_tracker = "(int, stats_entry list) hmap"

definition stats_entry_of :: "contact \<Rightarrow> stats_entry option" where
  "stats_entry_of contact =
     (case contact_id contact of
        None \<Rightarrow> None
      | Some i \<Rightarrow>
          (case Option.bind (contact_adif_value contact ''QSO_DATE_TIME_ON'') as_i64 of
             None \<Rightarrow> None
           | Some epoch \<Rightarrow>
               Some \<lparr>se_id = i, se_epoch = epoch,
                     se_operator = to_upper (case Option.bind (contact_adif_value contact ''OPERATOR'') as_str of
                                               Some s \<Rightarrow> trim s | None \<Rightarrow> [])\<rparr>))"

text \<open>\<open>stats_entry_cmp\<close> compares times, then ids.\<close>

definition stats_entry_key :: "stats_entry \<Rightarrow> int \<times> int" where
  "stats_entry_key e = (se_epoch e, se_id e)"

definition from_contacts :: "contact list \<Rightarrow> stats_entry list" where
  "from_contacts contacts = sort_key stats_entry_key (List.map_filter stats_entry_of contacts)"

definition stats_remove_contact :: "int \<Rightarrow> stats_entry list \<Rightarrow> stats_entry list" where
  "stats_remove_contact i entries =
     (case position (\<lambda>e. se_id e = i) entries of
        Some index \<Rightarrow> remove_at index entries
      | None \<Rightarrow> entries)"

definition stats_upsert_contact :: "stats_entry \<Rightarrow> stats_entry list \<Rightarrow> stats_entry list" where
  "stats_upsert_contact entry entries =
     (let entries = stats_remove_contact (se_id entry) entries;
          index = search_index (\<lambda>e. stats_entry_key e < stats_entry_key entry)
                    (\<lambda>e. stats_entry_key e \<le> stats_entry_key entry) entries
      in insert_at index entry entries)"

definition contact_window_rate :: "stats_entry list \<Rightarrow> nat \<Rightarrow> rate_stat" where
  "contact_window_rate entries n =
     (let count = min (length entries) n
      in if count = 0 then \<lparr>rate_qso_count = 0, rate_per_hour = None\<rparr>
         else if count = 1 then \<lparr>rate_qso_count = 1, rate_per_hour = None\<rparr>
         else
           let window = drop (length entries - count) entries;
               span = wrap_i64 (se_epoch (last window) - se_epoch (hd window))
           in \<lparr>rate_qso_count = count,
               rate_per_hour = (if 0 < span then Some (int (count - 1) * HOUR_SECONDS, span) else None)\<rparr>)"

definition entries_in_time_window :: "stats_entry list \<Rightarrow> int \<Rightarrow> int \<Rightarrow> nat" where
  "entries_in_time_window entries start end' =
     length (filter (\<lambda>e. start \<le> se_epoch e \<and> se_epoch e \<le> end') entries)"

definition moving_hour_rate :: "stats_entry list \<Rightarrow> int \<Rightarrow> rate_stat" where
  "moving_hour_rate entries now =
     (let count = entries_in_time_window entries (now - HOUR_SECONDS) now
      in \<lparr>rate_qso_count = count, rate_per_hour = Some (int count, 1)\<rparr>)"

definition clock_hour_rate :: "stats_entry list \<Rightarrow> int \<Rightarrow> rate_stat" where
  "clock_hour_rate entries now =
     (let elapsed = now mod HOUR_SECONDS; start = now - elapsed;
          count = entries_in_time_window entries start now
      in \<lparr>rate_qso_count = count,
          rate_per_hour = (if 0 < elapsed then Some (int count * HOUR_SECONDS, elapsed) else None)\<rparr>)"

definition window_stats :: "stats_entry list \<Rightarrow> int \<Rightarrow> log_window_stats" where
  "window_stats entries now =
     (let eligible = take (partition_point (\<lambda>e. se_epoch e \<le> now) entries) entries
      in \<lparr>last_10_contacts = contact_window_rate eligible LAST_10_CONTACTS,
          last_100_contacts = contact_window_rate eligible LAST_100_CONTACTS,
          moving_hour = moving_hour_rate eligible now,
          clock_hour = clock_hour_rate eligible now\<rparr>)"

definition group_entry ::
  "(string \<times> stats_entry list) list \<Rightarrow> stats_entry \<Rightarrow> (string \<times> stats_entry list) list" where
  "group_entry grouped e =
     (if se_operator e = [] then grouped
      else bt_put (se_operator e)
             ((case map_of grouped (se_operator e) of Some es \<Rightarrow> es | None \<Rightarrow> []) @ [e]) grouped)"

definition stats_log_snapshot :: "stats_entry list \<Rightarrow> int \<Rightarrow> log_stats_snapshot" where
  "stats_log_snapshot entries now =
     \<lparr>generated_at = now, overall = window_stats entries now,
      by_operator = map (\<lambda>(operator, es). (operator, window_stats es now)) (foldl group_entry [] entries)\<rparr>"

definition stats_snapshot :: "int \<Rightarrow> int \<Rightarrow> stats_tracker \<Rightarrow> log_stats_snapshot option" where
  "stats_snapshot now l logs = map_option (\<lambda>entries. stats_log_snapshot entries now) (hm_get logs l)"

text \<open>The body of \<open>on_contacts_upserted\<close> on the state of the log.\<close>

definition stats_apply_upserts ::
  "contact list \<Rightarrow> contact option list \<Rightarrow> stats_entry list \<Rightarrow> stats_entry list" where
  "stats_apply_upserts committed previous entries =
     (let entries = fold stats_remove_contact
            (List.map_filter (\<lambda>p. Option.bind p contact_id) previous) entries
      in fold stats_upsert_contact (List.map_filter stats_entry_of committed) entries)"

definition stats_processor :: "stats_tracker processor" where
  "stats_processor =
     \<lparr>on_log_loaded = (\<lambda>l arc contacts logs. (contacts, hm_put l (from_contacts contacts) logs)),
      on_contacts_upserted = (\<lambda>l arc contacts committed previous logs.
        ([], contacts,
         hm_put l (stats_apply_upserts committed previous
           (case hm_get logs l of Some entries \<Rightarrow> entries | None \<Rightarrow> [])) logs)),
      on_contact_deleted = (\<lambda>l arc contacts deleted logs.
        ([], contacts,
         (case (hm_get logs l, contact_id deleted) of
            (Some entries, Some i) \<Rightarrow> hm_put l (stats_remove_contact i entries) logs
          | _ \<Rightarrow> logs))),
      on_log_removed = (\<lambda>l logs. hm_remove l logs)\<rparr>"

section \<open>Ordered entries with distinct ids\<close>

definition earlier :: "stats_entry \<Rightarrow> stats_entry \<Rightarrow> bool" where
  "earlier x y \<longleftrightarrow> stats_entry_key x \<le> stats_entry_key y"

interpretation sv: ordered_vector earlier
  by unfold_locales (auto simp: earlier_def)

definition entries_ok :: "stats_entry list \<Rightarrow> bool" where
  "entries_ok entries \<longleftrightarrow> sv.ordered entries \<and> distinct (map se_id entries)"

lemma sv_ordered_keys: "sv.ordered entries \<longleftrightarrow> sorted (map stats_entry_key entries)"
proof -
  have "earlier = (\<lambda>x y. stats_entry_key x \<le> stats_entry_key y)" by (intro ext) (simp add: earlier_def)
  then show ?thesis unfolding sv.ordered_def by (simp add: sorted_wrt_map)
qed

lemma entries_ok_key_sorted: "entries_ok entries \<Longrightarrow> sorted (map stats_entry_key entries)"
  by (simp add: entries_ok_def sv_ordered_keys)

lemma entries_ok_unique:
  assumes "entries_ok xs" and "entries_ok ys" and "set xs = set ys"
  shows "xs = ys"
proof (rule map_sorted_distinct_set_unique [of stats_entry_key])
  show "inj_on stats_entry_key (set xs \<union> set ys)"
  proof (rule inj_onI)
    fix x y assume xy: "x \<in> set xs \<union> set ys" "y \<in> set xs \<union> set ys" "stats_entry_key x = stats_entry_key y"
    then have "se_id x = se_id y" by (simp add: stats_entry_key_def)
    moreover have "inj_on se_id (set xs)" using assms(1) by (simp add: entries_ok_def distinct_map)
    ultimately show "x = y" using xy assms(3) by (auto dest: inj_onD)
  qed
  show "sorted (map stats_entry_key xs)" "sorted (map stats_entry_key ys)"
    using assms entries_ok_key_sorted by blast+
  have key: "distinct (map stats_entry_key es)" if "entries_ok es" for es
  proof -
    have "map se_id es = map snd (map stats_entry_key es)" by (simp add: stats_entry_key_def)
    then show ?thesis using that unfolding entries_ok_def by (metis distinct_map)
  qed
  show "distinct (map stats_entry_key xs)" "distinct (map stats_entry_key ys)"
    using key assms by blast+
  show "set xs = set ys" by (rule assms(3))
qed

lemma entries_ok_remove:
  assumes "entries_ok entries"
  shows "entries_ok (stats_remove_contact i entries)"
    and "set (stats_remove_contact i entries) = {e \<in> set entries. se_id e \<noteq> i}"
proof -
  have "entries_ok (stats_remove_contact i entries)
    \<and> set (stats_remove_contact i entries) = {e \<in> set entries. se_id e \<noteq> i}"
  proof (cases "position (\<lambda>e. se_id e = i) entries")
    case None
    then have "\<forall>e\<in>set entries. se_id e \<noteq> i" by (simp add: position_None)
    then show ?thesis using None assms by (auto simp: stats_remove_contact_def)
  next
    case (Some n)
    then have n: "n < length entries" "se_id (entries ! n) = i" using position_Some by blast+
    have split: "entries = take n entries @ entries ! n # drop (Suc n) entries"
      using n(1) by (simp add: id_take_nth_drop)
    have r: "stats_remove_contact i entries = take n entries @ drop (Suc n) entries"
      by (simp add: stats_remove_contact_def Some remove_at_def)
    have "distinct (map se_id (take n entries @ entries ! n # drop (Suc n) entries))"
      using assms split by (simp add: entries_ok_def)
    then have d: "distinct (map se_id (take n entries @ drop (Suc n) entries))"
      and "se_id (entries ! n) \<notin> set (map se_id (take n entries @ drop (Suc n) entries))"
      by auto
    then have away: "\<forall>e\<in>set (take n entries @ drop (Suc n) entries). se_id e \<noteq> i"
      unfolding n(2) set_map by blast
    have "set entries = insert (entries ! n) (set (take n entries @ drop (Suc n) entries))"
      by (subst (1) split) auto
    then have "set (take n entries @ drop (Suc n) entries) = {e \<in> set entries. se_id e \<noteq> i}"
      using away n(2) by auto
    moreover have "sv.ordered (remove_at n entries)"
      by (rule sv.remove_ordered) (use assms in \<open>simp add: entries_ok_def\<close>)
    ultimately show ?thesis using d r by (simp add: entries_ok_def remove_at_def)
  qed
  then show "entries_ok (stats_remove_contact i entries)"
    and "set (stats_remove_contact i entries) = {e \<in> set entries. se_id e \<noteq> i}" by blast+
qed

lemma entries_ok_upsert:
  assumes "entries_ok entries"
  shows "entries_ok (stats_upsert_contact e entries)"
    and "set (stats_upsert_contact e entries) = insert e {x \<in> set entries. se_id x \<noteq> se_id e}"
proof -
  let ?es = "stats_remove_contact (se_id e) entries"
  note r = entries_ok_remove [OF assms, of "se_id e"]
  have key: "stats_entry_key x < stats_entry_key e \<longleftrightarrow> stats_entry_key x \<le> stats_entry_key e" if "x \<in> set ?es" for x
  proof -
    have "se_id x \<noteq> se_id e" using that r(2) by simp
    then show ?thesis by (auto simp: stats_entry_key_def)
  qed
  have "search_index (\<lambda>x. stats_entry_key x < stats_entry_key e) (\<lambda>x. stats_entry_key x \<le> stats_entry_key e) ?es
      = length (takeWhile (\<lambda>x. stats_entry_key x \<le> stats_entry_key e) ?es)"
  proof (rule search_index_takeWhile)
    fix i j assume "i < j" "j < length ?es" "stats_entry_key (?es ! j) \<le> stats_entry_key e"
    then show "stats_entry_key (?es ! i) \<le> stats_entry_key e"
      using r(1) by (auto simp: entries_ok_def sv.ordered_def earlier_def dest: sorted_wrt_nth_less [of _ _ i j])
  qed (use key in blast)
  moreover have "sv.down_closed (\<lambda>x. earlier x e)"
    unfolding sv.down_closed_def by (auto simp: earlier_def)
  then have "partition_point (\<lambda>x. earlier x e) ?es = length (takeWhile (\<lambda>x. earlier x e) ?es)"
    using r(1) unfolding entries_ok_def by (intro sv.partition_point_ordered) auto
  ultimately have eq: "stats_upsert_contact e entries = insert_at (partition_point (\<lambda>x. earlier x e) ?es) e ?es"
    by (simp add: stats_upsert_contact_def earlier_def Let_def)
  have "sv.ordered (stats_upsert_contact e entries)"
    unfolding eq by (rule sv.insert_ordered) (use r(1) in \<open>simp add: entries_ok_def\<close>)
  moreover have "distinct (map se_id (stats_upsert_contact e entries))"
  proof -
    have "mset (map se_id (stats_upsert_contact e entries)) = mset (se_id e # map se_id ?es)"
      by (simp add: eq map_insert_at)
    moreover have "se_id e \<notin> se_id ` set ?es" unfolding r(2) by auto
    then have "distinct (se_id e # map se_id ?es)" using r(1) by (simp add: entries_ok_def)
    ultimately show ?thesis by (metis mset_eq_imp_distinct_iff)
  qed
  ultimately show "entries_ok (stats_upsert_contact e entries)" by (simp add: entries_ok_def)
  show "set (stats_upsert_contact e entries) = insert e {x \<in> set entries. se_id x \<noteq> se_id e}"
    by (simp add: eq r(2))
qed

section \<open>Incremental and batch entries\<close>

text \<open>The entries of a log, as a set.\<close>

definition log_entries :: "contact list \<Rightarrow> stats_entry set" where
  "log_entries cs = {e. \<exists>c\<in>set cs. stats_entry_of c = Some e}"

lemma stats_entry_of_id: "stats_entry_of c = Some e \<Longrightarrow> contact_id c = Some (se_id e)"
  by (auto simp: stats_entry_of_def split: option.splits)

lemma map_filter_ids_distinct:
  "contact_ids_ok cs \<Longrightarrow> distinct (map se_id (List.map_filter stats_entry_of cs))"
proof (induction cs)
  case (Cons c cs)
  have ok: "contact_ids_ok cs" and new: "contact_id c \<notin> contact_id ` set cs"
    using Cons.prems by (simp_all add: contact_ids_ok_def)
  have "se_id e \<notin> se_id ` set (List.map_filter stats_entry_of cs)" if "stats_entry_of c = Some e" for e
  proof
    assume "se_id e \<in> se_id ` set (List.map_filter stats_entry_of cs)"
    then obtain d f where "d \<in> set cs" "stats_entry_of d = Some f" "se_id f = se_id e"
      by (auto simp: set_map_filter_eq)
    then show False using new stats_entry_of_id [of c e] stats_entry_of_id [of d f] that by force
  qed
  with Cons.IH [OF ok] show ?case by (cases "stats_entry_of c") (auto simp: map_filter_simps)
qed (simp add: map_filter_simps)

lemma from_contacts_ok:
  assumes "contact_ids_ok cs"
  shows "entries_ok (from_contacts cs)" and "set (from_contacts cs) = log_entries cs"
proof -
  have "sorted (map stats_entry_key (from_contacts cs))" by (simp add: from_contacts_def)
  then have "sv.ordered (from_contacts cs)" by (simp only: sv_ordered_keys)
  moreover have "distinct (map se_id (from_contacts cs))"
  proof -
    have "mset (map se_id (from_contacts cs)) = mset (map se_id (List.map_filter stats_entry_of cs))"
      by (simp add: from_contacts_def)
    then show ?thesis using map_filter_ids_distinct [OF assms] by (metis mset_eq_imp_distinct_iff)
  qed
  ultimately show "entries_ok (from_contacts cs)" by (simp add: entries_ok_def)
  show "set (from_contacts cs) = log_entries cs"
    by (auto simp: from_contacts_def log_entries_def set_map_filter_eq)
qed

lemma fold_remove_ok:
  "entries_ok es \<Longrightarrow> entries_ok (fold stats_remove_contact ids es)
     \<and> set (fold stats_remove_contact ids es) = {e \<in> set es. se_id e \<notin> set ids}"
proof (induction ids arbitrary: es)
  case (Cons i ids)
  note r = entries_ok_remove [OF Cons.prems, of i]
  from Cons.IH [OF r(1)] show ?case by (auto simp: r(2))
qed simp

lemma fold_upsert_ok:
  "entries_ok es \<Longrightarrow> distinct (map se_id new) \<Longrightarrow> entries_ok (fold stats_upsert_contact new es)
     \<and> set (fold stats_upsert_contact new es) = set new \<union> {e \<in> set es. se_id e \<notin> se_id ` set new}"
proof (induction new arbitrary: es)
  case (Cons e new)
  note r = entries_ok_upsert [OF Cons.prems(1), of e]
  have d: "distinct (map se_id new)" "se_id e \<notin> se_id ` set new" using Cons.prems(2) by simp_all
  from Cons.IH [OF r(1) d(1)] d(2) show ?case by (auto simp: r(2))
qed simp

lemma log_entries_with:
  assumes "contact_ids_ok cs"
  shows "e \<in> log_entries cs \<longleftrightarrow> Option.bind (contact_with cs (se_id e)) stats_entry_of = Some e"
proof -
  have "(\<exists>c. c \<in> set cs \<and> contact_id c = Some (se_id e) \<and> stats_entry_of c = Some e)
    \<longleftrightarrow> (\<exists>c. contact_with cs (se_id e) = Some c \<and> stats_entry_of c = Some e)"
    using contact_with_Some [OF assms] by blast
  moreover have "e \<in> log_entries cs
    \<longleftrightarrow> (\<exists>c. c \<in> set cs \<and> contact_id c = Some (se_id e) \<and> stats_entry_of c = Some e)"
    unfolding log_entries_def using stats_entry_of_id by blast
  ultimately show ?thesis by (auto simp: bind_eq_Some_conv)
qed

lemma stats_upserts_batch:
  assumes cs: "contact_ids_ok cs" and cs': "contact_ids_ok cs'" and committed: "contact_ids_ok committed"
    and previous: "previous = map (\<lambda>c. Option.bind (contact_id c) (contact_with cs)) committed"
    and after: "\<And>i. contact_with cs' i =
      (case contact_with committed i of Some c \<Rightarrow> Some c | None \<Rightarrow> contact_with cs i)"
  shows "stats_apply_upserts committed previous (from_contacts cs) = from_contacts cs'"
proof -
  let ?ids = "List.map_filter (\<lambda>p. Option.bind p contact_id) previous"
  let ?new = "List.map_filter stats_entry_of committed"
  note base = from_contacts_ok [OF cs]
  have ids: "i \<in> set ?ids \<longleftrightarrow> contact_with committed i \<noteq> None \<and> contact_with cs i \<noteq> None" for i
  proof -
    have "i \<in> set ?ids \<longleftrightarrow> (\<exists>c\<in>set committed. \<exists>j d. contact_id c = Some j \<and> contact_with cs j = Some d \<and> contact_id d = Some i)"
      by (auto simp: previous set_map_filter_eq bind_eq_Some_conv)
    also have "\<dots> \<longleftrightarrow> (\<exists>c\<in>set committed. contact_id c = Some i) \<and> (\<exists>d. contact_with cs i = Some d)"
      using contact_with_Some [OF cs] by fastforce
    also have "(\<exists>c\<in>set committed. contact_id c = Some i) \<longleftrightarrow> contact_with committed i \<noteq> None"
      using contact_with_Some [OF committed, of i] by (metis not_None_eq)
    finally show ?thesis by auto
  qed
  note removed = fold_remove_ok [OF base(1), of ?ids]
  have "distinct (map se_id ?new)" by (rule map_filter_ids_distinct [OF committed])
  note final = fold_upsert_ok [OF conjunct1 [OF removed] this]
  have new: "set ?new = log_entries committed" by (auto simp: log_entries_def set_map_filter_eq)
  show ?thesis
  proof (rule entries_ok_unique)
    show "entries_ok (stats_apply_upserts committed previous (from_contacts cs))"
      using final by (simp add: stats_apply_upserts_def)
    show "entries_ok (from_contacts cs')" by (rule from_contacts_ok(1) [OF cs'])
    have "e \<in> set (stats_apply_upserts committed previous (from_contacts cs)) \<longleftrightarrow> e \<in> log_entries cs'" for e
    proof -
      have "e \<in> set (stats_apply_upserts committed previous (from_contacts cs)) \<longleftrightarrow>
          e \<in> log_entries committed
          \<or> e \<in> log_entries cs \<and> se_id e \<notin> set ?ids \<and> se_id e \<notin> se_id ` log_entries committed"
        using final removed base(2) new by (auto simp: stats_apply_upserts_def)
      also have "\<dots> \<longleftrightarrow> e \<in> log_entries cs'"
      proof (cases "contact_with committed (se_id e)")
        case None
        then have "e \<notin> log_entries committed" "se_id e \<notin> se_id ` log_entries committed"
          using log_entries_with [OF committed] by (auto simp: bind_eq_Some_conv)
        moreover have "se_id e \<notin> set ?ids" using None ids by blast
        ultimately show ?thesis
          using None after [of "se_id e"] log_entries_with [OF cs] log_entries_with [OF cs'] by simp
      next
        case (Some c)
        have "e \<in> log_entries cs' \<longleftrightarrow> e \<in> log_entries committed"
          using Some after [of "se_id e"] log_entries_with [OF committed] log_entries_with [OF cs'] by simp
        moreover have "se_id e \<in> set ?ids" if "e \<in> log_entries cs"
          using that Some ids [of "se_id e"] log_entries_with [OF cs] by (auto simp: bind_eq_Some_conv)
        ultimately show ?thesis by blast
      qed
      finally show ?thesis .
    qed
    then show "set (stats_apply_upserts committed previous (from_contacts cs)) = set (from_contacts cs')"
      using from_contacts_ok(2) [OF cs'] by blast
  qed
qed

lemma stats_delete_batch:
  assumes cs: "contact_ids_ok cs" and cs': "contact_ids_ok cs'"
    and after: "contact_with cs' = (contact_with cs)(i := None)"
  shows "stats_remove_contact i (from_contacts cs) = from_contacts cs'"
proof (rule entries_ok_unique)
  note base = from_contacts_ok [OF cs]
  note r = entries_ok_remove [OF base(1), of i]
  show "entries_ok (stats_remove_contact i (from_contacts cs))" by (rule r(1))
  show "entries_ok (from_contacts cs')" by (rule from_contacts_ok(1) [OF cs'])
  have "e \<in> log_entries cs \<and> se_id e \<noteq> i \<longleftrightarrow> e \<in> log_entries cs'" for e
    by (cases "se_id e = i") (simp_all add: log_entries_with [OF cs] log_entries_with [OF cs'] after)
  then show "set (stats_remove_contact i (from_contacts cs)) = set (from_contacts cs')"
    using r(2) base(2) from_contacts_ok(2) [OF cs'] by auto
qed

section \<open>Windows\<close>

lemma eligible_filter:
  assumes "entries_ok entries"
  shows "take (partition_point (\<lambda>e. se_epoch e \<le> now) entries) entries = filter (\<lambda>e. se_epoch e \<le> now) entries"
proof -
  have ord: "sv.ordered entries" using assms by (simp add: entries_ok_def)
  have closed: "sv.down_closed (\<lambda>e. se_epoch e \<le> now)"
    unfolding sv.down_closed_def by (auto simp: earlier_def stats_entry_key_def)
  show ?thesis
    unfolding sv.partition_point_ordered [OF ord closed] sv.filter_takeWhile [OF ord closed]
    by (simp flip: takeWhile_eq_take)
qed

lemma window_count [simp]: "rate_qso_count (contact_window_rate entries n) = min (length entries) n"
  by (simp add: contact_window_rate_def Let_def)

lemma group_entries:
  "map_of (foldl group_entry [] entries) op =
     (if op \<noteq> [] \<and> (\<exists>e\<in>set entries. se_operator e = op)
      then Some (filter (\<lambda>e. se_operator e = op) entries) else None)"
proof (induction entries rule: rev_induct)
  case (snoc e entries)
  have empty: "filter (\<lambda>e. se_operator e = op) entries = []" if "\<not> (\<exists>e\<in>set entries. se_operator e = op)"
    using that by (auto simp: filter_empty_conv)
  show ?case
  proof (cases "se_operator e = op")
    case True
    with snoc empty show ?thesis by (auto simp: group_entry_def bt_get_put)
  next
    case False
    with snoc show ?thesis by (auto simp: group_entry_def bt_get_put)
  qed
qed simp

lemma window_stats_counts:
  assumes "entries_ok entries"
  shows "rate_qso_count (last_10_contacts (window_stats entries now))
      = min (length (filter (\<lambda>e. se_epoch e \<le> now) entries)) 10"
    and "rate_qso_count (last_100_contacts (window_stats entries now))
      = min (length (filter (\<lambda>e. se_epoch e \<le> now) entries)) 100"
    and "rate_qso_count (moving_hour (window_stats entries now))
      = length (filter (\<lambda>e. now - 3600 \<le> se_epoch e \<and> se_epoch e \<le> now) entries)"
    and "rate_qso_count (clock_hour (window_stats entries now))
      = length (filter (\<lambda>e. se_epoch e \<le> now \<and> now - now mod 3600 \<le> se_epoch e) entries)"
proof -
  have "filter (\<lambda>e. a \<le> se_epoch e \<and> se_epoch e \<le> now) (filter (\<lambda>e. se_epoch e \<le> now) entries)
    = filter (\<lambda>e. a \<le> se_epoch e \<and> se_epoch e \<le> now) entries" for a
    by (simp add: conj_commute) (metis (mono_tags, lifting) filter_cong)
  then show "rate_qso_count (moving_hour (window_stats entries now))
      = length (filter (\<lambda>e. now - 3600 \<le> se_epoch e \<and> se_epoch e \<le> now) entries)"
    and "rate_qso_count (clock_hour (window_stats entries now))
      = length (filter (\<lambda>e. se_epoch e \<le> now \<and> now - now mod 3600 \<le> se_epoch e) entries)"
    by (simp_all add: window_stats_def moving_hour_rate_def clock_hour_rate_def entries_in_time_window_def
        HOUR_SECONDS_def eligible_filter [OF assms] Let_def conj_commute)
qed (simp_all add: window_stats_def eligible_filter [OF assms] Let_def LAST_10_CONTACTS_def LAST_100_CONTACTS_def)

text \<open>
  The statistics of a log whose entries are ordered count, as of \<open>now\<close>, its contacts up to
  \<open>now\<close> (at most the last 10 and the last 100 of them), those of the last hour, and those since the
  clock hour began, which are never more than those of the last hour; each operator's
  statistics are those of the operator's own contacts, and contacts without an operator are in no group.
\<close>

theorem statistics_count:
  assumes "entries_ok entries"
  shows "rate_qso_count (last_10_contacts (overall (stats_log_snapshot entries now)))
      = min (length (filter (\<lambda>e. se_epoch e \<le> now) entries)) 10
    \<and> rate_qso_count (last_100_contacts (overall (stats_log_snapshot entries now)))
      = min (length (filter (\<lambda>e. se_epoch e \<le> now) entries)) 100
    \<and> rate_qso_count (moving_hour (overall (stats_log_snapshot entries now)))
      = length (filter (\<lambda>e. now - 3600 \<le> se_epoch e \<and> se_epoch e \<le> now) entries)
    \<and> rate_qso_count (clock_hour (overall (stats_log_snapshot entries now)))
      \<le> rate_qso_count (moving_hour (overall (stats_log_snapshot entries now)))
    \<and> map_of (by_operator (stats_log_snapshot entries now)) operator =
      (if operator = [] \<or> operator \<notin> se_operator ` set entries then None
       else Some (window_stats (filter (\<lambda>e. se_operator e = operator) entries) now))"
proof -
  have "length (filter (\<lambda>e. se_epoch e \<le> now \<and> now - now mod 3600 \<le> se_epoch e) entries)
    \<le> length (filter (\<lambda>e. now - 3600 \<le> se_epoch e \<and> se_epoch e \<le> now) entries)"
  proof -
    have m: "now mod 3600 < (3600 :: int)" by simp
    have "filter (\<lambda>e. se_epoch e \<le> now \<and> now - now mod 3600 \<le> se_epoch e) entries
      = filter (\<lambda>e. now - now mod 3600 \<le> se_epoch e) (filter (\<lambda>e. now - 3600 \<le> se_epoch e \<and> se_epoch e \<le> now) entries)"
      unfolding filter_filter by (rule filter_cong [OF refl]) (use m in linarith)
    then show ?thesis by (simp only: length_filter_le)
  qed
  moreover have "map_of (by_operator (stats_log_snapshot entries now)) operator =
      map_option (\<lambda>es. window_stats es now) (map_of (foldl group_entry [] entries) operator)"
    by (simp add: stats_log_snapshot_def map_of_map)
  ultimately show ?thesis
    by (auto simp: window_stats_counts [OF assms] stats_log_snapshot_def group_entries)
qed

definition sample_entries :: "stats_entry list" where
  "sample_entries =
     fold stats_upsert_contact
       [\<lparr>se_id = 1, se_epoch = 7300, se_operator = ''K1ABC''\<rparr>, \<lparr>se_id = 2, se_epoch = 4000, se_operator = []\<rparr>,
        \<lparr>se_id = 3, se_epoch = 9999, se_operator = ''K1ABC''\<rparr>] []"

theorem statistics_count_witness:
  "rate_qso_count (moving_hour (overall (stats_log_snapshot sample_entries 7500))) = 2
   \<and> rate_qso_count (clock_hour (overall (stats_log_snapshot sample_entries 7500))) = 1
   \<and> rate_qso_count (last_10_contacts (overall (stats_log_snapshot sample_entries 7500)))
       = min (length (filter (\<lambda>e. se_epoch e \<le> 7500) sample_entries)) 10"
proof -
  have "entries_ok []" by (simp add: entries_ok_def sv.ordered_Nil)
  then have ok: "entries_ok sample_entries"
    unfolding sample_entries_def by (intro conjunct1 [OF fold_upsert_ok]) simp_all
  have "rate_qso_count (moving_hour (overall (stats_log_snapshot sample_entries 7500))) = 2"
    "rate_qso_count (clock_hour (overall (stats_log_snapshot sample_entries 7500))) = 1" by code_simp+
  with statistics_count [OF ok, of 7500] show ?thesis by blast
qed

text \<open>
  C40. Following the committed contacts and deletions one by one leaves the statistics of a log
  exactly as a fresh load of the log would compute them: after a batch of contacts with distinct
  ids, given with what each of them replaced, and after a deletion.
\<close>

theorem statistics_incremental:
  assumes "contact_ids_ok cs" and "contact_ids_ok cs'" and "contact_ids_ok committed" and "contact_ids_ok cs''"
    and "previous = map (\<lambda>c. Option.bind (contact_id c) (contact_with cs)) committed"
    and "\<And>i. contact_with cs' i =
      (case contact_with committed i of Some c \<Rightarrow> Some c | None \<Rightarrow> contact_with cs i)"
    and "contact_with cs'' = (contact_with cs)(j := None)"
  shows "stats_apply_upserts committed previous (from_contacts cs) = from_contacts cs'
    \<and> stats_remove_contact j (from_contacts cs) = from_contacts cs''"
  using stats_upserts_batch [OF assms(1-3,5,6)] stats_delete_batch [OF assms(1,4,7)] by blast

definition timed_contact :: "int \<Rightarrow> int \<Rightarrow> string \<Rightarrow> contact" where
  "timed_contact i time operator =
     build_contact [(''id'', JInt i)] [(''CALL'', JString ''W1AW''), (''OPERATOR'', JString operator), (''QSO_DATE_TIME_ON'', JInt time)]"

theorem statistics_incremental_witness:
  "stats_apply_upserts [timed_contact 2 50 ''B'', timed_contact 3 60 ''A'']
     [Some (timed_contact 2 200 ''A''), None] (from_contacts [timed_contact 2 200 ''A'', timed_contact 1 100 ''A''])
   = from_contacts [timed_contact 1 100 ''A'', timed_contact 3 60 ''A'', timed_contact 2 50 ''B'']
   \<and> map se_id (from_contacts [timed_contact 1 100 ''A'', timed_contact 3 60 ''A'', timed_contact 2 50 ''B'']) = [2, 3, 1]"
proof -
  let ?cs = "[timed_contact 2 200 ''A'', timed_contact 1 100 ''A'']"
  let ?new = "[timed_contact 2 50 ''B'', timed_contact 3 60 ''A'']"
  let ?after = "[timed_contact 1 100 ''A'', timed_contact 3 60 ''A'', timed_contact 2 50 ''B'']"
  have id: "contact_id (timed_contact i t op) = Some i" if "i64_min \<le> i" "i \<le> i64_max" for i t op
    using that by (simp add: timed_contact_def contact_id_def contact_meta_value_def contact_meta_def build_contact_def
        bt_get_put json_i64_value_int)
  have ids: "contact_id (timed_contact 1 t op) = Some 1" "contact_id (timed_contact 2 t op) = Some 2"
    "contact_id (timed_contact 3 t op) = Some 3" for t op
    by (rule id; simp add: i64_min_def i64_max_def)+
  have "stats_apply_upserts ?new [Some (timed_contact 2 200 ''A''), None] (from_contacts ?cs) = from_contacts ?after
    \<and> stats_remove_contact 2 (from_contacts ?cs) = from_contacts [timed_contact 1 100 ''A'']"
  proof (rule statistics_incremental)
    show "contact_ids_ok ?cs" "contact_ids_ok ?after" "contact_ids_ok ?new" "contact_ids_ok [timed_contact 1 100 ''A'']"
      by (simp_all add: contact_ids_ok_def ids)
    show "[Some (timed_contact 2 200 ''A''), None] = map (\<lambda>c. Option.bind (contact_id c) (contact_with ?cs)) ?new"
      by (simp add: ids contact_with_def)
    show "contact_with ?after i = (case contact_with ?new i of Some c \<Rightarrow> Some c | None \<Rightarrow> contact_with ?cs i)" for i
      by (simp add: ids contact_with_def)
    show "contact_with [timed_contact 1 100 ''A''] = (contact_with ?cs)(2 := None)"
      by (simp add: ids contact_with_def fun_eq_iff)
  qed
  moreover have "map se_id (from_contacts ?after) = [2, 3, 1]" by code_simp
  ultimately show ?thesis by blast
qed

end
