(* ===== verification/SuperCheck.thy ===== *)
theory SuperCheck
  imports LogCache
begin

text \<open>
  \<open>backend/src/supercheckpartial.rs\<close>: the list of known callsigns, read from a file and extended
  by the contacts of every log. The messages sent to the broadcast channel are the list \<open>scp_sent\<close>;
  reading the lines of the file is outside the model, a failing read is an \<open>Inl\<close>.
\<close>

section \<open>The code\<close>

record scp_state =
  scp_callsigns :: "string list"
  scp_seen :: "string list"
  scp_events :: bool
  scp_sent :: "string list list"

definition scp_default :: scp_state where
  "scp_default = \<lparr>scp_callsigns = [], scp_seen = [], scp_events = False, scp_sent = []\<rparr>"

definition with_events :: "scp_state \<Rightarrow> scp_state" where
  "with_events scp = scp\<lparr>scp_events := True\<rparr>"

definition normalize_callsign :: "string \<Rightarrow> string option" where
  "normalize_callsign value =
     (let normal = to_upper (trim value) in if normal = [] then None else Some normal)"

fun insert_callsigns :: "string list \<Rightarrow> scp_state \<Rightarrow> string list \<times> scp_state" where
  "insert_callsigns [] scp = ([], scp)"
| "insert_callsigns (callsign # callsigns) scp =
     (case normalize_callsign callsign of
        None \<Rightarrow> insert_callsigns callsigns scp
      | Some normal \<Rightarrow>
          if normal \<in> set (scp_seen scp) then insert_callsigns callsigns scp
          else
            (let (added, scp) = insert_callsigns callsigns
                   (scp\<lparr>scp_seen := hs_insert normal (scp_seen scp),
                        scp_callsigns := scp_callsigns scp @ [normal]\<rparr>)
             in (normal # added, scp)))"

fun file_callsigns :: "(string + string) list \<Rightarrow> string + string list" where
  "file_callsigns [] = Inr []"
| "file_callsigns (Inl e # ls) = Inl e"
| "file_callsigns (Inr line # ls) =
     (case file_callsigns ls of
        Inl e \<Rightarrow> Inl e
      | Inr callsigns \<Rightarrow>
          let callsign = trim line
          in if callsign = [] \<or> prefix ''!'' callsign \<or> prefix ''#'' callsign then Inr callsigns
             else Inr (callsign # callsigns))"

definition scp_load_file :: "string + (string + string) list \<Rightarrow> string + scp_state" where
  "scp_load_file file =
     (case file of
        Inl e \<Rightarrow> Inl e
      | Inr ls \<Rightarrow>
          (case file_callsigns ls of
             Inl e \<Rightarrow> Inl e
           | Inr callsigns \<Rightarrow> Inr (snd (insert_callsigns callsigns scp_default))))"

definition scp_contact_callsign :: "contact \<Rightarrow> string option" where
  "scp_contact_callsign contact = Option.bind (contact_adif_value contact ''CALL'') as_str"

definition insert_contact_callsigns :: "contact list \<Rightarrow> scp_state \<Rightarrow> string list \<times> scp_state" where
  "insert_contact_callsigns contacts = insert_callsigns (List.map_filter scp_contact_callsign contacts)"

definition broadcast_added_callsigns :: "string list \<Rightarrow> scp_state \<Rightarrow> scp_state" where
  "broadcast_added_callsigns callsigns scp =
     (if callsigns = [] then scp
      else if scp_events scp then scp\<lparr>scp_sent := scp_sent scp @ [callsigns]\<rparr> else scp)"

definition scp_note_contacts :: "contact list \<Rightarrow> scp_state \<Rightarrow> scp_state" where
  "scp_note_contacts contacts scp =
     (case insert_contact_callsigns contacts scp of (added, scp) \<Rightarrow> broadcast_added_callsigns added scp)"

definition scp_processor :: "scp_state processor" where
  "scp_processor =
     \<lparr>on_log_loaded = (\<lambda>l arc contacts scp. (contacts, scp_note_contacts contacts scp)),
      on_contacts_upserted = (\<lambda>l arc contacts committed previous scp.
        ([], contacts, scp_note_contacts committed scp)),
      on_contact_deleted = (\<lambda>l arc contacts deleted scp. ([], contacts, scp)),
      on_log_removed = (\<lambda>l scp. scp)\<rparr>"

section \<open>The known callsigns are a growing set\<close>

definition scp_ok :: "scp_state \<Rightarrow> bool" where
  "scp_ok scp \<longleftrightarrow>
     distinct (scp_callsigns scp) \<and> set (scp_seen scp) = set (scp_callsigns scp)
     \<and> (\<forall>c\<in>set (scp_callsigns scp). normalize_callsign c = Some c)"

lemma normalize_callsign_idem: "normalize_callsign s = Some c \<Longrightarrow> normalize_callsign c = Some c"
  by (auto simp: normalize_callsign_def Let_def trim_to_upper split: if_splits)

lemma scp_default_ok: "scp_ok scp_default"
  by (simp add: scp_ok_def scp_default_def)

lemma insert_callsigns_ok:
  "scp_ok scp \<Longrightarrow> insert_callsigns callsigns scp = (added, scp') \<Longrightarrow>
     scp_ok scp' \<and> scp_callsigns scp' = scp_callsigns scp @ added
     \<and> set (scp_callsigns scp') = set (scp_callsigns scp) \<union> {c. \<exists>s\<in>set callsigns. normalize_callsign s = Some c}
     \<and> scp_sent scp' = scp_sent scp \<and> scp_events scp' = scp_events scp"
proof (induction callsigns scp arbitrary: added scp' rule: insert_callsigns.induct)
  case (1 scp)
  then show ?case by simp
next
  case (2 callsign callsigns scp)
  show ?case
  proof (cases "normalize_callsign callsign")
    case None
    then have "insert_callsigns callsigns scp = (added, scp')" using "2.prems"(2) by simp
    from "2.IH"(1) [OF None "2.prems"(1) this] None show ?thesis by (auto simp del: set_append)
  next
    case (Some n)
    show ?thesis
    proof (cases "n \<in> set (scp_seen scp)")
      case True
      then have old: "n \<in> set (scp_callsigns scp)" using "2.prems"(1) by (simp add: scp_ok_def)
      have "insert_callsigns callsigns scp = (added, scp')" using "2.prems"(2) Some True by simp
      from "2.IH"(2) [OF Some True "2.prems"(1) this] old Some show ?thesis by auto
    next
      case False
      let ?scp = "scp\<lparr>scp_seen := hs_insert n (scp_seen scp), scp_callsigns := scp_callsigns scp @ [n]\<rparr>"
      obtain more scp1 where r: "insert_callsigns callsigns ?scp = (more, scp1)" by fastforce
      have "scp_ok ?scp"
        using "2.prems"(1) False normalize_callsign_idem [OF Some] by (auto simp: scp_ok_def hs_insert_def)
      note IH = "2.IH"(3) [OF Some False this r]
      have "added = n # more" "scp' = scp1" using "2.prems"(2) r Some False by simp_all
      with IH Some show ?thesis by auto
    qed
  qed
qed

lemma insert_known_callsigns:
  "scp_ok scp \<Longrightarrow> \<forall>s\<in>set callsigns. \<forall>c. normalize_callsign s = Some c \<longrightarrow> c \<in> set (scp_callsigns scp) \<Longrightarrow>
     insert_callsigns callsigns scp = ([], scp)"
proof (induction callsigns)
  case (Cons s callsigns)
  have "set (scp_seen scp) = set (scp_callsigns scp)" using Cons.prems(1) by (simp add: scp_ok_def)
  with Cons show ?case by (simp split: option.split)
qed simp

text \<open>
  Whatever callsigns are inserted, the list of known callsigns keeps its entries and their
  order, gets exactly the normalised new ones once each, reports those and only those, and a
  second insertion of the same callsigns changes and reports nothing.
\<close>

theorem insert_callsigns_exact:
  assumes "scp_ok scp" and "insert_callsigns callsigns scp = (added, scp')"
  shows "scp_ok scp' \<and> scp_callsigns scp' = scp_callsigns scp @ added
    \<and> set added = {c. \<exists>s\<in>set callsigns. normalize_callsign s = Some c} - set (scp_callsigns scp)
    \<and> insert_callsigns callsigns scp' = ([], scp')"
proof -
  note ok = insert_callsigns_ok [OF assms]
  have "set (scp_callsigns scp) \<inter> set added = {}"
    using ok by (metis distinct_append scp_ok_def)
  moreover have "insert_callsigns callsigns scp' = ([], scp')"
    by (rule insert_known_callsigns) (use ok in auto)
  ultimately show ?thesis using ok by auto
qed

theorem insert_callsigns_exact_witness:
  "scp_callsigns (snd (insert_callsigns ['' k1abc '', ''K1ABC'', [], ''n0call''] scp_default))
     = [''K1ABC'', ''N0CALL'']
   \<and> set (fst (insert_callsigns ['' k1abc '', ''K1ABC'', [], ''n0call''] scp_default))
     = {c. \<exists>s\<in>set ['' k1abc '', ''K1ABC'', [], ''n0call'']. normalize_callsign s = Some c}"
proof -
  let ?in = "['' k1abc '', ''K1ABC'', [], ''n0call'']"
  have run: "insert_callsigns ?in scp_default
      = (fst (insert_callsigns ?in scp_default), snd (insert_callsigns ?in scp_default))" by simp
  have "scp_callsigns (snd (insert_callsigns ?in scp_default)) = [''K1ABC'', ''N0CALL'']" by code_simp
  then show ?thesis
    using insert_callsigns_exact [OF scp_default_ok run] by (simp add: scp_default_def)
qed

lemma scp_note_contacts_ok: "scp_ok scp \<Longrightarrow> scp_ok (scp_note_contacts contacts scp)"
proof -
  assume ok: "scp_ok scp"
  obtain added scp' where r: "insert_contact_callsigns contacts scp = (added, scp')" by fastforce
  have "scp_ok scp'" using insert_callsigns_ok [OF ok r [unfolded insert_contact_callsigns_def]] by blast
  then have "scp_ok (broadcast_added_callsigns added scp')"
    by (simp add: broadcast_added_callsigns_def scp_ok_def)
  then show ?thesis by (simp add: scp_note_contacts_def r)
qed

end
