(* ===== verification/BandMap.thy ===== *)
theory BandMap
  imports LogCache Bands
begin

text \<open>
  \<open>backend/src/bandmap.rs\<close>: the spots on the band map, from the DX cluster, from the operators and
  from the contacts of the logs. The clock is the argument \<open>now\<close> and does not advance within an
  operation; the broadcast channel is the list \<open>bm_sent\<close>. The counters are \<open>u64\<close> values, as
  naturals that saturate. A panic (\<open>unreachable!\<close>) is \<open>None\<close>. Iteration over a \<open>HashMap\<close> or a
  \<open>HashSet\<close> follows the list that models it, an unspecified order.
\<close>

section \<open>Data\<close>

datatype spot_type = DxSpot | RbnSpot | LocalSpot | InUseSpot | CqSpot

record rbn_spot =
  rbn_mode :: string
  rbn_db :: int
  rbn_speed :: "nat option"
  rbn_speed_unit :: "string option"
  rbn_info :: string
  rbn_loc :: "string option"

record spot_candidate =
  spot_received_at :: nat
  spot_kind :: spot_type
  spot_source :: string
  spot_call_de :: string
  spot_call_dx :: string
  spot_frequency_hz :: nat
  spot_utc :: nat
  spot_loc :: "string option"
  spot_comment :: "string option"
  spot_rbn :: "rbn_spot option"
  spot_band_name :: "string option"
  spot_radio_id :: "int option"
  spot_radio_name :: "string option"
  spot_log_id :: "int option"
  spot_exchange_fields :: "contact_fields option"

record band_map_spot = spot_candidate +
  spot_id :: nat

record dx_cluster_spot =
  dx_id :: nat
  dx_received_at :: nat
  dx_source :: string
  dx_call_de :: string
  dx_call_dx :: string
  dx_frequency_hz :: nat
  dx_utc :: nat
  dx_loc :: "string option"
  dx_comment :: "string option"
  dx_rbn :: "rbn_spot option"

record local_spot_input =
  in_frequency_hz :: nat
  in_call_dx :: string
  in_comment :: "string option"
  in_radio_id :: "int option"
  in_radio_name :: "string option"
  in_log_id :: "int option"
  in_exchange_fields :: "contact_fields option"
  in_received_at :: "nat option"

datatype dedupe_key =
    ClusterKey nat
  | LocalKey "int option" string string
  | LocalUnknownBand "int option" nat string
  | InUseKey nat
  | CqKey int string

datatype band_map_event = SpotUpserted nat band_map_spot | SpotDeleted nat nat

datatype upsert_outcome = Inserted band_map_spot | Updated band_map_spot | Refreshed band_map_spot

record spot_store =
  next_id :: nat
  last_sequence :: nat
  ids_by_time :: "nat list"
  spots_by_id :: "(nat, band_map_spot) hmap"
  id_by_key :: "(dedupe_key, nat) hmap"
  key_by_id :: "(nat, dedupe_key) hmap"

definition empty_store :: spot_store where
  "empty_store = \<lparr>next_id = 0, last_sequence = 0, ids_by_time = [], spots_by_id = [],
                  id_by_key = [], key_by_id = []\<rparr>"

record band_map =
  bm_bands :: "band list"
  bm_max_age :: nat
  bm_store :: spot_store
  bm_sent :: "band_map_event list"

section \<open>Helpers\<close>

definition sat_next :: "nat \<Rightarrow> nat" where
  "sat_next n = max (min (n + 1) u64_max) 1"

definition frequency_tenth_khz :: "nat \<Rightarrow> nat" where
  "frequency_tenth_khz hz = ((hz + 50) mod (u64_max + 1)) div 100"

definition value_u64 :: "json option \<Rightarrow> nat option" where
  "value_u64 value =
     (case value of
        Some (JInt i) \<Rightarrow> if 0 \<le> i \<and> i \<le> int u64_max then Some (nat i) else None
      | Some (JString s) \<Rightarrow> parse_unsigned 64 (trim s)
      | _ \<Rightarrow> None)"

definition json_string :: "json \<Rightarrow> string option" where
  "json_string value =
     (case value of
        JString s \<Rightarrow> Some s
      | JInt i \<Rightarrow> Some (int_string i)
      | JFloat t \<Rightarrow> Some t
      | JBool b \<Rightarrow> Some (if b then ''true'' else ''false'')
      | _ \<Rightarrow> None)"

definition cutoff_timestamp :: "nat \<Rightarrow> nat \<Rightarrow> nat" where
  "cutoff_timestamp now max_age = now - max_age"

definition utc_hhmm_from_timestamp :: "nat \<Rightarrow> nat" where
  "utc_hhmm_from_timestamp timestamp =
     (let s = timestamp mod 86400; hours = s div 3600; minutes = (s mod 3600) div 60
      in hours * 100 + minutes)"

definition spot_visible_fields_changed :: "band_map_spot \<Rightarrow> spot_candidate \<Rightarrow> bool" where
  "spot_visible_fields_changed spot candidate \<longleftrightarrow>
     spot_kind spot \<noteq> spot_kind candidate
     \<or> spot_source spot \<noteq> spot_source candidate
     \<or> spot_call_de spot \<noteq> spot_call_de candidate
     \<or> spot_call_dx spot \<noteq> spot_call_dx candidate
     \<or> spot_frequency_hz spot \<noteq> spot_frequency_hz candidate
     \<or> spot_utc spot \<noteq> spot_utc candidate
     \<or> spot_loc spot \<noteq> spot_loc candidate
     \<or> spot_comment spot \<noteq> spot_comment candidate
     \<or> spot_rbn spot \<noteq> spot_rbn candidate
     \<or> spot_band_name spot \<noteq> spot_band_name candidate
     \<or> spot_radio_id spot \<noteq> spot_radio_id candidate
     \<or> spot_radio_name spot \<noteq> spot_radio_name candidate
     \<or> spot_log_id spot \<noteq> spot_log_id candidate
     \<or> spot_exchange_fields spot \<noteq> spot_exchange_fields candidate"

definition spot_visible_for_log :: "band_map_spot \<Rightarrow> int option \<Rightarrow> bool" where
  "spot_visible_for_log spot log_id =
     (if spot_kind spot \<noteq> LocalSpot then True
      else (case (spot_log_id spot, log_id) of
              (Some l, Some requested) \<Rightarrow> l = requested
            | (Some _, None) \<Rightarrow> False
            | _ \<Rightarrow> True))"

text \<open>The fields of a candidate, with an id.\<close>

definition spot_of :: "nat \<Rightarrow> spot_candidate \<Rightarrow> band_map_spot" where
  "spot_of i c =
     \<lparr>spot_received_at = spot_received_at c, spot_kind = spot_kind c, spot_source = spot_source c,
      spot_call_de = spot_call_de c, spot_call_dx = spot_call_dx c,
      spot_frequency_hz = spot_frequency_hz c, spot_utc = spot_utc c, spot_loc = spot_loc c,
      spot_comment = spot_comment c, spot_rbn = spot_rbn c, spot_band_name = spot_band_name c,
      spot_radio_id = spot_radio_id c, spot_radio_name = spot_radio_name c,
      spot_log_id = spot_log_id c, spot_exchange_fields = spot_exchange_fields c, spot_id = i\<rparr>"

section \<open>The store\<close>

definition insert_id_by_time :: "nat \<Rightarrow> spot_store \<Rightarrow> spot_store" where
  "insert_id_by_time i s =
     (case hm_get (spots_by_id s) i of
        None \<Rightarrow> s
      | Some new \<Rightarrow>
          let index = partition_point (\<lambda>j.
                (case hm_get (spots_by_id s) j of
                   Some spot \<Rightarrow> (spot_received_at spot, j) \<le> (spot_received_at new, i)
                 | None \<Rightarrow> False)) (ids_by_time s)
          in s\<lparr>ids_by_time := insert_at index i (ids_by_time s)\<rparr>)"

definition reinsert_id_by_time :: "nat \<Rightarrow> spot_store \<Rightarrow> spot_store" where
  "reinsert_id_by_time i s =
     insert_id_by_time i (s\<lparr>ids_by_time := filter (\<lambda>j. j \<noteq> i) (ids_by_time s)\<rparr>)"

definition store_upsert :: "dedupe_key \<Rightarrow> spot_candidate \<Rightarrow> spot_store \<Rightarrow> (upsert_outcome \<times> spot_store) option" where
  "store_upsert key candidate s =
     (case hm_get (id_by_key s) key of
        Some i \<Rightarrow>
          (case hm_get (spots_by_id s) i of
             None \<Rightarrow> None
           | Some old \<Rightarrow>
               let changed = spot_visible_fields_changed old candidate;
                   spot = spot_of (spot_id old) candidate;
                   s = reinsert_id_by_time i (s\<lparr>spots_by_id := hm_put i spot (spots_by_id s)\<rparr>)
               in Some (if changed then Updated spot else Refreshed spot, s))
      | None \<Rightarrow>
          let i = sat_next (next_id s);
              spot = spot_of i candidate;
              s = s\<lparr>next_id := i, id_by_key := hm_put key i (id_by_key s),
                    key_by_id := hm_put i key (key_by_id s), spots_by_id := hm_put i spot (spots_by_id s)\<rparr>
          in Some (Inserted spot, insert_id_by_time i s))"

definition store_spots :: "int option \<Rightarrow> spot_store \<Rightarrow> band_map_spot list" where
  "store_spots log_id s =
     filter (\<lambda>spot. spot_visible_for_log spot log_id)
       (List.map_filter (hm_get (spots_by_id s)) (ids_by_time s))"

definition next_sequence :: "spot_store \<Rightarrow> nat \<times> spot_store" where
  "next_sequence s =
     (let n = sat_next (last_sequence s) in (n, s\<lparr>last_sequence := n\<rparr>))"

definition remove_by_id :: "nat \<Rightarrow> band_map_event list \<times> spot_store \<Rightarrow> band_map_event list \<times> spot_store" where
  "remove_by_id i es =
     (case es of (events, s) \<Rightarrow>
        (case hm_get (spots_by_id s) i of
           None \<Rightarrow> (events, s)
         | Some _ \<Rightarrow>
             let s = s\<lparr>spots_by_id := hm_remove i (spots_by_id s)\<rparr>;
                 s = (case hm_get (key_by_id s) i of
                        Some key \<Rightarrow> s\<lparr>key_by_id := hm_remove i (key_by_id s),
                                        id_by_key := hm_remove key (id_by_key s)\<rparr>
                      | None \<Rightarrow> s);
                 (n, s) = next_sequence s
             in (events @ [SpotDeleted n i], s)))"

text \<open>The loop of \<open>prune\<close> runs over the front of the queue \<open>ids\<close>.\<close>

fun prune_ids :: "nat \<Rightarrow> nat list \<Rightarrow> band_map_event list \<times> spot_store \<Rightarrow> band_map_event list \<times> spot_store" where
  "prune_ids cutoff [] (events, s) = (events, s\<lparr>ids_by_time := []\<rparr>)"
| "prune_ids cutoff (i # ids) (events, s) =
     (case hm_get (spots_by_id s) i of
        None \<Rightarrow> prune_ids cutoff ids (events, s)
      | Some spot \<Rightarrow>
          if cutoff \<le> spot_received_at spot then (events, s\<lparr>ids_by_time := i # ids\<rparr>)
          else prune_ids cutoff ids (remove_by_id i (events, s)))"

definition store_prune :: "nat \<Rightarrow> nat \<Rightarrow> spot_store \<Rightarrow> band_map_event list \<times> spot_store" where
  "store_prune now max_age s = prune_ids (cutoff_timestamp now max_age) (ids_by_time s) ([], s)"

definition store_remove :: "nat \<Rightarrow> spot_store \<Rightarrow> band_map_event list \<times> spot_store" where
  "store_remove i s = remove_by_id i ([], s\<lparr>ids_by_time := filter (\<lambda>j. j \<noteq> i) (ids_by_time s)\<rparr>)"

definition remove_cluster_source_spot :: "nat \<Rightarrow> spot_store \<Rightarrow> band_map_event list \<times> spot_store" where
  "remove_cluster_source_spot source_id s =
     (case hm_get (id_by_key s) (ClusterKey source_id) of
        None \<Rightarrow> ([], s)
      | Some i \<Rightarrow> remove_by_id i ([], s\<lparr>ids_by_time := filter (\<lambda>j. j \<noteq> i) (ids_by_time s)\<rparr>))"

fun is_local_key :: "int \<Rightarrow> dedupe_key \<Rightarrow> bool" where
  "is_local_key l (LocalKey log_id _ _) = (log_id = Some l)"
| "is_local_key l (LocalUnknownBand log_id _ _) = (log_id = Some l)"
| "is_local_key l _ = False"

definition local_keys_for_log :: "int \<Rightarrow> spot_store \<Rightarrow> dedupe_key list" where
  "local_keys_for_log l s = filter (is_local_key l) (map fst (id_by_key s))"

section \<open>Operations of the manager\<close>

definition set_max_age :: "nat \<Rightarrow> nat \<Rightarrow> band_map \<Rightarrow> band_map" where
  "set_max_age now max_age bm =
     (case store_prune now max_age (bm_store bm) of
        (events, s) \<Rightarrow> bm\<lparr>bm_max_age := max_age, bm_store := s, bm_sent := bm_sent bm @ events\<rparr>)"

definition prune_old_spots :: "nat \<Rightarrow> band_map \<Rightarrow> band_map" where
  "prune_old_spots now bm =
     (case store_prune now (bm_max_age bm) (bm_store bm) of
        (events, s) \<Rightarrow> bm\<lparr>bm_store := s, bm_sent := bm_sent bm @ events\<rparr>)"

definition band_map_snapshot :: "int option \<Rightarrow> band_map \<Rightarrow> nat \<times> band_map_spot list" where
  "band_map_snapshot log_id bm = (last_sequence (bm_store bm), store_spots log_id (bm_store bm))"

definition delete_spot :: "nat \<Rightarrow> band_map \<Rightarrow> bool \<times> band_map" where
  "delete_spot i bm =
     (case store_remove i (bm_store bm) of
        (events, s) \<Rightarrow> (events \<noteq> [], bm\<lparr>bm_store := s, bm_sent := bm_sent bm @ events\<rparr>))"

definition delete_dxcluster_spot :: "nat \<Rightarrow> band_map \<Rightarrow> bool \<times> band_map" where
  "delete_dxcluster_spot source_id bm =
     (case remove_cluster_source_spot source_id (bm_store bm) of
        (events, s) \<Rightarrow> (events \<noteq> [], bm\<lparr>bm_store := s, bm_sent := bm_sent bm @ events\<rparr>))"

definition upsert_candidate ::
  "nat \<Rightarrow> dedupe_key \<Rightarrow> spot_candidate \<Rightarrow> band_map \<Rightarrow> (band_map_spot \<times> band_map) option" where
  "upsert_candidate now key candidate bm =
     (case store_prune now (bm_max_age bm) (bm_store bm) of
        (events, s) \<Rightarrow>
          (case store_upsert key candidate s of
             None \<Rightarrow> None
           | Some (outcome, s) \<Rightarrow>
               let (spot, events, s) =
                     (case outcome of
                        Refreshed spot \<Rightarrow> (spot, events, s)
                      | Inserted spot \<Rightarrow> let (n, s) = next_sequence s in (spot, events @ [SpotUpserted n spot], s)
                      | Updated spot \<Rightarrow> let (n, s) = next_sequence s in (spot, events @ [SpotUpserted n spot], s))
               in Some (spot, bm\<lparr>bm_store := s, bm_sent := bm_sent bm @ events\<rparr>)))"

definition band_name_for_frequency :: "nat \<Rightarrow> band_map \<Rightarrow> string option" where
  "band_name_for_frequency hz bm = map_option band_name (band_for_frequency (bm_bands bm) hz)"

definition upsert_dxcluster_spot :: "nat \<Rightarrow> dx_cluster_spot \<Rightarrow> band_map \<Rightarrow> (band_map_spot \<times> band_map) option" where
  "upsert_dxcluster_spot now spot bm =
     upsert_candidate now (ClusterKey (dx_id spot))
       \<lparr>spot_received_at = dx_received_at spot,
        spot_kind = (if dx_rbn spot \<noteq> None then RbnSpot else DxSpot),
        spot_source = dx_source spot, spot_call_de = dx_call_de spot, spot_call_dx = dx_call_dx spot,
        spot_frequency_hz = dx_frequency_hz spot, spot_utc = dx_utc spot, spot_loc = dx_loc spot,
        spot_comment = dx_comment spot, spot_rbn = dx_rbn spot,
        spot_band_name = band_name_for_frequency (dx_frequency_hz spot) bm,
        spot_radio_id = None, spot_radio_name = None, spot_log_id = None,
        spot_exchange_fields = None\<rparr> bm"

definition local_key :: "int option \<Rightarrow> string option \<Rightarrow> nat \<Rightarrow> string \<Rightarrow> dedupe_key" where
  "local_key log_id band hz call_dx =
     (case band of
        Some name \<Rightarrow> LocalKey log_id name call_dx
      | None \<Rightarrow> LocalUnknownBand log_id (frequency_tenth_khz hz) call_dx)"

definition upsert_local_spot :: "nat \<Rightarrow> local_spot_input \<Rightarrow> band_map \<Rightarrow> (band_map_spot \<times> band_map) option" where
  "upsert_local_spot now input bm =
     (let band = band_name_for_frequency (in_frequency_hz input) bm;
          call_dx = to_upper (trim (in_call_dx input))
      in upsert_candidate now (local_key (in_log_id input) band (in_frequency_hz input) call_dx)
           \<lparr>spot_received_at = (case in_received_at input of Some t \<Rightarrow> t | None \<Rightarrow> now),
            spot_kind = LocalSpot, spot_source = ''local'', spot_call_de = ''LOCAL'', spot_call_dx = call_dx,
            spot_frequency_hz = in_frequency_hz input, spot_utc = utc_hhmm_from_timestamp now, spot_loc = None,
            spot_comment = (case in_comment input of
                Some c \<Rightarrow> if trim c \<noteq> [] then Some c else None | None \<Rightarrow> None),
            spot_rbn = None, spot_band_name = band, spot_radio_id = in_radio_id input,
            spot_radio_name = in_radio_name input, spot_log_id = in_log_id input,
            spot_exchange_fields = in_exchange_fields input\<rparr> bm)"

text \<open>The outer option is the early return of a frequency outside every band.\<close>

definition upsert_cq :: "nat \<Rightarrow> nat \<Rightarrow> int \<Rightarrow> string \<Rightarrow> band_map \<Rightarrow> (band_map_spot \<times> band_map) option option" where
  "upsert_cq now hz radio radio_name bm =
     (case band_name_for_frequency hz bm of
        None \<Rightarrow> None
      | Some band \<Rightarrow>
          Some (upsert_candidate now (CqKey radio band)
            \<lparr>spot_received_at = now, spot_kind = CqSpot, spot_source = ''cq'', spot_call_de = [], spot_call_dx = [],
             spot_frequency_hz = hz, spot_utc = utc_hhmm_from_timestamp now, spot_loc = None,
             spot_comment = None, spot_rbn = None, spot_band_name = Some band, spot_radio_id = Some radio,
             spot_radio_name = Some radio_name, spot_log_id = None, spot_exchange_fields = None\<rparr> bm))"

definition upsert_in_use :: "nat \<Rightarrow> nat \<Rightarrow> band_map \<Rightarrow> (band_map_spot \<times> band_map) option" where
  "upsert_in_use now hz bm =
     upsert_candidate now (InUseKey (frequency_tenth_khz hz))
       \<lparr>spot_received_at = now, spot_kind = InUseSpot, spot_source = ''in_use'', spot_call_de = [],
        spot_call_dx = [], spot_frequency_hz = hz, spot_utc = utc_hhmm_from_timestamp now, spot_loc = None,
        spot_comment = None, spot_rbn = None, spot_band_name = band_name_for_frequency hz bm,
        spot_radio_id = None, spot_radio_name = None, spot_log_id = None, spot_exchange_fields = None\<rparr> bm"

definition local_spot_candidate :: "band list \<Rightarrow> int \<Rightarrow> contact \<Rightarrow> spot_candidate option" where
  "local_spot_candidate bands l contact =
     (case contact_adif contact of
        None \<Rightarrow> None
      | Some adif \<Rightarrow>
          (case map_option (\<lambda>s. to_upper (trim s)) (Option.bind (map_of adif ''CALL'') json_string) of
             None \<Rightarrow> None
           | Some call_dx \<Rightarrow>
               if call_dx = [] then None
               else (case value_u64 (map_of adif ''FREQ'') of
                 None \<Rightarrow> None
               | Some hz \<Rightarrow>
                   if hz = 0 then None
                   else (case value_u64 (map_of adif ''QSO_DATE_TIME_ON'') of
                     None \<Rightarrow> None
                   | Some received_at \<Rightarrow>
                       let band = (case Option.bind (map_of adif ''BAND'') json_string of
                                     Some name \<Rightarrow> if trim name \<noteq> [] then Some name
                                                  else map_option band_name (band_for_frequency bands hz)
                                   | None \<Rightarrow> map_option band_name (band_for_frequency bands hz))
                       in Some
                         \<lparr>spot_received_at = received_at, spot_kind = LocalSpot, spot_source = ''local'',
                          spot_call_de = (case Option.bind (contact_adif_value contact ''STATION_CALLSIGN'') json_string of
                                            Some s \<Rightarrow> s | None \<Rightarrow> []),
                          spot_call_dx = call_dx, spot_frequency_hz = hz,
                          spot_utc = utc_hhmm_from_timestamp received_at, spot_loc = None,
                          spot_comment = None, spot_rbn = None, spot_band_name = band,
                          spot_radio_id = None, spot_radio_name = None, spot_log_id = Some l,
                          spot_exchange_fields = Some adif\<rparr>))))"

definition candidate_key :: "int \<Rightarrow> spot_candidate \<Rightarrow> dedupe_key" where
  "candidate_key l c = local_key (Some l) (spot_band_name c) (spot_frequency_hz c) (spot_call_dx c)"

text \<open>The first loop of \<open>sync_local_spots_for_log\<close>: the newest candidate of each key.\<close>

definition want_spot ::
  "band list \<Rightarrow> int \<Rightarrow> nat \<Rightarrow> contact \<Rightarrow> (dedupe_key, spot_candidate) hmap \<Rightarrow> (dedupe_key, spot_candidate) hmap" where
  "want_spot bands l cutoff contact desired =
     (case local_spot_candidate bands l contact of
        None \<Rightarrow> desired
      | Some candidate \<Rightarrow>
          if spot_received_at candidate < cutoff then desired
          else
            let key = candidate_key l candidate
            in (case hm_get desired key of
                  Some existing \<Rightarrow>
                    if spot_received_at candidate \<le> spot_received_at existing then desired
                    else hm_put key candidate desired
                | None \<Rightarrow> hm_put key candidate desired))"

fun upsert_desired ::
  "(dedupe_key \<times> spot_candidate) list \<Rightarrow> band_map_event list \<times> spot_store
     \<Rightarrow> (band_map_event list \<times> spot_store) option" where
  "upsert_desired [] es = Some es"
| "upsert_desired ((key, candidate) # rest) (events, s) =
     (case store_upsert key candidate s of
        None \<Rightarrow> None
      | Some (Refreshed spot, s) \<Rightarrow> upsert_desired rest (events, s)
      | Some (Inserted spot, s) \<Rightarrow>
          (let (n, s) = next_sequence s in upsert_desired rest (events @ [SpotUpserted n spot], s))
      | Some (Updated spot, s) \<Rightarrow>
          (let (n, s) = next_sequence s in upsert_desired rest (events @ [SpotUpserted n spot], s)))"

definition drop_key :: "dedupe_key \<Rightarrow> band_map_event list \<times> spot_store \<Rightarrow> band_map_event list \<times> spot_store" where
  "drop_key key es =
     (case hm_get (id_by_key (snd es)) key of Some i \<Rightarrow> remove_by_id i es | None \<Rightarrow> es)"

definition sync_local_spots_for_log :: "nat \<Rightarrow> int \<Rightarrow> contact list \<Rightarrow> band_map \<Rightarrow> band_map option" where
  "sync_local_spots_for_log now l contacts bm =
     (let desired = fold (want_spot (bm_bands bm) l (cutoff_timestamp now (bm_max_age bm))) contacts [];
          (events, s) = store_prune now (bm_max_age bm) (bm_store bm);
          existing = local_keys_for_log l s
      in (case upsert_desired desired (events, s) of
            None \<Rightarrow> None
          | Some es \<Rightarrow>
              let (events, s) =
                    fold drop_key (filter (\<lambda>key. key \<notin> set (map fst desired)) existing) es
              in Some (bm\<lparr>bm_store := s, bm_sent := bm_sent bm @ events\<rparr>)))"

end
