(* ===== verification/BandMapSpec.thy ===== *)
theory BandMapSpec
  imports BandMap LogCacheSpec
begin

text \<open>
  The store of \<open>BandMap\<close>: its invariant (the two maps between keys and ids are inverse, every spot
  has an entry in the queue of ids), the map from keys to spots it implements, what the
  synchronisation with a log leaves, and the order of the queue: kept by every operation but a
  synchronisation that removes spots, which leaves their ids in it.
\<close>

section \<open>The invariant\<close>

definition keys_ok :: "spot_store \<Rightarrow> bool" where
  "keys_ok s \<longleftrightarrow>
     hm_ok (spots_by_id s) \<and> hm_ok (id_by_key s) \<and> hm_ok (key_by_id s)
     \<and> (\<forall>k i. hm_get (id_by_key s) k = Some i \<longleftrightarrow> hm_get (key_by_id s) i = Some k)
     \<and> (\<forall>i. hm_get (spots_by_id s) i = None \<longleftrightarrow> hm_get (key_by_id s) i = None)
     \<and> (\<forall>i spot. hm_get (spots_by_id s) i = Some spot \<longrightarrow> spot_id spot = i \<and> i \<le> next_id s)"

definition queue_ok :: "spot_store \<Rightarrow> bool" where
  "queue_ok s \<longleftrightarrow>
     distinct (ids_by_time s) \<and> (\<forall>i\<in>set (ids_by_time s). i \<le> next_id s)
     \<and> dom (hm_get (spots_by_id s)) \<subseteq> set (ids_by_time s)"

definition store_ok :: "spot_store \<Rightarrow> bool" where
  "store_ok s \<longleftrightarrow> keys_ok s \<and> queue_ok s"

text \<open>What the store implements: the spot of each key.\<close>

definition spot_at :: "spot_store \<Rightarrow> dedupe_key \<Rightarrow> band_map_spot option" where
  "spot_at s key = Option.bind (hm_get (id_by_key s) key) (hm_get (spots_by_id s))"

lemma empty_store_ok: "store_ok empty_store"
  by (simp add: store_ok_def keys_ok_def queue_ok_def empty_store_def hm_ok_def)

lemma keys_okD:
  assumes "keys_ok s"
  shows "hm_ok (spots_by_id s)" "hm_ok (id_by_key s)" "hm_ok (key_by_id s)"
    and "hm_get (id_by_key s) k = Some i \<longleftrightarrow> hm_get (key_by_id s) i = Some k"
    and "hm_get (spots_by_id s) i = None \<longleftrightarrow> hm_get (key_by_id s) i = None"
    and "hm_get (spots_by_id s) i = Some spot \<Longrightarrow> spot_id spot = i \<and> i \<le> next_id s"
  using assms unfolding keys_ok_def by blast+

lemma keys_ok_frame:
  "keys_ok (s\<lparr>ids_by_time := ids\<rparr>) = keys_ok s" "keys_ok (s\<lparr>last_sequence := n\<rparr>) = keys_ok s"
  by (simp_all add: keys_ok_def)

lemma spot_at_frame [simp]:
  "spot_at (s\<lparr>ids_by_time := ids\<rparr>) = spot_at s" "spot_at (s\<lparr>last_sequence := n\<rparr>) = spot_at s"
  by (simp_all add: spot_at_def fun_eq_iff)

lemma store_ok_sequence [simp]: "store_ok (s\<lparr>last_sequence := n\<rparr>) = store_ok s"
  by (simp add: store_ok_def keys_ok_frame queue_ok_def)

lemma next_sequence_frame:
  "next_sequence s = (n, s') \<Longrightarrow> s' = s\<lparr>last_sequence := n\<rparr>"
  by (auto simp: next_sequence_def Let_def)

lemma insert_id_frame:
  "spots_by_id (insert_id_by_time i s) = spots_by_id s" "id_by_key (insert_id_by_time i s) = id_by_key s"
  "key_by_id (insert_id_by_time i s) = key_by_id s" "next_id (insert_id_by_time i s) = next_id s"
  "last_sequence (insert_id_by_time i s) = last_sequence s"
  by (simp_all add: insert_id_by_time_def Let_def split: option.split)

lemma insert_id_queue:
  assumes "distinct (ids_by_time s)" and "i \<notin> set (ids_by_time s)" and "hm_get (spots_by_id s) i \<noteq> None"
  shows "distinct (ids_by_time (insert_id_by_time i s))"
    and "set (ids_by_time (insert_id_by_time i s)) = insert i (set (ids_by_time s))"
proof -
  obtain n where n: "ids_by_time (insert_id_by_time i s) = insert_at n i (ids_by_time s)"
    using assms(3) by (auto simp: insert_id_by_time_def Let_def)
  have "mset (ids_by_time (insert_id_by_time i s)) = mset (i # ids_by_time s)" by (simp add: n)
  then show "distinct (ids_by_time (insert_id_by_time i s))"
    using assms(1,2) by (metis distinct.simps(2) mset_eq_imp_distinct_iff)
  show "set (ids_by_time (insert_id_by_time i s)) = insert i (set (ids_by_time s))" by (simp add: n)
qed

section \<open>Upserting\<close>

lemma spot_id_of [simp]: "spot_id (spot_of i c) = i"
  by (simp add: spot_of_def)

lemma spot_received_of [simp]: "spot_received_at (spot_of i c) = spot_received_at c"
  by (simp add: spot_of_def)

definition outcome_spot :: "upsert_outcome \<Rightarrow> band_map_spot" where
  "outcome_spot outcome = (case outcome of Inserted s \<Rightarrow> s | Updated s \<Rightarrow> s | Refreshed s \<Rightarrow> s)"

lemma store_upsert_old:
  assumes ok: "store_ok s" and key: "hm_get (id_by_key s) key = Some i"
  shows "\<exists>outcome s'. store_upsert key c s = Some (outcome, s') \<and> store_ok s' \<and> next_id s' = next_id s
    \<and> outcome_spot outcome = spot_of i c \<and> spot_at s' = (spot_at s)(key \<mapsto> spot_of i c)"
proof -
  note k = keys_okD [OF ok [unfolded store_ok_def, THEN conjunct1]]
  have q: "distinct (ids_by_time s)" "\<And>j. j \<in> set (ids_by_time s) \<Longrightarrow> j \<le> next_id s"
    "dom (hm_get (spots_by_id s)) \<subseteq> set (ids_by_time s)"
    using ok by (simp_all add: store_ok_def queue_ok_def)
  have "hm_get (key_by_id s) i = Some key" using k(4) key by simp
  then obtain old where old: "hm_get (spots_by_id s) i = Some old" using k(5) [of i] by fastforce
  have oid: "spot_id old = i" "i \<le> next_id s" using k(6) [OF old] by simp_all
  define t where "t = s\<lparr>spots_by_id := hm_put i (spot_of i c) (spots_by_id s)\<rparr>"
  define s' where "s' = reinsert_id_by_time i t"
  have run: "store_upsert key c s =
      Some (if spot_visible_fields_changed old c then Updated (spot_of i c) else Refreshed (spot_of i c), s')"
    by (simp add: store_upsert_def key old oid Let_def s'_def t_def)
  have frame: "spots_by_id s' = hm_put i (spot_of i c) (spots_by_id s)" "id_by_key s' = id_by_key s"
    "key_by_id s' = key_by_id s" "next_id s' = next_id s"
    by (simp_all add: s'_def t_def reinsert_id_by_time_def insert_id_frame)
  have ids: "distinct (ids_by_time s') \<and> set (ids_by_time s') = insert i (set (ids_by_time s) - {i})"
  proof -
    let ?u = "t\<lparr>ids_by_time := filter (\<lambda>j. j \<noteq> i) (ids_by_time t)\<rparr>"
    have "distinct (ids_by_time ?u)" "i \<notin> set (ids_by_time ?u)" "hm_get (spots_by_id ?u) i \<noteq> None"
      using q(1) by (simp_all add: t_def hm_get_put)
    from insert_id_queue [OF this] show ?thesis
      by (auto simp: s'_def reinsert_id_by_time_def t_def)
  qed
  have "keys_ok s'"
    unfolding keys_ok_def
  proof (intro conjI allI impI)
    show "hm_ok (spots_by_id s')" "hm_ok (id_by_key s')" "hm_ok (key_by_id s')"
      using k(1-3) by (simp_all add: frame hm.ok_put)
    show "hm_get (id_by_key s') k = Some j \<longleftrightarrow> hm_get (key_by_id s') j = Some k" for k j
      unfolding frame by (rule k(4))
    show "hm_get (spots_by_id s') j = None \<longleftrightarrow> hm_get (key_by_id s') j = None" for j
      using k(5) [of j] old by (auto simp: frame hm_get_put)
    show "spot_id spot = j" "j \<le> next_id s'" if "hm_get (spots_by_id s') j = Some spot" for j spot
      using that k(6) [of j spot] oid(2) by (auto simp: frame hm_get_put split: if_splits)
  qed
  moreover have "queue_ok s'"
    using ids q oid(2) unfolding queue_ok_def frame by (auto simp: hm_get_put dom_def)
  moreover have "spot_at s' k = ((spot_at s)(key \<mapsto> spot_of i c)) k" for k
  proof (cases "hm_get (id_by_key s) k = Some i")
    case True
    then have "k = key" using k(4) key by (metis option.inject)
    with True show ?thesis by (simp add: spot_at_def frame hm_get_put)
  next
    case False
    then have "k \<noteq> key" using key by auto
    with False show ?thesis by (cases "hm_get (id_by_key s) k") (auto simp: spot_at_def frame hm_get_put)
  qed
  ultimately show ?thesis
    using run frame(4) by (auto simp: store_ok_def outcome_spot_def)
qed

lemma store_upsert_new:
  assumes ok: "store_ok s" and key: "hm_get (id_by_key s) key = None" and room: "next_id s < u64_max"
  shows "\<exists>outcome s' i. store_upsert key c s = Some (outcome, s') \<and> store_ok s' \<and> next_id s' = Suc (next_id s)
    \<and> outcome_spot outcome = spot_of i c \<and> spot_at s' = (spot_at s)(key \<mapsto> spot_of i c)"
proof -
  note k = keys_okD [OF ok [unfolded store_ok_def, THEN conjunct1]]
  have q: "distinct (ids_by_time s)" "\<And>j. j \<in> set (ids_by_time s) \<Longrightarrow> j \<le> next_id s"
    "dom (hm_get (spots_by_id s)) \<subseteq> set (ids_by_time s)"
    using ok by (simp_all add: store_ok_def queue_ok_def)
  define i where "i = sat_next (next_id s)"
  have i: "i = Suc (next_id s)" using room by (simp add: i_def sat_next_def)
  have "i \<notin> set (ids_by_time s)" using q(2) [of i] i by fastforce
  moreover have "hm_get (spots_by_id s) i = None"
  proof (rule ccontr)
    assume "hm_get (spots_by_id s) i \<noteq> None"
    then obtain spot where "hm_get (spots_by_id s) i = Some spot" by blast
    from k(6) [OF this] i show False by simp
  qed
  ultimately have fresh: "hm_get (spots_by_id s) i = None" "i \<notin> set (ids_by_time s)" by simp_all
  then have fk: "hm_get (key_by_id s) i = None" using k(5) [of i] by simp
  define t where "t = s\<lparr>next_id := i, id_by_key := hm_put key i (id_by_key s),
    key_by_id := hm_put i key (key_by_id s), spots_by_id := hm_put i (spot_of i c) (spots_by_id s)\<rparr>"
  define s' where "s' = insert_id_by_time i t"
  have run: "store_upsert key c s = Some (Inserted (spot_of i c), s')"
    by (simp add: store_upsert_def key Let_def s'_def t_def i_def)
  have frame: "spots_by_id s' = hm_put i (spot_of i c) (spots_by_id s)" "id_by_key s' = hm_put key i (id_by_key s)"
    "key_by_id s' = hm_put i key (key_by_id s)" "next_id s' = i"
    by (simp_all add: s'_def t_def insert_id_frame)
  have ids: "distinct (ids_by_time s') \<and> set (ids_by_time s') = insert i (set (ids_by_time s))"
    using insert_id_queue [of t i] q(1) fresh(2) by (simp add: s'_def t_def hm_get_put)
  have inv: "hm_get (id_by_key s') k = Some j \<longleftrightarrow> hm_get (key_by_id s') j = Some k" for k j
    using k(4) [of k j] key fk by (auto simp: frame hm_get_put)
  have "keys_ok s'"
    unfolding keys_ok_def
  proof (intro conjI allI impI)
    show "hm_ok (spots_by_id s')" "hm_ok (id_by_key s')" "hm_ok (key_by_id s')"
      using k(1-3) by (simp_all add: frame hm.ok_put)
    show "hm_get (id_by_key s') k = Some j \<longleftrightarrow> hm_get (key_by_id s') j = Some k" for k j by (rule inv)
    show "hm_get (spots_by_id s') j = None \<longleftrightarrow> hm_get (key_by_id s') j = None" for j
      using k(5) [of j] by (simp add: frame hm_get_put)
    show "spot_id spot = j" "j \<le> next_id s'" if "hm_get (spots_by_id s') j = Some spot" for j spot
      using that k(6) [of j spot] i by (auto simp: frame hm_get_put split: if_splits)
  qed
  moreover have "queue_ok s'"
    using ids q i unfolding queue_ok_def frame by (auto simp: hm_get_put dom_def le_SucI)
  moreover have "spot_at s' k = ((spot_at s)(key \<mapsto> spot_of i c)) k" for k
  proof (cases "k = key")
    case False
    have "hm_get (id_by_key s) k \<noteq> Some i" using k(4) [of k i] fk by simp
    with False show ?thesis by (cases "hm_get (id_by_key s) k") (auto simp: spot_at_def frame hm_get_put)
  qed (simp add: spot_at_def frame hm_get_put)
  ultimately show ?thesis
    using run frame(4) i
    by (intro exI [of _ "Inserted (spot_of i c)"] exI [of _ s'] exI [of _ i])
      (simp add: store_ok_def outcome_spot_def fun_eq_iff)
qed

lemma store_upsert_ok:
  assumes "store_ok s" and "next_id s < u64_max"
  shows "\<exists>outcome s' i. store_upsert key c s = Some (outcome, s') \<and> store_ok s' \<and> next_id s' \<le> Suc (next_id s)
    \<and> outcome_spot outcome = spot_of i c \<and> spot_at s' = (spot_at s)(key \<mapsto> spot_of i c)"
proof (cases "hm_get (id_by_key s) key")
  case None
  from store_upsert_new [OF assms(1) None assms(2)] show ?thesis by fastforce
next
  case (Some i)
  from store_upsert_old [OF assms(1) Some] show ?thesis by fastforce
qed

section \<open>Removing and pruning\<close>

lemma remove_by_id_spec:
  assumes ok: "keys_ok s" and run: "remove_by_id i (events, s) = (events', s')"
  shows "keys_ok s' \<and> ids_by_time s' = ids_by_time s \<and> next_id s' = next_id s
    \<and> hm_get (spots_by_id s') = (hm_get (spots_by_id s))(i := None)
    \<and> spot_at s' = (\<lambda>k. if hm_get (id_by_key s) k = Some i then None else spot_at s k)
    \<and> (\<forall>k. hm_get (id_by_key s') k = (if hm_get (id_by_key s) k = Some i then None else hm_get (id_by_key s) k))"
proof -
  note k = keys_okD [OF ok]
  show ?thesis
  proof (cases "hm_get (spots_by_id s) i")
    case None
    have "hm_get (id_by_key s) key \<noteq> Some i" for key using None k(4) [of key i] k(5) [of i] by simp
    then show ?thesis using None run ok by (auto simp: remove_by_id_def fun_eq_iff)
  next
    case (Some spot)
    then obtain key where key: "hm_get (key_by_id s) i = Some key" using k(5) [of i] by auto
    then have ik: "hm_get (id_by_key s) key = Some i" using k(4) by blast
    obtain n where s': "s' = s\<lparr>spots_by_id := hm_remove i (spots_by_id s), key_by_id := hm_remove i (key_by_id s),
        id_by_key := hm_remove key (id_by_key s), last_sequence := n\<rparr>"
      using run Some key by (auto simp: remove_by_id_def next_sequence_def Let_def)
    have only: "hm_get (id_by_key s) k = Some i \<longleftrightarrow> k = key" for k
      using k(4) [of k i] key ik by auto
    have "keys_ok s'"
      unfolding keys_ok_def
    proof (intro conjI allI impI)
      show "hm_ok (spots_by_id s')" "hm_ok (id_by_key s')" "hm_ok (key_by_id s')"
        using k(1-3) by (simp_all add: s' hm.ok_remove)
      show "hm_get (id_by_key s') k = Some j \<longleftrightarrow> hm_get (key_by_id s') j = Some k" for k j
        using k(4) [of k j] ik key by (auto simp: s' hm_get_remove)
      show "hm_get (spots_by_id s') j = None \<longleftrightarrow> hm_get (key_by_id s') j = None" for j
        using k(5) [of j] by (simp add: s' hm_get_remove)
      show "spot_id sp = j" "j \<le> next_id s'" if "hm_get (spots_by_id s') j = Some sp" for j sp
        using that k(6) [of j sp] by (auto simp: s' hm_get_remove split: if_splits)
    qed
    moreover have "spot_at s' k = (if hm_get (id_by_key s) k = Some i then None else spot_at s k)" for k
    proof (cases "k = key")
      case False
      then have "hm_get (id_by_key s) k \<noteq> Some i" using only by simp
      with False show ?thesis by (cases "hm_get (id_by_key s) k") (auto simp: spot_at_def s' hm_get_remove)
    qed (simp add: spot_at_def s' hm_get_remove ik)
    ultimately show ?thesis using only by (simp add: s' hm_get_remove fun_eq_iff)
  qed
qed

text \<open>Pruning: the spots that go are older than the cutoff, and the queue keeps every other one.\<close>

lemma prune_ids_spec:
  "keys_ok s \<Longrightarrow> distinct ids \<Longrightarrow> (\<forall>i\<in>set ids. i \<le> next_id s) \<Longrightarrow>
     dom (hm_get (spots_by_id s)) \<subseteq> set ids \<Longrightarrow> prune_ids cutoff ids (events, s) = (events', s') \<Longrightarrow>
     store_ok s' \<and> next_id s' = next_id s \<and> set (ids_by_time s') \<subseteq> set ids
     \<and> (\<forall>k. spot_at s' k = spot_at s k
          \<or> spot_at s' k = None \<and> (\<exists>spot. spot_at s k = Some spot \<and> spot_received_at spot < cutoff))"
proof (induction ids arbitrary: events s)
  case Nil
  then show ?case by (auto simp: store_ok_def queue_ok_def keys_ok_frame)
next
  case (Cons i ids)
  note k = keys_okD [OF Cons.prems(1)]
  show ?case
  proof (cases "hm_get (spots_by_id s) i")
    case None
    then have "dom (hm_get (spots_by_id s)) \<subseteq> set ids" using Cons.prems(4) by (auto simp: dom_def)
    moreover have "prune_ids cutoff ids (events, s) = (events', s')" using Cons.prems(5) None by simp
    ultimately have "store_ok s' \<and> next_id s' = next_id s \<and> set (ids_by_time s') \<subseteq> set ids
     \<and> (\<forall>k. spot_at s' k = spot_at s k
          \<or> spot_at s' k = None \<and> (\<exists>spot. spot_at s k = Some spot \<and> spot_received_at spot < cutoff))"
      using Cons.prems(2,3) by (intro Cons.IH [OF Cons.prems(1)]) simp_all
    then show ?thesis by auto
  next
    case (Some spot)
    show ?thesis
    proof (cases "cutoff \<le> spot_received_at spot")
      case True
      then have "s' = s\<lparr>ids_by_time := i # ids\<rparr>" using Cons.prems(5) Some by simp
      with Cons.prems(1-4) show ?thesis by (auto simp: store_ok_def queue_ok_def keys_ok_frame)
    next
      case False
      obtain ev1 s1 where r: "remove_by_id i (events, s) = (ev1, s1)" by fastforce
      note rs = remove_by_id_spec [OF Cons.prems(1) r]
      have run: "prune_ids cutoff ids (ev1, s1) = (events', s')" using Cons.prems(5) Some False r by simp
      have dom: "dom (hm_get (spots_by_id s1)) \<subseteq> set ids" using rs Cons.prems(4) by (auto simp: dom_def split: if_splits)
      have keys: "keys_ok s1" and nid: "next_id s1 = next_id s" using rs by blast+
      have ids: "distinct ids" "\<forall>i\<in>set ids. i \<le> next_id s1" using Cons.prems(2,3) nid by simp_all
      note IH = Cons.IH [OF keys ids dom run]
      have "spot_at s' k = spot_at s k
          \<or> spot_at s' k = None \<and> (\<exists>spot. spot_at s k = Some spot \<and> spot_received_at spot < cutoff)" for k
      proof (cases "hm_get (id_by_key s) k = Some i")
        case True
        then have "spot_at s k = Some spot" using Some by (simp add: spot_at_def)
        moreover have "spot_at s1 k = None" using rs True by simp
        then have "spot_at s' k = None" using IH by (metis option.distinct(1))
        ultimately show ?thesis using False by simp
      next
        case no: False
        then have "spot_at s1 k = spot_at s k" using rs by simp
        then show ?thesis using IH by metis
      qed
      then show ?thesis using IH rs by auto
    qed
  qed
qed

lemma store_prune_ok:
  assumes "store_ok s" and "store_prune now age s = (events, s')"
  shows "store_ok s'" and "next_id s' = next_id s"
    and "spot_at s' k = spot_at s k
      \<or> spot_at s' k = None \<and> (\<exists>spot. spot_at s k = Some spot \<and> spot_received_at spot < now - age)"
  using prune_ids_spec [of s "ids_by_time s" "now - age" "[]" events s'] assms
  by (auto simp: store_ok_def queue_ok_def store_prune_def cutoff_timestamp_def)

lemma remove_listed_ok:
  assumes ok: "store_ok s" and run: "remove_by_id i ([], s\<lparr>ids_by_time := filter (\<lambda>j. j \<noteq> i) (ids_by_time s)\<rparr>) = (events, s')"
  shows "store_ok s' \<and> next_id s' = next_id s
    \<and> spot_at s' = (\<lambda>k. if hm_get (id_by_key s) k = Some i then None else spot_at s k)"
proof -
  let ?s = "s\<lparr>ids_by_time := filter (\<lambda>j. j \<noteq> i) (ids_by_time s)\<rparr>"
  have "keys_ok ?s" using ok by (simp add: store_ok_def keys_ok_frame)
  note r = remove_by_id_spec [OF this run]
  have "queue_ok s'" using r ok by (auto simp: store_ok_def queue_ok_def dom_def)
  with r show ?thesis by (auto simp: store_ok_def fun_eq_iff)
qed

lemma remove_unlisted_ok:
  assumes ok: "store_ok s" and run: "remove_by_id i (events, s) = (events', s')"
  shows "store_ok s' \<and> next_id s' = next_id s
    \<and> spot_at s' = (\<lambda>k. if hm_get (id_by_key s) k = Some i then None else spot_at s k)
    \<and> (\<forall>k. hm_get (id_by_key s') k = (if hm_get (id_by_key s) k = Some i then None else hm_get (id_by_key s) k))"
proof -
  have "keys_ok s" using ok by (simp add: store_ok_def)
  note r = remove_by_id_spec [OF this run]
  have "queue_ok s'" using r ok by (auto simp: store_ok_def queue_ok_def dom_def)
  with r show ?thesis by (simp add: store_ok_def)
qed

section \<open>Synchronising with a log\<close>

definition wanted_spots :: "band_map \<Rightarrow> nat \<Rightarrow> int \<Rightarrow> contact list \<Rightarrow> (dedupe_key, spot_candidate) hmap" where
  "wanted_spots bm now l contacts = fold (want_spot (bm_bands bm) l (now - bm_max_age bm)) contacts []"

lemma drop_key_ok:
  assumes ok: "store_ok s" and run: "drop_key key (events, s) = (events', s')"
  shows "store_ok s' \<and> next_id s' = next_id s \<and> spot_at s' = (spot_at s)(key := None)"
proof (cases "hm_get (id_by_key s) key")
  case None
  then have "spot_at s key = None" by (simp add: spot_at_def)
  with None run ok show ?thesis by (auto simp: drop_key_def fun_eq_iff)
next
  case (Some i)
  then have r: "remove_by_id i (events, s) = (events', s')" using run by (simp add: drop_key_def)
  have "keys_ok s" using ok by (simp add: store_ok_def)
  then have "hm_get (id_by_key s) k = Some i \<longleftrightarrow> k = key" for k
    using keys_okD(4) [of s] Some by (metis option.inject)
  with remove_unlisted_ok [OF ok r] show ?thesis by (auto simp: fun_eq_iff)
qed

lemma drop_keys_ok:
  "store_ok s \<Longrightarrow> fold drop_key keys (events, s) = (events', s') \<Longrightarrow>
     store_ok s' \<and> next_id s' = next_id s \<and> spot_at s' = (\<lambda>k. if k \<in> set keys then None else spot_at s k)"
proof (induction keys arbitrary: events s)
  case (Cons key keys)
  obtain ev1 s1 where r: "drop_key key (events, s) = (ev1, s1)" by fastforce
  note d = drop_key_ok [OF Cons.prems(1) r]
  have "fold drop_key keys (ev1, s1) = (events', s')" using Cons.prems(2) r by simp
  with Cons.IH [of s1 ev1] d show ?case by (auto simp: fun_eq_iff)
qed simp

lemma upsert_desired_ok:
  "store_ok s \<Longrightarrow> next_id s + length desired \<le> u64_max \<Longrightarrow> distinct (map fst desired) \<Longrightarrow>
     \<exists>events' s'. upsert_desired desired (events, s) = Some (events', s') \<and> store_ok s'
     \<and> (\<forall>k. case hm_get desired k of
            Some c \<Rightarrow> \<exists>i. spot_at s' k = Some (spot_of i c)
          | None \<Rightarrow> spot_at s' k = spot_at s k)"
proof (induction desired arbitrary: events s)
  case Nil
  then show ?case by simp
next
  case (Cons x desired)
  obtain key c where x: "x = (key, c)" by fastforce
  have new: "hm_get desired key = None" and d: "distinct (map fst desired)"
    using Cons.prems(3) by (auto simp: x map_of_eq_None_iff)
  have "next_id s < u64_max" using Cons.prems(2) by simp
  from store_upsert_ok [OF Cons.prems(1) this, of key c] obtain outcome s1 i where
    u: "store_upsert key c s = Some (outcome, s1)" and ok1: "store_ok s1" and n1: "next_id s1 \<le> Suc (next_id s)"
    and at1: "spot_at s1 = (spot_at s)(key \<mapsto> spot_of i c)" by blast
  obtain ev2 s2 where step: "upsert_desired (x # desired) (events, s) = upsert_desired desired (ev2, s2)"
    and s2: "s2 = s1 \<or> (\<exists>n. s2 = s1\<lparr>last_sequence := n\<rparr>)"
  proof (cases outcome)
    case (Refreshed spot)
    then show ?thesis using u that by (simp add: x)
  next
    case (Inserted spot)
    obtain n s2 where "next_sequence s1 = (n, s2)" by fastforce
    with Inserted u next_sequence_frame [OF this] show ?thesis by (intro that) (auto simp: x)
  next
    case (Updated spot)
    obtain n s2 where "next_sequence s1 = (n, s2)" by fastforce
    with Updated u next_sequence_frame [OF this] show ?thesis by (intro that) (auto simp: x)
  qed
  have ok2: "store_ok s2" and at2: "spot_at s2 = spot_at s1" and n2: "next_id s2 = next_id s1"
    using s2 ok1 by auto
  have "next_id s2 + length desired \<le> u64_max" using Cons.prems(2) n1 n2 by simp
  from Cons.IH [OF ok2 this d, of ev2] obtain events' s' where
    r: "upsert_desired desired (ev2, s2) = Some (events', s')" and ok': "store_ok s'"
    and at': "\<forall>k. case hm_get desired k of Some c \<Rightarrow> \<exists>i. spot_at s' k = Some (spot_of i c)
      | None \<Rightarrow> spot_at s' k = spot_at s2 k" by blast
  have "case hm_get (x # desired) k of Some c \<Rightarrow> \<exists>i. spot_at s' k = Some (spot_of i c)
      | None \<Rightarrow> spot_at s' k = spot_at s k" for k
    using at' [rule_format, of k] at1 at2 new by (cases "k = key") (auto simp: x split: option.splits)
  then show ?case unfolding step using r ok' by blast
qed

lemma want_spot_hm_ok: "hm_ok desired \<Longrightarrow> hm_ok (want_spot bands l cutoff contact desired)"
  by (auto simp: want_spot_def Let_def hm.ok_put split: option.splits)

lemma want_spots_hm_ok: "hm_ok desired \<Longrightarrow> hm_ok (fold (want_spot bands l cutoff) contacts desired)"
  by (induction contacts arbitrary: desired) (simp_all add: want_spot_hm_ok)

lemma want_spots_length:
  "length (fold (want_spot bands l cutoff) contacts desired) \<le> length desired + length contacts"
proof (induction contacts arbitrary: desired)
  case (Cons c contacts)
  have put: "length (hm_put k v m) \<le> Suc (length m)" for k :: dedupe_key and v :: spot_candidate and m
    unfolding hm_put_def by (induction m) auto
  have "length (want_spot bands l cutoff c desired) \<le> Suc (length desired)"
    using put by (auto simp: want_spot_def Let_def le_SucI split: option.split)
  with Cons.IH [of "want_spot bands l cutoff c desired"] show ?case by simp
qed simp

lemma local_keys_set: "key \<in> set (local_keys_for_log l s) \<longleftrightarrow> is_local_key l key \<and> hm_get (id_by_key s) key \<noteq> None"
  by (auto simp: local_keys_for_log_def map_of_eq_None_iff)

lemma wanted_keys_local:
  "\<forall>k\<in>fst ` set desired. is_local_key l k \<Longrightarrow> \<forall>k\<in>fst ` set (fold (want_spot bands l cutoff) contacts desired). is_local_key l k"
proof (induction contacts arbitrary: desired)
  case (Cons c contacts)
  have key: "is_local_key l (candidate_key l d)" for d
    by (simp add: candidate_key_def local_key_def split: option.split)
  have put: "fst ` set (hm_put k v m) \<subseteq> insert k (fst ` set m)" for k :: dedupe_key and v :: spot_candidate and m
    unfolding hm_put_def by (simp add: dom_update)
  have put': "\<forall>k\<in>fst ` set (hm_put (candidate_key l d) d desired). is_local_key l k" for d
  proof
    fix k assume "k \<in> fst ` set (hm_put (candidate_key l d) d desired)"
    from subsetD [OF put this] have "k = candidate_key l d \<or> k \<in> fst ` set desired" by (rule insertE) simp_all
    then show "is_local_key l k" using key bspec [OF Cons.prems] by blast
  qed
  have "\<forall>k\<in>fst ` set (want_spot bands l cutoff c desired). is_local_key l k"
    using Cons.prems put' by (simp add: want_spot_def Let_def split: option.split)
  with Cons.IH show ?case by simp
qed simp

lemma sync_spec:
  assumes ok: "store_ok (bm_store bm)" and room: "next_id (bm_store bm) + length contacts \<le> u64_max"
  shows "\<exists>bm'. sync_local_spots_for_log now l contacts bm = Some bm' \<and> store_ok (bm_store bm')
    \<and> bm_bands bm' = bm_bands bm \<and> bm_max_age bm' = bm_max_age bm
    \<and> (\<forall>k. case hm_get (wanted_spots bm now l contacts) k of
          Some c \<Rightarrow> \<exists>i. spot_at (bm_store bm') k = Some (spot_of i c)
        | None \<Rightarrow>
            if is_local_key l k then spot_at (bm_store bm') k = None
            else spot_at (bm_store bm') k = spot_at (snd (store_prune now (bm_max_age bm) (bm_store bm))) k)"
proof -
  let ?desired = "wanted_spots bm now l contacts"
  obtain ev s where p: "store_prune now (bm_max_age bm) (bm_store bm) = (ev, s)" by fastforce
  note sp = store_prune_ok [OF ok p]
  have hm: "hm_ok ?desired" unfolding wanted_spots_def by (rule want_spots_hm_ok) (simp add: hm_ok_def)
  have len: "length ?desired \<le> length contacts"
    using want_spots_length [of "bm_bands bm" l "now - bm_max_age bm" contacts "[]"] by (simp add: wanted_spots_def)
  have "next_id s + length ?desired \<le> u64_max" using room len sp(2) by simp
  from upsert_desired_ok [OF sp(1) this, of ev] hm obtain ev1 s1 where
    u: "upsert_desired ?desired (ev, s) = Some (ev1, s1)" and ok1: "store_ok s1"
    and at1: "\<forall>k. case hm_get ?desired k of Some c \<Rightarrow> \<exists>i. spot_at s1 k = Some (spot_of i c)
      | None \<Rightarrow> spot_at s1 k = spot_at s k" by (auto simp: hm_ok_def)
  define gone where "gone = filter (\<lambda>key. key \<notin> set (map fst ?desired)) (local_keys_for_log l s)"
  obtain ev2 s2 where f: "fold drop_key gone (ev1, s1) = (ev2, s2)" by fastforce
  note d = drop_keys_ok [OF ok1 f]
  have in_gone: "k \<in> set gone \<longleftrightarrow> is_local_key l k \<and> hm_get (id_by_key s) k \<noteq> None \<and> hm_get ?desired k = None" for k
    by (auto simp: gone_def local_keys_set map_of_eq_None_iff)
  have run: "sync_local_spots_for_log now l contacts bm = Some (bm\<lparr>bm_store := s2, bm_sent := bm_sent bm @ ev2\<rparr>)"
    using u f by (simp add: sync_local_spots_for_log_def p wanted_spots_def cutoff_timestamp_def Let_def gone_def)
  have final: "case hm_get ?desired k of
          Some c \<Rightarrow> \<exists>i. spot_at s2 k = Some (spot_of i c)
        | None \<Rightarrow> if is_local_key l k then spot_at s2 k = None else spot_at s2 k = spot_at s k" for k
  proof (cases "hm_get ?desired k")
    case None
    have s2: "spot_at s2 k = (if k \<in> set gone then None else spot_at s1 k)" using d by simp
    have s1: "spot_at s1 k = spot_at s k" using at1 [rule_format, of k] None by simp
    have "spot_at s k = None" if "hm_get (id_by_key s) k = None" using that by (simp add: spot_at_def)
    have g: "k \<in> set gone \<longleftrightarrow> is_local_key l k \<and> hm_get (id_by_key s) k \<noteq> None" using in_gone None by blast
    show ?thesis
      unfolding None s2 s1 g using \<open>hm_get (id_by_key s) k = None \<Longrightarrow> spot_at s k = None\<close>
      by (cases "is_local_key l k"; cases "hm_get (id_by_key s) k") simp_all
  next
    case (Some c)
    then have "k \<notin> set gone" using in_gone by simp
    then have "spot_at s2 k = spot_at s1 k" using d by simp
    moreover have "\<exists>i. spot_at s1 k = Some (spot_of i c)" using at1 [rule_format, of k] Some by simp
    ultimately show ?thesis using Some by simp
  qed
  have s: "snd (store_prune now (bm_max_age bm) (bm_store bm)) = s" by (simp add: p)
  have ok2: "store_ok s2" using d by blast
  define bm' where "bm' = bm\<lparr>bm_store := s2, bm_sent := bm_sent bm @ ev2\<rparr>"
  have bm': "bm_store bm' = s2" "bm_bands bm' = bm_bands bm" "bm_max_age bm' = bm_max_age bm"
    "sync_local_spots_for_log now l contacts bm = Some bm'" by (simp_all add: bm'_def run)
  show ?thesis
    unfolding s by (rule exI [of _ bm']) (unfold bm', use ok2 final in blast)
qed

section \<open>The order of the queue\<close>

text \<open>
  While no spot was removed behind the queue's back, the queue lists exactly the spots, oldest
  first. Times are compared in the store: \<open>order_in s\<close> is the order of the ids by time and id.
\<close>

definition time_in :: "spot_store \<Rightarrow> nat \<Rightarrow> nat" where
  "time_in s i = (case hm_get (spots_by_id s) i of Some spot \<Rightarrow> spot_received_at spot | None \<Rightarrow> 0)"

definition order_in :: "spot_store \<Rightarrow> nat \<Rightarrow> nat \<Rightarrow> bool" where
  "order_in s i j \<longleftrightarrow> (time_in s i, i) \<le> (time_in s j, j)"

interpretation qv: ordered_vector "order_in s" for s
  by unfold_locales (auto simp: order_in_def)

definition timely :: "spot_store \<Rightarrow> bool" where
  "timely s \<longleftrightarrow>
     store_ok s \<and> set (ids_by_time s) = dom (hm_get (spots_by_id s)) \<and> qv.ordered s (ids_by_time s)"

lemma empty_timely: "timely empty_store"
  by (simp add: timely_def empty_store_ok) (simp add: empty_store_def qv.ordered_Nil)

lemma ordered_same_times:
  "(\<And>i. i \<in> set ids \<Longrightarrow> time_in s i = time_in t i) \<Longrightarrow> qv.ordered s ids = qv.ordered t ids"
  unfolding qv.ordered_def
  by (intro iffI; erule sorted_wrt_mono_rel [rotated]) (simp_all add: order_in_def)

lemma insert_id_ordered:
  assumes ord: "qv.ordered s (ids_by_time s)" and live: "set (ids_by_time s) \<subseteq> dom (hm_get (spots_by_id s))"
    and new: "hm_get (spots_by_id s) i = Some spot"
  shows "qv.ordered (insert_id_by_time i s) (ids_by_time (insert_id_by_time i s))"
proof -
  let ?P = "\<lambda>j. case hm_get (spots_by_id s) j of
      Some sp \<Rightarrow> (spot_received_at sp, j) \<le> (spot_received_at spot, i) | None \<Rightarrow> False"
  have P: "?P j \<longleftrightarrow> order_in s j i" if "j \<in> set (ids_by_time s)" for j
    using live that new by (auto simp: order_in_def time_in_def dom_def split: option.split)
  have mono: "?P (ids_by_time s ! a)" if "a < b" "b < length (ids_by_time s)" "?P (ids_by_time s ! b)" for a b
  proof -
    have "order_in s (ids_by_time s ! a) (ids_by_time s ! b)"
      using ord that(1,2) by (simp add: qv.ordered_def sorted_wrt_nth_less)
    moreover have "order_in s (ids_by_time s ! b) i" using P [of "ids_by_time s ! b"] that(2,3) by simp
    ultimately have "order_in s (ids_by_time s ! a) i" by (rule qv.le_trans)
    then show ?thesis using P [of "ids_by_time s ! a"] that(1,2) by simp
  qed
  have "partition_point ?P (ids_by_time s) = length (takeWhile ?P (ids_by_time s))"
    by (rule partition_point_takeWhile) (rule mono)
  also have "takeWhile ?P (ids_by_time s) = takeWhile (\<lambda>j. order_in s j i) (ids_by_time s)"
    by (rule takeWhile_cong [OF refl]) (rule P)
  also have "length \<dots> = partition_point (\<lambda>j. order_in s j i) (ids_by_time s)"
  proof (rule qv.partition_point_ordered [OF ord, symmetric])
    show "qv.down_closed s (\<lambda>j. order_in s j i)"
      unfolding qv.down_closed_def using qv.le_trans by blast
  qed
  finally have ids: "ids_by_time (insert_id_by_time i s)
      = insert_at (partition_point (\<lambda>j. order_in s j i) (ids_by_time s)) i (ids_by_time s)"
    by (simp add: insert_id_by_time_def new Let_def)
  have "time_in (insert_id_by_time i s) = time_in s" by (simp add: time_in_def insert_id_frame fun_eq_iff)
  then show ?thesis
    unfolding ids using qv.insert_ordered [OF ord, of i]
    by (subst ordered_same_times [of _ _ s]) simp_all
qed

lemma store_upsert_timely:
  assumes t: "timely s" and room: "next_id s < u64_max" and run: "store_upsert key c s = Some (outcome, s')"
  shows "timely s'"
proof -
  have ok: "store_ok s" and ids: "set (ids_by_time s) = dom (hm_get (spots_by_id s))"
    and ord: "qv.ordered s (ids_by_time s)" using t by (simp_all add: timely_def)
  have ok': "store_ok s'" using store_upsert_ok [OF ok room, of key c] run by auto
  obtain i u where s': "s' = insert_id_by_time i u"
    and frame: "spots_by_id u = hm_put i (spot_of i c) (spots_by_id s)"
    and queue: "ids_by_time u = filter (\<lambda>j. j \<noteq> i) (ids_by_time s)"
  proof (cases "hm_get (id_by_key s) key")
    case None
    have fresh: "sat_next (next_id s) \<notin> set (ids_by_time s)"
    proof
      assume "sat_next (next_id s) \<in> set (ids_by_time s)"
      then have "sat_next (next_id s) \<le> next_id s" using ok by (simp add: store_ok_def queue_ok_def)
      then show False using room by (simp add: sat_next_def)
    qed
    then have "filter (\<lambda>j. j \<noteq> sat_next (next_id s)) (ids_by_time s) = ids_by_time s"
      by (intro filter_True) auto
    with run None show ?thesis
      by (intro that [of "sat_next (next_id s)" "s\<lparr>next_id := sat_next (next_id s),
          id_by_key := hm_put key (sat_next (next_id s)) (id_by_key s),
          key_by_id := hm_put (sat_next (next_id s)) key (key_by_id s),
          spots_by_id := hm_put (sat_next (next_id s)) (spot_of (sat_next (next_id s)) c) (spots_by_id s)\<rparr>"])
        (simp_all add: store_upsert_def Let_def)
  next
    case (Some i)
    then obtain old where old: "hm_get (spots_by_id s) i = Some old"
      using run by (auto simp: store_upsert_def split: option.splits)
    have "keys_ok s" using ok by (simp add: store_ok_def)
    from keys_okD(6) [OF this old] have "spot_id old = i" by simp
    with run Some old show ?thesis
      by (intro that [of i "s\<lparr>spots_by_id := hm_put i (spot_of i c) (spots_by_id s),
          ids_by_time := filter (\<lambda>j. j \<noteq> i) (ids_by_time s)\<rparr>"])
        (simp_all add: store_upsert_def Let_def reinsert_id_by_time_def)
  qed
  have times: "time_in u j = time_in s j" if "j \<noteq> i" for j
    using that by (simp add: time_in_def frame hm_get_put)
  have "qv.ordered s (ids_by_time u)" unfolding queue by (rule qv.filter_ordered [OF ord])
  then have "qv.ordered u (ids_by_time u)"
    using ordered_same_times [of "ids_by_time u" u s] times by (simp add: queue)
  moreover have "set (ids_by_time u) \<subseteq> dom (hm_get (spots_by_id u))"
    using ids by (auto simp: queue frame hm_get_put)
  moreover have new: "hm_get (spots_by_id u) i = Some (spot_of i c)" by (simp add: frame hm_get_put)
  ultimately have "qv.ordered s' (ids_by_time s')" unfolding s' by (rule insert_id_ordered)
  moreover have "set (ids_by_time s') = dom (hm_get (spots_by_id s'))"
  proof -
    have "distinct (ids_by_time u)" "i \<notin> set (ids_by_time u)"
      using ok by (simp_all add: queue store_ok_def queue_ok_def)
    from insert_id_queue(2) [OF this] new have "set (ids_by_time s') = insert i (set (ids_by_time u))"
      by (simp add: s')
    then show ?thesis using ids by (auto simp: s' insert_id_frame queue frame hm_get_put)
  qed
  ultimately show ?thesis using ok' by (simp add: timely_def)
qed

lemma remove_by_id_times:
  assumes "keys_ok s" and "remove_by_id i (events, s) = (events', s')" and "j \<noteq> i"
  shows "time_in s' j = time_in s j"
proof -
  have "hm_get (spots_by_id s') = (hm_get (spots_by_id s))(i := None)"
    using remove_by_id_spec [OF assms(1,2)] by blast
  then show ?thesis using assms(3) by (simp add: time_in_def)
qed

lemma remove_timely:
  assumes t: "timely s" and run: "remove_by_id i ([], s\<lparr>ids_by_time := filter (\<lambda>j. j \<noteq> i) (ids_by_time s)\<rparr>) = (events, s')"
  shows "timely s'"
proof -
  let ?s = "s\<lparr>ids_by_time := filter (\<lambda>j. j \<noteq> i) (ids_by_time s)\<rparr>"
  have ok: "store_ok s" and ids: "set (ids_by_time s) = dom (hm_get (spots_by_id s))"
    and ord: "qv.ordered s (ids_by_time s)" using t by (simp_all add: timely_def)
  have k: "keys_ok ?s" using ok by (simp add: store_ok_def keys_ok_frame)
  note r = remove_by_id_spec [OF k run]
  have ids': "ids_by_time s' = filter (\<lambda>j. j \<noteq> i) (ids_by_time s)"
    and get': "hm_get (spots_by_id s') = (hm_get (spots_by_id s))(i := None)" using r by simp_all
  have "time_in s' j = time_in s j" if "j \<noteq> i" for j using that by (simp add: time_in_def get')
  then have "qv.ordered s' (ids_by_time s') = qv.ordered s (ids_by_time s')"
    by (intro ordered_same_times) (simp add: ids')
  moreover have "qv.ordered s (ids_by_time s')" unfolding ids' by (rule qv.filter_ordered [OF ord])
  moreover have "store_ok s'" using remove_listed_ok [OF ok run] by blast
  moreover have "set (ids_by_time s') = dom (hm_get (spots_by_id s'))" unfolding ids' get' using ids by auto
  ultimately show ?thesis by (simp add: timely_def)
qed

definition unexpired :: "nat \<Rightarrow> band_map_spot option \<Rightarrow> band_map_spot option" where
  "unexpired cutoff found = Option.bind found (\<lambda>spot. if cutoff \<le> spot_received_at spot then Some spot else None)"

lemma spot_at_id: "spot_at s k = Some spot \<Longrightarrow> \<exists>i. hm_get (id_by_key s) k = Some i \<and> hm_get (spots_by_id s) i = Some spot"
  by (simp add: spot_at_def bind_eq_Some_conv)

lemma prune_ids_exact:
  "keys_ok s \<Longrightarrow> distinct ids \<Longrightarrow> \<forall>i\<in>set ids. i \<le> next_id s \<Longrightarrow> set ids = dom (hm_get (spots_by_id s)) \<Longrightarrow>
     qv.ordered s ids \<Longrightarrow> prune_ids cutoff ids (events, s) = (events', s') \<Longrightarrow>
     timely s' \<and> (\<forall>k. spot_at s' k = unexpired cutoff (spot_at s k))"
proof (induction ids arbitrary: events s)
  case Nil
  have s': "s' = s\<lparr>ids_by_time := []\<rparr>" using Nil.prems(6) by simp
  have none: "spots_by_id s = []" using Nil.prems(4) [symmetric] by simp
  have "spot_at s k = None" for k by (cases "hm_get (id_by_key s) k") (simp_all add: spot_at_def none)
  moreover have "timely s'"
    using Nil.prems(1) none by (auto simp: s' timely_def store_ok_def queue_ok_def keys_ok_frame qv.ordered_Nil)
  ultimately show ?case by (simp add: s' unexpired_def)
next
  case (Cons i ids)
  obtain spot where spot: "hm_get (spots_by_id s) i = Some spot" using Cons.prems(4) by auto
  have first: "\<forall>j\<in>set ids. order_in s i j" and rest: "qv.ordered s ids"
    using Cons.prems(5) by (simp_all add: qv.ordered_Cons)
  show ?case
  proof (cases "cutoff \<le> spot_received_at spot")
    case True
    then have s': "s' = s\<lparr>ids_by_time := i # ids\<rparr>" using Cons.prems(6) spot by simp
    have young: "cutoff \<le> spot_received_at sp" if "hm_get (spots_by_id s) j = Some sp" for j sp
    proof -
      have "j \<in> set (i # ids)" unfolding Cons.prems(4) using that by blast
      then have "time_in s i \<le> time_in s j" using first by (auto simp: order_in_def)
      then show ?thesis using True spot that by (simp add: time_in_def)
    qed
    have "unexpired cutoff (spot_at s k) = spot_at s k" for k
    proof (cases "spot_at s k")
      case (Some sp)
      then have "cutoff \<le> spot_received_at sp" using spot_at_id young by blast
      then show ?thesis by (simp add: unexpired_def Some)
    qed (simp add: unexpired_def)
    moreover have "timely s'"
    proof -
      have "time_in s' = time_in s" by (simp add: s' time_in_def fun_eq_iff)
      then have "qv.ordered s' (i # ids)" using ordered_same_times [of "i # ids" s' s] Cons.prems(5) by simp
      moreover have "\<forall>j\<in>dom (hm_get (spots_by_id s)). j \<le> next_id s"
        using Cons.prems(3) unfolding Cons.prems(4) .
      ultimately show ?thesis
        using Cons.prems(1-4) by (simp add: s' timely_def store_ok_def queue_ok_def keys_ok_frame)
    qed
    ultimately show ?thesis by (simp add: s')
  next
    case False
    obtain ev1 s1 where r: "remove_by_id i (events, s) = (ev1, s1)" by fastforce
    have rs: "keys_ok s1" "next_id s1 = next_id s" "hm_get (spots_by_id s1) = (hm_get (spots_by_id s))(i := None)"
      "\<And>k. spot_at s1 k = (if hm_get (id_by_key s) k = Some i then None else spot_at s k)"
      using remove_by_id_spec [OF Cons.prems(1) r] by simp_all
    have run: "prune_ids cutoff ids (ev1, s1) = (events', s')" using Cons.prems(6) spot False r by simp
    have dom: "set ids = dom (hm_get (spots_by_id s1))"
      unfolding rs(3) dom_fun_upd using Cons.prems(2,4) by auto
    have ord: "qv.ordered s1 ids"
      using rest ordered_same_times [of ids s1 s] remove_by_id_times [OF Cons.prems(1) r] Cons.prems(2) by fastforce
    have ids: "distinct ids" "\<forall>j\<in>set ids. j \<le> next_id s1" using Cons.prems(2,3) rs(2) by simp_all
    note IH = Cons.IH [OF rs(1) ids dom ord run]
    have "unexpired cutoff (spot_at s1 k) = unexpired cutoff (spot_at s k)" for k
    proof (cases "hm_get (id_by_key s) k = Some i")
      case True
      then have "spot_at s k = Some spot" using spot by (simp add: spot_at_def)
      with True False show ?thesis by (simp add: rs(4) unexpired_def)
    qed (simp add: rs(4))
    with IH show ?thesis by simp
  qed
qed

lemma prune_timely:
  assumes "timely s" and "store_prune now age s = (events, s')"
  shows "timely s' \<and> (\<forall>k. spot_at s' k = unexpired (now - age) (spot_at s k))"
proof (rule prune_ids_exact)
  show "keys_ok s" "distinct (ids_by_time s)" "\<forall>i\<in>set (ids_by_time s). i \<le> next_id s"
    "set (ids_by_time s) = dom (hm_get (spots_by_id s))" "qv.ordered s (ids_by_time s)"
    using assms(1) by (simp_all add: timely_def store_ok_def queue_ok_def)
  show "prune_ids (now - age) (ids_by_time s) ([], s) = (events, s')"
    using assms(2) by (simp add: store_prune_def cutoff_timestamp_def)
qed

lemma timely_sequence: "timely s \<Longrightarrow> timely (s\<lparr>last_sequence := n\<rparr>)"
proof -
  assume t: "timely s"
  have "time_in (s\<lparr>last_sequence := n\<rparr>) = time_in s" by (simp add: time_in_def fun_eq_iff)
  then have "qv.ordered (s\<lparr>last_sequence := n\<rparr>) (ids_by_time s) = qv.ordered s (ids_by_time s)"
    by (intro ordered_same_times) simp
  with t show ?thesis by (simp add: timely_def)
qed

lemma upsert_desired_timely:
  "timely s \<Longrightarrow> next_id s + length desired \<le> u64_max \<Longrightarrow>
     upsert_desired desired (events, s) = Some (events', s') \<Longrightarrow> timely s'"
proof (induction desired arbitrary: events s)
  case (Cons x desired)
  obtain key c where x: "x = (key, c)" by fastforce
  obtain outcome s1 where u: "store_upsert key c s = Some (outcome, s1)"
    using Cons.prems(3) by (auto simp: x split: option.splits)
  have room: "next_id s < u64_max" using Cons.prems(2) by simp
  have ok: "store_ok s" using Cons.prems(1) by (simp add: timely_def)
  have t1: "timely s1" by (rule store_upsert_timely [OF Cons.prems(1) room u])
  have n1: "next_id s1 \<le> Suc (next_id s)" using store_upsert_ok [OF ok room, of key c] u by auto
  obtain ev2 s2 where rest: "upsert_desired desired (ev2, s2) = Some (events', s')"
    and s2: "s2 = s1 \<or> (\<exists>n. s2 = s1\<lparr>last_sequence := n\<rparr>)"
    using Cons.prems(3) u by (cases outcome) (auto simp: x split: prod.splits dest: next_sequence_frame)
  have "timely s2" "next_id s2 = next_id s1" using s2 t1 timely_sequence by auto
  with Cons.IH [OF _ _ rest] n1 Cons.prems(2) show ?case by simp
qed simp

text \<open>The keys whose spots a synchronisation removes: those of contacts deleted or changed since.\<close>

definition dropped_keys :: "nat \<Rightarrow> int \<Rightarrow> contact list \<Rightarrow> band_map \<Rightarrow> dedupe_key list" where
  "dropped_keys now l contacts bm =
     filter (\<lambda>key. key \<notin> set (map fst (wanted_spots bm now l contacts)))
       (local_keys_for_log l (snd (store_prune now (bm_max_age bm) (bm_store bm))))"

lemma sync_timely:
  assumes "timely (bm_store bm)" and "next_id (bm_store bm) + length contacts \<le> u64_max"
    and "sync_local_spots_for_log now l contacts bm = Some bm'" and "dropped_keys now l contacts bm = []"
  shows "timely (bm_store bm')"
proof -
  let ?desired = "wanted_spots bm now l contacts"
  obtain ev s where p: "store_prune now (bm_max_age bm) (bm_store bm) = (ev, s)" by fastforce
  have ok: "store_ok (bm_store bm)" using assms(1) by (simp add: timely_def)
  obtain ev1 s1 where u: "upsert_desired ?desired (ev, s) = Some (ev1, s1)"
    using assms(3) by (auto simp: sync_local_spots_for_log_def p wanted_spots_def cutoff_timestamp_def Let_def
        split: option.splits)
  have "fold drop_key (dropped_keys now l contacts bm) (ev1, s1) = (ev1, s1)" using assms(4) by simp
  then have "bm' = bm\<lparr>bm_store := s1, bm_sent := bm_sent bm @ ev1\<rparr>"
    using assms(3) u by (simp add: sync_local_spots_for_log_def p wanted_spots_def cutoff_timestamp_def Let_def
        dropped_keys_def)
  moreover have "length ?desired \<le> length contacts"
    using want_spots_length [of "bm_bands bm" l "now - bm_max_age bm" contacts "[]"] by (simp add: wanted_spots_def)
  moreover have "timely s" using prune_timely [OF assms(1) p] by blast
  moreover have "next_id s = next_id (bm_store bm)" by (rule store_prune_ok(2) [OF ok p])
  ultimately show ?thesis using upsert_desired_timely [OF _ _ u] assms(2) by simp
qed

text \<open>
  The stores the operations reach, and whether a synchronisation has removed a spot on the way. The
  manager's other operations are these steps; an event only advances the sequence.
\<close>

inductive spots_reachable :: "bool \<Rightarrow> spot_store \<Rightarrow> bool" where
  start: "spots_reachable False empty_store"
| upsert: "spots_reachable d s \<Longrightarrow> next_id s < u64_max \<Longrightarrow> store_upsert key c s = Some (outcome, s') \<Longrightarrow>
    spots_reachable d s'"
| remove: "spots_reachable d s \<Longrightarrow> spots_reachable d (snd (store_remove i s))"
| remove_cluster: "spots_reachable d s \<Longrightarrow> spots_reachable d (snd (remove_cluster_source_spot source s))"
| prune: "spots_reachable d s \<Longrightarrow> spots_reachable d (snd (store_prune now age s))"
| event: "spots_reachable d s \<Longrightarrow> spots_reachable d (snd (next_sequence s))"
| sync: "spots_reachable d (bm_store bm) \<Longrightarrow> next_id (bm_store bm) + length contacts \<le> u64_max \<Longrightarrow>
    sync_local_spots_for_log now l contacts bm = Some bm' \<Longrightarrow>
    spots_reachable (d \<or> dropped_keys now l contacts bm \<noteq> []) (bm_store bm')"

lemma remove_cluster_cases:
  "remove_cluster_source_spot source s = ([], s) \<or> (\<exists>i. remove_cluster_source_spot source s = store_remove i s)"
  by (auto simp: remove_cluster_source_spot_def store_remove_def split: option.split)

lemma store_remove_kept:
  shows "store_ok s \<Longrightarrow> store_ok (snd (store_remove i s))" and "timely s \<Longrightarrow> timely (snd (store_remove i s))"
proof -
  obtain events s' where r: "remove_by_id i ([], s\<lparr>ids_by_time := filter (\<lambda>j. j \<noteq> i) (ids_by_time s)\<rparr>) = (events, s')"
    by fastforce
  show "store_ok s \<Longrightarrow> store_ok (snd (store_remove i s))"
    using remove_listed_ok [OF _ r] by (simp add: store_remove_def r)
  show "timely s \<Longrightarrow> timely (snd (store_remove i s))"
    using remove_timely [OF _ r] by (simp add: store_remove_def r)
qed

lemma reachable_ok: "spots_reachable d s \<Longrightarrow> store_ok s \<and> (\<not> d \<longrightarrow> timely s)"
proof (induction rule: spots_reachable.induct)
  case start
  show ?case using empty_timely by (simp add: timely_def)
next
  case (upsert d s key c outcome s')
  then have "store_ok s'" using store_upsert_ok [of s key c] by auto
  with upsert show ?case using store_upsert_timely by blast
next
  case (remove d s i)
  then show ?case using store_remove_kept by blast
next
  case (remove_cluster d s source)
  then show ?case using store_remove_kept remove_cluster_cases [of source s] by (metis snd_conv)
next
  case (prune d s now age)
  obtain events s' where p: "store_prune now age s = (events, s')" by fastforce
  from prune.IH show ?case using store_prune_ok(1) [OF _ p] prune_timely [OF _ p] by (simp add: p)
next
  case (event d s)
  then show ?case by (simp add: next_sequence_def Let_def timely_sequence)
next
  case (sync d bm contacts now l bm')
  have "store_ok (bm_store bm')"
    using sync_spec [of bm contacts now l] sync.IH sync.hyps(2,3) by auto
  moreover have "timely (bm_store bm')" if "\<not> d" "dropped_keys now l contacts bm = []"
    using sync_timely [OF _ sync.hyps(2,3) that(2)] sync.IH that(1) by blast
  ultimately show ?case by blast
qed

section \<open>What pruning drops\<close>

text \<open>An id the loop of \<open>prune\<close> takes from the queue: its spot is gone or older than the cutoff.\<close>

definition prunable :: "spot_store \<Rightarrow> nat \<Rightarrow> nat \<Rightarrow> bool" where
  "prunable s cutoff i \<longleftrightarrow>
     (case hm_get (spots_by_id s) i of None \<Rightarrow> True | Some spot \<Rightarrow> spot_received_at spot < cutoff)"

definition pruned :: "nat set \<Rightarrow> spot_store \<Rightarrow> dedupe_key \<Rightarrow> bool" where
  "pruned ids s k \<longleftrightarrow> (case hm_get (id_by_key s) k of Some i \<Rightarrow> i \<in> ids | None \<Rightarrow> False)"

lemma prune_ids_prefix:
  "keys_ok s \<Longrightarrow> prune_ids cutoff ids (events, s) = (events', s') \<Longrightarrow>
     ids_by_time s' = dropWhile (prunable s cutoff) ids
     \<and> (\<forall>k. spot_at s' k = (if pruned (set (takeWhile (prunable s cutoff) ids)) s k then None else spot_at s k))"
proof (induction ids arbitrary: events s)
  case Nil
  then have "s' = s\<lparr>ids_by_time := []\<rparr>" by simp
  then show ?case by (simp add: pruned_def split: option.split)
next
  case (Cons i ids)
  show ?case
  proof (cases "hm_get (spots_by_id s) i")
    case None
    then have p: "prunable s cutoff i" by (simp add: prunable_def)
    have "hm_get (id_by_key s) k \<noteq> Some i" for k
      using None keys_okD(4) [OF Cons.prems(1), of k i] keys_okD(5) [OF Cons.prems(1), of i] by simp
    then have "pruned (insert i A) s = pruned A s" for A
      by (auto simp: pruned_def fun_eq_iff split: option.split)
    moreover have "prune_ids cutoff ids (events, s) = (events', s')" using Cons.prems(2) None by simp
    ultimately show ?thesis using Cons.IH [OF Cons.prems(1)] p by simp
  next
    case (Some spot)
    show ?thesis
    proof (cases "cutoff \<le> spot_received_at spot")
      case True
      then have "s' = s\<lparr>ids_by_time := i # ids\<rparr>" "\<not> prunable s cutoff i"
        using Cons.prems(2) Some by (simp_all add: prunable_def)
      then show ?thesis by (simp add: pruned_def split: option.split)
    next
      case False
      then have p: "prunable s cutoff i" using Some by (simp add: prunable_def)
      obtain ev1 s1 where r: "remove_by_id i (events, s) = (ev1, s1)" by fastforce
      have rs: "keys_ok s1" "hm_get (spots_by_id s1) = (hm_get (spots_by_id s))(i := None)"
        "\<And>k. spot_at s1 k = (if hm_get (id_by_key s) k = Some i then None else spot_at s k)"
        "\<And>k. hm_get (id_by_key s1) k = (if hm_get (id_by_key s) k = Some i then None else hm_get (id_by_key s) k)"
        using remove_by_id_spec [OF Cons.prems(1) r] by simp_all
      have same: "prunable s1 cutoff = prunable s cutoff"
        using p by (auto simp: prunable_def rs(2) fun_eq_iff)
      have run: "prune_ids cutoff ids (ev1, s1) = (events', s')" using Cons.prems(2) Some False r by simp
      have "pruned (insert i A) s k \<longleftrightarrow> hm_get (id_by_key s) k = Some i \<or> pruned A s1 k" for A k
        by (auto simp: pruned_def rs(4) split: option.split)
      then show ?thesis
        using Cons.IH [OF rs(1) run] p unfolding same by (simp add: rs(3))
    qed
  qed
qed

section \<open>Properties of the band map\<close>

text \<open>
  C5. The store of the band map implements a map from keys to spots: storing a spot never panics
  and sets exactly its key, under the id the key had or a new one, and deleting an id removes
  exactly the key that has it; both keep the indexes consistent.
\<close>

theorem band_map_refines:
  assumes "store_ok s" and "next_id s < u64_max"
  shows "(\<exists>outcome s' i. store_upsert key candidate s = Some (outcome, s') \<and> store_ok s'
      \<and> outcome_spot outcome = spot_of i candidate \<and> spot_at s' = (spot_at s)(key \<mapsto> spot_of i candidate))
    \<and> store_ok (snd (store_remove j s))
    \<and> spot_at (snd (store_remove j s)) = (\<lambda>k. if hm_get (id_by_key s) k = Some j then None else spot_at s k)"
proof -
  obtain events s' where r: "store_remove j s = (events, s')" by fastforce
  have "store_ok s' \<and> next_id s' = next_id s
    \<and> spot_at s' = (\<lambda>k. if hm_get (id_by_key s) k = Some j then None else spot_at s k)"
    by (rule remove_listed_ok [OF assms(1) r [unfolded store_remove_def]])
  then show ?thesis using store_upsert_ok [OF assms, of key candidate] by (simp add: r) blast
qed


text \<open>
  C10. Pruning, in every store the operations reach, synchronisations included: it drops the spots of
  the longest front of the queue that holds only removed ids and spots older than the limit, and no
  other; so never a spot within the limit, and an older one stays only behind one within it. As long
  as no synchronisation had to remove a spot, this drops exactly the spots older than the limit, and
  the queue lists the remaining ones each once, oldest first.
\<close>

theorem expiry_exact:
  assumes "spots_reachable d s" and "store_prune now age s = (events, s')"
  defines "front \<equiv> takeWhile (prunable s (now - age)) (ids_by_time s)"
  shows "ids_by_time s' = drop (length front) (ids_by_time s)
    \<and> (\<forall>key. spot_at s' key =
          (case hm_get (id_by_key s) key of
             None \<Rightarrow> None | Some i \<Rightarrow> if i \<in> set front then None else spot_at s key))
    \<and> (\<forall>key spot. spot_at s key = Some spot \<longrightarrow> now - age \<le> spot_received_at spot \<longrightarrow> spot_at s' key = Some spot)
    \<and> (\<not> d \<longrightarrow> (\<forall>key. spot_at s' key = unexpired (now - age) (spot_at s key))
         \<and> set (ids_by_time s') = dom (hm_get (spots_by_id s')) \<and> distinct (ids_by_time s')
         \<and> sorted (map (time_in s') (ids_by_time s')))"
proof -
  have ok: "store_ok s" and t: "\<not> d \<longrightarrow> timely s" using reachable_ok [OF assms(1)] by blast+
  then have "keys_ok s" by (simp add: store_ok_def)
  note p = prune_ids_prefix [OF this assms(2) [unfolded store_prune_def cutoff_timestamp_def], folded front_def]
  have "ids_by_time s' = drop (length front) (ids_by_time s)"
    using p by (simp add: front_def dropWhile_eq_drop)
  moreover have "spot_at s' key = (case hm_get (id_by_key s) key of
             None \<Rightarrow> None | Some i \<Rightarrow> if i \<in> set front then None else spot_at s key)" for key
    using p by (cases "hm_get (id_by_key s) key") (simp_all add: pruned_def spot_at_def)
  moreover have "spot_at s' key = Some spot"
    if "spot_at s key = Some spot" "now - age \<le> spot_received_at spot" for key spot
    using store_prune_ok(3) [OF ok assms(2), of key] that by auto
  moreover have "(\<forall>key. spot_at s' key = unexpired (now - age) (spot_at s key))
      \<and> set (ids_by_time s') = dom (hm_get (spots_by_id s')) \<and> distinct (ids_by_time s')
      \<and> sorted (map (time_in s') (ids_by_time s'))" if "\<not> d"
  proof -
    have p: "timely s' \<and> (\<forall>k. spot_at s' k = unexpired (now - age) (spot_at s k))"
      using prune_timely [OF _ assms(2)] t that by blast
    then have "sorted_wrt (\<lambda>i j. time_in s' i \<le> time_in s' j) (ids_by_time s')"
      unfolding timely_def qv.ordered_def
      by (elim conjE sorted_wrt_mono_rel [rotated]) (auto simp: order_in_def)
    with p show ?thesis by (simp add: timely_def store_ok_def queue_ok_def sorted_wrt_map)
  qed
  ultimately show ?thesis by blast
qed

text \<open>A band map used for a while: a log with two contacts, one of which is then deleted.\<close>

definition cluster_spot :: "nat \<Rightarrow> nat \<Rightarrow> string \<Rightarrow> dx_cluster_spot" where
  "cluster_spot i time call =
     \<lparr>dx_id = i, dx_received_at = time, dx_source = ''dx'', dx_call_de = ''W3LPL'', dx_call_dx = call,
      dx_frequency_hz = 14025000, dx_utc = 0, dx_loc = None, dx_comment = None, dx_rbn = None\<rparr>"

definition spotted_contact :: "int \<Rightarrow> int \<Rightarrow> string \<Rightarrow> contact" where
  "spotted_contact i time call =
     build_contact [(''id'', JInt i)]
       [(''BAND'', JString ''20m''), (''CALL'', JString call), (''FREQ'', JInt 14030000),
        (''QSO_DATE_TIME_ON'', JInt time)]"

definition quiet_map :: band_map where
  "quiet_map = \<lparr>bm_bands = [], bm_max_age = 100, bm_store = empty_store, bm_sent = []\<rparr>"

definition add_cluster_spot :: "dx_cluster_spot \<Rightarrow> band_map option \<Rightarrow> band_map option" where
  "add_cluster_spot spot found =
     Option.bind found (\<lambda>bm. map_option snd (upsert_dxcluster_spot (dx_received_at spot) spot bm))"

definition stale_map :: "band_map option" where
  "stale_map =
     add_cluster_spot (cluster_spot 8 60 ''K4D'')
       (Option.bind
         (add_cluster_spot (cluster_spot 7 30 ''K3C'')
           (sync_local_spots_for_log 25 1 [spotted_contact 1 10 ''K1A'', spotted_contact 2 20 ''K2B''] quiet_map))
         (sync_local_spots_for_log 35 1 [spotted_contact 1 10 ''K1A'']))"

text \<open>
  The synchronisation that removed the contact's spot left its id in the queue, and the next
  insertion broke the order of the queue: a newer spot is listed before an older one, and pruning
  stops at it, so that a spot older than the limit of 100 seconds stays on the map. The store is
  reached with the flag \<open>d\<close> set, and \<open>expiry_exact\<close> says how it is pruned.
\<close>

lemma sync_leaves_expired_spot:
  "map_option (\<lambda>bm. map spot_received_at (snd (band_map_snapshot (Some 1) bm))) stale_map = Some [10, 60, 30]
   \<and> map_option (\<lambda>bm. map spot_received_at (snd (band_map_snapshot (Some 1) (prune_old_spots 145 bm)))) stale_map
     = Some [60, 30]"
  by (rule conjI) code_simp+

section \<open>Instances\<close>

definition old_candidate :: spot_candidate where
  "old_candidate =
     \<lparr>spot_received_at = 30, spot_kind = CqSpot, spot_source = ''cq'', spot_call_de = [], spot_call_dx = [],
      spot_frequency_hz = 14025000, spot_utc = 0, spot_loc = None, spot_comment = None, spot_rbn = None,
      spot_band_name = Some ''20m'', spot_radio_id = Some 1, spot_radio_name = None, spot_log_id = None,
      spot_exchange_fields = None\<rparr>"

definition two_spots :: spot_store where
  "two_spots =
     (case store_upsert (CqKey 1 ''20m'') old_candidate empty_store of
        None \<Rightarrow> empty_store
      | Some (_, s) \<Rightarrow>
          (case store_upsert (InUseKey 140250) (old_candidate\<lparr>spot_received_at := 90\<rparr>) s of
             None \<Rightarrow> empty_store | Some (_, s) \<Rightarrow> s))"

lemma two_spots_reachable: "spots_reachable False two_spots"
proof -
  have step: "spots_reachable False (case store_upsert key c s of None \<Rightarrow> empty_store | Some (_, s') \<Rightarrow> s')"
    if "spots_reachable False s" "next_id s < u64_max" for key c s
    using that spots_reachable.start by (auto split: option.split intro: spots_reachable.upsert)
  let ?s1 = "case store_upsert (CqKey 1 ''20m'') old_candidate empty_store of None \<Rightarrow> empty_store | Some (_, s') \<Rightarrow> s'"
  have "next_id empty_store < u64_max" "next_id ?s1 < u64_max" by code_simp+
  from step [OF step [OF spots_reachable.start this(1)] this(2)]
  have "spots_reachable False (case store_upsert (InUseKey 140250) (old_candidate\<lparr>spot_received_at := 90\<rparr>) ?s1 of
      None \<Rightarrow> empty_store | Some (_, s') \<Rightarrow> s')" .
  moreover have "store_upsert (CqKey 1 ''20m'') old_candidate empty_store \<noteq> None" by code_simp
  ultimately show ?thesis by (auto simp: two_spots_def split: option.splits)
qed

theorem expiry_exact_witness:
  "spot_at (snd (store_prune 150 100 two_spots)) (CqKey 1 ''20m'') = None
   \<and> spot_at (snd (store_prune 150 100 two_spots)) (InUseKey 140250) \<noteq> None
   \<and> ids_by_time (snd (store_prune 150 100 two_spots)) = [2]"
proof -
  have run: "store_prune 150 100 two_spots = (fst (store_prune 150 100 two_spots), snd (store_prune 150 100 two_spots))"
    by simp
  have "unexpired (150 - 100) (spot_at two_spots (CqKey 1 ''20m'')) = None"
    "unexpired (150 - 100) (spot_at two_spots (InUseKey 140250)) \<noteq> None" by code_simp+
  moreover have "ids_by_time (snd (store_prune 150 100 two_spots)) = [2]" by code_simp
  moreover have "\<forall>key. spot_at (snd (store_prune 150 100 two_spots)) key = unexpired (150 - 100) (spot_at two_spots key)"
    using expiry_exact [OF two_spots_reachable run] by blast
  ultimately show ?thesis by (simp only: simp_thms)
qed

theorem band_map_refines_witness:
  "store_ok (snd (store_remove 1 two_spots)) \<and> spot_at (snd (store_remove 1 two_spots)) (CqKey 1 ''20m'') = None"
proof -
  have ok: "store_ok two_spots" using reachable_ok [OF two_spots_reachable] by blast
  have room: "next_id two_spots < u64_max" by code_simp
  have "hm_get (id_by_key two_spots) (CqKey 1 ''20m'') = Some 1" by code_simp
  with band_map_refines [OF ok room, of "InUseKey 1" old_candidate 1] show ?thesis by simp
qed


end
