(* ===== verification/Processors.thy ===== *)
theory Processors
  imports IncrementalSpec LogCacheSpec Stats SuperCheck BandMapSpec
begin

text \<open>
  The processors \<open>main.rs\<close> registers with the log cache, in their order: the incremental score,
  the statistics, the band map and the partial callsigns, each on its part of one state. They
  satisfy the contract \<open>log_processors\<close>, which gives the properties of the log cache as it runs.
  The clock is the argument \<open>now\<close> of the processors; a band map whose synchronisation panicked is
  \<open>None\<close>, as its mutex stays poisoned.
\<close>

section \<open>The registered processors\<close>

record processors_state =
  pr_scores :: score_tracker
  pr_stats :: stats_tracker
  pr_band_map :: "band_map option"
  pr_scp :: scp_state

definition score_processor :: "score_tracker processor" where
  "score_processor =
     \<lparr>on_log_loaded = score_on_log_loaded, on_contacts_upserted = score_on_contacts_upserted,
      on_contact_deleted = score_on_contact_deleted, on_log_removed = score_on_log_removed\<rparr>"

definition sync_band_map :: "nat \<Rightarrow> int \<Rightarrow> contact list \<Rightarrow> band_map option \<Rightarrow> band_map option" where
  "sync_band_map now l contacts found = Option.bind found (sync_local_spots_for_log now l contacts)"

definition band_map_processor :: "nat \<Rightarrow> band_map option processor" where
  "band_map_processor now =
     \<lparr>on_log_loaded = (\<lambda>l arc contacts bm. (contacts, sync_band_map now l contacts bm)),
      on_contacts_upserted = (\<lambda>l arc contacts committed previous bm.
        ([], contacts, sync_band_map now l contacts bm)),
      on_contact_deleted = (\<lambda>l arc contacts deleted bm. ([], contacts, sync_band_map now l contacts bm)),
      on_log_removed = (\<lambda>l bm. sync_band_map now l [] bm)\<rparr>"

text \<open>A processor on the part of a state that \<open>get\<close> reads and \<open>put\<close> writes.\<close>

definition on_part :: "('s \<Rightarrow> 'p) \<Rightarrow> ('p \<Rightarrow> 's \<Rightarrow> 's) \<Rightarrow> 'p processor \<Rightarrow> 's processor" where
  "on_part get put p =
     \<lparr>on_log_loaded = (\<lambda>l arc contacts s.
        (case on_log_loaded p l arc contacts (get s) of (contacts, q) \<Rightarrow> (contacts, put q s))),
      on_contacts_upserted = (\<lambda>l arc contacts committed previous s.
        (case on_contacts_upserted p l arc contacts committed previous (get s) of
           (changed, contacts, q) \<Rightarrow> (changed, contacts, put q s))),
      on_contact_deleted = (\<lambda>l arc contacts deleted s.
        (case on_contact_deleted p l arc contacts deleted (get s) of
           (changed, contacts, q) \<Rightarrow> (changed, contacts, put q s))),
      on_log_removed = (\<lambda>l s. put (on_log_removed p l (get s)) s)\<rparr>"

definition registered :: "nat \<Rightarrow> processors_state processor list" where
  "registered now =
     [on_part pr_scores (\<lambda>x. pr_scores_update (\<lambda>_. x)) score_processor,
      on_part pr_stats (\<lambda>x. pr_stats_update (\<lambda>_. x)) stats_processor,
      on_part pr_band_map (\<lambda>x. pr_band_map_update (\<lambda>_. x)) (band_map_processor now),
      on_part pr_scp (\<lambda>x. pr_scp_update (\<lambda>_. x)) scp_processor]"

section \<open>The score only changes the scores\<close>

lemma same_record_meta:
  "key \<noteq> ''id'' \<Longrightarrow> same_record (set_contact_meta c key v) c"
  by (simp add: same_record_def)

lemma same_record_trans: "same_record c d \<Longrightarrow> same_record d e \<Longrightarrow> same_record c e"
  by (simp add: same_record_def)

lemma same_record_scores: "same_record (set_contact_score_fields c p m b d) c"
  by (simp add: same_record_def set_contact_score_fields_def Let_def)

lemma same_records_Cons: "same_record c d \<Longrightarrow> same_records cs ds \<Longrightarrow> same_records (c # cs) (d # ds)"
  by (simp add: same_records_def)

lemma same_records_update:
  assumes "same_records cs ds" and "index < length cs \<Longrightarrow> same_record c (cs ! index)"
  shows "same_records (cs[index := c]) ds"
proof (cases "index < length cs")
  case True
  have "same_record (cs[index := c] ! i) (cs ! i)" if "i < length cs" for i
    using that assms(2) [OF True] by (cases "i = index") simp_all
  then have "same_records (cs[index := c]) cs"
    by (simp add: same_records_def list_all2_conv_all_nth)
  then show ?thesis using assms(1) same_records_trans by blast
next
  case False
  then have "cs[index := c] = cs" by (simp add: list_update_beyond not_less)
  then show ?thesis using assms(1) by (simp only:)
qed

lemma inc_add_contact_same: "inc_add_contact st c = (st', c') \<Longrightarrow> same_record c' c"
  by (auto simp: inc_add_contact_def Let_def count_non_dupe_def same_record_scores split: prod.splits if_splits)

lemma inc_add_contacts_same: "inc_add_contacts st cs = (st', cs') \<Longrightarrow> same_records cs' cs"
proof (induction cs arbitrary: st st' cs')
  case (Cons c cs)
  obtain st1 c1 where one: "inc_add_contact st c = (st1, c1)" by fastforce
  obtain st2 cs2 where rest: "inc_add_contacts st1 cs = (st2, cs2)" by fastforce
  have "cs' = c1 # cs2" using Cons.prems one rest by simp
  with Cons.IH [OF rest] inc_add_contact_same [OF one] show ?case by (simp add: same_records_Cons)
qed simp

lemma inc_reset_same: "inc_reset st arc cs = (st', cs') \<Longrightarrow> same_records cs' cs"
  unfolding inc_reset_def by (rule inc_add_contacts_same)

definition work_contacts :: "work \<Rightarrow> contact list" where
  "work_contacts w = fst (snd w)"

lemma promote_same: "same_records (work_contacts (promote_contact index w)) (work_contacts w)"
proof -
  obtain st cs changed where w: "w = (st, cs, changed)" by (metis prod.collapse)
  show ?thesis
    by (auto simp: w promote_contact_def work_contacts_def Let_def count_non_dupe_def same_record_scores
        split: prod.split intro!: same_records_update)
qed

lemma reassign_multiplier_same: "same_records (work_contacts (reassign_multiplier skip key w)) (work_contacts w)"
proof -
  obtain st cs changed where w: "w = (st, cs, changed)" by (metis prod.collapse)
  show ?thesis
    by (auto simp: w reassign_multiplier_def work_contacts_def increment_contact_score_field_def same_record_meta
        split: option.split intro!: same_records_update)
qed

lemma reassign_bonus_same: "same_records (work_contacts (reassign_bonus skip key w)) (work_contacts w)"
proof -
  obtain st cs changed where w: "w = (st, cs, changed)" by (metis prod.collapse)
  show ?thesis
    by (auto simp: w reassign_bonus_def work_contacts_def increment_contact_score_field_def same_record_meta
        split: option.split prod.split intro!: same_records_update)
qed

lemma fold_same:
  assumes "\<And>x w. same_records (work_contacts (f x w)) (work_contacts w)"
  shows "same_records (work_contacts (fold f xs w)) (work_contacts w)"
proof (induction xs arbitrary: w)
  case (Cons x xs)
  from same_records_trans [OF Cons.IH assms] show ?case by simp
qed simp

lemma inc_remove_same: "same_records (work_contacts (inc_remove_contact deleted skip w)) (work_contacts w)"
proof -
  obtain st cs changed where w: "w = (st, cs, changed)" by (metis prod.collapse)
  obtain replacement st1 where d: "release_dupe (forget_scores st deleted) deleted cs skip = (replacement, st1)"
    by fastforce
  have promote: "same_records (work_contacts (case replacement of
      Some index \<Rightarrow> promote_contact index (st2, cs, changed) | None \<Rightarrow> (st2, cs, changed))) cs" for st2
    using promote_same [of _ "(st2, cs, changed)"] by (auto simp: work_contacts_def split: option.split)
  have folds: "same_records (work_contacts (fold (reassign_bonus skip) bs (fold (reassign_multiplier skip) ms v))) (work_contacts v)"
    for bs ms v
    by (rule same_records_trans [OF fold_same fold_same])
      (rule reassign_bonus_same, rule reassign_multiplier_same)
  have res: "same_records a cs"
    if "fold (reassign_bonus skip) bs (fold (reassign_multiplier skip) ms
        (case replacement of Some index \<Rightarrow> promote_contact index (st2, cs, changed) | None \<Rightarrow> (st2, cs, changed))) = (x, a, b)"
    for bs ms st2 x a b
    using same_records_trans [OF folds promote, of bs ms st2] that by (simp add: work_contacts_def)
  show ?thesis
    by (auto simp: w inc_remove_contact_def Let_def d work_contacts_def split: prod.split dest!: res)
qed

lemma readd_same: "readd_committed committed st cs = (st', cs') \<Longrightarrow> same_records cs' cs"
proof (induction committed st cs arbitrary: st' cs' rule: readd_committed.induct)
  case (1 st cs)
  then show ?case by simp
next
  case (2 c rest st cs)
  show ?case
  proof (cases "Option.bind (contact_id c) (\<lambda>i. position (\<lambda>c. contact_id c = Some i) cs)")
    case None
    then have "readd_committed rest st cs = (st', cs')"
      using "2.prems" by (auto split: option.splits bind_splits)
    moreover from None have "contact_id c = None \<or> (\<exists>i. contact_id c = Some i \<and> position (\<lambda>c. contact_id c = Some i) cs = None)"
      by (auto split: bind_splits)
    ultimately show ?thesis using "2.IH"(1,2) by blast
  next
    case (Some index)
    then obtain i where i: "contact_id c = Some i" "position (\<lambda>c. contact_id c = Some i) cs = Some index"
      by (auto split: bind_splits)
    obtain st1 c1 where one: "inc_add_contact st (cs ! index) = (st1, c1)" by fastforce
    have rest: "readd_committed rest st1 (cs[index := c1]) = (st', cs')" using "2.prems" i one by simp
    have "same_records (cs[index := c1]) cs"
      using inc_add_contact_same [OF one] by (intro same_records_update) simp_all
    with "2.IH"(3) [OF i one [symmetric] refl rest] show ?thesis by (rule same_records_trans)
  qed
qed

section \<open>The contract holds\<close>

lemma score_loaded_same: "same_records (fst (score_on_log_loaded l arc cs logs)) cs"
proof -
  obtain st cs' where r: "inc_reset (tracker_state logs l arc) arc cs = (st, cs')" by fastforce
  from inc_reset_same [OF r] r show ?thesis by (simp add: score_on_log_loaded_def)
qed

lemma fold_remove_same:
  "same_records (work_contacts (fold (\<lambda>p. inc_remove_contact p (contact_id p)) ps w)) (work_contacts w)"
  by (rule fold_same) (rule inc_remove_same)

lemma score_upserted_same:
  "same_records (fst (snd (score_on_contacts_upserted l arc cs committed previous logs))) cs"
proof -
  let ?st = "tracker_state logs l arc"
  obtain st1 cs1 where first: "(if arc_address (inc_module ?st) \<noteq> arc_address arc then inc_reset ?st arc cs
      else (?st, cs)) = (st1, cs1)" by fastforce
  have one: "same_records cs1 cs" using first inc_reset_same by (auto split: if_splits)
  show ?thesis
  proof (cases "has_capped_multipliers (inc_mod st1)")
    case True
    obtain st2 cs2 where r: "inc_reset st1 arc cs1 = (st2, cs2)" by fastforce
    from same_records_trans [OF inc_reset_same [OF r] one] r first True show ?thesis
      by (simp add: score_on_contacts_upserted_def)
  next
    case False
    obtain st2 cs2 changed where f: "fold (\<lambda>p. inc_remove_contact p (contact_id p))
        (List.map_filter id previous) (st1, cs1, []) = (st2, cs2, changed)" by (metis prod.collapse)
    obtain st3 cs3 where a: "readd_committed committed st2 cs2 = (st3, cs3)" by fastforce
    have "same_records cs2 cs1" using fold_remove_same [of "List.map_filter id previous" "(st1, cs1, [])"] f
      by (simp add: work_contacts_def)
    with readd_same [OF a] one have "same_records cs3 cs" using same_records_trans by blast
    then show ?thesis using first False f a by (simp add: score_on_contacts_upserted_def)
  qed
qed

lemma score_deleted_same: "same_records (fst (snd (score_on_contact_deleted l arc cs deleted logs))) cs"
proof (cases "hm_get logs l")
  case None
  then show ?thesis by (simp add: score_on_contact_deleted_def)
next
  case (Some st)
  obtain st1 cs1 where r: "inc_reset st arc cs = (st1, cs1)" by fastforce
  obtain st2 cs2 changed where d: "inc_remove_contact deleted None (st, cs, []) = (st2, cs2, changed)"
    by (metis prod.collapse)
  have "same_records cs2 cs" using inc_remove_same [of deleted None "(st, cs, [])"] d by (simp add: work_contacts_def)
  with inc_reset_same [OF r] show ?thesis by (simp add: score_on_contact_deleted_def Some r d)
qed

lemma registered_cases:
  assumes "p \<in> set (registered now)"
  obtains (score) "p = on_part pr_scores (\<lambda>x. pr_scores_update (\<lambda>_. x)) score_processor"
    | (stats) "p = on_part pr_stats (\<lambda>x. pr_stats_update (\<lambda>_. x)) stats_processor"
    | (band_map) "p = on_part pr_band_map (\<lambda>x. pr_band_map_update (\<lambda>_. x)) (band_map_processor now)"
    | (scp) "p = on_part pr_scp (\<lambda>x. pr_scp_update (\<lambda>_. x)) scp_processor"
  using assms by (auto simp: registered_def)

lemmas part_defs = on_part_def score_processor_def stats_processor_def band_map_processor_def scp_processor_def

interpretation running: log_processors "registered now" for now
proof unfold_locales
  fix p :: "processors_state processor" and l arc cs s committed previous deleted
  assume p: "p \<in> set (registered now)"
  from p show "same_records (fst (on_log_loaded p l arc cs s)) cs"
    using score_loaded_same [of l arc cs "pr_scores s"]
    by (cases rule: registered_cases) (simp_all add: part_defs case_prod_unfold)
  from p show "same_records (fst (snd (on_contacts_upserted p l arc cs committed previous s))) cs"
    using score_upserted_same [of l arc cs committed previous "pr_scores s"]
    by (cases rule: registered_cases) (simp_all add: part_defs case_prod_unfold)
  from p show "same_records (fst (snd (on_contact_deleted p l arc cs deleted s))) cs"
    using score_deleted_same [of l arc cs deleted "pr_scores s"]
    by (cases rule: registered_cases) (simp_all add: part_defs case_prod_unfold)
qed

section \<open>The statistics follow the cached logs\<close>

lemma stats_entry_same:
  assumes "same_record c d"
  shows "stats_entry_of c = stats_entry_of d"
proof -
  have adif: "contact_adif_value c = contact_adif_value d"
    using assms by (simp add: same_record_def contact_adif_value_def fun_eq_iff)
  have i: "contact_id c = contact_id d" using assms by (simp add: same_record_def)
  show ?thesis unfolding stats_entry_of_def adif i by (rule refl)
qed

lemma from_contacts_same: "same_records cs ds \<Longrightarrow> from_contacts cs = from_contacts ds"
proof -
  assume "same_records cs ds"
  then have "List.map_filter stats_entry_of cs = List.map_filter stats_entry_of ds"
    unfolding same_records_def
    by (induction rule: list_all2_induct) (simp_all add: map_filter_simps stats_entry_same split: option.split)
  then show ?thesis by (simp add: from_contacts_def)
qed

lemma from_contacts_set:
  "contact_ids_ok cs \<Longrightarrow> contact_ids_ok ds \<Longrightarrow> set cs = set ds \<Longrightarrow> from_contacts cs = from_contacts ds"
  by (rule entries_ok_unique) (simp_all add: from_contacts_ok log_entries_def)

lemma run_loaded_stats:
  assumes "run_loaded (registered now) l arc cs s = (ds, s')"
  shows "pr_stats s' = hm_put l (from_contacts ds) (pr_stats s)"
proof -
  obtain cs1 logs where score: "score_on_log_loaded l arc cs (pr_scores s) = (cs1, logs)" by fastforce
  from assms score show ?thesis by (auto simp: registered_def part_defs)
qed

lemma run_upserted_stats:
  assumes "run_upserted (registered now) l arc committed previous cs s = (changed, ds, s')"
  shows "pr_stats s' = hm_put l (stats_apply_upserts committed previous
    (case hm_get (pr_stats s) l of Some entries \<Rightarrow> entries | None \<Rightarrow> [])) (pr_stats s)"
proof -
  obtain ch cs1 logs where score: "score_on_contacts_upserted l arc cs committed previous (pr_scores s) = (ch, cs1, logs)"
    by (metis prod.collapse)
  from assms score show ?thesis by (auto simp: registered_def part_defs)
qed

lemma run_deleted_stats:
  assumes "run_deleted (registered now) l arc deleted cs s = (changed, ds, s')"
    and "hm_get (pr_stats s) l = Some entries" and "contact_id deleted = Some i"
  shows "pr_stats s' = hm_put l (stats_remove_contact i entries) (pr_stats s)"
proof -
  obtain ch cs1 logs where score: "score_on_contact_deleted l arc cs deleted (pr_scores s) = (ch, cs1, logs)"
    by (metis prod.collapse)
  from assms score show ?thesis by (auto simp: registered_def part_defs)
qed

lemma run_removed_stats: "pr_stats (run_removed (registered now) l s) = hm_remove l (pr_stats s)"
  by (simp add: run_removed_def registered_def part_defs)

definition stats_follow :: "processors_state log_cache \<Rightarrow> bool" where
  "stats_follow lc \<longleftrightarrow> cache_ok lc \<and> (\<forall>l cl. hm_get (lc_logs lc) l = Some cl \<longrightarrow>
     hm_get (pr_stats (lc_state lc)) l = Some (from_contacts (cl_contacts cl)))"

lemma stats_follow_put:
  assumes "stats_follow lc" and "cached_log_ok cl" and "pr_stats s = hm_put l (from_contacts (cl_contacts cl)) stats"
    and "\<And>k. k \<noteq> l \<Longrightarrow> hm_get stats k = hm_get (pr_stats (lc_state lc)) k"
  shows "stats_follow (lc\<lparr>lc_logs := hm_put l cl (lc_logs lc), lc_state := s\<rparr>)"
  using assms cache_ok_put [where lc = lc and cl = cl and l = l and s = s] by (auto simp: stats_follow_def hm_get_put)

lemma stats_follow_remove:
  assumes "stats_follow lc" and "\<And>k. k \<noteq> l \<Longrightarrow> hm_get (pr_stats s) k = hm_get (pr_stats (lc_state lc)) k"
  shows "stats_follow (lc\<lparr>lc_logs := hm_remove l (lc_logs lc), lc_state := s\<rparr>)"
  using assms cache_ok_remove [where lc = lc and l = l and s = s] by (auto simp: stats_follow_def hm_get_remove)

lemma ensure_stats_follow:
  assumes follow: "stats_follow lc" and views: "\<And>v. v \<in> set views \<Longrightarrow> view_ok v"
    and run: "ensure_loaded_locked env (registered now) l current views lc = (r, lc')"
  shows "stats_follow lc'"
proof (cases "is_loaded current l lc")
  case True
  with follow run show ?thesis by (simp add: ensure_loaded_locked_def)
next
  case False
  then have "ensure_loop env (registered now) l views lc = (r, lc')" using run by (simp add: ensure_loaded_locked_def)
  with follow show ?thesis
  proof (rule ensure_loop_induct)
    fix lc :: "processors_state log_cache" assume follow: "stats_follow lc"
    then show "stats_follow (lc\<lparr>lc_modules := mods\<rparr>)" for mods by (simp add: stats_follow_def)
    show "stats_follow (clear_log (registered now) l lc)"
      unfolding clear_log_def by (rule stats_follow_remove [OF follow]) (simp add: run_removed_stats hm_get_remove)
    fix v snap arc cs ds s mods
    assume v: "v \<in> set views" "view_snapshot v = Inr (Some snap)"
      and ll: "load_log env snap mods = (Inr (arc, cs), lc_modules lc)"
      and run: "run_loaded (registered now) l arc cs (lc_state lc) = (ds, s)"
    have "contacts_ok (snap_contacts snap)" using views [OF v(1)] v(2) by (simp add: view_ok_def)
    from load_log_ids(1) [OF ll this] have "contact_ids_ok cs" .
    moreover have "same_records ds cs" using running.run_loaded_same [of "registered now" now l arc cs "lc_state lc"] run by simp
    ultimately have ids: "contact_ids_ok ds" using same_records_ids_ok by blast
    note stats = run_loaded_stats [OF run]
    let ?cl = "(new_cached_log arc (sort_contacts_desc ds))\<lparr>cl_revision := snap_revision snap\<rparr>"
    have "from_contacts (cl_contacts ?cl) = from_contacts ds"
      unfolding new_cached_log_def rebuild_indexes_def
      using from_contacts_set [OF contact_ids_ok_mset [OF ids, of "sort_contacts_desc ds"] ids] by simp
    then have "stats_follow (lc\<lparr>lc_logs := hm_put l ?cl (lc_logs lc), lc_state := s\<rparr>)"
      by (intro stats_follow_put [OF follow new_cached_log_ok [OF ids]]) (simp_all only: stats)
    moreover have "stats_follow (lc\<lparr>lc_logs := hm_remove l (lc_logs lc), lc_state := run_removed (registered now) l s\<rparr>)"
      by (rule stats_follow_remove [OF follow]) (simp add: run_removed_stats stats hm_get_remove hm_get_put)
    ultimately show "stats_follow (lc\<lparr>lc_logs := hm_remove l (lc_logs lc), lc_state := run_removed (registered now) l s\<rparr>)
      \<and> stats_follow (lc\<lparr>lc_logs := hm_put l ?cl (lc_logs lc), lc_state := s\<rparr>)" by blast
  qed
qed

lemma upsert_stats:
  assumes ok: "cached_log_ok cl" and stats: "hm_get (pr_stats s) l = Some (from_contacts (cl_contacts cl))"
    and run: "upsert_cached_log (registered now) l revision committed cl s = (result, cl', s')"
  shows "cached_log_ok cl' \<and> pr_stats s' = hm_put l (from_contacts (cl_contacts cl')) (pr_stats s)"
proof -
  define final where "final = final_contacts committed"
  define previous where "previous = map (\<lambda>c. Option.bind (contact_id c) (contact_by_id cl)) final"
  obtain dirty c1 where a: "apply_upserted_contacts final previous cl = (dirty, c1)" by fastforce
  have final: "contact_ids_ok final" by (simp add: final_def final_contacts_facts)
  have ids: "contact_ids_ok (cl_contacts cl)" using ok by (simp add: cached_log_ok_def)
  note c1 = apply_upserted_ok [OF ok final previous_def a]
  obtain changed cs s1 where r: "run_upserted (registered now) l (cl_module c1) final previous (cl_contacts c1) s = (changed, cs, s1)"
    by (metis prod.collapse)
  have same: "same_records cs (cl_contacts c1)"
    using running.run_upserted_same [of "registered now" now l "cl_module c1" final previous "cl_contacts c1" s] r by simp
  have cl': "cl_contacts cl' = cs" "s' = s1"
    using run a r by (auto simp: upsert_cached_log_def Let_def final_def [symmetric] previous_def [symmetric] rebuild_indexes_def)
  have "contact_by_id cl = contact_with (cl_contacts cl)" using contact_by_id_with [OF ok] by (rule ext)
  then have "previous = map (\<lambda>c. Option.bind (contact_id c) (contact_with (cl_contacts cl))) final"
    by (simp only: previous_def)
  from stats_upserts_batch [OF ids _ final this, of "cl_contacts c1"] c1
  have "stats_apply_upserts final previous (from_contacts (cl_contacts cl)) = from_contacts (cl_contacts c1)" by blast
  then have "pr_stats s1 = hm_put l (from_contacts cs) (pr_stats s)"
    using run_upserted_stats [OF r] stats from_contacts_same [OF same] by simp
  moreover have "cached_log_ok cl'" using running.upsert_ok [OF ok run] by blast
  ultimately show ?thesis by (simp add: cl')
qed

lemma delete_stats:
  assumes ok: "cached_log_ok cl" and stats: "hm_get (pr_stats s) l = Some (from_contacts (cl_contacts cl))"
    and run: "delete_cached_contact (registered now) l revision i cl s = Some (changed, cl', s')"
  shows "cached_log_ok cl' \<and> pr_stats s' = hm_put l (from_contacts (cl_contacts cl')) (pr_stats s)"
proof -
  have ids: "contact_ids_ok (cl_contacts cl)" using ok by (simp add: cached_log_ok_def)
  obtain n where "position (\<lambda>c. contact_id c = Some i) (cl_contacts cl) = Some n"
    using run by (auto simp: delete_cached_contact_def split: option.splits)
  then have n: "n < length (cl_contacts cl)" "contact_id (cl_contacts cl ! n) = Some i"
    and pos: "position (\<lambda>c. contact_id c = Some i) (cl_contacts cl) = Some n"
    using position_ids [OF ids] by auto
  let ?cs = "remove_at n (cl_contacts cl)"
  note rm = running.remove_at_ids [OF ids n(1)]
  obtain ch cs s1 where r: "run_deleted (registered now) l (cl_module cl) (cl_contacts cl ! n) ?cs s = (ch, cs, s1)"
    by (metis prod.collapse)
  have same: "same_records cs ?cs"
    using running.run_deleted_same [of "registered now" now l "cl_module cl" "cl_contacts cl ! n" ?cs s] r by simp
  have cl': "cl_contacts cl' = cs" "s' = s1"
    using run pos r by (auto simp: delete_cached_contact_def rebuild_indexes_def)
  have "contact_with ?cs = (contact_with (cl_contacts cl))(i := None)" using rm n(2) by (auto simp: fun_eq_iff)
  with rm have "stats_remove_contact i (from_contacts (cl_contacts cl)) = from_contacts ?cs"
    by (intro stats_delete_batch [OF ids]) simp_all
  then have "pr_stats s1 = hm_put l (from_contacts cs) (pr_stats s)"
    using run_deleted_stats [OF r stats n(2)] from_contacts_same [OF same] by simp
  moreover have "cached_log_ok cl'" using running.delete_ok [OF ok run] by blast
  ultimately show ?thesis by (simp add: cl')
qed

section \<open>Reachable caches\<close>

inductive lc_reachable :: "log_cache_env \<Rightarrow> processors_state log_cache \<Rightarrow> bool" for env where
  start: "lc_reachable env \<lparr>lc_logs = [], lc_modules = mods, lc_state = s\<rparr>"
| upsert: "lc_reachable env lc \<Longrightarrow> (\<And>v. v \<in> set (views @ views') \<Longrightarrow> view_ok v) \<Longrightarrow>
    log_cache_upsert env (registered now) l current views store revision current' views' contacts lc = (r, lc') \<Longrightarrow>
    lc_reachable env lc'"
| delete: "lc_reachable env lc \<Longrightarrow> (\<And>v. v \<in> set (views @ views') \<Longrightarrow> view_ok v) \<Longrightarrow>
    log_cache_delete env (registered now) i owner current views deleted revision current' views' lc = (r, lc') \<Longrightarrow>
    lc_reachable env lc'"
| page: "lc_reachable env lc \<Longrightarrow> (\<And>v. v \<in> set views \<Longrightarrow> view_ok v) \<Longrightarrow>
    contacts_display_page env (registered now) l current views offset limit wanted lc = (r, lc') \<Longrightarrow>
    lc_reachable env lc'"
| removed: "lc_reachable env lc \<Longrightarrow> lc_reachable env (clear_log (registered now) l lc)"

lemma clear_stats_follow: "stats_follow lc \<Longrightarrow> stats_follow (clear_log (registered now) l lc)"
  unfolding clear_log_def by (rule stats_follow_remove) (simp_all add: run_removed_stats hm_get_remove)

lemma applied_stats_follow:
  assumes "stats_follow lc" and "hm_get (lc_logs lc) l = Some cl"
    and "cached_log_ok cl \<Longrightarrow> hm_get (pr_stats (lc_state lc)) l = Some (from_contacts (cl_contacts cl)) \<Longrightarrow>
      cached_log_ok cl' \<and> pr_stats s' = hm_put l (from_contacts (cl_contacts cl')) (pr_stats (lc_state lc))"
  shows "stats_follow (lc\<lparr>lc_logs := hm_put l cl' (lc_logs lc), lc_state := s'\<rparr>)"
proof -
  have "cached_log_ok cl" "hm_get (pr_stats (lc_state lc)) l = Some (from_contacts (cl_contacts cl))"
    using assms(1,2) by (auto simp: stats_follow_def cache_ok_def)
  from assms(3) [OF this] show ?thesis by (intro stats_follow_put [OF assms(1)]) simp_all
qed

lemma reachable_stats_follow: "lc_reachable env lc \<Longrightarrow> stats_follow lc"
proof (induction rule: lc_reachable.induct)
  case (start mods s)
  then show ?case by (simp add: stats_follow_def cache_ok_empty)
next
  case (upsert lc views views' now l current store revision current' contacts r lc')
  obtain r1 lc1 where e: "ensure_loaded_locked env (registered now) l current views lc = (r1, lc1)" by fastforce
  have f1: "stats_follow lc1" by (rule ensure_stats_follow [OF upsert.IH _ e]) (simp add: upsert.hyps(2))
  obtain r2 lc2 where e2: "ensure_loaded_locked env (registered now) l current' views' lc1 = (r2, lc2)" by fastforce
  have f2: "stats_follow lc2" by (rule ensure_stats_follow [OF f1 _ e2]) (simp add: upsert.hyps(2))
  from upsert.hyps(3) e e2 show ?case
  proof (cases rule: cache_upsert_cases)
    case (applied cl revision' committed result cl' s')
    show ?thesis unfolding applied(3) by (rule applied_stats_follow [OF f1 applied(1)]) (rule upsert_stats [OF _ _ applied(2)])
  qed (use f1 f2 in simp_all)
next
  case (delete lc views views' now i owner current deleted revision current' r lc')
  show ?case
  proof (cases "\<exists>l. owner = Inr (Some l)")
    case False
    then have "owner = Inr None \<or> (\<exists>e. owner = Inl e)" by (cases owner) auto
    then have "lc' = lc" using delete.hyps(3) log_cache_delete_unknown by (metis snd_conv)
    with delete.IH show ?thesis by simp
  next
    case True
    then obtain l where l: "owner = Inr (Some l)" by blast
    obtain r1 lc1 where e: "ensure_loaded_locked env (registered now) l current views lc = (r1, lc1)" by fastforce
    have f1: "stats_follow lc1" by (rule ensure_stats_follow [OF delete.IH _ e]) (simp add: delete.hyps(2))
    obtain r2 lc2 where e2: "ensure_loaded_locked env (registered now) l current' views' lc1 = (r2, lc2)" by fastforce
    have f2: "stats_follow lc2" by (rule ensure_stats_follow [OF f1 _ e2]) (simp add: delete.hyps(2))
    from delete.hyps(3) [unfolded l] e e2 show ?thesis
    proof (cases rule: cache_delete_cases)
      case (applied cl revision' changed cl' s')
      show ?thesis unfolding applied(3) by (rule applied_stats_follow [OF f1 applied(1)]) (rule delete_stats [OF _ _ applied(2)])
    qed (use f1 f2 in simp_all)
  qed
next
  case (page lc views now l current offset limit wanted r lc')
  obtain r1 lc1 where e: "ensure_loaded_locked env (registered now) l current views lc = (r1, lc1)" by fastforce
  have f1: "stats_follow lc1" by (rule ensure_stats_follow [OF page.IH page.hyps(2) e])
  have "lc' = lc \<or> lc' = lc1"
    using page.hyps(3) by (auto simp: contacts_display_page_def e split: if_splits option.splits sum.splits unit.splits)
  with f1 page.IH show ?case by blast
next
  case (removed lc now l)
  show ?case by (rule clear_stats_follow [OF removed.IH])
qed

text \<open>
  C2. Whatever operations ran on the log cache, with other tasks using the database meanwhile,
  every cached log lists its contacts newest first, each id once, finds every contact by its id,
  and its statistics are exactly those of the cached contacts.
\<close>

theorem cached_log_consistent:
  assumes "lc_reachable env lc" and "hm_get (lc_logs lc) l = Some cl"
  shows "sorted_wrt (\<lambda>c d. contact_order_key d \<le> contact_order_key c) (cl_contacts cl)
    \<and> distinct (map contact_id (cl_contacts cl))
    \<and> contact_by_id cl i = find (\<lambda>c. contact_id c = Some i) (cl_contacts cl)
    \<and> hm_get (pr_stats (lc_state lc)) l = Some (from_contacts (cl_contacts cl))"
proof -
  have f: "stats_follow lc" by (rule reachable_stats_follow [OF assms(1)])
  then have ok: "cached_log_ok cl" using assms(2) by (auto simp: stats_follow_def cache_ok_def)
  have "newer = (\<lambda>c d. contact_order_key d \<le> contact_order_key c)" by (intro ext) (simp add: newer_def)
  then have "sorted_wrt (\<lambda>c d. contact_order_key d \<le> contact_order_key c) (cl_contacts cl)"
    using ok by (simp add: cached_log_ok_def cv_ordered)
  moreover have "contact_by_id cl i = find (\<lambda>c. contact_id c = Some i) (cl_contacts cl)"
    using contact_by_id_with [OF ok] by (simp add: contact_with_def)
  ultimately show ?thesis
    using ok f assms(2) by (simp add: cached_log_ok_def contact_ids_ok_def stats_follow_def)
qed

text \<open>
  C3. On a loaded log a stored batch updates the cached records exactly as the batch says, the
  last contact of an id winning, and a deletion removes exactly the deleted record, whatever the
  processors do to the scores; the log gets the revision of the change.
\<close>

theorem cached_log_refines:
  assumes "cache_ok lc" and "hm_get (lc_logs lc) l = Some cl"
    and "store (enrich_missing_dxcc (dxcc_db env) contacts) = Inr mutation"
    and "mut_previous_revision mutation = cl_revision cl"
    and "del_log_id d = l" and "del_previous_revision d = cl_revision cl"
    and "adif_with (cl_contacts cl) i \<noteq> None"
  shows "\<exists>result lc1 cl1 changed lc2 cl2.
    log_cache_upsert env (registered now) l (Some (cl_revision cl)) views store (Some (mut_revision mutation))
        current' views' contacts lc = (Some (Inr result), lc1)
    \<and> hm_get (lc_logs lc1) l = Some cl1 \<and> cl_revision cl1 = mut_revision mutation
    \<and> adif_with (cl_contacts cl1) = records_after (mut_contacts mutation) (cl_contacts cl)
    \<and> log_cache_delete env (registered now) i (Inr (Some l)) (Some (cl_revision cl)) views (Inr (Some d))
        (Some (del_revision d)) current' views' lc = (Some (Inr (Some (l, changed))), lc2)
    \<and> hm_get (lc_logs lc2) l = Some cl2 \<and> cl_revision cl2 = del_revision d
    \<and> adif_with (cl_contacts cl2) = (adif_with (cl_contacts cl))(i := None)"
proof -
  have "\<exists>result lc' cl'.
    log_cache_upsert env (registered now) l (Some (cl_revision cl)) views store (Some (mut_revision mutation))
        current' views' contacts lc = (Some (Inr result), lc')
    \<and> hm_get (lc_logs lc') l = Some cl' \<and> cached_log_ok cl' \<and> cl_revision cl' = mut_revision mutation
    \<and> (\<forall>i. adif_with (cl_contacts cl') i = records_after (mut_contacts mutation) (cl_contacts cl) i)"
    by (rule running.cache_upsert_applies) (simp_all add: assms)
  then obtain result lc1 cl1 where up:
    "log_cache_upsert env (registered now) l (Some (cl_revision cl)) views store (Some (mut_revision mutation))
        current' views' contacts lc = (Some (Inr result), lc1)"
    "hm_get (lc_logs lc1) l = Some cl1" "cl_revision cl1 = mut_revision mutation"
    and records: "\<forall>i. adif_with (cl_contacts cl1) i = records_after (mut_contacts mutation) (cl_contacts cl) i" by blast
  have "\<exists>changed lc' cl'.
    log_cache_delete env (registered now) i (Inr (Some l)) (Some (cl_revision cl)) views (Inr (Some d))
        (Some (del_revision d)) current' views' lc = (Some (Inr (Some (l, changed))), lc')
    \<and> hm_get (lc_logs lc') l = Some cl' \<and> cached_log_ok cl' \<and> cl_revision cl' = del_revision d
    \<and> adif_with (cl_contacts cl') = (adif_with (cl_contacts cl))(i := None)"
    by (rule running.cache_delete_applies [OF assms(1,2)]) (simp_all add: assms)
  then obtain changed lc2 cl2 where
    "log_cache_delete env (registered now) i (Inr (Some l)) (Some (cl_revision cl)) views (Inr (Some d))
        (Some (del_revision d)) current' views' lc = (Some (Inr (Some (l, changed))), lc2)"
    "hm_get (lc_logs lc2) l = Some cl2" "cl_revision cl2 = del_revision d"
    "adif_with (cl_contacts cl2) = (adif_with (cl_contacts cl))(i := None)" by blast
  moreover from records have "adif_with (cl_contacts cl1) = records_after (mut_contacts mutation) (cl_contacts cl)"
    by (simp add: fun_eq_iff)
  ultimately show ?thesis using up by blast
qed

definition ends_load :: "log_cache_env \<Rightarrow> db_view \<Rightarrow> bool" where
  "ends_load env v \<longleftrightarrow>
     (case view_snapshot v of
        Inl _ \<Rightarrow> True
      | Inr None \<Rightarrow> True
      | Inr (Some snap) \<Rightarrow> rules_store env (lg_contest_id (snap_log snap)) = None \<or> steady v snap)"

lemma ensure_loop_ends:
  "ends_load env v \<Longrightarrow> v \<in> set views \<Longrightarrow> fst (ensure_loop env procs l views lc) \<noteq> None"
proof (induction views arbitrary: lc)
  case (Cons w views)
  show ?case
  proof (cases "v = w")
    case False
    then have "v \<in> set views" using Cons.prems(2) by simp
    from Cons.IH [OF Cons.prems(1) this] show ?thesis
      by (auto simp: Let_def split: sum.split option.split prod.split)
  next
    case True
    then show ?thesis using Cons.prems(1)
      by (auto simp: ends_load_def steady_def load_log_def Let_def split: sum.splits option.splits prod.splits)
  qed
qed simp

text \<open>
  C11. Loading a log ends as soon as the database answers one round with an unchanging snapshot of
  a known contest, a missing log or an error; a load that succeeds leaves the log with the
  revision and, DXCC data filled in, exactly the records of such a snapshot.
\<close>

theorem load_ends:
  assumes "cache_ok lc" and "\<And>v. v \<in> set views \<Longrightarrow> view_ok v"
    and "\<not> is_loaded current l lc" and "v \<in> set views" and "ends_load env v"
  shows "\<exists>result lc'. ensure_loaded_locked env (registered now) l current views lc = (Some result, lc')
    \<and> (result = Inr () \<longrightarrow> (\<exists>v\<in>set views. \<exists>snap cl. steady v snap
          \<and> hm_get (lc_logs lc') l = Some cl \<and> loaded_from env snap cl))"
proof -
  obtain r lc' where run: "ensure_loop env (registered now) l views lc = (r, lc')" by fastforce
  obtain result where r: "r = Some result"
    using ensure_loop_ends [OF assms(5,4), of "registered now" l lc] run by auto
  from running.ensure_loop_ok [OF assms(1,2) run]
  have "r = Some (Inr ()) \<longrightarrow> (\<exists>v\<in>set views. \<exists>snap cl. steady v snap
          \<and> hm_get (lc_logs lc') l = Some cl \<and> loaded_from env snap cl)" by blast
  then show ?thesis using assms(3) run r by (simp add: ensure_loaded_locked_def)
qed

section \<open>Instances\<close>

definition live_env :: log_cache_env where
  "live_env = \<lparr>rules_store = (\<lambda>contest. if contest = ''T'' then Some sample_rules else None),
     distance_fn = no_distance, dxcc_db = \<lparr>entities = [], dxcc_rules = []\<rparr>\<rparr>"

definition no_logs :: "processors_state log_cache" where
  "no_logs = \<lparr>lc_logs = [], lc_modules = \<lparr>next_address = 0, modules = []\<rparr>,
     lc_state = \<lparr>pr_scores = [], pr_stats = [], pr_band_map = Some quiet_map, pr_scp = scp_default\<rparr>\<rparr>"

definition live_snapshot :: "nat \<Rightarrow> contact list \<Rightarrow> log_snapshot" where
  "live_snapshot revision contacts =
     \<lparr>snap_log = \<lparr>lg_id = 1, lg_name = ''Log'', lg_contest_id = ''T'', lg_station_callsign = ''K1ABC'', lg_contest_params = JNull\<rparr>,
      snap_revision = revision,
      snap_contacts = (case new_cached contacts of Some cc \<Rightarrow> cc | None \<Rightarrow> empty_contacts)\<rparr>"

definition live_view :: "nat \<Rightarrow> contact list \<Rightarrow> db_view" where
  "live_view revision contacts =
     \<lparr>view_snapshot = Inr (Some (live_snapshot revision contacts)), revision_before = Some revision,
      revision_after = Some revision\<rparr>"

lemma live_view_ok:
  assumes "\<forall>c\<in>set contacts. contact_id c \<noteq> None \<and> fields_distinct c"
  shows "view_ok (live_view revision contacts)"
proof -
  obtain cc where "upsert_all contacts empty_contacts = Some cc" "contacts_ok cc"
    using upsert_all_ok [OF empty_contacts_ok assms] by blast
  then show ?thesis by (simp add: view_ok_def live_view_def live_snapshot_def new_cached_def)
qed

text \<open>Storing a contact on log 1, at a revision, as the database would.\<close>

definition live_store :: "nat \<Rightarrow> contact list \<Rightarrow> string + contact_mutation" where
  "live_store revision contacts =
     Inr \<lparr>mut_previous_revision = revision, mut_revision = Suc revision, mut_contacts = contacts\<rparr>"

definition live_upsert ::
  "nat \<Rightarrow> contact \<Rightarrow> processors_state log_cache
     \<Rightarrow> (log_cache_error + contact list \<times> contact list) option \<times> processors_state log_cache" where
  "live_upsert revision contact lc =
     log_cache_upsert live_env (registered 300) 1 (Some revision) [live_view revision []]
       (live_store revision) (Some (Suc revision)) None [] [contact] lc"

definition live_cache :: "processors_state log_cache" where
  "live_cache =
     snd (live_upsert 1 (timed_contact 2 200 ''A'') (snd (live_upsert 0 (timed_contact 1 100 ''A'') no_logs)))"

definition reloaded_cache :: "processors_state log_cache" where
  "reloaded_cache =
     snd (ensure_loaded_locked live_env (registered 300) 1 (Some 2)
       [live_view 2 [timed_contact 1 100 ''A'', timed_contact 2 200 ''A'']] no_logs)"

lemma live_cache_reachable: "lc_reachable live_env live_cache"
proof -
  have view: "view_ok (live_view r [])" for r by (rule live_view_ok) simp
  have step: "lc_reachable live_env lc \<Longrightarrow> lc_reachable live_env (snd (live_upsert r c lc))" for r c lc
    unfolding live_upsert_def
    by (rule lc_reachable.upsert [where views = "[live_view r []]" and views' = "[]"]) (auto simp: view intro: prod.collapse [symmetric])
  have "lc_reachable live_env no_logs" unfolding no_logs_def by (rule lc_reachable.start)
  then show ?thesis unfolding live_cache_def by (intro step)
qed

theorem cached_log_consistent_witness:
  "\<exists>cl. hm_get (lc_logs live_cache) 1 = Some cl \<and> length (cl_contacts cl) = 2
     \<and> hm_get (pr_stats (lc_state live_cache)) 1 = Some (from_contacts (cl_contacts cl))"
proof -
  have "map_option (\<lambda>cl. length (cl_contacts cl)) (hm_get (lc_logs live_cache) 1) = Some 2" by code_simp
  then obtain cl where cl: "hm_get (lc_logs live_cache) 1 = Some cl" "length (cl_contacts cl) = 2" by auto
  from cached_log_consistent [OF live_cache_reachable cl(1), of 1] cl show ?thesis by blast
qed

theorem load_ends_witness:
  "\<exists>cl. hm_get (lc_logs reloaded_cache) 1 = Some cl
     \<and> map contact_id (cl_contacts cl) = [Some 2, Some 1] \<and> cl_revision cl = 2"
proof -
  let ?view = "live_view 2 [timed_contact 1 100 ''A'', timed_contact 2 200 ''A'']"
  have "\<forall>c\<in>set [timed_contact 1 100 ''A'', timed_contact 2 200 ''A'']. contact_id c \<noteq> None \<and> fields_distinct c"
    by code_simp
  from live_view_ok [OF this] have view: "view_ok ?view" .
  have ok: "cache_ok no_logs" by (simp add: no_logs_def cache_ok_empty)
  have new: "\<not> is_loaded (Some 2) 1 no_logs" by (simp add: is_loaded_def no_logs_def)
  have ends: "ends_load live_env ?view"
    by (simp add: ends_load_def steady_def live_view_def live_snapshot_def)
  have finished: "fst (ensure_loaded_locked live_env (registered 300) 1 (Some 2) [?view] no_logs) = Some (Inr ())"
    by code_simp
  have views: "view_ok v" if "v \<in> set [?view]" for v using that view by simp
  have "\<exists>result lc'. ensure_loaded_locked live_env (registered 300) 1 (Some 2) [?view] no_logs = (Some result, lc')
    \<and> (result = Inr () \<longrightarrow> (\<exists>v\<in>set [?view]. \<exists>snap cl. steady v snap
          \<and> hm_get (lc_logs lc') 1 = Some cl \<and> loaded_from live_env snap cl))"
    by (rule load_ends [OF ok views new _ ends]) simp_all
  with finished obtain snap cl where
    "hm_get (lc_logs reloaded_cache) 1 = Some cl" "steady ?view snap" "loaded_from live_env snap cl"
    unfolding reloaded_cache_def by auto
  moreover from this have "cl_revision cl = 2"
    by (simp add: loaded_from_def steady_def live_view_def)
  moreover have "map_option (\<lambda>cl. map contact_id (cl_contacts cl)) (hm_get (lc_logs reloaded_cache) 1) = Some [Some 2, Some 1]"
    by code_simp
  ultimately show ?thesis by auto
qed

theorem cached_log_refines_witness:
  "\<exists>cl1 lc1 result. log_cache_upsert live_env (registered 300) 1 (Some 2) [] (live_store 2) (Some 3) None []
      [timed_contact 1 150 ''B''] live_cache = (Some (Inr result), lc1)
     \<and> hm_get (lc_logs lc1) 1 = Some cl1
     \<and> adif_with (cl_contacts cl1) 1 = Some (contact_adif (timed_contact 1 150 ''B''))"
proof -
  have ok: "cache_ok live_cache"
    using reachable_stats_follow [OF live_cache_reachable] by (simp add: stats_follow_def)
  have "map_option cl_revision (hm_get (lc_logs live_cache) 1) = Some 2" by code_simp
  then obtain cl where cl: "hm_get (lc_logs live_cache) 1 = Some cl" "cl_revision cl = 2" by auto
  have "map_option (\<lambda>cl. adif_with (cl_contacts cl) 1 \<noteq> None) (hm_get (lc_logs live_cache) 1) = Some True" by code_simp
  with cl have there: "adif_with (cl_contacts cl) 1 \<noteq> None" by simp
  have same: "enrich_missing_dxcc (dxcc_db live_env) [timed_contact 1 150 ''B''] = [timed_contact 1 150 ''B'']" by code_simp
  let ?d = "\<lparr>del_log_id = 1, del_previous_revision = 2, del_revision = 3\<rparr>"
  let ?m = "\<lparr>mut_previous_revision = 2, mut_revision = Suc 2, mut_contacts = [timed_contact 1 150 ''B'']\<rparr>"
  have store: "live_store 2 (enrich_missing_dxcc (dxcc_db live_env) [timed_contact 1 150 ''B'']) = Inr ?m"
    unfolding same by (simp add: live_store_def)
  have id: "contact_id (timed_contact 1 150 ''B'') = Some 1" by code_simp
  have "records_after (mut_contacts ?m) (cl_contacts cl) 1 = Some (contact_adif (timed_contact 1 150 ''B''))"
    by (simp add: records_after_def contact_with_def id)
  moreover have "\<exists>result lc1 cl1 changed lc2 cl2.
    log_cache_upsert live_env (registered 300) 1 (Some (cl_revision cl)) [] (live_store 2) (Some (mut_revision ?m))
        None [] [timed_contact 1 150 ''B''] live_cache = (Some (Inr result), lc1)
    \<and> hm_get (lc_logs lc1) 1 = Some cl1 \<and> cl_revision cl1 = mut_revision ?m
    \<and> adif_with (cl_contacts cl1) = records_after (mut_contacts ?m) (cl_contacts cl)
    \<and> log_cache_delete live_env (registered 300) 1 (Inr (Some 1)) (Some (cl_revision cl)) [] (Inr (Some ?d))
        (Some (del_revision ?d)) None [] live_cache = (Some (Inr (Some (1, changed))), lc2)
    \<and> hm_get (lc_logs lc2) 1 = Some cl2 \<and> cl_revision cl2 = del_revision ?d
    \<and> adif_with (cl_contacts cl2) = (adif_with (cl_contacts cl))(1 := None)"
    by (rule cached_log_refines) (simp_all add: ok cl store there)
  ultimately show ?thesis using cl(2) by auto
qed

end
