(* ===== verification/ClientRadios.thy ===== *)
theory ClientRadios
  imports Prelude
begin

text \<open>
  \<open>backend/src/client_radios.rs\<close>: the leases by which radio clients keep their radios online. A
  lease that has run out is only removed when somebody looks at it. The specification keeps no
  deadlines and removes nothing: a radio has a holder with the time of its last sign of life, and
  is online for thirty seconds after it.
\<close>

section \<open>The code\<close>

text \<open>Instants and durations are counted in nanoseconds.\<close>

definition LEASE_TIMEOUT :: nat where
  "LEASE_TIMEOUT = 30 * 1000000000"

record client_radio_lease =
  client_instance_id :: string
  lease_id :: string
  deadline :: nat

type_synonym lease_registry = "(int, client_radio_lease) hmap"

datatype lease_error = Stale

text \<open>\<open>fresh\<close> is the identifier \<open>Uuid::new_v4\<close> draws.\<close>

definition register_lease :: "nat \<Rightarrow> string \<Rightarrow> int \<Rightarrow> string \<Rightarrow> lease_registry \<Rightarrow> string \<times> lease_registry" where
  "register_lease now fresh radio client leases =
     (let leases = hm_retain (\<lambda>_ lease. client_instance_id lease \<noteq> client) leases
      in (fresh, hm_put radio \<lparr>client_instance_id = client, lease_id = fresh, deadline = now + LEASE_TIMEOUT\<rparr> leases))"

definition heartbeat :: "nat \<Rightarrow> int \<Rightarrow> string \<Rightarrow> string \<Rightarrow> lease_registry \<Rightarrow> (lease_error + unit) \<times> lease_registry" where
  "heartbeat now radio client lid leases =
     (case hm_get leases radio of
        None \<Rightarrow> (Inl Stale, leases)
      | Some lease \<Rightarrow>
          if deadline lease \<le> now then (Inl Stale, hm_remove radio leases)
          else if client_instance_id lease \<noteq> client \<or> lease_id lease \<noteq> lid then (Inl Stale, leases)
          else (Inr (), hm_put radio (lease\<lparr>deadline := now + LEASE_TIMEOUT\<rparr>) leases))"

definition offline :: "nat \<Rightarrow> int \<Rightarrow> string \<Rightarrow> string \<Rightarrow> lease_registry \<Rightarrow> (lease_error + unit) \<times> lease_registry" where
  "offline now radio client lid leases =
     (case hm_get leases radio of
        None \<Rightarrow> (Inl Stale, leases)
      | Some lease \<Rightarrow>
          if deadline lease \<le> now then (Inl Stale, hm_remove radio leases)
          else if client_instance_id lease \<noteq> client \<or> lease_id lease \<noteq> lid then (Inl Stale, leases)
          else (Inr (), hm_remove radio leases))"

definition is_online :: "nat \<Rightarrow> int \<Rightarrow> lease_registry \<Rightarrow> bool \<times> lease_registry" where
  "is_online now radio leases =
     (case hm_get leases radio of
        Some lease \<Rightarrow> if now < deadline lease then (True, leases) else (False, hm_remove radio leases)
      | None \<Rightarrow> (False, leases))"

definition expire :: "nat \<Rightarrow> lease_registry \<Rightarrow> int list \<times> lease_registry" where
  "expire now leases =
     (let expired = List.map_filter (\<lambda>(radio, lease). if deadline lease \<le> now then Some radio else None) leases
      in (expired, fold hm_remove expired leases))"

section \<open>Calls and runs\<close>

datatype lease_call =
    Register string int string
  | Heartbeat int string string
  | Offline int string string
  | AskOnline int
  | Expire

datatype lease_answer = Leased string | Answer "lease_error + unit" | Online bool | Expired "int list"

fun lease_step :: "nat \<times> lease_call \<Rightarrow> lease_registry \<Rightarrow> lease_answer \<times> lease_registry" where
  "lease_step (now, Register fresh radio client) leases = map_prod Leased id (register_lease now fresh radio client leases)"
| "lease_step (now, Heartbeat radio client lid) leases = map_prod Answer id (heartbeat now radio client lid leases)"
| "lease_step (now, Offline radio client lid) leases = map_prod Answer id (offline now radio client lid leases)"
| "lease_step (now, AskOnline radio) leases = map_prod Online id (is_online now radio leases)"
| "lease_step (now, Expire) leases = map_prod Expired id (expire now leases)"

fun lease_run :: "(nat \<times> lease_call) list \<Rightarrow> lease_registry \<Rightarrow> lease_answer list \<times> lease_registry" where
  "lease_run [] leases = ([], leases)"
| "lease_run (e # es) leases =
     (case lease_step e leases of (a, leases) \<Rightarrow>
        (case lease_run es leases of (as, leases) \<Rightarrow> (a # as, leases)))"

section \<open>What the registry promises\<close>

record holder =
  held_by :: string
  held_under :: string
  alive_at :: nat

type_synonym holders = "int \<Rightarrow> holder option"

text \<open>The holder of a radio as long as its last sign of life is less than thirty seconds ago.\<close>

definition living :: "nat \<Rightarrow> holder option \<Rightarrow> holder option" where
  "living now h = (case h of None \<Rightarrow> None | Some x \<Rightarrow> if now < alive_at x + LEASE_TIMEOUT then Some x else None)"

definition holds :: "nat \<Rightarrow> int \<Rightarrow> string \<Rightarrow> string \<Rightarrow> holders \<Rightarrow> bool" where
  "holds now radio client lid hs \<longleftrightarrow>
     map_option (\<lambda>x. (held_by x, held_under x)) (living now (hs radio)) = Some (client, lid)"

fun spec_step :: "nat \<times> lease_call \<Rightarrow> holders \<Rightarrow> holders" where
  "spec_step (now, Register fresh radio client) hs =
     (\<lambda>r. if r = radio then Some \<lparr>held_by = client, held_under = fresh, alive_at = now\<rparr>
          else (case hs r of Some x \<Rightarrow> if held_by x = client then None else Some x | None \<Rightarrow> None))"
| "spec_step (now, Heartbeat radio client lid) hs =
     (if holds now radio client lid hs then hs(radio := Some \<lparr>held_by = client, held_under = lid, alive_at = now\<rparr>)
      else hs)"
| "spec_step (now, Offline radio client lid) hs = (if holds now radio client lid hs then hs(radio := None) else hs)"
| "spec_step (now, AskOnline radio) hs = hs"
| "spec_step (now, Expire) hs = hs"

fun answer_ok :: "nat \<times> lease_call \<Rightarrow> holders \<Rightarrow> lease_answer \<Rightarrow> bool" where
  "answer_ok (now, Register fresh radio client) hs a \<longleftrightarrow> a = Leased fresh"
| "answer_ok (now, Heartbeat radio client lid) hs a \<longleftrightarrow>
     a = Answer (if holds now radio client lid hs then Inr () else Inl Stale)"
| "answer_ok (now, Offline radio client lid) hs a \<longleftrightarrow>
     a = Answer (if holds now radio client lid hs then Inr () else Inl Stale)"
| "answer_ok (now, AskOnline radio) hs a \<longleftrightarrow> a = Online (living now (hs radio) \<noteq> None)"
| "answer_ok (now, Expire) hs a \<longleftrightarrow>
     (\<exists>radios. a = Expired radios \<and> list_all (\<lambda>r. living now (hs r) = None) radios)"

fun answers_ok :: "(nat \<times> lease_call) list \<Rightarrow> holders \<Rightarrow> lease_answer list \<Rightarrow> bool" where
  "answers_ok [] hs as \<longleftrightarrow> as = []"
| "answers_ok (e # es) hs [] \<longleftrightarrow> False"
| "answers_ok (e # es) hs (a # as) \<longleftrightarrow> answer_ok e hs a \<and> answers_ok es (spec_step e hs) as"

section \<open>The registry keeps the promise\<close>

definition lease_of :: "holder \<Rightarrow> client_radio_lease" where
  "lease_of x = \<lparr>client_instance_id = held_by x, lease_id = held_under x, deadline = alive_at x + LEASE_TIMEOUT\<rparr>"

text \<open>At an instant the registry holds the lease of every holder alive and no other unexpired one.\<close>

definition unexpired_lease :: "nat \<Rightarrow> client_radio_lease option \<Rightarrow> client_radio_lease option" where
  "unexpired_lease now l = (case l of None \<Rightarrow> None | Some x \<Rightarrow> if now < deadline x then Some x else None)"

definition follows :: "nat \<Rightarrow> holders \<Rightarrow> lease_registry \<Rightarrow> bool" where
  "follows now hs leases \<longleftrightarrow> hm_ok leases \<and>
     (\<forall>r. unexpired_lease now (hm_get leases r) = map_option lease_of (living now (hs r)))"

lemma follows_at: "follows now hs leases \<Longrightarrow> unexpired_lease now (hm_get leases r) = map_option lease_of (living now (hs r))"
  by (simp add: follows_def)

lemma unexpired_later: "now \<le> later \<Longrightarrow> unexpired_lease later (unexpired_lease now l) = unexpired_lease later l"
  by (auto simp: unexpired_lease_def split: option.splits)

lemma living_later: "now \<le> later \<Longrightarrow> living later (living now h) = living later h"
  by (auto simp: living_def split: option.splits)

lemma unexpired_lease_of [simp]: "unexpired_lease now (map_option lease_of h) = map_option lease_of (living now h)"
  by (auto simp: unexpired_lease_def living_def lease_of_def split: option.splits)

lemma follows_later:
  assumes "follows now hs leases" and "now \<le> later"
  shows "follows later hs leases"
  using assms unfolding follows_def by (metis unexpired_later living_later unexpired_lease_of)

lemma lease_of_simps [simp]:
  "client_instance_id (lease_of x) = held_by x" "lease_id (lease_of x) = held_under x"
  "deadline (lease_of x) = alive_at x + LEASE_TIMEOUT"
  by (simp_all add: lease_of_def)

lemma timeout_pos [simp]: "0 < LEASE_TIMEOUT"
  by (simp add: LEASE_TIMEOUT_def)

lemma unexpired_Some [simp]:
  "unexpired_lease now (Some l) = (if now < deadline l then Some l else None)" "unexpired_lease now None = None"
  by (simp_all add: unexpired_lease_def)

lemma living_Some [simp]:
  "living now (Some x) = (if now < alive_at x + LEASE_TIMEOUT then Some x else None)" "living now None = None"
  by (simp_all add: living_def)

lemma follows_gone:
  assumes "follows now hs leases" and "unexpired_lease now (hm_get leases r) = None"
  shows "living now (hs r) = None"
  using follows_at [OF assms(1), of r] assms(2) by simp

text \<open>One radio at a time: what the registry holds for it against its holder.\<close>

lemma follows_cases:
  assumes "follows now hs leases"
  obtains (vacant) "living now (hs r) = None" "unexpired_lease now (hm_get leases r) = None"
  | (taken) x where "living now (hs r) = Some x" "hm_get leases r = Some (lease_of x)" "now < alive_at x + LEASE_TIMEOUT"
proof (cases "living now (hs r)")
  case None
  then show ?thesis using vacant follows_at [OF assms, of r] by simp
next
  case (Some x)
  then have "now < alive_at x + LEASE_TIMEOUT" by (auto simp: living_def split: option.splits if_splits)
  moreover have "hm_get leases r = Some (lease_of x)"
    using follows_at [OF assms, of r] Some by (auto simp: unexpired_lease_def split: option.splits if_splits)
  ultimately show ?thesis using taken Some by blast
qed

lemma follows_remove_expired:
  assumes "follows now hs leases" and "living now (hs r) = None"
  shows "follows now hs (hm_remove r leases)"
  using assms by (auto simp: follows_def hm_get_remove hm.ok_remove)

lemma follows_put:
  assumes "follows now hs leases"
  shows "follows now (hs(r := Some x)) (hm_put r (lease_of x) leases)"
  using assms by (auto simp: follows_def hm_get_put hm.ok_put)

lemma follows_remove:
  assumes "follows now hs leases"
  shows "follows now (hs(r := None)) (hm_remove r leases)"
  using assms by (auto simp: follows_def hm_get_remove hm.ok_remove)

lemma register_follows:
  assumes "follows now hs leases"
  shows "follows now (spec_step (now, Register fresh radio client) hs)
    (snd (register_lease now fresh radio client leases))"
proof -
  let ?hs = "\<lambda>r. case hs r of Some x \<Rightarrow> if held_by x = client then None else Some x | None \<Rightarrow> None"
  let ?leases = "hm_retain (\<lambda>_ lease. client_instance_id lease \<noteq> client) leases"
  have ok: "hm_ok leases" using assms by (simp add: follows_def)
  have "follows now ?hs ?leases"
    unfolding follows_def
  proof (intro conjI allI)
    show "hm_ok ?leases" using ok by (rule hm_ok_retain)
    show "unexpired_lease now (hm_get ?leases r) = map_option lease_of (living now (?hs r))" for r
      using follows_at [OF assms, of r]
      by (cases "hm_get leases r"; cases "hs r") (auto simp: hm_get_retain [OF ok] split: if_splits)
  qed
  from follows_put [OF this, of radio "\<lparr>held_by = client, held_under = fresh, alive_at = now\<rparr>"]
  show ?thesis by (simp add: register_lease_def lease_of_def fun_upd_def)
qed

lemma expire_follows:
  assumes "follows now hs leases" and "list_all (\<lambda>r. living now (hs r) = None) radios"
  shows "follows now hs (fold hm_remove radios leases)"
  using assms by (induction radios arbitrary: leases) (auto simp: follows_remove_expired)

lemma expired_living:
  assumes f: "follows now hs leases" and "(r, lease) \<in> set leases" and "deadline lease \<le> now"
  shows "living now (hs r) = None"
proof (rule follows_gone [OF f])
  have "distinct (map fst leases)" using f by (simp add: follows_def hm_ok_def)
  then have "hm_get leases r = Some lease" using assms(2) by (simp add: map_of_is_SomeI)
  then show "unexpired_lease now (hm_get leases r) = None" using assms(3) by simp
qed

lemma step_follows:
  assumes f: "follows now hs leases" and step: "lease_step (now, c) leases = (a, leases')"
  shows "answer_ok (now, c) hs a \<and> follows now (spec_step (now, c) hs) leases'"
proof (cases c)
  case (Register fresh radio client)
  then show ?thesis
    using step register_follows [OF f] by (auto simp: register_lease_def Let_def)
next
  case (Heartbeat radio client lid)
  show ?thesis
  proof (cases rule: follows_cases [OF f, of radio])
    case 1
    then show ?thesis using f step Heartbeat
      by (auto simp: heartbeat_def holds_def follows_remove_expired split: option.splits if_splits)
  next
    case (2 x)
    then show ?thesis
      using f step Heartbeat follows_put [OF f, of radio "\<lparr>held_by = held_by x, held_under = held_under x, alive_at = now\<rparr>"]
      by (auto simp: heartbeat_def holds_def lease_of_def split: if_splits)
  qed
next
  case (Offline radio client lid)
  show ?thesis
  proof (cases rule: follows_cases [OF f, of radio])
    case 1
    then show ?thesis using f step Offline
      by (auto simp: offline_def holds_def follows_remove_expired split: option.splits if_splits)
  next
    case (2 x)
    then show ?thesis using f step Offline by (auto simp: offline_def holds_def follows_remove)
  qed
next
  case (AskOnline radio)
  show ?thesis
  proof (cases rule: follows_cases [OF f, of radio])
    case 1
    then show ?thesis using f step AskOnline
      by (auto simp: is_online_def follows_remove_expired split: option.splits if_splits)
  next
    case (2 x)
    then show ?thesis using f step AskOnline by (auto simp: is_online_def)
  qed
next
  case Expire
  let ?radios = "fst (expire now leases)"
  have gone: "list_all (\<lambda>r. living now (hs r) = None) ?radios"
    by (auto simp: expire_def Let_def list_all_iff map_filter_def intro: expired_living [OF f] split: if_splits)
  with step Expire expire_follows [OF f gone] show ?thesis
    by (auto simp: expire_def Let_def)
qed

definition registry_start :: lease_registry where
  "registry_start = []"

lemma run_follows:
  assumes "follows now hs leases" and "sorted (now # map fst es)" and "lease_run es leases = (as, leases')"
  shows "answers_ok es hs as"
  using assms
proof (induction es arbitrary: now hs leases as leases')
  case (Cons e es)
  obtain t c where e: "e = (t, c)" by fastforce
  obtain a leases1 where step: "lease_step e leases = (a, leases1)" by fastforce
  obtain as1 where run: "lease_run es leases1 = (as1, leases')" and as: "as = a # as1"
    using Cons.prems(3) step by (auto split: prod.splits)
  have f: "follows t hs leases" using Cons.prems(2) e by (intro follows_later [OF Cons.prems(1)]) simp
  from step_follows [OF f] step e have "answer_ok e hs a" "follows t (spec_step e hs) leases1" by auto
  moreover have "sorted (t # map fst es)" using Cons.prems(2) e by simp
  ultimately show ?case using Cons.IH run as by auto
qed simp

text \<open>
  C26. Leases are kept to the thirty seconds: in any run of calls in the order of their instants,
  from the empty registry, every call answers as the specification of holders does. A heartbeat or
  a sign-off is accepted exactly from the client and under the lease that hold the radio and gave a
  sign of life less than thirty seconds ago, a radio is online exactly while it has such a holder,
  and what expiry reports is offline. Removing leases late is never seen.
\<close>

theorem leases_refine:
  assumes "sorted (map fst es)"
  shows "answers_ok es (\<lambda>_. None) (fst (lease_run es registry_start))"
proof -
  have "follows 0 (\<lambda>_. None) registry_start" by (simp add: follows_def registry_start_def hm_ok_def)
  then show ?thesis using run_follows assms by (metis prod.collapse sorted_wrt.simps(2) zero_le)
qed

text \<open>A client reconnecting under a second radio, and a radio left alone for thirty seconds.\<close>

definition lease_calls :: "(nat \<times> lease_call) list" where
  "lease_calls =
     [(0, Register ''u1'' 7 ''a''), (20000000000, Heartbeat 7 ''a'' ''u1''), (49000000000, AskOnline 7),
      (50000000000, Expire), (50000000000, AskOnline 7), (51000000000, Register ''u2'' 8 ''a''),
      (52000000000, Heartbeat 7 ''a'' ''u1'')]"

theorem leases_refine_witness:
  "answers_ok lease_calls (\<lambda>_. None) (fst (lease_run lease_calls registry_start))
   \<and> fst (lease_run lease_calls registry_start)
       = [Leased ''u1'', Answer (Inr ()), Online True, Expired [7], Online False, Leased ''u2'', Answer (Inl Stale)]"
proof
  show "answers_ok lease_calls (\<lambda>_. None) (fst (lease_run lease_calls registry_start))"
    by (rule leases_refine) (simp add: lease_calls_def)
  show "fst (lease_run lease_calls registry_start)
       = [Leased ''u1'', Answer (Inr ()), Online True, Expired [7], Online False, Leased ''u2'', Answer (Inl Stale)]"
    by code_simp
qed

end
