(* ===== verification/Idioms.thy ===== *)
theory Idioms
  imports Prelude
begin

text \<open>
  Idioms of the program that several components share: results and their early returns, and the
  functions of \<open>str\<close> on lines, words, prefixes and replacements.
\<close>

section \<open>Results\<close>

text \<open>The \<open>?\<close> operator.\<close>

fun ebind :: "'e + 'a \<Rightarrow> ('a \<Rightarrow> 'e + 'b) \<Rightarrow> 'e + 'b" where
  "ebind (Inl e) f = Inl e"
| "ebind (Inr x) f = f x"

definition ok_or :: "'a option \<Rightarrow> 'e \<Rightarrow> 'e + 'a" where
  "ok_or x e = (case x of Some y \<Rightarrow> Inr y | None \<Rightarrow> Inl e)"

text \<open>A check with an early return, and a row of them.\<close>

definition require :: "bool \<Rightarrow> 'e \<Rightarrow> 'e + unit" where
  "require b e = (if b then Inr () else Inl e)"

fun first_error :: "('e + unit) list \<Rightarrow> 'e + unit" where
  "first_error [] = Inr ()"
| "first_error (r # rs) = (case r of Inl e \<Rightarrow> Inl e | Inr _ \<Rightarrow> first_error rs)"

text \<open>\<open>collect\<close> into a result: the values, or the first error.\<close>

fun collect_results :: "('e + 'a) list \<Rightarrow> 'e + 'a list" where
  "collect_results [] = Inr []"
| "collect_results (r # rs) = ebind r (\<lambda>x. ebind (collect_results rs) (\<lambda>xs. Inr (x # xs)))"

definition map_error :: "('e \<Rightarrow> 'f) \<Rightarrow> 'e + 'a \<Rightarrow> 'f + 'a" where
  "map_error f r = map_sum f id r"

definition is_ok :: "'e + 'a \<Rightarrow> bool" where
  "is_ok r \<longleftrightarrow> (case r of Inl _ \<Rightarrow> False | Inr _ \<Rightarrow> True)"

lemma ebind_Inr [simp]: "ebind r f = Inr y \<longleftrightarrow> (\<exists>x. r = Inr x \<and> f x = Inr y)"
  by (cases r) auto

lemma ok_or_Inr [simp]: "ok_or x e = Inr y \<longleftrightarrow> x = Some y"
  by (cases x) (auto simp: ok_or_def)

lemma require_Inr [simp]: "require b e = Inr u \<longleftrightarrow> b"
  by (simp add: require_def)

lemma require_cases [simp]: "require True e = Inr ()" "require False e = Inl e"
  by (simp_all add: require_def)

lemma map_error_Inr [simp]: "map_error f r = Inr x \<longleftrightarrow> r = Inr x"
  by (cases r) (auto simp: map_error_def)

lemma first_error_append: "first_error (rs @ ss) = (case first_error rs of Inl e \<Rightarrow> Inl e | Inr _ \<Rightarrow> first_error ss)"
  by (induction rs) (auto split: sum.splits)

lemma first_error_Cons [simp]: "first_error (r # rs) = Inr u \<longleftrightarrow> r = Inr () \<and> first_error rs = Inr ()"
  by (cases r) simp_all

lemma first_error_Inr [simp]: "first_error rs = Inr u \<longleftrightarrow> (\<forall>r\<in>set rs. r = Inr ())"
  by (induction rs) (auto split: sum.split)

declare first_error.simps(2) [simp del]

lemma collect_results_Inr: "collect_results rs = Inr xs \<longleftrightarrow> rs = map Inr xs"
  by (induction rs arbitrary: xs) auto

lemma collect_results_total: "(\<forall>r\<in>set rs. is_ok r) \<Longrightarrow> \<exists>xs. collect_results rs = Inr xs"
  by (induction rs) (auto simp: is_ok_def split: sum.splits)

section \<open>Texts\<close>

definition is_control :: "char \<Rightarrow> bool" where
  "is_control c \<longleftrightarrow> (of_char c :: nat) < 32 \<or> (of_char c :: nat) = 127"

definition newline :: char where "newline = char_of (10 :: nat)"
definition carriage_return :: char where "carriage_return = char_of (13 :: nat)"

definition strip_cr :: "string \<Rightarrow> string" where
  "strip_cr s = (if s \<noteq> [] \<and> last s = carriage_return then butlast s else s)"

text \<open>\<open>lines\<close>: a line ends with a newline or a carriage return and a newline; the last one may not end.\<close>

definition text_lines :: "string \<Rightarrow> string list" where
  "text_lines s =
     (let parts = split_on newline s
      in map strip_cr (butlast parts) @ (if last parts = [] then [] else [last parts]))"

text \<open>\<open>split_whitespace\<close>.\<close>

fun words_from :: "string \<Rightarrow> string \<Rightarrow> string list" where
  "words_from w [] = (if w = [] then [] else [w])"
| "words_from w (c # s) =
     (if is_ws c then (if w = [] then words_from [] s else w # words_from [] s) else words_from (w @ [c]) s)"

definition split_whitespace :: "string \<Rightarrow> string list" where
  "split_whitespace s = words_from [] s"

definition strip_prefix :: "string \<Rightarrow> string \<Rightarrow> string option" where
  "strip_prefix p s = (if prefix p s then Some (drop (length p) s) else None)"

definition strip_suffix :: "string \<Rightarrow> string \<Rightarrow> string option" where
  "strip_suffix p s = (if suffix p s then Some (take (length s - length p) s) else None)"

text \<open>\<open>contains\<close> of a text.\<close>

definition contains_text :: "string \<Rightarrow> string \<Rightarrow> bool" where
  "contains_text s p \<longleftrightarrow> (\<exists>i\<in>set [0..<Suc (length s)]. prefix p (drop i s))"

text \<open>\<open>replace\<close> of a carriage return and newline by a newline.\<close>

fun unify_newlines :: "string \<Rightarrow> string" where
  "unify_newlines (c # d # s) =
     (if c = carriage_return \<and> d = newline then newline # unify_newlines s else c # unify_newlines (d # s))"
| "unify_newlines s = s"

definition trim_matches :: "char \<Rightarrow> string \<Rightarrow> string" where
  "trim_matches c s = rev (dropWhile (\<lambda>d. d = c) (rev (dropWhile (\<lambda>d. d = c) s)))"

definition unwrap_or_default :: "string option \<Rightarrow> string" where
  "unwrap_or_default s = (case s of Some t \<Rightarrow> t | None \<Rightarrow> [])"

definition to_lower_text :: "string \<Rightarrow> string" where
  "to_lower_text s = map lower_char s"

lemma unwrap_or_default_simps [simp]: "unwrap_or_default None = []" "unwrap_or_default (Some t) = t"
  by (simp_all add: unwrap_or_default_def)

lemma contains_text_iff: "contains_text s p \<longleftrightarrow> (\<exists>u v. s = u @ p @ v)"
proof
  assume "contains_text s p"
  then obtain i where "prefix p (drop i s)" by (auto simp: contains_text_def)
  then obtain v where "drop i s = p @ v" by (auto simp: prefix_def)
  then have "s = take i s @ p @ v" by (metis append_take_drop_id)
  then show "\<exists>u v. s = u @ p @ v" by blast
next
  assume "\<exists>u v. s = u @ p @ v"
  then obtain u v where "s = u @ p @ v" by blast
  then have "length u \<in> set [0..<Suc (length s)]" "prefix p (drop (length u) s)" by auto
  then show "contains_text s p" unfolding contains_text_def by blast
qed

end
