(* ===== verification/Auth.thy ===== *)
theory Auth
  imports Idioms
begin

text \<open>
  \<open>backend/src/auth.rs\<close>: HTTP basic authentication. A password hash is slow to verify, so verified
  credentials are cached under a keyed digest, concurrent requests with the same credentials share
  one verification, and at most two run at once. A request that must wait is split where it awaits:
  what it does before, the verification's own steps, and what it does when it is woken. A change of
  the configuration may fall between any two of them.
\<close>

section \<open>The code\<close>

definition CACHE_TTL :: nat where
  "CACHE_TTL = 30 * 60 * 1000000000"

definition CACHE_CAPACITY :: nat where "CACHE_CAPACITY = 256"
definition MAX_PENDING :: nat where "MAX_PENDING = 32"
definition MAX_AUTHORIZATION_BYTES :: nat where "MAX_AUTHORIZATION_BYTES = 8192"
definition VERIFY_PERMITS :: nat where "VERIFY_PERMITS = 2"

record auth_config =
  login_user :: string
  login_password :: string

definition is_auth_enabled :: "auth_config \<Rightarrow> bool" where
  "is_auth_enabled conf \<longleftrightarrow> trim (login_user conf) \<noteq> [] \<and> login_password conf \<noteq> []"

text \<open>
  What the code calls outside the repository: the keyed digest, the text of a header value, the
  base64 decoding of UTF-8 text and the check of a password against an Argon2 hash.
\<close>

record 'k auth_env =
  digest :: "string \<Rightarrow> 'k"
  header_text :: "string \<Rightarrow> string option"
  decode_base64 :: "string \<Rightarrow> string option"
  argon2_ok :: "string \<Rightarrow> string \<Rightarrow> bool"

definition verify_password_hash :: "'k auth_env \<Rightarrow> string \<Rightarrow> string \<Rightarrow> bool" where
  "verify_password_hash env candidate stored =
     (if stored = [] then candidate = [] else argon2_ok env candidate stored)"

record cache_entry =
  verified_at :: nat
  last_access :: nat

datatype auth_decision = Allowed | Unauthorized | Busy | Failed

text \<open>\<open>pending\<close> maps a key to the watch channel on which its verification answers.\<close>

record 'k auth_state =
  auth_conf :: auth_config
  generation :: nat
  auth_cache :: "('k, cache_entry) hmap"
  pending :: "('k, nat) hmap"
  access_counter :: nat

datatype phase = Queued | Verifying | Verified auth_decision

text \<open>A task of \<open>verify\<close>, with the arguments it was spawned with.\<close>

record 'k verification =
  vf_key :: 'k
  vf_generation :: nat
  vf_candidate :: string
  vf_hash :: string
  vf_phase :: phase

record 'k auth_service =
  auth :: "'k auth_state"
  permits :: nat
  channels :: "(nat, auth_decision option) hmap"
  verifications :: "(nat, 'k verification) hmap"
  next_channel :: nat

definition u64_succ :: "nat \<Rightarrow> nat" where
  "u64_succ n = (n + 1) mod 2 ^ 64"

definition auth_new :: "auth_config \<Rightarrow> 'k auth_service" where
  "auth_new conf =
     \<lparr>auth = \<lparr>auth_conf = conf, generation = 0, auth_cache = [], pending = [], access_counter = 0\<rparr>,
      permits = VERIFY_PERMITS, channels = [], verifications = [], next_channel = 0\<rparr>"

text \<open>\<open>send_replace\<close> on a channel.\<close>

definition send :: "nat \<Rightarrow> auth_decision \<Rightarrow> 'k auth_service \<Rightarrow> 'k auth_service" where
  "send c d svc = svc\<lparr>channels := hm_put c (Some d) (channels svc)\<rparr>"

definition credentials_changed :: "auth_config \<Rightarrow> auth_config \<Rightarrow> bool" where
  "credentials_changed old new \<longleftrightarrow>
     trim (login_user old) \<noteq> trim (login_user new) \<or> login_password old \<noteq> login_password new"

definition replace_config :: "auth_config \<Rightarrow> 'k auth_service \<Rightarrow> 'k auth_service" where
  "replace_config conf svc =
     (let svc = (if credentials_changed (auth_conf (auth svc)) conf then
                   (let woken = fold (\<lambda>(_, c). send c Unauthorized) (pending (auth svc)) svc
                    in woken\<lparr>auth := (auth svc)\<lparr>generation := u64_succ (generation (auth svc)),
                                                auth_cache := [], pending := []\<rparr>\<rparr>)
                 else svc)
      in svc\<lparr>auth := (auth svc)\<lparr>auth_conf := conf\<rparr>\<rparr>)"

definition be_bytes :: "nat \<Rightarrow> string" where
  "be_bytes n = map (\<lambda>i. char_of (n div 256 ^ i mod 256)) (rev [0..<8])"

definition auth_key :: "'k auth_env \<Rightarrow> string \<Rightarrow> string \<Rightarrow> 'k" where
  "auth_key env username password = digest env (be_bytes (length username) @ username @ password)"

definition credentials :: "'k auth_env \<Rightarrow> string option \<Rightarrow> string option" where
  "credentials env authorization =
     (case authorization of
        None \<Rightarrow> None
      | Some value \<Rightarrow>
          if MAX_AUTHORIZATION_BYTES < length value then None
          else Option.bind (header_text env value) (\<lambda>text.
                 Option.bind (strip_prefix ''Basic '' text) (decode_base64 env)))"

text \<open>The sweep of expired entries and the next access number.\<close>

definition swept :: "nat \<Rightarrow> 'k auth_state \<Rightarrow> 'k auth_state" where
  "swept now st = st\<lparr>auth_cache := hm_retain (\<lambda>_ e. now - verified_at e < CACHE_TTL) (auth_cache st),
                     access_counter := u64_succ (access_counter st)\<rparr>"

text \<open>
  The part of \<open>authorize\<close> under the first lock: a decision, or the channel to wait on and the
  generation to compare with.
\<close>

definition begin_authorize ::
  "'k auth_env \<Rightarrow> nat \<Rightarrow> string option \<Rightarrow> 'k auth_service \<Rightarrow> (auth_decision + nat \<times> nat) \<times> 'k auth_service" where
  "begin_authorize env now authorization svc =
     (if \<not> is_auth_enabled (auth_conf (auth svc)) then (Inl Allowed, svc)
      else (case credentials env authorization of
        None \<Rightarrow> (Inl Unauthorized, svc)
      | Some text \<Rightarrow>
         (case split_once CHR '':'' text of
            None \<Rightarrow> (Inl Unauthorized, svc)
          | Some (username, password) \<Rightarrow>
              if username \<noteq> trim (login_user (auth_conf (auth svc))) then (Inl Unauthorized, svc)
              else
                let key = auth_key env username password;
                    st = swept now (auth svc);
                    svc = svc\<lparr>auth := st\<rparr>
                in (case hm_get (auth_cache st) key of
                      Some entry \<Rightarrow>
                        (Inl Allowed,
                         svc\<lparr>auth := st\<lparr>auth_cache := hm_put key (entry\<lparr>last_access := access_counter st\<rparr>) (auth_cache st)\<rparr>\<rparr>)
                    | None \<Rightarrow>
                        (case hm_get (pending st) key of
                           Some c \<Rightarrow> (Inr (c, generation st), svc)
                         | None \<Rightarrow>
                             if MAX_PENDING \<le> length (pending st) then (Inl Busy, svc)
                             else
                               let c = next_channel svc;
                                   task = \<lparr>vf_key = key, vf_generation = generation st, vf_candidate = password,
                                           vf_hash = login_password (auth_conf st), vf_phase = Queued\<rparr>
                               in (Inr (c, generation st),
                                   svc\<lparr>auth := st\<lparr>pending := hm_put key c (pending st)\<rparr>,
                                       channels := hm_put c None (channels svc),
                                       verifications := hm_put c task (verifications svc),
                                       next_channel := Suc c\<rparr>))))))"

text \<open>
  The part of \<open>authorize\<close> after the wait, \<open>None\<close> while the channel is open and empty. A channel is
  closed when neither its task nor \<open>pending\<close> holds a sender.
\<close>

definition channel_closed :: "nat \<Rightarrow> 'k auth_service \<Rightarrow> bool" where
  "channel_closed c svc \<longleftrightarrow> hm_get (verifications svc) c = None \<and> c \<notin> set (map snd (pending (auth svc)))"

definition finish_authorize :: "nat \<Rightarrow> nat \<Rightarrow> 'k auth_service \<Rightarrow> auth_decision option" where
  "finish_authorize c g svc =
     (case Option.bind (hm_get (channels svc) c) (\<lambda>d. d) of
        Some d \<Rightarrow> Some (if generation (auth svc) \<noteq> g then Unauthorized else d)
      | None \<Rightarrow>
          if channel_closed c svc then Some (if generation (auth svc) \<noteq> g then Unauthorized else Failed)
          else None)"

text \<open>
  \<open>verify\<close> in three steps: it gets a permit, the blocking check ends and returns the permit, and the
  outcome is recorded. \<open>outcome\<close> is None when the blocking task panicked. The semaphore is never closed.
\<close>

definition end_verification :: "nat \<Rightarrow> auth_decision \<Rightarrow> 'k auth_service \<Rightarrow> 'k auth_service" where
  "end_verification c d svc = (send c d svc)\<lparr>verifications := hm_remove c (verifications svc)\<rparr>"

definition verify_start :: "nat \<Rightarrow> 'k verification \<Rightarrow> 'k auth_service \<Rightarrow> 'k auth_service" where
  "verify_start c v svc =
     (if generation (auth svc) \<noteq> vf_generation v then end_verification c Unauthorized svc
      else svc\<lparr>permits := permits svc - 1,
               verifications := hm_put c (v\<lparr>vf_phase := Verifying\<rparr>) (verifications svc)\<rparr>)"

definition verify_blocking :: "nat \<Rightarrow> 'k verification \<Rightarrow> bool option \<Rightarrow> 'k auth_service \<Rightarrow> 'k auth_service" where
  "verify_blocking c v outcome svc =
     (let d = (case outcome of Some valid \<Rightarrow> if valid then Allowed else Unauthorized | None \<Rightarrow> Failed)
      in svc\<lparr>permits := Suc (permits svc),
             verifications := hm_put c (v\<lparr>vf_phase := Verified d\<rparr>) (verifications svc)\<rparr>)"

text \<open>\<open>min_by_key\<close> on the last access; the first entry wins a tie.\<close>

fun oldest_entry :: "('k, cache_entry) hmap \<Rightarrow> ('k \<times> cache_entry) option" where
  "oldest_entry [] = None"
| "oldest_entry (x # xs) =
     (case oldest_entry xs of
        None \<Rightarrow> Some x
      | Some y \<Rightarrow> Some (if last_access (snd y) < last_access (snd x) then y else x))"

definition cache_insert :: "'k \<Rightarrow> nat \<Rightarrow> 'k auth_state \<Rightarrow> 'k auth_state" where
  "cache_insert key now st =
     (let kept = (if CACHE_CAPACITY \<le> length (auth_cache st)
                  then (case oldest_entry (auth_cache st) of
                          Some (k, _) \<Rightarrow> hm_remove k (auth_cache st)
                        | None \<Rightarrow> auth_cache st)
                  else auth_cache st)
      in st\<lparr>auth_cache := hm_put key \<lparr>verified_at = now, last_access = access_counter st\<rparr> kept\<rparr>)"

definition verify_commit :: "nat \<Rightarrow> nat \<Rightarrow> 'k verification \<Rightarrow> auth_decision \<Rightarrow> 'k auth_service \<Rightarrow> 'k auth_service" where
  "verify_commit now c v d svc =
     (if generation (auth svc) \<noteq> vf_generation v then end_verification c Unauthorized svc
      else
        let st = (auth svc)\<lparr>pending := hm_remove (vf_key v) (pending (auth svc))\<rparr>;
            st = (if d = Allowed then cache_insert (vf_key v) now st else st)
        in end_verification c d (svc\<lparr>auth := st\<rparr>))"

definition hash_password :: "(string \<Rightarrow> string + string) \<Rightarrow> string \<Rightarrow> string + string" where
  "hash_password argon2 password =
     (if password = [] then Inl ''login password cannot be empty'' else argon2 password)"

section \<open>Runs\<close>

text \<open>A request that waits, with the header it came with.\<close>

record waiter =
  w_header :: "string option"
  w_channel :: nat
  w_generation :: nat

text \<open>
  \<open>auth_reachable env n (svc, ws, hashing)\<close>: the service is in the state \<open>svc\<close> after \<open>n\<close> changes of
  the credentials, while the requests \<open>ws\<close> wait and \<open>hashing\<close> passwords are being hashed, each under
  a permit of its own.
\<close>

inductive auth_reachable :: "'k auth_env \<Rightarrow> nat \<Rightarrow> 'k auth_service \<times> waiter list \<times> nat \<Rightarrow> bool" for env where
  fresh: "auth_reachable env 0 (auth_new conf, [], 0)"
| answer: "auth_reachable env n (svc, ws, hashing) \<Longrightarrow> begin_authorize env now h svc = (Inl d, svc')
    \<Longrightarrow> auth_reachable env n (svc', ws, hashing)"
| wait: "auth_reachable env n (svc, ws, hashing) \<Longrightarrow> begin_authorize env now h svc = (Inr (c, g), svc')
    \<Longrightarrow> auth_reachable env n (svc', \<lparr>w_header = h, w_channel = c, w_generation = g\<rparr> # ws, hashing)"
| permit: "auth_reachable env n (svc, ws, hashing) \<Longrightarrow> hm_get (verifications svc) c = Some v
    \<Longrightarrow> vf_phase v = Queued \<Longrightarrow> 0 < permits svc \<Longrightarrow> auth_reachable env n (verify_start c v svc, ws, hashing)"
| check: "auth_reachable env n (svc, ws, hashing) \<Longrightarrow> hm_get (verifications svc) c = Some v
    \<Longrightarrow> vf_phase v = Verifying \<Longrightarrow> outcome = None \<or> outcome = Some (verify_password_hash env (vf_candidate v) (vf_hash v))
    \<Longrightarrow> auth_reachable env n (verify_blocking c v outcome svc, ws, hashing)"
| commit: "auth_reachable env n (svc, ws, hashing) \<Longrightarrow> hm_get (verifications svc) c = Some v
    \<Longrightarrow> vf_phase v = Verified d \<Longrightarrow> auth_reachable env n (verify_commit now c v d svc, ws, hashing)"
| wake: "auth_reachable env n (svc, ws, hashing) \<Longrightarrow> w \<in> set ws
    \<Longrightarrow> finish_authorize (w_channel w) (w_generation w) svc = Some d \<Longrightarrow> auth_reachable env n (svc, remove1 w ws, hashing)"
| reconfigure: "auth_reachable env n (svc, ws, hashing)
    \<Longrightarrow> auth_reachable env (if credentials_changed (auth_conf (auth svc)) conf then Suc n else n)
          (replace_config conf svc, ws, hashing)"
| hash: "auth_reachable env n (svc, ws, hashing) \<Longrightarrow> 0 < permits svc
    \<Longrightarrow> auth_reachable env n (svc\<lparr>permits := permits svc - 1\<rparr>, ws, Suc hashing)"
| hashed: "auth_reachable env n (svc, ws, Suc hashing)
    \<Longrightarrow> auth_reachable env n (svc\<lparr>permits := Suc (permits svc)\<rparr>, ws, hashing)"

section \<open>The cases of a request\<close>

definition presented :: "'k auth_env \<Rightarrow> string option \<Rightarrow> (string \<times> string) option" where
  "presented env h = Option.bind (credentials env h) (split_once CHR '':'')"

text \<open>The credentials of a header are those a configuration asks for.\<close>

definition entitled :: "'k auth_env \<Rightarrow> auth_config \<Rightarrow> string option \<Rightarrow> bool" where
  "entitled env conf h \<longleftrightarrow> \<not> is_auth_enabled conf \<or>
     (\<exists>password. presented env h = Some (trim (login_user conf), password)
        \<and> verify_password_hash env password (login_password conf))"

lemma swept_simps [simp]:
  "auth_conf (swept now st) = auth_conf st" "generation (swept now st) = generation st"
  "pending (swept now st) = pending st"
  "auth_cache (swept now st) = hm_retain (\<lambda>_ e. now - verified_at e < CACHE_TTL) (auth_cache st)"
  by (simp_all add: swept_def)

definition spawned :: "'k auth_env \<Rightarrow> nat \<Rightarrow> string \<Rightarrow> 'k auth_service \<Rightarrow> 'k auth_service" where
  "spawned env now password svc =
     (let st = swept now (auth svc); c = next_channel svc;
          key = auth_key env (trim (login_user (auth_conf st))) password
      in svc\<lparr>auth := st\<lparr>pending := hm_put key c (pending st)\<rparr>,
             channels := hm_put c None (channels svc),
             verifications := hm_put c \<lparr>vf_key = key, vf_generation = generation st, vf_candidate = password,
               vf_hash = login_password (auth_conf st), vf_phase = Queued\<rparr> (verifications svc),
             next_channel := Suc c\<rparr>)"

definition touched :: "'k \<Rightarrow> cache_entry \<Rightarrow> 'k auth_state \<Rightarrow> 'k auth_state" where
  "touched key entry st = st\<lparr>auth_cache := hm_put key (entry\<lparr>last_access := access_counter st\<rparr>) (auth_cache st)\<rparr>"

lemma begin_cases:
  assumes "begin_authorize env now h svc = (r, svc')"
  obtains (disabled) "\<not> is_auth_enabled (auth_conf (auth svc))" "r = Inl Allowed" "svc' = svc"
  | (refused) "r = Inl Unauthorized" "svc' = svc"
  | (hit) password entry where "presented env h = Some (trim (login_user (auth_conf (auth svc))), password)"
      "hm_get (auth_cache (swept now (auth svc))) (auth_key env (trim (login_user (auth_conf (auth svc)))) password) = Some entry"
      "r = Inl Allowed"
      "svc' = svc\<lparr>auth := touched (auth_key env (trim (login_user (auth_conf (auth svc)))) password) entry (swept now (auth svc))\<rparr>"
  | (joined) password c where "presented env h = Some (trim (login_user (auth_conf (auth svc))), password)"
      "hm_get (pending (auth svc)) (auth_key env (trim (login_user (auth_conf (auth svc)))) password) = Some c"
      "r = Inr (c, generation (auth svc))" "svc' = svc\<lparr>auth := swept now (auth svc)\<rparr>"
  | (busy) "r = Inl Busy" "svc' = svc\<lparr>auth := swept now (auth svc)\<rparr>"
  | (spawned) password where "presented env h = Some (trim (login_user (auth_conf (auth svc))), password)"
      "hm_get (pending (auth svc)) (auth_key env (trim (login_user (auth_conf (auth svc)))) password) = None"
      "length (pending (auth svc)) < MAX_PENDING"
      "r = Inr (next_channel svc, generation (auth svc))" "svc' = spawned env now password svc"
proof (cases "is_auth_enabled (auth_conf (auth svc))")
  case False
  then show ?thesis using assms by (intro disabled) (simp_all add: begin_authorize_def)
next
  case enabled: True
  show ?thesis
  proof (cases "\<exists>password. presented env h = Some (trim (login_user (auth_conf (auth svc))), password)")
    case False
    then have "r = Inl Unauthorized \<and> svc' = svc"
      using assms enabled
      by (cases "credentials env h") (auto simp: begin_authorize_def presented_def split: option.splits if_splits)
    then show ?thesis by (intro refused) simp_all
  next
    case True
    then obtain password decoded where given: "presented env h = Some (trim (login_user (auth_conf (auth svc))), password)"
      and cred: "credentials env h = Some decoded" "split_once CHR '':'' decoded = Some (trim (login_user (auth_conf (auth svc))), password)"
      by (auto simp: presented_def bind_eq_Some_conv)
    let ?key = "auth_key env (trim (login_user (auth_conf (auth svc)))) password"
    have run: "begin_authorize env now h svc =
      (case hm_get (auth_cache (swept now (auth svc))) ?key of
         Some entry \<Rightarrow> (Inl Allowed, svc\<lparr>auth := touched ?key entry (swept now (auth svc))\<rparr>)
       | None \<Rightarrow> (case hm_get (pending (auth svc)) ?key of
           Some c \<Rightarrow> (Inr (c, generation (auth svc)), svc\<lparr>auth := swept now (auth svc)\<rparr>)
         | None \<Rightarrow> if MAX_PENDING \<le> length (pending (auth svc)) then (Inl Busy, svc\<lparr>auth := swept now (auth svc)\<rparr>)
             else (Inr (next_channel svc, generation (auth svc)), spawned env now password svc)))"
      using enabled cred by (simp add: begin_authorize_def Let_def touched_def spawned_def cong: option.case_cong)
    show ?thesis
    proof (cases "hm_get (auth_cache (swept now (auth svc))) ?key")
      case (Some entry)
      then show ?thesis using assms run by (intro hit [OF given Some]) simp_all
    next
      case uncached: None
      show ?thesis
      proof (cases "hm_get (pending (auth svc)) ?key")
        case (Some c)
        then show ?thesis using assms run uncached by (intro joined [OF given Some]) simp_all
      next
        case None
        show ?thesis
        proof (cases "MAX_PENDING \<le> length (pending (auth svc))")
          case True
          then show ?thesis using assms run uncached None by (intro busy) simp_all
        next
          case False
          then show ?thesis using assms run uncached None by (intro spawned [OF given None]) simp_all
        qed
      qed
    qed
  qed
qed

section \<open>Counting\<close>

definition entries_with :: "('v \<Rightarrow> bool) \<Rightarrow> ('k, 'v) hmap \<Rightarrow> nat" where
  "entries_with P m = length (filter (\<lambda>(_, v). P v) m)"

lemma entries_with_simps [simp]:
  "entries_with P [] = 0" "entries_with P ((k, v) # m) = of_bool (P v) + entries_with P m"
  by (simp_all add: entries_with_def)

lemma entries_with_present: "hm_get m k = Some v \<Longrightarrow> P v \<Longrightarrow> 0 < entries_with P m"
  by (induction m) (auto split: if_splits)

lemma entries_with_remove:
  "hm_ok m \<Longrightarrow> entries_with P (hm_remove k m) + (case hm_get m k of Some v \<Rightarrow> of_bool (P v) | None \<Rightarrow> 0)
     = entries_with P m"
proof (induction m)
  case (Cons a m)
  obtain l w where a: "a = (l, w)" by fastforce
  with Cons.prems have ok: "hm_ok m" and l: "l \<notin> fst ` set m" by (auto simp: hm_ok_def)
  have "AList.delete l m = m" using l by (induction m) auto
  moreover have "hm_get m l = None" using l by (simp add: map_of_eq_None_iff)
  ultimately show ?case using Cons.IH [OF ok] by (auto simp: a hm_remove_def)
qed (simp add: hm_remove_def)

lemma entries_with_put:
  "hm_ok m \<Longrightarrow> entries_with P (hm_put k v m) + (case hm_get m k of Some w \<Rightarrow> of_bool (P w) | None \<Rightarrow> 0)
     = entries_with P m + of_bool (P v)"
proof (induction m)
  case (Cons a m)
  obtain l w where a: "a = (l, w)" by fastforce
  with Cons.prems have ok: "hm_ok m" by (auto simp: hm_ok_def)
  show ?case using Cons.IH [OF ok] by (auto simp: a hm_put_def)
qed (simp add: hm_put_def)

lemma length_entries: "length m = entries_with (\<lambda>_. True) m"
  by (simp add: entries_with_def split_def)

lemma length_hm_put:
  "hm_ok m \<Longrightarrow> length (hm_put k v m) = (if hm_get m k = None then Suc (length m) else length m)"
  using entries_with_put [of m "\<lambda>_. True" k v] by (auto simp: length_entries)

lemma length_hm_remove: "hm_ok m \<Longrightarrow> length (hm_remove k m) = (if hm_get m k = None then length m else length m - 1)"
  using entries_with_remove [of m "\<lambda>_. True" k] by (auto simp: length_entries)

lemma length_hm_retain: "length (hm_retain P m) \<le> length m"
  by (simp add: hm_retain_def)

section \<open>Bounds\<close>

definition running :: "'k auth_service \<Rightarrow> nat" where
  "running svc = entries_with (\<lambda>v. vf_phase v = Verifying) (verifications svc)"

definition maps_ok :: "'k auth_service \<Rightarrow> bool" where
  "maps_ok svc \<longleftrightarrow> hm_ok (auth_cache (auth svc)) \<and> hm_ok (pending (auth svc)) \<and> hm_ok (verifications svc)
     \<and> (\<forall>c v. hm_get (verifications svc) c = Some v \<longrightarrow> c < next_channel svc)"

definition within_bounds :: "'k auth_service \<Rightarrow> nat \<Rightarrow> bool" where
  "within_bounds svc hashing \<longleftrightarrow> maps_ok svc \<and> length (auth_cache (auth svc)) \<le> CACHE_CAPACITY
     \<and> length (pending (auth svc)) \<le> MAX_PENDING \<and> permits svc + running svc + hashing = VERIFY_PERMITS"

lemma send_simps [simp]:
  "auth (send c d svc) = auth svc" "permits (send c d svc) = permits svc"
  "verifications (send c d svc) = verifications svc" "next_channel (send c d svc) = next_channel svc"
  "channels (send c d svc) = hm_put c (Some d) (channels svc)"
  by (simp_all add: send_def)

lemma end_verification_simps [simp]:
  "auth (end_verification c d svc) = auth svc" "permits (end_verification c d svc) = permits svc"
  "verifications (end_verification c d svc) = hm_remove c (verifications svc)"
  "next_channel (end_verification c d svc) = next_channel svc"
  "channels (end_verification c d svc) = hm_put c (Some d) (channels svc)"
  by (simp_all add: end_verification_def)

lemma fold_send:
  "fold (\<lambda>(_, c). send c Unauthorized) ps svc =
     svc\<lparr>channels := fold (\<lambda>(_, c). hm_put c (Some Unauthorized)) ps (channels svc)\<rparr>"
  by (induction ps arbitrary: svc) (auto simp: send_def)

lemma replace_config_simps:
  "replace_config conf svc =
     (if credentials_changed (auth_conf (auth svc)) conf
      then svc\<lparr>auth := (auth svc)\<lparr>auth_conf := conf, generation := u64_succ (generation (auth svc)), auth_cache := [], pending := []\<rparr>,
               channels := fold (\<lambda>(_, c). hm_put c (Some Unauthorized)) (pending (auth svc)) (channels svc)\<rparr>
      else svc\<lparr>auth := (auth svc)\<lparr>auth_conf := conf\<rparr>\<rparr>)"
  by (simp add: replace_config_def Let_def fold_send)

lemma running_put:
  assumes "maps_ok svc" and "hm_get (verifications svc) c = Some v"
  shows "entries_with (\<lambda>v. vf_phase v = Verifying) (hm_put c w (verifications svc)) + of_bool (vf_phase v = Verifying)
    = running svc + of_bool (vf_phase w = Verifying)"
  using assms entries_with_put [of "verifications svc" "\<lambda>v. vf_phase v = Verifying" c w] by (simp add: maps_ok_def running_def)

lemma running_remove:
  assumes "maps_ok svc" and "hm_get (verifications svc) c = Some v" and "vf_phase v \<noteq> Verifying"
  shows "entries_with (\<lambda>v. vf_phase v = Verifying) (hm_remove c (verifications svc)) = running svc"
  using assms entries_with_remove [of "verifications svc" "\<lambda>v. vf_phase v = Verifying" c] by (simp add: maps_ok_def running_def)

lemma running_present: "hm_get (verifications svc) c = Some v \<Longrightarrow> vf_phase v = Verifying \<Longrightarrow> 0 < running svc"
  unfolding running_def by (rule entries_with_present)

lemma oldest_entry_in: "oldest_entry m = Some x \<Longrightarrow> x \<in> set m"
  by (induction m arbitrary: x) (auto split: option.splits if_splits)

lemma oldest_entry_None: "oldest_entry m = None \<longleftrightarrow> m = []"
  by (cases m) (auto split: option.splits)

lemma cache_insert_simps [simp]:
  "pending (cache_insert key now st) = pending st" "generation (cache_insert key now st) = generation st"
  "auth_conf (cache_insert key now st) = auth_conf st"
  by (simp_all add: cache_insert_def Let_def)

text \<open>Room is made for a new entry by dropping one, so the capacity is kept.\<close>

lemma cache_insert_bounded:
  assumes ok: "hm_ok (auth_cache st)" and "length (auth_cache st) \<le> CACHE_CAPACITY"
  shows "hm_ok (auth_cache (cache_insert key now st)) \<and> length (auth_cache (cache_insert key now st)) \<le> CACHE_CAPACITY"
proof (cases "CACHE_CAPACITY \<le> length (auth_cache st)")
  case True
  then have "auth_cache st \<noteq> []" by (auto simp: CACHE_CAPACITY_def)
  then obtain k e where k: "oldest_entry (auth_cache st) = Some (k, e)" by (metis oldest_entry_None option.exhaust surj_pair)
  from oldest_entry_in [OF k] have "k \<in> fst ` set (auth_cache st)" by force
  then have "hm_get (auth_cache st) k \<noteq> None" by (simp add: map_of_eq_None_iff)
  then show ?thesis using assms True k \<open>auth_cache st \<noteq> []\<close>
    by (auto simp: cache_insert_def Let_def length_hm_put length_hm_remove hm.ok_put hm.ok_remove CACHE_CAPACITY_def)
next
  case False
  then show ?thesis using ok by (auto simp: cache_insert_def Let_def length_hm_put hm.ok_put)
qed

lemma begin_bounded:
  assumes b: "within_bounds svc hashing" and run: "begin_authorize env now h svc = (r, svc')"
  shows "within_bounds svc' hashing"
proof -
  have ok: "hm_ok (auth_cache (auth svc))" "hm_ok (pending (auth svc))" "hm_ok (verifications svc)"
    and len: "length (auth_cache (auth svc)) \<le> CACHE_CAPACITY" "length (pending (auth svc)) \<le> MAX_PENDING"
    and chan: "\<And>c v. hm_get (verifications svc) c = Some v \<Longrightarrow> c < next_channel svc"
    using b by (auto simp: within_bounds_def maps_ok_def)
  let ?kept = "hm_retain (\<lambda>_ e. now - verified_at e < CACHE_TTL) (auth_cache (auth svc))"
  have kept: "hm_ok ?kept" "length ?kept \<le> CACHE_CAPACITY"
    using ok len length_hm_retain [of _ "auth_cache (auth svc)"] by (auto intro: hm_ok_retain le_trans)
  from run show ?thesis
  proof (cases rule: begin_cases)
    case (hit password entry)
    then have "hm_get ?kept (auth_key env (trim (login_user (auth_conf (auth svc)))) password) = Some entry" by simp
    then show ?thesis using b kept hit(4)
      by (simp add: within_bounds_def maps_ok_def running_def touched_def length_hm_put hm.ok_put)
  next
    case (spawned password)
    have "hm_get (verifications svc) (next_channel svc) = None" using chan by fastforce
    then have same: "entries_with P (hm_put (next_channel svc) w (verifications svc)) = entries_with P (verifications svc)"
      if "\<not> P w" for P w using entries_with_put [OF ok(3), of P "next_channel svc" w] that by simp
    show ?thesis using b kept spawned(2,3,5) chan ok
      by (auto simp: within_bounds_def maps_ok_def running_def spawned_def Let_def length_hm_put hm.ok_put
          hm_get_put same less_Suc_eq)
  qed (use b kept in \<open>simp_all add: within_bounds_def maps_ok_def running_def\<close>)
qed

lemma start_bounded:
  assumes b: "within_bounds svc hashing" and v: "hm_get (verifications svc) c = Some v" "vf_phase v = Queued"
    and "0 < permits svc"
  shows "within_bounds (verify_start c v svc) hashing"
proof -
  have m: "maps_ok svc" using b by (simp add: within_bounds_def)
  show ?thesis
    using b m assms(4) v running_put [OF m v(1), of "v\<lparr>vf_phase := Verifying\<rparr>"] running_remove [OF m v(1)]
    by (auto simp: verify_start_def within_bounds_def maps_ok_def running_def hm.ok_put hm.ok_remove hm_get_put hm_get_remove)
qed

lemma blocking_bounded:
  assumes b: "within_bounds svc hashing" and v: "hm_get (verifications svc) c = Some v" "vf_phase v = Verifying"
  shows "within_bounds (verify_blocking c v outcome svc) hashing"
proof -
  have m: "maps_ok svc" using b by (simp add: within_bounds_def)
  show ?thesis
    using b m v running_present [OF v] running_put [OF m v(1), of "v\<lparr>vf_phase := Verified
      (case outcome of Some valid \<Rightarrow> if valid then Allowed else Unauthorized | None \<Rightarrow> Failed)\<rparr>"]
    by (auto simp: verify_blocking_def Let_def within_bounds_def maps_ok_def running_def hm.ok_put hm_get_put)
qed

lemma commit_bounded:
  assumes b: "within_bounds svc hashing" and v: "hm_get (verifications svc) c = Some v" "vf_phase v = Verified d"
  shows "within_bounds (verify_commit now c v d svc) hashing"
proof -
  have m: "maps_ok svc" using b by (simp add: within_bounds_def)
  let ?st = "(auth svc)\<lparr>pending := hm_remove (vf_key v) (pending (auth svc))\<rparr>"
  have "hm_ok (auth_cache ?st)" "length (auth_cache ?st) \<le> CACHE_CAPACITY"
    using b by (simp_all add: within_bounds_def maps_ok_def)
  note ins = cache_insert_bounded [OF this, of "vf_key v" now]
  have "length (hm_remove (vf_key v) (pending (auth svc))) \<le> MAX_PENDING"
    using b m by (auto simp: within_bounds_def maps_ok_def length_hm_remove)
  then show ?thesis
    using b m v ins running_remove [OF m v(1)]
    by (auto simp: verify_commit_def Let_def within_bounds_def maps_ok_def running_def hm.ok_remove hm_get_remove)
qed

lemma replace_bounded: "within_bounds svc hashing \<Longrightarrow> within_bounds (replace_config conf svc) hashing"
  by (simp add: replace_config_simps within_bounds_def maps_ok_def running_def hm_ok_def)

lemma reachable_bounded: "auth_reachable env n s \<Longrightarrow> within_bounds (fst s) (snd (snd s))"
proof (induction rule: auth_reachable.induct)
  case (fresh conf)
  show ?case by (simp add: within_bounds_def maps_ok_def running_def auth_new_def hm_ok_def)
next
  case (answer n svc ws hashing now h d svc')
  then show ?case using begin_bounded by fastforce
next
  case (wait n svc ws hashing now h c g svc')
  then show ?case using begin_bounded by fastforce
next
  case (hash n svc ws hashing)
  then show ?case by (simp add: within_bounds_def maps_ok_def running_def)
next
  case (hashed n svc ws hashing)
  then show ?case by (simp add: within_bounds_def maps_ok_def running_def)
qed (simp_all add: start_bounded blocking_bounded commit_bounded replace_bounded)

text \<open>
  C19. However requests, verifications, password changes and reconfigurations interleave, the cache
  never holds more than 256 credentials, no more than 32 verifications are pending, and no more
  than two password computations run at once.
\<close>

theorem auth_bounded:
  assumes "auth_reachable env n (svc, ws, hashing)"
  shows "length (auth_cache (auth svc)) \<le> 256 \<and> length (pending (auth svc)) \<le> 32 \<and> running svc + hashing \<le> 2"
  using reachable_bounded [OF assms]
  by (simp add: within_bounds_def CACHE_CAPACITY_def MAX_PENDING_def VERIFY_PERMITS_def)

section \<open>Who is let in\<close>

definition user_of :: "'k auth_service \<Rightarrow> string" where
  "user_of svc = trim (login_user (auth_conf (auth svc)))"

definition hash_of :: "'k auth_service \<Rightarrow> string" where
  "hash_of svc = login_password (auth_conf (auth svc))"

definition cache_sound :: "'k auth_env \<Rightarrow> 'k auth_service \<Rightarrow> bool" where
  "cache_sound env svc \<longleftrightarrow> (\<forall>k e. hm_get (auth_cache (auth svc)) k = Some e \<longrightarrow>
     (\<exists>p. k = auth_key env (user_of svc) p \<and> verify_password_hash env p (hash_of svc)))"

definition verification_sound :: "'k auth_env \<Rightarrow> 'k auth_service \<Rightarrow> nat \<Rightarrow> 'k verification \<Rightarrow> bool" where
  "verification_sound env svc c v \<longleftrightarrow> c < next_channel svc \<and> vf_generation v \<le> generation (auth svc)
     \<and> (vf_phase v = Verified Allowed \<longrightarrow> verify_password_hash env (vf_candidate v) (vf_hash v))
     \<and> (vf_generation v = generation (auth svc) \<longrightarrow>
          vf_key v = auth_key env (user_of svc) (vf_candidate v) \<and> vf_hash v = hash_of svc
          \<and> hm_get (pending (auth svc)) (vf_key v) = Some c \<and> hm_get (channels svc) c = Some None)"

definition pending_sound :: "'k auth_service \<Rightarrow> bool" where
  "pending_sound svc \<longleftrightarrow> (\<forall>k c. hm_get (pending (auth svc)) k = Some c \<longrightarrow>
     (\<exists>v. hm_get (verifications svc) c = Some v \<and> vf_key v = k \<and> vf_generation v = generation (auth svc)))"

definition waiter_sound :: "'k auth_env \<Rightarrow> 'k auth_service \<Rightarrow> waiter \<Rightarrow> bool" where
  "waiter_sound env svc w \<longleftrightarrow> w_channel w < next_channel svc \<and> w_generation w \<le> generation (auth svc)
     \<and> (w_generation w = generation (auth svc) \<longrightarrow> (\<exists>p. presented env (w_header w) = Some (user_of svc, p)
          \<and> (case hm_get (verifications svc) (w_channel w) of
               Some v \<Rightarrow> vf_generation v = w_generation w \<and> vf_key v = auth_key env (user_of svc) p
             | None \<Rightarrow> hm_get (channels svc) (w_channel w) = Some (Some Allowed)
                         \<longrightarrow> verify_password_hash env p (hash_of svc))))"

definition sound :: "'k auth_env \<Rightarrow> nat \<Rightarrow> 'k auth_service \<Rightarrow> waiter list \<Rightarrow> bool" where
  "sound env n svc ws \<longleftrightarrow> maps_ok svc \<and> generation (auth svc) = n \<and> cache_sound env svc \<and> pending_sound svc
     \<and> (\<forall>c v. hm_get (verifications svc) c = Some v \<longrightarrow> verification_sound env svc c v)
     \<and> (\<forall>w\<in>set ws. waiter_sound env svc w)"

lemmas sound_defs = sound_def cache_sound_def pending_sound_def verification_sound_def waiter_sound_def
  user_of_def hash_of_def

text \<open>The digest is injective on messages, so a key determines the password under a user.\<close>

lemma auth_key_inj: "inj (digest env) \<Longrightarrow> auth_key env u p = auth_key env u q \<longleftrightarrow> p = q"
  by (simp add: auth_key_def inj_eq)

lemma maps_okI: "within_bounds svc hashing \<Longrightarrow> maps_ok svc"
  by (simp add: within_bounds_def)

lemma fresh_channel:
  assumes "maps_ok svc" shows "hm_get (verifications svc) (next_channel svc) = None"
  using assms by (fastforce simp: maps_ok_def)

text \<open>A step that only touches the cache, leaving no entry that was not there.\<close>

lemma sound_cache_step:
  assumes "sound env n svc ws" and "st = (auth svc)\<lparr>auth_cache := cache, access_counter := a\<rparr>" and "hm_ok cache"
    and "\<And>k e. hm_get cache k = Some e \<Longrightarrow> hm_get (auth_cache (auth svc)) k \<noteq> None"
  shows "sound env n (svc\<lparr>auth := st\<rparr>) ws"
proof -
  let ?svc = "svc\<lparr>auth := st\<rparr>"
  have same: "verification_sound env ?svc c v = verification_sound env svc c v" "pending_sound ?svc = pending_sound svc"
    "waiter_sound env ?svc w = waiter_sound env svc w" for c v w
    unfolding assms(2) by (simp_all add: verification_sound_def pending_sound_def waiter_sound_def user_of_def hash_of_def
        cong: option.case_cong)
  have "cache_sound env ?svc"
    using assms(1,4) unfolding assms(2) sound_def cache_sound_def user_of_def hash_of_def by simp
  moreover have "maps_ok ?svc" using assms(1,3) unfolding assms(2) sound_def maps_ok_def by simp
  ultimately show ?thesis using assms(1) unfolding sound_def same by (simp add: assms(2))
qed

lemma swept_sound:
  assumes "sound env n svc ws" shows "sound env n (svc\<lparr>auth := swept now (auth svc)\<rparr>) ws"
  using assms
  by (intro sound_cache_step [OF assms, where a = "u64_succ (access_counter (auth svc))"])
    (auto simp: swept_def sound_def maps_ok_def hm_ok_retain hm_get_retain split: option.splits)

lemma user_hash_simps [simp]:
  "user_of (svc\<lparr>auth := st\<rparr>) = trim (login_user (auth_conf st))" "hash_of (svc\<lparr>auth := st\<rparr>) = login_password (auth_conf st)"
  "user_of (svc\<lparr>verifications := vs\<rparr>) = user_of svc" "hash_of (svc\<lparr>verifications := vs\<rparr>) = hash_of svc"
  "user_of (svc\<lparr>permits := m\<rparr>) = user_of svc" "hash_of (svc\<lparr>permits := m\<rparr>) = hash_of svc"
  "user_of (end_verification c d svc) = user_of svc" "hash_of (end_verification c d svc) = hash_of svc"
  by (simp_all add: user_of_def hash_of_def)

lemma touched_sound:
  assumes s: "sound env n svc ws" and "hm_get (auth_cache (swept now (auth svc))) key = Some entry"
  shows "sound env n (svc\<lparr>auth := touched key entry (swept now (auth svc))\<rparr>) ws"
proof -
  let ?kept = "auth_cache (swept now (auth svc))"
  have ok: "hm_ok (auth_cache (auth svc))" using s by (simp add: sound_def maps_ok_def)
  have "hm_get ?kept k = Some e \<Longrightarrow> hm_get (auth_cache (auth svc)) k \<noteq> None" for k e
    by (auto simp: hm_get_retain [OF ok] split: option.splits)
  then show ?thesis using assms ok
    by (intro sound_cache_step [OF s, where a = "access_counter (swept now (auth svc))"
            and cache = "hm_put key (entry\<lparr>last_access := access_counter (swept now (auth svc))\<rparr>) ?kept"])
      (auto simp: touched_def swept_def hm_get_put hm_ok_retain hm.ok_put split: if_splits)
qed

lemma spawned_sound:
  assumes s: "sound env n svc ws" and given: "presented env h = Some (user_of svc, password)"
    and new: "hm_get (pending (auth svc)) (auth_key env (user_of svc) password) = None"
  shows "sound env n (spawned env now password svc) (\<lparr>w_header = h, w_channel = next_channel svc, w_generation = generation (auth svc)\<rparr> # ws)"
proof -
  let ?svc = "spawned env now password svc" and ?c = "next_channel svc"
  have m: "maps_ok svc" and g: "generation (auth svc) = n" using s by (simp_all add: sound_def)
  note free = fresh_channel [OF m]
  have vs: "hm_get (verifications ?svc) c =
      (if c = ?c then Some \<lparr>vf_key = auth_key env (user_of svc) password, vf_generation = generation (auth svc),
         vf_candidate = password, vf_hash = hash_of svc, vf_phase = Queued\<rparr> else hm_get (verifications svc) c)" for c
    by (simp add: spawned_def Let_def hm_get_put user_of_def hash_of_def)
  have ps: "hm_get (pending (auth ?svc)) k = (if k = auth_key env (user_of svc) password then Some ?c
      else hm_get (pending (auth svc)) k)" for k
    by (simp add: spawned_def Let_def hm_get_put user_of_def)
  have cs: "hm_get (channels ?svc) c = (if c = ?c then Some None else hm_get (channels svc) c)" for c
    by (simp add: spawned_def Let_def hm_get_put)
  have rest: "user_of ?svc = user_of svc" "hash_of ?svc = hash_of svc" "generation (auth ?svc) = n" "next_channel ?svc = Suc ?c"
    using g by (simp_all add: spawned_def Let_def user_of_def hash_of_def)
  have ok: "maps_ok ?svc"
    using m by (auto simp: maps_ok_def spawned_def Let_def hm.ok_put hm_ok_retain hm_get_put less_Suc_eq)
  have cache: "cache_sound env ?svc"
    using s m unfolding sound_def cache_sound_def rest
    by (auto simp: spawned_def Let_def maps_ok_def hm_get_retain split: option.splits if_splits)
  have "hm_get (pending (auth svc)) k \<noteq> Some ?c" for k
    using s free unfolding sound_def pending_sound_def by (metis option.distinct(1))
  then have pend: "pending_sound ?svc"
    using s unfolding sound_def pending_sound_def rest ps vs g by auto
  have verif: "verification_sound env ?svc c v" if "hm_get (verifications ?svc) c = Some v" for c v
  proof (cases "c = ?c")
    case True
    then show ?thesis using that vs by (auto simp: verification_sound_def rest ps cs g)
  next
    case False
    then have v: "verification_sound env svc c v" using that vs s by (auto simp: sound_def)
    then have "vf_generation v = n \<Longrightarrow> vf_key v \<noteq> auth_key env (user_of svc) password"
      using new g by (auto simp: verification_sound_def)
    then show ?thesis using v False by (auto simp: verification_sound_def rest ps cs g)
  qed
  have "waiter_sound env ?svc w" if "w \<in> set ws" for w
  proof -
    have w: "waiter_sound env svc w" using s that by (simp add: sound_def)
    then have "w_channel w \<noteq> ?c" by (auto simp: waiter_sound_def)
    then show ?thesis using w unfolding waiter_sound_def rest vs cs g by simp
  qed
  moreover have "waiter_sound env ?svc \<lparr>w_header = h, w_channel = ?c, w_generation = generation (auth svc)\<rparr>"
    using given g by (simp add: waiter_sound_def rest vs)
  ultimately show ?thesis using ok cache pend verif rest by (simp add: sound_def)
qed

lemma joined_sound:
  assumes s: "sound env n svc ws" and given: "presented env h = Some (user_of svc, password)"
    and there: "hm_get (pending (auth svc)) (auth_key env (user_of svc) password) = Some c"
  shows "sound env n svc (\<lparr>w_header = h, w_channel = c, w_generation = generation (auth svc)\<rparr> # ws)"
proof -
  obtain v where v: "hm_get (verifications svc) c = Some v" "vf_key v = auth_key env (user_of svc) password"
    "vf_generation v = generation (auth svc)"
    using s there unfolding sound_def pending_sound_def by blast
  have "verification_sound env svc c v" using s v by (simp add: sound_def)
  then have "waiter_sound env svc \<lparr>w_header = h, w_channel = c, w_generation = generation (auth svc)\<rparr>"
    using given v by (simp add: waiter_sound_def verification_sound_def)
  then show ?thesis using s by (simp add: sound_def)
qed

lemma begin_sound:
  assumes s: "sound env n svc ws" and run: "begin_authorize env now h svc = (r, svc')"
  shows "case r of Inl d \<Rightarrow> sound env n svc' ws
    | Inr (c, g) \<Rightarrow> sound env n svc' (\<lparr>w_header = h, w_channel = c, w_generation = g\<rparr> # ws)"
  using run
proof (cases rule: begin_cases)
  case (hit password entry)
  then show ?thesis using touched_sound [OF s hit(2)] by simp
next
  case (joined password c)
  then show ?thesis
    using joined_sound [OF swept_sound [OF s, of now], where h = h and password = password and c = c]
    by (simp add: user_of_def)
next
  case (spawned password)
  then show ?thesis using spawned_sound [OF s, where h = h and password = password and now = now] by (simp add: user_of_def)
qed (use s swept_sound [OF s] in simp_all)

text \<open>Ending a verification whose channel gets \<open>d\<close>; \<open>rest\<close> is the state with its pending entry gone.\<close>

lemma ended_sound:
  assumes s: "sound env n svc ws" and v: "hm_get (verifications svc) c = Some v"
    and d: "d = Allowed \<Longrightarrow> vf_generation v = n \<Longrightarrow> verify_password_hash env (vf_candidate v) (hash_of svc)"
    and st: "st = (if vf_generation v = n then (auth svc)\<lparr>pending := hm_remove (vf_key v) (pending (auth svc))\<rparr> else auth svc)"
    and inj: "inj (digest env)"
  shows "sound env n (end_verification c d (svc\<lparr>auth := st\<rparr>)) ws"
proof -
  let ?svc = "end_verification c d (svc\<lparr>auth := st\<rparr>)"
  have m: "maps_ok svc" and g: "generation (auth svc) = n" using s by (simp_all add: sound_def)
  have vs: "hm_get (verifications ?svc) k = (if k = c then None else hm_get (verifications svc) k)" for k
    by (simp add: hm_get_remove)
  have ps: "hm_get (pending (auth ?svc)) k =
      (if vf_generation v = n \<and> k = vf_key v then None else hm_get (pending (auth svc)) k)" for k
    by (simp add: st hm_get_remove)
  have cs: "hm_get (channels ?svc) k = (if k = c then Some (Some d) else hm_get (channels svc) k)" for k
    by (simp add: hm_get_put)
  have rest: "user_of ?svc = user_of svc" "hash_of ?svc = hash_of svc" "generation (auth ?svc) = n"
    "next_channel ?svc = next_channel svc" "auth_cache (auth ?svc) = auth_cache (auth svc)"
    using g by (simp_all add: st user_of_def hash_of_def)
  have sv: "verification_sound env svc c v" using s v by (simp add: sound_def)
  have ok: "maps_ok ?svc" using m by (auto simp: maps_ok_def st hm.ok_remove hm_get_remove)
  have cache: "cache_sound env ?svc" using s unfolding sound_def cache_sound_def rest by blast
  have pend: "pending_sound ?svc"
    unfolding pending_sound_def
  proof (intro allI impI)
    fix k x assume "hm_get (pending (auth ?svc)) k = Some x"
    then have k: "hm_get (pending (auth svc)) k = Some x" "\<not> (vf_generation v = n \<and> k = vf_key v)"
      unfolding ps by (simp_all split: if_splits)
    then obtain u where u: "hm_get (verifications svc) x = Some u" "vf_key u = k" "vf_generation u = n"
      using s unfolding sound_def pending_sound_def by blast
    have "x \<noteq> c" using k v u by auto
    with u show "\<exists>v. hm_get (verifications ?svc) x = Some v \<and> vf_key v = k \<and> vf_generation v = generation (auth ?svc)"
      unfolding vs rest by simp
  qed
  have verif: "verification_sound env ?svc k u" if "hm_get (verifications ?svc) k = Some u" for k u
  proof -
    have u: "k \<noteq> c" "hm_get (verifications svc) k = Some u"
      using that unfolding vs by (simp_all split: if_splits)
    then have su: "verification_sound env svc k u" using s by (simp add: sound_def)
    have "vf_generation u = n \<Longrightarrow> vf_generation v = n \<Longrightarrow> vf_key u \<noteq> vf_key v"
      using su sv u(1) g by (auto simp: verification_sound_def)
    then show ?thesis using su u(1) unfolding verification_sound_def rest ps cs g by auto
  qed
  have "waiter_sound env ?svc w" if "w \<in> set ws" for w
  proof -
    have w: "waiter_sound env svc w" using s that by (simp add: sound_def)
    show ?thesis
    proof (cases "w_channel w = c \<and> w_generation w = n")
      case True
      then obtain p where p: "presented env (w_header w) = Some (user_of svc, p)" "vf_generation v = n"
        "vf_key v = auth_key env (user_of svc) p"
        using w v g by (auto simp: waiter_sound_def)
      then have "p = vf_candidate v" using sv g auth_key_inj [OF inj] by (auto simp: verification_sound_def)
      then show ?thesis using w p d True g unfolding waiter_sound_def rest vs cs by auto
    next
      case False
      then show ?thesis using w g unfolding waiter_sound_def rest vs cs by auto
    qed
  qed
  then show ?thesis using ok cache pend verif rest by (simp add: sound_def)
qed

lemma record_same: "(auth svc)\<lparr>auth_cache := auth_cache (auth svc)\<rparr> = auth svc"
  by simp

text \<open>Inserting credentials the verifier accepted keeps the cache sound.\<close>

lemma insert_sound:
  assumes s: "sound env n svc ws" and key: "key = auth_key env (user_of svc) p" "verify_password_hash env p (hash_of svc)"
  shows "sound env n (svc\<lparr>auth := cache_insert key now (auth svc)\<rparr>) ws"
proof -
  let ?st = "cache_insert key now (auth svc)" and ?svc = "svc\<lparr>auth := cache_insert key now (auth svc)\<rparr>"
  have ok: "hm_ok (auth_cache (auth svc))" using s by (simp add: sound_def maps_ok_def)
  have "verification_sound env ?svc c v = verification_sound env svc c v" "pending_sound ?svc = pending_sound svc"
    "waiter_sound env ?svc w = waiter_sound env svc w" for c v w
    by (simp_all add: verification_sound_def pending_sound_def waiter_sound_def user_of_def hash_of_def
        cong: option.case_cong)
  moreover have "hm_ok (auth_cache ?st)"
    using ok by (auto simp: cache_insert_def Let_def hm.ok_put hm.ok_remove split: option.splits)
  moreover have "hm_get (auth_cache ?st) k = Some e \<Longrightarrow> k = key \<or> hm_get (auth_cache (auth svc)) k = Some e" for k e
    by (auto simp: cache_insert_def Let_def hm_get_put hm_get_remove split: option.splits if_splits)
  then have "cache_sound env ?svc"
    using s key unfolding sound_def cache_sound_def user_hash_simps cache_insert_simps
    by (simp add: user_of_def hash_of_def) blast
  ultimately show ?thesis using s by (simp add: sound_def maps_ok_def)
qed

lemma phase_sound:
  assumes s: "sound env n svc ws" and v: "hm_get (verifications svc) c = Some v"
    and ph: "ph = Verified Allowed \<Longrightarrow> verify_password_hash env (vf_candidate v) (vf_hash v)"
  shows "sound env n (svc\<lparr>permits := m, verifications := hm_put c (v\<lparr>vf_phase := ph\<rparr>) (verifications svc)\<rparr>) ws"
proof -
  let ?svc = "svc\<lparr>permits := m, verifications := hm_put c (v\<lparr>vf_phase := ph\<rparr>) (verifications svc)\<rparr>"
  have vs: "hm_get (verifications ?svc) k = (if k = c then Some (v\<lparr>vf_phase := ph\<rparr>) else hm_get (verifications svc) k)" for k
    by (simp add: hm_get_put)
  have rest: "user_of ?svc = user_of svc" "hash_of ?svc = hash_of svc" "auth ?svc = auth svc"
    "next_channel ?svc = next_channel svc" "channels ?svc = channels svc"
    by (simp_all add: user_of_def hash_of_def)
  have same: "verification_sound env ?svc k u = verification_sound env svc k u" for k u
    by (simp add: verification_sound_def rest)
  have "verification_sound env ?svc k u" if u: "hm_get (verifications ?svc) k = Some u" for k u
  proof (cases "k = c")
    case True
    have "verification_sound env svc c v" using s v by (simp add: sound_def)
    moreover have "u = v\<lparr>vf_phase := ph\<rparr>" using u True unfolding vs by simp
    ultimately show ?thesis unfolding same using True ph by (auto simp: verification_sound_def)
  next
    case False
    then show ?thesis using u s unfolding same vs by (simp add: sound_def)
  qed
  moreover have "waiter_sound env ?svc w" if "w \<in> set ws" for w
    using s v that unfolding sound_def waiter_sound_def rest vs by (auto split: option.splits)
  moreover have "pending_sound ?svc"
    unfolding pending_sound_def rest
  proof (intro allI impI)
    fix k x assume "hm_get (pending (auth svc)) k = Some x"
    then obtain u where "hm_get (verifications svc) x = Some u" "vf_key u = k" "vf_generation u = generation (auth svc)"
      using s unfolding sound_def pending_sound_def by blast
    then show "\<exists>u. hm_get (verifications ?svc) x = Some u \<and> vf_key u = k \<and> vf_generation u = generation (auth svc)"
      unfolding vs using v by auto
  qed
  moreover have "cache_sound env ?svc" using s unfolding sound_def cache_sound_def rest by blast
  moreover have "maps_ok ?svc" using s v by (auto simp: sound_def maps_ok_def hm.ok_put hm_get_put)
  ultimately show ?thesis using s by (simp add: sound_def)
qed

lemma commit_sound:
  assumes s: "sound env n svc ws" and v: "hm_get (verifications svc) c = Some v" "vf_phase v = Verified d"
    and inj: "inj (digest env)"
  shows "sound env n (verify_commit now c v d svc) ws"
proof (cases "vf_generation v = n")
  case False
  then show ?thesis using ended_sound [OF s v(1) _ _ inj, of Unauthorized "auth svc"] s
    by (simp add: verify_commit_def sound_def)
next
  case True
  have g: "generation (auth svc) = n" using s by (simp add: sound_def)
  have sv: "verification_sound env svc c v" using s v by (simp add: sound_def)
  then have key: "vf_key v = auth_key env (user_of svc) (vf_candidate v)" "vf_hash v = hash_of svc"
    using True g by (simp_all add: verification_sound_def)
  let ?st = "(auth svc)\<lparr>pending := hm_remove (vf_key v) (pending (auth svc))\<rparr>"
  have right: "d = Allowed \<Longrightarrow> verify_password_hash env (vf_candidate v) (hash_of svc)"
    using sv v(2) key by (simp add: verification_sound_def)
  have e: "sound env n (end_verification c d (svc\<lparr>auth := ?st\<rparr>)) ws"
    using True right by (intro ended_sound [OF s v(1) _ _ inj]) simp_all
  show ?thesis
  proof (cases "d = Allowed")
    case False
    then show ?thesis using e True g by (simp add: verify_commit_def Let_def)
  next
    case allowed: True
    have "(end_verification c d (svc\<lparr>auth := ?st\<rparr>))\<lparr>auth := cache_insert (vf_key v) now ?st\<rparr>
        = verify_commit now c v d svc"
      using True g allowed by (simp add: verify_commit_def Let_def end_verification_def send_def)
    then show ?thesis
      using insert_sound [OF e, where p = "vf_candidate v" and key = "vf_key v" and now = now] key right allowed
      by (simp add: user_of_def hash_of_def)
  qed
qed

lemma start_sound:
  assumes s: "sound env n svc ws" and v: "hm_get (verifications svc) c = Some v" "vf_phase v = Queued"
    and inj: "inj (digest env)"
  shows "sound env n (verify_start c v svc) ws"
proof (cases "vf_generation v = n")
  case True
  then show ?thesis using phase_sound [OF s v(1), of Verifying] s by (simp add: verify_start_def sound_def)
next
  case False
  then show ?thesis using ended_sound [OF s v(1) _ _ inj, of Unauthorized "auth svc"] s
    by (simp add: verify_start_def sound_def)
qed

lemma blocking_sound:
  assumes s: "sound env n svc ws" and v: "hm_get (verifications svc) c = Some v"
    and "outcome = None \<or> outcome = Some (verify_password_hash env (vf_candidate v) (vf_hash v))"
  shows "sound env n (verify_blocking c v outcome svc) ws"
  unfolding verify_blocking_def Let_def
  using assms(3) by (intro phase_sound [OF s v]) (auto split: option.splits if_splits)

lemma replace_sound:
  assumes s: "sound env n svc ws" and n: "credentials_changed (auth_conf (auth svc)) conf \<Longrightarrow> Suc n < 2 ^ 64"
  shows "sound env (if credentials_changed (auth_conf (auth svc)) conf then Suc n else n) (replace_config conf svc) ws"
proof (cases "credentials_changed (auth_conf (auth svc)) conf")
  case True
  have g: "u64_succ (generation (auth svc)) = Suc n" using s n True by (simp add: sound_def u64_succ_def)
  have "verification_sound env (replace_config conf svc) c v" if "hm_get (verifications svc) c = Some v" for c v
  proof -
    have "verification_sound env svc c v" using s that by (simp add: sound_def)
    then show ?thesis using s g True by (simp add: replace_config_simps verification_sound_def sound_def)
  qed
  moreover have "waiter_sound env (replace_config conf svc) w" if "w \<in> set ws" for w
  proof -
    have "waiter_sound env svc w" using s that by (simp add: sound_def)
    then show ?thesis using s g True by (simp add: replace_config_simps waiter_sound_def sound_def)
  qed
  ultimately show ?thesis
    using s g True
    by (simp add: sound_def replace_config_simps maps_ok_def cache_sound_def pending_sound_def hm_ok_def)
next
  case False
  then have same: "trim (login_user conf) = user_of svc" "login_password conf = hash_of svc"
    by (simp_all add: credentials_changed_def user_of_def hash_of_def)
  let ?svc = "svc\<lparr>auth := (auth svc)\<lparr>auth_conf := conf\<rparr>\<rparr>"
  have eq: "user_of ?svc = user_of svc" "hash_of ?svc = hash_of svc" using same by simp_all
  have "verification_sound env ?svc c v = verification_sound env svc c v" "pending_sound ?svc = pending_sound svc"
    "waiter_sound env ?svc w = waiter_sound env svc w" "cache_sound env ?svc = cache_sound env svc" for c v w
    unfolding verification_sound_def waiter_sound_def cache_sound_def eq by (simp_all add: pending_sound_def cong: option.case_cong)
  then show ?thesis using s False by (simp add: replace_config_simps sound_def maps_ok_def)
qed

lemma sound_permits: "sound env n (svc\<lparr>permits := m\<rparr>) ws = sound env n svc ws"
  by (simp add: sound_def maps_ok_def cache_sound_def pending_sound_def verification_sound_def waiter_sound_def
      cong: option.case_cong)

lemma reachable_sound:
  assumes "auth_reachable env n s" and "n < 2 ^ 64" and inj: "inj (digest env)"
  shows "sound env n (fst s) (fst (snd s))"
  using assms(1,2)
proof (induction rule: auth_reachable.induct)
  case (fresh conf)
  show ?case by (simp add: sound_def auth_new_def maps_ok_def hm_ok_def cache_sound_def pending_sound_def)
next
  case (answer n svc ws hashing now h d svc')
  then show ?case using begin_sound [OF _ answer(2), where n = n and ws = ws] by simp
next
  case (wait n svc ws hashing now h c g svc')
  then show ?case using begin_sound [OF _ wait(2), where n = n and ws = ws] by simp
next
  case (permit n svc ws hashing c v)
  then show ?case using start_sound [OF _ permit(2,3) inj] by simp
next
  case (check n svc ws hashing c v outcome)
  then show ?case using blocking_sound [OF _ check(2,4)] by simp
next
  case (commit n svc ws hashing c v d now)
  then show ?case using commit_sound [OF _ commit(2,3) inj] by simp
next
  case (wake n svc ws hashing w d)
  then have "sound env n svc ws" by simp
  moreover have "set (remove1 w ws) \<subseteq> set ws" by (rule set_remove1_subset)
  ultimately show ?case by (auto simp: sound_def)
next
  case (reconfigure n svc ws hashing conf)
  then show ?case using replace_sound [of env n svc ws conf] by (simp split: if_splits)
next
  case (hash n svc ws hashing)
  then show ?case by (simp add: sound_permits)
next
  case (hashed n svc ws hashing)
  then show ?case by (simp add: sound_permits)
qed

text \<open>
  C17. Nobody is let in on anything but the credentials asked for at that moment: as long as the
  generation counter has not wrapped and no two messages share a digest, whenever a request is
  allowed, at once or after its wait, the configuration in force when it is answered asks for no
  login, or the header names its user with a password its hash accepts. The cache, verifications
  shared between requests and configurations replaced meanwhile never let in anybody else.
\<close>

theorem allowed_are_entitled:
  assumes "auth_reachable env n (svc, ws, hashing)" and "n < 2 ^ 64" and "inj (digest env)"
  shows "(begin_authorize env now h svc = (Inl Allowed, svc') \<longrightarrow> entitled env (auth_conf (auth svc')) h)
    \<and> (w \<in> set ws \<longrightarrow> finish_authorize (w_channel w) (w_generation w) svc = Some Allowed
          \<longrightarrow> entitled env (auth_conf (auth svc)) (w_header w))"
proof (intro conjI impI)
  have s: "sound env n svc ws" using reachable_sound [OF assms] by simp
  { assume run: "begin_authorize env now h svc = (Inl Allowed, svc')"
    then show "entitled env (auth_conf (auth svc')) h"
    proof (cases rule: begin_cases)
      case disabled
      then show ?thesis by (simp add: entitled_def)
    next
      case (hit password entry)
      have "hm_ok (auth_cache (auth svc))" using s by (simp add: sound_def maps_ok_def)
      then obtain e where "hm_get (auth_cache (auth svc)) (auth_key env (user_of svc) password) = Some e"
        using hit(2) by (auto simp: hm_get_retain user_of_def split: option.splits)
      then obtain p where "auth_key env (user_of svc) password = auth_key env (user_of svc) p"
        "verify_password_hash env p (hash_of svc)"
        using s unfolding sound_def cache_sound_def by blast
      then show ?thesis using hit(1,4) auth_key_inj [OF assms(3)]
        by (simp add: entitled_def hash_of_def touched_def)
    qed simp_all }
  assume w: "w \<in> set ws" and woken: "finish_authorize (w_channel w) (w_generation w) svc = Some Allowed"
  have chan: "hm_get (channels svc) (w_channel w) = Some (Some Allowed)" and g: "generation (auth svc) = w_generation w"
    using woken by (auto simp: finish_authorize_def bind_eq_Some_conv split: option.splits if_splits)
  have "waiter_sound env svc w" using s w by (simp add: sound_def)
  then obtain p where p: "presented env (w_header w) = Some (user_of svc, p)"
    and right: "case hm_get (verifications svc) (w_channel w) of
       Some v \<Rightarrow> vf_generation v = w_generation w \<and> vf_key v = auth_key env (user_of svc) p
     | None \<Rightarrow> hm_get (channels svc) (w_channel w) = Some (Some Allowed) \<longrightarrow> verify_password_hash env p (hash_of svc)"
    using g [symmetric] unfolding waiter_sound_def by blast
  show "entitled env (auth_conf (auth svc)) (w_header w)"
  proof (cases "hm_get (verifications svc) (w_channel w)")
    case None
    then have "verify_password_hash env p (hash_of svc)" using right chan by simp
    then show ?thesis using p unfolding entitled_def user_of_def hash_of_def by blast
  next
    case (Some v)
    then have "verification_sound env svc (w_channel w) v" using s by (simp add: sound_def)
    then show ?thesis using Some right g chan by (simp add: verification_sound_def)
  qed
qed

section \<open>Every waiter is answered\<close>

text \<open>A channel in use has an answer, or a verification that will send one.\<close>

definition tended :: "'k auth_service \<Rightarrow> nat \<Rightarrow> bool" where
  "tended svc c \<longleftrightarrow> hm_get (channels svc) c \<noteq> None \<and>
     (hm_get (channels svc) c = Some None \<longrightarrow> hm_get (verifications svc) c \<noteq> None)"

lemma tended_end: "tended svc k \<Longrightarrow> tended (end_verification c d svc) k"
  by (auto simp: tended_def hm_get_put hm_get_remove)

lemma tended_auth: "tended (svc\<lparr>auth := st\<rparr>) c = tended svc c"
  by (simp add: tended_def)

lemma tended_phase: "tended svc k \<Longrightarrow> tended (svc\<lparr>permits := m, verifications := hm_put c v (verifications svc)\<rparr>) k"
  by (auto simp: tended_def hm_get_put)

lemma tended_spawned: "tended svc c \<Longrightarrow> c < next_channel svc \<Longrightarrow> tended (spawned env now password svc) c"
  and tended_new: "tended (spawned env now password svc) (next_channel svc)"
  by (simp_all add: spawned_def Let_def tended_def hm_get_put)

lemma fold_answers:
  "hm_get (fold (\<lambda>(_, c). hm_put c (Some d)) ps cs) k \<in> {Some (Some d), hm_get cs k}"
proof (induction ps arbitrary: cs)
  case (Cons p ps)
  then show ?case using Cons [of "hm_put (snd p) (Some d) cs"] by (cases p) (auto simp: hm_get_put split: if_splits)
qed simp

lemma tended_replace: "tended svc c \<Longrightarrow> tended (replace_config conf svc) c"
  using fold_answers [of Unauthorized "pending (auth svc)" "channels svc" c]
  by (auto simp: replace_config_simps tended_def)

lemma begin_tended:
  assumes s: "sound env n svc ws" and t: "\<And>w. w \<in> set ws \<Longrightarrow> tended svc (w_channel w)"
    and run: "begin_authorize env now h svc = (r, svc')"
  shows "(\<forall>w\<in>set ws. tended svc' (w_channel w)) \<and> (\<forall>c g. r = Inr (c, g) \<longrightarrow> tended svc' c)"
  using run
proof (cases rule: begin_cases)
  case (joined password c)
  then obtain v where v: "hm_get (verifications svc) c = Some v" "vf_generation v = generation (auth svc)"
    using s unfolding sound_def pending_sound_def by blast
  then have "verification_sound env svc c v" using s by (simp add: sound_def)
  then have "tended svc c" using v by (simp add: tended_def verification_sound_def)
  then show ?thesis using joined t by (simp add: tended_auth)
next
  case (spawned password)
  have "w_channel w < next_channel svc" if "w \<in> set ws" for w
    using s that by (auto simp: sound_def waiter_sound_def)
  then show ?thesis using spawned t by (simp add: tended_spawned tended_new)
qed (use t in \<open>simp_all add: tended_auth\<close>)

lemma reachable_tended:
  assumes "auth_reachable env n s" and "n < 2 ^ 64" and inj: "inj (digest env)" and "w \<in> set (fst (snd s))"
  shows "tended (fst s) (w_channel w)"
  using assms(1,2,4)
proof (induction arbitrary: w rule: auth_reachable.induct)
  case (answer n svc ws hashing now h d svc')
  have "sound env n svc ws" using reachable_sound [OF answer(1) answer(4) inj] by simp
  then show ?case using begin_tended [OF _ _ answer(2), where ws = ws] answer by fastforce
next
  case (wait n svc ws hashing now h c g svc')
  have "sound env n svc ws" using reachable_sound [OF wait(1) wait(4) inj] by simp
  then show ?case using begin_tended [OF _ _ wait(2), where ws = ws] wait by fastforce
next
  case (permit n svc ws hashing c v)
  then show ?case using tended_phase [of svc "w_channel w"] by (auto simp: verify_start_def tended_end)
next
  case (check n svc ws hashing c v outcome)
  then show ?case using tended_phase [of svc "w_channel w"] by (auto simp: verify_blocking_def Let_def)
next
  case (commit n svc ws hashing c v d now)
  then show ?case by (auto simp: verify_commit_def Let_def intro!: tended_end simp: tended_auth)
next
  case (wake n svc ws hashing x d)
  then show ?case using set_remove1_subset [of x ws] by auto
next
  case (reconfigure n svc ws hashing conf)
  then show ?case by (simp add: tended_replace split: if_splits)
next
  case (hash n svc ws hashing)
  then show ?case by (simp add: tended_def)
next
  case (hashed n svc ws hashing)
  then show ?case by (simp add: tended_def)
qed simp

text \<open>The steps of the verification tasks, which need no request and no further input.\<close>

inductive task_step :: "'k auth_env \<Rightarrow> 'k auth_service \<Rightarrow> 'k auth_service \<Rightarrow> bool" for env where
  permit: "hm_get (verifications svc) c = Some v \<Longrightarrow> vf_phase v = Queued \<Longrightarrow> 0 < permits svc
    \<Longrightarrow> task_step env svc (verify_start c v svc)"
| check: "hm_get (verifications svc) c = Some v \<Longrightarrow> vf_phase v = Verifying
    \<Longrightarrow> outcome = None \<or> outcome = Some (verify_password_hash env (vf_candidate v) (vf_hash v))
    \<Longrightarrow> task_step env svc (verify_blocking c v outcome svc)"
| commit: "hm_get (verifications svc) c = Some v \<Longrightarrow> vf_phase v = Verified d
    \<Longrightarrow> task_step env svc (verify_commit now c v d svc)"

definition task_work :: "'k auth_service \<Rightarrow> nat" where
  "task_work svc = entries_with (\<lambda>_. True) (verifications svc)
     + entries_with (\<lambda>v. vf_phase v = Queued \<or> vf_phase v = Verifying) (verifications svc)
     + entries_with (\<lambda>v. vf_phase v = Queued) (verifications svc)"

lemma task_step_reachable:
  "task_step env svc svc' \<Longrightarrow> auth_reachable env n (svc, ws, hashing) \<Longrightarrow> auth_reachable env n (svc', ws, hashing)"
  by (induction rule: task_step.induct) (auto intro: auth_reachable.intros)

lemma entries_with_le: "hm_ok m \<Longrightarrow> entries_with P (hm_remove k m) \<le> entries_with P m"
  using entries_with_remove [of m P k] by simp

lemma work_removed:
  assumes "hm_ok (verifications svc)" and "hm_get (verifications svc) c = Some v"
    and "verifications svc' = hm_remove c (verifications svc)"
  shows "task_work svc' < task_work svc"
  using assms entries_with_remove [OF assms(1), of "\<lambda>_. True" c]
    entries_with_le [OF assms(1), of "\<lambda>v. vf_phase v = Queued \<or> vf_phase v = Verifying" c]
    entries_with_le [OF assms(1), of "\<lambda>v. vf_phase v = Queued" c]
  by (simp add: task_work_def)

lemma work_advanced:
  assumes "hm_ok (verifications svc)" and "hm_get (verifications svc) c = Some v"
    and "verifications svc' = hm_put c (v\<lparr>vf_phase := ph\<rparr>) (verifications svc)"
    and "vf_phase v = Queued \<and> ph = Verifying \<or> vf_phase v = Verifying \<and> (\<exists>d. ph = Verified d)"
  shows "task_work svc' < task_work svc"
  using assms entries_with_put [OF assms(1), of "\<lambda>_. True" c "v\<lparr>vf_phase := ph\<rparr>"]
    entries_with_put [OF assms(1), of "\<lambda>v. vf_phase v = Queued \<or> vf_phase v = Verifying" c "v\<lparr>vf_phase := ph\<rparr>"]
    entries_with_put [OF assms(1), of "\<lambda>v. vf_phase v = Queued" c "v\<lparr>vf_phase := ph\<rparr>"]
  by (auto simp: task_work_def)

lemma task_step_work:
  assumes "task_step env svc svc'" and ok: "hm_ok (verifications svc)"
  shows "task_work svc' < task_work svc"
  using assms(1)
proof (cases rule: task_step.cases)
  case (permit c v)
  then show ?thesis
    using work_removed [OF ok permit(2)] work_advanced [OF ok permit(2), of svc' Verifying]
    by (auto simp: verify_start_def)
next
  case (check c v outcome)
  show ?thesis by (rule work_advanced [OF ok check(2)]) (auto simp: check(1,3) verify_blocking_def Let_def)
next
  case (commit c v d now)
  show ?thesis by (rule work_removed [OF ok commit(2)]) (auto simp: commit(1) verify_commit_def Let_def)
qed

lemma reachable_maps: "auth_reachable env n (svc, ws, hashing) \<Longrightarrow> hm_ok (verifications svc)"
  using reachable_bounded by (fastforce simp: within_bounds_def maps_ok_def)

lemma task_steps_bounded:
  "(task_step env ^^ k) svc svc' \<Longrightarrow> auth_reachable env n (svc, ws, hashing)
    \<Longrightarrow> auth_reachable env n (svc', ws, hashing) \<and> k + task_work svc' \<le> task_work svc"
proof (induction k arbitrary: svc')
  case (Suc k)
  then obtain t where t: "(task_step env ^^ k) svc t" "task_step env t svc'" by auto
  with Suc have "auth_reachable env n (t, ws, hashing)" "k + task_work t \<le> task_work svc" by auto
  moreover from this have "task_work svc' < task_work t"
    by (intro task_step_work [OF t(2)]) (rule reachable_maps)
  ultimately show ?case using task_step_reachable [OF t(2)] by auto
qed simp

lemma work_bound: fixes svc :: "'k auth_service" shows "task_work svc \<le> 3 * length (verifications svc)"
proof -
  have "entries_with P m \<le> length m" for P and m :: "(nat \<times> 'k verification) list"
    by (simp add: entries_with_def)
  from this [of "\<lambda>_. True" "verifications svc"] this [of "\<lambda>v. vf_phase v = Queued \<or> vf_phase v = Verifying" "verifications svc"]
    this [of "\<lambda>v. vf_phase v = Queued" "verifications svc"]
  show ?thesis by (simp add: task_work_def)
qed

text \<open>With a permit to be had, some verification can always go on.\<close>

lemma stuck_idle:
  assumes r: "auth_reachable env n (svc, ws, hashing)" and "hashing < 2" and stuck: "\<And>t. \<not> task_step env svc t"
  shows "hm_get (verifications svc) c = None"
proof (rule ccontr)
  assume "hm_get (verifications svc) c \<noteq> None"
  then obtain v where v: "hm_get (verifications svc) c = Some v" by auto
  have b: "permits svc + running svc + hashing = 2"
    using reachable_bounded [OF r] by (simp add: within_bounds_def VERIFY_PERMITS_def)
  have none: "vf_phase u \<noteq> Verifying" if "hm_get (verifications svc) k = Some u" for k u
    using stuck task_step.check [OF that] by blast
  have "running svc = 0"
    unfolding running_def entries_with_def using none reachable_maps [OF r]
    by (auto simp: filter_empty_conv hm_ok_def dest: map_of_is_SomeI)
  then have "0 < permits svc" using b assms(2) by simp
  then show False
    using stuck v none [OF v] task_step.permit [OF v, of env] task_step.commit [OF v, of _ env]
    by (cases "vf_phase v") blast+
qed

text \<open>
  C18. No request waits for ever: however the verification tasks are scheduled, they take at most three
  steps each, and once none of them can go on, every waiting request has its answer; password
  hashing may hold one of the two permits all the time.
\<close>

theorem waiters_answered:
  assumes "auth_reachable env n (svc, ws, hashing)" and "n < 2 ^ 64" and "inj (digest env)" and "hashing < 2"
    and "(task_step env ^^ k) svc svc'"
  shows "k \<le> 3 * length (verifications svc)
    \<and> ((\<forall>t. \<not> task_step env svc' t) \<longrightarrow>
        (\<forall>w\<in>set ws. \<exists>d. finish_authorize (w_channel w) (w_generation w) svc' = Some d))"
proof -
  have r: "auth_reachable env n (svc', ws, hashing)" and k: "k \<le> task_work svc"
    using task_steps_bounded [OF assms(5,1)] by auto
  have "\<exists>d. finish_authorize (w_channel w) (w_generation w) svc' = Some d"
    if "\<forall>t. \<not> task_step env svc' t" and w: "w \<in> set ws" for w
  proof -
    have "hm_get (verifications svc') (w_channel w) = None" using stuck_idle [OF r assms(4)] that(1) by blast
    moreover have "tended svc' (w_channel w)" using reachable_tended [OF r assms(2,3)] w by simp
    ultimately show ?thesis by (auto simp: tended_def finish_authorize_def)
  qed
  then show ?thesis using k work_bound [of svc] by auto
qed

section \<open>Instances\<close>

text \<open>Externals small enough to compute with: the digest is the message, the hash is the password.\<close>

definition plain_env :: "string auth_env" where
  "plain_env = \<lparr>digest = (\<lambda>m. m), header_text = Some, decode_base64 = Some, argon2_ok = (\<lambda>candidate stored. candidate = stored)\<rparr>"

definition greg_header :: "string option" where
  "greg_header = Some ''Basic greg:secret''"

definition greg_conf :: auth_config where
  "greg_conf = \<lparr>login_user = '' greg'', login_password = ''secret''\<rparr>"

definition greg_task :: "phase \<Rightarrow> string verification" where
  "greg_task ph = \<lparr>vf_key = auth_key plain_env ''greg'' ''secret'', vf_generation = 0, vf_candidate = ''secret'',
                   vf_hash = ''secret'', vf_phase = ph\<rparr>"

definition greg_waiter :: waiter where
  "greg_waiter = \<lparr>w_header = greg_header, w_channel = 0, w_generation = 0\<rparr>"

definition greg_waits :: "string auth_service" where
  "greg_waits = snd (begin_authorize plain_env 7 greg_header (auth_new greg_conf))"

definition greg_starts :: "string auth_service" where
  "greg_starts = verify_start 0 (greg_task Queued) greg_waits"

definition greg_checked :: "string auth_service" where
  "greg_checked = verify_blocking 0 (greg_task Verifying) (Some True) greg_starts"

definition greg_known :: "string auth_service" where
  "greg_known = verify_commit 9 0 (greg_task (Verified Allowed)) Allowed greg_checked"

lemma greg_reachable: "auth_reachable plain_env 0 (greg_waits, [greg_waiter], 0)"
proof -
  have "begin_authorize plain_env 7 greg_header (auth_new greg_conf) = (Inr (0, 0), greg_waits)" by code_simp
  from auth_reachable.wait [OF auth_reachable.fresh this] show ?thesis by (simp add: greg_waiter_def)
qed

lemma greg_steps: "(task_step plain_env ^^ 3) greg_waits greg_known"
proof -
  have tasks: "hm_get (verifications greg_waits) 0 = Some (greg_task Queued)" "0 < permits greg_waits"
    "hm_get (verifications greg_starts) 0 = Some (greg_task Verifying)"
    "hm_get (verifications greg_checked) 0 = Some (greg_task (Verified Allowed))" by code_simp+
  have phases: "vf_phase (greg_task ph) = ph" "vf_candidate (greg_task ph) = ''secret''" "vf_hash (greg_task ph) = ''secret''" for ph
    by (simp_all add: greg_task_def)
  have "task_step plain_env greg_waits greg_starts"
    unfolding greg_starts_def by (rule task_step.permit [OF tasks(1) phases(1) tasks(2)])
  moreover have "task_step plain_env greg_starts greg_checked"
    unfolding greg_checked_def
    by (rule task_step.check [OF tasks(3) phases(1)]) (simp add: phases verify_password_hash_def plain_env_def)
  moreover have "task_step plain_env greg_checked greg_known"
    unfolding greg_known_def by (rule task_step.commit [OF tasks(4) phases(1)])
  ultimately show ?thesis by (auto simp: numeral_3_eq_3)
qed

lemma greg_known_reachable: "auth_reachable plain_env 0 (greg_known, [greg_waiter], 0)"
  using task_steps_bounded [OF greg_steps greg_reachable] by simp

lemma plain_digest_inj: "inj (digest plain_env)"
  by (simp add: plain_env_def inj_on_def)

theorem auth_bounded_witness: "length (pending (auth greg_waits)) \<le> 32 \<and> length (pending (auth greg_waits)) = 1"
  using auth_bounded [OF greg_reachable] by (simp, code_simp)

theorem allowed_are_entitled_witness:
  "finish_authorize 0 0 greg_known = Some Allowed \<and> entitled plain_env (auth_conf (auth greg_known)) greg_header"
proof -
  have "finish_authorize 0 0 greg_known = Some Allowed" by code_simp
  then show ?thesis
    using allowed_are_entitled [OF greg_known_reachable _ plain_digest_inj, of 9 None greg_known greg_waiter]
    by (simp add: greg_waiter_def)
qed

theorem waiters_answered_witness:
  "3 \<le> 3 * length (verifications greg_waits) \<and> (\<exists>d. finish_authorize 0 0 greg_known = Some d)"
proof -
  have "hm_get (verifications greg_known) c = None" for c
  proof -
    have "verifications greg_known = []" by code_simp
    then show ?thesis by simp
  qed
  then have "\<forall>t. \<not> task_step plain_env greg_known t" by (auto elim: task_step.cases)
  then show ?thesis
    using waiters_answered [OF greg_reachable _ plain_digest_inj _ greg_steps] by (simp add: greg_waiter_def)
qed

end
