(* ===== verification/Modes.thy ===== *)
theory Modes
  imports Idioms
begin

text \<open>
  \<open>radio-io/src/modes.rs\<close> and \<open>message_mode.rs\<close>: the logger's modes, the modes a radio transmits them
  in, and the two message modes. The drivers and their capabilities come from the crate
  \<open>radio-cat-rs\<close>: they are arguments.
\<close>

section \<open>Logger modes\<close>

definition LOGGER_MODE_OPTIONS :: "string list" where
  "LOGGER_MODE_OPTIONS = [''CW'', ''CW-R'', ''SSB'', ''FM'', ''AM'', ''DATA'', ''RTTY'']"

definition normalize_logger_mode :: "string \<Rightarrow> string" where
  "normalize_logger_mode mode = to_upper (trim mode)"

definition is_selectable_mode :: "string \<Rightarrow> bool" where
  "is_selectable_mode mode \<longleftrightarrow> normalize_logger_mode mode \<in> set LOGGER_MODE_OPTIONS"

definition mode_is_cw :: "string \<Rightarrow> bool" where
  "mode_is_cw mode \<longleftrightarrow> normalize_logger_mode mode \<in> set [''CW'', ''CW-R'']"

definition mode_is_phone :: "string \<Rightarrow> bool" where
  "mode_is_phone mode \<longleftrightarrow> normalize_logger_mode mode \<in> set [''SSB'', ''FM'', ''AM'']"

definition mode_is_digital :: "string \<Rightarrow> bool" where
  "mode_is_digital mode \<longleftrightarrow> normalize_logger_mode mode \<in> set [''DATA'', ''RTTY'']"

definition adif_mode_for_logger_mode :: "string \<Rightarrow> string" where
  "adif_mode_for_logger_mode mode =
     (let n = normalize_logger_mode mode
      in if n = ''CW-R'' then ''CW'' else if n = ''DATA'' then ''RTTY'' else n)"

section \<open>Radio modes\<close>

text \<open>
  A driver's identifier with its transmit modes and whether it keys CW; \<open>cw\<close> is the support of
  its keyer, if it has one. A capability query may fail with a message.
\<close>

record 'm capabilities =
  tx_modes :: "'m list option"
  keyer_sends_cw :: "bool option"

type_synonym 'm drivers = "(string \<times> (string + 'm capabilities)) list"

definition driver_for_radio_kind :: "'m drivers \<Rightarrow> string \<Rightarrow> string + (string \<times> (string + 'm capabilities))" where
  "driver_for_radio_kind drivers kind =
     ok_or (find (\<lambda>(name, _). eq_ignore_case name (trim kind)) drivers) (''unsupported radio driver: '' @ trim kind)"

definition transmit_modes_for_radio_kind :: "'m drivers \<Rightarrow> string \<Rightarrow> string + 'm list" where
  "transmit_modes_for_radio_kind drivers kind =
     ebind (driver_for_radio_kind drivers kind) (\<lambda>(_, caps). ebind caps (\<lambda>c.
       Inr (case tx_modes c of Some modes \<Rightarrow> modes | None \<Rightarrow> [])))"

definition supports_cat_cw_keying_for_radio_kind :: "'m drivers \<Rightarrow> string \<Rightarrow> string + bool" where
  "supports_cat_cw_keying_for_radio_kind drivers kind =
     ebind (driver_for_radio_kind drivers kind) (\<lambda>(_, caps). ebind caps (\<lambda>c.
       Inr (case keyer_sends_cw c of Some supported \<Rightarrow> supported | None \<Rightarrow> False)))"

text \<open>The crate's modes, by the names the code uses, their texts and their parser.\<close>

record 'm radio_modes =
  Usb :: 'm
  DataUsb :: 'm
  Rtty :: 'm
  mode_text :: "'m \<Rightarrow> string"
  parse_mode :: "string \<Rightarrow> string + 'm"

definition default_data_mode :: "'m radio_modes \<Rightarrow> 'm list \<Rightarrow> 'm" where
  "default_data_mode ms transmit_modes = (if DataUsb ms \<in> set transmit_modes then DataUsb ms else Usb ms)"

definition default_rtty_mode :: "'m radio_modes \<Rightarrow> 'm list \<Rightarrow> 'm" where
  "default_rtty_mode ms transmit_modes =
     (if Rtty ms \<in> set transmit_modes then Rtty ms
      else if DataUsb ms \<in> set transmit_modes then DataUsb ms else Usb ms)"

definition resolved_mode_mapping :: "'m radio_modes \<Rightarrow> string \<Rightarrow> string \<Rightarrow> 'm \<Rightarrow> 'm list \<Rightarrow> string + 'm" where
  "resolved_mode_mapping ms logger_mode configured default_mode transmit_modes =
     ebind (if trim configured = [] then Inr default_mode
            else map_error (\<lambda>e. logger_mode @ '' radio mode is invalid: '' @ e) (parse_mode ms configured))
       (\<lambda>mode. if mode \<notin> set transmit_modes
               then Inl (logger_mode @ '' radio mode '' @ mode_text ms mode @ '' is not supported for transmit by this radio'')
               else Inr mode)"

definition resolved_mode_mappings ::
  "'m radio_modes \<Rightarrow> 'm drivers \<Rightarrow> string \<Rightarrow> string \<Rightarrow> string \<Rightarrow> string + string \<times> string" where
  "resolved_mode_mappings ms drivers kind data_mode rtty_mode =
     ebind (transmit_modes_for_radio_kind drivers kind) (\<lambda>transmit_modes.
       ebind (resolved_mode_mapping ms ''DATA'' data_mode (default_data_mode ms transmit_modes) transmit_modes) (\<lambda>d.
         ebind (resolved_mode_mapping ms ''RTTY'' rtty_mode (default_rtty_mode ms transmit_modes) transmit_modes) (\<lambda>r.
           Inr (mode_text ms d, mode_text ms r))))"

section \<open>Message modes\<close>

definition RUN_MESSAGE_MODE :: string where "RUN_MESSAGE_MODE = ''run''"
definition SEARCH_AND_POUNCE_MESSAGE_MODE :: string where "SEARCH_AND_POUNCE_MESSAGE_MODE = ''s&p''"

definition normalize_message_mode :: "string \<Rightarrow> string" where
  "normalize_message_mode mode =
     (let m = to_lower_text (trim mode)
      in if m = ''run'' then RUN_MESSAGE_MODE else SEARCH_AND_POUNCE_MESSAGE_MODE)"

definition is_valid_message_mode :: "string \<Rightarrow> bool" where
  "is_valid_message_mode mode \<longleftrightarrow>
     to_lower_text (trim mode) \<in> set [''run'', ''s&p'', ''sp'', ''search_and_pounce'', ''search and pounce'']"

definition parse_message_mode_section_header :: "string \<Rightarrow> string option" where
  "parse_message_mode_section_header line =
     (let upper = to_upper (trim line)
      in if contains_text upper ''RUN MESSAGES'' then Some RUN_MESSAGE_MODE
         else if contains_text upper ''S&P MESSAGES'' \<or> contains_text upper ''SP MESSAGES''
           \<or> contains_text upper ''SEARCH AND POUNCE MESSAGES'' then Some SEARCH_AND_POUNCE_MESSAGE_MODE
         else None)"

section \<open>Laws\<close>

lemma mode_classes_disjoint:
  "\<not> (mode_is_cw m \<and> mode_is_phone m)" "\<not> (mode_is_cw m \<and> mode_is_digital m)" "\<not> (mode_is_phone m \<and> mode_is_digital m)"
  by (auto simp: mode_is_cw_def mode_is_phone_def mode_is_digital_def)

lemma selectable_mode_class:
  "is_selectable_mode m \<longleftrightarrow> mode_is_cw m \<or> mode_is_phone m \<or> mode_is_digital m"
  by (auto simp: is_selectable_mode_def mode_is_cw_def mode_is_phone_def mode_is_digital_def LOGGER_MODE_OPTIONS_def)

lemma normalize_logger_mode_idem [simp]: "normalize_logger_mode (normalize_logger_mode m) = normalize_logger_mode m"
  by (simp add: normalize_logger_mode_def trim_to_upper)

text \<open>The mapped modes are among those the radio transmits.\<close>

lemma resolved_modes_transmit:
  assumes "resolved_mode_mappings ms drivers kind data rtty = Inr (d, r)"
  shows "\<exists>modes m n. transmit_modes_for_radio_kind drivers kind = Inr modes \<and> m \<in> set modes \<and> n \<in> set modes
    \<and> d = mode_text ms m \<and> r = mode_text ms n"
  using assms by (auto simp: resolved_mode_mappings_def resolved_mode_mapping_def split: if_splits)

end
