(* ===== verification/Adif.thy ===== *)
theory Adif
  imports QsoTime Modes ContestRules DbWorker
begin

text \<open>
  \<open>backend/src/adif.rs\<close>: reading and writing ADIF, a text of tagged fields whose length stands in the
  tag. Texts are ASCII, so a tag or value is always valid UTF-8. The conversion of a decimal
  number of megahertz to hertz (\<open>f64\<close> arithmetic) is the argument \<open>mhz_to_hz\<close>, the version of the
  program the argument \<open>version\<close>.
\<close>

section \<open>Export\<close>

definition ADIF_VERSION :: string where "ADIF_VERSION = ''3.1.0''"
definition PROGRAM_ID :: string where "PROGRAM_ID = ''Log73''"

definition PREFERRED_FIELD_ORDER :: "string list" where
  "PREFERRED_FIELD_ORDER =
     [''QSO_DATE'', ''TIME_ON'', ''STATION_CALLSIGN'', ''OPERATOR'', ''CALL'', ''BAND'', ''FREQ'', ''MODE'', ''RST_SENT'',
      ''STX'', ''STX_STRING'', ''MY_STATE'', ''MY_CNTY'', ''MY_ARRL_SECT'', ''MY_GRIDSQUARE'', ''MY_CQ_ZONE'', ''RST_RCVD'',
      ''SRX'', ''SRX_STRING'', ''STATE'', ''CNTY'', ''ARRL_SECT'', ''GRIDSQUARE'', ''CQZ'', ''DXCC'', ''TX_PWR'']"

definition sanitized_export_stem :: "string \<Rightarrow> string" where
  "sanitized_export_stem callsign =
     (let s = trim_matches CHR ''_'' (map (\<lambda>c. if is_upper c \<or> is_digit c \<or> c = CHR ''_'' \<or> c = CHR ''-'' then c else CHR ''_'')
                (to_upper (trim callsign)))
      in if s = [] then ''LOG73'' else s)"

definition export_filename :: "log \<Rightarrow> string" where
  "export_filename log = sanitized_export_stem (lg_station_callsign log) @ ''.adi''"

definition normalize_field_name :: "string \<Rightarrow> string" where
  "normalize_field_name name =
     map (\<lambda>c. if is_lower c then upper_char c else if is_upper c \<or> is_digit c \<or> c = CHR ''_'' then c else CHR ''_'') (trim name)"

definition value_string :: "json \<Rightarrow> string option" where
  "value_string value =
     (case value of
        JString s \<Rightarrow> Some (trim s)
      | JInt n \<Rightarrow> Some (int_string n)
      | JFloat t \<Rightarrow> Some t
      | JBool b \<Rightarrow> Some (if b then ''true'' else ''false'')
      | _ \<Rightarrow> None)"

definition contact_i64 :: "json option \<Rightarrow> int option" where
  "contact_i64 value =
     (case value of
        Some (JInt n) \<Rightarrow> as_i64 (JInt n)
      | Some (JString s) \<Rightarrow> parse_signed 64 (trim s)
      | _ \<Rightarrow> None)"

text \<open>Trailing zeros of the six decimals are dropped. Rust's \<open>/\<close> and \<open>%\<close> are \<open>sdiv\<close> and \<open>smod\<close>.\<close>

definition format_frequency_mhz :: "int \<Rightarrow> string" where
  "format_frequency_mhz hz =
     (let mhz = hz sdiv 1000000; fractional = \<bar>hz smod 1000000\<bar>
      in if fractional = 0 then int_string mhz
         else
           let t = rev (dropWhile (\<lambda>c. c = CHR ''0'') (rev (int_string mhz @ ''.'' @ zero_padded 6 fractional)))
           in if suffix ''.'' t then butlast t else t)"

definition frequency_value_string :: "json \<Rightarrow> string option" where
  "frequency_value_string value = map_option format_frequency_mhz (contact_i64 (Some value))"

definition mode_value_string :: "json \<Rightarrow> string option" where
  "mode_value_string value = map_option adif_mode_for_logger_mode (value_string value)"

definition should_skip_field :: "string \<Rightarrow> bool" where
  "should_skip_field name \<longleftrightarrow> prefix ''_'' name \<or> name \<in> set [''ID'', ''LOG_ID'', ''JSON'', ''QSO_DATE_TIME_ON'']"

text \<open>The loop over the fields of a contact that has a time.\<close>

definition add_contact_field :: "string \<times> json \<Rightarrow> (string \<times> string) list \<Rightarrow> (string \<times> string) list" where
  "add_contact_field entry out =
     (case entry of (key, value) \<Rightarrow>
        if should_skip_field key \<or> key = ''QSO_DATE'' \<or> key = ''TIME_ON'' then out
        else
          let n = normalize_field_name key
          in if n = [] then out
             else (case (if n = ''FREQ'' then frequency_value_string value
                         else if n = ''MODE'' then mode_value_string value else value_string value) of
                     Some s \<Rightarrow> if s = [] then out else bt_put n s out
                   | None \<Rightarrow> out))"

definition adif_contact_fields :: "contact \<Rightarrow> string \<Rightarrow> string + (string \<times> string) list" where
  "adif_contact_fields contact station_callsign =
     (case contact_i64 (contact_adif_value contact ''QSO_DATE_TIME_ON'') of
        None \<Rightarrow> Inl (if contact_adif_value contact ''QSO_DATE_TIME_ON'' \<noteq> None
                     then ''contact has invalid QSO_DATE_TIME_ON'' else ''contact is missing QSO_DATE_TIME_ON'')
      | Some epoch \<Rightarrow>
          ebind (qso_datetime_adif epoch) (\<lambda>(date, time).
            let source = (case contact_adif contact of Some adif \<Rightarrow> adif | None \<Rightarrow> contact);
                out = fold add_contact_field source (bt_put ''TIME_ON'' time (bt_put ''QSO_DATE'' date []));
                callsign = to_upper (trim station_callsign)
            in Inr (if map_of out ''STATION_CALLSIGN'' = None \<and> callsign \<noteq> []
                    then bt_put ''STATION_CALLSIGN'' callsign out else out)))"

fun take_preferred :: "string list \<Rightarrow> (string \<times> string) list \<Rightarrow> (string \<times> string) list" where
  "take_preferred [] remaining = remaining"
| "take_preferred (key # keys) remaining =
     (case map_of remaining key of
        Some value \<Rightarrow> (key, value) # take_preferred keys (bt_remove key remaining)
      | None \<Rightarrow> take_preferred keys remaining)"

definition ordered_fields :: "(string \<times> string) list \<Rightarrow> (string \<times> string) list" where
  "ordered_fields out = take_preferred PREFERRED_FIELD_ORDER out"

definition one_line :: "string \<Rightarrow> string" where
  "one_line value = map (\<lambda>c. if c = carriage_return \<or> c = newline then CHR '' '' else c) (unify_newlines value)"

definition serialize_field :: "string \<Rightarrow> string \<Rightarrow> string" where
  "serialize_field name value =
     (let value = one_line value
      in ''<'' @ normalize_field_name name @ '':'' @ dec_string (length value) @ ''>'' @ value)"

definition render_contact :: "(string \<times> string) list \<Rightarrow> string" where
  "render_contact out = concat (map (\<lambda>(name, value). serialize_field name value) (ordered_fields out)) @ ''<EOR>'' @ [newline]"

definition render_header :: "string \<Rightarrow> string" where
  "render_header version =
     ''Log73 ADIF Export'' @ [newline] @ serialize_field ''ADIF_VER'' ADIF_VERSION
     @ serialize_field ''PROGRAMID'' PROGRAM_ID @ serialize_field ''PROGRAMVERSION'' version @ ''<EOH>'' @ [newline]"

definition adif_render_log :: "string \<Rightarrow> log \<Rightarrow> contact list \<Rightarrow> string + string" where
  "adif_render_log version log contacts =
     ebind (collect_results (map (\<lambda>c. adif_contact_fields c (lg_station_callsign log)) contacts)) (\<lambda>fieldss.
       Inr (render_header version @ concat (map render_contact fieldss)))"

section \<open>Import\<close>

record adif_record =
  rec_line :: nat
  rec_fields :: "(string \<times> string) list"

definition parse_tag :: "string \<Rightarrow> (string \<times> nat) option" where
  "parse_tag tag =
     (case split_on CHR '':'' tag of
        name # len # _ \<Rightarrow> map_option (Pair (normalize_field_name name)) (parse_unsigned 64 (trim len))
      | _ \<Rightarrow> None)"

text \<open>The variables of the loop of \<open>parse_records\<close>.\<close>

record adif_scan =
  sc_index :: nat
  sc_line :: nat
  in_header :: bool
  header_fields :: "(string \<times> string) list"
  header_line :: "nat option"
  current :: "(string \<times> string) list"
  current_line :: "nat option"
  records :: "adif_record list"

definition at_line :: "nat \<Rightarrow> string \<Rightarrow> string" where
  "at_line n message = ''line '' @ dec_string n @ '': '' @ message"

definition line_or :: "nat option \<Rightarrow> nat \<Rightarrow> nat" where
  "line_or l n = (case l of Some k \<Rightarrow> k | None \<Rightarrow> n)"

definition end_of_record :: "nat \<Rightarrow> adif_scan \<Rightarrow> adif_scan" where
  "end_of_record tag_line sc =
     (if in_header sc then
        (if header_fields sc = [] then sc
         else sc\<lparr>records := records sc @ [\<lparr>rec_line = line_or (header_line sc) tag_line, rec_fields = header_fields sc\<rparr>],
                 header_fields := []\<rparr>)
      else if current sc = [] then sc
      else sc\<lparr>records := records sc @ [\<lparr>rec_line = line_or (current_line sc) tag_line, rec_fields = current sc\<rparr>],
              current := [], current_line := None\<rparr>)"

definition store_field :: "nat \<Rightarrow> string \<Rightarrow> string \<Rightarrow> adif_scan \<Rightarrow> adif_scan" where
  "store_field tag_line name value sc =
     (if in_header sc
      then sc\<lparr>header_line := (if header_fields sc = [] then Some tag_line else header_line sc),
              header_fields := bt_put name value (header_fields sc)\<rparr>
      else sc\<lparr>current_line := (if current sc = [] then Some tag_line else current_line sc),
              current := bt_put name value (current sc)\<rparr>)"

definition newlines :: "string \<Rightarrow> nat" where
  "newlines s = length (filter (\<lambda>c. c = newline) s)"

lemma tl_dropWhile_shorter: "length (tl (dropWhile P xs)) < Suc (length xs)"
  "length (tl (dropWhile P xs)) - k < Suc (length xs)"
  using length_dropWhile_le [of P xs] by simp_all

text \<open>
  The loop on the rest of the text; \<open>None\<close> is a panic. The sum of the index and the length wraps at \<open>2\<^sup>64\<close>
  (or is caught by an overflow check); the slice then starts behind its end and panics either way.
\<close>

function scan_records :: "string \<Rightarrow> adif_scan \<Rightarrow> (string + adif_scan) option" where
  "scan_records [] sc = Some (Inr sc)"
| "scan_records (c # rest) sc =
     (if c \<noteq> CHR ''<'' then
        scan_records rest (sc\<lparr>sc_index := Suc (sc_index sc), sc_line := (if c = newline then Suc (sc_line sc) else sc_line sc)\<rparr>)
      else
        let tag_line = sc_line sc; tag = takeWhile (\<lambda>d. d \<noteq> CHR ''>'') rest; after = dropWhile (\<lambda>d. d \<noteq> CHR ''>'') rest
        in if after = [] then Some (Inl (at_line tag_line ''unterminated ADIF tag''))
           else
             let body = tl after; t = to_upper (trim tag);
                 sc = sc\<lparr>sc_index := sc_index sc + length tag + 2, sc_line := sc_line sc + newlines tag\<rparr>
             in if t = ''EOH'' then
                  scan_records body (sc\<lparr>in_header := False, header_fields := [], header_line := None\<rparr>)
                else if t = ''EOR'' then scan_records body (end_of_record tag_line sc)
                else (case parse_tag tag of
                  None \<Rightarrow> Some (Inl (at_line tag_line (''invalid ADIF tag <'' @ tag @ ''>'')))
                | Some (name, len) \<Rightarrow>
                    if 2 ^ 64 \<le> sc_index sc + len then None
                    else if length body < len then Some (Inl (at_line tag_line (''ADIF field '' @ name @ '' is truncated'')))
                    else if name = [] then Some (Inl (at_line tag_line ''ADIF field name is empty''))
                    else
                      scan_records (drop len body)
                        (store_field tag_line name (trim (take len body))
                          (sc\<lparr>sc_index := sc_index sc + len, sc_line := sc_line sc + newlines (take len body)\<rparr>))))"
  by pat_completeness auto

termination
  by (relation "measure (length o fst)") (auto simp: tl_dropWhile_shorter simp del: length_tl)

definition parse_records :: "string \<Rightarrow> (string + adif_record list) option" where
  "parse_records s =
     map_option (\<lambda>r. ebind r (\<lambda>sc.
       Inr (records sc @
         (if current sc \<noteq> [] then [\<lparr>rec_line = line_or (current_line sc) (sc_line sc), rec_fields = current sc\<rparr>]
          else if in_header sc \<and> header_fields sc \<noteq> []
          then [\<lparr>rec_line = line_or (header_line sc) (sc_line sc), rec_fields = header_fields sc\<rparr>]
          else []))))
       (scan_records s \<lparr>sc_index = 0, sc_line = 1, in_header = True, header_fields = [], header_line = None,
                        current = [], current_line = None, records = []\<rparr>)"

datatype import_mapping = AdifField string | FixedConfig | FixedValue string

record import_error =
  err_line :: nat
  err_text :: string

record import_contact =
  imp_line :: nat
  imp_contact :: contact

definition required_field :: "adif_record \<Rightarrow> string \<Rightarrow> import_error + string" where
  "required_field r name =
     (case map_of (rec_fields r) name of
        Some v \<Rightarrow> if trim v = [] then Inl \<lparr>err_line = rec_line r, err_text = name @ '' is required''\<rparr> else Inr (trim v)
      | None \<Rightarrow> Inl \<lparr>err_line = rec_line r, err_text = name @ '' is required''\<rparr>)"

definition import_qso_epoch :: "adif_record \<Rightarrow> string + int" where
  "import_qso_epoch r =
     ebind (map_error err_text (required_field r ''QSO_DATE'')) (\<lambda>date.
     ebind (map_error err_text (required_field r ''TIME_ON'')) (\<lambda>time.
     ok_or (qso_epoch date time) ''QSO_DATE/TIME_ON is invalid''))"

definition import_frequency_hz :: "(string \<Rightarrow> int option) \<Rightarrow> string \<Rightarrow> int option" where
  "import_frequency_hz mhz_to_hz value =
     (let value = trim value
      in if value = [] then None
         else (case parse_signed 64 value of
            Some n \<Rightarrow> if 1000 < n then Some n else mhz_to_hz value
          | None \<Rightarrow> mhz_to_hz value))"

definition fixed_config_value :: "log \<Rightarrow> exchange_field \<Rightarrow> string option" where
  "fixed_config_value log field =
     (case exch_source field of
        Some param \<Rightarrow>
          Option.bind (Option.bind (as_object (lg_contest_params log)) (\<lambda>m. map_of m param)) (\<lambda>v.
            (case value_string v of Some s \<Rightarrow> if s = [] then None else Some s | None \<Rightarrow> None))
      | None \<Rightarrow> Option.bind (exch_default field) value_string)"

definition mapping_value :: "log \<Rightarrow> exchange_field \<Rightarrow> adif_record \<Rightarrow> import_mapping \<Rightarrow> import_error + string" where
  "mapping_value log field r mapping =
     (let err = (\<lambda>m. \<lparr>err_line = rec_line r, err_text = m\<rparr>)
      in ebind (case mapping of
           AdifField source \<Rightarrow>
             (let source = normalize_field_name source
              in (case map_of (rec_fields r) source of
                    Some v \<Rightarrow> if trim v = [] then Inl (err (exch_label field @ '' source field '' @ source @ '' is missing'')) else Inr v
                  | None \<Rightarrow> Inl (err (exch_label field @ '' source field '' @ source @ '' is missing''))))
         | FixedConfig \<Rightarrow> ok_or (fixed_config_value log field) (err (exch_label field @ '' does not have a configured fixed value''))
         | FixedValue v \<Rightarrow> Inr (trim v)) (\<lambda>value.
           if value = [] then Inl (err (exch_label field @ '' value is required'')) else Inr value))"

text \<open>The exchange fields are written one after the other; a field may overwrite another.\<close>

fun import_exchange ::
  "log \<Rightarrow> adif_record \<Rightarrow> (string \<times> import_mapping) list \<Rightarrow> exchange_field list \<Rightarrow> contact_fields
     \<Rightarrow> import_error + contact_fields" where
  "import_exchange log r mappings [] adif = Inr adif"
| "import_exchange log r mappings (field # rest) adif =
     (case find (\<lambda>(name, _). eq_ignore_case name (exch_adif field)) mappings of
        None \<Rightarrow> Inl \<lparr>err_line = rec_line r, err_text = exch_label field @ '' mapping is required''\<rparr>
      | Some (_, mapping) \<Rightarrow>
          ebind (mapping_value log field r mapping) (\<lambda>value.
            import_exchange log r mappings rest (bt_put (exch_adif field) (JString value) adif)))"

definition import_record ::
  "(string \<Rightarrow> int option) \<Rightarrow> log \<Rightarrow> contest_rules \<Rightarrow> adif_record \<Rightarrow> (string \<times> import_mapping) list \<Rightarrow> import_error + contact" where
  "import_record mhz_to_hz log rules r mappings =
     (let err = (\<lambda>m. \<lparr>err_line = rec_line r, err_text = m\<rparr>);
          adif = map (\<lambda>(k, v). (k, JString v))
                   (filter (\<lambda>(k, _). k \<notin> set [''ID'', ''_ID'', ''_LOG_ID'', ''_STATUS'']) (rec_fields r))
      in ebind (map_error err (import_qso_epoch r)) (\<lambda>epoch.
         ebind (required_field r ''FREQ'') (\<lambda>freq.
         ebind (ok_or (import_frequency_hz mhz_to_hz freq) (err ''FREQ is invalid'')) (\<lambda>hz.
         ebind (first_error (map (\<lambda>name. ebind (required_field r name) (\<lambda>_. Inr ()))
                  [''STATION_CALLSIGN'', ''CALL'', ''BAND'', ''MODE''])) (\<lambda>_.
         ebind (import_exchange log r mappings (exchange rules)
                  (bt_put ''FREQ'' (JInt hz) (bt_put ''CONTEST_ID'' (JString (lg_contest_id log))
                     (bt_put ''QSO_DATE_TIME_ON'' (JInt epoch) adif)))) (\<lambda>adif.
         Inr (build_contact [] adif)))))))"

definition import_contacts ::
  "(string \<Rightarrow> int option) \<Rightarrow> log \<Rightarrow> contest_rules \<Rightarrow> string \<Rightarrow> (string \<times> import_mapping) list
     \<Rightarrow> (import_error + import_contact list) option" where
  "import_contacts mhz_to_hz log rules s mappings =
     map_option (\<lambda>parsed.
       ebind (map_error (\<lambda>e. \<lparr>err_line = 1, err_text = e\<rparr>) parsed) (\<lambda>recs.
         if recs = [] then Inl \<lparr>err_line = 1, err_text = ''ADIF file does not contain any QSO records''\<rparr>
         else collect_results (map (\<lambda>r. ebind (import_record mhz_to_hz log rules r mappings) (\<lambda>c.
                Inr \<lparr>imp_line = rec_line r, imp_contact = c\<rparr>)) recs)))
       (parse_records s)"

end
