(* ===== verification/AdifSpec.thy ===== *)
theory AdifSpec
  imports Adif
begin

text \<open>
  An exported log reads back: parsing the text \<open>render_log\<close> writes gives one record for each
  contact, with the lines they stand on and exactly the fields written, whatever characters their
  values hold. A length that does not fit the index makes the parser panic.
\<close>

section \<open>Names and tags\<close>

definition name_char :: "char \<Rightarrow> bool" where
  "name_char c \<longleftrightarrow> is_upper c \<or> is_digit c \<or> c = CHR ''_''"

definition field_name :: "string \<Rightarrow> bool" where
  "field_name n \<longleftrightarrow> n \<noteq> [] \<and> list_all name_char n"

lemma newline_other [simp]:
  "CHR '':'' \<noteq> newline" "CHR ''_'' \<noteq> newline" "CHR ''<'' \<noteq> newline" "CHR ''>'' \<noteq> newline" "CHR '' '' \<noteq> newline"
  "newline \<noteq> CHR '':''" "newline \<noteq> CHR ''_''" "newline \<noteq> CHR ''<''" "newline \<noteq> CHR ''>''" "newline \<noteq> CHR '' ''"
  by code_simp+

lemma newline_class: "\<not> is_upper newline" "\<not> is_digit newline" "\<not> is_ws CHR '':''"
  by code_simp+

lemma name_char_facts: "name_char c \<Longrightarrow> \<not> is_ws c \<and> \<not> is_lower c \<and> c \<noteq> CHR '':'' \<and> c \<noteq> CHR ''>'' \<and> c \<noteq> newline"
  using newline_class by (auto simp: name_char_def char_class_defs)

lemma normalize_field_name_chars: "list_all name_char (normalize_field_name n)"
  by (auto simp: normalize_field_name_def list_all_iff name_char_def upper_char_def char_class_defs)

lemma normalize_fixed: "list_all name_char n \<Longrightarrow> normalize_field_name n = n"
proof -
  assume n: "list_all name_char n"
  from n have "trim n = n" by (intro trim_no_ws) (auto simp: list_all_iff dest: name_char_facts)
  have "c \<in> set n \<Longrightarrow> \<not> is_lower c \<and> (is_upper c \<or> is_digit c \<or> c = CHR ''_'')" for c
    using n name_char_facts [of c] by (auto simp: list_all_iff name_char_def)
  then show ?thesis using \<open>trim n = n\<close> by (auto simp: normalize_field_name_def intro!: map_idI)
qed

definition field_tag :: "string \<Rightarrow> string \<Rightarrow> string" where
  "field_tag name value = name @ '':'' @ dec_string (length value)"

lemma dec_string_chars: "c \<in> set (dec_string n) \<Longrightarrow> \<not> is_ws c \<and> c \<noteq> CHR '':'' \<and> c \<noteq> CHR ''>'' \<and> c \<noteq> newline"
  using dec_string_digits [of n] newline_class by (auto simp: list_all_iff char_class_defs)

lemma parse_unsigned_length: "n < 2 ^ 64 \<Longrightarrow> parse_unsigned 64 (dec_string n) = Some n"
  using parse_unsigned_digits [of "dec_string n" 64] by simp

lemma parse_field_tag:
  assumes "field_name name" and "length value < 2 ^ 64"
  shows "parse_tag (field_tag name value) = Some (name, length value)"
proof -
  have "CHR '':'' \<notin> set name" using assms(1) by (auto simp: field_name_def list_all_iff dest: name_char_facts)
  moreover have "CHR '':'' \<notin> set (dec_string (length value))" using dec_string_chars by blast
  ultimately have "split_on CHR '':'' (field_tag name value) = [name, dec_string (length value)]"
    using split_on_append [of "CHR '':''" name "dec_string (length value)"] split_on_none by (simp add: field_tag_def)
  moreover have "trim (dec_string (length value)) = dec_string (length value)"
    using dec_string_chars by (intro trim_no_ws) blast
  ultimately show ?thesis
    using assms by (simp add: parse_tag_def parse_unsigned_length normalize_fixed field_name_def)
qed

lemma field_tag_plain:
  assumes "field_name name"
  shows "CHR ''>'' \<notin> set (field_tag name value)" and "newlines (field_tag name value) = 0"
    and "to_upper (trim (field_tag name value)) \<notin> {''EOH'', ''EOR''}"
proof -
  have chars: "c \<in> set (field_tag name value) \<Longrightarrow> \<not> is_ws c \<and> c \<noteq> CHR ''>'' \<and> c \<noteq> newline" for c
    using assms dec_string_chars [of c] newline_class(3)
    by (auto simp: field_tag_def field_name_def list_all_iff dest: name_char_facts)
  then show "CHR ''>'' \<notin> set (field_tag name value)" "newlines (field_tag name value) = 0"
    by (auto simp: newlines_def filter_empty_conv)
  have "trim (field_tag name value) = field_tag name value" using chars by (intro trim_no_ws) blast
  moreover have "CHR '':'' \<in> set (to_upper (field_tag name value))"
    by (simp add: field_tag_def upper_char_def char_class_defs)
  ultimately have c: "CHR '':'' \<in> set (to_upper (trim (field_tag name value)))" by simp
  have "x \<notin> {''EOH'', ''EOR''}" if "CHR '':'' \<in> set x" for x
    using that by auto
  from this [OF c] show "to_upper (trim (field_tag name value)) \<notin> {''EOH'', ''EOR''}" .
qed

section \<open>Scanning\<close>

lemma scan_plain:
  assumes "CHR ''<'' \<notin> set s"
  shows "scan_records (s @ rest) sc =
    scan_records rest (sc\<lparr>sc_index := sc_index sc + length s, sc_line := sc_line sc + newlines s\<rparr>)"
  using assms
proof (induction s arbitrary: sc)
  case (Cons c s)
  then show ?case by (auto simp: newlines_def)
qed (simp add: newlines_def)

lemma span_tag:
  assumes "CHR ''>'' \<notin> set tag"
  shows "takeWhile (\<lambda>d. d \<noteq> CHR ''>'') (tag @ CHR ''>'' # body) = tag"
    and "dropWhile (\<lambda>d. d \<noteq> CHR ''>'') (tag @ CHR ''>'' # body) = CHR ''>'' # body"
  using assms by (auto simp: takeWhile_append dropWhile_append)

lemma scan_field:
  assumes n: "field_name name" and room: "sc_index sc + length (CHR ''<'' # field_tag name v @ CHR ''>'' # v) < 2 ^ 64"
    and v: "newlines v = 0"
  shows "scan_records (CHR ''<'' # field_tag name v @ CHR ''>'' # v @ rest) sc =
    scan_records rest (store_field (sc_line sc) name (trim v)
      (sc\<lparr>sc_index := sc_index sc + length (CHR ''<'' # field_tag name v @ CHR ''>'' # v)\<rparr>))"
proof -
  let ?tag = "field_tag name v"
  have "parse_tag ?tag = Some (name, length v)" using n room by (intro parse_field_tag) simp_all
  moreover have "\<not> 2 ^ 64 \<le> sc_index sc + length ?tag + 2 + length v" using room by simp
  moreover have "name \<noteq> []" using n by (simp add: field_name_def)
  ultimately show ?thesis
    using field_tag_plain [OF n, of v] v by (simp add: span_tag Let_def add.commute add.left_commute)
qed

lemma scan_eor:
  assumes "\<not> in_header sc" and "current sc \<noteq> []"
  shows "scan_records (''<EOR>'' @ newline # rest) sc = scan_records rest
    (sc\<lparr>sc_index := sc_index sc + 6, sc_line := Suc (sc_line sc), current := [], current_line := None,
        records := records sc @ [\<lparr>rec_line = line_or (current_line sc) (sc_line sc), rec_fields = current sc\<rparr>]\<rparr>)"
proof -
  have tag: "takeWhile (\<lambda>d. d \<noteq> CHR ''>'') (''EOR>'' @ newline # rest) = ''EOR''"
    "dropWhile (\<lambda>d. d \<noteq> CHR ''>'') (''EOR>'' @ newline # rest) = CHR ''>'' # newline # rest"
    by simp_all
  have word: "to_upper (trim ''EOR'') = ''EOR''" "newlines ''EOR'' = 0" by code_simp+
  show ?thesis
    using assms tag word
    by (simp add: Let_def end_of_record_def) (rule arg_cong [where f = "scan_records rest"], simp)
qed

lemma scan_eoh:
  "scan_records (''<EOH>'' @ newline # rest) sc = scan_records rest
    (sc\<lparr>sc_index := sc_index sc + 6, sc_line := Suc (sc_line sc), in_header := False, header_fields := [], header_line := None\<rparr>)"
proof -
  have tag: "takeWhile (\<lambda>d. d \<noteq> CHR ''>'') (''EOH>'' @ newline # rest) = ''EOH''"
    "dropWhile (\<lambda>d. d \<noteq> CHR ''>'') (''EOH>'' @ newline # rest) = CHR ''>'' # newline # rest"
    by simp_all
  have word: "to_upper (trim ''EOH'') = ''EOH''" "newlines ''EOH'' = 0" by code_simp+
  show ?thesis
    using tag word by (simp add: Let_def) (rule arg_cong [where f = "scan_records rest"], simp)
qed

declare scan_records.simps(2) [simp del]

lemma one_line_newlines: "newlines (one_line v) = 0"
  by (auto simp: one_line_def newlines_def filter_empty_conv)

lemma serialize_field_tag:
  "field_name n \<Longrightarrow> serialize_field n v = CHR ''<'' # field_tag n (one_line v) @ CHR ''>'' # one_line v"
  by (simp add: serialize_field_def Let_def field_tag_def normalize_fixed field_name_def)

definition serialized :: "(string \<times> string) list \<Rightarrow> string" where
  "serialized fs = concat (map (\<lambda>(n, v). serialize_field n v) fs)"

definition read_back :: "string \<times> string \<Rightarrow> string \<times> string" where
  "read_back e = (fst e, trim (one_line (snd e)))"

lemma store_field_index:
  "store_field l n v (sc\<lparr>sc_index := i\<rparr>) = (store_field l n v sc)\<lparr>sc_index := i\<rparr>"
  "sc_index (store_field l n v sc) = sc_index sc" "sc_line (store_field l n v sc) = sc_line sc"
  by (simp_all add: store_field_def)

lemma scan_fields:
  assumes "list_all (\<lambda>e. field_name (fst e)) fs" and "sc_index sc + length (serialized fs) < 2 ^ 64"
  shows "scan_records (serialized fs @ rest) sc = scan_records rest
    ((fold (\<lambda>e. store_field (sc_line sc) (fst e) (snd (read_back e))) fs sc)\<lparr>sc_index := sc_index sc + length (serialized fs)\<rparr>)"
  using assms
proof (induction fs arbitrary: sc)
  case (Cons e fs)
  obtain n v where e: "e = (n, v)" by fastforce
  have n: "field_name n" using Cons.prems(1) e by simp
  let ?t = "serialize_field n v"
  let ?sc = "store_field (sc_line sc) n (trim (one_line v)) (sc\<lparr>sc_index := sc_index sc + length ?t\<rparr>)"
  have s: "serialized (e # fs) = ?t @ serialized fs" by (simp add: serialized_def e)
  have "scan_records (?t @ serialized fs @ rest) sc = scan_records (serialized fs @ rest) ?sc"
    using scan_field [OF n _ one_line_newlines, of sc v "serialized fs @ rest"] Cons.prems(2) s
    by (simp add: serialize_field_tag [OF n])
  also have "\<dots> = scan_records rest ((fold (\<lambda>e. store_field (sc_line ?sc) (fst e) (snd (read_back e))) fs ?sc)
      \<lparr>sc_index := sc_index ?sc + length (serialized fs)\<rparr>)"
    using Cons.prems s by (intro Cons.IH) (simp_all add: store_field_index)
  also have "fold (\<lambda>e. store_field (sc_line ?sc) (fst e) (snd (read_back e))) fs ?sc
      = (fold (\<lambda>e. store_field (sc_line sc) (fst e) (snd (read_back e))) fs (store_field (sc_line sc) n (trim (one_line v)) sc))
          \<lparr>sc_index := sc_index sc + length ?t\<rparr>"
  proof -
    have "fold (\<lambda>e. store_field l (fst e) (snd (read_back e))) fs (sc\<lparr>sc_index := i\<rparr>)
        = (fold (\<lambda>e. store_field l (fst e) (snd (read_back e))) fs sc)\<lparr>sc_index := i\<rparr>" for l i fs and sc :: adif_scan
      by (induction fs arbitrary: sc) (simp_all add: store_field_index)
    then show ?thesis by (simp add: store_field_index)
  qed
  finally show ?case using s by (simp add: e read_back_def store_field_index add.assoc)
qed (simp add: serialized_def)

lemma fold_store_record:
  assumes "\<not> in_header sc"
  shows "fold (\<lambda>e. store_field l (fst e) (snd (read_back e))) fs sc =
    sc\<lparr>current := fold (\<lambda>e. bt_put (fst e) (snd (read_back e))) fs (current sc),
       current_line := (if fs = [] \<or> current sc \<noteq> [] then current_line sc else Some l)\<rparr>"
proof -
  have ne: "bt_put k v m \<noteq> []" for k :: string and v :: string and m by (cases m) (auto split: if_splits)
  show ?thesis using assms
  proof (induction fs arbitrary: sc)
    case (Cons e fs)
    then show ?case using ne by (auto simp: store_field_def)
  qed simp
qed

section \<open>Fields of a contact\<close>

lemma bt_eqI:
  assumes "bt_ok m" and "bt_ok n" and "set m = set n"
  shows "m = n"
proof -
  have "distinct (map fst m)" "sorted (map fst m)" "distinct (map fst n)" "sorted (map fst n)"
    using assms(1,2) by (simp_all add: bt_ok_def strict_sorted_iff)
  then show ?thesis
    using assms(3) distinct_map [of fst m] by (intro map_sorted_distinct_set_unique [of fst]) simp_all
qed

definition out_ok :: "(string \<times> string) list \<Rightarrow> bool" where
  "out_ok out \<longleftrightarrow> bt_ok out \<and> list_all (\<lambda>e. field_name (fst e)) out"

lemma out_ok_keys: "out_ok out \<longleftrightarrow> bt_ok out \<and> (\<forall>k\<in>set (map fst out). field_name k)"
  by (auto simp: out_ok_def list_all_iff)

lemma out_ok_put: "out_ok m \<Longrightarrow> field_name n \<Longrightarrow> out_ok (bt_put n v m)"
  unfolding out_ok_keys set_bt_put by (simp add: bt_ok_put)

lemma bt_put_ne: "bt_put k v m \<noteq> []"
  by (cases m) (auto split: if_splits)

lemma add_contact_field_cases:
  obtains "add_contact_field e out = out" | n v where "field_name n" and "add_contact_field e out = bt_put n v out"
proof -
  obtain key v where e: "e = (key, v)" by fastforce
  define n where "n = normalize_field_name key"
  have n: "n = [] \<or> field_name n" using normalize_field_name_chars by (simp add: n_def field_name_def)
  have "add_contact_field e out = out \<or> (\<exists>v. n \<noteq> [] \<and> add_contact_field e out = bt_put n v out)"
  proof -
    obtain x where x: "(if n = ''FREQ'' then frequency_value_string v else if n = ''MODE'' then mode_value_string v else value_string v) = x"
      by blast
    show ?thesis unfolding e add_contact_field_def Let_def prod.case n_def [symmetric] x by (cases x) auto
  qed
  then show thesis using n that by blast
qed

lemma adif_contact_fields_ok:
  assumes "adif_contact_fields c station = Inr out"
  shows "out_ok out \<and> out \<noteq> []"
proof -
  have fold_ok: "out_ok m \<and> m \<noteq> [] \<Longrightarrow> out_ok (fold add_contact_field src m) \<and> fold add_contact_field src m \<noteq> []" for src m
  proof (induction src arbitrary: m)
    case (Cons e src)
    have "out_ok (add_contact_field e m) \<and> add_contact_field e m \<noteq> []"
      by (rule add_contact_field_cases [of e m]) (use Cons.prems in \<open>simp_all add: out_ok_put bt_put_ne\<close>)
    then show ?case using Cons.IH by simp
  qed simp
  have names: "field_name ''QSO_DATE''" "field_name ''TIME_ON''" "field_name ''STATION_CALLSIGN''" by code_simp+
  have "out_ok []" by (simp add: out_ok_def bt_ok_def)
  then have start: "out_ok (bt_put ''TIME_ON'' t (bt_put ''QSO_DATE'' d [])) \<and> bt_put ''TIME_ON'' t (bt_put ''QSO_DATE'' d []) \<noteq> []" for t d
    using names by (simp add: out_ok_put bt_put_ne del: bt_put.simps)
  obtain epoch where e: "contact_i64 (contact_adif_value c ''QSO_DATE_TIME_ON'') = Some epoch"
    using assms by (cases "contact_i64 (contact_adif_value c ''QSO_DATE_TIME_ON'')") (simp_all add: adif_contact_fields_def)
  obtain date time src cs where out: "out = (if map_of (fold add_contact_field src (bt_put ''TIME_ON'' time (bt_put ''QSO_DATE'' date []))) ''STATION_CALLSIGN'' = None \<and> cs \<noteq> []
      then bt_put ''STATION_CALLSIGN'' (to_upper cs) (fold add_contact_field src (bt_put ''TIME_ON'' time (bt_put ''QSO_DATE'' date [])))
      else fold add_contact_field src (bt_put ''TIME_ON'' time (bt_put ''QSO_DATE'' date [])))"
    using assms e by (auto simp: adif_contact_fields_def Let_def simp del: bt_put.simps split: prod.splits)
  show ?thesis unfolding out using fold_ok [OF start] names by (simp add: out_ok_put bt_put_ne del: bt_put.simps)
qed

lemma take_preferred_perm:
  "distinct (map fst m) \<Longrightarrow> distinct (map fst (take_preferred keys m)) \<and> set (take_preferred keys m) = set m"
proof (induction keys arbitrary: m)
  case (Cons key keys)
  show ?case
  proof (cases "map_of m key")
    case (Some v)
    have d: "distinct (map fst (bt_remove key m))" using Cons.prems by (simp add: bt_remove_def distinct_map_filter)
    have IH: "distinct (map fst (take_preferred keys (bt_remove key m)))" "set (take_preferred keys (bt_remove key m)) = set (bt_remove key m)"
      using Cons.IH [OF d] by simp_all
    have "set (map fst (take_preferred keys (bt_remove key m))) = set (map fst (bt_remove key m))" using IH(2) by (simp only: set_map)
    then have "key \<notin> set (map fst (take_preferred keys (bt_remove key m)))" by (auto simp: bt_remove_def)
    moreover have "insert (key, v) (set (bt_remove key m)) = set m"
      using Cons.prems Some map_of_SomeD [OF Some] by (auto simp: bt_remove_def) (metis map_of_is_SomeI option.inject)
    ultimately show ?thesis using IH Some by simp
  qed (use Cons in simp)
qed simp

lemma fold_put_read_back:
  "distinct (map fst fs) \<Longrightarrow> map_of (fold (\<lambda>e. bt_put (fst e) (snd (read_back e))) fs m) = map_of m ++ map_of (map read_back fs)"
proof (induction fs arbitrary: m)
  case (Cons e fs)
  have k: "map_of (map read_back fs) (fst e) = None"
  proof -
    have "map fst (map read_back fs) = map fst fs" by (simp add: read_back_def)
    then have "fst e \<notin> set (map fst (map read_back fs))" using Cons.prems by simp
    then show ?thesis unfolding map_of_eq_None_iff set_map by simp
  qed
  have "map_of (bt_put (fst e) v m) = (map_of m)(fst e \<mapsto> v)" for v by (auto simp: bt_get_put)
  moreover have "fst (read_back e) = fst e" by (simp add: read_back_def)
  ultimately show ?case using Cons k by (auto simp: map_add_def fun_eq_iff split: option.splits)
qed simp

lemma fold_put_ok: "bt_ok m \<Longrightarrow> bt_ok (fold (\<lambda>e. bt_put (fst e) (snd (read_back e))) fs m)"
  by (induction fs arbitrary: m) (simp_all add: bt_ok_put)

text \<open>Whatever the order they are written in, the fields of a contact are read into the same map.\<close>

lemma ordered_fields_read:
  assumes "out_ok out"
  shows "fold (\<lambda>e. bt_put (fst e) (snd (read_back e))) (ordered_fields out) [] = map read_back out"
proof (rule bt_eqI)
  let ?r = "fold (\<lambda>e. bt_put (fst e) (snd (read_back e))) (ordered_fields out) []"
  have keys: "map fst (map read_back l) = map fst l" for l by (simp add: read_back_def)
  have ok: "bt_ok out" using assms by (simp add: out_ok_def)
  then have perm: "distinct (map fst (ordered_fields out))" "set (ordered_fields out) = set out"
    using take_preferred_perm [OF bt_ok_distinct [OF ok]] by (simp_all add: ordered_fields_def)
  show r: "bt_ok ?r" by (rule fold_put_ok) (simp add: bt_ok_def)
  show b: "bt_ok (map read_back out)" using ok by (simp only: bt_ok_def keys)
  have "map_of ?r = map_of (map read_back (ordered_fields out))" using fold_put_read_back [OF perm(1)] by simp
  also have "\<dots> = map_of (map read_back out)"
    using perm bt_ok_distinct [OF ok] by (subst map_of_inject_set) (simp_all only: keys set_map)
  finally show "set ?r = set (map read_back out)"
    using map_of_inject_set [OF bt_ok_distinct [OF r] bt_ok_distinct [OF b]] by simp
qed

section \<open>The log reads back\<close>

lemma scan_contact:
  assumes out: "out_ok out" "out \<noteq> []" and sc: "\<not> in_header sc" "current sc = []" "current_line sc = None"
    and room: "sc_index sc + length (render_contact out) < 2 ^ 64"
  shows "scan_records (render_contact out @ rest) sc = scan_records rest
    (sc\<lparr>sc_index := sc_index sc + length (render_contact out), sc_line := Suc (sc_line sc),
        records := records sc @ [\<lparr>rec_line = sc_line sc, rec_fields = map read_back out\<rparr>]\<rparr>)"
proof -
  have ok: "bt_ok out" using out(1) by (simp add: out_ok_def)
  have perm: "set (ordered_fields out) = set out"
    using take_preferred_perm [OF bt_ok_distinct [OF ok]] by (simp add: ordered_fields_def)
  then have names: "list_all (\<lambda>e. field_name (fst e)) (ordered_fields out)" and ne: "ordered_fields out \<noteq> []"
    using out by (auto simp: out_ok_def list_all_iff)
  let ?s = "serialized (ordered_fields out)"
  have r: "render_contact out = ?s @ ''<EOR>'' @ [newline]" by (simp add: render_contact_def serialized_def)
  let ?sc = "sc\<lparr>current := map read_back out, current_line := Some (sc_line sc), sc_index := sc_index sc + length ?s\<rparr>"
  have "(fold (\<lambda>e. store_field (sc_line sc) (fst e) (snd (read_back e))) (ordered_fields out) sc)\<lparr>sc_index := sc_index sc + length ?s\<rparr> = ?sc"
    using fold_store_record [OF sc(1), of "sc_line sc" "ordered_fields out"] ordered_fields_read [OF out(1)] ne sc(2) by simp
  then have "scan_records (?s @ ''<EOR>'' @ newline # rest) sc = scan_records (''<EOR>'' @ newline # rest) ?sc"
    using scan_fields [OF names, of sc "''<EOR>'' @ newline # rest"] room r by simp
  also have "\<dots> = scan_records rest (?sc\<lparr>sc_index := sc_index ?sc + 6, sc_line := Suc (sc_line ?sc), current := [], current_line := None,
        records := records ?sc @ [\<lparr>rec_line = line_or (current_line ?sc) (sc_line ?sc), rec_fields = current ?sc\<rparr>]\<rparr>)"
    using out(2) sc(1) by (intro scan_eor) simp_all
  finally show ?thesis
    using sc unfolding r by (simp add: line_or_def) (rule arg_cong [where f = "scan_records rest"], simp)
qed

lemma scan_contacts:
  assumes "list_all (\<lambda>out. out_ok out \<and> out \<noteq> []) outs" and sc: "\<not> in_header sc" "current sc = []" "current_line sc = None"
    and "sc_index sc + length (concat (map render_contact outs)) < 2 ^ 64"
  shows "\<exists>i l. scan_records (concat (map render_contact outs)) sc = Some (Inr (sc\<lparr>sc_index := i, sc_line := l,
    records := records sc @ map (\<lambda>(k, out). \<lparr>rec_line = k, rec_fields = map read_back out\<rparr>) (enumerate (sc_line sc) outs)\<rparr>))"
  using assms
proof (induction outs arbitrary: sc)
  case Nil
  then show ?case by (intro exI [of _ "sc_index sc"] exI [of _ "sc_line sc"]) simp
next
  case (Cons out outs)
  let ?sc = "sc\<lparr>sc_index := sc_index sc + length (render_contact out), sc_line := Suc (sc_line sc),
        records := records sc @ [\<lparr>rec_line = sc_line sc, rec_fields = map read_back out\<rparr>]\<rparr>"
  have "scan_records (render_contact out @ concat (map render_contact outs)) sc = scan_records (concat (map render_contact outs)) ?sc"
    using Cons.prems by (intro scan_contact) simp_all
  moreover from Cons.IH [of ?sc] Cons.prems obtain i l where
    "scan_records (concat (map render_contact outs)) ?sc = Some (Inr (?sc\<lparr>sc_index := i, sc_line := l,
      records := records ?sc @ map (\<lambda>(k, out). \<lparr>rec_line = k, rec_fields = map read_back out\<rparr>) (enumerate (sc_line ?sc) outs)\<rparr>))"
    by auto
  ultimately show ?case by (intro exI [of _ i] exI [of _ l]) simp
qed

definition scan_start :: adif_scan where
  "scan_start = \<lparr>sc_index = 0, sc_line = 1, in_header = True, header_fields = [], header_line = None,
                 current = [], current_line = None, records = []\<rparr>"

lemma fold_store_header:
  "in_header sc \<Longrightarrow> \<exists>hl hf. fold (\<lambda>e. store_field l (fst e) (snd (read_back e))) fs sc = sc\<lparr>header_line := hl, header_fields := hf\<rparr>"
proof (induction fs arbitrary: sc)
  case Nil
  then show ?case by (intro exI [of _ "header_line sc"] exI [of _ "header_fields sc"]) simp
next
  case (Cons e fs)
  have s: "store_field l (fst e) (snd (read_back e)) sc =
      sc\<lparr>header_line := (if header_fields sc = [] then Some l else header_line sc), header_fields := bt_put (fst e) (snd (read_back e)) (header_fields sc)\<rparr>"
    using Cons.prems by (simp add: store_field_def)
  obtain hl hf where "fold (\<lambda>e. store_field l (fst e) (snd (read_back e))) fs (store_field l (fst e) (snd (read_back e)) sc)
      = (store_field l (fst e) (snd (read_back e)) sc)\<lparr>header_line := hl, header_fields := hf\<rparr>"
    using Cons.IH [of "store_field l (fst e) (snd (read_back e)) sc"] Cons.prems unfolding s by auto
  then show ?case by (intro exI [of _ hl] exI [of _ hf]) (simp add: s)
qed

lemma scan_header:
  assumes "length (render_header version) < 2 ^ 64"
  shows "scan_records (render_header version @ rest) scan_start = scan_records rest
    (scan_start\<lparr>in_header := False, sc_index := length (render_header version), sc_line := 3\<rparr>)"
proof -
  let ?title = "''Log73 ADIF Export'' @ [newline]"
  let ?fs = "[(''ADIF_VER'', ADIF_VERSION), (''PROGRAMID'', PROGRAM_ID), (''PROGRAMVERSION'', version)]"
  let ?s = "serialized ?fs"
  have title: "CHR ''<'' \<notin> set ?title" "newlines ?title = 1" "length ?title = 18" by code_simp+
  have "field_name ''ADIF_VER''" "field_name ''PROGRAMID''" "field_name ''PROGRAMVERSION''" by code_simp+
  then have names: "list_all (\<lambda>e. field_name (fst e)) ?fs" by simp
  have r: "render_header version = ?title @ ?s @ ''<EOH>'' @ [newline]"
    by (simp add: render_header_def serialized_def)
  let ?sc = "scan_start\<lparr>sc_index := 18, sc_line := 2\<rparr>"
  have "scan_records (?title @ ?s @ ''<EOH>'' @ newline # rest) scan_start = scan_records (?s @ ''<EOH>'' @ newline # rest) ?sc"
  proof -
    have "scan_start\<lparr>sc_index := sc_index scan_start + 18, sc_line := sc_line scan_start + 1\<rparr> = ?sc"
      by (simp add: scan_start_def)
    then show ?thesis
      using scan_plain [OF title(1), of "?s @ ''<EOH>'' @ newline # rest" scan_start] unfolding title(2,3) append_assoc by (simp only: append.simps)
  qed
  also have "\<dots> = scan_records (''<EOH>'' @ newline # rest)
      ((fold (\<lambda>e. store_field 2 (fst e) (snd (read_back e))) ?fs ?sc)\<lparr>sc_index := 18 + length ?s\<rparr>)"
    using scan_fields [OF names, of ?sc "''<EOH>'' @ newline # rest"] assms unfolding r length_append title(3) by simp
  also obtain hl hf where "fold (\<lambda>e. store_field 2 (fst e) (snd (read_back e))) ?fs ?sc = ?sc\<lparr>header_line := hl, header_fields := hf\<rparr>"
    using fold_store_header [of ?sc 2 ?fs] by (auto simp: scan_start_def)
  finally have "scan_records (render_header version @ rest) scan_start =
      scan_records (''<EOH>'' @ newline # rest) (?sc\<lparr>header_line := hl, header_fields := hf, sc_index := 18 + length ?s\<rparr>)"
    unfolding r by simp
  also have "\<dots> = scan_records rest (scan_start\<lparr>in_header := False, sc_index := 18 + length ?s + 6, sc_line := 3\<rparr>)"
    unfolding scan_eoh by (rule arg_cong [where f = "scan_records rest"]) (simp add: scan_start_def)
  also have "18 + length ?s + 6 = length (render_header version)" unfolding r length_append title(3) by simp
  finally show ?thesis .
qed

definition read_records :: "(string \<times> string) list list \<Rightarrow> adif_record list" where
  "read_records outs = map (\<lambda>(k, out). \<lparr>rec_line = k, rec_fields = map read_back out\<rparr>) (enumerate 3 outs)"

text \<open>
  C22. An exported log reads back: parsing the text that the export of contacts writes gives, without an
  error or a panic, one record for each contact, in their order, on the lines they stand on (the first
  on line 3), with the fields the export took from the contact, each value on one line and trimmed.
  No character of a value can break the text, since the length in the tag delimits it.
\<close>

theorem export_reads_back:
  assumes "adif_render_log version log contacts = Inr exported" and "length exported < 2 ^ 64"
  shows "\<exists>outs. map (\<lambda>c. adif_contact_fields c (lg_station_callsign log)) contacts = map Inr outs
    \<and> parse_records exported = Some (Inr (read_records outs))"
proof -
  obtain outs where outs: "map (\<lambda>c. adif_contact_fields c (lg_station_callsign log)) contacts = map Inr outs"
    and e: "exported = render_header version @ concat (map render_contact outs)"
    using assms(1) by (auto simp: adif_render_log_def collect_results_Inr)
  have "list_all (\<lambda>out. out_ok out \<and> out \<noteq> []) outs"
  proof -
    have "Inr out \<in> (\<lambda>c. adif_contact_fields c (lg_station_callsign log)) ` set contacts" if "out \<in> set outs" for out
      using that outs by (metis image_set imageI)
    then show ?thesis unfolding list_all_iff using adif_contact_fields_ok by (metis imageE)
  qed
  then obtain i l where sr: "scan_records exported scan_start = Some (Inr (scan_start\<lparr>in_header := False, sc_index := i, sc_line := l,
      records := read_records outs\<rparr>))"
    using scan_contacts [of outs "scan_start\<lparr>in_header := False, sc_index := length (render_header version), sc_line := 3\<rparr>"]
      assms(2) unfolding e length_append
    by (simp add: scan_header) (auto simp: scan_start_def read_records_def)
  have "parse_records exported = Some (Inr (read_records outs))"
    unfolding parse_records_def scan_start_def [symmetric] sr by (simp add: scan_start_def)
  with outs show ?thesis by blast
qed

definition witness_log :: log where
  "witness_log = \<lparr>lg_id = 1, lg_name = ''Test'', lg_contest_id = ''TEST'', lg_station_callsign = ''n0call'', lg_contest_params = JNull\<rparr>"

definition witness_contact :: contact where
  "witness_contact = [(''adif'', JObject [(''CALL'', JString ''K1ABC''), (''FREQ'', JInt 7030500), (''NOTES'', JString '' <EOR> ''),
     (''QSO_DATE_TIME_ON'', JInt 86400)])]"

lemma export_reads_back_witness:
  "\<exists>exported. adif_render_log ''1.0'' witness_log [witness_contact] = Inr exported
    \<and> parse_records exported = Some (Inr [\<lparr>rec_line = 3, rec_fields =
        [(''CALL'', ''K1ABC''), (''FREQ'', ''7.0305''), (''NOTES'', ''<EOR>''), (''QSO_DATE'', ''19700102''),
         (''STATION_CALLSIGN'', ''N0CALL''), (''TIME_ON'', ''000000'')]\<rparr>])"
proof -
  let ?out = "[(''CALL'', ''K1ABC''), (''FREQ'', ''7.0305''), (''NOTES'', ''<EOR>''), (''QSO_DATE'', ''19700102''),
         (''STATION_CALLSIGN'', ''N0CALL''), (''TIME_ON'', ''000000'')]"
  have out: "adif_contact_fields witness_contact (lg_station_callsign witness_log) = Inr ?out" by code_simp
  obtain e where e: "e = render_header ''1.0'' @ render_contact ?out" by blast
  have "length (render_header ''1.0'' @ render_contact ?out) < 1000" by code_simp
  then have small: "length e < 2 ^ 64" unfolding e [symmetric] by simp
  have run: "adif_render_log ''1.0'' witness_log [witness_contact] = Inr e"
    unfolding adif_render_log_def list.map out e by (simp only: collect_results.simps ebind.simps list.map concat.simps append_Nil2)
  obtain outs where "map (\<lambda>c. adif_contact_fields c (lg_station_callsign witness_log)) [witness_contact] = map Inr outs"
    and parsed: "parse_records e = Some (Inr (read_records outs))"
    using export_reads_back [OF run small] by blast
  then have outs: "outs = [?out]" using out by (cases outs) auto
  have "read_records [?out] = [\<lparr>rec_line = 3, rec_fields = ?out\<rparr>]" by code_simp
  then show ?thesis using run parsed unfolding outs by (intro exI [of _ e]) (simp only: simp_thms)
qed

section \<open>A length out of range\<close>

text \<open>
  C23. A tag whose length reaches past the end of the index type makes the parser panic instead of
  reporting a truncated field, whatever follows the tag: the check \<open>index + length > bytes.len()\<close>
  overflows before it can fail.
\<close>

theorem oversized_length_panics:
  assumes "field_name name" and "n < 2 ^ 64" and "2 ^ 64 \<le> n + length (CHR ''<'' # name @ '':'' @ dec_string n @ ''>'')"
  shows "parse_records (''<'' @ name @ '':'' @ dec_string n @ ''>'' @ body) = None"
proof -
  let ?tag = "name @ '':'' @ dec_string n"
  have chars: "CHR '':'' \<notin> set name" "CHR ''>'' \<notin> set name"
    using assms(1) by (auto simp: field_name_def list_all_iff dest: name_char_facts)
  have num: "CHR '':'' \<notin> set (dec_string n)" "CHR ''>'' \<notin> set (dec_string n)" "trim (dec_string n) = dec_string n"
    using dec_string_chars by (blast, blast, intro trim_no_ws) blast
  have "split_on CHR '':'' ?tag = [name, dec_string n]"
    using split_on_append [OF chars(1), of "dec_string n"] split_on_none [OF num(1)] by simp
  then have tag: "parse_tag ?tag = Some (name, n)"
    using assms(1,2) num(3) by (simp add: parse_tag_def parse_unsigned_length normalize_fixed field_name_def)
  have colon: "CHR '':'' \<in> set (to_upper (trim ?tag))"
  proof -
    have "trim ?tag = ?tag"
      using assms(1) dec_string_chars newline_class(3)
      by (intro trim_no_ws) (auto simp: field_name_def list_all_iff dest: name_char_facts)
    then show ?thesis by (simp add: upper_char_def char_class_defs)
  qed
  then have "to_upper (trim ?tag) \<noteq> ''EOH''" "to_upper (trim ?tag) \<noteq> ''EOR''" by auto
  moreover have "CHR ''>'' \<notin> set ?tag" using chars num by simp
  ultimately have "scan_records (CHR ''<'' # ?tag @ CHR ''>'' # body) scan_start = None"
    using tag assms(3) by (simp add: scan_records.simps(2) span_tag Let_def scan_start_def del: append_assoc)
  then show ?thesis by (simp add: parse_records_def scan_start_def)
qed

lemma oversized_length_panics_witness:
  "parse_records ''<CALL:18446744073709551615>K1ABC<EOR>'' = None"
proof -
  have "field_name ''CALL''" by code_simp
  moreover have digits: "dec_string 18446744073709551615 = ''18446744073709551615''"
    by (simp add: dec_string.simps digit_char_def) code_simp
  ultimately show ?thesis
    using oversized_length_panics [of "''CALL''" 18446744073709551615 "''K1ABC<EOR>''"] unfolding digits by simp
qed

end
