(* ===== verification/Validation.thy ===== *)
theory Validation
  imports Bands Callsign ContestRules Modes DbWorker
begin

text \<open>
  \<open>backend/src/validation.rs\<close>: what the HTTP handlers accept. A contact passes the shape checks
  (sizes and depth of its JSON) and the contest checks (identity, time, callsigns, band, mode and
  exchange); the caller may ask for the shape only and keep the contest findings as warnings.

  Arguments: \<open>regex\<close> stands for the crate \<open>regex\<close> (compilation error, or whether the compiled
  pattern matches), \<open>to_hz\<close> for parsing a decimal text as \<open>f64\<close> and \<open>decimal_frequency_to_hz\<close>.
\<close>

section \<open>Limits\<close>

definition MAX_LOG_NAME_LEN :: nat where "MAX_LOG_NAME_LEN = 100"
definition MAX_CONTEST_ID_LEN :: nat where "MAX_CONTEST_ID_LEN = 100"
definition MAX_CALLSIGN_LEN :: nat where "MAX_CALLSIGN_LEN = 12"
definition MAX_LOGIN_USER_LEN :: nat where "MAX_LOGIN_USER_LEN = 64"
definition MAX_LOGIN_PASSWORD_LEN :: nat where "MAX_LOGIN_PASSWORD_LEN = 256"
definition MAX_DXCLUSTER_HOST_LEN :: nat where "MAX_DXCLUSTER_HOST_LEN = 255"
definition MAX_DXCLUSTER_CALLSIGN_LEN :: nat where "MAX_DXCLUSTER_CALLSIGN_LEN = 32"
definition MAX_DXCLUSTER_COMMANDS_LEN :: nat where "MAX_DXCLUSTER_COMMANDS_LEN = 16384"
definition MAX_DXCLUSTER_SPOT_COMMENT_LEN :: nat where "MAX_DXCLUSTER_SPOT_COMMENT_LEN = 256"
definition MAX_CONTACTS_PER_UPLOAD :: nat where "MAX_CONTACTS_PER_UPLOAD = 100"
definition MAX_CONTACT_FIELDS :: nat where "MAX_CONTACT_FIELDS = 100"
definition MAX_CONTACT_KEY_LEN :: nat where "MAX_CONTACT_KEY_LEN = 64"
definition MAX_CONTACT_STRING_LEN :: nat where "MAX_CONTACT_STRING_LEN = 1024"
definition MAX_CONTACT_ARRAY_ITEMS :: nat where "MAX_CONTACT_ARRAY_ITEMS = 100"
definition MAX_CONTACT_OBJECT_FIELDS :: nat where "MAX_CONTACT_OBJECT_FIELDS = 100"
definition MAX_CONTACT_JSON_DEPTH :: nat where "MAX_CONTACT_JSON_DEPTH = 4"
definition MIN_QSO_EPOCH :: int where "MIN_QSO_EPOCH = 0"
definition MAX_QSO_EPOCH :: int where "MAX_QSO_EPOCH = 4102444800"
definition MAX_RADIO_FREQUENCY_HZ :: nat where "MAX_RADIO_FREQUENCY_HZ = 500000000"
definition MAX_CW_REQUEST_ID_LEN :: nat where "MAX_CW_REQUEST_ID_LEN = 64"
definition MIN_DXCLUSTER_MAX_AGE_MIN :: nat where "MIN_DXCLUSTER_MAX_AGE_MIN = 15"
definition MAX_DXCLUSTER_MAX_AGE_MIN :: nat where "MAX_DXCLUSTER_MAX_AGE_MIN = 360"

section \<open>Values and texts\<close>

definition json_trimmed_string :: "json option \<Rightarrow> string option" where
  "json_trimmed_string value =
     (case value of
        Some (JString s) \<Rightarrow> Some (trim s)
      | Some (JInt n) \<Rightarrow> Some (int_string n)
      | Some (JFloat t) \<Rightarrow> Some t
      | Some (JBool b) \<Rightarrow> Some (if b then ''true'' else ''false'')
      | _ \<Rightarrow> None)"

text \<open>The module's own \<open>json_i64\<close>: it trims texts and rejects integers above \<open>i64::MAX\<close>.\<close>

definition json_trimmed_i64 :: "json option \<Rightarrow> int option" where
  "json_trimmed_i64 value =
     (case value of
        Some (JInt n) \<Rightarrow> as_i64 (JInt n)
      | Some (JString s) \<Rightarrow> parse_signed 64 (trim s)
      | _ \<Rightarrow> None)"

definition contact_frequency_hz :: "(string \<Rightarrow> nat option) \<Rightarrow> json option \<Rightarrow> nat option" where
  "contact_frequency_hz to_hz value =
     (case value of
        Some (JInt n) \<Rightarrow> if 0 \<le> n then Some (nat n) else to_hz (int_string n)
      | Some (JFloat t) \<Rightarrow> to_hz t
      | Some (JString s) \<Rightarrow>
          (let t = trim s in if CHR ''.'' \<in> set t then to_hz t else parse_unsigned 64 t)
      | _ \<Rightarrow> None)"

definition at_most :: "string \<Rightarrow> nat \<Rightarrow> string \<Rightarrow> string" where
  "at_most label n unit_name = label @ '' must be at most '' @ dec_string n @ '' '' @ unit_name"

definition quoted :: "string \<Rightarrow> string" where
  "quoted s = char_of (39 :: nat) # s @ [char_of (39 :: nat)]"

definition no_control :: "string \<Rightarrow> string" where
  "no_control label = label @ '' cannot contain control characters''"

definition validate_required_text :: "string \<Rightarrow> string \<Rightarrow> nat \<Rightarrow> string + unit" where
  "validate_required_text label value max_len =
     (let value = trim value
      in first_error
        [require (value \<noteq> []) (label @ '' is required''),
         require (length value \<le> max_len) (at_most label max_len ''characters''),
         require (\<not> list_ex is_control value) (no_control label)])"

definition validate_optional_plain_text :: "string \<Rightarrow> string \<Rightarrow> nat \<Rightarrow> string + unit" where
  "validate_optional_plain_text label value max_len =
     (let value = trim value
      in first_error
        [require (length value \<le> max_len) (at_most label max_len ''characters''),
         require (\<not> list_ex is_control value) (no_control label)])"

definition validate_host :: "string \<Rightarrow> string \<Rightarrow> string + unit" where
  "validate_host label value =
     require (\<not> list_ex (\<lambda>c. is_ws c \<or> is_control c) (trim value))
       (label @ '' cannot contain whitespace or control characters'')"

definition validate_callsign :: "string \<Rightarrow> string \<Rightarrow> bool \<Rightarrow> string + unit" where
  "validate_callsign label value allow_query =
     ebind (validate_required_text label value MAX_CALLSIGN_LEN) (\<lambda>_.
       let parts = parse value in
       ebind (case check_structure (normalized parts) allow_query of
                Inr _ \<Rightarrow> Inr ()
              | Inl InvalidCharacter \<Rightarrow>
                  Inl (label @ '' can only contain '' @
                       (if allow_query then ''A-Z, 0-9, '' @ quoted ''/'' @ '', and '' @ quoted ''?''
                        else ''A-Z, 0-9, and '' @ quoted ''/''))
              | Inl TooManySlashes \<Rightarrow> Inl (label @ '' can contain at most one slash'')
              | Inl EdgeSlash \<Rightarrow> Inl (label @ '' slash must be in the middle, not at the ends'')) (\<lambda>_.
         let b = unwrap_or_default (base parts)
         in require ((allow_query \<and> CHR ''?'' \<in> set b) \<or> is_callsign_like b)
              (label @ '' must have a digit in the 2nd or 3rd character'')))"

definition validate_radio_frequency_hz :: "nat \<Rightarrow> string + unit" where
  "validate_radio_frequency_hz hz =
     require (hz \<noteq> 0 \<and> hz \<le> MAX_RADIO_FREQUENCY_HZ)
       (''frequency must be between 1 and '' @ dec_string MAX_RADIO_FREQUENCY_HZ @ '' Hz'')"

definition validate_dxcluster_spot_request :: "nat \<Rightarrow> string \<Rightarrow> string \<Rightarrow> string + unit" where
  "validate_dxcluster_spot_request hz call comment =
     first_error
       [validate_radio_frequency_hz hz,
        validate_callsign ''DX spot callsign'' call False,
        validate_optional_plain_text ''DX spot comment'' comment MAX_DXCLUSTER_SPOT_COMMENT_LEN]"

section \<open>Configuration\<close>

datatype login_password_change = Preserve | Change string | Disable

definition validate_auth_config ::
  "string \<Rightarrow> string option \<Rightarrow> string option \<Rightarrow> bool \<Rightarrow> string + login_password_change" where
  "validate_auth_config login_user change confirm disable_login =
     (let c = unwrap_or_default change; d = unwrap_or_default confirm; user = trim login_user
      in ebind (first_error
           ([require (length login_user \<le> MAX_LOGIN_USER_LEN) (at_most ''username'' MAX_LOGIN_USER_LEN ''characters'')]
            @ concat (map (\<lambda>password.
                [require (length password \<le> MAX_LOGIN_PASSWORD_LEN) (at_most ''password'' MAX_LOGIN_PASSWORD_LEN ''characters''),
                 require (\<not> list_ex is_control password) (no_control ''password'')]) [c, d])
            @ [require (user = [] \<or> CHR '':'' \<notin> set user) (''username cannot contain '' @ quoted '':''),
               require (user = [] \<or> \<not> list_ex is_control user) (no_control ''username'')])) (\<lambda>_.
         if disable_login then Inr Disable
         else if c = [] \<and> d = [] then Inr Preserve
         else if c \<noteq> d then Inl ''passwords do not match''
         else Inr (Change c)))"

definition validate_dxcluster_config :: "string \<Rightarrow> nat \<Rightarrow> string \<Rightarrow> nat \<Rightarrow> string \<Rightarrow> string + unit" where
  "validate_dxcluster_config host port callsign max_age_min commands =
     first_error
       [validate_optional_plain_text ''DX Cluster host'' host MAX_DXCLUSTER_HOST_LEN,
        validate_host ''DX Cluster host'' host,
        validate_optional_plain_text ''DX Cluster callsign'' callsign MAX_DXCLUSTER_CALLSIGN_LEN,
        require (\<not> list_ex is_ws (trim callsign)) ''DX Cluster callsign cannot contain whitespace'',
        require (MIN_DXCLUSTER_MAX_AGE_MIN \<le> max_age_min \<and> max_age_min \<le> MAX_DXCLUSTER_MAX_AGE_MIN)
          (''DX Cluster max age must be between '' @ dec_string MIN_DXCLUSTER_MAX_AGE_MIN @ '' and ''
            @ dec_string MAX_DXCLUSTER_MAX_AGE_MIN @ '' minutes''),
        require (length commands \<le> MAX_DXCLUSTER_COMMANDS_LEN)
          (at_most ''DX Cluster commands'' MAX_DXCLUSTER_COMMANDS_LEN ''characters''),
        require (\<not> list_ex (\<lambda>c. is_control c \<and> c \<notin> {newline, carriage_return, char_of (9::nat)}) commands)
          (no_control ''DX Cluster commands'')]"

section \<open>Fields\<close>

record parsed_field_type =
  parsed_kind :: string
  parsed_length :: nat

definition parse_field_type :: "string \<Rightarrow> string \<Rightarrow> parsed_field_type" where
  "parse_field_type field_type radio_mode =
     (let parts = split_on CHR '':'' field_type;
          kind = to_upper (trim (case parts of p # _ \<Rightarrow> p | [] \<Rightarrow> ''STRING''));
          raw_length = (case drop 1 parts of l # _ \<Rightarrow> l | [] \<Rightarrow> ''8'')
      in \<lparr>parsed_kind = kind,
          parsed_length =
            (if kind = ''RST'' then (if mode_is_cw radio_mode then 3 else 2)
             else (case parse_unsigned 64 raw_length of Some n \<Rightarrow> if 0 < n then n else 8 | None \<Rightarrow> 8))\<rparr>)"

definition is_valid_rst :: "string \<Rightarrow> nat \<Rightarrow> bool" where
  "is_valid_rst value expected_length \<longleftrightarrow>
     length value = expected_length \<and> 2 \<le> length value \<and> length value \<le> 3
     \<and> is_digit (hd value) \<and> (CHR ''1'' \<le> hd value \<and> hd value \<le> CHR ''5'')
     \<and> list_all (\<lambda>d. CHR ''1'' \<le> d \<and> d \<le> CHR ''9'') (tl value)"

text \<open>\<open>regex pattern\<close> compiles a pattern; \<open>compiled_regex\<close> only adds a cache of the outcomes.\<close>

type_synonym regex_engine = "string \<Rightarrow> string + (string \<Rightarrow> bool)"

definition validate_typed_field ::
  "regex_engine \<Rightarrow> string \<Rightarrow> string \<Rightarrow> string \<Rightarrow> string list \<Rightarrow> string option \<Rightarrow> bool \<Rightarrow> string \<Rightarrow> string + unit" where
  "validate_typed_field regex label field_type value allowed pat values_or_regex radio_mode =
     (let v = to_upper (trim value);
          parsed = parse_field_type field_type radio_mode;
          expected = (if mode_is_cw radio_mode then 3 else 2)
      in ebind (first_error
           [require (v \<noteq> []) (label @ '' is required''),
            require (length v \<le> parsed_length parsed) (at_most label (parsed_length parsed) ''characters''),
            (if parsed_kind parsed = ''RST''
             then require (is_valid_rst v expected) (label @ '' must be a valid '' @ dec_string expected @ ''-digit RST'')
             else if parsed_kind parsed \<in> set [''NUMERIC'', ''SERIAL'']
             then require (list_all is_digit v) (label @ '' must be numeric'')
             else Inr ())]) (\<lambda>_.
         let matches_value = allowed = [] \<or> list_ex (\<lambda>w. eq_ignore_case w v) allowed
         in ebind (case pat of
                     None \<Rightarrow> Inr True
                   | Some p \<Rightarrow> map_sum (\<lambda>e. ''invalid regex for '' @ label @ '': '' @ e) (\<lambda>matches. matches v) (regex p))
              (\<lambda>matches_regex.
                 require (if allowed = [] \<or> pat = None then matches_value \<and> matches_regex
                          else if values_or_regex then matches_value \<or> matches_regex
                          else matches_value \<and> matches_regex)
                   (label @ '' must be one of: '' @ join_with '', '' allowed))))"

definition condition_text :: "contact \<Rightarrow> string \<Rightarrow> string" where
  "condition_text contact field =
     unwrap_or_default (case json_trimmed_string (contact_adif_value contact field) of
        Some v \<Rightarrow> Some v
      | None \<Rightarrow> json_trimmed_string (contact_meta_value contact field))"

definition contact_matches_condition :: "contact \<Rightarrow> scoring_condition \<Rightarrow> bool" where
  "contact_matches_condition contact condition =
     (let v = to_upper (condition_text contact (cond_field condition))
      in v \<noteq> []
         \<and> (cond_values condition = [] \<or> list_ex (\<lambda>w. eq_ignore_case w v) (cond_values condition))
         \<and> \<not> list_ex (\<lambda>w. eq_ignore_case w v) (cond_exclude_values condition)
         \<and> (case matches_field condition of
              None \<Rightarrow> True
            | Some other \<Rightarrow> condition_text contact other \<noteq> [] \<and> eq_ignore_case v (condition_text contact other))
         \<and> (case not_matches_field condition of
              None \<Rightarrow> True
            | Some other \<Rightarrow> condition_text contact other \<noteq> [] \<and> \<not> eq_ignore_case v (condition_text contact other)))"

definition exchange_field_applies :: "exchange_field \<Rightarrow> contact \<Rightarrow> bool" where
  "exchange_field_applies field contact =
     (case only_when field of None \<Rightarrow> True | Some condition \<Rightarrow> contact_matches_condition contact condition)"

definition validate_exchange_field :: "regex_engine \<Rightarrow> exchange_field \<Rightarrow> contact \<Rightarrow> string \<Rightarrow> string + unit" where
  "validate_exchange_field regex field contact radio_mode =
     (let value = unwrap_or_default (json_trimmed_string (contact_adif_value contact (exch_adif field)))
      in if \<not> exchange_field_applies field contact
         then require (value = []) (exch_label field @ '' must be blank'')
         else ebind (require (value \<noteq> []) (exch_label field @ '' is required'')) (\<lambda>_.
           validate_typed_field regex (exch_label field) (as_spec (exch_input field)) value
             (valid_values (exch_validation field)) (pattern (exch_validation field))
             (match_mode (exch_validation field) = MatchAny) radio_mode))"

section \<open>Contest parameters\<close>

definition validate_contact_key :: "string \<Rightarrow> string + unit" where
  "validate_contact_key key =
     first_error
       [require (key \<noteq> []) ''field names cannot be empty'',
        require (length key \<le> MAX_CONTACT_KEY_LEN) (at_most (''field name '' @ key) MAX_CONTACT_KEY_LEN ''characters''),
        require (\<not> list_ex is_control key) (no_control (''field name '' @ key))]"

definition validate_contest_param :: "regex_engine \<Rightarrow> setup_field \<Rightarrow> json option \<Rightarrow> string + unit" where
  "validate_contest_param regex param value =
     (let label = setup_label param;
          value = unwrap_or_default (json_trimmed_string value);
          multiline = (case setup_widget param of Some w \<Rightarrow> eq_ignore_case w ''textarea'' | None \<Rightarrow> False)
            \<or> setup_max_lines param \<noteq> None;
          typed = (\<lambda>text. validate_typed_field regex label (as_spec (setup_input param)) text
             (valid_values (setup_validation param)) (pattern (setup_validation param))
             (match_mode (setup_validation param) = MatchAny) ''CW'')
      in if value = [] then require (\<not> required (setup_validation param)) (label @ '' is required'')
         else if multiline then
           first_error
             ([case setup_max_lines param of
                 Some n \<Rightarrow> require (length (text_lines value) \<le> n) (at_most label n ''lines'')
               | None \<Rightarrow> Inr ()]
              @ concat (map (\<lambda>line.
                  [require (trim line \<noteq> []) (label @ '' cannot contain blank lines''),
                   require (\<not> list_ex is_control line) (no_control label),
                   typed line]) (text_lines value)))
         else ebind (require (\<not> list_ex is_control value) (no_control label)) (\<lambda>_. typed value))"

definition validate_configured_params :: "regex_engine \<Rightarrow> setup_field list \<Rightarrow> json \<Rightarrow> string + unit" where
  "validate_configured_params regex known params =
     ebind (case params of
              JObject m \<Rightarrow> Inr m
            | JNull \<Rightarrow> Inr []
            | _ \<Rightarrow> Inl ''contest parameters must be an object'') (\<lambda>m.
       first_error
         (concat (map (\<lambda>(key, _).
             [require (key \<in> set (map setup_key known)) (''unknown contest parameter: '' @ key),
              validate_contact_key key]) m)
          @ map (\<lambda>param. validate_contest_param regex param (map_of m (setup_key param))) known))"

definition persisted_log_fields :: "contest_rules \<Rightarrow> setup_field list" where
  "persisted_log_fields rules = setup_fields rules"

definition cabrillo_export_fields :: "contest_rules \<Rightarrow> setup_field list" where
  "cabrillo_export_fields rules = (case cabrillo rules of Some c \<Rightarrow> export_fields c | None \<Rightarrow> [])"

definition validate_persisted_log_params :: "regex_engine \<Rightarrow> contest_rules \<Rightarrow> json \<Rightarrow> string + unit" where
  "validate_persisted_log_params regex rules params = validate_configured_params regex (persisted_log_fields rules) params"

definition validate_cabrillo_export_params :: "regex_engine \<Rightarrow> contest_rules \<Rightarrow> json \<Rightarrow> string + unit" where
  "validate_cabrillo_export_params regex rules params = validate_configured_params regex (cabrillo_export_fields rules) params"

definition validate_update_log :: "regex_engine \<Rightarrow> contest_rules \<Rightarrow> string \<Rightarrow> string \<Rightarrow> json \<Rightarrow> string + unit" where
  "validate_update_log regex rules name station params =
     first_error
       [validate_required_text ''log name'' name MAX_LOG_NAME_LEN,
        validate_callsign ''station callsign'' station False,
        validate_persisted_log_params regex rules params]"

definition validate_new_log ::
  "regex_engine \<Rightarrow> (string \<Rightarrow> contest_rules option) \<Rightarrow> string \<Rightarrow> string \<Rightarrow> string \<Rightarrow> json \<Rightarrow> string + unit" where
  "validate_new_log regex store name station contest params =
     (let contest = trim contest
      in ebind (first_error
           [validate_required_text ''log name'' name MAX_LOG_NAME_LEN,
            validate_callsign ''station callsign'' station False,
            validate_required_text ''contest'' contest MAX_CONTEST_ID_LEN]) (\<lambda>_.
         ebind (ok_or (store contest) (''unknown contest: '' @ contest)) (\<lambda>rules.
           validate_persisted_log_params regex rules params)))"

section \<open>Contacts\<close>

text \<open>A nested value is checked one level deeper; the whole value must fit in four levels.\<close>

fun validate_json_value_size :: "json \<Rightarrow> nat \<Rightarrow> string + unit" where
  "validate_json_value_size (JString s) depth =
     (if MAX_CONTACT_JSON_DEPTH < depth
      then Inl (''nested JSON cannot be deeper than '' @ dec_string MAX_CONTACT_JSON_DEPTH @ '' levels'')
      else require (length s \<le> MAX_CONTACT_STRING_LEN) (at_most ''string value'' MAX_CONTACT_STRING_LEN ''characters''))"
| "validate_json_value_size (JArray values) depth =
     (if MAX_CONTACT_JSON_DEPTH < depth
      then Inl (''nested JSON cannot be deeper than '' @ dec_string MAX_CONTACT_JSON_DEPTH @ '' levels'')
      else ebind (require (length values \<le> MAX_CONTACT_ARRAY_ITEMS)
             (''array value cannot contain more than '' @ dec_string MAX_CONTACT_ARRAY_ITEMS @ '' items'')) (\<lambda>_.
        first_error (map (\<lambda>v. validate_json_value_size v (Suc depth)) values)))"
| "validate_json_value_size (JObject entries) depth =
     (if MAX_CONTACT_JSON_DEPTH < depth
      then Inl (''nested JSON cannot be deeper than '' @ dec_string MAX_CONTACT_JSON_DEPTH @ '' levels'')
      else ebind (require (length entries \<le> MAX_CONTACT_OBJECT_FIELDS)
             (''object value cannot contain more than '' @ dec_string MAX_CONTACT_OBJECT_FIELDS @ '' fields'')) (\<lambda>_.
        first_error (map (\<lambda>e. ebind (validate_contact_key (fst e)) (\<lambda>_. validate_json_value_size (snd e) (Suc depth))) entries)))"
| "validate_json_value_size v depth =
     (if MAX_CONTACT_JSON_DEPTH < depth
      then Inl (''nested JSON cannot be deeper than '' @ dec_string MAX_CONTACT_JSON_DEPTH @ '' levels'')
      else Inr ())"

fun is_object :: "json \<Rightarrow> bool" where
  "is_object (JObject _) = True"
| "is_object _ = False"

definition prefixed :: "string \<Rightarrow> string + 'a \<Rightarrow> string + 'a" where
  "prefixed key r = map_error (\<lambda>e. key @ '': '' @ e) r"

definition validate_contact_shape :: "contact \<Rightarrow> string + unit" where
  "validate_contact_shape contact =
     (if map_of contact ''meta'' \<noteq> None \<or> map_of contact ''adif'' \<noteq> None then
        ebind (first_error (map (\<lambda>(key, value).
          if key = ''meta'' \<or> key = ''adif''
          then ebind (require (is_object value) (key @ '' must be an object'')) (\<lambda>_.
                 prefixed key (validate_json_value_size value 0))
          else Inl ''contact must contain only meta and adif at the top level'') contact)) (\<lambda>_.
        require (map_of contact ''adif'' \<noteq> None) ''contact adif is required'')
      else
        ebind (require (length contact \<le> MAX_CONTACT_FIELDS)
          (''contact cannot contain more than '' @ dec_string MAX_CONTACT_FIELDS @ '' fields'')) (\<lambda>_.
        first_error (map (\<lambda>(key, value). ebind (validate_contact_key key) (\<lambda>_.
          prefixed key (validate_json_value_size value 0))) contact)))"

definition validate_qso_epoch :: "contact \<Rightarrow> string + unit" where
  "validate_qso_epoch contact =
     ebind (ok_or (json_trimmed_i64 (contact_adif_value contact ''QSO_DATE_TIME_ON'')) ''QSO date/time is required'')
       (\<lambda>epoch. require (MIN_QSO_EPOCH \<le> epoch \<and> epoch \<le> MAX_QSO_EPOCH) ''QSO date/time is out of range'')"

definition allowed_bands :: "contest_rules \<Rightarrow> string" where
  "allowed_bands rules = join_with '', '' (rules_bands rules)"

definition adif_text :: "contact \<Rightarrow> string \<Rightarrow> string" where
  "adif_text contact field = unwrap_or_default (json_trimmed_string (contact_adif_value contact field))"

definition validate_contact_band_and_frequency ::
  "(string \<Rightarrow> nat option) \<Rightarrow> contest_rules \<Rightarrow> band list \<Rightarrow> contact \<Rightarrow> string + unit" where
  "validate_contact_band_and_frequency to_hz rules bands contact =
     (let band_text = adif_text contact ''BAND''
      in ebind (require (band_text \<noteq> []) ''band is required'') (\<lambda>_.
         ebind (ok_or (band_by_name bands band_text) ''band is invalid'') (\<lambda>contact_band.
         ebind (require (rules_bands rules = [] \<or> list_ex (\<lambda>b. eq_ignore_case b (band_name contact_band)) (rules_bands rules))
                 (''band must be one of: '' @ allowed_bands rules)) (\<lambda>_.
         ebind (ok_or (contact_frequency_hz to_hz (contact_adif_value contact ''FREQ'')) ''frequency is required'') (\<lambda>hz.
         ebind (validate_radio_frequency_hz hz) (\<lambda>_.
         ebind (ok_or (band_for_frequency bands hz) ''frequency is outside supported amateur bands'') (\<lambda>frequency_band.
         require (eq_ignore_case (band_name frequency_band) (band_name contact_band)) ''frequency does not match band'')))))))"

definition mode_matches :: "string \<Rightarrow> string \<Rightarrow> bool" where
  "mode_matches allowed mode =
     (let a = to_upper (trim allowed)
      in if a = ''PHONE'' then mode \<in> set [''SSB'', ''FM'', ''AM'']
         else if a = ''DIGITAL'' then mode \<notin> set [''CW'', ''CW-R'', ''SSB'', ''FM'', ''AM'']
         else eq_ignore_case allowed mode)"

definition validate_contact_mode :: "contest_rules \<Rightarrow> contact \<Rightarrow> string + string" where
  "validate_contact_mode rules contact =
     (let mode = to_upper (adif_text contact ''MODE'')
      in ebind (first_error
           [require (mode \<noteq> []) ''mode is required'',
            require (rules_modes rules = [] \<or> list_ex (\<lambda>allowed. mode_matches allowed mode) (rules_modes rules))
              (''mode must be one of: '' @ join_with '', '' (rules_modes rules)),
            require (\<not> list_ex (\<lambda>excluded. mode_matches excluded mode) (excluded_modes rules))
              (''mode is not allowed: '' @ mode)]) (\<lambda>_. Inr mode))"

definition validate_contact ::
  "regex_engine \<Rightarrow> (string \<Rightarrow> nat option) \<Rightarrow> contest_rules \<Rightarrow> band list \<Rightarrow> int \<Rightarrow> contact \<Rightarrow> string + unit" where
  "validate_contact regex to_hz rules bands log_id contact =
     ebind (first_error
       [validate_contact_shape contact,
        (case contact_id contact of Some i \<Rightarrow> require (0 < i) ''contact id must be positive'' | None \<Rightarrow> Inr ()),
        (case contact_log_id contact of
           Some l \<Rightarrow> require (l = log_id) ''contact log id does not match request log id'' | None \<Rightarrow> Inr ()),
        ebind (ok_or (json_trimmed_string (contact_adif_value contact ''CONTEST_ID'')) ''contact contest id is required'')
          (\<lambda>contest. require (eq_ignore_case contest (rules_id rules)) ''contact contest id does not match log contest''),
        validate_qso_epoch contact,
        validate_callsign ''station callsign'' (adif_text contact ''STATION_CALLSIGN'') False,
        (case json_trimmed_string (contact_adif_value contact ''OPERATOR'') of
           Some operator \<Rightarrow> if operator = [] then Inr () else validate_callsign ''operator callsign'' operator False
         | None \<Rightarrow> Inr ()),
        validate_callsign ''callsign'' (adif_text contact ''CALL'') False,
        validate_contact_band_and_frequency to_hz rules bands contact]) (\<lambda>_.
     ebind (validate_contact_mode rules contact) (\<lambda>mode.
     first_error
       ([(case json_trimmed_string (contact_meta_value contact ''clientId'') of
            Some client \<Rightarrow> validate_required_text ''client id'' client MAX_CW_REQUEST_ID_LEN | None \<Rightarrow> Inr ()),
         (case json_trimmed_string (contact_meta_value contact ''sessionId'') of
            Some session \<Rightarrow> validate_required_text ''session id'' session MAX_CONTACT_STRING_LEN | None \<Rightarrow> Inr ())]
        @ map (\<lambda>field. validate_exchange_field regex field contact mode) (exchange rules))))"

definition diagnose_contact ::
  "regex_engine \<Rightarrow> (string \<Rightarrow> nat option) \<Rightarrow> contest_rules \<Rightarrow> band list \<Rightarrow> int \<Rightarrow> contact \<Rightarrow> string list" where
  "diagnose_contact regex to_hz rules bands log_id contact =
     (case validate_contact regex to_hz rules bands log_id contact of Inr _ \<Rightarrow> [] | Inl message \<Rightarrow> [message])"

section \<open>Uploads\<close>

datatype contact_validation_error = Invalid string | NotFound string | Internal string

fun error_message :: "contact_validation_error \<Rightarrow> string" where
  "error_message (Invalid m) = m"
| "error_message (NotFound m) = m"
| "error_message (Internal m) = m"

definition numbered :: "nat \<Rightarrow> string \<Rightarrow> string" where
  "numbered index message = ''contact '' @ dec_string (index + 1) @ '': '' @ message"

fun for_contact :: "nat \<Rightarrow> contact_validation_error \<Rightarrow> contact_validation_error" where
  "for_contact index (Invalid m) = Invalid (numbered index m)"
| "for_contact index (NotFound m) = NotFound (numbered index m)"
| "for_contact index (Internal m) = Internal (numbered index m)"

definition force_commit_requested :: "contact \<Rightarrow> bool" where
  "force_commit_requested contact =
     (case Option.bind (contact_meta_value contact ''force'') as_bool of Some b \<Rightarrow> b | None \<Rightarrow> False)"

text \<open>
  What the database answers while an upload is validated: the log, and for the contact at an index
  the owner of its id and the stored contact of its id. Other tasks may change them in between.
\<close>

record upload_reads =
  read_log :: "string + log option"
  read_owner :: "nat \<Rightarrow> string + int option"
  read_contact :: "nat \<Rightarrow> string + contact option"

definition serial_field_value :: "json option \<Rightarrow> string option" where
  "serial_field_value value =
     (case (case value of
              Some (JInt n) \<Rightarrow> Some (int_string n)
            | Some (JFloat t) \<Rightarrow> Some t
            | Some (JString s) \<Rightarrow> Some (trim s)
            | _ \<Rightarrow> None) of
        Some s \<Rightarrow> if s = [] then None else Some s
      | None \<Rightarrow> None)"

definition validate_immutable_sent_serial_fields ::
  "(string + contact option) \<Rightarrow> contest_rules \<Rightarrow> contact \<Rightarrow> contact_validation_error + unit" where
  "validate_immutable_sent_serial_fields stored rules contact =
     (let sent = filter (\<lambda>f. direction f = Sent \<and> input_kind (exch_input f) = SerialInput) (exchange rules)
      in if sent = [] then Inr ()
         else (case contact_id contact of
           None \<Rightarrow> Inr ()
         | Some _ \<Rightarrow>
             ebind (map_error Internal stored) (\<lambda>found.
               (case found of
                  None \<Rightarrow> Inr ()
                | Some existing \<Rightarrow>
                    first_error (map (\<lambda>f.
                      require (serial_field_value (contact_adif_value existing (exch_adif f))
                               = serial_field_value (contact_adif_value contact (exch_adif f)))
                        (Invalid (exch_label f @ '' cannot be changed after logging''))) sent)))))"

definition owner_check :: "(string \<Rightarrow> string) \<Rightarrow> (string + int option) \<Rightarrow> int \<Rightarrow> contact \<Rightarrow> contact_validation_error + unit" where
  "owner_check label owner log_id contact =
     (case contact_id contact of
        None \<Rightarrow> Inr ()
      | Some i \<Rightarrow>
          ebind (map_error Internal owner) (\<lambda>found.
            (case found of
               Some l \<Rightarrow> require (l = log_id) (Invalid (label (''contact id '' @ int_string i @ '' belongs to log '' @ int_string l)))
             | None \<Rightarrow> Inr ())))"

definition rules_of_log ::
  "(string \<Rightarrow> contest_rules option) \<Rightarrow> (string + log option) \<Rightarrow> int \<Rightarrow> contact_validation_error + contest_rules" where
  "rules_of_log store found log_id =
     ebind (map_error Internal found) (\<lambda>l.
     ebind (ok_or l (NotFound (''log '' @ int_string log_id @ '' not found''))) (\<lambda>log.
     ok_or (store (lg_contest_id log)) (Invalid (''unknown contest: '' @ lg_contest_id log))))"

definition validate_contacts ::
  "regex_engine \<Rightarrow> (string \<Rightarrow> nat option) \<Rightarrow> (string \<Rightarrow> contest_rules option) \<Rightarrow> band list \<Rightarrow> upload_reads \<Rightarrow> int
     \<Rightarrow> contact list \<Rightarrow> int set \<Rightarrow> contact_validation_error + unit" where
  "validate_contacts regex to_hz store bands reads log_id contacts diagnostic_ids =
     ebind (first_error
       [require (0 < log_id) (Invalid ''log id must be positive''),
        require (contacts \<noteq> []) (Invalid ''contacts payload must contain at least one contact''),
        require (length contacts \<le> MAX_CONTACTS_PER_UPLOAD)
          (Invalid (''contacts payload cannot contain more than '' @ dec_string MAX_CONTACTS_PER_UPLOAD @ '' contacts''))]) (\<lambda>_.
     ebind (rules_of_log store (read_log reads) log_id) (\<lambda>rules.
     first_error (map (\<lambda>(index, contact).
       let diagnostic = force_commit_requested contact
             \<or> (case contact_id contact of Some i \<Rightarrow> i \<in> diagnostic_ids | None \<Rightarrow> False)
       in first_error
         [map_error (\<lambda>e. Invalid (numbered index e))
            (if diagnostic then validate_contact_shape contact
             else validate_contact regex to_hz rules bands log_id contact),
          (case owner_check (numbered index) (read_owner reads index) log_id contact of
             Inl (Internal e) \<Rightarrow> Inl (Internal (numbered index e)) | r \<Rightarrow> r),
          map_error (for_contact index) (validate_immutable_sent_serial_fields (read_contact reads index) rules contact)])
       (enumerate 0 contacts))))"

definition validate_import_contacts ::
  "regex_engine \<Rightarrow> (string \<Rightarrow> nat option) \<Rightarrow> (string \<Rightarrow> contest_rules option) \<Rightarrow> band list \<Rightarrow> upload_reads \<Rightarrow> int
     \<Rightarrow> contact list \<Rightarrow> (nat \<times> contact_validation_error) + unit" where
  "validate_import_contacts regex to_hz store bands reads log_id contacts =
     ebind (map_error (Pair 0) (first_error
       [require (0 < log_id) (Invalid ''log id must be positive''),
        require (contacts \<noteq> []) (Invalid ''ADIF file does not contain any QSO records'')])) (\<lambda>_.
     ebind (map_error (Pair 0) (rules_of_log store (read_log reads) log_id)) (\<lambda>rules.
     first_error (map (\<lambda>(index, contact).
       map_error (Pair index) (first_error
         [map_error Invalid (validate_contact regex to_hz rules bands log_id contact),
          owner_check (\<lambda>m. m) (read_owner reads index) log_id contact,
          validate_immutable_sent_serial_fields (read_contact reads index) rules contact]))
       (enumerate 0 contacts))))"

end
