(* ===== verification/Cabrillo.thy ===== *)
theory Cabrillo
  imports Adif Validation
begin

text \<open>
  \<open>backend/src/cabrillo.rs\<close>: the Cabrillo export of a log, a header of tagged lines and one \<open>QSO:\<close>
  line for each contact. The private copies of \<open>sanitized_export_stem\<close>, \<open>contact_string\<close> and
  \<open>contact_i64\<close> in this module have the same bodies as the functions of \<open>adif.rs\<close> they are
  taken from here.
\<close>

section \<open>Header\<close>

definition START_OF_LOG_VERSION :: string where "START_OF_LOG_VERSION = ''3.0''"
definition CREATED_BY_VALUE :: string where "CREATED_BY_VALUE = ''Log73''"

definition cabrillo_filename :: "log \<Rightarrow> string" where
  "cabrillo_filename log = sanitized_export_stem (lg_station_callsign log) @ ''.log''"

definition contact_string :: "json option \<Rightarrow> string option" where
  "contact_string value = Option.bind value value_string"

definition token_string :: "json option \<Rightarrow> string option" where
  "token_string value = map_option to_upper (contact_string value)"

definition normalized_tag :: "string \<Rightarrow> string" where
  "normalized_tag tag = to_upper (trim tag)"

definition cabrillo_contest_id :: "contest_rules \<Rightarrow> string" where
  "cabrillo_contest_id rules = (case split_whitespace (rules_id rules) of w # _ \<Rightarrow> w | [] \<Rightarrow> rules_id rules)"

definition is_reserved_tag :: "string \<Rightarrow> bool" where
  "is_reserved_tag tag \<longleftrightarrow>
     to_upper (trim tag) \<in> set [''CREATED-BY'', ''CALLSIGN'', ''CONTEST'', ''CLAIMED-SCORE'', ''OPERATORS'']"

text \<open>The lines a function appends are its value; an empty value appends none.\<close>

definition append_header_line :: "string \<Rightarrow> string \<Rightarrow> string list" where
  "append_header_line tag value = (if trim value = [] then [] else [normalized_tag tag @ '': '' @ trim value])"

definition split_multiline_value :: "string \<Rightarrow> nat option \<Rightarrow> string + string list" where
  "split_multiline_value value max_lines =
     (let lines = filter (\<lambda>l. l \<noteq> []) (map trim (split_on newline (unify_newlines value)))
      in ebind (case max_lines of
                  Some n \<Rightarrow> require (length lines \<le> n) (''value exceeds maximum line count of '' @ dec_string n)
                | None \<Rightarrow> Inr ()) (\<lambda>_.
         Inr (if lines = [] then [trim value] else lines)))"

definition append_header_value :: "string \<Rightarrow> string \<Rightarrow> nat option \<Rightarrow> string + string list" where
  "append_header_value tag value max_lines =
     ebind (split_multiline_value value max_lines) (\<lambda>lines. Inr (concat (map (append_header_line tag) lines)))"

definition parameter_value :: "(string \<times> json) list \<Rightarrow> setup_field \<Rightarrow> string option" where
  "parameter_value values field =
     (let v = (case contact_string (map_of values (setup_key field)) of
                 Some s \<Rightarrow> Some s
               | None \<Rightarrow> contact_string (setup_default field))
      in Option.bind v (\<lambda>s.
           let s = (if preserve_case field then s else to_upper s)
           in if trim s = [] then None else Some s))"

text \<open>The three loops over header fields; a reserved tag is skipped.\<close>

definition fixed_header_lines :: "cabrillo_fixed_header \<Rightarrow> string + string list" where
  "fixed_header_lines field =
     (if is_reserved_tag (header_name field) then Inr []
      else append_header_value (header_name field) (header_value field) None)"

definition parameter_lines :: "(string \<times> json) list \<Rightarrow> string \<Rightarrow> setup_field \<Rightarrow> string + string list" where
  "parameter_lines values header field =
     (if is_reserved_tag header then Inr []
      else (case parameter_value values field of
              Some v \<Rightarrow> append_header_value header v (setup_max_lines field)
            | None \<Rightarrow> Inr []))"

definition setup_lines :: "(string \<times> json) list \<Rightarrow> setup_field \<Rightarrow> string + string list" where
  "setup_lines values field =
     (case cabrillo_header field of Some header \<Rightarrow> parameter_lines values header field | None \<Rightarrow> Inr [])"

text \<open>The operators are a \<open>BTreeSet\<close>: ascending and without repetition. A line holds at most 75 characters.\<close>

primrec wrap_operators :: "string \<Rightarrow> string list \<Rightarrow> string list" where
  "wrap_operators line [] = (if line = [] then [] else append_header_line ''OPERATORS'' line)"
| "wrap_operators line (operator # operators) =
     (let candidate = (if line = [] then operator else line @ '' '' @ operator)
      in if 75 < length candidate \<and> line \<noteq> []
         then append_header_line ''OPERATORS'' line @ wrap_operators operator operators
         else wrap_operators candidate operators)"

definition log_operators :: "contact list \<Rightarrow> string \<Rightarrow> string list" where
  "log_operators contacts station_callsign =
     (let operators = sort (remdups (List.map_filter (\<lambda>c. token_string (contact_adif_value c ''OPERATOR'')) contacts))
      in if operators = [] then [to_upper (trim station_callsign)] else operators)"

definition append_operators_lines :: "contact list \<Rightarrow> string \<Rightarrow> string list" where
  "append_operators_lines contacts station_callsign = wrap_operators [] (log_operators contacts station_callsign)"

section \<open>Contacts\<close>

definition cabrillo_mode_token :: "string \<Rightarrow> string" where
  "cabrillo_mode_token mode =
     (let m = to_upper (trim mode)
      in if m \<in> set [''CW'', ''CW-R''] then ''CW''
         else if m \<in> set [''SSB'', ''USB'', ''LSB'', ''FM'', ''FMN'', ''WFM'', ''AM'', ''PH''] then ''PH''
         else if m = ''RTTY'' then ''RY'' else ''DG'')"

definition qso_mode_token :: "contact \<Rightarrow> string option" where
  "qso_mode_token contact = map_option cabrillo_mode_token (token_string (contact_adif_value contact ''MODE''))"

definition qso_frequency_token :: "contact \<Rightarrow> band list \<Rightarrow> string + string" where
  "qso_frequency_token contact bands =
     ebind (ok_or (Option.bind (contact_i64 (contact_adif_value contact ''FREQ'')) (\<lambda>hz. if 0 < hz then Some hz else None))
              ''contact is missing frequency for Cabrillo export'') (\<lambda>hz.
     ebind (ok_or (token_string (contact_adif_value contact ''BAND'')) ''contact is missing band for Cabrillo export'') (\<lambda>name.
     ebind (ok_or (band_by_name bands name)
              (''contact band '' @ name @ '' is not available in the configured IARU region'')) (\<lambda>band.
     Inr (if band_cabrillo band = ''khz'' then int_string (hz div 1000) else band_cabrillo band))))"

definition exchange_token :: "exchange_field \<Rightarrow> log \<Rightarrow> contact \<Rightarrow> string + string" where
  "exchange_token field log contact =
     (case token_string (contact_adif_value contact (exch_adif field)) of
        Some v \<Rightarrow> Inr v
      | None \<Rightarrow>
         (case Option.bind (exch_source field) (\<lambda>param.
                 token_string (Option.bind (as_object (lg_contest_params log)) (\<lambda>params. map_of params param))) of
            Some v \<Rightarrow> Inr v
          | None \<Rightarrow> ok_or (token_string (exch_default field)) (''contact is missing '' @ exch_label field)))"

definition cabrillo_header_value :: "contest_rules \<Rightarrow> (string \<times> json) list \<Rightarrow> string \<Rightarrow> string option" where
  "cabrillo_header_value rules values name =
     Option.bind (cabrillo rules) (\<lambda>cab.
       case find (\<lambda>f. normalized_tag (header_name f) = name) (fixed_headers cab) of
         Some f \<Rightarrow> Some (to_upper (trim (header_value f)))
       | None \<Rightarrow>
           map_option (\<lambda>v. to_upper (trim v))
             (Option.bind (find (\<lambda>f. case cabrillo_header f of Some h \<Rightarrow> normalized_tag h = name | None \<Rightarrow> False)
                             (setup_fields rules)) (parameter_value values)))"

definition uses_transmitter_id :: "contest_rules \<Rightarrow> log \<Rightarrow> bool" where
  "uses_transmitter_id rules log \<longleftrightarrow>
     cabrillo rules \<noteq> None \<and>
     (case as_object (lg_contest_params log) of
        None \<Rightarrow> False
      | Some values \<Rightarrow>
          cabrillo_header_value rules values ''CATEGORY-OPERATOR'' = Some ''MULTI-OP'' \<and>
          (let transmitter = cabrillo_header_value rules values ''CATEGORY-TRANSMITTER''
           in if transmitter = Some ''TWO'' then True
              else if transmitter = Some ''ONE'' then
                (case find (\<lambda>f. case cabrillo_header f of Some h \<Rightarrow> normalized_tag h = ''CATEGORY-TRANSMITTER'' | None \<Rightarrow> False)
                        (setup_fields rules) of
                   Some f \<Rightarrow> multi_single_has_mult_transmitter f
                 | None \<Rightarrow> False)
              else False))"

definition exchange_tokens :: "exchange_direction \<Rightarrow> contest_rules \<Rightarrow> log \<Rightarrow> contact \<Rightarrow> string + string list" where
  "exchange_tokens dir rules log contact =
     collect_results (map (\<lambda>f. exchange_token f log contact)
       (filter (\<lambda>f. direction f = dir \<and> exchange_field_applies f contact) (exchange rules)))"

definition station_token :: "log \<Rightarrow> contact \<Rightarrow> string" where
  "station_token log contact =
     (case contact_string (contact_adif_value contact ''STATION_CALLSIGN'') of
        Some s \<Rightarrow> to_upper s
      | None \<Rightarrow> to_upper (trim (lg_station_callsign log)))"

definition transmitter_tokens :: "contest_rules \<Rightarrow> log \<Rightarrow> contact \<Rightarrow> string list" where
  "transmitter_tokens rules log contact =
     (if uses_transmitter_id rules log
      then [int_string (case contact_i64 (contact_adif_value contact ''APP_LOG73_TX_ID'') of Some n \<Rightarrow> n | None \<Rightarrow> 0)]
      else [])"

definition render_qso_line :: "contest_rules \<Rightarrow> log \<Rightarrow> contact \<Rightarrow> band list \<Rightarrow> string + string" where
  "render_qso_line rules log contact bands =
     ebind (qso_frequency_token contact bands) (\<lambda>frequency.
     ebind (ok_or (qso_mode_token contact) ''contact is missing mode'') (\<lambda>mode.
     ebind (ok_or (contact_i64 (contact_adif_value contact ''QSO_DATE_TIME_ON'')) ''contact is missing QSO date/time'') (\<lambda>epoch.
     ebind (qso_datetime_cabrillo epoch) (\<lambda>(date, time).
     ebind (ok_or (token_string (contact_adif_value contact ''CALL'')) ''contact is missing callsign'') (\<lambda>their_callsign.
     ebind (exchange_tokens Sent rules log contact) (\<lambda>sent.
     ebind (exchange_tokens Received rules log contact) (\<lambda>received.
     Inr (join_with '' '' ([''QSO:'', frequency, mode, date, time, station_token log contact] @ sent @ [their_callsign]
            @ received @ transmitter_tokens rules log contact)))))))))"

definition object_or_null :: "json \<Rightarrow> string \<Rightarrow> string + (string \<times> json) list" where
  "object_or_null value error =
     (case as_object value of Some m \<Rightarrow> Inr m | None \<Rightarrow> if value = JNull then Inr [] else Inl error)"

definition render_log ::
  "contest_rules \<Rightarrow> log \<Rightarrow> contact list \<Rightarrow> json \<Rightarrow> int \<Rightarrow> band list \<Rightarrow> string + string" where
  "render_log rules log contacts export_params claimed_score bands =
     ebind (ok_or (cabrillo rules) (''contest '' @ rules_id rules @ '' does not define Cabrillo export'')) (\<lambda>cab.
     ebind (object_or_null export_params ''export parameters must be an object'') (\<lambda>export_values.
     ebind (object_or_null (lg_contest_params log) ''log contest parameters must be an object'') (\<lambda>log_values.
     ebind (collect_results (map fixed_header_lines (fixed_headers cab))) (\<lambda>fixed.
     ebind (collect_results (map (setup_lines log_values) (setup_fields rules))) (\<lambda>setup.
     ebind (collect_results (map (\<lambda>f. parameter_lines export_values (setup_key f) f) (export_fields cab))) (\<lambda>exported.
     ebind (collect_results (map (\<lambda>c. render_qso_line rules log c bands) contacts)) (\<lambda>qsos.
     Inr (join_with [carriage_return, newline]
           ([''START-OF-LOG: '' @ START_OF_LOG_VERSION]
            @ append_header_line ''CREATED-BY'' CREATED_BY_VALUE
            @ append_header_line ''CALLSIGN'' (trim (lg_station_callsign log))
            @ append_header_line ''CONTEST'' (cabrillo_contest_id rules)
            @ append_header_line ''CLAIMED-SCORE'' (int_string claimed_score)
            @ concat fixed @ concat setup @ concat exported
            @ append_operators_lines contacts (lg_station_callsign log) @ qsos @ [''END-OF-LOG:''])
         @ [carriage_return, newline]))))))))"

end
