(* ===== verification/ValidationSpec.thy ===== *)
theory ValidationSpec
  imports Validation
begin

text \<open>
  What the validation accepts, as typing judgements: JSON values that fit a depth, callsigns, and
  contacts of a contest. The checks of \<open>validation.rs\<close> decide the judgements.
\<close>

section \<open>JSON sizes\<close>

text \<open>\<open>json_fits n v\<close>: \<open>v\<close> nests at most \<open>n\<close> levels below itself, within the limits on each level.\<close>

definition key_ok :: "string \<Rightarrow> bool" where
  "key_ok key \<longleftrightarrow> key \<noteq> [] \<and> length key \<le> 64 \<and> list_all (\<lambda>c. \<not> is_control c) key"

inductive json_fits :: "nat \<Rightarrow> json \<Rightarrow> bool" where
  Null: "json_fits n JNull"
| Bool: "json_fits n (JBool b)"
| Int: "json_fits n (JInt i)"
| Float: "json_fits n (JFloat t)"
| String: "length s \<le> 1024 \<Longrightarrow> json_fits n (JString s)"
| Empty_Array: "json_fits n (JArray [])"
| Array: "length vs \<le> 100 \<Longrightarrow> (\<And>v. v \<in> set vs \<Longrightarrow> json_fits n v) \<Longrightarrow> json_fits (Suc n) (JArray vs)"
| Empty_Object: "json_fits n (JObject [])"
| Object: "length es \<le> 100 \<Longrightarrow> (\<And>k v. (k, v) \<in> set es \<Longrightarrow> key_ok k \<and> json_fits n v) \<Longrightarrow> json_fits (Suc n) (JObject es)"

inductive_cases json_fitsE [elim!]:
  "json_fits n (JString s)" "json_fits n (JArray vs)" "json_fits n (JObject es)"

lemma validate_contact_key_iff: "validate_contact_key key = Inr u \<longleftrightarrow> key_ok key"
  by (simp add: validate_contact_key_def key_ok_def MAX_CONTACT_KEY_LEN_def list_all_iff list_ex_iff)

lemmas json_limits = MAX_CONTACT_JSON_DEPTH_def MAX_CONTACT_STRING_LEN_def MAX_CONTACT_ARRAY_ITEMS_def
  MAX_CONTACT_OBJECT_FIELDS_def

lemma json_size_iff:
  "validate_json_value_size v depth = Inr () \<longleftrightarrow> depth \<le> 4 \<and> json_fits (4 - depth) v"
proof (induction v depth rule: validate_json_value_size.induct)
  case (1 s depth)
  then show ?case by (auto simp: json_limits intro: json_fits.intros)
next
  case (2 vs depth)
  show ?case
  proof (cases "depth \<le> 4")
    case True
    then have d: "\<not> MAX_CONTACT_JSON_DEPTH < depth" by (simp add: json_limits)
    note IH = 2 [OF d]
    show ?thesis
    proof (cases "depth = 4")
      case True
      have "validate_json_value_size v 5 \<noteq> Inr ()" if "v \<in> set vs" for v
        using IH [of v] that True by auto
      then show ?thesis using True by (cases vs) (auto simp: json_limits intro: json_fits.intros)
    next
      case False
      with \<open>depth \<le> 4\<close> have "4 - depth = Suc (4 - Suc depth)" by simp
      then show ?thesis using IH False \<open>depth \<le> 4\<close>
        by (auto simp: json_limits intro: json_fits.intros)
    qed
  qed (simp add: json_limits)
next
  case (3 es depth)
  show ?case
  proof (cases "depth \<le> 4")
    case True
    then have d: "\<not> MAX_CONTACT_JSON_DEPTH < depth" by (simp add: json_limits)
    have IH: "validate_json_value_size v (Suc depth) = Inr () \<longleftrightarrow> Suc depth \<le> 4 \<and> json_fits (4 - Suc depth) v"
      if "(k, v) \<in> set es" for k v
      using 3 [OF d, of "(k, v)"] that by simp
    have checks: "validate_json_value_size (JObject es) depth = Inr () \<longleftrightarrow> length es \<le> 100 \<and>
        (\<forall>(k, v)\<in>set es. key_ok k \<and> Suc depth \<le> 4 \<and> json_fits (4 - Suc depth) v)"
      using d IH by (fastforce simp: json_limits validate_contact_key_iff)
    show ?thesis
    proof (cases "depth = 4")
      case True
      then show ?thesis using checks by (cases es) (auto intro: json_fits.intros)
    next
      case False
      with \<open>depth \<le> 4\<close> have "4 - depth = Suc (4 - Suc depth)" by simp
      then show ?thesis using checks False \<open>depth \<le> 4\<close>
        by (auto intro: json_fits.intros)
    qed
  qed (simp add: json_limits)
qed (auto simp: json_limits intro: json_fits.intros)

section \<open>Callsigns\<close>

definition callsign_ok :: "string \<Rightarrow> bool" where
  "callsign_ok value \<longleftrightarrow> length (normalize value) \<le> 12
     \<and> list_all (\<lambda>c. is_upper c \<or> is_digit c \<or> c = CHR ''/'') (normalize value)
     \<and> (\<exists>b. base (parse value) = Some b \<and> is_callsign_like b)"

lemma base_splits: "base (parse v) = Some b \<Longrightarrow> split_middle_slash (normalize v) \<noteq> InvalidSlash"
  by (auto simp: parse_def Let_def split: slash.splits prod.splits)

lemma not_callsign_like_Nil [simp]: "\<not> is_callsign_like []"
  by (simp add: is_callsign_like_def)

lemma control_upper [simp]: "is_control (upper_char c) = is_control c"
  by (auto simp: is_control_def upper_char_def char_class_defs)

lemma letters_no_control: "is_upper c \<or> is_digit c \<or> c = CHR ''/'' \<Longrightarrow> \<not> is_control c"
  by (auto simp: is_control_def char_class_defs)

lemma normalized_parse [simp]: "normalized (parse v) = normalize v"
  by (simp add: parse_def Let_def split: prod.split)

lemma validate_callsign_iff: "validate_callsign label value False = Inr () \<longleftrightarrow> callsign_ok value"
proof -
  have checks: "validate_required_text label value MAX_CALLSIGN_LEN = Inr () \<longleftrightarrow>
      normalize value \<noteq> [] \<and> length (normalize value) \<le> 12 \<and> list_all (\<lambda>c. \<not> is_control c) (normalize value)"
    by (auto simp: validate_required_text_def MAX_CALLSIGN_LEN_def normalize_def list_all_iff list_ex_iff Let_def)
  have chars: "list_all (\<lambda>c. is_upper c \<or> is_digit c \<or> c = CHR ''/'') s \<Longrightarrow> list_all (\<lambda>c. \<not> is_control c) s" for s
    using letters_no_control by (auto simp: list_all_iff)
  have base: "is_callsign_like (unwrap_or_default (base (parse value))) \<longleftrightarrow>
      (\<exists>b. base (parse value) = Some b \<and> is_callsign_like b)"
    by (cases "base (parse value)") auto
  have ne: "is_callsign_like b \<Longrightarrow> base (parse value) = Some b \<Longrightarrow> normalize value \<noteq> []" for b
    by (auto simp: parse_def Let_def split_middle_slash_def)
  show ?thesis
    unfolding validate_callsign_def callsign_ok_def
    using base ne chars base_splits [of "value"]
    by (auto simp: checks Let_def check_structure_cases split: sum.splits structure_error.splits if_splits)
qed

section \<open>Exchange fields\<close>

definition field_length :: "field_input \<Rightarrow> nat" where
  "field_length i = (case max_length i of Some n \<Rightarrow> if 0 < n \<and> n < 2 ^ 64 then n else 8 | None \<Rightarrow> 8)"

definition value_ok :: "regex_engine \<Rightarrow> field_validation \<Rightarrow> string \<Rightarrow> bool" where
  "value_ok regex val v \<longleftrightarrow>
     (let listed = list_ex (\<lambda>w. eq_ignore_case w v) (valid_values val)
      in case pattern val of
           None \<Rightarrow> valid_values val = [] \<or> listed
         | Some p \<Rightarrow> (\<exists>matches. regex p = Inr matches \<and>
             (if valid_values val = [] then matches v
              else if match_mode val = MatchAny then listed \<or> matches v else listed \<and> matches v)))"

text \<open>\<open>exchange_typed mode i v\<close>: the upper-case text \<open>v\<close> is a value of the input \<open>i\<close> in a mode.\<close>

inductive exchange_typed :: "string \<Rightarrow> field_input \<Rightarrow> string \<Rightarrow> bool" where
  Report: "input_kind i = RstInput \<Longrightarrow> CHR ''1'' \<le> r \<Longrightarrow> r \<le> CHR ''5''
    \<Longrightarrow> list_all (\<lambda>d. CHR ''1'' \<le> d \<and> d \<le> CHR ''9'') rest
    \<Longrightarrow> length rest = (if mode_is_cw mode then 2 else 1) \<Longrightarrow> exchange_typed mode i (r # rest)"
| Number: "input_kind i \<in> {NumericInput, SerialInput} \<Longrightarrow> v \<noteq> [] \<Longrightarrow> list_all is_digit v
    \<Longrightarrow> length v \<le> field_length i \<Longrightarrow> exchange_typed mode i v"
| Text: "input_kind i = StringInput \<Longrightarrow> v \<noteq> [] \<Longrightarrow> length v \<le> field_length i \<Longrightarrow> exchange_typed mode i v"

lemma parse_unsigned_dec: "parse_unsigned 64 (dec_string n) = (if n < 2 ^ 64 then Some n else None)"
proof -
  obtain c t where s: "dec_string n = c # t" using dec_string_ne by (cases "dec_string n") auto
  then have "is_digit c" using dec_string_digits [of n] by simp
  then have "\<not> prefix ''+'' (dec_string n)" using digits_not_sign s by auto
  then show ?thesis by (simp add: parse_unsigned_def)
qed

lemma parse_field_type_spec:
  "parse_field_type (as_spec i) mode =
     \<lparr>parsed_kind = kind_name i,
      parsed_length = (if input_kind i = RstInput then (if mode_is_cw mode then 3 else 2) else field_length i)\<rparr>"
proof -
  have colon: "CHR '':'' \<notin> set (dec_string n)" for n
    using dec_string_digits [of n] by (auto simp: list_all_iff char_class_defs)
  have eight: "parse_unsigned 64 ''8'' = Some 8" by code_simp
  have rst: "kind_name i = ''RST'' \<longleftrightarrow> input_kind i = RstInput"
    by (cases "input_kind i") (simp_all add: kind_name_def)
  show ?thesis
  proof (cases "max_length i")
    case None
    then show ?thesis
      by (simp add: parse_field_type_def as_spec_def split_on_none kind_name_facts Let_def eight rst field_length_def)
  next
    case (Some n)
    have "split_on CHR '':'' (as_spec i) = [kind_name i, dec_string n]"
      using split_on_append [OF kind_name_facts(3) [of i], of "dec_string n"] split_on_none [OF colon]
      by (simp add: as_spec_def Some)
    then show ?thesis
      by (simp add: parse_field_type_def kind_name_facts Let_def rst field_length_def Some parse_unsigned_dec)
  qed
qed

lemma one_to_five_digit: "CHR ''1'' \<le> r \<Longrightarrow> r \<le> CHR ''5'' \<Longrightarrow> is_digit r"
  by (simp add: is_digit_def less_eq_char_def)

lemma valid_rst_iff:
  "is_valid_rst v n \<and> n \<in> {2, 3} \<longleftrightarrow>
     (\<exists>r rest. v = r # rest \<and> CHR ''1'' \<le> r \<and> r \<le> CHR ''5''
        \<and> list_all (\<lambda>d. CHR ''1'' \<le> d \<and> d \<le> CHR ''9'') rest \<and> Suc (length rest) = n \<and> n \<in> {2, 3})"
  by (cases v) (auto simp: is_valid_rst_def one_to_five_digit)

lemma typed_field_iff:
  "validate_typed_field regex label (as_spec i) value (valid_values val) (pattern val) (match_mode val = MatchAny) mode = Inr ()
     \<longleftrightarrow> exchange_typed mode i (to_upper (trim value)) \<and> value_ok regex val (to_upper (trim value))"
proof -
  let ?v = "to_upper (trim value)" and ?n = "if mode_is_cw mode then 3 else 2 :: nat"
  have typed: "exchange_typed mode i ?v \<longleftrightarrow>
      ?v \<noteq> [] \<and> length ?v \<le> (if input_kind i = RstInput then ?n else field_length i) \<and>
      (if input_kind i = RstInput then is_valid_rst ?v ?n
       else if input_kind i \<in> {NumericInput, SerialInput} then list_all is_digit ?v else True)"
    using valid_rst_iff [of ?v ?n]
    by (cases "input_kind i") (auto simp: exchange_typed.simps)
  have kinds: "kind_name i = ''RST'' \<longleftrightarrow> input_kind i = RstInput"
    "kind_name i \<in> set [''NUMERIC'', ''SERIAL''] \<longleftrightarrow> input_kind i \<in> {NumericInput, SerialInput}"
    by (cases "input_kind i"; simp add: kind_name_def)+
  have allowed: "ebind (case pattern val of None \<Rightarrow> Inr True
         | Some p \<Rightarrow> map_sum (\<lambda>e. ''invalid regex for '' @ label @ '': '' @ e) (\<lambda>matches. matches ?v) (regex p))
      (\<lambda>matches_regex. require (if valid_values val = [] \<or> pattern val = None
            then (valid_values val = [] \<or> list_ex (\<lambda>w. eq_ignore_case w ?v) (valid_values val)) \<and> matches_regex
            else if match_mode val = MatchAny
            then (valid_values val = [] \<or> list_ex (\<lambda>w. eq_ignore_case w ?v) (valid_values val)) \<or> matches_regex
            else (valid_values val = [] \<or> list_ex (\<lambda>w. eq_ignore_case w ?v) (valid_values val)) \<and> matches_regex)
        (label @ '' must be one of: '' @ join_with '', '' (valid_values val))) = Inr ()
      \<longleftrightarrow> value_ok regex val ?v"
  proof (cases "pattern val")
    case None
    then show ?thesis by (simp add: value_ok_def Let_def)
  next
    case (Some p)
    then show ?thesis by (cases "regex p") (simp_all add: value_ok_def Let_def)
  qed
  have split: "ebind a (\<lambda>_. b) = Inr () \<longleftrightarrow> a = Inr () \<and> b = Inr ()" for a b :: "string + unit"
    by (cases a) auto
  show ?thesis
    unfolding validate_typed_field_def parse_field_type_spec Let_def parsed_field_type.select_convs split allowed typed kinds
    by simp
qed

section \<open>Contacts\<close>

definition text_ok :: "nat \<Rightarrow> string \<Rightarrow> bool" where
  "text_ok n t \<longleftrightarrow> trim t \<noteq> [] \<and> length (trim t) \<le> n \<and> list_all (\<lambda>c. \<not> is_control c) (trim t)"

lemma required_text_iff: "validate_required_text label t n = Inr () \<longleftrightarrow> text_ok n t"
  by (auto simp: validate_required_text_def text_ok_def Let_def list_all_iff list_ex_iff)

text \<open>The JSON of a contact: the two objects, or an old flat object.\<close>

definition shape_ok :: "contact \<Rightarrow> bool" where
  "shape_ok c \<longleftrightarrow>
     (if map_of c ''meta'' \<noteq> None \<or> map_of c ''adif'' \<noteq> None
      then map_of c ''adif'' \<noteq> None
        \<and> (\<forall>(k, v)\<in>set c. (k = ''meta'' \<or> k = ''adif'') \<and> is_object v \<and> json_fits 4 v)
      else length c \<le> 100 \<and> (\<forall>(k, v)\<in>set c. key_ok k \<and> json_fits 4 v))"

lemma shape_iff: "validate_contact_shape c = Inr () \<longleftrightarrow> shape_ok c"
proof -
  have top: "(\<forall>r\<in>(\<lambda>(key, value). if key = ''meta'' \<or> key = ''adif''
        then ebind (require (is_object value) (key @ '' must be an object'')) (\<lambda>_. prefixed key (validate_json_value_size value 0))
        else Inl ''contact must contain only meta and adif at the top level'') ` set c. r = Inr ())
      \<longleftrightarrow> (\<forall>(k, v)\<in>set c. (k = ''meta'' \<or> k = ''adif'') \<and> is_object v \<and> json_fits 4 v)"
    by (fastforce simp: prefixed_def json_size_iff split: if_splits)
  have flat: "(\<forall>r\<in>(\<lambda>(key, value). ebind (validate_contact_key key) (\<lambda>_. prefixed key (validate_json_value_size value 0))) ` set c. r = Inr ())
      \<longleftrightarrow> (\<forall>(k, v)\<in>set c. key_ok k \<and> json_fits 4 v)"
    by (fastforce simp: prefixed_def json_size_iff validate_contact_key_iff)
  show ?thesis
    unfolding validate_contact_shape_def shape_ok_def
    using top flat by (auto simp: MAX_CONTACT_FIELDS_def simp del: not_None_eq)
qed

definition on_band :: "(string \<Rightarrow> nat option) \<Rightarrow> contest_rules \<Rightarrow> band list \<Rightarrow> contact \<Rightarrow> bool" where
  "on_band to_hz rules bands c \<longleftrightarrow>
     (\<exists>b fb hz. adif_text c ''BAND'' \<noteq> [] \<and> band_by_name bands (adif_text c ''BAND'') = Some b
        \<and> (rules_bands rules = [] \<or> list_ex (\<lambda>a. eq_ignore_case a (band_name b)) (rules_bands rules))
        \<and> contact_frequency_hz to_hz (contact_adif_value c ''FREQ'') = Some hz \<and> 0 < hz \<and> hz \<le> 500000000
        \<and> fb \<in> set bands \<and> lower_hz fb \<le> int hz \<and> int hz \<le> upper_hz fb
        \<and> band_for_frequency bands hz = Some fb \<and> eq_ignore_case (band_name fb) (band_name b))"

definition mode_of :: "contact \<Rightarrow> string" where
  "mode_of c = to_upper (adif_text c ''MODE'')"

definition in_mode :: "contest_rules \<Rightarrow> contact \<Rightarrow> bool" where
  "in_mode rules c \<longleftrightarrow> mode_of c \<noteq> []
     \<and> (rules_modes rules = [] \<or> list_ex (\<lambda>m. mode_matches m (mode_of c)) (rules_modes rules))
     \<and> \<not> list_ex (\<lambda>m. mode_matches m (mode_of c)) (excluded_modes rules)"

definition exchanged :: "regex_engine \<Rightarrow> exchange_field \<Rightarrow> contact \<Rightarrow> bool" where
  "exchanged regex f c \<longleftrightarrow>
     (let v = adif_text c (exch_adif f)
      in if exchange_field_applies f c
         then exchange_typed (mode_of c) (exch_input f) (to_upper (trim v)) \<and> value_ok regex (exch_validation f) (to_upper (trim v))
         else v = [])"

definition contact_typed ::
  "regex_engine \<Rightarrow> (string \<Rightarrow> nat option) \<Rightarrow> contest_rules \<Rightarrow> band list \<Rightarrow> int \<Rightarrow> contact \<Rightarrow> bool" where
  "contact_typed regex to_hz rules bands l c \<longleftrightarrow> shape_ok c
     \<and> (\<forall>i. contact_id c = Some i \<longrightarrow> 0 < i) \<and> (\<forall>k. contact_log_id c = Some k \<longrightarrow> k = l)
     \<and> (\<exists>t. json_trimmed_string (contact_adif_value c ''CONTEST_ID'') = Some t \<and> eq_ignore_case t (rules_id rules))
     \<and> (\<exists>e. json_trimmed_i64 (contact_adif_value c ''QSO_DATE_TIME_ON'') = Some e \<and> 0 \<le> e \<and> e \<le> 4102444800)
     \<and> callsign_ok (adif_text c ''STATION_CALLSIGN'') \<and> callsign_ok (adif_text c ''CALL'')
     \<and> (adif_text c ''OPERATOR'' = [] \<or> callsign_ok (adif_text c ''OPERATOR''))
     \<and> on_band to_hz rules bands c \<and> in_mode rules c
     \<and> (\<forall>t. json_trimmed_string (contact_meta_value c ''clientId'') = Some t \<longrightarrow> text_ok 64 t)
     \<and> (\<forall>t. json_trimmed_string (contact_meta_value c ''sessionId'') = Some t \<longrightarrow> text_ok 1024 t)
     \<and> (\<forall>f\<in>set (exchange rules). exchanged regex f c)"

lemma band_for_frequency_within:
  "band_for_frequency bands hz = Some b \<Longrightarrow> b \<in> set bands \<and> lower_hz b \<le> int hz \<and> int hz \<le> upper_hz b"
  by (auto simp: band_for_frequency_def find_Some_iff split: if_splits)

lemma ebind_unit: "ebind a (\<lambda>_. b) = Inr () \<longleftrightarrow> a = Inr () \<and> b = Inr ()" for a :: "'e + unit"
  by (cases a) auto

lemma first_errors: "first_error (rs @ ss) = Inr () \<longleftrightarrow> first_error rs = Inr () \<and> first_error ss = Inr ()"
  by auto

lemma on_band_iff: "validate_contact_band_and_frequency to_hz rules bands c = Inr () \<longleftrightarrow> on_band to_hz rules bands c"
  using band_for_frequency_within
  by (auto simp: validate_contact_band_and_frequency_def on_band_def Let_def validate_radio_frequency_hz_def
      MAX_RADIO_FREQUENCY_HZ_def)

lemma in_mode_iff: "validate_contact_mode rules c = Inr m \<longleftrightarrow> in_mode rules c \<and> m = mode_of c"
  by (auto simp: validate_contact_mode_def in_mode_def mode_of_def Let_def)

lemma exchange_typed_ne: "exchange_typed mode i v \<Longrightarrow> v \<noteq> []"
  by (auto elim: exchange_typed.cases)

lemma exchanged_iff: "validate_exchange_field regex f c (mode_of c) = Inr () \<longleftrightarrow> exchanged regex f c"
proof -
  have "exchange_typed m i (to_upper (trim v)) \<Longrightarrow> v \<noteq> []" for m i v
    using exchange_typed_ne by fastforce
  then show ?thesis
    by (auto simp: validate_exchange_field_def exchanged_def adif_text_def [symmetric] Let_def ebind_unit typed_field_iff
        simp del: ebind_Inr)
qed

lemma contact_typed_iff:
  "validate_contact regex to_hz rules bands l c = Inr () \<longleftrightarrow> contact_typed regex to_hz rules bands l c"
proof -
  have operator: "(case json_trimmed_string (contact_adif_value c ''OPERATOR'') of
       Some operator \<Rightarrow> if operator = [] then Inr () else validate_callsign ''operator callsign'' operator False
     | None \<Rightarrow> Inr ()) = Inr () \<longleftrightarrow> adif_text c ''OPERATOR'' = [] \<or> callsign_ok (adif_text c ''OPERATOR'')"
    by (cases "json_trimmed_string (contact_adif_value c ''OPERATOR'')") (auto simp: adif_text_def validate_callsign_iff)
  have optional: "(case x of Some t \<Rightarrow> validate_required_text label t n | None \<Rightarrow> Inr ()) = Inr ()
      \<longleftrightarrow> (\<forall>t. x = Some t \<longrightarrow> text_ok n t)" for x label n
    by (cases x) (auto simp: required_text_iff)
  have guarded: "(case x of Some (i :: int) \<Rightarrow> require (P i) e | None \<Rightarrow> Inr ()) = Inr () \<longleftrightarrow> (\<forall>i. x = Some i \<longrightarrow> P i)"
    for x P and e :: string by (cases x) auto
  have contest: "ebind (ok_or x e) (\<lambda>t. require (Q t) e') = Inr () \<longleftrightarrow> (\<exists>t. x = Some t \<and> Q t)"
    for x and Q :: "'x \<Rightarrow> bool" and e e' :: string by (cases x) (auto simp: ok_or_def)
  show ?thesis
    unfolding validate_contact_def contact_typed_def
    by (simp only: ebind_Inr first_errors first_error_Cons operator optional guarded contest)
       (auto simp: in_mode_iff shape_iff validate_callsign_iff on_band_iff exchanged_iff validate_qso_epoch_def
        MIN_QSO_EPOCH_def MAX_QSO_EPOCH_def MAX_CW_REQUEST_ID_LEN_def MAX_CONTACT_STRING_LEN_def)
qed

text \<open>
  C20. Validation is the decision procedure of the typing judgement on contacts: a contact is accepted
  for a log exactly when its JSON fits the limits on every level, it names the log's contest, its
  time, callsigns, band, frequency and mode are in order, and every exchange field holds a value of its input
  in the mode (a report, a number, a text, of its length and among its values) where the field
  applies and nothing where it does not.
\<close>

theorem validation_decides_typing:
  "validate_contact regex to_hz rules bands l c = Inr () \<longleftrightarrow> contact_typed regex to_hz rules bands l c"
  by (rule contact_typed_iff)

section \<open>Uploads\<close>

text \<open>A contact at an index of an accepted upload.\<close>

definition accepted_at ::
  "regex_engine \<Rightarrow> (string \<Rightarrow> nat option) \<Rightarrow> contest_rules \<Rightarrow> band list \<Rightarrow> upload_reads \<Rightarrow> int \<Rightarrow> int set \<Rightarrow> nat \<Rightarrow> contact \<Rightarrow> bool" where
  "accepted_at regex to_hz rules bands reads l ids i c \<longleftrightarrow>
     (if force_commit_requested c \<or> (\<exists>k\<in>ids. contact_id c = Some k) then shape_ok c
      else contact_typed regex to_hz rules bands l c)
     \<and> (contact_id c \<noteq> None \<longrightarrow> read_owner reads i \<in> {Inr None, Inr (Some l)})
     \<and> (\<forall>old f. contact_id c \<noteq> None \<longrightarrow> read_contact reads i = Inr (Some old) \<longrightarrow> f \<in> set (exchange rules)
          \<longrightarrow> direction f = Sent \<longrightarrow> input_kind (exch_input f) = SerialInput
          \<longrightarrow> serial_field_value (contact_adif_value old (exch_adif f)) = serial_field_value (contact_adif_value c (exch_adif f)))"

lemma serials_kept:
  "validate_immutable_sent_serial_fields stored rules c = Inr () \<Longrightarrow> contact_id c \<noteq> None \<Longrightarrow> stored = Inr (Some old)
    \<Longrightarrow> f \<in> set (exchange rules) \<Longrightarrow> direction f = Sent \<Longrightarrow> input_kind (exch_input f) = SerialInput
    \<Longrightarrow> serial_field_value (contact_adif_value old (exch_adif f)) = serial_field_value (contact_adif_value c (exch_adif f))"
  by (auto simp: validate_immutable_sent_serial_fields_def Let_def map_error_def filter_empty_conv split: if_splits)

lemma owner_kept:
  "owner_check label owner l c = Inr () \<Longrightarrow> contact_id c \<noteq> None \<Longrightarrow> owner \<in> {Inr None, Inr (Some l)}"
  by (cases owner) (auto simp: owner_check_def map_error_def split: option.splits)

lemma uploads_accepted:
  assumes "validate_contacts regex to_hz store bands reads l contacts ids = Inr ()"
  shows "\<exists>log rules. read_log reads = Inr (Some log) \<and> store (lg_contest_id log) = Some rules \<and> 0 < l
    \<and> contacts \<noteq> [] \<and> length contacts \<le> 100
    \<and> (\<forall>i < length contacts. accepted_at regex to_hz rules bands reads l ids i (contacts ! i))"
proof -
  from assms obtain log rules where log: "read_log reads = Inr (Some log)" "store (lg_contest_id log) = Some rules"
    and sizes: "0 < l" "contacts \<noteq> []" "length contacts \<le> 100"
    and each: "\<And>i c. (i, c) \<in> set (enumerate 0 contacts) \<Longrightarrow>
        map_error (\<lambda>e. Invalid (numbered i e))
          (if force_commit_requested c \<or> (case contact_id c of Some k \<Rightarrow> k \<in> ids | None \<Rightarrow> False)
           then validate_contact_shape c else validate_contact regex to_hz rules bands l c) = Inr ()
        \<and> owner_check (numbered i) (read_owner reads i) l c = Inr ()
        \<and> validate_immutable_sent_serial_fields (read_contact reads i) rules c = Inr ()"
    by (fastforce simp: validate_contacts_def rules_of_log_def Let_def MAX_CONTACTS_PER_UPLOAD_def
        split: sum.splits contact_validation_error.splits)
  have "accepted_at regex to_hz rules bands reads l ids i (contacts ! i)" if "i < length contacts" for i
  proof -
    have "(i, contacts ! i) \<in> set (enumerate 0 contacts)" using that by (simp add: in_set_enumerate_eq)
    note e = each [OF this]
    then have "if force_commit_requested (contacts ! i) \<or> (\<exists>k\<in>ids. contact_id (contacts ! i) = Some k)
        then shape_ok (contacts ! i) else contact_typed regex to_hz rules bands l (contacts ! i)"
      by (auto simp: shape_iff contact_typed_iff split: option.splits if_splits)
    then show ?thesis
      using e owner_kept serials_kept unfolding accepted_at_def by blast
  qed
  then show ?thesis using log sizes by blast
qed

text \<open>
  C21. What gets past the upload check: between one and a hundred contacts for a log that exists and
  whose contest is known, each of them typed for the contest unless its sender forces it or it
  already carries warnings, when only its shape is checked; no contact of another log is taken over, and the serial
  number sent in a stored contact is never changed.
\<close>

theorem accepted_uploads:
  assumes "validate_contacts regex to_hz store bands reads l contacts ids = Inr ()"
  shows "\<exists>log rules. read_log reads = Inr (Some log) \<and> store (lg_contest_id log) = Some rules \<and> 0 < l
    \<and> contacts \<noteq> [] \<and> length contacts \<le> 100
    \<and> (\<forall>i < length contacts. accepted_at regex to_hz rules bands reads l ids i (contacts ! i))"
  by (rule uploads_accepted [OF assms])

section \<open>Instances\<close>

definition test_field :: "string \<Rightarrow> field_input_kind \<Rightarrow> string \<Rightarrow> exchange_direction \<Rightarrow> exchange_field" where
  "test_field name kind adif dir = \<lparr>exch_id = name, exch_label = name, exch_input = \<lparr>input_kind = kind, max_length = Some 4\<rparr>,
     exch_adif = adif, direction = dir,
     exch_validation = \<lparr>required = True, pattern = None, valid_values = [], match_mode = MatchAll\<rparr>,
     exch_fixed = False, exch_default = None, exch_source = None, exch_serial_scope = GlobalScope, only_when = None,
     table_visibility = TableAuto\<rparr>"

definition test_rules :: contest_rules where
  "test_rules = \<lparr>rules_id = ''TEST'', rules_name = ''Test'', rules_bands = [''20m''], rules_modes = [''CW'', ''PHONE''],
     excluded_modes = [], value_sets = [], setup_fields = [],
     exchange = [test_field ''RST(s)'' RstInput ''RST_SENT'' Sent, test_field ''Nr(s)'' SerialInput ''STX'' Sent,
                 test_field ''Nr(r)'' SerialInput ''SRX'' Received],
     qso_table = [], scoring = \<lparr>qso_points = None, minimum_multiplier_count = 0, dupe_key_fields = [], multiplier_rules = [],
       bonus_point_rules = [], param_multiplier_rules = [], multiplier_count_bonus_rules = [], qso_count_bonus_rules = []\<rparr>,
     cabrillo = Some \<lparr>fixed_headers = [], export_fields = []\<rparr>, metadata = None\<rparr>"

definition test_band :: band where
  "test_band = \<lparr>band_region = 2, band_name = ''20m'', lower_hz = 14000000, upper_hz = 14350000, default_ssb = ''USB'',
     sort_order = 1, band_cabrillo = ''khz''\<rparr>"

definition test_contact :: contact where
  "test_contact = build_contact [(''id'', JInt 4)]
     [(''CONTEST_ID'', JString ''test''), (''QSO_DATE_TIME_ON'', JInt 1700000000), (''STATION_CALLSIGN'', JString ''N0CALL''),
      (''CALL'', JString ''dl/w1aw''), (''BAND'', JString ''20m''), (''FREQ'', JInt 14250000), (''MODE'', JString ''SSB''),
      (''RST_SENT'', JInt 59), (''STX'', JInt 7), (''SRX'', JString ''12'')]"

definition test_log :: log where
  "test_log = \<lparr>lg_id = 1, lg_name = ''Test'', lg_contest_id = ''TEST'', lg_station_callsign = ''N0CALL'', lg_contest_params = JNull\<rparr>"

definition test_reads :: upload_reads where
  "test_reads = \<lparr>read_log = Inr (Some test_log), read_owner = (\<lambda>_. Inr (Some 1)), read_contact = (\<lambda>_. Inr (Some test_contact))\<rparr>"

theorem accepted_uploads_witness:
  "\<exists>rules. map_of [(''TEST'', test_rules)] ''TEST'' = Some rules
     \<and> contact_typed (\<lambda>_. Inl []) (\<lambda>_. None) rules [test_band] 1 test_contact"
proof -
  have run: "validate_contacts (\<lambda>_. Inl []) (\<lambda>_. None) (map_of [(''TEST'', test_rules)]) [test_band] test_reads 1 [test_contact] {}
      = Inr ()" by code_simp
  have force: "\<not> force_commit_requested test_contact" by code_simp
  from accepted_uploads [OF run] force show ?thesis
    by (auto simp: accepted_at_def test_reads_def test_log_def)
qed

end
