(* ===== verification/CabrilloSpec.thy ===== *)
theory CabrilloSpec
  imports Cabrillo ValidationSpec
begin

text \<open>
  What the validation accepts the export writes: the line of a typed contact carries its own values,
  never a default. The operators of a log are split into lines of at most 75 characters.
\<close>

section \<open>Contacts\<close>

lemma contact_string_trimmed: "contact_string = json_trimmed_string"
  by (rule ext) (simp add: contact_string_def value_string_def json_trimmed_string_def split: option.split json.split)

lemma contact_i64_trimmed: "contact_i64 = json_trimmed_i64"
  by (rule ext) (simp add: contact_i64_def json_trimmed_i64_def)

lemma token_of_text:
  "adif_text c k \<noteq> [] \<Longrightarrow> token_string (contact_adif_value c k) = Some (to_upper (adif_text c k))"
  by (cases "json_trimmed_string (contact_adif_value c k)")
    (simp_all add: token_string_def contact_string_trimmed adif_text_def)

lemma band_by_name_upper: "band_by_name bands (to_upper name) = band_by_name bands name"
proof -
  have "to_lower (to_upper s) = to_lower s" for s
    by (auto simp: lower_char_def upper_char_def char_class_defs)
  then show ?thesis by (simp only: band_by_name_def Let_def trim_to_upper eq_ignore_case_def)
qed

text \<open>The values a contact was logged with, in the order of the exchange.\<close>

definition logged :: "exchange_direction \<Rightarrow> contest_rules \<Rightarrow> contact \<Rightarrow> string list" where
  "logged dir rules c =
     map (\<lambda>f. to_upper (adif_text c (exch_adif f)))
       (filter (\<lambda>f. direction f = dir \<and> exchange_field_applies f c) (exchange rules))"

lemma exchanged_value: "exchanged regex f c \<Longrightarrow> exchange_field_applies f c \<Longrightarrow> adif_text c (exch_adif f) \<noteq> []"
  using exchange_typed_ne by (fastforce simp: exchanged_def Let_def)

lemma exchange_tokens_logged:
  assumes "\<forall>f\<in>set (exchange rules). exchanged regex f c"
  shows "exchange_tokens dir rules log c = Inr (logged dir rules c)"
proof -
  have "exchange_token f log c = Inr (to_upper (adif_text c (exch_adif f)))"
    if "f \<in> set (exchange rules)" and "exchange_field_applies f c" for f
    using token_of_text [OF exchanged_value [of regex f c]] assms that by (simp add: exchange_token_def)
  then show ?thesis by (auto simp: exchange_tokens_def logged_def collect_results_Inr)
qed

lemma callsign_text: "callsign_ok v \<Longrightarrow> v \<noteq> []"
  by (auto simp: callsign_ok_def parse_def Let_def split_middle_slash_def normalize_def)

lemma cabrillo_datetime: "0 \<le> e \<Longrightarrow> \<exists>date time. qso_datetime_cabrillo e = Inr (date, time)"
  by (auto simp: qso_datetime_cabrillo_def qso_datetime_parts_def Let_def split: prod.split)

text \<open>
  C24. The Cabrillo line of a contact that the validation accepts. It is rendered exactly when the
  contact's frequency is a positive integer of hertz, as the database stores it; with any other
  frequency, a decimal text the validation accepts included, the export fails with the missing
  frequency. Its tokens are the contact's own: the class of its mode, its time, both callsigns and,
  for every exchange field that applies to it, the value it was logged with in capitals, sent fields
  before and received fields after the other station's call; no parameter or default of the contest
  stands in for an exchange. At the end comes, in the logs that number their transmitters, the
  contact's transmitter, or 0 if it has none.
\<close>

theorem typed_contact_exports:
  assumes typed: "contact_typed regex to_hz rules bands l c"
  shows "case Option.bind (contact_i64 (contact_adif_value c ''FREQ'')) (\<lambda>hz. if 0 < hz then Some hz else None) of
      None \<Rightarrow> render_qso_line rules log c bands = Inl ''contact is missing frequency for Cabrillo export''
    | Some hz \<Rightarrow> \<exists>b date time e. band_by_name bands (adif_text c ''BAND'') = Some b
        \<and> contact_i64 (contact_adif_value c ''QSO_DATE_TIME_ON'') = Some e \<and> qso_datetime_cabrillo e = Inr (date, time)
        \<and> render_qso_line rules log c bands = Inr (join_with '' ''
            ([''QSO:'', (if band_cabrillo b = ''khz'' then int_string (hz div 1000) else band_cabrillo b),
              cabrillo_mode_token (mode_of c), date, time, to_upper (adif_text c ''STATION_CALLSIGN'')]
             @ logged Sent rules c @ [to_upper (adif_text c ''CALL'')] @ logged Received rules c
             @ (if uses_transmitter_id rules log
                then [int_string (case contact_i64 (contact_adif_value c ''APP_LOG73_TX_ID'') of Some n \<Rightarrow> n | None \<Rightarrow> 0)]
                else [])))"
proof (cases "Option.bind (contact_i64 (contact_adif_value c ''FREQ'')) (\<lambda>hz. if 0 < hz then Some hz else None)")
  case None
  then show ?thesis by (simp add: render_qso_line_def qso_frequency_token_def ok_or_def)
next
  case (Some hz)
  then have freq: "contact_i64 (contact_adif_value c ''FREQ'') = Some hz" and pos: "0 < hz"
    by (auto simp: bind_eq_Some_conv split: if_splits)
  have t: "adif_text c ''STATION_CALLSIGN'' \<noteq> []" "adif_text c ''CALL'' \<noteq> []" "mode_of c \<noteq> []"
    and ex: "\<forall>f\<in>set (exchange rules). exchanged regex f c" and band: "on_band to_hz rules bands c"
    using typed callsign_text by (auto simp: contact_typed_def in_mode_def)
  obtain e where e: "contact_i64 (contact_adif_value c ''QSO_DATE_TIME_ON'') = Some e" and "0 \<le> e"
    using typed by (auto simp: contact_typed_def contact_i64_trimmed)
  obtain date time where dt: "qso_datetime_cabrillo e = Inr (date, time)"
    using cabrillo_datetime [OF \<open>0 \<le> e\<close>] by blast
  obtain b where b: "adif_text c ''BAND'' \<noteq> []" "band_by_name bands (adif_text c ''BAND'') = Some b"
    using band by (auto simp: on_band_def)
  have f: "qso_frequency_token c bands = Inr (if band_cabrillo b = ''khz'' then int_string (hz div 1000) else band_cabrillo b)"
    using freq pos b token_of_text [OF b(1)] by (simp add: qso_frequency_token_def ok_or_def band_by_name_upper)
  have m: "qso_mode_token c = Some (cabrillo_mode_token (mode_of c))"
    using t(3) token_of_text [of c "''MODE''"] by (simp add: qso_mode_token_def mode_of_def)
  have s: "station_token log c = to_upper (adif_text c ''STATION_CALLSIGN'')"
    using t(1) by (cases "json_trimmed_string (contact_adif_value c ''STATION_CALLSIGN'')")
      (simp_all add: station_token_def contact_string_trimmed adif_text_def)
  have "render_qso_line rules log c bands = Inr (join_with '' ''
        ([''QSO:'', (if band_cabrillo b = ''khz'' then int_string (hz div 1000) else band_cabrillo b), cabrillo_mode_token (mode_of c), date, time, to_upper (adif_text c ''STATION_CALLSIGN'')]
         @ logged Sent rules c @ [to_upper (adif_text c ''CALL'')] @ logged Received rules c @ transmitter_tokens rules log c))"
    unfolding render_qso_line_def f m e dt s token_of_text [OF t(2)] exchange_tokens_logged [OF ex] by (simp add: ok_or_def dt)
  then show ?thesis unfolding Some option.case using e dt b(2)
    by (rule_tac x = b in exI, rule_tac x = date in exI, rule_tac x = time in exI, rule_tac x = e in exI)
      (simp only: simp_thms transmitter_tokens_def)
qed

theorem typed_contact_exports_witness:
  "render_qso_line test_rules test_log test_contact [test_band]
     = Inr ''QSO: 14250 PH 2023-11-14 2213 N0CALL 59 7 DL/W1AW 12''"
proof -
  have "validate_contact (\<lambda>_. Inl []) (\<lambda>_. None) test_rules [test_band] 1 test_contact = Inr ()" by code_simp
  then have typed: "contact_typed (\<lambda>_. Inl []) (\<lambda>_. None) test_rules [test_band] 1 test_contact" by (simp add: contact_typed_iff)
  have freq: "contact_i64 (contact_adif_value test_contact ''FREQ'') = Some 14250000" by code_simp
  have band: "band_by_name [test_band] (adif_text test_contact ''BAND'') = Some test_band" by code_simp
  have khz: "band_cabrillo test_band = ''khz''" "int_string 14250 = ''14250''" by code_simp+
  have e: "contact_i64 (contact_adif_value test_contact ''QSO_DATE_TIME_ON'') = Some 1700000000" by code_simp
  have dt: "qso_datetime_cabrillo 1700000000 = Inr (''2023-11-14'', ''2213'')" by code_simp
  have tokens: "cabrillo_mode_token (mode_of test_contact) = ''PH''" "to_upper (adif_text test_contact ''STATION_CALLSIGN'') = ''N0CALL''"
    "to_upper (adif_text test_contact ''CALL'') = ''DL/W1AW''" "logged Sent test_rules test_contact = [''59'', ''7'']"
    "logged Received test_rules test_contact = [''12'']" "\<not> uses_transmitter_id test_rules test_log"
    by code_simp+
  show ?thesis
    using typed_contact_exports [OF typed, of test_log] unfolding freq e tokens band by (auto simp: dt khz tokens)
qed

section \<open>Operators\<close>

definition operators_line :: "string list \<Rightarrow> string" where
  "operators_line ops = ''OPERATORS: '' @ join_with '' '' ops"

definition line_fits :: "string list \<Rightarrow> bool" where
  "line_fits ops \<longleftrightarrow> ops \<noteq> [] \<and> (length (join_with '' '' ops) \<le> 75 \<or> length ops = 1)"

text \<open>No line takes the first operator of the next one: the lines are as full as they can be.\<close>

definition lines_full :: "string list list \<Rightarrow> bool" where
  "lines_full groups \<longleftrightarrow>
     (\<forall>i. Suc i < length groups \<longrightarrow> 75 < length (join_with '' '' (groups ! i @ [hd (groups ! Suc i)])))"

definition is_word :: "string \<Rightarrow> bool" where
  "is_word w \<longleftrightarrow> w \<noteq> [] \<and> list_all (\<lambda>c. \<not> is_ws c) w"

lemma join_snoc: "ws \<noteq> [] \<Longrightarrow> join_with sep (ws @ [w]) = join_with sep ws @ sep @ w"
proof (induction ws)
  case (Cons v ws)
  then show ?case by (cases ws) simp_all
qed simp

lemma join_words: "list_all is_word ws \<Longrightarrow> ws \<noteq> [] \<Longrightarrow>
  join_with '' '' ws \<noteq> [] \<and> \<not> is_ws (hd (join_with '' '' ws)) \<and> \<not> is_ws (last (join_with '' '' ws))"
proof (induction ws rule: rev_induct)
  case (snoc w ws)
  have w: "w \<noteq> []" "\<not> is_ws (hd w)" "\<not> is_ws (last w)"
    using snoc.prems by (auto simp: is_word_def list_all_iff)
  then show ?case using snoc by (cases "ws = []") (simp_all add: join_snoc)
qed simp

lemma header_words:
  assumes "list_all is_word ws" and "ws \<noteq> []"
  shows "append_header_line ''OPERATORS'' (join_with '' '' ws) = [operators_line ws]"
proof -
  have "trim (join_with '' '' ws) = join_with '' '' ws" using join_words [OF assms] by (intro trim_fixed) simp
  moreover have "normalized_tag ''OPERATORS'' = ''OPERATORS''" by code_simp
  ultimately show ?thesis using join_words [OF assms] by (simp add: append_header_line_def operators_line_def)
qed

lemma lines_full_Cons:
  "lines_full (g # groups) \<longleftrightarrow> (groups \<noteq> [] \<longrightarrow> 75 < length (join_with '' '' (g @ [hd (hd groups)]))) \<and> lines_full groups"
  by (auto simp: lines_full_def nth_Cons hd_conv_nth split: nat.splits)

lemma wrap_operators_groups:
  assumes "list_all is_word (ws @ operators)" and "ws \<noteq> []" and "line_fits ws"
  shows "\<exists>groups. wrap_operators (join_with '' '' ws) operators = map operators_line groups
    \<and> concat groups = ws @ operators \<and> list_all line_fits groups \<and> lines_full groups \<and> groups \<noteq> [] \<and> prefix ws (hd groups)"
  using assms
proof (induction operators arbitrary: ws)
  case Nil
  then show ?case
    using join_words [of ws] header_words [of ws] by (intro exI [of _ "[ws]"]) (auto simp: lines_full_def)
next
  case (Cons op operators)
  have ne: "join_with '' '' ws \<noteq> []" using join_words [of ws] Cons.prems by simp
  have j: "join_with '' '' (ws @ [op]) = join_with '' '' ws @ '' '' @ op" using Cons.prems by (simp add: join_snoc)
  show ?case
  proof (cases "75 < length (join_with '' '' (ws @ [op]))")
    case True
    obtain groups where g: "wrap_operators op operators = map operators_line groups" "concat groups = op # operators"
      "list_all line_fits groups" "lines_full groups" "groups \<noteq> []" "prefix [op] (hd groups)"
    proof -
      have "line_fits [op]" "list_all is_word ([op] @ operators)" using Cons.prems by (simp_all add: line_fits_def)
      then show thesis using Cons.IH [of "[op]"] that by auto
    qed
    have "wrap_operators (join_with '' '' ws) (op # operators) = operators_line ws # map operators_line groups"
      using True ne header_words [of ws] Cons.prems g(1) unfolding j by (simp add: Let_def)
    moreover have "hd (hd groups) = op" using g(6) by (cases "hd groups") auto
    then have "lines_full (ws # groups)" using True g(4) by (simp add: lines_full_Cons)
    ultimately show ?thesis using g Cons.prems by (intro exI [of _ "ws # groups"]) simp
  next
    case False
    have "line_fits (ws @ [op])" using False by (simp add: line_fits_def)
    then obtain groups where g: "wrap_operators (join_with '' '' (ws @ [op])) operators = map operators_line groups"
      "concat groups = (ws @ [op]) @ operators" "list_all line_fits groups" "lines_full groups" "groups \<noteq> []" "prefix (ws @ [op]) (hd groups)"
      using Cons.IH [of "ws @ [op]"] Cons.prems by auto
    have "wrap_operators (join_with '' '' ws) (op # operators) = map operators_line groups"
      using False ne g(1) unfolding j by (simp add: Let_def)
    then show ?thesis using g append_prefixD by (intro exI [of _ groups]) auto
  qed
qed

lemma wrap_skips_blank: "wrap_operators [] ([] # operators) = wrap_operators [] operators"
  by (simp add: Let_def)

lemma wrap_operators_start:
  assumes "list_all is_word operators"
  shows "\<exists>groups. wrap_operators [] operators = map operators_line groups \<and> concat groups = operators
    \<and> list_all line_fits groups \<and> lines_full groups"
proof (cases operators)
  case Nil
  then show ?thesis by (intro exI [of _ "[]"]) (simp add: lines_full_def)
next
  case (Cons op rest)
  have "wrap_operators [] (op # rest) = wrap_operators (join_with '' '' [op]) rest" by (simp add: Let_def)
  then show ?thesis using wrap_operators_groups [of "[op]" rest] assms Cons by (auto simp: line_fits_def)
qed

text \<open>The operator a contact names: None without the field, blank when it is empty.\<close>

definition operator_of :: "contact \<Rightarrow> string option" where
  "operator_of c = token_string (contact_adif_value c ''OPERATOR'')"

definition named_operators :: "contact list \<Rightarrow> string set" where
  "named_operators contacts = {n. n \<noteq> [] \<and> (\<exists>c\<in>set contacts. operator_of c = Some n)}"

lemma callsign_word: "callsign_ok v \<Longrightarrow> trim v = v \<Longrightarrow> is_word (to_upper v)"
proof -
  assume v: "callsign_ok v" "trim v = v"
  have "\<not> is_ws c" if "is_upper c \<or> is_digit c \<or> c = CHR ''/''" for c
    using that by (auto simp: char_class_defs)
  then have "list_all (\<lambda>c. \<not> is_ws c) (to_upper v)"
    using v by (simp only: callsign_ok_def normalize_def list_all_iff) blast
  then show ?thesis using callsign_text [OF v(1)] by (simp add: is_word_def)
qed

lemma typed_operator:
  assumes "contact_typed regex to_hz rules bands l c" and "contact_adif_value c ''OPERATOR'' = Some (JString s)"
  shows "operator_of c = Some (to_upper (trim s)) \<and> (trim s = [] \<or> is_word (to_upper (trim s)))"
proof -
  have v: "adif_text c ''OPERATOR'' = trim s" and t: "operator_of c = Some (to_upper (trim s))"
    using assms(2) by (simp_all add: adif_text_def json_trimmed_string_def operator_of_def token_string_def contact_string_trimmed)
  have "trim s = [] \<or> callsign_ok (trim s)" using assms(1) by (auto simp: contact_typed_def v)
  then show ?thesis using t callsign_word [of "trim s"] by auto
qed

lemma nil_least: "[] \<in> set xs \<Longrightarrow> sorted xs \<Longrightarrow> \<exists>ys. xs = [] # ys" for xs :: "string list"
  by (cases xs) auto

text \<open>
  C25. The \<open>OPERATORS\<close> lines of a log of typed contacts name every operator of the log once, in
  ascending order, none dropped or cut; a line holds at most 75 characters of callsigns unless one
  operator alone is longer, and is as full as that allows. The station's own callsign stands in only
  when no contact has the field at all: if all name a blank operator there is no line.
\<close>

theorem operators_wrapped:
  assumes typed: "\<forall>c\<in>set contacts. contact_typed regex to_hz rules bands l c"
    and texts: "\<forall>c\<in>set contacts. \<forall>v. contact_adif_value c ''OPERATOR'' = Some v \<longrightarrow> (\<exists>s. v = JString s)"
    and station: "callsign_ok station"
  shows "\<exists>groups. append_operators_lines contacts station = map operators_line groups
    \<and> concat groups = (if \<forall>c\<in>set contacts. operator_of c = None then [to_upper (trim station)]
                       else sorted_list_of_set (named_operators contacts))
    \<and> (\<forall>g\<in>set groups. line_fits g) \<and> lines_full groups"
proof -
  let ?found = "List.map_filter operator_of contacts"
  let ?ops = "sort (remdups ?found)"
  have found: "set ?found = {n. \<exists>c\<in>set contacts. operator_of c = Some n}"
    by (induction contacts) (auto simp: List.map_filter_simps split: option.split)
  have words: "n = [] \<or> is_word n" if c: "c \<in> set contacts" and n: "operator_of c = Some n" for c n
  proof (cases "contact_adif_value c ''OPERATOR''")
    case None
    then show ?thesis using n by (simp add: operator_of_def token_string_def contact_string_def)
  next
    case (Some v)
    then obtain s where s: "contact_adif_value c ''OPERATOR'' = Some (JString s)" using texts c by blast
    then show ?thesis using typed_operator [OF _ s] typed c n by auto
  qed
  have ops: "sorted ?ops" "distinct ?ops" "set ?ops = set ?found" by simp_all
  have named: "sorted_list_of_set (named_operators contacts) = filter (\<lambda>n. n \<noteq> []) ?ops"
  proof -
    have "named_operators contacts = set (filter (\<lambda>n. n \<noteq> []) ?ops)" using found by (auto simp: named_operators_def)
    moreover have "sorted (filter (\<lambda>n. n \<noteq> []) ?ops)" by (intro sorted_wrt_filter ops)
    moreover have "distinct (filter (\<lambda>n. n \<noteq> []) ?ops)" by (intro distinct_filter ops)
    ultimately show ?thesis by (simp only: sorted_list_of_set.idem_if_sorted_distinct)
  qed
  have none: "(\<forall>c\<in>set contacts. operator_of c = None) \<longleftrightarrow> ?found = []"
  proof -
    have "(\<forall>c\<in>set contacts. operator_of c = None) \<longleftrightarrow> set ?found = {}"
      unfolding found by (auto simp del: not_None_eq simp flip: not_Some_eq)
    then show ?thesis by simp
  qed
  have lines: "append_operators_lines contacts station = wrap_operators [] (if ?found = [] then [to_upper (trim station)] else ?ops)"
  proof -
    have nil: "sort (remdups xs) = [] \<longleftrightarrow> xs = []" for xs :: "string list"
      by (metis set_empty2 set_remdups set_sort)
    then show ?thesis
      unfolding append_operators_lines_def log_operators_def Let_def operator_of_def [symmetric] by (simp only: nil)
  qed
  show ?thesis
  proof (cases "?found = []")
    case True
    have "callsign_ok (trim station)" using station by (simp add: callsign_ok_def normalize_def parse_def Let_def)
    then have "list_all is_word [to_upper (trim station)]" using callsign_word [of "trim station"] by simp
    from wrap_operators_start [OF this] show ?thesis unfolding none lines using True by (simp add: list_all_iff)
  next
    case False
    have "wrap_operators [] ?ops = wrap_operators [] (filter (\<lambda>n. n \<noteq> []) ?ops)"
    proof (cases "[] \<in> set ?ops")
      case True
      then obtain ys where ys: "?ops = [] # ys" using nil_least [OF _ ops(1)] by blast
      then have "[] \<notin> set ys" using ops(2) by (simp only: distinct.simps) simp
      then have "filter (\<lambda>n. n \<noteq> []) ys = ys" by (induction ys) auto
      then show ?thesis unfolding ys using wrap_skips_blank by simp
    next
      case False
      then have "filter (\<lambda>n. n \<noteq> []) ?ops = ?ops" by (intro filter_True) metis
      then show ?thesis by simp
    qed
    moreover have "list_all is_word (filter (\<lambda>n. n \<noteq> []) ?ops)" using words found ops(3) by (auto simp: list_all_iff)
    ultimately show ?thesis
      unfolding none lines named using False wrap_operators_start [of "filter (\<lambda>n. n \<noteq> []) ?ops"] by (simp add: list_all_iff)
  qed
qed

definition shared_contact :: "string \<Rightarrow> contact" where
  "shared_contact operator = set_contact_adif test_contact ''OPERATOR'' (JString operator)"

lemma operators_wrapped_witness:
  "append_operators_lines (map shared_contact [''w1aw'', ''K1ABC'', [], ''W1AW'']) ''N0CALL'' = [''OPERATORS: K1ABC W1AW'']"
proof -
  let ?contacts = "map shared_contact [''w1aw'', ''K1ABC'', [], ''W1AW'']"
  have "list_all (\<lambda>c. validate_contact (\<lambda>_. Inl []) (\<lambda>_. None) test_rules [test_band] 1 c = Inr ()) ?contacts" by code_simp
  then have typed: "\<forall>c\<in>set ?contacts. contact_typed (\<lambda>_. Inl []) (\<lambda>_. None) test_rules [test_band] 1 c"
    by (simp add: contact_typed_iff list_all_iff)
  have "map (\<lambda>c. contact_adif_value c ''OPERATOR'') ?contacts = map (Some \<circ> JString) [''w1aw'', ''K1ABC'', [], ''W1AW'']"
    by code_simp
  then have texts: "\<forall>c\<in>set ?contacts. \<forall>v. contact_adif_value c ''OPERATOR'' = Some v \<longrightarrow> (\<exists>s. v = JString s)" by simp
  have "validate_callsign ''station callsign'' ''N0CALL'' False = Inr ()" by code_simp
  then have station: "callsign_ok ''N0CALL''" by (simp add: validate_callsign_iff)
  have ops: "map operator_of ?contacts = [Some ''W1AW'', Some ''K1ABC'', Some [], Some ''W1AW'']" by code_simp
  then have named: "named_operators ?contacts = {''W1AW'', ''K1ABC''}" by (auto simp: named_operators_def)
  have sorted: "sorted_list_of_set (named_operators ?contacts) = [''K1ABC'', ''W1AW'']" unfolding named by code_simp
  have some: "\<not> (\<forall>c\<in>set ?contacts. operator_of c = None)" using ops by simp
  obtain groups where g: "append_operators_lines ?contacts ''N0CALL'' = map operators_line groups"
    "concat groups = [''K1ABC'', ''W1AW'']" "\<forall>g\<in>set groups. line_fits g" "lines_full groups"
    using operators_wrapped [OF typed texts station] unfolding sorted if_not_P [OF some] by blast
  have one: "groups = [[''K1ABC'', ''W1AW'']]"
  proof (cases groups)
    case (Cons g1 rest)
    note gr = Cons
    then have g1: "g1 \<noteq> []" using g(3) by (simp add: line_fits_def)
    show ?thesis
    proof (cases rest)
      case Nil
      then show ?thesis using g(2) gr by simp
    next
      case (Cons g2 rest')
      then have "g2 \<noteq> []" using g(3) gr by (simp add: line_fits_def)
      then have "g1 = [''K1ABC'']" "hd g2 = ''W1AW''"
        using g(2) gr Cons g1 by (auto simp: append_eq_Cons_conv Cons_eq_append_conv)
      then show ?thesis using g(4) gr Cons by (simp add: lines_full_Cons)
    qed
  qed (use g in simp)
  show ?thesis unfolding g(1) one by (simp add: operators_line_def)
qed

end
