(* ===== verification/RulesCatalog.thy ===== *)
theory RulesCatalog
  imports Idioms
begin

text \<open>
  \<open>backend/src/contest_rules.rs\<close>, the catalog: contests and profiles are YAML mappings that build on
  each other. A contest is its profiles, its parent and its own mapping, each laid over the one
  before. \<open>serde_yaml\<close> keeps a mapping in insertion order and removes by swapping with the last
  entry. The recursion over references takes fuel, \<open>None\<close> being recursion deeper than it; the fuel
  \<open>load_dirs\<close> is modelled with is always enough.
\<close>

section \<open>YAML\<close>

datatype yaml =
    YNull
  | YBool bool
  | YNumber string
  | YString string
  | YSequence "yaml list"
  | YMapping "(yaml \<times> yaml) list"
  | YTagged string yaml

type_synonym yaml_mapping = "(yaml, yaml) hmap"

fun as_mapping :: "yaml \<Rightarrow> yaml_mapping option" where
  "as_mapping (YMapping m) = Some m"
| "as_mapping (YTagged _ v) = as_mapping v"
| "as_mapping _ = None"

fun as_sequence :: "yaml \<Rightarrow> yaml list option" where
  "as_sequence (YSequence vs) = Some vs"
| "as_sequence (YTagged _ v) = as_sequence v"
| "as_sequence _ = None"

fun yaml_str :: "yaml \<Rightarrow> string option" where
  "yaml_str (YString s) = Some s"
| "yaml_str (YTagged _ v) = yaml_str v"
| "yaml_str _ = None"

fun yaml_bool :: "yaml \<Rightarrow> bool option" where
  "yaml_bool (YBool b) = Some b"
| "yaml_bool (YTagged _ v) = yaml_bool v"
| "yaml_bool _ = None"

definition swap_remove :: "'k \<Rightarrow> ('k, 'v) hmap \<Rightarrow> ('k, 'v) hmap" where
  "swap_remove key m =
     (case position (\<lambda>e. fst e = key) m of
        None \<Rightarrow> m
      | Some i \<Rightarrow> if Suc i = length m then butlast m else (butlast m)[i := last m])"

definition optional_string :: "yaml option \<Rightarrow> string \<Rightarrow> string + string option" where
  "optional_string value name =
     (case value of
        None \<Rightarrow> Inr None
      | Some v \<Rightarrow> ebind (ok_or (yaml_str v) (name @ '' must be a string'')) (\<lambda>s. Inr (Some s)))"

definition string_list :: "yaml option \<Rightarrow> string \<Rightarrow> string + string list" where
  "string_list value name =
     (case value of
        None \<Rightarrow> Inr []
      | Some v \<Rightarrow>
          ebind (ok_or (as_sequence v) (name @ '' must be a list'')) (\<lambda>vs.
            collect_results (map (\<lambda>v. ok_or (yaml_str v) (name @ '' entries must be strings'')) vs)))"

section \<open>Overlays\<close>

definition item_id :: "yaml \<Rightarrow> string option" where
  "item_id value = Option.bind (as_mapping value) (\<lambda>m. Option.bind (hm_get m (YString ''id'')) yaml_str)"

definition is_keyed_collection :: "yaml list \<Rightarrow> bool" where
  "is_keyed_collection values \<longleftrightarrow> values \<noteq> [] \<and> list_all (\<lambda>v. item_id v \<noteq> None) values"

fun unique_ids_from :: "string list \<Rightarrow> yaml list \<Rightarrow> string \<Rightarrow> string + unit" where
  "unique_ids_from seen [] context = Inr ()"
| "unique_ids_from seen (v # vs) context =
     (case item_id v of
        None \<Rightarrow> unique_ids_from seen vs context
      | Some i \<Rightarrow> if i \<in> set seen then Inl (''duplicate id '' @ i @ '' in '' @ context)
                  else unique_ids_from (i # seen) vs context)"

definition validate_unique_ids :: "yaml list \<Rightarrow> string \<Rightarrow> string + unit" where
  "validate_unique_ids values context = unique_ids_from [] values context"

text \<open>The instructions an item of an overlay carries besides its content.\<close>

definition removes :: "yaml_mapping \<Rightarrow> bool" where
  "removes m = (case Option.bind (hm_get m (YString ''remove'')) yaml_bool of Some b \<Rightarrow> b | None \<Rightarrow> False)"

definition clean_item :: "yaml_mapping \<Rightarrow> yaml" where
  "clean_item m =
     YMapping (swap_remove (YString ''after'') (swap_remove (YString ''before'') (swap_remove (YString ''remove'') m)))"

definition with_id :: "string \<Rightarrow> yaml \<Rightarrow> bool" where
  "with_id i v \<longleftrightarrow> item_id v = Some i"

definition target_position ::
  "yaml list \<Rightarrow> string \<Rightarrow> string \<Rightarrow> string option \<Rightarrow> string option \<Rightarrow> nat option \<Rightarrow> string + nat" where
  "target_position base i context before after pos =
     (case before of
        Some t \<Rightarrow> ok_or (position (with_id t) base) (''unknown before target '' @ t @ '' for '' @ i @ '' in '' @ context)
      | None \<Rightarrow>
         (case after of
            Some t \<Rightarrow> ok_or (map_option Suc (position (with_id t) base))
                        (''unknown after target '' @ t @ '' for '' @ i @ '' in '' @ context)
          | None \<Rightarrow> Inr (case pos of Some p \<Rightarrow> min p (length base) | None \<Rightarrow> length base)))"

lemma size_swap_remove: "size_list f (swap_remove k m) \<le> size_list f m"
proof (cases "position (\<lambda>e. fst e = k) m")
  case (Some i)
  then have i: "i < length m" by (auto simp: position_def Let_def split: if_splits)
  then obtain a x where m: "m = a @ [x]" by (cases m rule: rev_cases) auto
  show ?thesis
  proof (cases "i < length a")
    case True
    then obtain l y r where a: "a = l @ y # r" "length l = i" using id_take_nth_drop [OF True] by fastforce
    have "butlast (a @ [x]) = a" "last (a @ [x]) = x" by simp_all
    then have "butlast m = l @ y # r" "last m = x" unfolding m a(1) by simp_all
    then show ?thesis using Some i m a True by (simp add: swap_remove_def list_update_append)
  next
    case False
    then show ?thesis using Some i m by (simp add: swap_remove_def)
  qed
qed (simp add: swap_remove_def)

lemma size_clean_item: "size (clean_item m) \<le> size (YMapping m)"
proof -
  have "size_list f (swap_remove a (swap_remove b (swap_remove c m))) \<le> size_list f m" for f a b c
    by (rule order_trans [OF size_swap_remove order_trans [OF size_swap_remove size_swap_remove]])
  then show ?thesis unfolding clean_item_def by simp
qed

lemma size_item: "Some m = as_mapping item \<Longrightarrow> size (clean_item m) \<le> size item"
proof -
  have "as_mapping item = Some m \<Longrightarrow> size (YMapping m) \<le> size item"
    by (induction item rule: as_mapping.induct) simp_all
  then show "Some m = as_mapping item \<Longrightarrow> ?thesis" using size_clean_item order_trans by metis
qed

function (sequential)
  merge_yaml :: "string \<Rightarrow> yaml \<Rightarrow> yaml \<Rightarrow> string + yaml"
  and merge_entries :: "string \<Rightarrow> yaml_mapping \<Rightarrow> (yaml \<times> yaml) list \<Rightarrow> string + yaml_mapping"
  and merge_items :: "string \<Rightarrow> yaml list \<Rightarrow> yaml list \<Rightarrow> string + yaml list"
where
  "merge_yaml context (YMapping base) (YMapping overlay) =
     ebind (merge_entries context base overlay) (\<lambda>m. Inr (YMapping m))"
| "merge_yaml context (YSequence base) (YSequence overlay) =
     (if is_keyed_collection base \<or> is_keyed_collection overlay then
        ebind (require (list_all (\<lambda>v. item_id v \<noteq> None) (base @ overlay))
                 (''mixed keyed and unkeyed collection in '' @ context)) (\<lambda>_.
        ebind (validate_unique_ids base context) (\<lambda>_.
        ebind (validate_unique_ids overlay context) (\<lambda>_.
        if overlay = [] then Inr (YSequence [])
        else ebind (merge_items context base overlay) (\<lambda>merged.
             ebind (validate_unique_ids merged context) (\<lambda>_. Inr (YSequence merged))))))
      else Inr (YSequence overlay))"
| "merge_yaml context base overlay = Inr overlay"
| "merge_entries context base [] = Inr base"
| "merge_entries context base ((key, value) # rest) =
     ebind (case hm_get base key of Some existing \<Rightarrow> merge_yaml context existing value | None \<Rightarrow> Inr value) (\<lambda>merged.
       merge_entries context (hm_put key merged (swap_remove key base)) rest)"
| "merge_items context base [] = Inr base"
| "merge_items context base (item # rest) =
     (case (item_id item, as_mapping item) of
        (Some i, Some m) \<Rightarrow>
          let pos = position (with_id i) base
          in if removes m then
               (case pos of
                  None \<Rightarrow> Inl (''cannot remove unknown id '' @ i @ '' in '' @ context)
                | Some p \<Rightarrow> merge_items context (remove_at p base) rest)
             else
               ebind (optional_string (hm_get m (YString ''before'')) ''before'') (\<lambda>before.
               ebind (optional_string (hm_get m (YString ''after'')) ''after'') (\<lambda>after.
               ebind (require (before = None \<or> after = None)
                        (''id '' @ i @ '' sets both before and after in '' @ context)) (\<lambda>_.
               let left = (case pos of Some p \<Rightarrow> remove_at p base | None \<Rightarrow> base)
               in ebind (case pos of Some p \<Rightarrow> merge_yaml context (base ! p) (clean_item m) | None \<Rightarrow> Inr (clean_item m)) (\<lambda>merged.
                  ebind (target_position left i context before after pos) (\<lambda>target.
                  merge_items context (insert_at target merged left) rest)))))
      | _ \<Rightarrow> Inl (''mixed keyed and unkeyed collection in '' @ context))"
  by pat_completeness auto

termination
  by (relation "measure (\<lambda>x. case x of Inl (_, _, v) \<Rightarrow> Suc (2 * size v) | Inr (Inl (_, _, es)) \<Rightarrow> 2 * size (YMapping es)
      | Inr (Inr (_, _, vs)) \<Rightarrow> 2 * size (YSequence vs))") (auto dest!: size_item split: option.splits)

section \<open>References\<close>

text \<open>The catalog's four maps, each ascending in its names.\<close>

record catalog =
  cat_value_sets :: "(string \<times> yaml) list"
  cat_presets :: "(string \<times> yaml) list"
  cat_profiles :: "(string \<times> yaml) list"
  cat_contests :: "(string \<times> yaml) list"

fun merge_catalog_entries ::
  "(string \<times> yaml) list \<Rightarrow> (string \<times> yaml) list \<Rightarrow> string \<Rightarrow> string \<Rightarrow> string + (string \<times> yaml) list" where
  "merge_catalog_entries target [] kind path = Inr target"
| "merge_catalog_entries target ((name, value) # entries) kind path =
     (if map_of target name \<noteq> None then Inl (''duplicate '' @ kind @ '' '' @ name @ '' while loading '' @ path)
      else merge_catalog_entries (bt_put name value target) entries kind path)"

definition push_resolution :: "string \<Rightarrow> string list \<Rightarrow> string + string list" where
  "push_resolution token stack =
     (case position (\<lambda>entry. entry = token) stack of
        Some p \<Rightarrow> Inl (''contest-rules reference cycle: '' @ join_with '' -> '' (drop p stack) @ '' -> '' @ token)
      | None \<Rightarrow> Inr (stack @ [token]))"

text \<open>\<open>?\<close> in a computation with fuel.\<close>

definition obind :: "('e + 'a) option \<Rightarrow> ('a \<Rightarrow> ('e + 'b) option) \<Rightarrow> ('e + 'b) option" where
  "obind r f = (case r of None \<Rightarrow> None | Some (Inl e) \<Rightarrow> Some (Inl e) | Some (Inr x) \<Rightarrow> f x)"

type_synonym composed = "(string \<times> yaml) list"

text \<open>The loop over the profiles of a body: each is composed and laid over the value so far.\<close>

primrec overlay_profiles ::
  "(string \<Rightarrow> composed \<Rightarrow> (string + yaml \<times> composed) option) \<Rightarrow> string \<Rightarrow> string list \<Rightarrow> yaml \<Rightarrow> composed
     \<Rightarrow> (string + yaml \<times> composed) option" where
  "overlay_profiles compose context [] value cache = Some (Inr (value, cache))"
| "overlay_profiles compose context (profile # profiles) value cache =
     obind (compose profile cache) (\<lambda>(resolved, cache).
     obind (Some (merge_yaml context value resolved)) (\<lambda>value.
     overlay_profiles compose context profiles value cache))"

definition reference_body :: "(string \<times> yaml) list \<Rightarrow> string \<Rightarrow> string \<Rightarrow> string + yaml_mapping" where
  "reference_body bodies kind i =
     ebind (ok_or (map_of bodies i) (''unknown '' @ kind @ '': '' @ i)) (\<lambda>body.
     ok_or (as_mapping body) (kind @ '' '' @ i @ '' must be a mapping''))"

definition profile_token :: "string \<Rightarrow> string" where "profile_token i = ''profile:'' @ i"
definition contest_token :: "string \<Rightarrow> string" where "contest_token i = ''contest:'' @ i"

text \<open>
  The stack is passed on instead of mutated: after a success the code has popped what it pushed, and
  an error ends the whole resolution.
\<close>

primrec compose_profile ::
  "nat \<Rightarrow> catalog \<Rightarrow> string \<Rightarrow> composed \<Rightarrow> string list \<Rightarrow> (string + yaml \<times> composed) option" where
  "compose_profile 0 cat i cache stack = None"
| "compose_profile (Suc n) cat i cache stack =
     (case map_of cache i of
        Some value \<Rightarrow> Some (Inr (value, cache))
      | None \<Rightarrow>
          obind (Some (push_resolution (profile_token i) stack)) (\<lambda>stack.
          obind (Some (reference_body (cat_profiles cat) ''profile'' i)) (\<lambda>mapping.
          obind (Some (string_list (hm_get mapping (YString ''profiles'')) ''profiles'')) (\<lambda>profiles.
          obind (overlay_profiles (\<lambda>p cache. compose_profile n cat p cache stack) (''profile '' @ i) profiles (YMapping []) cache)
            (\<lambda>(value, cache).
          obind (Some (merge_yaml (''profile '' @ i) value (YMapping (swap_remove (YString ''profiles'') mapping)))) (\<lambda>value.
          Some (Inr (value, bt_put i value cache))))))))"

text \<open>Every profile of a contest starts with a cache of its own.\<close>

primrec compose_contest ::
  "nat \<Rightarrow> catalog \<Rightarrow> string \<Rightarrow> composed \<Rightarrow> string list \<Rightarrow> (string + yaml \<times> composed) option" where
  "compose_contest 0 cat i cache stack = None"
| "compose_contest (Suc n) cat i cache stack =
     (case map_of cache i of
        Some value \<Rightarrow> Some (Inr (value, cache))
      | None \<Rightarrow>
          obind (Some (push_resolution (contest_token i) stack)) (\<lambda>stack.
          obind (Some (reference_body (cat_contests cat) ''contest'' i)) (\<lambda>mapping.
          obind (Some (string_list (hm_get mapping (YString ''profiles'')) ''profiles'')) (\<lambda>profiles.
          obind (overlay_profiles (\<lambda>p c. obind (compose_profile n cat p [] stack) (\<lambda>(value, _). Some (Inr (value, c))))
                   (''contest '' @ i) profiles (YMapping []) cache) (\<lambda>(value, cache).
          obind (Some (optional_string (hm_get mapping (YString ''extends'')) ''extends'')) (\<lambda>parent.
          obind (case parent of
                   None \<Rightarrow> Some (Inr (value, cache))
                 | Some p \<Rightarrow> obind (compose_contest n cat p cache stack) (\<lambda>(resolved, cache).
                              obind (Some (merge_yaml (''contest '' @ i) value resolved)) (\<lambda>value. Some (Inr (value, cache)))))
            (\<lambda>(value, cache).
          obind (Some (merge_yaml (''contest '' @ i) value
                  (YMapping (swap_remove (YString ''extends'') (swap_remove (YString ''profiles'') mapping))))) (\<lambda>value.
          Some (Inr (value, bt_put i value cache))))))))))"

text \<open>The loop of \<open>load_dirs\<close> over all contests, and fuel for it.\<close>

primrec compose_all :: "nat \<Rightarrow> catalog \<Rightarrow> string list \<Rightarrow> composed \<Rightarrow> (string + composed) option" where
  "compose_all n cat [] composed = Some (Inr composed)"
| "compose_all n cat (i # ids) composed =
     obind (compose_contest n cat i composed []) (\<lambda>(value, composed). compose_all n cat ids (bt_put i value composed))"

definition resolution_fuel :: "catalog \<Rightarrow> nat" where
  "resolution_fuel cat = length (cat_contests cat) + length (cat_profiles cat) + 2"

definition compose_catalog :: "catalog \<Rightarrow> (string + composed) option" where
  "compose_catalog cat = compose_all (resolution_fuel cat) cat (map fst (cat_contests cat)) []"

end
