(* ===== verification/CatalogSpec.thy ===== *)
theory CatalogSpec
  imports RulesCatalog
begin

text \<open>
  Resolving the references of the catalog always ends, with reference cycles or without, and gives
  each contest the value its definition says: caches and the stack that detects cycles do not show.
\<close>

section \<open>The value of a reference\<close>

definition overlaid :: "string \<Rightarrow> yaml \<Rightarrow> yaml list \<Rightarrow> string + yaml" where
  "overlaid context value layers = foldl (\<lambda>r w. ebind r (\<lambda>v. merge_yaml context v w)) (Inr value) layers"

definition own_profile :: "yaml_mapping \<Rightarrow> yaml" where
  "own_profile m = YMapping (swap_remove (YString ''profiles'') m)"

definition own_contest :: "yaml_mapping \<Rightarrow> yaml" where
  "own_contest m = YMapping (swap_remove (YString ''extends'') (swap_remove (YString ''profiles'') m))"

text \<open>\<open>profile_value cat n i v\<close>: the profile \<open>i\<close> has the value \<open>v\<close>, through references at most \<open>n\<close> deep.\<close>

inductive profile_value :: "catalog \<Rightarrow> nat \<Rightarrow> string \<Rightarrow> yaml \<Rightarrow> bool" for cat where
  Profile: "reference_body (cat_profiles cat) ''profile'' i = Inr m
    \<Longrightarrow> string_list (hm_get m (YString ''profiles'')) ''profiles'' = Inr ps
    \<Longrightarrow> list_all2 (profile_value cat n) ps vs
    \<Longrightarrow> overlaid (''profile '' @ i) (YMapping []) (vs @ [own_profile m]) = Inr v
    \<Longrightarrow> profile_value cat (Suc n) i v"

inductive contest_value :: "catalog \<Rightarrow> nat \<Rightarrow> string \<Rightarrow> yaml \<Rightarrow> bool" for cat where
  Root: "reference_body (cat_contests cat) ''contest'' i = Inr m
    \<Longrightarrow> string_list (hm_get m (YString ''profiles'')) ''profiles'' = Inr ps
    \<Longrightarrow> optional_string (hm_get m (YString ''extends'')) ''extends'' = Inr None
    \<Longrightarrow> list_all2 (profile_value cat k) ps vs
    \<Longrightarrow> overlaid (''contest '' @ i) (YMapping []) (vs @ [own_contest m]) = Inr v
    \<Longrightarrow> contest_value cat (Suc n) i v"
| Child: "reference_body (cat_contests cat) ''contest'' i = Inr m
    \<Longrightarrow> string_list (hm_get m (YString ''profiles'')) ''profiles'' = Inr ps
    \<Longrightarrow> optional_string (hm_get m (YString ''extends'')) ''extends'' = Inr (Some p)
    \<Longrightarrow> list_all2 (profile_value cat k) ps vs
    \<Longrightarrow> contest_value cat n p w
    \<Longrightarrow> overlaid (''contest '' @ i) (YMapping []) (vs @ [w, own_contest m]) = Inr v
    \<Longrightarrow> contest_value cat (Suc n) i v"

definition contest_composes :: "catalog \<Rightarrow> string \<Rightarrow> yaml \<Rightarrow> bool" where
  "contest_composes cat i v \<longleftrightarrow> (\<exists>n. contest_value cat n i v)"

lemma profile_value_mono: "profile_value cat n i v \<Longrightarrow> n \<le> k \<Longrightarrow> profile_value cat k i v"
proof (induction n i v arbitrary: k rule: profile_value.induct)
  case (Profile i m ps n vs v)
  then obtain j where "k = Suc j" "n \<le> j" by (cases k) auto
  moreover have "list_all2 (profile_value cat j) ps vs"
    using Profile.IH \<open>n \<le> j\<close> by (auto intro: list_all2_mono)
  ultimately show ?case using Profile.hyps by (auto intro: profile_value.Profile)
qed

lemma contest_value_mono: "contest_value cat n i v \<Longrightarrow> n \<le> k \<Longrightarrow> contest_value cat k i v"
proof (induction n i v arbitrary: k rule: contest_value.induct)
  case (Root i m ps j vs v n)
  then show ?case by (cases k) (auto intro: contest_value.Root)
next
  case (Child i m ps p j vs n w v)
  then obtain l where "k = Suc l" "n \<le> l" by (cases k) auto
  then show ?case using contest_value.Child [OF Child.hyps(1-4) Child.IH Child.hyps(6)] by simp
qed

lemma list_all2_unique:
  assumes "list_all2 (\<lambda>p v. P p v \<and> (\<forall>w. Q p w \<longrightarrow> v = w)) ps vs" and "list_all2 Q ps ws"
  shows "vs = ws"
  using assms by (induction arbitrary: ws rule: list_all2_induct) (auto simp: list_all2_Cons1)

lemma profile_value_unique: "profile_value cat n i v \<Longrightarrow> profile_value cat k i w \<Longrightarrow> v = w"
proof (induction n i v arbitrary: k w rule: profile_value.induct)
  case (Profile i m ps n vs v)
  from Profile.prems obtain j ws where ws: "list_all2 (profile_value cat j) ps ws"
    and w: "overlaid (''profile '' @ i) (YMapping []) (ws @ [own_profile m]) = Inr w"
    by (cases rule: profile_value.cases) (use Profile.hyps in auto)
  have "vs = ws" using Profile.IH by (intro list_all2_unique [OF _ ws]) (auto elim!: list_all2_mono)
  then show ?case using w Profile.hyps by simp
qed

lemma profile_values_unique:
  assumes "list_all2 (profile_value cat n) ps vs" and "list_all2 (profile_value cat k) ps ws"
  shows "vs = ws"
  by (rule list_all2_unique [OF _ assms(2)], rule list_all2_mono [OF assms(1)]) (use profile_value_unique in blast)

lemma contest_value_unique: "contest_value cat n i v \<Longrightarrow> contest_value cat k i w \<Longrightarrow> v = w"
proof (induction n i v arbitrary: k w rule: contest_value.induct)
  case (Root i m ps j vs v n)
  from Root.prems obtain l ws where "list_all2 (profile_value cat l) ps ws"
    and "overlaid (''contest '' @ i) (YMapping []) (ws @ [own_contest m]) = Inr w"
    by (cases rule: contest_value.cases) (use Root.hyps in auto)
  then show ?case using profile_values_unique [OF Root.hyps(4)] Root.hyps(5) by fastforce
next
  case (Child i m ps p j vs n u v)
  from Child.prems obtain l ws h x where "list_all2 (profile_value cat l) ps ws" and "contest_value cat h p x"
    and "overlaid (''contest '' @ i) (YMapping []) (ws @ [x, own_contest m]) = Inr w"
    by (cases rule: contest_value.cases) (use Child.hyps in auto)
  then show ?case using profile_values_unique [OF Child.hyps(4)] Child.IH Child.hyps(6) by fastforce
qed

section \<open>Resolution ends\<close>

lemma obind_Inr [simp]: "obind r f = Some (Inr y) \<longleftrightarrow> (\<exists>x. r = Some (Inr x) \<and> f x = Some (Inr y))"
  by (auto simp: obind_def split: option.splits sum.splits)

lemma obind_None: "obind r f = None \<longleftrightarrow> r = None \<or> (\<exists>x. r = Some (Inr x) \<and> f x = None)"
  by (auto simp: obind_def split: option.splits sum.splits)

lemma push_resolution_Inr: "push_resolution token stack = Inr stack' \<longleftrightarrow> token \<notin> set stack \<and> stack' = stack @ [token]"
proof -
  have "position (\<lambda>e. e = token) stack = None \<longleftrightarrow> token \<notin> set stack" by (auto simp: position_None)
  then show ?thesis by (cases "position (\<lambda>e. e = token) stack") (auto simp: push_resolution_def)
qed

lemma overlay_ends: "(\<And>p c. compose p c \<noteq> None) \<Longrightarrow> overlay_profiles compose context ps v c \<noteq> None"
  by (induction ps arbitrary: v c) (auto simp: obind_None)

lemma card_pushed:
  assumes "finite A" and "t \<in> A" and "t \<notin> set stack"
  shows "card (A - set (stack @ [t])) < card (A - set stack)"
  by (rule psubset_card_mono) (use assms in auto)

definition known_tokens :: "(string \<Rightarrow> string) \<Rightarrow> (string \<times> 'a) list \<Rightarrow> string set" where
  "known_tokens token bodies = token ` fst ` set bodies"

lemma known_tokens_finite [simp]: "finite (known_tokens token bodies)"
  by (simp add: known_tokens_def)

lemma known_tokens_card: "card (known_tokens token bodies) \<le> length bodies"
  unfolding known_tokens_def by (meson card_image_le card_length finite_imageI finite_set le_trans)

lemma reference_known: "reference_body bodies kind i = Inr m \<Longrightarrow> token i \<in> known_tokens token bodies"
  by (force simp: reference_body_def known_tokens_def dest: map_of_SomeD)

lemma compose_profile_ends:
  "card (known_tokens profile_token (cat_profiles cat) - set stack) < n \<Longrightarrow> compose_profile n cat i cache stack \<noteq> None"
proof (induction n arbitrary: i cache stack)
  case (Suc n)
  show ?case
  proof
    assume none: "compose_profile (Suc n) cat i cache stack = None"
    then obtain m ps where fresh: "profile_token i \<notin> set stack" and body: "reference_body (cat_profiles cat) ''profile'' i = Inr m"
      and deep: "overlay_profiles (\<lambda>p c. compose_profile n cat p c (stack @ [profile_token i])) (''profile '' @ i) ps (YMapping []) cache = None"
      by (auto simp: obind_None push_resolution_Inr split: option.splits)
    have "card (known_tokens profile_token (cat_profiles cat) - set (stack @ [profile_token i])) < n"
      using card_pushed [OF known_tokens_finite reference_known [OF body, of profile_token] fresh] Suc.prems by simp
    from overlay_ends [of "\<lambda>p c. compose_profile n cat p c (stack @ [profile_token i])", OF Suc.IH [OF this]]
    show False using deep by blast
  qed
qed simp

lemma compose_contest_ends:
  "card (known_tokens contest_token (cat_contests cat) - set stack) + length (cat_profiles cat) < n
    \<Longrightarrow> compose_contest n cat i cache stack \<noteq> None"
proof (induction n arbitrary: i cache stack)
  case (Suc n)
  show ?case
  proof
    assume none: "compose_contest (Suc n) cat i cache stack = None"
    let ?stack = "stack @ [contest_token i]"
    let ?f = "\<lambda>p c. obind (compose_profile n cat p [] ?stack) (\<lambda>(value, _). Some (Inr (value, c)))"
    have "contest_token i \<notin> set stack \<and> (\<exists>m. reference_body (cat_contests cat) ''contest'' i = Inr m)
      \<and> ((\<exists>ps. overlay_profiles ?f (''contest '' @ i) ps (YMapping []) cache = None) \<or> (\<exists>p c. compose_contest n cat p c ?stack = None))"
      using none by (auto simp: obind_None push_resolution_Inr split: option.splits)
    then obtain m where fresh: "contest_token i \<notin> set stack" and body: "reference_body (cat_contests cat) ''contest'' i = Inr m"
      and deep: "(\<exists>ps. overlay_profiles ?f (''contest '' @ i) ps (YMapping []) cache = None)
        \<or> (\<exists>p c. compose_contest n cat p c ?stack = None)"
      by blast
    have less: "card (known_tokens contest_token (cat_contests cat) - set ?stack) + length (cat_profiles cat) < n"
      using card_pushed [OF known_tokens_finite reference_known [OF body, of contest_token] fresh] Suc.prems by simp
    have "card (known_tokens profile_token (cat_profiles cat) - set ?stack) < n"
      using card_mono [of "known_tokens profile_token (cat_profiles cat)" "known_tokens profile_token (cat_profiles cat) - set ?stack"]
        known_tokens_card [of profile_token "cat_profiles cat"] less by auto
    from compose_profile_ends [OF this] have "overlay_profiles ?f (''contest '' @ i) ps (YMapping []) cache \<noteq> None" for ps
      by (intro overlay_ends) (auto simp: obind_None)
    then show False using deep Suc.IH [OF less] by blast
  qed
qed simp

lemma resolution_fuel_enough: "compose_contest (resolution_fuel cat) cat i cache [] \<noteq> None"
  using known_tokens_card [of contest_token "cat_contests cat"]
  by (intro compose_contest_ends) (simp add: resolution_fuel_def)

text \<open>
  Resolving the references of any catalog ends: whatever contests and profiles refer to each
  other, in cycles or to names that do not exist, composing all contests returns, with the composed
  contests or an error. The recursion is never deeper than the number of contests and profiles and two.
\<close>

theorem resolution_ends: "\<exists>result. compose_catalog cat = Some result"
proof -
  have "compose_all (resolution_fuel cat) cat ids composed \<noteq> None" for ids composed
    by (induction ids arbitrary: composed) (auto simp: obind_None resolution_fuel_enough)
  then show ?thesis by (simp add: compose_catalog_def)
qed

section \<open>Resolution is exact\<close>

definition profiles_sound :: "catalog \<Rightarrow> composed \<Rightarrow> bool" where
  "profiles_sound cat cache \<longleftrightarrow> (\<forall>x w. map_of cache x = Some w \<longrightarrow> (\<exists>n. profile_value cat n x w))"

text \<open>Every entry is a value, and the contests of \<open>A\<close> are there.\<close>

definition contests_sound :: "catalog \<Rightarrow> string set \<Rightarrow> composed \<Rightarrow> bool" where
  "contests_sound cat A cache \<longleftrightarrow>
     (\<forall>x w. map_of cache x = Some w \<longrightarrow> contest_composes cat x w) \<and> (\<forall>x\<in>A. map_of cache x \<noteq> None)"

lemma sound_Nil [simp]: "profiles_sound cat []" "contests_sound cat {} []"
  by (simp_all add: profiles_sound_def contests_sound_def)

lemma profiles_sound_put: "profiles_sound cat c \<Longrightarrow> profile_value cat n i v \<Longrightarrow> profiles_sound cat (bt_put i v c)"
  by (auto simp: profiles_sound_def bt_get_put)

lemma contests_sound_put: "contests_sound cat A c \<Longrightarrow> contest_composes cat i v \<Longrightarrow> contests_sound cat (insert i A) (bt_put i v c)"
  by (auto simp: contests_sound_def bt_get_put)

lemma contests_sound_less: "contests_sound cat B c \<Longrightarrow> A \<subseteq> B \<Longrightarrow> contests_sound cat A c"
  by (auto simp: contests_sound_def)

lemmas contests_sound_keep = contests_sound_less [OF contests_sound_put subset_insertI]

lemma overlaid_simps [simp]:
  "overlaid context v [] = Inr v"
  "overlaid context v (w # ws) = Inr u \<longleftrightarrow> (\<exists>x. merge_yaml context v w = Inr x \<and> overlaid context x ws = Inr u)"
  "overlaid context v (ws @ us) = Inr u \<longleftrightarrow> (\<exists>x. overlaid context v ws = Inr x \<and> overlaid context x us = Inr u)"
proof -
  have stuck: "foldl (\<lambda>r w. ebind r (\<lambda>v. merge_yaml context v w)) (Inl e) ws = Inl e" for e and ws :: "yaml list"
    by (induction ws) simp_all
  show "overlaid context v [] = Inr v" by (simp add: overlaid_def)
  show "overlaid context v (w # ws) = Inr u \<longleftrightarrow> (\<exists>x. merge_yaml context v w = Inr x \<and> overlaid context x ws = Inr u)"
    by (cases "merge_yaml context v w") (simp_all add: overlaid_def stuck)
  show "overlaid context v (ws @ us) = Inr u \<longleftrightarrow> (\<exists>x. overlaid context v ws = Inr x \<and> overlaid context x us = Inr u)"
    by (cases "overlaid context v ws") (simp_all add: overlaid_def stuck)
qed

lemma overlay_sound:
  assumes "\<And>p c w c'. compose p c = Some (Inr (w, c')) \<Longrightarrow> sound c \<Longrightarrow> Q p w \<and> sound c'"
    and "overlay_profiles compose context ps v c = Some (Inr (u, c'))" and "sound c"
  shows "\<exists>ws. list_all2 Q ps ws \<and> overlaid context v ws = Inr u \<and> sound c'"
  using assms(2,3)
proof (induction ps arbitrary: v c)
  case (Cons p ps)
  then obtain w c1 x where w: "compose p c = Some (Inr (w, c1))" "merge_yaml context v w = Inr x"
    and rest: "overlay_profiles compose context ps x c1 = Some (Inr (u, c'))" by auto
  then show ?case using Cons.IH [OF rest] assms(1) [OF w(1) Cons.prems(2)] w(2)
    by (metis list_all2_Cons overlaid_simps(2))
qed auto

lemma common_depth:
  assumes "list_all2 (\<lambda>p v. \<exists>n. profile_value cat n p v) ps vs"
  shows "\<exists>n. list_all2 (profile_value cat n) ps vs"
  using assms
proof (induction rule: list_all2_induct)
  case (Cons p ps v vs)
  then obtain n m where "profile_value cat n p v" "list_all2 (profile_value cat m) ps vs" by blast
  then have "profile_value cat (max n m) p v" "list_all2 (profile_value cat (max n m)) ps vs"
    by (auto intro: profile_value_mono elim!: list_all2_mono)
  then show ?case by auto
qed simp

lemma compose_profile_sound:
  "compose_profile n cat i cache stack = Some (Inr (v, cache')) \<Longrightarrow> profiles_sound cat cache
    \<Longrightarrow> (\<exists>k. profile_value cat k i v) \<and> profiles_sound cat cache'"
proof (induction n arbitrary: i cache stack v cache')
  case (Suc n)
  show ?case
  proof (cases "map_of cache i")
    case None
    let ?f = "\<lambda>p c. compose_profile n cat p c (stack @ [profile_token i])"
    from Suc.prems(1) None obtain m ps u c where body: "reference_body (cat_profiles cat) ''profile'' i = Inr m"
      and ps: "string_list (hm_get m (YString ''profiles'')) ''profiles'' = Inr ps"
      and overlay: "overlay_profiles ?f (''profile '' @ i) ps (YMapping []) cache = Some (Inr (u, c))"
      and own: "merge_yaml (''profile '' @ i) u (own_profile m) = Inr v" and c: "cache' = bt_put i v c"
      by (auto simp: push_resolution_Inr own_profile_def)
    have "\<exists>ws. list_all2 (\<lambda>p w. \<exists>k. profile_value cat k p w) ps ws
        \<and> overlaid (''profile '' @ i) (YMapping []) ws = Inr u \<and> profiles_sound cat c"
      by (rule overlay_sound [of ?f "profiles_sound cat", OF _ overlay Suc.prems(2)]) (rule Suc.IH)
    then obtain ws where "list_all2 (\<lambda>p w. \<exists>k. profile_value cat k p w) ps ws"
      and ws: "overlaid (''profile '' @ i) (YMapping []) ws = Inr u" and sound: "profiles_sound cat c" by blast
    then obtain k where "list_all2 (profile_value cat k) ps ws" using common_depth by blast
    then have "profile_value cat (Suc k) i v" using body ps ws own by (auto intro!: profile_value.Profile)
    then show ?thesis using profiles_sound_put [OF sound] c by blast
  qed (use Suc.prems in \<open>auto simp: profiles_sound_def\<close>)
qed simp

lemma contest_value_intro:
  assumes "reference_body (cat_contests cat) ''contest'' i = Inr m"
    and "string_list (hm_get m (YString ''profiles'')) ''profiles'' = Inr ps"
    and "optional_string (hm_get m (YString ''extends'')) ''extends'' = Inr parent"
    and "list_all2 (\<lambda>p v. \<exists>k. profile_value cat k p v) ps vs"
    and "case parent of None \<Rightarrow> us = [] | Some p \<Rightarrow> \<exists>w. us = [w] \<and> contest_composes cat p w"
    and "overlaid (''contest '' @ i) (YMapping []) (vs @ us @ [own_contest m]) = Inr v"
  shows "contest_composes cat i v"
proof -
  obtain k where k: "list_all2 (profile_value cat k) ps vs" using common_depth [OF assms(4)] by blast
  show ?thesis
  proof (cases parent)
    case None
    then show ?thesis using assms k unfolding contest_composes_def by (auto intro!: exI contest_value.Root)
  next
    case (Some p)
    then obtain w n where "us = [w]" "contest_value cat n p w" using assms(5) by (auto simp: contest_composes_def)
    then have "contest_value cat (Suc n) i v"
      using assms k Some by (intro contest_value.Child [OF assms(1,2) _ k]) simp_all
    then show ?thesis unfolding contest_composes_def by blast
  qed
qed

lemma compose_contest_sound:
  "compose_contest n cat i cache stack = Some (Inr (v, cache')) \<Longrightarrow> contests_sound cat A cache
    \<Longrightarrow> contest_composes cat i v \<and> contests_sound cat A cache'"
proof (induction n arbitrary: i cache stack v cache')
  case (Suc n)
  show ?case
  proof (cases "map_of cache i")
    case None
    let ?f = "\<lambda>p c. obind (compose_profile n cat p [] (stack @ [contest_token i])) (\<lambda>(value, _). Some (Inr (value, c)))"
    from Suc.prems(1) None obtain m ps parent u u' c c' where body: "reference_body (cat_contests cat) ''contest'' i = Inr m"
      and ps: "string_list (hm_get m (YString ''profiles'')) ''profiles'' = Inr ps"
      and parent: "optional_string (hm_get m (YString ''extends'')) ''extends'' = Inr parent"
      and overlay: "overlay_profiles ?f (''contest '' @ i) ps (YMapping []) cache = Some (Inr (u, c))"
      and up: "(case parent of None \<Rightarrow> Some (Inr (u, c))
          | Some p \<Rightarrow> obind (compose_contest n cat p c (stack @ [contest_token i])) (\<lambda>(resolved, cache).
              obind (Some (merge_yaml (''contest '' @ i) u resolved)) (\<lambda>value. Some (Inr (value, cache))))) = Some (Inr (u', c'))"
      and own: "merge_yaml (''contest '' @ i) u' (own_contest m) = Inr v" and cache': "cache' = bt_put i v c'"
      by (auto simp: push_resolution_Inr own_contest_def)
    have f: "?f p x = Some (Inr (w, x')) \<Longrightarrow> contests_sound cat A x \<Longrightarrow> (\<exists>k. profile_value cat k p w) \<and> contests_sound cat A x'" for p x w x'
      using compose_profile_sound [of n cat p "[]"] by auto
    have "\<exists>ws. list_all2 (\<lambda>p w. \<exists>k. profile_value cat k p w) ps ws
        \<and> overlaid (''contest '' @ i) (YMapping []) ws = Inr u \<and> contests_sound cat A c"
      by (rule overlay_sound [of ?f "contests_sound cat A", OF _ overlay Suc.prems(2)]) (rule f)
    then obtain ws where ws: "list_all2 (\<lambda>p w. \<exists>k. profile_value cat k p w) ps ws"
      "overlaid (''contest '' @ i) (YMapping []) ws = Inr u" "contests_sound cat A c" by blast
    have "\<exists>us. (case parent of None \<Rightarrow> us = [] | Some p \<Rightarrow> \<exists>w. us = [w] \<and> contest_composes cat p w)
        \<and> overlaid (''contest '' @ i) u us = Inr u' \<and> contests_sound cat A c'"
      using up ws(3) Suc.IH by (cases parent) fastforce+
    then obtain us where us: "case parent of None \<Rightarrow> us = [] | Some p \<Rightarrow> \<exists>w. us = [w] \<and> contest_composes cat p w"
      "overlaid (''contest '' @ i) u us = Inr u'" "contests_sound cat A c'" by blast
    have "contest_composes cat i v"
      by (rule contest_value_intro [OF body ps parent ws(1) us(1)]) (use ws(2) us(2) own in auto)
    then show ?thesis using contests_sound_keep [OF us(3)] cache' by blast
  qed (use Suc.prems in \<open>auto simp: contests_sound_def\<close>)
qed simp

lemma overlay_complete:
  assumes "list_all2 (\<lambda>p w. \<forall>c. sound c \<longrightarrow> (\<exists>c'. compose p c = Some (Inr (w, c')) \<and> sound c')) ps ws"
    and "overlaid context v ws = Inr u" and "sound c"
  shows "\<exists>c'. overlay_profiles compose context ps v c = Some (Inr (u, c')) \<and> sound c'"
  using assms
proof (induction arbitrary: v c rule: list_all2_induct)
  case (Cons p ps w ws)
  then obtain c1 x where "compose p c = Some (Inr (w, c1))" "sound c1" "merge_yaml context v w = Inr x" "overlaid context x ws = Inr u"
    by auto
  then show ?case using Cons.IH [of x c1] by auto
qed auto

text \<open>The least depth of a value.\<close>

definition least_profile :: "catalog \<Rightarrow> nat \<Rightarrow> string \<Rightarrow> yaml \<Rightarrow> bool" where
  "least_profile cat n i v \<longleftrightarrow> profile_value cat n i v \<and> (\<forall>m w. profile_value cat m i w \<longrightarrow> n \<le> m)"

definition least_contest :: "catalog \<Rightarrow> nat \<Rightarrow> string \<Rightarrow> yaml \<Rightarrow> bool" where
  "least_contest cat n i v \<longleftrightarrow> contest_value cat n i v \<and> (\<forall>m w. contest_value cat m i w \<longrightarrow> n \<le> m)"

lemma least_profile_ex: "profile_value cat n i v \<Longrightarrow> \<exists>k\<le>n. least_profile cat k i v"
proof -
  assume v: "profile_value cat n i v"
  let ?k = "LEAST k. profile_value cat k i v"
  have "profile_value cat ?k i v" using v by (rule LeastI)
  moreover have "?k \<le> m" if "profile_value cat m i w" for m w
    using Least_le [of "\<lambda>k. profile_value cat k i v" m] that profile_value_unique [OF v that] by simp
  ultimately show ?thesis using v unfolding least_profile_def by blast
qed

lemma least_contest_ex: "contest_value cat n i v \<Longrightarrow> \<exists>k\<le>n. least_contest cat k i v"
proof -
  assume v: "contest_value cat n i v"
  let ?k = "LEAST k. contest_value cat k i v"
  have "contest_value cat ?k i v" using v by (rule LeastI)
  moreover have "?k \<le> m" if "contest_value cat m i w" for m w
    using Least_le [of "\<lambda>k. contest_value cat k i v" m] that contest_value_unique [OF v that] by simp
  ultimately show ?thesis using v unfolding least_contest_def by blast
qed

text \<open>Nothing on the stack has a value as shallow as \<open>n\<close>.\<close>

definition profiles_above :: "catalog \<Rightarrow> nat \<Rightarrow> string list \<Rightarrow> bool" where
  "profiles_above cat n stack \<longleftrightarrow> (\<forall>y m w. profile_token y \<in> set stack \<longrightarrow> profile_value cat m y w \<longrightarrow> n < m)"

definition contests_above :: "catalog \<Rightarrow> nat \<Rightarrow> string list \<Rightarrow> bool" where
  "contests_above cat n stack \<longleftrightarrow> (\<forall>y m w. contest_token y \<in> set stack \<longrightarrow> contest_value cat m y w \<longrightarrow> n < m)"

lemma token_inj [simp]:
  "profile_token x = profile_token y \<longleftrightarrow> x = y" "contest_token x = contest_token y \<longleftrightarrow> x = y"
  "profile_token x \<noteq> contest_token y" "contest_token x \<noteq> profile_token y"
  by (simp_all add: profile_token_def contest_token_def)

lemma compose_profile_complete:
  assumes "least_profile cat d i v" and "profiles_above cat d stack" and "profiles_sound cat cache"
    and "card (known_tokens profile_token (cat_profiles cat) - set stack) < n"
  shows "\<exists>cache'. compose_profile n cat i cache stack = Some (Inr (v, cache')) \<and> profiles_sound cat cache'"
  using assms
proof (induction n arbitrary: d i v cache stack)
  case (Suc n)
  have v: "profile_value cat d i v" using Suc.prems(1) by (simp add: least_profile_def)
  show ?case
  proof (cases "map_of cache i")
    case (Some w)
    then have "w = v" using Suc.prems(3) v profile_value_unique unfolding profiles_sound_def by blast
    then show ?thesis using Some Suc.prems(3) by simp
  next
    case None
    from v obtain e m ps ws where d: "d = Suc e" and body: "reference_body (cat_profiles cat) ''profile'' i = Inr m"
      and ps: "string_list (hm_get m (YString ''profiles'')) ''profiles'' = Inr ps"
      and ws: "list_all2 (profile_value cat e) ps ws"
      and lay: "overlaid (''profile '' @ i) (YMapping []) (ws @ [own_profile m]) = Inr v"
      by (cases rule: profile_value.cases) auto
    have fresh: "profile_token i \<notin> set stack" using Suc.prems(2) v by (auto simp: profiles_above_def)
    let ?stack = "stack @ [profile_token i]"
    have less: "card (known_tokens profile_token (cat_profiles cat) - set ?stack) < n"
      using card_pushed [OF known_tokens_finite reference_known [OF body, of profile_token] fresh] Suc.prems(4) by simp
    have all: "list_all2 (\<lambda>p w. \<forall>c. profiles_sound cat c \<longrightarrow> (\<exists>c'. compose_profile n cat p c ?stack = Some (Inr (w, c')) \<and> profiles_sound cat c')) ps ws"
    proof (rule list_all2_mono [OF ws], intro allI impI)
      fix p w c assume p: "profile_value cat e p w" and c: "profiles_sound cat c"
      obtain k where "k \<le> e" "least_profile cat k p w" using least_profile_ex [OF p] by blast
      moreover have "profiles_above cat k ?stack"
        using Suc.prems(1,2) \<open>k \<le> e\<close> d by (fastforce simp: profiles_above_def least_profile_def)
      ultimately show "\<exists>c'. compose_profile n cat p c ?stack = Some (Inr (w, c')) \<and> profiles_sound cat c'"
        using Suc.IH c less by blast
    qed
    obtain u where u: "overlaid (''profile '' @ i) (YMapping []) ws = Inr u" "merge_yaml (''profile '' @ i) u (own_profile m) = Inr v"
      using lay by auto
    obtain c where "overlay_profiles (\<lambda>p c. compose_profile n cat p c ?stack) (''profile '' @ i) ps (YMapping []) cache = Some (Inr (u, c))"
      "profiles_sound cat c"
      using overlay_complete [where sound = "profiles_sound cat", OF all u(1) Suc.prems(3)] by blast
    then have "compose_profile (Suc n) cat i cache stack = Some (Inr (v, bt_put i v c))" "profiles_sound cat (bt_put i v c)"
      using None fresh body ps u(2) profiles_sound_put v by (auto simp: push_resolution_Inr own_profile_def)
    then show ?thesis by blast
  qed
qed simp

lemma above_profiles: "\<forall>t\<in>set stack. \<exists>y. t = contest_token y \<Longrightarrow> profiles_above cat n stack"
  by (fastforce simp: profiles_above_def)

lemma compose_contest_complete:
  assumes "least_contest cat d i v" and "contests_above cat d stack" and "contests_sound cat A cache"
    and "card (known_tokens contest_token (cat_contests cat) - set stack) + length (cat_profiles cat) < n"
    and "\<forall>t\<in>set stack. \<exists>y. t = contest_token y"
  shows "\<exists>cache'. compose_contest n cat i cache stack = Some (Inr (v, cache')) \<and> contests_sound cat A cache'"
  using assms
proof (induction n arbitrary: d i v cache stack)
  case (Suc n)
  have v: "contest_value cat d i v" using Suc.prems(1) by (simp add: least_contest_def)
  then have composes: "contest_composes cat i v" unfolding contest_composes_def by blast
  show ?case
  proof (cases "map_of cache i")
    case (Some w)
    then have "w = v" using Suc.prems(3) v contest_value_unique unfolding contests_sound_def contest_composes_def by blast
    then show ?thesis using Some Suc.prems(3) by simp
  next
    case None
    from v obtain e k m ps parent vs us where d: "d = Suc e" and body: "reference_body (cat_contests cat) ''contest'' i = Inr m"
      and ps: "string_list (hm_get m (YString ''profiles'')) ''profiles'' = Inr ps"
      and parent: "optional_string (hm_get m (YString ''extends'')) ''extends'' = Inr parent"
      and vs: "list_all2 (profile_value cat k) ps vs"
      and us: "case parent of None \<Rightarrow> us = [] | Some p \<Rightarrow> \<exists>w. us = [w] \<and> contest_value cat e p w"
      and lay: "overlaid (''contest '' @ i) (YMapping []) (vs @ us @ [own_contest m]) = Inr v"
      by (cases rule: contest_value.cases) fastforce+
    have fresh: "contest_token i \<notin> set stack" using Suc.prems(2) v by (auto simp: contests_above_def)
    let ?stack = "stack @ [contest_token i]"
    have less: "card (known_tokens contest_token (cat_contests cat) - set ?stack) + length (cat_profiles cat) < n"
      using card_pushed [OF known_tokens_finite reference_known [OF body, of contest_token] fresh] Suc.prems(4) by simp
    have only: "\<forall>t\<in>set ?stack. \<exists>y. t = contest_token y" using Suc.prems(5) by auto
    have fuel: "card (known_tokens profile_token (cat_profiles cat) - set ?stack) < n"
      using card_mono [of "known_tokens profile_token (cat_profiles cat)" "known_tokens profile_token (cat_profiles cat) - set ?stack"]
        known_tokens_card [of profile_token "cat_profiles cat"] less by auto
    let ?f = "\<lambda>p c. obind (compose_profile n cat p [] ?stack) (\<lambda>(value, _). Some (Inr (value, c)))"
    have profiles: "list_all2 (\<lambda>p w. \<forall>c. contests_sound cat A c \<longrightarrow> (\<exists>c'. ?f p c = Some (Inr (w, c')) \<and> contests_sound cat A c')) ps vs"
    proof (rule list_all2_mono [OF vs], intro allI impI)
      fix p w c assume p: "profile_value cat k p w" and c: "contests_sound cat A c"
      obtain r where "least_profile cat r p w" using least_profile_ex [OF p] by blast
      then show "\<exists>c'. ?f p c = Some (Inr (w, c')) \<and> contests_sound cat A c'"
        using compose_profile_complete [OF _ above_profiles [OF only] _ fuel, of r p w "[]"] c by auto
    qed
    obtain u u' where u: "overlaid (''contest '' @ i) (YMapping []) vs = Inr u" "overlaid (''contest '' @ i) u us = Inr u'"
      "merge_yaml (''contest '' @ i) u' (own_contest m) = Inr v"
      using lay by auto
    obtain c where c: "overlay_profiles ?f (''contest '' @ i) ps (YMapping []) cache = Some (Inr (u, c))" "contests_sound cat A c"
      using overlay_complete [where sound = "contests_sound cat A", OF profiles u(1) Suc.prems(3)] by blast
    have "\<exists>c'. (case parent of None \<Rightarrow> Some (Inr (u, c))
          | Some p \<Rightarrow> obind (compose_contest n cat p c ?stack) (\<lambda>(resolved, cache).
              obind (Some (merge_yaml (''contest '' @ i) u resolved)) (\<lambda>value. Some (Inr (value, cache))))) = Some (Inr (u', c')) \<and> contests_sound cat A c'"
    proof (cases parent)
      case None
      then show ?thesis using us u(2) c(2) by auto
    next
      case (Some p)
      then obtain w where w: "us = [w]" "contest_value cat e p w" using us by auto
      obtain r where r: "r \<le> e" "least_contest cat r p w" using least_contest_ex [OF w(2)] by blast
      have "contests_above cat r ?stack"
        using Suc.prems(1,2) r(1) d by (fastforce simp: contests_above_def least_contest_def)
      then obtain c' where "compose_contest n cat p c ?stack = Some (Inr (w, c'))" "contests_sound cat A c'"
        using Suc.IH [OF r(2) _ c(2) less only] by blast
      then show ?thesis using Some w(1) u(2) by auto
    qed
    then obtain c' where up: "(case parent of None \<Rightarrow> Some (Inr (u, c))
          | Some p \<Rightarrow> obind (compose_contest n cat p c ?stack) (\<lambda>(resolved, cache).
              obind (Some (merge_yaml (''contest '' @ i) u resolved)) (\<lambda>value. Some (Inr (value, cache))))) = Some (Inr (u', c'))"
      and c': "contests_sound cat A c'" by blast
    have "compose_contest (Suc n) cat i cache stack = Some (Inr (v, bt_put i v c'))"
      using None fresh body ps parent c(1) up u(3) by (simp add: push_resolution_Inr own_contest_def)
    then show ?thesis using contests_sound_keep [OF c' composes] by blast
  qed
qed simp

lemma compose_contest_exact:
  assumes "contests_sound cat A cache"
  shows "(\<exists>cache'. compose_contest (resolution_fuel cat) cat i cache [] = Some (Inr (v, cache'))) \<longleftrightarrow> contest_composes cat i v"
proof
  assume "contest_composes cat i v"
  then obtain d where "least_contest cat d i v" using least_contest_ex unfolding contest_composes_def by blast
  moreover have "card (known_tokens contest_token (cat_contests cat) - set []) + length (cat_profiles cat) < resolution_fuel cat"
    using known_tokens_card [of contest_token "cat_contests cat"] by (simp add: resolution_fuel_def)
  ultimately show "\<exists>cache'. compose_contest (resolution_fuel cat) cat i cache [] = Some (Inr (v, cache'))"
    using compose_contest_complete [where stack = "[]" and cache = cache, OF _ _ assms] by (simp add: contests_above_def) blast
qed (use compose_contest_sound [OF _ assms] in blast)

lemma compose_all_step:
  assumes "contests_sound cat A composed" and "compose_contest (resolution_fuel cat) cat i composed [] = Some (Inr (v, c))"
  shows "contests_sound cat (insert i A) (bt_put i v c)"
  using compose_contest_sound [OF assms(2,1)] contests_sound_put by blast

lemma compose_all_sound:
  "compose_all (resolution_fuel cat) cat ids composed = Some (Inr result) \<Longrightarrow> contests_sound cat A composed
    \<Longrightarrow> contests_sound cat (A \<union> set ids) result"
proof (induction ids arbitrary: composed A)
  case (Cons i ids)
  then obtain v c where vc: "compose_contest (resolution_fuel cat) cat i composed [] = Some (Inr (v, c))"
    and rest: "compose_all (resolution_fuel cat) cat ids (bt_put i v c) = Some (Inr result)" by auto
  show ?case using Cons.IH [OF rest compose_all_step [OF Cons.prems(2) vc]] by simp
qed simp

lemma compose_all_returns:
  "contests_sound cat A composed \<Longrightarrow>
    (\<exists>result. compose_all (resolution_fuel cat) cat ids composed = Some (Inr result)) \<longleftrightarrow> (\<forall>i\<in>set ids. \<exists>v. contest_composes cat i v)"
proof (induction ids arbitrary: composed A)
  case (Cons i ids)
  let ?n = "resolution_fuel cat"
  have "(\<exists>result. compose_all ?n cat (i # ids) composed = Some (Inr result)) \<longleftrightarrow>
      (\<exists>v c. compose_contest ?n cat i composed [] = Some (Inr (v, c))
        \<and> (\<exists>result. compose_all ?n cat ids (bt_put i v c) = Some (Inr result)))" by auto
  also have "\<dots> \<longleftrightarrow> (\<exists>v c. compose_contest ?n cat i composed [] = Some (Inr (v, c))) \<and> (\<forall>j\<in>set ids. \<exists>v. contest_composes cat j v)"
    using Cons.IH [OF compose_all_step [OF Cons.prems]] by blast
  finally show ?case using compose_contest_exact [OF Cons.prems] by auto
qed simp

text \<open>
  C14. Composing a catalog succeeds exactly when every contest has a value: its profiles and its parent
  exist, are well formed, do not lead back to themselves, and the overlays fit. The value composed for
  a contest is then that value, whatever was cached before and in whatever order the contests were
  composed: each layer is laid over the ones before, profiles first, then the parent, then its own
  mapping.
\<close>

theorem resolution_exact:
  "(case compose_catalog cat of
      Some (Inr composed) \<Rightarrow> \<forall>i v. i \<in> fst ` set (cat_contests cat) \<longrightarrow> map_of composed i = Some v \<longleftrightarrow> contest_composes cat i v
    | _ \<Rightarrow> True)
   \<and> ((\<exists>composed. compose_catalog cat = Some (Inr composed)) \<longleftrightarrow> (\<forall>i\<in>fst ` set (cat_contests cat). \<exists>v. contest_composes cat i v))"
proof
  have unique: "contest_composes cat i v \<Longrightarrow> contest_composes cat i w \<Longrightarrow> v = w" for i v w
    using contest_value_unique unfolding contest_composes_def by blast
  have "map_of composed i = Some v \<longleftrightarrow> contest_composes cat i v"
    if run: "compose_catalog cat = Some (Inr composed)" and i: "i \<in> fst ` set (cat_contests cat)" for composed i v
  proof -
    have "contests_sound cat ({} \<union> set (map fst (cat_contests cat))) composed"
      using run unfolding compose_catalog_def by (rule compose_all_sound) simp
    then have sound: "\<And>w. map_of composed i = Some w \<Longrightarrow> contest_composes cat i w"
      and "\<forall>x\<in>set (map fst (cat_contests cat)). map_of composed x \<noteq> None"
      unfolding contests_sound_def by simp_all
    moreover have "i \<in> set (map fst (cat_contests cat))" using i by simp
    ultimately obtain w where w: "map_of composed i = Some w" by blast
    show ?thesis
    proof
      assume "contest_composes cat i v"
      then have "w = v" by (rule unique [OF sound [OF w]])
      then show "map_of composed i = Some v" using w by simp
    qed (rule sound)
  qed
  then show "case compose_catalog cat of
      Some (Inr composed) \<Rightarrow> \<forall>i v. i \<in> fst ` set (cat_contests cat) \<longrightarrow> map_of composed i = Some v \<longleftrightarrow> contest_composes cat i v
    | _ \<Rightarrow> True" by (simp split: option.split sum.split)
  show "(\<exists>composed. compose_catalog cat = Some (Inr composed)) \<longleftrightarrow> (\<forall>i\<in>fst ` set (cat_contests cat). \<exists>v. contest_composes cat i v)"
    using compose_all_returns [of cat "{}" "[]" "map fst (cat_contests cat)"] by (simp add: compose_catalog_def)
qed

text \<open>Two contests, one on top of the other, with a profile and items found by their ids.\<close>

definition sample_catalog :: catalog where
  "sample_catalog = \<lparr>cat_value_sets = [], cat_presets = [],
     cat_profiles = [(''hf'', YMapping [(YString ''bands'', YSequence [YString ''20m'']),
         (YString ''exchange'', YSequence [YMapping [(YString ''id'', YString ''rst''), (YString ''type'', YString ''RST'')]])])],
     cat_contests = [(''BASE'', YMapping [(YString ''profiles'', YSequence [YString ''hf'']), (YString ''name'', YString ''Base'')]),
       (''SPRINT'', YMapping [(YString ''extends'', YString ''BASE''), (YString ''name'', YString ''Sprint''),
         (YString ''exchange'', YSequence [YMapping [(YString ''id'', YString ''nr''), (YString ''before'', YString ''rst'')]])])]\<rparr>"

definition sample_sprint :: yaml where
  "sample_sprint = YMapping [(YString ''bands'', YSequence [YString ''20m'']),
     (YString ''exchange'', YSequence [YMapping [(YString ''id'', YString ''nr'')],
        YMapping [(YString ''id'', YString ''rst''), (YString ''type'', YString ''RST'')]]),
     (YString ''name'', YString ''Sprint'')]"

lemma resolution_exact_witness:
  "\<exists>composed. compose_catalog sample_catalog = Some (Inr composed) \<and> map_of composed ''SPRINT'' = Some sample_sprint
     \<and> contest_composes sample_catalog ''SPRINT'' sample_sprint"
proof -
  have "case compose_catalog sample_catalog of Some (Inr composed) \<Rightarrow> map_of composed ''SPRINT'' = Some sample_sprint | _ \<Rightarrow> False"
    by code_simp
  then obtain composed where run: "compose_catalog sample_catalog = Some (Inr composed)"
    and v: "map_of composed ''SPRINT'' = Some sample_sprint"
    by (auto split: option.splits sum.splits)
  have "''SPRINT'' \<in> fst ` set (cat_contests sample_catalog)" by (simp add: sample_catalog_def)
  then show ?thesis using resolution_exact [of sample_catalog] run v by auto
qed

end
