(* ===== verification/RulesNormalize.thy ===== *)
theory RulesNormalize
  imports ContestRules RulesCatalog QsoTime
begin

text \<open>
  \<open>backend/src/contest_rules.rs\<close>, from the composed mappings to the rules of a contest: value sets,
  the fields with the values their sets stand for, the columns of the contact table and the checks
  on the result. \<open>serde\<close> reads the composed mapping into the raw records; a value-set file is what the
  argument \<open>read_file\<close> answers. Names of value sets a contest refers to are collected in a list; the
  code's \<open>BTreeSet\<close> is the list sorted without repetitions.
\<close>

section \<open>Value sets\<close>

record raw_value_set =
  set_use :: "string option"
  set_values :: "string list option"
  values_from_file :: "string option"
  set_exclude :: "string list"

type_synonym value_sets = "(string \<times> string list) list"

definition resolve_value_set_body ::
  "(string \<Rightarrow> string + string) \<Rightarrow> raw_value_set \<Rightarrow> string list \<Rightarrow> string \<Rightarrow> string + string list" where
  "resolve_value_set_body read_file raw base name =
     ebind (require (set_values raw = None \<or> values_from_file raw = None)
              (''value set '' @ name @ '' defines both values and values_from_file'')) (\<lambda>_.
     ebind (case set_values raw of
              Some vs \<Rightarrow> Inr vs
            | None \<Rightarrow>
               (case values_from_file raw of
                  Some f \<Rightarrow> ebind (read_file f) (\<lambda>contents.
                    Inr (filter (\<lambda>v. v \<noteq> [] \<and> \<not> prefix ''#'' v) (map trim (text_lines contents))))
                | None \<Rightarrow> ebind (require (set_use raw \<noteq> None)
                            (''value set '' @ name @ '' must define use, values, or values_from_file'')) (\<lambda>_. Inr base))) (\<lambda>vs.
     Inr (filter (\<lambda>v. v \<noteq> [] \<and> v \<notin> set (map trim (set_exclude raw))) (map trim vs))))"

definition set_token :: "string \<Rightarrow> string" where "set_token name = ''value-set:'' @ name"
definition local_set_token :: "string \<Rightarrow> string" where "local_set_token name = ''contest-value-set:'' @ name"

primrec resolve_named_value_set ::
  "nat \<Rightarrow> (string \<Rightarrow> string + string) \<Rightarrow> (string \<times> raw_value_set) list \<Rightarrow> string \<Rightarrow> value_sets \<Rightarrow> string list
     \<Rightarrow> (string + string list \<times> value_sets) option" where
  "resolve_named_value_set 0 read_file raw name resolved stack = None"
| "resolve_named_value_set (Suc n) read_file raw name resolved stack =
     (case map_of resolved name of
        Some vs \<Rightarrow> Some (Inr (vs, resolved))
      | None \<Rightarrow>
          obind (Some (push_resolution (set_token name) stack)) (\<lambda>stack.
          obind (Some (ok_or (map_of raw name) (''unknown value set: '' @ name))) (\<lambda>value_set.
          obind (case set_use value_set of
                   None \<Rightarrow> Some (Inr ([], resolved))
                 | Some parent \<Rightarrow> resolve_named_value_set n read_file raw parent resolved stack) (\<lambda>(base, resolved).
          obind (Some (resolve_value_set_body read_file value_set base name)) (\<lambda>vs.
          Some (Inr (vs, bt_put name vs resolved)))))))"

primrec resolve_all_value_sets ::
  "nat \<Rightarrow> (string \<Rightarrow> string + string) \<Rightarrow> (string \<times> raw_value_set) list \<Rightarrow> string list \<Rightarrow> value_sets
     \<Rightarrow> (string + value_sets) option" where
  "resolve_all_value_sets n read_file raw [] resolved = Some (Inr resolved)"
| "resolve_all_value_sets n read_file raw (name # names) resolved =
     obind (resolve_named_value_set n read_file raw name resolved []) (\<lambda>(_, resolved).
     resolve_all_value_sets n read_file raw names resolved)"

definition resolve_global_value_sets ::
  "(string \<Rightarrow> string + string) \<Rightarrow> (string \<times> raw_value_set) list \<Rightarrow> (string + value_sets) option" where
  "resolve_global_value_sets read_file raw = resolve_all_value_sets (length raw + 2) read_file raw (map fst raw) []"

text \<open>A contest's own set may extend the global set of its own name.\<close>

primrec resolve_contest_value_set ::
  "nat \<Rightarrow> (string \<Rightarrow> string + string) \<Rightarrow> (string \<times> raw_value_set) list \<Rightarrow> value_sets \<Rightarrow> string \<Rightarrow> value_sets \<Rightarrow> string list
     \<Rightarrow> (string + string list \<times> value_sets) option" where
  "resolve_contest_value_set 0 read_file raw global name resolved stack = None"
| "resolve_contest_value_set (Suc n) read_file raw global name resolved stack =
     (case map_of resolved name of
        Some vs \<Rightarrow> Some (Inr (vs, resolved))
      | None \<Rightarrow>
          obind (Some (push_resolution (local_set_token name) stack)) (\<lambda>stack.
          obind (Some (ok_or (map_of raw name) (''unknown contest value set: '' @ name))) (\<lambda>value_set.
          obind (case set_use value_set of
                   None \<Rightarrow> Some (Inr ([], resolved))
                 | Some parent \<Rightarrow>
                     if parent = name then
                       obind (Some (ok_or (map_of global parent) (''unknown global value set '' @ parent @ '' extended by contest value set '' @ name)))
                         (\<lambda>vs. Some (Inr (vs, resolved)))
                     else if map_of raw parent \<noteq> None then resolve_contest_value_set n read_file raw global parent resolved stack
                     else obind (Some (ok_or (map_of global parent) (''unknown value set '' @ parent @ '' referenced by '' @ name)))
                            (\<lambda>vs. Some (Inr (vs, resolved)))) (\<lambda>(base, resolved).
          obind (Some (resolve_value_set_body read_file value_set base name)) (\<lambda>vs.
          Some (Inr (vs, bt_put name vs resolved)))))))"

primrec resolve_local_value_sets ::
  "nat \<Rightarrow> (string \<Rightarrow> string + string) \<Rightarrow> (string \<times> raw_value_set) list \<Rightarrow> value_sets \<Rightarrow> string list \<Rightarrow> value_sets
     \<Rightarrow> (string + value_sets) option" where
  "resolve_local_value_sets n read_file raw global [] resolved = Some (Inr resolved)"
| "resolve_local_value_sets n read_file raw global (name # names) resolved =
     obind (resolve_contest_value_set n read_file raw global name resolved []) (\<lambda>(_, resolved).
     resolve_local_value_sets n read_file raw global names resolved)"

definition resolve_contest_value_sets ::
  "(string \<Rightarrow> string + string) \<Rightarrow> (string \<times> raw_value_set) list \<Rightarrow> value_sets \<Rightarrow> (string + value_sets) option" where
  "resolve_contest_value_sets read_file raw global =
     obind (resolve_local_value_sets (length raw + 2) read_file raw global (map fst raw) []) (\<lambda>locals.
     Some (Inr (fold (\<lambda>(name, vs). bt_put name vs) locals global)))"

section \<open>Fields\<close>

record raw_condition = scoring_condition +
  cond_in_set :: "string option"
  cond_in_sets :: "string list"
  cond_exclude_in_sets :: "string list"

record raw_setup_field =
  rsf_id :: string
  rsf_key :: string
  rsf_label :: string
  rsf_type :: string
  rsf_required :: "bool option"
  rsf_regex :: "string option"
  rsf_values_or_regex :: bool
  rsf_default :: "json option"
  rsf_in_sets :: "string list"
  rsf_valid_values :: "string list"
  rsf_widget :: "string option"
  rsf_help_text :: "string option"
  rsf_max_lines :: "nat option"
  rsf_preserve_case :: bool
  rsf_cabrillo_header :: "string option"
  rsf_multi_single_has_mult_transmitter :: bool

record raw_exchange_field =
  ref_id :: string
  ref_label :: string
  ref_type :: string
  ref_adif :: string
  ref_direction :: exchange_direction
  ref_fixed :: bool
  ref_default :: "json option"
  ref_source :: "string option"
  ref_regex :: "string option"
  ref_values_or_regex :: bool
  ref_in_sets :: "string list"
  ref_valid_values :: "string list"
  ref_serial_scope :: serial_scope
  ref_only_when :: "raw_condition option"
  ref_table :: table_visibility

definition input_error_text :: "field_input_error \<Rightarrow> string" where
  "input_error_text e =
     (case e of
        UnknownInputType other \<Rightarrow> ''unknown field input type: '' @ other
      | InvalidInputLength spec \<Rightarrow> ''invalid field input length in '' @ spec
      | InvalidInputType spec \<Rightarrow> ''invalid field input type: '' @ spec)"

text \<open>The values of the sets a field or condition names, one after the other; \<open>unknown\<close> is the error text.\<close>

fun values_of_sets :: "string \<Rightarrow> value_sets \<Rightarrow> string list \<Rightarrow> string + string list" where
  "values_of_sets unknown sets [] = Inr []"
| "values_of_sets unknown sets (name # names) =
     ebind (ok_or (map_of sets name) (unknown @ name)) (\<lambda>vs.
     ebind (values_of_sets unknown sets names) (\<lambda>ws. Inr (vs @ ws)))"

definition field_values :: "string list \<Rightarrow> string list \<Rightarrow> value_sets \<Rightarrow> string + string list" where
  "field_values in_sets explicit sets =
     ebind (values_of_sets ''unknown value set referenced by in_sets: '' sets in_sets) (\<lambda>vs. Inr (vs @ explicit))"

definition normalize_setup_field :: "value_sets \<Rightarrow> raw_setup_field \<Rightarrow> string + setup_field" where
  "normalize_setup_field sets raw =
     ebind (field_values (rsf_in_sets raw) (rsf_valid_values raw) sets) (\<lambda>vs.
     ebind (map_error input_error_text (field_input_parse (rsf_type raw))) (\<lambda>input.
     Inr \<lparr>setup_id = rsf_id raw, setup_key = rsf_key raw, setup_label = rsf_label raw, setup_input = input,
          setup_validation = \<lparr>required = (case rsf_required raw of Some b \<Rightarrow> b | None \<Rightarrow> True), pattern = rsf_regex raw,
             valid_values = vs, match_mode = (if rsf_values_or_regex raw then MatchAny else MatchAll)\<rparr>,
          setup_default = rsf_default raw, setup_widget = rsf_widget raw, setup_help_text = rsf_help_text raw,
          setup_max_lines = rsf_max_lines raw, preserve_case = rsf_preserve_case raw,
          cabrillo_header = rsf_cabrillo_header raw,
          multi_single_has_mult_transmitter = rsf_multi_single_has_mult_transmitter raw\<rparr>))"

definition resolve_condition_sets :: "value_sets \<Rightarrow> raw_condition \<Rightarrow> string + scoring_condition" where
  "resolve_condition_sets sets raw =
     ebind (values_of_sets ''unknown scoring value set: '' sets
              (cond_in_sets raw @ (case cond_in_set raw of Some n \<Rightarrow> [n] | None \<Rightarrow> []))) (\<lambda>vs.
     ebind (values_of_sets ''unknown excluded scoring value set: '' sets (cond_exclude_in_sets raw)) (\<lambda>ws.
     Inr ((scoring_condition.truncate raw)\<lparr>cond_values := cond_values raw @ vs, cond_exclude_values := cond_exclude_values raw @ ws\<rparr>)))"

text \<open>\<open>only_when\<close> is resolved in a later pass; the field stands here with its condition unresolved.\<close>

definition normalize_exchange_field :: "value_sets \<Rightarrow> raw_exchange_field \<Rightarrow> string + exchange_field" where
  "normalize_exchange_field sets raw =
     ebind (field_values (ref_in_sets raw) (ref_valid_values raw) sets) (\<lambda>vs.
     ebind (map_error input_error_text (field_input_parse (ref_type raw))) (\<lambda>input.
     Inr \<lparr>exch_id = ref_id raw, exch_label = ref_label raw, exch_input = input, exch_adif = ref_adif raw,
          direction = ref_direction raw,
          exch_validation = \<lparr>required = True, pattern = ref_regex raw, valid_values = vs,
             match_mode = (if ref_values_or_regex raw then MatchAny else MatchAll)\<rparr>,
          exch_fixed = ref_fixed raw, exch_default = ref_default raw, exch_source = ref_source raw,
          exch_serial_scope = ref_serial_scope raw, only_when = map_option scoring_condition.truncate (ref_only_when raw),
          table_visibility = ref_table raw\<rparr>))"

section \<open>Scoring\<close>

text \<open>Rules with the parts that still name value sets beside them.\<close>

record raw_point_rule =
  raw_point :: qso_point_rule
  raw_point_when :: "raw_condition option"
  raw_point_when_all :: "raw_condition list"

record raw_multiplier =
  raw_mult :: multiplier_rule
  raw_mult_in_sets :: "string list"
  raw_mult_when :: "raw_condition option"
  raw_mult_when_all :: "raw_condition list"

record raw_scoring =
  raw_rules :: scoring_rules
  raw_point_rules :: "raw_point_rule list"
  raw_multipliers :: "raw_multiplier list"

definition resolve_condition_option :: "value_sets \<Rightarrow> raw_condition option \<Rightarrow> string + scoring_condition option" where
  "resolve_condition_option sets c =
     (case c of None \<Rightarrow> Inr None | Some c \<Rightarrow> ebind (resolve_condition_sets sets c) (\<lambda>c. Inr (Some c)))"

definition resolve_point_rule :: "value_sets \<Rightarrow> raw_point_rule \<Rightarrow> string + qso_point_rule" where
  "resolve_point_rule sets raw =
     ebind (resolve_condition_option sets (raw_point_when raw)) (\<lambda>c.
     ebind (collect_results (map (resolve_condition_sets sets) (raw_point_when_all raw))) (\<lambda>cs.
     Inr ((raw_point raw)\<lparr>point_when := c, point_when_all := cs\<rparr>)))"

definition resolve_multiplier :: "value_sets \<Rightarrow> raw_multiplier \<Rightarrow> string + multiplier_rule" where
  "resolve_multiplier sets raw =
     ebind (values_of_sets ''unknown multiplier value set: '' sets (raw_mult_in_sets raw)) (\<lambda>vs.
     ebind (resolve_condition_option sets (raw_mult_when raw)) (\<lambda>c.
     ebind (collect_results (map (resolve_condition_sets sets) (raw_mult_when_all raw))) (\<lambda>cs.
     let m = raw_mult raw
     in Inr (m\<lparr>mult_values := mult_values m @ vs, mult_when := c, mult_when_all := cs,
               mult_key := (if mult_key m = [] then [mult_field m] else mult_key m)\<rparr>))))"

definition resolve_scoring_sets :: "value_sets \<Rightarrow> raw_scoring \<Rightarrow> string + scoring_rules" where
  "resolve_scoring_sets sets raw =
     (let s = raw_rules raw
      in ebind (case qso_points s of
                  None \<Rightarrow> Inr None
                | Some points \<Rightarrow> ebind (collect_results (map (resolve_point_rule sets) (raw_point_rules raw))) (\<lambda>rs.
                    Inr (Some (points\<lparr>point_rules := rs\<rparr>)))) (\<lambda>points.
         ebind (collect_results (map (resolve_multiplier sets) (raw_multipliers raw))) (\<lambda>ms.
         Inr (s\<lparr>qso_points := points, multiplier_rules := ms\<rparr>))))"

section \<open>The rules of a contest\<close>

datatype allowed_band_value = BandName string | BandMeters nat

definition allowed_band_name :: "allowed_band_value \<Rightarrow> string" where
  "allowed_band_name value = (case value of BandName name \<Rightarrow> trim name | BandMeters meters \<Rightarrow> dec_string meters @ ''m'')"

record raw_cabrillo_rules =
  raw_fixed_headers :: "cabrillo_fixed_header list"
  raw_export_fields :: "raw_setup_field list"

record raw_contest_rules =
  raw_name :: "string option"
  raw_bands :: "allowed_band_value list"
  raw_modes :: "string list"
  raw_excluded_modes :: "string list"
  raw_value_sets :: "(string \<times> raw_value_set) list"
  raw_setup_fields :: "raw_setup_field list"
  raw_exchange :: "raw_exchange_field list"
  raw_qso_table :: "qso_column list option"
  raw_contest_scoring :: raw_scoring
  raw_cabrillo :: "raw_cabrillo_rules option"
  raw_metadata :: "contest_metadata option"

text \<open>The value sets a contest refers to; the code collects them while it resolves them.\<close>

definition condition_sets :: "raw_condition \<Rightarrow> string list" where
  "condition_sets c = cond_in_sets c @ (case cond_in_set c of Some n \<Rightarrow> [n] | None \<Rightarrow> []) @ cond_exclude_in_sets c"

definition conditions_sets :: "raw_condition option \<Rightarrow> raw_condition list \<Rightarrow> string list" where
  "conditions_sets c cs = concat (map condition_sets (case_option [] (\<lambda>c. [c]) c @ cs))"

definition referenced_sets :: "raw_contest_rules \<Rightarrow> string list" where
  "referenced_sets raw =
     (let scoring = raw_contest_scoring raw
      in concat (map rsf_in_sets (raw_setup_fields raw)) @ concat (map ref_in_sets (raw_exchange raw))
         @ (if qso_points (raw_rules scoring) = None then []
            else concat (map (\<lambda>r. conditions_sets (raw_point_when r) (raw_point_when_all r)) (raw_point_rules scoring)))
         @ concat (map (\<lambda>m. raw_mult_in_sets m @ conditions_sets (raw_mult_when m) (raw_mult_when_all m)) (raw_multipliers scoring))
         @ (case raw_cabrillo raw of None \<Rightarrow> [] | Some c \<Rightarrow> concat (map rsf_in_sets (raw_export_fields c)))
         @ concat (map (\<lambda>f. conditions_sets (ref_only_when f) []) (raw_exchange raw)))"

section \<open>The contact table\<close>

definition shown_in_table :: "exchange_field \<Rightarrow> bool" where
  "shown_in_table f =
     (case table_visibility f of
        TableShow \<Rightarrow> True
      | TableHide \<Rightarrow> False
      | TableAuto \<Rightarrow> direction f = Received \<or> \<not> exch_fixed f \<or> input_kind (exch_input f) = SerialInput)"

definition exchange_column :: "exchange_field \<Rightarrow> qso_column" where
  "exchange_column f =
     \<lparr>column_id = ''exchange-'' @ exch_id f, column_label = exch_label f, column_source = AdifColumn,
      column_field = exch_adif f, column_format = TextColumn,
      editable = (\<not> (exch_fixed f \<or> direction f = Sent \<and> input_kind (exch_input f) = SerialInput))\<rparr>"

definition adif_column :: "string \<Rightarrow> string \<Rightarrow> string \<Rightarrow> qso_column_format \<Rightarrow> qso_column" where
  "adif_column i label field fmt =
     \<lparr>column_id = i, column_label = label, column_source = AdifColumn, column_field = field, column_format = fmt, editable = True\<rparr>"

definition meta_column :: "string \<Rightarrow> string \<Rightarrow> string \<Rightarrow> qso_column" where
  "meta_column i label field =
     \<lparr>column_id = i, column_label = label, column_source = MetaColumn, column_field = field, column_format = TextColumn, editable = False\<rparr>"

definition derive_qso_table :: "contest_rules \<Rightarrow> qso_column list" where
  "derive_qso_table contest =
     [adif_column ''date-time'' ''Date/Time (UTC)'' ''QSO_DATE_TIME_ON'' DateTimeUtcColumn,
      adif_column ''frequency'' ''Freq'' ''FREQ'' FrequencyKhzColumn,
      adif_column ''mode'' ''Mode'' ''MODE'' TextColumn,
      adif_column ''call'' ''Call'' ''CALL'' TextColumn]
     @ map exchange_column (filter shown_in_table (exchange contest))
     @ (if multiplier_rules (scoring contest) \<noteq> [] then [meta_column ''multipliers'' ''Mult'' ''mult''] else [])
     @ (if qso_points (scoring contest) \<noteq> None then [meta_column ''points'' ''Pts'' ''pts''] else [])
     @ [adif_column ''operator'' ''Op'' ''OPERATOR'' TextColumn]"

section \<open>Checks\<close>

fun ids_valid_from :: "string set \<Rightarrow> string list \<Rightarrow> string \<Rightarrow> string + unit" where
  "ids_valid_from seen [] kind = Inr ()"
| "ids_valid_from seen (i # ids) kind =
     (if trim i = [] then Inl (kind @ '' id cannot be empty'')
      else if i \<in> seen then Inl (''duplicate '' @ kind @ '' id: '' @ i)
      else ids_valid_from (insert i seen) ids kind)"

definition validate_ids :: "string list \<Rightarrow> string \<Rightarrow> string + unit" where
  "validate_ids ids kind = ids_valid_from {} ids kind"

text \<open>The parts of rules that may be absent, as the lists the code flattens them to.\<close>

definition points_part :: "contest_rules \<Rightarrow> (qso_points_rules \<Rightarrow> 'a list) \<Rightarrow> 'a list" where
  "points_part contest part = (case qso_points (scoring contest) of Some points \<Rightarrow> part points | None \<Rightarrow> [])"

definition cabrillo_part :: "contest_rules \<Rightarrow> (cabrillo_rules \<Rightarrow> 'a list) \<Rightarrow> 'a list" where
  "cabrillo_part contest part = (case cabrillo contest of Some rules \<Rightarrow> part rules | None \<Rightarrow> [])"

definition all_ids :: "contest_rules \<Rightarrow> (string list \<times> string) list" where
  "all_ids contest =
     [(map setup_id (setup_fields contest), ''setup field''),
      (map setup_key (setup_fields contest), ''setup field key''),
      (map exch_id (exchange contest), ''exchange field''),
      (map setup_id (cabrillo_part contest export_fields), ''Cabrillo export field''),
      (map setup_key (cabrillo_part contest export_fields), ''Cabrillo export field key''),
      (map header_id (cabrillo_part contest fixed_headers), ''Cabrillo fixed header''),
      (map point_rule_id (points_part contest point_rules), ''QSO point rule''),
      (map time_bonus_id (points_part contest time_bonus_rules), ''QSO time bonus rule''),
      (map mult_id (multiplier_rules (scoring contest)), ''multiplier rule''),
      (map bonus_id (bonus_point_rules (scoring contest)), ''bonus point rule''),
      (map param_mult_id (param_multiplier_rules (scoring contest)), ''parameter multiplier rule''),
      (map mc_bonus_id (multiplier_count_bonus_rules (scoring contest)), ''multiplier-count bonus rule''),
      (map qc_bonus_id (qso_count_bonus_rules (scoring contest)), ''QSO-count bonus rule''),
      (map column_id (qso_table contest), ''QSO table column'')]"

definition exchange_field_valid :: "exchange_field \<Rightarrow> string + unit" where
  "exchange_field_valid f = first_error
     [require (exch_serial_scope f = GlobalScope \<or> input_kind (exch_input f) = SerialInput)
        (''exchange field '' @ exch_id f @ '' sets serial_scope but is not serial''),
      require (\<not> (direction f = Received \<and> exch_source f \<noteq> None))
        (''received exchange field '' @ exch_id f @ '' cannot define source'')]"

definition grid_distance_valid :: "grid_distance_qso_points option \<Rightarrow> string + unit" where
  "grid_distance_valid g =
     require (case g of
                None \<Rightarrow> True
              | Some g \<Rightarrow> \<not> (base_points g < 0 \<or> kilometers_per_point g \<le> 0 \<or> minimum_distance_points g < 0))
       ''grid_distance scoring values must be non-negative and use a positive distance step''"

definition bonus_time_valid :: "time_bonus_point_rule \<Rightarrow> string \<Rightarrow> string \<Rightarrow> string + unit" where
  "bonus_time_valid rule label value =
     ebind (ok_or (parse_utc_minute value) (''QSO time bonus '' @ time_bonus_id rule @ '' has invalid '' @ label @ '': '' @ value)) (\<lambda>minutes.
     require (minutes < 24 * 60) (''QSO time bonus '' @ time_bonus_id rule @ '' has '' @ label @ '' outside UTC day: '' @ value))"

definition time_bonus_valid :: "time_bonus_point_rule \<Rightarrow> string + unit" where
  "time_bonus_valid rule = first_error
     [bonus_time_valid rule ''start_utc'' (start_utc rule), bonus_time_valid rule ''end_utc'' (end_utc rule),
      require (time_bonus rule \<noteq> 0) (''QSO time bonus '' @ time_bonus_id rule @ '' must award non-zero points'')]"

definition param_multiplier_valid :: "setup_field list \<Rightarrow> param_multiplier_rule \<Rightarrow> string + unit" where
  "param_multiplier_valid setup m =
     ebind (ok_or (find (\<lambda>f. eq_ignore_case (setup_key f) (param_mult_param m)) setup)
              (''param_multipliers references unknown setup field: '' @ param_mult_param m)) (\<lambda>f.
     first_error
       (require (param_mult_values m \<noteq> [] \<and> \<not> list_ex (\<lambda>(_, factor). factor \<le> 0) (param_mult_values m))
          (''param_multipliers for '' @ param_mult_param m @ '' must define positive factors'')
        # map (\<lambda>(v, _). require (valid_values (setup_validation f) = []
               \<or> list_ex (\<lambda>candidate. eq_ignore_case candidate v) (valid_values (setup_validation f)))
             (''param_multipliers value '' @ v @ '' is not valid for '' @ param_mult_param m)) (param_mult_values m)))"

definition thresholds_valid :: "(nat \<times> int) list \<Rightarrow> bool" where
  "thresholds_valid ts \<longleftrightarrow> \<not> (ts = [] \<or> list_ex (\<lambda>(threshold, points). threshold = 0 \<or> points \<le> 0) ts)"

definition multiplier_bonus_valid :: "multiplier_rule list \<Rightarrow> multiplier_count_bonus_rule \<Rightarrow> string + unit" where
  "multiplier_bonus_valid multipliers bonus = first_error
     [require (list_ex (\<lambda>m. eq_ignore_case (mult_name m) (mc_bonus_multiplier bonus)) multipliers)
        (''multiplier_count_bonus_points references unknown multiplier: '' @ mc_bonus_multiplier bonus),
      require (thresholds_valid (mc_thresholds bonus))
        (''multiplier_count_bonus_points '' @ mc_bonus_name bonus @ '' must define positive thresholds and points'')]"

definition multiplier_valid :: "multiplier_rule \<Rightarrow> string + unit" where
  "multiplier_valid m = require (mult_max_count m \<noteq> Some 0) (''multiplier '' @ mult_id m @ '' max_count must be greater than zero'')"

definition qso_bonus_valid :: "qso_count_bonus_rule \<Rightarrow> string + unit" where
  "qso_bonus_valid bonus =
     require (\<not> (trim (qc_bonus_field bonus) = [] \<or> \<not> thresholds_valid (qc_thresholds bonus)
               \<or> qc_bonus_param bonus = None \<and> qc_bonus_values bonus \<noteq> []))
       (''qso_count_bonus_points '' @ qc_bonus_name bonus
        @ '' must define a field, positive thresholds and points, and a parameter when values are set'')"

definition validate_contest :: "contest_rules \<Rightarrow> string + unit" where
  "validate_contest contest =
     (let s = scoring contest
      in first_error
        (map (\<lambda>(ids, kind). validate_ids ids kind) (all_ids contest)
         @ map exchange_field_valid (exchange contest)
         @ [grid_distance_valid (Option.bind (qso_points s) grid_distance)]
         @ map time_bonus_valid (points_part contest time_bonus_rules)
         @ [require (0 \<le> minimum_multiplier_count s) ''minimum_multiplier_count must be non-negative'']
         @ map (param_multiplier_valid (setup_fields contest)) (param_multiplier_rules s)
         @ map (multiplier_bonus_valid (multiplier_rules s)) (multiplier_count_bonus_rules s)
         @ map multiplier_valid (multiplier_rules s)
         @ map qso_bonus_valid (qso_count_bonus_rules s)))"

section \<open>Normalization\<close>

definition normalize_cabrillo :: "value_sets \<Rightarrow> raw_cabrillo_rules option \<Rightarrow> string + cabrillo_rules option" where
  "normalize_cabrillo sets raw =
     (case raw of
        None \<Rightarrow> Inr None
      | Some c \<Rightarrow> ebind (collect_results (map (normalize_setup_field sets) (raw_export_fields c))) (\<lambda>fs.
          Inr (Some \<lparr>fixed_headers = raw_fixed_headers c, export_fields = fs\<rparr>)))"

definition resolve_only_when :: "value_sets \<Rightarrow> raw_exchange_field \<Rightarrow> exchange_field \<Rightarrow> string + exchange_field" where
  "resolve_only_when sets raw f =
     ebind (resolve_condition_option sets (ref_only_when raw)) (\<lambda>c. Inr (f\<lparr>only_when := c\<rparr>))"

definition normalize_with :: "string \<Rightarrow> raw_contest_rules \<Rightarrow> value_sets \<Rightarrow> string + contest_rules" where
  "normalize_with i raw sets =
     ebind (collect_results (map (normalize_setup_field sets) (raw_setup_fields raw))) (\<lambda>setup.
     ebind (collect_results (map (normalize_exchange_field sets) (raw_exchange raw))) (\<lambda>exchange.
     ebind (resolve_scoring_sets sets (raw_contest_scoring raw)) (\<lambda>rules.
     ebind (normalize_cabrillo sets (raw_cabrillo raw)) (\<lambda>cabrillo.
     ebind (collect_results (map2 (resolve_only_when sets) (raw_exchange raw) exchange)) (\<lambda>exchange.
     let contest = \<lparr>rules_id = i, rules_name = (case raw_name raw of Some n \<Rightarrow> n | None \<Rightarrow> i),
           rules_bands = map allowed_band_name (raw_bands raw), rules_modes = raw_modes raw,
           excluded_modes = raw_excluded_modes raw,
           value_sets = List.map_filter (\<lambda>n. map_option (\<lambda>vs. (n, vs)) (map_of sets n)) (sort (remdups (referenced_sets raw))),
           setup_fields = setup, exchange = exchange, qso_table = [], scoring = rules, cabrillo = cabrillo,
           metadata = raw_metadata raw\<rparr>;
         contest = contest\<lparr>qso_table := (case raw_qso_table raw of Some columns \<Rightarrow> columns | None \<Rightarrow> derive_qso_table contest)\<rparr>
     in ebind (validate_contest contest) (\<lambda>_. Inr contest))))))"

definition normalize_contest ::
  "(string \<Rightarrow> string + string) \<Rightarrow> string \<Rightarrow> raw_contest_rules \<Rightarrow> value_sets \<Rightarrow> (string + contest_rules) option" where
  "normalize_contest read_file i raw global =
     obind (resolve_contest_value_sets read_file (raw_value_sets raw) global) (\<lambda>sets. Some (normalize_with i raw sets))"

end
