(* ===== verification/RulesPresets.thy ===== *)
theory RulesPresets
  imports RulesNormalize
begin

text \<open>
  \<open>backend/src/contest_rules.rs\<close>: presets, the named mappings a composed contest may be built on at
  any depth, and \<open>load_dirs\<close>, which puts the steps together. The recursion over presets takes fuel.
\<close>

section \<open>Presets\<close>

definition preset_token :: "string \<Rightarrow> string" where "preset_token name = ''preset:'' @ name"

definition preset_name :: "yaml_mapping \<Rightarrow> string option" where
  "preset_name m = Option.bind (hm_get m (YString ''preset'')) yaml_str"

text \<open>The loops over the values of a mapping and of a sequence stop at the first error.\<close>

primrec expand_values :: "(yaml \<Rightarrow> (string + yaml) option) \<Rightarrow> yaml list \<Rightarrow> (string + yaml list) option" where
  "expand_values expand [] = Some (Inr [])"
| "expand_values expand (v # vs) =
     obind (expand v) (\<lambda>w. obind (expand_values expand vs) (\<lambda>ws. Some (Inr (w # ws))))"

definition expand_entries :: "(yaml \<Rightarrow> (string + yaml) option) \<Rightarrow> yaml_mapping \<Rightarrow> (string + yaml_mapping) option" where
  "expand_entries expand m = obind (expand_values expand (map snd m)) (\<lambda>ws. Some (Inr (zip (map fst m) ws)))"

text \<open>What a mapping is laid over is a mapping again, which is the code's \<open>expect\<close>.\<close>

definition overlay_preset :: "string \<Rightarrow> yaml \<Rightarrow> yaml_mapping \<Rightarrow> string + yaml_mapping" where
  "overlay_preset name preset m =
     ebind (merge_yaml (''preset '' @ name) preset (YMapping (swap_remove (YString ''preset'') m))) (\<lambda>v.
     ok_or (as_mapping v) ''expanded mapping should remain a mapping'')"

primrec expand_presets :: "nat \<Rightarrow> (string \<times> yaml) list \<Rightarrow> yaml \<Rightarrow> string list \<Rightarrow> (string + yaml) option" where
  "expand_presets 0 presets v stack = None"
| "expand_presets (Suc n) presets v stack =
     (case v of
        YMapping m \<Rightarrow>
          obind (case preset_name m of
                   None \<Rightarrow> Some (Inr m)
                 | Some name \<Rightarrow>
                     obind (Some (push_resolution (preset_token name) stack)) (\<lambda>stack.
                     obind (Some (ok_or (map_of presets name) (''unknown preset: '' @ name))) (\<lambda>preset.
                     obind (expand_presets n presets preset stack) (\<lambda>preset.
                     Some (overlay_preset name preset m))))) (\<lambda>expanded.
          obind (expand_entries (\<lambda>w. expand_presets n presets w stack) expanded) (\<lambda>entries.
          Some (Inr (YMapping entries))))
      | YSequence vs \<Rightarrow> obind (expand_values (\<lambda>w. expand_presets n presets w stack) vs) (\<lambda>ws. Some (Inr (YSequence ws)))
      | _ \<Rightarrow> Some (Inr v))"

section \<open>Loading\<close>

text \<open>
  \<open>parse_set\<close> and \<open>parse_rules\<close> are \<open>serde\<close>'s reading of a mapping into the raw records, with the error
  it would report.
\<close>

definition parsed_value_sets ::
  "(yaml \<Rightarrow> string + raw_value_set) \<Rightarrow> (string \<times> yaml) list \<Rightarrow> string + (string \<times> raw_value_set) list" where
  "parsed_value_sets parse_set raw =
     collect_results (map (\<lambda>(name, v). ebind (map_error (\<lambda>e. ''invalid value set '' @ name @ '': '' @ e) (parse_set v))
                                        (\<lambda>s. Inr (name, s))) raw)"

definition load_contest ::
  "nat \<Rightarrow> (yaml \<Rightarrow> string + raw_contest_rules) \<Rightarrow> (string \<Rightarrow> string + string) \<Rightarrow> (string \<times> yaml) list \<Rightarrow> value_sets
     \<Rightarrow> string \<Rightarrow> yaml \<Rightarrow> (string + contest_rules) option" where
  "load_contest n parse_rules read_file presets sets i v =
     obind (expand_presets n presets v []) (\<lambda>expanded.
     obind (Some (map_error (\<lambda>e. ''invalid resolved contest '' @ i @ '': '' @ e) (parse_rules expanded))) (\<lambda>raw.
     normalize_contest read_file i raw sets))"

primrec load_contests ::
  "nat \<Rightarrow> (yaml \<Rightarrow> string + raw_contest_rules) \<Rightarrow> (string \<Rightarrow> string + string) \<Rightarrow> (string \<times> yaml) list \<Rightarrow> value_sets
     \<Rightarrow> (string \<times> yaml) list \<Rightarrow> (string \<times> contest_rules) list \<Rightarrow> (string + (string \<times> contest_rules) list) option" where
  "load_contests n parse_rules read_file presets sets [] contests = Some (Inr contests)"
| "load_contests n parse_rules read_file presets sets (entry # composed) contests =
     obind (load_contest n parse_rules read_file presets sets (fst entry) (snd entry)) (\<lambda>contest.
     load_contests n parse_rules read_file presets sets composed (bt_put (fst entry) contest contests))"

definition load_rules ::
  "nat \<Rightarrow> (yaml \<Rightarrow> string + raw_value_set) \<Rightarrow> (yaml \<Rightarrow> string + raw_contest_rules) \<Rightarrow> (string \<Rightarrow> string + string) \<Rightarrow> string
     \<Rightarrow> catalog \<Rightarrow> (string + (string \<times> contest_rules) list) option" where
  "load_rules n parse_set parse_rules read_file paths cat =
     obind (Some (require (cat_contests cat \<noteq> []) (''no contest rules found in searched directories: '' @ paths))) (\<lambda>_.
     obind (compose_catalog cat) (\<lambda>composed.
     obind (Some (parsed_value_sets parse_set (cat_value_sets cat))) (\<lambda>raw_sets.
     obind (resolve_global_value_sets read_file raw_sets) (\<lambda>sets.
     load_contests n parse_rules read_file (cat_presets cat) sets composed []))))"

end
