(* ===== verification/RulesNormalizeSpec.thy ===== *)
theory RulesNormalizeSpec
  imports CatalogSpec RulesNormalize ScoringSpec
begin

text \<open>
  What loading the rules of a contest promises: the value sets it works with are solutions of their
  definitions, it always ends, and rules it accepts are safe to score with.
\<close>

section \<open>Normalization ends\<close>

lemma set_use_known: "map_of raw name = Some d \<Longrightarrow> token name \<in> known_tokens token raw"
  by (force simp: known_tokens_def dest: map_of_SomeD)

lemma if_None: "(if b then x else y) = None \<longleftrightarrow> b \<and> x = None \<or> \<not> b \<and> y = None"
  by simp

lemma resolve_named_ends:
  "card (known_tokens set_token raw - set stack) < n \<Longrightarrow> resolve_named_value_set n read_file raw name resolved stack \<noteq> None"
proof (induction n arbitrary: name resolved stack)
  case (Suc n)
  show ?case
  proof
    assume none: "resolve_named_value_set (Suc n) read_file raw name resolved stack = None"
    then obtain d parent where fresh: "set_token name \<notin> set stack" and d: "map_of raw name = Some d"
      and deep: "resolve_named_value_set n read_file raw parent resolved (stack @ [set_token name]) = None"
      by (auto simp: obind_None push_resolution_Inr split: option.splits)
    have "card (known_tokens set_token raw - set (stack @ [set_token name])) < n"
      using card_pushed [OF known_tokens_finite set_use_known [OF d, of set_token] fresh] Suc.prems by simp
    then show False using Suc.IH deep by blast
  qed
qed simp

lemma resolve_contest_set_ends:
  "card (known_tokens local_set_token raw - set stack) < n \<Longrightarrow> resolve_contest_value_set n read_file raw global name resolved stack \<noteq> None"
proof (induction n arbitrary: name resolved stack)
  case (Suc n)
  show ?case
  proof
    assume none: "resolve_contest_value_set (Suc n) read_file raw global name resolved stack = None"
    then obtain d parent where fresh: "local_set_token name \<notin> set stack" and d: "map_of raw name = Some d"
      and deep: "resolve_contest_value_set n read_file raw global parent resolved (stack @ [local_set_token name]) = None"
      by (auto simp: obind_None push_resolution_Inr if_None split: option.splits)
    have "card (known_tokens local_set_token raw - set (stack @ [local_set_token name])) < n"
      using card_pushed [OF known_tokens_finite set_use_known [OF d, of local_set_token] fresh] Suc.prems by simp
    then show False using Suc.IH deep by blast
  qed
qed simp

lemma value_set_fuel: "card (known_tokens token raw - set []) < length raw + 2"
  using known_tokens_card [of token raw] by simp

lemma resolve_global_ends: "\<exists>result. resolve_global_value_sets read_file raw = Some result"
proof -
  have "resolve_all_value_sets (length raw + 2) read_file raw names resolved \<noteq> None" for names resolved
    using resolve_named_ends [OF value_set_fuel] by (induction names arbitrary: resolved) (auto simp: obind_None)
  then show ?thesis by (simp add: resolve_global_value_sets_def)
qed

lemma normalize_contest_ends: "\<exists>result. normalize_contest read_file i raw global = Some result"
proof -
  have "resolve_local_value_sets (length r + 2) read_file r global names resolved \<noteq> None" for names resolved and r :: "(string \<times> raw_value_set) list"
    using resolve_contest_set_ends [OF value_set_fuel] by (induction names arbitrary: resolved) (auto simp: obind_None)
  then have "normalize_contest read_file i raw global \<noteq> None"
    by (auto simp: normalize_contest_def resolve_contest_value_sets_def obind_None)
  then show ?thesis by simp
qed

section \<open>Value sets\<close>

text \<open>What a set stands for, given what the others stand for, and a collection of sets that are all so.\<close>

definition set_stands_for :: "(string \<Rightarrow> string + string) \<Rightarrow> (string \<times> raw_value_set) list \<Rightarrow> value_sets \<Rightarrow> string \<Rightarrow> string list \<Rightarrow> bool" where
  "set_stands_for read_file raw sets name vs \<longleftrightarrow>
     (\<exists>d base. map_of raw name = Some d \<and> (case set_use d of None \<Rightarrow> base = [] | Some p \<Rightarrow> map_of sets p = Some base)
        \<and> resolve_value_set_body read_file d base name = Inr vs)"

definition solved :: "(string \<Rightarrow> string + string) \<Rightarrow> (string \<times> raw_value_set) list \<Rightarrow> value_sets \<Rightarrow> bool" where
  "solved read_file raw sets \<longleftrightarrow> (\<forall>name vs. map_of sets name = Some vs \<longrightarrow> set_stands_for read_file raw sets name vs)"

lemma solved_put:
  assumes "solved read_file raw sets" and "set_stands_for read_file raw sets name vs" and "map_of sets name = None"
  shows "solved read_file raw (bt_put name vs sets)"
proof -
  have "set_stands_for read_file raw (bt_put name vs sets) i ws" if ws: "set_stands_for read_file raw sets i ws" for i ws
  proof -
    from ws obtain d base where "map_of raw i = Some d" "resolve_value_set_body read_file d base i = Inr ws"
      and base: "case set_use d of None \<Rightarrow> base = [] | Some p \<Rightarrow> map_of sets p = Some base"
      unfolding set_stands_for_def by blast
    moreover have "case set_use d of None \<Rightarrow> base = [] | Some p \<Rightarrow> map_of (bt_put name vs sets) p = Some base"
      using base assms(3) by (auto simp: bt_get_put split: option.splits)
    ultimately show ?thesis unfolding set_stands_for_def by blast
  qed
  then show ?thesis using assms(1,2) by (auto simp: solved_def bt_get_put)
qed

lemma resolve_named_step:
  assumes "resolve_named_value_set (Suc n) read_file raw name resolved stack = Some (Inr (vs, sets))" and "map_of resolved name = None"
  shows "\<exists>d base sets1. set_token name \<notin> set stack \<and> map_of raw name = Some d \<and> resolve_value_set_body read_file d base name = Inr vs
    \<and> sets = bt_put name vs sets1
    \<and> (case set_use d of None \<Rightarrow> base = [] \<and> sets1 = resolved
        | Some p \<Rightarrow> resolve_named_value_set n read_file raw p resolved (stack @ [set_token name]) = Some (Inr (base, sets1)))"
proof -
  from assms obtain d base sets1 where "set_token name \<notin> set stack" "map_of raw name = Some d"
    "resolve_value_set_body read_file d base name = Inr vs" "sets = bt_put name vs sets1"
    and "(case set_use d of None \<Rightarrow> Some (Inr ([], resolved))
      | Some p \<Rightarrow> resolve_named_value_set n read_file raw p resolved (stack @ [set_token name])) = Some (Inr (base, sets1))"
    by (auto simp: push_resolution_Inr)
  then show ?thesis by (intro exI [of _ d] exI [of _ base] exI [of _ sets1]) (auto split: option.splits)
qed

lemma resolve_named_solved:
  "resolve_named_value_set n read_file raw name resolved stack = Some (Inr (vs, sets)) \<Longrightarrow> solved read_file raw resolved
    \<Longrightarrow> solved read_file raw sets \<and> map_of sets name = Some vs \<and> map_of resolved \<subseteq>\<^sub>m map_of sets
      \<and> (\<forall>x. set_token x \<in> set stack \<longrightarrow> map_of sets x = map_of resolved x)"
proof (induction n arbitrary: name resolved stack vs sets)
  case (Suc n)
  show ?case
  proof (cases "map_of resolved name")
    case None
    let ?stack = "stack @ [set_token name]"
    from resolve_named_step [OF Suc.prems(1) None] obtain d base sets1 where fresh: "set_token name \<notin> set stack"
      and d: "map_of raw name = Some d" "resolve_value_set_body read_file d base name = Inr vs" and sets: "sets = bt_put name vs sets1"
      and use: "case set_use d of None \<Rightarrow> base = [] \<and> sets1 = resolved
        | Some p \<Rightarrow> resolve_named_value_set n read_file raw p resolved ?stack = Some (Inr (base, sets1))"
      by blast
    have up: "solved read_file raw sets1 \<and> (case set_use d of None \<Rightarrow> base = [] | Some p \<Rightarrow> map_of sets1 p = Some base)
        \<and> map_of resolved \<subseteq>\<^sub>m map_of sets1 \<and> (\<forall>x. set_token x \<in> set ?stack \<longrightarrow> map_of sets1 x = map_of resolved x)"
    proof (cases "set_use d")
      case None
      then show ?thesis using use Suc.prems(2) by simp
    next
      case (Some p)
      then show ?thesis using Suc.IH [OF _ Suc.prems(2), of p ?stack base sets1] use by simp
    qed
    then have new: "map_of sets1 name = None" using None by simp
    have "set_stands_for read_file raw sets1 name vs" using d up unfolding set_stands_for_def by blast
    then have "solved read_file raw sets" using solved_put up new unfolding sets by blast
    moreover have "map_of resolved \<subseteq>\<^sub>m map_of sets" using up new by (force simp: sets bt_get_put map_le_def dom_def)
    moreover have "\<forall>x. set_token x \<in> set stack \<longrightarrow> map_of sets x = map_of resolved x"
      using up fresh by (auto simp: sets bt_get_put)
    moreover have "map_of sets name = Some vs" by (simp add: sets bt_get_put)
    ultimately show ?thesis by blast
  qed (use Suc.prems in simp)
qed simp

lemma resolve_all_solved:
  "resolve_all_value_sets n read_file raw names resolved = Some (Inr sets) \<Longrightarrow> solved read_file raw resolved
    \<Longrightarrow> solved read_file raw sets \<and> map_of resolved \<subseteq>\<^sub>m map_of sets \<and> (\<forall>x\<in>set names. map_of sets x \<noteq> None)"
proof (induction names arbitrary: resolved)
  case (Cons name names)
  then obtain vs sets1 where one: "resolve_named_value_set n read_file raw name resolved [] = Some (Inr (vs, sets1))"
    and rest: "resolve_all_value_sets n read_file raw names sets1 = Some (Inr sets)" by auto
  note here = resolve_named_solved [OF one Cons.prems(2)]
  note there = Cons.IH [OF rest]
  have "map_of sets1 name \<noteq> None" using here by simp
  then show ?case using here there map_le_trans by (auto simp: map_le_def dom_def)
qed (simp add: map_le_def)

lemma body_clean: "resolve_value_set_body read_file d bs name = Inr vs \<Longrightarrow> v \<in> set vs \<Longrightarrow> trim v = v \<and> v \<noteq> [] \<and> v \<notin> trim ` set (set_exclude d)"
  by (auto simp: resolve_value_set_body_def)

text \<open>
  Resolving the global value sets always ends, with the sets or an error. With the sets, every set
  of the catalog is there, and each is what its definition says of the sets it uses, which are there
  too; a set never holds a blank value, a value with spaces around it or a value its definition excludes.
\<close>

theorem value_sets_solved:
  "(\<exists>result. resolve_global_value_sets read_file raw = Some result)
   \<and> (case resolve_global_value_sets read_file raw of
        Some (Inr sets) \<Rightarrow>
          \<forall>name d. map_of raw name = Some d \<longrightarrow> (\<exists>vs. map_of sets name = Some vs \<and> set_stands_for read_file raw sets name vs
            \<and> (\<forall>v\<in>set vs. trim v = v \<and> v \<noteq> [] \<and> v \<notin> trim ` set (set_exclude d)))
      | _ \<Rightarrow> True)"
proof -
  have "\<exists>vs. map_of sets name = Some vs \<and> set_stands_for read_file raw sets name vs
      \<and> (\<forall>v\<in>set vs. trim v = v \<and> v \<noteq> [] \<and> v \<notin> trim ` set (set_exclude d))"
    if run: "resolve_global_value_sets read_file raw = Some (Inr sets)" and d: "map_of raw name = Some d" for sets name d
  proof -
    have all: "solved read_file raw sets \<and> (\<forall>x\<in>set (map fst raw). map_of sets x \<noteq> None)"
      using resolve_all_solved [OF run [unfolded resolve_global_value_sets_def]] by (simp add: solved_def)
    have "name \<in> set (map fst raw)" using d by (force dest: map_of_SomeD)
    then obtain vs where vs: "map_of sets name = Some vs" using all by blast
    then have stands: "set_stands_for read_file raw sets name vs" using all by (simp add: solved_def)
    then show ?thesis using vs d body_clean unfolding set_stands_for_def by fastforce
  qed
  then show ?thesis using resolve_global_ends by (auto split: option.split sum.split)
qed

definition sample_sets :: "(string \<times> raw_value_set) list" where
  "sample_sets =
     [(''all'', \<lparr>set_use = None, set_values = Some [''CT'', '' MA '', '' '', ''NH''], values_from_file = None, set_exclude = []\<rparr>),
      (''near'', \<lparr>set_use = Some ''all'', set_values = None, values_from_file = None, set_exclude = ['' NH'']\<rparr>)]"

lemma value_sets_solved_witness:
  "\<exists>sets. resolve_global_value_sets (\<lambda>_. Inl []) sample_sets = Some (Inr sets) \<and> map_of sets ''near'' = Some [''CT'', ''MA'']
     \<and> set_stands_for (\<lambda>_. Inl []) sample_sets sets ''near'' [''CT'', ''MA'']"
proof -
  have "case resolve_global_value_sets (\<lambda>_. Inl []) sample_sets of Some (Inr sets) \<Rightarrow> map_of sets ''near'' = Some [''CT'', ''MA''] | _ \<Rightarrow> False"
    by code_simp
  then obtain sets where run: "resolve_global_value_sets (\<lambda>_. Inl []) sample_sets = Some (Inr sets)"
    and near: "map_of sets ''near'' = Some [''CT'', ''MA'']"
    by (auto split: option.splits sum.splits)
  have "\<exists>d. map_of sample_sets ''near'' = Some d" by (simp add: sample_sets_def)
  then show ?thesis using value_sets_solved [of "\<lambda>_. Inl []" sample_sets] run near by fastforce
qed

section \<open>Accepted rules\<close>

lemma ids_valid_from_Inr: "ids_valid_from seen ids kind = Inr u \<longleftrightarrow> distinct ids \<and> set ids \<inter> seen = {} \<and> (\<forall>i\<in>set ids. trim i \<noteq> [])"
  by (induction ids arbitrary: seen) auto

lemma validate_ids_Inr: "validate_ids ids kind = Inr u \<longleftrightarrow> distinct ids \<and> (\<forall>i\<in>set ids. trim i \<noteq> [])"
  by (simp add: validate_ids_def ids_valid_from_Inr)

lemma trim_starts: "\<not> is_ws c \<Longrightarrow> trim (c # s) \<noteq> []"
  by (auto simp: trim_def trim_end_def trim_start_def dropWhile_eq_Nil_conv)

text \<open>
  The contact table derived from a contest's exchange passes the check of its columns whenever the
  exchange passes its own: columns the contest did not write itself are never the reason its rules are
  rejected.
\<close>

theorem derived_table_accepted:
  assumes "validate_ids (map exch_id (exchange contest)) kind = Inr ()"
  shows "validate_ids (map column_id (derive_qso_table contest)) columns = Inr ()"
proof -
  let ?own = "map exch_id (filter shown_in_table (exchange contest))"
  have "distinct ?own" using assms by (simp add: validate_ids_Inr distinct_map_filter)
  then have "distinct (map ((@) ''exchange-'') ?own)" by (simp add: distinct_map inj_on_def)
  then have "distinct (map (column_id \<circ> exchange_column) (filter shown_in_table (exchange contest)))"
    by (simp add: exchange_column_def comp_def)
  then show ?thesis
    by (auto simp: validate_ids_Inr derive_qso_table_def adif_column_def meta_column_def exchange_column_def trim_starts is_ws_def)
qed

lemma threshold_points_positive:
  assumes "thresholds_valid ts" shows "0 \<le> threshold_points ts n"
proof (cases "find (\<lambda>(t, _). t \<le> n) (rev ts)")
  case (Some e)
  then have "e \<in> set ts" using find_Some_iff [of "\<lambda>(t, _). t \<le> n" "rev ts" e] by (metis nth_mem set_rev)
  then have "0 < snd e" using assms by (auto simp: thresholds_valid_def list_ex_iff)
  then show ?thesis using Some by (cases e) (simp add: threshold_points_def)
qed (simp add: threshold_points_def)

lemma normalize_checked: "normalize_contest read_file i raw global = Some (Inr c) \<Longrightarrow> validate_contest c = Inr ()"
  by (auto simp: normalize_contest_def normalize_with_def Let_def)

text \<open>The exact numbers of which the scorer computes the \<open>i64\<close>: the factor, and the bonuses for counts.\<close>

definition selected_factor :: "json \<Rightarrow> param_multiplier_rule \<Rightarrow> int" where
  "selected_factor params m =
     (case param_selection params (param_mult_param m) of
        None \<Rightarrow> 1
      | Some selected \<Rightarrow>
          (case find (\<lambda>(v, _). eq_ignore_case v selected) (param_mult_values m) of
             Some (_, factor) \<Rightarrow> factor | None \<Rightarrow> 1))"

definition exact_factor :: "contest_rules \<Rightarrow> json \<Rightarrow> int" where
  "exact_factor c params = prod_list (map (selected_factor params) (param_multiplier_rules (scoring c)))"

definition exact_multiplier_bonus :: "contest_rules \<Rightarrow> string list \<Rightarrow> int" where
  "exact_multiplier_bonus c keys =
     sum_list (map (\<lambda>rule. threshold_points (mc_thresholds rule)
         (length (filter (prefix (to_upper (trim (mc_bonus_multiplier rule)) @ '':'')) keys)))
       (multiplier_count_bonus_rules (scoring c)))"

definition exact_count_bonus :: "contest_rules \<Rightarrow> (string, nat) hmap \<Rightarrow> int" where
  "exact_count_bonus c counts =
     sum_list (map (\<lambda>rule. sum_list (map (\<lambda>(_, n). threshold_points (qc_thresholds rule) n)
         (filter (\<lambda>(key, _). prefix (qc_bonus_id rule @ '':'') key) counts)))
       (qso_count_bonus_rules (scoring c)))"

lemma sum_i64_nested: "sum_i64 (map (\<lambda>x. wrap_i64 (f x)) xs) = wrap_i64 (sum_list (map f xs))"
  unfolding sum_i64_wrap by (induction xs) (simp_all, metis wrap_i64_add(2))

lemma exact_scores:
  "score_factor_for c params = wrap_i64 (exact_factor c params)"
  "multiplier_count_bonus_points (new_module distance c params) keys = wrap_i64 (exact_multiplier_bonus c keys)"
  "qso_count_bonus_points (new_module distance c params) counts = wrap_i64 (exact_count_bonus c counts)"
  by (simp_all add: score_factor_for_def exact_factor_def selected_factor_def [abs_def] product_i64_wrap
      multiplier_count_bonus_points_def exact_multiplier_bonus_def Let_def mod_scoring_def new_module_def
      qso_count_bonus_points_def exact_count_bonus_def sum_i64_wrap sum_i64_nested [unfolded sum_i64_wrap])

lemma selected_factor_positive:
  assumes "param_multiplier_valid setup m = Inr ()"
  shows "1 \<le> selected_factor params m"
proof -
  have positive: "\<forall>(v, factor)\<in>set (param_mult_values m). 0 < factor"
    using assms by (force simp: param_multiplier_valid_def list_ex_iff)
  have "1 \<le> factor" if "find (\<lambda>(v, _). eq_ignore_case v selected) (param_mult_values m) = Some (v, factor)" for v factor selected
    using that positive find_Some_iff [of "\<lambda>(v, _). eq_ignore_case v selected" "param_mult_values m"]
    by (metis (no_types, lifting) case_prodD int_one_le_iff_zero_less nth_mem)
  then show ?thesis by (auto simp: selected_factor_def split: option.splits)
qed

lemma prod_list_positive: "\<forall>x\<in>set xs. (1 :: int) \<le> x \<Longrightarrow> 1 \<le> prod_list xs"
  by (induction xs) (auto simp: int_one_le_iff_zero_less)

lemma wrap_i64_small: "0 \<le> n \<Longrightarrow> n \<le> i64_max \<Longrightarrow> wrap_i64 n = n"
  by (rule wrap_i64_id) (simp_all add: i64_min_def)

text \<open>
  C15. What the checks of loading leave to go wrong in scoring is overflow alone, whatever the
  station's parameters, the contacts and the counts. For rules that loading accepts, the exact score
  factor is at least one and the exact bonuses for counts are not negative, and what is scored with is
  their \<open>i64\<close>: the number itself as long as it is at most \<open>2^63 - 1\<close>. Both ends of a time bonus window
  are minutes of the day, so that no window is skipped; points for distance never divide by zero and
  are not negative as long as they fit an \<open>i64\<close>.
\<close>

theorem accepted_rules_score:
  assumes "normalize_contest read_file i raw global = Some (Inr c)"
  shows "1 \<le> exact_factor c params \<and> score_factor_for c params = wrap_i64 (exact_factor c params)
    \<and> (exact_factor c params \<le> i64_max \<longrightarrow> 1 \<le> score_factor_for c params)
    \<and> 0 \<le> exact_multiplier_bonus c keys \<and> (exact_multiplier_bonus c keys \<le> i64_max \<longrightarrow>
         multiplier_count_bonus_points (new_module distance c params) keys = exact_multiplier_bonus c keys)
    \<and> 0 \<le> exact_count_bonus c counts \<and> (exact_count_bonus c counts \<le> i64_max \<longrightarrow>
         qso_count_bonus_points (new_module distance c params) counts = exact_count_bonus c counts)
    \<and> (\<forall>r\<in>set (points_part c time_bonus_rules). \<exists>start stop. parse_utc_minute (start_utc r) = Some start
         \<and> parse_utc_minute (end_utc r) = Some stop \<and> start < 1440 \<and> stop < 1440)
    \<and> (\<forall>g. Option.bind (qso_points (scoring c)) grid_distance = Some g \<longrightarrow>
         0 < kilometers_per_point g
         \<and> (\<forall>contact p. minimum_distance_points g \<le> i64_max - base_points g \<longrightarrow>
              (\<forall>a b. distance a b (kilometers_per_point g) \<le> i64_max - base_points g) \<longrightarrow>
              grid_points distance g contact = Some p \<longrightarrow> 0 \<le> p))"
proof -
  have valid: "validate_contest c = Inr ()" using normalize_checked [OF assms] .
  have params: "\<forall>m\<in>set (param_multiplier_rules (scoring c)). param_multiplier_valid (setup_fields c) m = Inr ()"
    and counts: "\<forall>b\<in>set (multiplier_count_bonus_rules (scoring c)). multiplier_bonus_valid (multiplier_rules (scoring c)) b = Inr ()"
    and qsos: "\<forall>b\<in>set (qso_count_bonus_rules (scoring c)). qso_bonus_valid b = Inr ()"
    and times: "\<forall>r\<in>set (points_part c time_bonus_rules). time_bonus_valid r = Inr ()"
    and grid: "grid_distance_valid (Option.bind (qso_points (scoring c)) grid_distance) = Inr ()"
    using valid by (simp_all add: validate_contest_def Let_def ball_Un)
  have factor: "1 \<le> exact_factor c params"
    unfolding exact_factor_def using params selected_factor_positive by (intro prod_list_positive) auto
  then have "exact_factor c params \<le> i64_max \<longrightarrow> 1 \<le> score_factor_for c params"
    by (simp add: exact_scores wrap_i64_small)
  moreover have mults: "0 \<le> exact_multiplier_bonus c keys"
    unfolding exact_multiplier_bonus_def using counts
    by (intro sum_list_nonneg) (auto simp: multiplier_bonus_valid_def intro: threshold_points_positive)
  then have "exact_multiplier_bonus c keys \<le> i64_max \<longrightarrow>
      multiplier_count_bonus_points (new_module distance c params) keys = exact_multiplier_bonus c keys"
    by (simp add: exact_scores wrap_i64_small)
  moreover have contacts: "0 \<le> exact_count_bonus c counts"
    unfolding exact_count_bonus_def using qsos
    by (intro sum_list_nonneg) (auto simp: qso_bonus_valid_def intro!: sum_list_nonneg threshold_points_positive)
  then have "exact_count_bonus c counts \<le> i64_max \<longrightarrow>
      qso_count_bonus_points (new_module distance c params) counts = exact_count_bonus c counts"
    by (simp add: exact_scores wrap_i64_small)
  moreover have "\<exists>start stop. parse_utc_minute (start_utc r) = Some start
      \<and> parse_utc_minute (end_utc r) = Some stop \<and> start < 1440 \<and> stop < 1440" if "r \<in> set (points_part c time_bonus_rules)" for r
    using times that by (auto simp: time_bonus_valid_def bonus_time_valid_def)
  moreover have "0 < kilometers_per_point g" if "Option.bind (qso_points (scoring c)) grid_distance = Some g" for g
    using grid that by (auto simp: grid_distance_valid_def split: option.splits)
  moreover have "0 \<le> p"
    if g: "Option.bind (qso_points (scoring c)) grid_distance = Some g"
      and fits: "minimum_distance_points g \<le> i64_max - base_points g"
        "\<forall>a b. distance a b (kilometers_per_point g) \<le> i64_max - base_points g"
      and p: "grid_points distance g contact = Some p" for g contact p
  proof -
    have "0 \<le> base_points g" "0 \<le> minimum_distance_points g"
      using grid g by (auto simp: grid_distance_valid_def split: option.splits)
    moreover obtain a b where
      "p = wrap_i64 (base_points g + max (distance a b (kilometers_per_point g)) (minimum_distance_points g))"
      using p by (auto simp: grid_points_def split: option.splits)
    moreover have "max (distance a b (kilometers_per_point g)) (minimum_distance_points g) \<le> i64_max - base_points g"
      using fits by simp
    ultimately show ?thesis by (simp add: wrap_i64_small)
  qed
  ultimately show ?thesis using factor mults contacts exact_scores(1) by blast
qed

text \<open>A contest with a parameter multiplier, a time bonus and points for distance.\<close>

definition sample_raw :: raw_contest_rules where
  "sample_raw =
     \<lparr>raw_name = None, raw_bands = [BandMeters 20, BandName '' 2m''], raw_modes = [''CW''], raw_excluded_modes = [], raw_value_sets = sample_sets,
      raw_setup_fields = [\<lparr>rsf_id = ''power'', rsf_key = ''POWER'', rsf_label = ''Power'', rsf_type = ''STRING'', rsf_required = None,
          rsf_regex = None, rsf_values_or_regex = False, rsf_default = None, rsf_in_sets = [], rsf_valid_values = [''LOW'', ''HIGH''],
          rsf_widget = None, rsf_help_text = None, rsf_max_lines = None, rsf_preserve_case = False, rsf_cabrillo_header = None,
          rsf_multi_single_has_mult_transmitter = False\<rparr>],
      raw_exchange = [\<lparr>ref_id = ''sect'', ref_label = ''Section'', ref_type = ''string:3'', ref_adif = ''ARRL_SECT'', ref_direction = Received,
          ref_fixed = False, ref_default = None, ref_source = None, ref_regex = None, ref_values_or_regex = False, ref_in_sets = [''near''],
          ref_valid_values = [''DX''], ref_serial_scope = GlobalScope, ref_only_when = None, ref_table = TableAuto\<rparr>],
      raw_qso_table = None,
      raw_contest_scoring = \<lparr>
        raw_rules = \<lparr>qso_points = Some \<lparr>fixed_points = None, point_rules = [],
              time_bonus_rules = [\<lparr>time_bonus_id = ''night'', start_utc = ''23:00'', end_utc = ''06:30'', time_bonus = 2\<rparr>], geography = None,
              grid_distance = Some \<lparr>station_grid_field = ''MY_GRIDSQUARE'', contact_grid_field = ''GRIDSQUARE'', base_points = 1,
                 kilometers_per_point = 500, minimum_distance_points = 0\<rparr>, category_band_param = None\<rparr>,
            minimum_multiplier_count = 0, dupe_key_fields = [''CALL''], multiplier_rules = [], bonus_point_rules = [],
            param_multiplier_rules = [\<lparr>param_mult_id = ''power'', param_mult_param = ''power'', param_mult_values = [(''HIGH'', 1), (''low'', 2)]\<rparr>],
            multiplier_count_bonus_rules = [], qso_count_bonus_rules = []\<rparr>,
        raw_point_rules = [], raw_multipliers = []\<rparr>,
      raw_cabrillo = None, raw_metadata = None\<rparr>"

definition loaded_sample :: "contest_rules option" where
  "loaded_sample = (case normalize_contest (\<lambda>_. Inl []) ''VHF'' sample_raw [] of Some (Inr c) \<Rightarrow> Some c | _ \<Rightarrow> None)"

lemma loaded_sample_runs:
  "\<exists>c. loaded_sample = Some c \<and> normalize_contest (\<lambda>_. Inl []) ''VHF'' sample_raw [] = Some (Inr c)
     \<and> score_factor_for c (JObject [(''POWER'', JString ''LOW'')]) = 2 \<and> validate_ids (map exch_id (exchange c)) ''exchange field'' = Inr ()"
proof -
  have "case loaded_sample of Some c \<Rightarrow> score_factor_for c (JObject [(''POWER'', JString ''LOW'')]) = 2
      \<and> validate_ids (map exch_id (exchange c)) ''exchange field'' = Inr () | None \<Rightarrow> False"
    by code_simp
  then show ?thesis by (auto simp: loaded_sample_def split: option.splits sum.splits)
qed

lemma derived_table_accepted_witness:
  "\<exists>c. loaded_sample = Some c \<and> validate_ids (map column_id (derive_qso_table c)) ''QSO table column'' = Inr ()"
  using loaded_sample_runs derived_table_accepted by blast

theorem accepted_rules_score_witness:
  "\<exists>c. loaded_sample = Some c \<and> score_factor_for c (JObject [(''POWER'', JString ''LOW'')]) = 2
     \<and> score_factor_for c (JObject [(''POWER'', JString ''QRP'')]) = wrap_i64 (exact_factor c (JObject [(''POWER'', JString ''QRP'')]))
     \<and> 1 \<le> exact_factor c (JObject [(''POWER'', JString ''QRP'')])"
  using loaded_sample_runs accepted_rules_score by blast

end
