(* ===== verification/PresetSpec.thy ===== *)
theory PresetSpec
  imports CatalogSpec RulesPresets RulesNormalizeSpec
begin

text \<open>
  Loading a catalog without YAML tags ends: expanding a preset consumes a reference or goes below one
  that is not open yet. With tags it need not: an overlay strips the tag of an item, and the content
  that comes to light refers to presets again.
\<close>

section \<open>Values without tags\<close>

fun plain :: "yaml \<Rightarrow> bool" where
  "plain (YMapping m) \<longleftrightarrow> distinct (map fst m) \<and> (\<forall>e\<in>set m. plain (snd e))"
| "plain (YSequence vs) \<longleftrightarrow> (\<forall>v\<in>set vs. plain v)"
| "plain (YTagged _ _) \<longleftrightarrow> False"
| "plain _ \<longleftrightarrow> True"

text \<open>The references to presets in a value.\<close>

fun is_reference :: "yaml \<times> yaml \<Rightarrow> bool" where
  "is_reference (YString k, YString _) \<longleftrightarrow> k = ''preset''"
| "is_reference _ \<longleftrightarrow> False"

fun references :: "yaml \<Rightarrow> nat" where
  "references (YMapping m) = (\<Sum>e\<leftarrow>m. references (snd e) + of_bool (is_reference e))"
| "references (YSequence vs) = (\<Sum>v\<leftarrow>vs. references v)"
| "references _ = 0"

abbreviation entry_references :: "yaml \<times> yaml \<Rightarrow> nat" where
  "entry_references e \<equiv> references (snd e) + of_bool (is_reference e)"

lemma is_reference_iff: "is_reference (k, v) \<longleftrightarrow> k = YString ''preset'' \<and> (\<exists>s. v = YString s)"
  by (cases "(k, v)" rule: is_reference.cases) auto

lemma swap_remove_found:
  assumes "position (\<lambda>e. fst e = k) m = Some i"
  shows "mset m = add_mset (m ! i) (mset (swap_remove k m))"
proof -
  have i: "i < length m" using position_Some [OF assms] by simp
  then have split: "mset m = add_mset (last m) (mset (butlast m))"
    by (metis append_butlast_last_id length_greater_0_conv less_nat_zero_code list.size(3) mset.simps(2) mset_append
        add_mset_add_single union_mset_add_mset_right add.right_neutral mset.simps(1) neq0_conv)
  show ?thesis
  proof (cases "Suc i = length m")
    case True
    moreover have "m \<noteq> []" using i by auto
    ultimately have "m ! i = last m" by (simp add: last_conv_nth flip: True)
    then show ?thesis using assms split True by (simp add: swap_remove_def)
  next
    case False
    then have less: "i < length (butlast m)" using i by simp
    then have "m ! i = butlast m ! i" by (simp add: nth_butlast)
    moreover have "butlast m ! i \<in># mset (butlast m)" using less by simp
    ultimately show ?thesis using assms split False mset_update [OF less, of "last m"]
      by (simp add: swap_remove_def)
  qed
qed

lemma swap_remove_missing: "map_of m k = None \<Longrightarrow> swap_remove k m = m"
proof -
  assume "map_of m k = None"
  then have "position (\<lambda>e. fst e = k) m = None" by (auto simp: position_None map_of_eq_None_iff)
  then show ?thesis by (simp add: swap_remove_def)
qed

lemma swap_remove_get:
  assumes "map_of m k = Some v" and "distinct (map fst m)"
  shows "mset m = add_mset (k, v) (mset (swap_remove k m))"
proof -
  have "position (\<lambda>e. fst e = k) m \<noteq> None" using map_of_SomeD [OF assms(1)] unfolding position_None by force
  then obtain i where i: "position (\<lambda>e. fst e = k) m = Some i" by blast
  then have "i < length m" "fst (m ! i) = k" using position_Some [OF i] by simp_all
  then have "m ! i = (k, v)" using assms by (metis map_of_is_SomeI nth_mem option.inject prod.collapse)
  then show ?thesis using swap_remove_found [OF i] by simp
qed

lemma swap_remove_keys:
  assumes "distinct (map fst m)"
  shows "distinct (map fst (swap_remove k m))" and "k \<notin> fst ` set (swap_remove k m)" and "set (swap_remove k m) \<subseteq> set m"
proof -
  have "distinct (map fst (swap_remove k m)) \<and> k \<notin> fst ` set (swap_remove k m) \<and> set (swap_remove k m) \<subseteq> set m"
  proof (cases "map_of m k")
    case None
    then show ?thesis using assms by (simp add: swap_remove_missing map_of_eq_None_iff)
  next
    case (Some v)
    note split = swap_remove_get [OF Some assms]
    then have "mset (map fst m) = mset (k # map fst (swap_remove k m))" by simp
    then have "distinct (k # map fst (swap_remove k m))" using assms by (metis mset_eq_imp_distinct_iff)
    moreover have "set (swap_remove k m) \<subseteq> set m" using arg_cong [OF split, of set_mset] by auto
    ultimately show ?thesis by simp
  qed
  then show "distinct (map fst (swap_remove k m))" and "k \<notin> fst ` set (swap_remove k m)" and "set (swap_remove k m) \<subseteq> set m"
    by simp_all
qed

lemma sum_split: "mset xs = add_mset x (mset ys) \<Longrightarrow> (\<Sum>y\<leftarrow>xs. f y) = f x + (\<Sum>y\<leftarrow>ys. (f y :: nat))"
  by (simp flip: sum_mset_sum_list add: mset_map)

text \<open>Removing a key from a mapping without tags.\<close>

lemma swap_remove_plain:
  assumes "plain (YMapping m)"
  shows "plain (YMapping (swap_remove k m))" and "references (YMapping (swap_remove k m)) \<le> references (YMapping m)"
proof -
  show "plain (YMapping (swap_remove k m))" using assms swap_remove_keys [of m k] by auto
  show "references (YMapping (swap_remove k m)) \<le> references (YMapping m)"
  proof (cases "map_of m k")
    case (Some v)
    then show ?thesis using assms sum_split [OF swap_remove_get [OF Some], of entry_references] by simp
  qed (simp add: swap_remove_missing)
qed

lemma clean_item_plain:
  assumes "plain (YMapping m)"
  shows "plain (clean_item m)" and "references (clean_item m) \<le> references (YMapping m)"
  unfolding clean_item_def by (meson assms swap_remove_plain le_trans)+

lemma remove_at_split: "i < length xs \<Longrightarrow> mset xs = add_mset (xs ! i) (mset (remove_at i xs))"
  unfolding remove_at_def by (subst (1) id_take_nth_drop [of i xs]) simp_all

section \<open>Overlays add up\<close>

lemma hm_put_fresh: "k \<notin> fst ` set m \<Longrightarrow> hm_put k v m = m @ [(k, v)]"
  by (induction m) (auto simp: hm_put_def)

lemma merged_string: "merge_yaml ctx b ov = Inr (YString s) \<Longrightarrow> ov = YString s"
  by (cases "(ctx, b, ov)" rule: merge_yaml.cases) (auto simp: Let_def split: if_splits)

lemma plain_mapping: "plain v \<Longrightarrow> as_mapping v = Some m \<Longrightarrow> v = YMapping m"
  by (cases v) simp_all

lemma item_taken:
  assumes "position P vs = Some p" and "plain (YSequence vs)"
  shows "plain (vs ! p)" and "plain (YSequence (remove_at p vs))"
    and "references (YSequence vs) = references (vs ! p) + references (YSequence (remove_at p vs))"
proof -
  have p: "p < length vs" using position_Some [OF assms(1)] by simp
  note split = remove_at_split [OF p]
  show "plain (vs ! p)" using assms(2) p by simp
  have "set (remove_at p vs) \<subseteq> set vs" using arg_cong [OF split, of set_mset] by auto
  then show "plain (YSequence (remove_at p vs))" using assms(2) by auto
  show "references (YSequence vs) = references (vs ! p) + references (YSequence (remove_at p vs))"
    using sum_split [OF split, of references] by simp
qed

lemma item_placed:
  assumes "plain v" and "plain (YSequence vs)"
  shows "plain (YSequence (insert_at t v vs))" and "references (YSequence (insert_at t v vs)) = references v + references (YSequence vs)"
  using assms sum_split [OF mset_insert_at, of references t v vs] by simp_all

lemma put_entry:
  assumes "plain (YMapping m)" and "plain merged"
    and "entry_references (k, merged) \<le> (case hm_get m k of Some v \<Rightarrow> references v | None \<Rightarrow> 0) + entry_references (k, new)"
  shows "plain (YMapping (hm_put k merged (swap_remove k m)))"
    and "references (YMapping (hm_put k merged (swap_remove k m))) \<le> references (YMapping m) + entry_references (k, new)"
proof -
  note keys = swap_remove_keys [of m k] and put = hm_put_fresh [of k "swap_remove k m" merged]
  show "plain (YMapping (hm_put k merged (swap_remove k m)))"
    using assms(1,2) keys put swap_remove_plain(1) [OF assms(1), of k] by auto
  show "references (YMapping (hm_put k merged (swap_remove k m))) \<le> references (YMapping m) + entry_references (k, new)"
  proof (cases "map_of m k")
    case None
    then show ?thesis using assms keys put by (simp add: swap_remove_missing)
  next
    case (Some v)
    then show ?thesis using assms keys put sum_split [OF swap_remove_get [OF Some], of entry_references] by simp
  qed
qed

lemma merge_items_keyed:
  assumes "merge_items ctx bs (item # rest) = Inr vs"
  shows "\<exists>i m. item_id item = Some i \<and> as_mapping item = Some m"
proof (rule ccontr)
  assume "\<not> ?thesis"
  then have "merge_items ctx bs (item # rest) = Inl (''mixed keyed and unkeyed collection in '' @ ctx)"
    by (cases "item_id item"; cases "as_mapping item") (simp_all only: merge_items.simps prod.case option.case, simp_all)
  then show False using assms by simp
qed

lemma merge_items_remove:
  assumes "merge_items ctx bs (item # rest) = Inr vs" and "item_id item = Some i" and "as_mapping item = Some m" and "removes m"
  shows "\<exists>p. position (with_id i) bs = Some p \<and> merge_items ctx (remove_at p bs) rest = Inr vs"
  using assms(1) by (cases "position (with_id i) bs") (simp_all only: merge_items.simps assms(2-4) prod.case option.case Let_def if_True, simp_all)

lemma merge_items_put:
  assumes "merge_items ctx bs (item # rest) = Inr vs" and "item_id item = Some i" and "as_mapping item = Some m" and "\<not> removes m"
    and left: "left = (case position (with_id i) bs of Some p \<Rightarrow> remove_at p bs | None \<Rightarrow> bs)"
  shows "\<exists>w t. (case position (with_id i) bs of Some p \<Rightarrow> merge_yaml ctx (bs ! p) (clean_item m) | None \<Rightarrow> Inr (clean_item m)) = Inr w
    \<and> merge_items ctx (insert_at t w left) rest = Inr vs"
  using assms(1) unfolding merge_items.simps assms(2,3) prod.case option.case Let_def if_not_P [OF assms(4)] ebind_Inr left [symmetric]
  by blast

lemma merge_references:
  "merge_yaml ctx b ov = Inr v \<Longrightarrow> plain b \<Longrightarrow> plain ov
    \<Longrightarrow> plain v \<and> references v \<le> references b + references ov"
  "merge_entries ctx bm om = Inr m \<Longrightarrow> plain (YMapping bm) \<Longrightarrow> (\<forall>e\<in>set om. plain (snd e))
    \<Longrightarrow> plain (YMapping m) \<and> references (YMapping m) \<le> references (YMapping bm) + references (YMapping om)"
  "merge_items ctx bs os = Inr vs \<Longrightarrow> plain (YSequence bs) \<Longrightarrow> plain (YSequence os)
    \<Longrightarrow> plain (YSequence vs) \<and> references (YSequence vs) \<le> references (YSequence bs) + references (YSequence os)"
proof (induction ctx b ov and ctx bm om and ctx bs os arbitrary: v and m and vs
    rule: merge_yaml_merge_entries_merge_items.induct)
  case (1 ctx bm om)
  then obtain m where m: "merge_entries ctx bm om = Inr m" "v = YMapping m" by auto
  have "\<forall>e\<in>set om. plain (snd e)" using "1.prems"(3) by simp
  from "1.IH" [OF m(1) "1.prems"(2) this] show ?case using m(2) by simp
next
  case (2 ctx bs os)
  show ?case
  proof (cases "is_keyed_collection bs \<or> is_keyed_collection os")
    case True
    with 2 show ?thesis by (auto split: if_splits)
  qed (use 2 in auto)
next
  case (5 ctx bm key new rest)
  let ?merged = "case hm_get bm key of Some existing \<Rightarrow> merge_yaml ctx existing new | None \<Rightarrow> Inr new"
  obtain w where w: "?merged = Inr w" and rest: "merge_entries ctx (hm_put key w (swap_remove key bm)) rest = Inr m"
    using "5.prems"(1) by auto
  have step: "plain w \<and> references w \<le> (case hm_get bm key of Some v \<Rightarrow> references v | None \<Rightarrow> 0) + references new"
  proof (cases "hm_get bm key")
    case (Some v)
    then have "plain v" using "5.prems"(2) map_of_SomeD by fastforce
    then show ?thesis using "5.IH"(1) [OF Some, of w] Some w "5.prems"(3) by simp
  qed (use w "5.prems" in simp)
  moreover have "is_reference (key, w) \<Longrightarrow> is_reference (key, new)"
    using w by (auto simp: is_reference_iff split: option.splits dest: merged_string)
  ultimately have "entry_references (key, w) \<le> (case hm_get bm key of Some v \<Rightarrow> references v | None \<Rightarrow> 0) + entry_references (key, new)"
    by auto
  from put_entry [OF "5.prems"(2) _ this] show ?case
    using "5.IH"(2) [OF rest] step "5.prems"(3) by simp
next
  case (7 ctx bs item rest)
  obtain i mm where i: "item_id item = Some i" and item: "as_mapping item = Some mm"
    using merge_items_keyed [OF "7.prems"(1)] by blast
  have itm: "item = YMapping mm" using plain_mapping item "7.prems"(3) by simp
  have clean: "plain (clean_item mm)" "references (clean_item mm) \<le> references item"
    using clean_item_plain [of mm] "7.prems"(3) itm by simp_all
  have more: "plain (YSequence rest)" using "7.prems"(3) by simp
  show ?case
  proof (cases "removes mm")
    case True
    then obtain p where p: "position (with_id i) bs = Some p" and rest: "merge_items ctx (remove_at p bs) rest = Inr vs"
      using merge_items_remove [OF "7.prems"(1) i item] by blast
    from "7.IH"(1) [OF refl i item refl True p rest item_taken(2) [OF p "7.prems"(2)] more]
    show ?thesis using item_taken(3) [OF p "7.prems"(2)] by simp
  next
    case False
    define left where "left = (case position (with_id i) bs of None \<Rightarrow> bs | Some p \<Rightarrow> remove_at p bs)"
    obtain w t where w: "(case position (with_id i) bs of Some p \<Rightarrow> merge_yaml ctx (bs ! p) (clean_item mm) | None \<Rightarrow> Inr (clean_item mm)) = Inr w"
      and rest: "merge_items ctx (insert_at t w left) rest = Inr vs"
      using merge_items_put [OF "7.prems"(1) i item False left_def] by blast
    have "plain w \<and> plain (YSequence left) \<and> references w + references (YSequence left) \<le> references (YSequence bs) + references item"
    proof (cases "position (with_id i) bs")
      case (Some p)
      have "plain w \<and> references w \<le> references (bs ! p) + references (clean_item mm)"
        using "7.IH"(2) [OF refl i item refl False refl Some _ item_taken(1) [OF Some "7.prems"(2)] clean(1)] w Some by simp
      then show ?thesis using item_taken [OF Some "7.prems"(2)] Some clean(2) by (simp add: left_def)
    qed (use w clean "7.prems"(2) in \<open>simp add: left_def\<close>)
    moreover from this have placed: "plain (YSequence (insert_at t w left))"
      "references (YSequence (insert_at t w left)) = references w + references (YSequence left)"
      using item_placed [of w left t] by simp_all
    ultimately show ?thesis using "7.IH"(3) [OF refl i item refl False left_def rest placed(1) more] placed(2) by simp
  qed
qed (auto)

section \<open>Expansion\<close>

lemma obind_Some: "obind r f = Some y \<longleftrightarrow> (\<exists>e. r = Some (Inl e) \<and> y = Inl e) \<or> (\<exists>x. r = Some (Inr x) \<and> f x = Some y)"
  by (auto simp: obind_def split: option.splits sum.splits)

lemma expand_values_mono:
  assumes "\<And>v r. f v = Some r \<Longrightarrow> g v = Some r"
  shows "expand_values f vs = Some r \<Longrightarrow> expand_values g vs = Some r"
proof (induction vs arbitrary: r)
  case (Cons v vs)
  then show ?case using assms by (auto simp: obind_Some)
qed simp

lemma expand_entries_mono:
  assumes "\<And>v r. f v = Some r \<Longrightarrow> g v = Some r"
  shows "expand_entries f m = Some r \<Longrightarrow> expand_entries g m = Some r"
  using expand_values_mono [of f g, OF assms] by (auto simp: expand_entries_def obind_Some)

lemma expand_mapping:
  "expand_presets (Suc n) presets (YMapping m) stack =
     obind (case preset_name m of
              None \<Rightarrow> Some (Inr m)
            | Some name \<Rightarrow>
                obind (Some (push_resolution (preset_token name) stack)) (\<lambda>stack.
                obind (Some (ok_or (map_of presets name) (''unknown preset: '' @ name))) (\<lambda>preset.
                obind (expand_presets n presets preset stack) (\<lambda>preset.
                Some (overlay_preset name preset m))))) (\<lambda>expanded.
     obind (expand_entries (\<lambda>w. expand_presets n presets w stack) expanded) (\<lambda>entries. Some (Inr (YMapping entries))))"
  by simp

lemma expand_sequence:
  "expand_presets (Suc n) presets (YSequence vs) stack =
     obind (expand_values (\<lambda>w. expand_presets n presets w stack) vs) (\<lambda>ws. Some (Inr (YSequence ws)))"
  by simp

lemma expand_Suc: "expand_presets n presets v stack = Some r \<Longrightarrow> expand_presets (Suc n) presets v stack = Some r"
proof (induction n arbitrary: v stack r)
  case (Suc n)
  let ?f = "\<lambda>k w. expand_presets k presets w stack"
  note vals = expand_values_mono [of "?f n" "?f (Suc n)", OF Suc.IH]
    and ents = expand_entries_mono [of "?f n" "?f (Suc n)", OF Suc.IH]
  show ?case
  proof (cases v)
    case (YSequence vs)
    show ?thesis using Suc.prems vals unfolding YSequence expand_sequence [of "Suc n"] expand_sequence [of n]
      by (auto simp: obind_Some simp del: expand_presets.simps(2))
  next
    case (YMapping m)
    show ?thesis
    proof (cases "preset_name m")
      case None
      then show ?thesis using Suc.prems ents unfolding YMapping expand_mapping [of "Suc n"] expand_mapping [of n]
        by (auto simp: obind_Some simp del: expand_presets.simps(2))
    next
      case (Some name)
      then show ?thesis using Suc.prems Suc.IH ents unfolding YMapping expand_mapping [of "Suc n"] expand_mapping [of n]
        by (auto simp: obind_Some simp del: expand_presets.simps(2))
    qed
  qed (use Suc.prems in auto)
qed simp

lemma expand_mono:
  assumes "expand_presets n presets v stack = Some r" and "n \<le> k"
  shows "expand_presets k presets v stack = Some r"
  using assms(2) by (induction k rule: dec_induct) (simp_all only: assms(1) expand_Suc)

lemma preset_name_iff:
  assumes "plain (YMapping m)"
  shows "preset_name m = Some name \<longleftrightarrow> (YString ''preset'', YString name) \<in> set m"
proof -
  have str: "plain v \<Longrightarrow> yaml_str v = Some name \<longleftrightarrow> v = YString name" for v by (cases v) simp_all
  have "preset_name m = Some name \<longleftrightarrow> (\<exists>v. map_of m (YString ''preset'') = Some v \<and> yaml_str v = Some name)"
    unfolding preset_name_def by (cases "map_of m (YString ''preset'')") simp_all
  also have "\<dots> \<longleftrightarrow> map_of m (YString ''preset'') = Some (YString name)"
    using assms str by (metis map_of_SomeD plain.simps(1) snd_conv)
  finally show ?thesis using assms by simp
qed

lemma preset_name_None:
  assumes "plain (YMapping m)" and "preset_name m = None"
  shows "e \<in> set m \<Longrightarrow> \<not> is_reference e"
  using assms preset_name_iff [OF assms(1)] by (cases e) (auto simp: is_reference_iff)

lemma overlay_preset_plain:
  assumes "overlay_preset name preset m = Inr r" and "plain preset" and "references preset = 0" and "plain (YMapping m)"
    and "preset_name m = Some name"
  shows "plain (YMapping r)" and "references (YMapping r) < references (YMapping m)"
proof -
  let ?rest = "swap_remove (YString ''preset'') m"
  obtain v where v: "merge_yaml (''preset '' @ name) preset (YMapping ?rest) = Inr v" "as_mapping v = Some r"
    using assms(1) by (auto simp: overlay_preset_def)
  have plain: "plain (YMapping ?rest)" by (rule swap_remove_plain(1) [OF assms(4)])
  have merged: "plain v \<and> references v \<le> references preset + references (YMapping ?rest)"
    by (rule merge_references(1) [OF v(1) assms(2) plain])
  then have v': "v = YMapping r" using plain_mapping v(2) by blast
  show "plain (YMapping r)" using merged v' by simp
  have "(YString ''preset'', YString name) \<in> set m" using assms(4,5) preset_name_iff by blast
  then have "map_of m (YString ''preset'') = Some (YString name)" using assms(4) by simp
  from sum_split [OF swap_remove_get [OF this], of entry_references] assms(4)
  have "references (YMapping m) = Suc (references (YMapping ?rest))" by simp
  then show "references (YMapping r) < references (YMapping m)" using merged v' assms(3) by simp
qed

lemma expand_values_all: "expand_values f vs = Some (Inr ws) \<longleftrightarrow> list_all2 (\<lambda>v w. f v = Some (Inr w)) vs ws"
proof (induction vs arbitrary: ws)
  case (Cons v vs)
  then show ?case by (cases ws) auto
qed auto

lemma merge_entries_other:
  "merge_entries ctx b om = Inr m \<Longrightarrow> k \<notin> fst ` set om \<Longrightarrow> distinct (map fst b) \<Longrightarrow> map_of m k = map_of b k"
proof (induction om arbitrary: b)
  case (Cons e om)
  obtain key new where e: "e = (key, new)" by fastforce
  then obtain w where rest: "merge_entries ctx (hm_put key w (swap_remove key b)) om = Inr m" using Cons.prems(1) by auto
  note keys = swap_remove_keys [OF Cons.prems(3), of key]
  have put: "hm_put key w (swap_remove key b) = swap_remove key b @ [(key, w)]" using keys(2) by (rule hm_put_fresh)
  have "map_of (swap_remove key b) k = map_of b k"
  proof (cases "map_of b key")
    case (Some v)
    have "set b = insert (key, v) (set (swap_remove key b))"
      using arg_cong [OF swap_remove_get [OF Some Cons.prems(3)], of set_mset] by simp
    then have "map_of b k = Some x \<longleftrightarrow> map_of (swap_remove key b) k = Some x" for x
      using Cons.prems(2,3) keys(1) e by auto
    then show ?thesis by (metis not_Some_eq)
  qed (simp add: swap_remove_missing)
  then show ?case using Cons.IH [OF rest] Cons.prems(2) keys e put by (simp add: map_add_def split: option.split)
qed simp

lemma overlay_consumes:
  assumes "overlay_preset name preset m = Inr r" and "plain preset" and "references preset = 0" and "plain (YMapping m)"
    and "preset_name m = Some name"
  shows "preset_name r = None"
proof -
  let ?rest = "swap_remove (YString ''preset'') m"
  have r: "plain (YMapping r)" by (rule overlay_preset_plain(1) [OF assms])
  obtain v where v: "merge_yaml (''preset '' @ name) preset (YMapping ?rest) = Inr v" "as_mapping v = Some r"
    using assms(1) by (auto simp: overlay_preset_def)
  have rest: "YString ''preset'' \<notin> fst ` set ?rest" using swap_remove_keys(2) [of m] assms(4) by simp
  have "(YString ''preset'', YString s) \<notin> set r" for s
  proof (cases "\<exists>b. preset = YMapping b")
    case True
    then obtain b where b: "preset = YMapping b" by blast
    then have "merge_entries (''preset '' @ name) b ?rest = Inr r" using v by auto
    then have "map_of r (YString ''preset'') = map_of b (YString ''preset'')"
      using merge_entries_other rest assms(2) b by simp
    moreover have "(YString ''preset'', YString s) \<notin> set b" using assms(3) b by (fastforce simp: is_reference_iff)
    ultimately show ?thesis using r assms(2) b by (metis map_of_is_SomeI map_of_SomeD plain.simps(1))
  next
    case False
    then have "v = YMapping ?rest" using v(1) by (cases preset) auto
    then show ?thesis using v(2) rest by force
  qed
  then show ?thesis using preset_name_iff [OF r] by (metis not_Some_eq)
qed

lemma expand_entries_plain:
  assumes "expand_entries f r = Some (Inr es)" and "plain (YMapping r)" and "preset_name r = None"
    and "\<And>v w. v \<in> snd ` set r \<Longrightarrow> f v = Some (Inr w) \<Longrightarrow> plain w \<and> references w = 0 \<and> ((\<exists>s. w = YString s) \<longrightarrow> w = v)"
  shows "plain (YMapping es) \<and> references (YMapping es) = 0"
proof -
  obtain ws where ws: "list_all2 (\<lambda>v w. f v = Some (Inr w)) (map snd r) ws" and es: "es = zip (map fst r) ws"
    using assms(1) by (auto simp: expand_entries_def expand_values_all)
  have len: "length ws = length r" using list_all2_lengthD [OF ws] by simp
  have "plain (snd e) \<and> entry_references e = 0" if e: "e \<in> set es" for e
  proof -
    obtain i where i: "i < length r" "e = (fst (r ! i), ws ! i)" using e len unfolding es by (auto simp: in_set_conv_nth)
    have "f (snd (r ! i)) = Some (Inr (ws ! i))" using list_all2_nthD2 [OF ws] i(1) len by simp
    moreover have "snd (r ! i) \<in> snd ` set r" using i(1) by simp
    ultimately have w: "plain (ws ! i)" "references (ws ! i) = 0" "(\<exists>s. ws ! i = YString s) \<longrightarrow> ws ! i = snd (r ! i)"
      using assms(4) by blast+
    have "\<not> is_reference (r ! i)" using preset_name_None [OF assms(2,3)] i(1) by simp
    then have "\<not> is_reference e" using w(3) i(2) by (cases "r ! i") (auto simp: is_reference_iff)
    then show ?thesis using w i(2) by simp
  qed
  moreover have "distinct (map fst es)" using assms(2) len unfolding es by simp
  ultimately show ?thesis by simp
qed

lemma expand_plain:
  assumes "\<forall>e\<in>set presets. plain (snd e)"
  shows "expand_presets n presets v stack = Some (Inr w) \<Longrightarrow> plain v
    \<Longrightarrow> plain w \<and> references w = 0 \<and> ((\<exists>s. w = YString s) \<longrightarrow> w = v)"
proof (induction n arbitrary: v stack w)
  case (Suc n)
  show ?case
  proof (cases v)
    case (YSequence vs)
    then obtain ws where ws: "list_all2 (\<lambda>v w. expand_presets n presets v stack = Some (Inr w)) vs ws" "w = YSequence ws"
      using Suc.prems(1) by (auto simp: expand_values_all)
    then have "plain u \<and> references u = 0" if "u \<in> set ws" for u
      using that Suc.IH Suc.prems(2) YSequence by (fastforce simp: list_all2_conv_all_nth in_set_conv_nth)
    then show ?thesis using ws(2) by simp
  next
    case (YMapping m)
    have m: "plain (YMapping m)" using Suc.prems(2) YMapping by simp
    have "\<exists>r es. plain (YMapping r) \<and> preset_name r = None \<and> w = YMapping es
      \<and> expand_entries (\<lambda>w. expand_presets n presets w stack) r = Some (Inr es)"
    proof (cases "preset_name m")
      case None
      then show ?thesis using Suc.prems YMapping by auto
    next
      case (Some name)
      then obtain raw preset stack' r es where raw: "map_of presets name = Some raw" "expand_presets n presets raw stack' = Some (Inr preset)"
        and r: "overlay_preset name preset m = Inr r" and es: "expand_entries (\<lambda>w. expand_presets n presets w stack) r = Some (Inr es)"
        and w: "w = YMapping es"
        using Suc.prems(1) YMapping by auto
      have "plain raw" using raw(1) assms map_of_SomeD by fastforce
      then have "plain preset" "references preset = 0" using Suc.IH [OF raw(2)] by simp_all
      then show ?thesis using overlay_preset_plain(1) [OF r] overlay_consumes [OF r] m Some es w by blast
    qed
    then obtain r es where r: "plain (YMapping r)" "preset_name r = None" and w: "w = YMapping es"
      and es: "expand_entries (\<lambda>w. expand_presets n presets w stack) r = Some (Inr es)" by blast
    have "plain (YMapping es) \<and> references (YMapping es) = 0"
      by (rule expand_entries_plain [OF es r], rule Suc.IH) (use r(1) in auto)
    then show ?thesis using w by simp
  qed (use Suc.prems in auto)
qed simp

section \<open>Expansion ends\<close>

lemma values_fuel:
  assumes "\<And>v. v \<in> set vs \<Longrightarrow> \<exists>n r. expand_presets n presets v stack = Some r"
  shows "\<exists>n r. expand_values (\<lambda>v. expand_presets n presets v stack) vs = Some r"
  using assms
proof (induction vs)
  case (Cons v vs)
  then obtain n r k s where n: "expand_presets n presets v stack = Some r"
    and k: "expand_values (\<lambda>v. expand_presets k presets v stack) vs = Some s"
    by (metis list.set_intros(1,2))
  let ?n = "max n k"
  have "expand_presets ?n presets v stack = Some r" by (rule expand_mono [OF n]) simp
  moreover have "expand_values (\<lambda>v. expand_presets ?n presets v stack) vs = Some s"
    by (rule expand_values_mono [OF _ k]) (erule expand_mono, simp)
  ultimately have "\<exists>t. expand_values (\<lambda>v. expand_presets ?n presets v stack) (v # vs) = Some t"
    by (cases r; cases s) (simp_all add: obind_def)
  then show ?case by blast
qed simp

lemma entries_fuel:
  assumes "\<And>v. v \<in> snd ` set m \<Longrightarrow> \<exists>n r. expand_presets n presets v stack = Some r"
  shows "\<exists>n r. expand_entries (\<lambda>v. expand_presets n presets v stack) m = Some r"
proof -
  obtain n r where "expand_values (\<lambda>v. expand_presets n presets v stack) (map snd m) = Some r"
    using values_fuel [of "map snd m" presets stack] assms by auto
  then have "\<exists>s. expand_entries (\<lambda>v. expand_presets n presets v stack) m = Some s"
    by (cases r) (simp_all add: expand_entries_def obind_def)
  then show ?thesis by blast
qed

lemma mapping_ends:
  assumes start: "(case preset_name m of
              None \<Rightarrow> Some (Inr m)
            | Some name \<Rightarrow>
                obind (Some (push_resolution (preset_token name) stack)) (\<lambda>stack.
                obind (Some (ok_or (map_of presets name) (''unknown preset: '' @ name))) (\<lambda>preset.
                obind (expand_presets k presets preset stack) (\<lambda>preset.
                Some (overlay_preset name preset m))))) = Some start"
    and entries: "\<And>r v. start = Inr r \<Longrightarrow> v \<in> snd ` set r \<Longrightarrow> \<exists>n r. expand_presets n presets v stack = Some r"
  shows "\<exists>n r. expand_presets n presets (YMapping m) stack = Some r"
proof -
  let ?start = "\<lambda>n. case preset_name m of
              None \<Rightarrow> Some (Inr m)
            | Some name \<Rightarrow>
                obind (Some (push_resolution (preset_token name) stack)) (\<lambda>stack.
                obind (Some (ok_or (map_of presets name) (''unknown preset: '' @ name))) (\<lambda>preset.
                obind (expand_presets n presets preset stack) (\<lambda>preset.
                Some (overlay_preset name preset m))))"
  have later: "?start n = Some start" if n: "k \<le> n" for n
    using start expand_mono [OF _ n] by (auto simp: obind_Some split: option.splits)
  show ?thesis
  proof (cases start)
    case (Inl e)
    then have "expand_presets (Suc k) presets (YMapping m) stack = Some (Inl e)"
      unfolding expand_mapping later [OF order_refl] by (simp add: obind_def)
    then show ?thesis by blast
  next
    case (Inr r)
    then obtain n s where s: "expand_entries (\<lambda>v. expand_presets n presets v stack) r = Some s"
      using entries_fuel [of r presets stack] entries by blast
    have "expand_entries (\<lambda>v. expand_presets (max k n) presets v stack) r = Some s"
      by (rule expand_entries_mono [OF _ s]) (erule expand_mono, simp)
    then have "\<exists>t. expand_presets (Suc (max k n)) presets (YMapping m) stack = Some t"
      unfolding expand_mapping later [OF max.cobounded1] Inr by (cases s) (simp_all add: obind_def)
    then show ?thesis by blast
  qed
qed

lemma entry_smaller:
  assumes "v \<in> snd ` set m"
  shows "references v \<le> references (YMapping m)" and "size v < size (YMapping m)"
proof -
  obtain k where e: "(k, v) \<in> set m" using assms by force
  have "entry_references (k, v) \<le> (\<Sum>e\<leftarrow>m. entry_references e)" using imageI [OF e, of entry_references] by (intro member_le_sum_list) simp_all
  then show "references v \<le> references (YMapping m)" by simp
  show "size v < size (YMapping m)" using size_list_estimation' [OF e, of "size v" "size_prod size size"] by simp
qed

lemma expand_ends:
  assumes presets: "\<forall>e\<in>set presets. plain (snd e)"
  shows "plain v \<Longrightarrow> \<exists>n r. expand_presets n presets v stack = Some r"
proof (induction "(card (known_tokens preset_token presets - set stack), references v, size v)" arbitrary: v stack
    rule: wf_induct_rule [OF wf_lex_prod [OF wf_less_than wf_lex_prod [OF wf_less_than wf_less_than]]])
  case (1 v stack)
  let ?open = "\<lambda>stack. card (known_tokens preset_token presets - set stack)"
  let ?less = "less_than <*lex*> less_than <*lex*> less_than"
  show ?case
  proof (cases v)
    case (YSequence vs)
    have "\<exists>n r. expand_presets n presets u stack = Some r" if u: "u \<in> set vs" for u
    proof (rule "1.hyps")
      have "references u \<le> (\<Sum>w\<leftarrow>vs. references w)" using u by (intro member_le_sum_list) auto
      moreover have "size u < size v" using size_list_estimation' [OF u, of "size u" size] YSequence by simp
      ultimately show "((?open stack, references u, size u), ?open stack, references v, size v) \<in> ?less"
        using YSequence by auto
      show "plain u" using "1.prems" YSequence u by simp
    qed
    then obtain n r where "expand_values (\<lambda>v. expand_presets n presets v stack) vs = Some r" using values_fuel by blast
    then have "\<exists>s. expand_presets (Suc n) presets v stack = Some s"
      unfolding YSequence expand_sequence by (cases r) (simp_all add: obind_def)
    then show ?thesis by blast
  next
    case (YMapping m)
    have m: "plain (YMapping m)" using "1.prems" YMapping by simp
    show ?thesis
    proof (cases "preset_name m")
      case None
      have "\<exists>n r. expand_presets n presets u stack = Some r" if u: "u \<in> snd ` set m" for u
        using entry_smaller [OF u] m u YMapping by (intro "1.hyps") auto
      then show ?thesis unfolding YMapping by (intro mapping_ends [of m stack presets 0 "Inr m"]) (simp_all add: None)
    next
      case (Some name)
      show ?thesis
      proof (cases "preset_token name \<notin> set stack \<and> map_of presets name \<noteq> None")
        case True
        let ?stack = "stack @ [preset_token name]"
        obtain raw where raw: "map_of presets name = Some raw" and fresh: "preset_token name \<notin> set stack" using True by blast
        have pushed: "push_resolution (preset_token name) stack = Inr ?stack" using fresh by (simp add: push_resolution_Inr)
        have known: "preset_token name \<in> known_tokens preset_token presets"
          using map_of_SomeD [OF raw] by (force simp: known_tokens_def)
        have plain: "plain raw" using presets map_of_SomeD [OF raw] by fastforce
        have "\<exists>n r. expand_presets n presets raw ?stack = Some r"
          using card_pushed [OF known_tokens_finite known fresh] plain by (intro "1.hyps") simp_all
        then obtain n r where r: "expand_presets n presets raw ?stack = Some r" by blast
        show ?thesis
        proof (cases r)
          case (Inl e)
          then show ?thesis unfolding YMapping
            by (intro mapping_ends [of m stack presets n "Inl e"]) (use Some pushed raw r in \<open>simp_all add: obind_def ok_or_def\<close>)
        next
          case (Inr preset)
          have preset: "plain preset" "references preset = 0" using expand_plain [OF presets] r Inr plain by blast+
          show ?thesis unfolding YMapping
          proof (rule mapping_ends [of m stack presets n "overlay_preset name preset m"])
            fix entries u assume over: "overlay_preset name preset m = Inr entries" and u: "u \<in> snd ` set entries"
            show "\<exists>n r. expand_presets n presets u stack = Some r"
              using overlay_preset_plain [OF over preset m Some] entry_smaller(1) [OF u] u YMapping by (intro "1.hyps") auto
          qed (use Some pushed raw r Inr in \<open>simp add: obind_def ok_or_def\<close>)
        qed
      next
        case False
        then have "\<exists>e. obind (Some (push_resolution (preset_token name) stack)) (\<lambda>stack.
          obind (Some (ok_or (map_of presets name) (''unknown preset: '' @ name))) (\<lambda>preset.
          obind (expand_presets 0 presets preset stack) (\<lambda>preset. Some (overlay_preset name preset m)))) = Some (Inl e)"
          by (cases "push_resolution (preset_token name) stack"; cases "map_of presets name")
            (auto simp: obind_def ok_or_def dest: push_resolution_Inr [THEN iffD1])
        then obtain e where "obind (Some (push_resolution (preset_token name) stack)) (\<lambda>stack.
          obind (Some (ok_or (map_of presets name) (''unknown preset: '' @ name))) (\<lambda>preset.
          obind (expand_presets 0 presets preset stack) (\<lambda>preset. Some (overlay_preset name preset m)))) = Some (Inl e)" by blast
        then show ?thesis unfolding YMapping by (intro mapping_ends [of m stack presets 0 "Inl e"]) (simp_all add: Some)
      qed
    qed
  next
    case (YTagged t w)
    then show ?thesis using "1.prems" by simp
  qed (rule exI [of _ "Suc 0"], simp)+
qed

section \<open>Loading ends\<close>

definition plain_catalog :: "catalog \<Rightarrow> bool" where
  "plain_catalog cat \<longleftrightarrow> (\<forall>e\<in>set (cat_presets cat @ cat_profiles cat @ cat_contests cat). plain (snd e))"

lemma reference_plain:
  assumes "reference_body bodies kind i = Inr m" and "\<forall>e\<in>set bodies. plain (snd e)"
  shows "plain (YMapping m)"
proof -
  obtain v where v: "map_of bodies i = Some v" "as_mapping v = Some m" using assms(1) by (auto simp: reference_body_def)
  then have "plain v" using assms(2) map_of_SomeD by fastforce
  then show ?thesis using plain_mapping v(2) by metis
qed

lemma overlaid_plain: "overlaid ctx v ws = Inr u \<Longrightarrow> plain v \<Longrightarrow> \<forall>w\<in>set ws. plain w \<Longrightarrow> plain u"
proof (induction ws arbitrary: v)
  case (Cons w ws)
  then obtain x where "merge_yaml ctx v w = Inr x" "overlaid ctx x ws = Inr u" by auto
  then show ?case using Cons merge_references(1) by fastforce
qed simp

lemma list_all2_each: "list_all2 P xs ys \<Longrightarrow> (\<And>x y. P x y \<Longrightarrow> Q y) \<Longrightarrow> \<forall>y\<in>set ys. Q y"
  by (induction rule: list_all2_induct) auto

lemma profile_plain:
  assumes "plain_catalog cat"
  shows "profile_value cat n i v \<Longrightarrow> plain v"
proof (induction n i v rule: profile_value.induct)
  case (Profile i m ps n vs v)
  have "plain (YMapping m)" using reference_plain [OF Profile.hyps(1)] assms by (simp add: plain_catalog_def)
  then have "plain (own_profile m)" unfolding own_profile_def by (rule swap_remove_plain(1))
  moreover have "\<forall>w\<in>set vs. plain w" using list_all2_each [OF Profile.IH] by blast
  ultimately show ?case using overlaid_plain [OF Profile.hyps(3)] by simp
qed

lemma own_contest_plain: "plain (YMapping m) \<Longrightarrow> plain (own_contest m)"
  unfolding own_contest_def by (meson swap_remove_plain(1))

lemma contest_plain:
  assumes "plain_catalog cat"
  shows "contest_value cat n i v \<Longrightarrow> plain v"
proof (induction n i v rule: contest_value.induct)
  case (Root i m ps k vs v n)
  have "plain (own_contest m)" using reference_plain [OF Root.hyps(1)] assms own_contest_plain by (simp add: plain_catalog_def)
  moreover have "\<forall>w\<in>set vs. plain w"
    using list_all2_each [OF Root.hyps(4)] profile_plain [OF assms] by blast
  ultimately show ?case using overlaid_plain [OF Root.hyps(5)] by simp
next
  case (Child i m ps p k vs n w v)
  have "plain (own_contest m)" using reference_plain [OF Child.hyps(1)] assms own_contest_plain by (simp add: plain_catalog_def)
  moreover have "\<forall>w\<in>set vs. plain w"
    using list_all2_each [OF Child.hyps(4)] profile_plain [OF assms] by blast
  ultimately show ?case using overlaid_plain [OF Child.hyps(6)] Child.IH by simp
qed

lemma overlay_keeps:
  assumes "\<And>p c w c'. compose p c = Some (Inr (w, c')) \<Longrightarrow> c' = c"
  shows "overlay_profiles compose ctx ps v c = Some (Inr (u, c')) \<Longrightarrow> c' = c"
  by (induction ps arbitrary: v c) (auto dest: assms)

lemma compose_contest_ordered:
  "compose_contest n cat i cache stack = Some (Inr (v, cache')) \<Longrightarrow> bt_ok cache \<Longrightarrow> bt_ok cache'"
proof (induction n arbitrary: i cache stack v cache')
  case (Suc n)
  show ?case
  proof (cases "map_of cache i")
    case None
    let ?f = "\<lambda>p c. obind (compose_profile n cat p [] (stack @ [contest_token i])) (\<lambda>(value, _). Some (Inr (value, c)))"
    from Suc.prems(1) None obtain parent ps u u' c c' where overlay: "overlay_profiles ?f (''contest '' @ i) ps (YMapping []) cache = Some (Inr (u, c))"
      and up: "(case parent of None \<Rightarrow> Some (Inr (u, c))
          | Some p \<Rightarrow> obind (compose_contest n cat p c (stack @ [contest_token i])) (\<lambda>(resolved, cache).
              obind (Some (merge_yaml (''contest '' @ i) u resolved)) (\<lambda>value. Some (Inr (value, cache))))) = Some (Inr (u', c'))"
      and cache': "cache' = bt_put i v c'"
      by (auto simp: push_resolution_Inr)
    have "c = cache" by (rule overlay_keeps [OF _ overlay]) auto
    then have "bt_ok c'" using up Suc.IH Suc.prems(2) by (auto split: option.splits)
    then show ?thesis using cache' bt_ok_put by simp
  qed (use Suc.prems in auto)
qed simp

lemma compose_all_ordered: "compose_all n cat ids cache = Some (Inr composed) \<Longrightarrow> bt_ok cache \<Longrightarrow> bt_ok composed"
proof (induction ids arbitrary: cache)
  case (Cons i ids)
  then obtain v c where vc: "compose_contest n cat i cache [] = Some (Inr (v, c))"
    and rest: "compose_all n cat ids (bt_put i v c) = Some (Inr composed)" by auto
  show ?case by (rule Cons.IH [OF rest bt_ok_put [OF compose_contest_ordered [OF vc Cons.prems(2)]]])
qed simp

lemma composed_contests:
  assumes "compose_catalog cat = Some (Inr composed)" and "plain_catalog cat"
  shows "\<forall>e\<in>set composed. plain (snd e)" and "fst ` set (cat_contests cat) \<subseteq> fst ` set composed"
proof -
  have "contests_sound cat ({} \<union> set (map fst (cat_contests cat))) composed"
    using assms(1) unfolding compose_catalog_def by (rule compose_all_sound) simp
  then have sound: "\<And>i v. map_of composed i = Some v \<Longrightarrow> contest_composes cat i v"
    and all: "\<forall>x\<in>set (map fst (cat_contests cat)). map_of composed x \<noteq> None"
    unfolding contests_sound_def by simp_all
  have "bt_ok composed" using assms(1) unfolding compose_catalog_def by (rule compose_all_ordered) (simp add: bt_ok_def)
  then have "distinct (map fst composed)" by (simp add: bt_ok_def strict_sorted_iff)
  then show "\<forall>e\<in>set composed. plain (snd e)"
    using sound contest_plain [OF assms(2)] by (fastforce simp: contest_composes_def)
  show "fst ` set (cat_contests cat) \<subseteq> fst ` set composed" using all by (auto simp: map_of_eq_None_iff)
qed

lemma load_contest_mono:
  assumes "load_contest n parse_rules read_file presets sets i v = Some r" and "n \<le> k"
  shows "load_contest k parse_rules read_file presets sets i v = Some r"
  using assms(1) expand_mono [OF _ assms(2)] unfolding load_contest_def by (auto simp: obind_Some)

lemma load_contests_mono:
  "load_contests n parse_rules read_file presets sets composed contests = Some r \<Longrightarrow> n \<le> k
    \<Longrightarrow> load_contests k parse_rules read_file presets sets composed contests = Some r"
proof (induction composed arbitrary: contests)
  case (Cons e composed)
  then show ?case using load_contest_mono [OF _ Cons.prems(2)] by (auto simp: obind_Some)
qed simp

lemma load_rules_mono:
  assumes "load_rules n parse_set parse_rules read_file paths cat = Some r" and "n \<le> k"
  shows "load_rules k parse_set parse_rules read_file paths cat = Some r"
  using assms(1) load_contests_mono [OF _ assms(2)] unfolding load_rules_def by (auto simp: obind_Some)

lemma load_contest_ends:
  assumes "\<forall>e\<in>set presets. plain (snd e)" and "plain v"
  shows "\<exists>n r. load_contest n parse_rules read_file presets sets i v = Some r"
proof -
  obtain n r where "expand_presets n presets v [] = Some r" using expand_ends [OF assms] by blast
  then have "load_contest n parse_rules read_file presets sets i v \<noteq> None"
    using normalize_contest_ends by (auto simp: load_contest_def obind_None)
  then show ?thesis by blast
qed

lemma load_contests_ends:
  assumes "\<forall>e\<in>set presets. plain (snd e)"
  shows "\<forall>e\<in>set composed. plain (snd e)
    \<Longrightarrow> \<exists>n r. load_contests n parse_rules read_file presets sets composed contests = Some r"
proof (induction composed arbitrary: contests)
  case (Cons e composed)
  obtain n r where n: "load_contest n parse_rules read_file presets sets (fst e) (snd e) = Some r"
    using load_contest_ends [OF assms] Cons.prems by (metis list.set_intros(1))
  show ?case
  proof (cases r)
    case (Inl e)
    then show ?thesis using n by (intro exI [of _ n] exI [of _ "Inl e"]) (simp add: obind_def)
  next
    case (Inr contest)
    obtain k s where k: "load_contests k parse_rules read_file presets sets composed (bt_put (fst e) contest contests) = Some s"
      using Cons.IH Cons.prems by (metis list.set_intros(2))
    have "load_contest (max n k) parse_rules read_file presets sets (fst e) (snd e) = Some r"
      "load_contests (max n k) parse_rules read_file presets sets composed (bt_put (fst e) contest contests) = Some s"
      by (rule load_contest_mono [OF n] load_contests_mono [OF k], simp)+
    then show ?thesis using Inr by (intro exI [of _ "max n k"] exI [of _ s]) (simp add: obind_def)
  qed
qed simp

lemma load_contests_checked:
  "load_contests n parse_rules read_file presets sets composed contests = Some (Inr result)
    \<Longrightarrow> (\<forall>i c. map_of contests i = Some c \<longrightarrow> rules_id c = i \<and> validate_contest c = Inr ())
    \<Longrightarrow> (\<forall>i c. map_of result i = Some c \<longrightarrow> rules_id c = i \<and> validate_contest c = Inr ())
      \<and> (\<forall>i\<in>fst ` set composed. map_of result i \<noteq> None) \<and> (\<forall>i. map_of contests i \<noteq> None \<longrightarrow> map_of result i \<noteq> None)"
proof (induction composed arbitrary: contests)
  case (Cons e composed)
  obtain c where c: "load_contest n parse_rules read_file presets sets (fst e) (snd e) = Some (Inr c)"
    and rest: "load_contests n parse_rules read_file presets sets composed (bt_put (fst e) c contests) = Some (Inr result)"
    using Cons.prems(1) by auto
  from c obtain raw where raw: "normalize_contest read_file (fst e) raw sets = Some (Inr c)" by (auto simp: load_contest_def)
  have "rules_id c = fst e" using raw by (auto simp: normalize_contest_def normalize_with_def Let_def)
  then have "\<forall>i d. map_of (bt_put (fst e) c contests) i = Some d \<longrightarrow> rules_id d = i \<and> validate_contest d = Inr ()"
    using Cons.prems(2) normalize_checked [OF raw] by (auto simp: bt_get_put)
  from Cons.IH [OF rest this] show ?case by (auto simp: bt_get_put)
qed simp

text \<open>
  C13. A catalog without YAML tags always loads or is refused: from some fuel on, the recursion over
  contests, profiles, value sets and presets gives one result, whatever refers to whatever. When it
  loads, every contest of the catalog is there under its own id with rules that passed every check.
\<close>

theorem loading_ends:
  assumes "plain_catalog cat"
  shows "\<exists>n result. (\<forall>k\<ge>n. load_rules k parse_set parse_rules read_file paths cat = Some result)
    \<and> (\<forall>contests. result = Inr contests \<longrightarrow>
         (\<forall>i c. map_of contests i = Some c \<longrightarrow> rules_id c = i \<and> validate_contest c = Inr ())
         \<and> (\<forall>i\<in>fst ` set (cat_contests cat). map_of contests i \<noteq> None))"
proof -
  let ?load = "\<lambda>n. load_rules n parse_set parse_rules read_file paths cat"
  have presets: "\<forall>e\<in>set (cat_presets cat). plain (snd e)" using assms by (simp add: plain_catalog_def)
  have "\<exists>n r. ?load n = Some r"
  proof -
    obtain r where r: "compose_catalog cat = Some r" using resolution_ends by blast
    show ?thesis
    proof (cases "\<exists>composed raw sets. r = Inr composed \<and> parsed_value_sets parse_set (cat_value_sets cat) = Inr raw
        \<and> resolve_global_value_sets read_file raw = Some (Inr sets)")
      case True
      then obtain composed raw sets where all: "r = Inr composed" "parsed_value_sets parse_set (cat_value_sets cat) = Inr raw"
        "resolve_global_value_sets read_file raw = Some (Inr sets)" by blast
      then have "\<forall>e\<in>set composed. plain (snd e)" using composed_contests(1) r assms by blast
      then obtain n s where "load_contests n parse_rules read_file (cat_presets cat) sets composed [] = Some s"
        using load_contests_ends [OF presets] by blast
      then have "?load n \<noteq> None" using r all by (auto simp: load_rules_def obind_None)
      then show ?thesis by blast
    next
      case False
      then have "?load 0 \<noteq> None" using r resolve_global_ends by (auto simp: load_rules_def obind_None)
      then show ?thesis by blast
    qed
  qed
  then obtain n r where n: "?load n = Some r" by blast
  have stays: "\<forall>k\<ge>n. ?load k = Some r" using load_rules_mono [OF n] by simp
  have "(\<forall>i c. map_of contests i = Some c \<longrightarrow> rules_id c = i \<and> validate_contest c = Inr ())
      \<and> (\<forall>i\<in>fst ` set (cat_contests cat). map_of contests i \<noteq> None)" if r: "r = Inr contests" for contests
  proof -
    obtain composed sets where composed: "compose_catalog cat = Some (Inr composed)"
      and loaded: "load_contests n parse_rules read_file (cat_presets cat) sets composed [] = Some (Inr contests)"
      using n r by (auto simp: load_rules_def)
    have "(\<forall>i c. map_of contests i = Some c \<longrightarrow> rules_id c = i \<and> validate_contest c = Inr ())
        \<and> (\<forall>i\<in>fst ` set composed. map_of contests i \<noteq> None)"
      using load_contests_checked [OF loaded] by simp
    then show ?thesis using composed_contests(2) [OF composed assms] by blast
  qed
  with stays show ?thesis by (intro exI [of _ n] exI [of _ r] conjI allI impI) simp_all
qed

text \<open>A contest whose exchange comes from a preset; the readers know this one file.\<close>

definition preset_catalog :: catalog where
  "preset_catalog = \<lparr>cat_value_sets = [],
     cat_presets = [(''serial'', YMapping [(YString ''id'', YString ''nr''), (YString ''type'', YString ''SERIAL'')])],
     cat_profiles = [],
     cat_contests = [(''SPRINT'', YMapping [(YString ''exchange'', YSequence [YMapping [(YString ''preset'', YString ''serial''),
         (YString ''label'', YString ''Nr'')]])])]\<rparr>"

definition expanded_sprint :: yaml where
  "expanded_sprint = YMapping [(YString ''exchange'', YSequence [YMapping [(YString ''id'', YString ''nr''), (YString ''type'', YString ''SERIAL''),
     (YString ''label'', YString ''Nr'')]])]"

definition read_sprint :: "yaml \<Rightarrow> string + raw_contest_rules" where
  "read_sprint v = (if v = expanded_sprint then Inr sample_raw else Inl ''unexpected'')"

lemma loading_ends_witness:
  "\<exists>n contests c. load_rules n (\<lambda>_. Inl []) read_sprint (\<lambda>_. Inl []) [] preset_catalog = Some (Inr contests)
     \<and> map_of contests ''SPRINT'' = Some c \<and> rules_id c = ''SPRINT'' \<and> validate_contest c = Inr ()"
proof -
  have "plain_catalog preset_catalog" by (simp add: plain_catalog_def preset_catalog_def)
  from loading_ends [OF this, of "\<lambda>_. Inl []" read_sprint "\<lambda>_. Inl []" "[]"]
  obtain n r where n: "\<forall>k\<ge>n. load_rules k (\<lambda>_. Inl []) read_sprint (\<lambda>_. Inl []) [] preset_catalog = Some r"
    and r: "\<forall>contests. r = Inr contests \<longrightarrow>
       (\<forall>i c. map_of contests i = Some c \<longrightarrow> rules_id c = i \<and> validate_contest c = Inr ())
       \<and> (\<forall>i\<in>fst ` set (cat_contests preset_catalog). map_of contests i \<noteq> None)"
    by (elim exE conjE)
  have "case load_rules 5 (\<lambda>_. Inl []) read_sprint (\<lambda>_. Inl []) [] preset_catalog of
      Some (Inr contests) \<Rightarrow> map_of contests ''SPRINT'' \<noteq> None | _ \<Rightarrow> False"
    by code_simp
  then obtain contests c where run: "load_rules 5 (\<lambda>_. Inl []) read_sprint (\<lambda>_. Inl []) [] preset_catalog = Some (Inr contests)"
    and c: "map_of contests ''SPRINT'' = Some c"
    by (auto split: option.splits sum.splits)
  have "Some (Inr contests) = Some r"
    using load_rules_mono [OF run, of "max n 5"] n [rule_format, of "max n 5"] by simp
  then have "r = Inr contests" by simp
  from mp [OF spec [OF r] this] c have "rules_id c = ''SPRINT''" "validate_contest c = Inr ()" by simp_all
  with run c show ?thesis by (intro exI [of _ 5] exI [of _ contests] exI [of _ c] conjI)
qed

section \<open>Tags\<close>

text \<open>
  \<open>outer\<close> and \<open>inner\<close> are presets. The value builds on \<open>outer\<close> and its \<open>part\<close> on \<open>inner\<close>; the tagged item
  that \<open>outer\<close> has for the part refers to both in the same way.
\<close>

definition tagged_value :: yaml where
  "tagged_value = YMapping [(YString ''id'', YString ''a''), (YString ''preset'', YString ''outer''),
     (YString ''part'', YMapping [(YString ''preset'', YString ''inner'')])]"

definition outer_preset :: yaml where
  "outer_preset = YMapping [(YString ''part'', YMapping [(YString ''items'', YSequence [YTagged ''x'' tagged_value])])]"

definition inner_preset :: yaml where
  "inner_preset = YMapping [(YString ''items'', YSequence [YMapping [(YString ''id'', YString ''b'')]])]"

definition tagged_presets :: "(string \<times> yaml) list" where
  "tagged_presets =
     [(''inner'', inner_preset), (''outer'', outer_preset)]"

lemma expand_unique: "expand_presets n presets v stack = Some r \<Longrightarrow> expand_presets k presets v stack = Some s \<Longrightarrow> r = s"
  using expand_mono [of n presets v stack r "max n k"] expand_mono [of k presets v stack s "max n k"] by simp

definition inner_item :: yaml where "inner_item = YMapping [(YString ''id'', YString ''b'')]"

lemma presets_fixed:
  "expand_presets k tagged_presets outer_preset stack \<noteq> None \<Longrightarrow> expand_presets k tagged_presets outer_preset stack = Some (Inr outer_preset)"
  "expand_presets k tagged_presets inner_preset stack \<noteq> None \<Longrightarrow> expand_presets k tagged_presets inner_preset stack = Some (Inr inner_preset)"
  "expand_presets k tagged_presets inner_item stack \<noteq> None \<Longrightarrow> expand_presets k tagged_presets inner_item stack = Some (Inr inner_item)"
proof -
  have "expand_presets 4 tagged_presets v stack = Some (Inr v)" if "v \<in> {outer_preset, inner_preset, inner_item}" for v
    using that by (auto simp: numeral_eq_Suc outer_preset_def inner_preset_def inner_item_def preset_name_def expand_entries_def obind_def)
  then have "expand_presets k tagged_presets v stack \<noteq> None \<Longrightarrow> expand_presets k tagged_presets v stack = Some (Inr v)"
    if "v \<in> {outer_preset, inner_preset, inner_item}" for v
    using that expand_unique by (metis not_Some_eq)
  then show "expand_presets k tagged_presets outer_preset stack \<noteq> None \<Longrightarrow> expand_presets k tagged_presets outer_preset stack = Some (Inr outer_preset)"
    "expand_presets k tagged_presets inner_preset stack \<noteq> None \<Longrightarrow> expand_presets k tagged_presets inner_preset stack = Some (Inr inner_preset)"
    "expand_presets k tagged_presets inner_item stack \<noteq> None \<Longrightarrow> expand_presets k tagged_presets inner_item stack = Some (Inr inner_item)"
    by simp_all
qed

definition built_part :: yaml_mapping where
  "built_part = [(YString ''items'', YSequence [YTagged ''x'' tagged_value]), (YString ''preset'', YString ''inner'')]"

lemma overlays:
  "overlay_preset ''outer'' outer_preset [(YString ''id'', YString ''a''), (YString ''preset'', YString ''outer''),
     (YString ''part'', YMapping [(YString ''preset'', YString ''inner'')])]
    = Inr [(YString ''id'', YString ''a''), (YString ''part'', YMapping built_part)]"
  "overlay_preset ''inner'' inner_preset built_part
    = Inr [(YString ''items'', YSequence [inner_item, tagged_value])]"
  by code_simp+

lemma map_of_tagged [simp]: "map_of tagged_presets ''outer'' = Some outer_preset" "map_of tagged_presets ''inner'' = Some inner_preset"
  by (simp_all add: tagged_presets_def)

lemma built_part_diverges:
  assumes "\<And>j. j < k \<Longrightarrow> expand_presets j tagged_presets tagged_value [] = None"
  shows "expand_presets k tagged_presets (YMapping built_part) [] = None"
proof (cases k)
  case (Suc j)
  have "expand_presets j tagged_presets (YSequence [inner_item, tagged_value]) [] = None"
  proof (cases j)
    case (Suc i)
    have "expand_presets i tagged_presets tagged_value [] = None" using assms \<open>k = Suc j\<close> Suc by simp
    then show ?thesis
      unfolding Suc expand_sequence using presets_fixed(3) [of i "[]"]
      by (cases "expand_presets i tagged_presets inner_item []") (simp_all add: obind_def)
  qed simp
  moreover have "preset_name built_part = Some ''inner''" by (simp add: preset_name_def built_part_def)
  moreover have "push_resolution (preset_token ''inner'') [] = Inr [preset_token ''inner'']" by (simp add: push_resolution_Inr)
  ultimately show ?thesis
    unfolding Suc expand_mapping using presets_fixed(2) [of j "[preset_token ''inner'']"] overlays(2)
    by (cases "expand_presets j tagged_presets inner_preset [preset_token ''inner'']")
       (simp_all add: obind_def ok_or_def expand_entries_def)
qed simp

text \<open>
  C33. With a tag the expansion of presets need not end: no amount of recursion is enough for this value.
\<close>

theorem tagged_presets_diverge: "expand_presets n tagged_presets tagged_value [] = None"
proof (induction n rule: less_induct)
  case (less n)
  show ?case
  proof (cases n)
    case (Suc k)
    let ?m = "[(YString ''id'', YString ''a''), (YString ''preset'', YString ''outer''),
     (YString ''part'', YMapping [(YString ''preset'', YString ''inner'')])]"
    have "expand_presets k tagged_presets (YMapping built_part) [] = None"
      by (rule built_part_diverges) (use less Suc in simp)
    then have "expand_entries (\<lambda>w. expand_presets k tagged_presets w []) [(YString ''id'', YString ''a''), (YString ''part'', YMapping built_part)] = None"
      by (cases k) (simp_all add: expand_entries_def obind_def)
    moreover have "preset_name ?m = Some ''outer''" by (simp add: preset_name_def)
    moreover have "push_resolution (preset_token ''outer'') [] = Inr [preset_token ''outer'']" by (simp add: push_resolution_Inr)
    ultimately show ?thesis
      unfolding Suc tagged_value_def expand_mapping using presets_fixed(1) [of k "[preset_token ''outer'']"] overlays(1)
      by (cases "expand_presets k tagged_presets outer_preset [preset_token ''outer'']") (simp_all add: obind_def ok_or_def)
  qed simp
qed

end
