(* ===== verification/Serials.thy ===== *)
theory Serials
  imports ContestRules DbWorkerSpec
begin

text \<open>
  The serial numbers of \<open>backend/src/main.rs\<close>: which sent field of a contest carries them, whether
  they count per log or per band and need a reservation, and the state the client asks for. The code
  answers from the index of the cached contacts; its tests hold a second version that reads the
  contacts themselves, and the two agree.
\<close>

section \<open>The field\<close>

definition sent_serial_field :: "contest_rules \<Rightarrow> string \<Rightarrow> exchange_field option" where
  "sent_serial_field rules field_adif =
     find (\<lambda>f. direction f = Sent \<and> eq_ignore_case (exch_adif f) field_adif \<and> input_kind (exch_input f) = SerialInput)
       (exchange rules)"

definition normalized_param_value :: "json option \<Rightarrow> string option" where
  "normalized_param_value value =
     (case (case value of
              Some (JString s) \<Rightarrow> Some s
            | Some (JInt n) \<Rightarrow> Some (int_string n)
            | Some (JFloat t) \<Rightarrow> Some t
            | Some (JBool b) \<Rightarrow> Some (if b then ''true'' else ''false'')
            | _ \<Rightarrow> None) of
        None \<Rightarrow> None
      | Some s \<Rightarrow> let normalized = to_upper (trim s) in if normalized = [] then None else Some normalized)"

definition category_transmitter :: "contest_rules \<Rightarrow> log \<Rightarrow> string option" where
  "category_transmitter rules lg =
     Option.bind (cabrillo rules) (\<lambda>c.
       case find (\<lambda>h. eq_ignore_case (header_name h) ''CATEGORY-TRANSMITTER'') (fixed_headers c) of
         Some h \<Rightarrow> normalized_param_value (Some (JString (header_value h)))
       | None \<Rightarrow>
           Option.bind (find (\<lambda>f. case cabrillo_header f of Some h \<Rightarrow> eq_ignore_case h ''CATEGORY-TRANSMITTER'' | None \<Rightarrow> False)
                         (setup_fields rules)) (\<lambda>f.
             let configured = Option.bind (as_object (lg_contest_params lg)) (\<lambda>params. map_of params (setup_key f))
             in (case normalized_param_value configured of
                   Some v \<Rightarrow> Some v
                 | None \<Rightarrow>
                     (case normalized_param_value (setup_default f) of
                        Some v \<Rightarrow> Some v
                      | None \<Rightarrow>
                          (case valid_values (setup_validation f) of [v] \<Rightarrow> Some (to_upper (trim v)) | _ \<Rightarrow> None)))))"

definition effective_serial_scope :: "contest_rules \<Rightarrow> log \<Rightarrow> exchange_field \<Rightarrow> serial_scope" where
  "effective_serial_scope rules lg field =
     (case exch_serial_scope field of
        CategoryTransmitterScope \<Rightarrow>
          if category_transmitter rules lg \<in> {Some ''TWO'', Some ''UNLIMITED''} then BandScope else GlobalScope
      | scope \<Rightarrow> scope)"

definition serial_reservation_required :: "contest_rules \<Rightarrow> log \<Rightarrow> exchange_field \<Rightarrow> bool" where
  "serial_reservation_required rules lg field \<longleftrightarrow>
     effective_serial_scope rules lg field = GlobalScope
     \<and> (case category_transmitter rules lg of Some v \<Rightarrow> v \<noteq> ''ONE'' | None \<Rightarrow> False)"

section \<open>The state\<close>

record serial_state =
  ss_field_adif :: string
  ss_scope :: serial_scope
  ss_reservation_required :: bool
  ss_next :: "int option"
  ss_next_by_band :: "(string \<times> int) list"

definition next_serial_after :: "int option \<Rightarrow> string + int" where
  "next_serial_after maximum =
     (case checked_i64 ((case maximum of Some m \<Rightarrow> m | None \<Rightarrow> 0) + 1) of
        Some n \<Rightarrow> Inr n | None \<Rightarrow> Inl ''serial value overflow'')"

text \<open>The loop over the bands; \<open>maximum\<close> is the greatest serial of a band, if it has one.\<close>

fun next_by_bands :: "(string \<Rightarrow> int option) \<Rightarrow> string list \<Rightarrow> (string \<times> int) list \<Rightarrow> string + (string \<times> int) list" where
  "next_by_bands maximum [] m = Inr m"
| "next_by_bands maximum (b # bs) m =
     (case next_serial_after (maximum b) of Inl e \<Rightarrow> Inl e | Inr n \<Rightarrow> next_by_bands maximum bs (bt_put b n m))"

definition serial_state_with ::
  "contest_rules \<Rightarrow> log \<Rightarrow> exchange_field \<Rightarrow> (string option \<Rightarrow> int option) \<Rightarrow> string + serial_state" where
  "serial_state_with rules lg field maximum =
     (let scope = effective_serial_scope rules lg field;
          made = (\<lambda>nxt by_band. \<lparr>ss_field_adif = exch_adif field, ss_scope = scope,
                    ss_reservation_required = serial_reservation_required rules lg field, ss_next = nxt, ss_next_by_band = by_band\<rparr>)
      in if scope = BandScope
         then map_sum id (made None) (next_by_bands (\<lambda>b. maximum (Some b)) (rules_bands rules) [])
         else map_sum id (\<lambda>n. made (Some n) []) (next_serial_after (maximum None)))"

definition positive :: "int option \<Rightarrow> int option" where
  "positive v = (case v of Some n \<Rightarrow> if 0 < n then Some n else None | None \<Rightarrow> None)"

definition serial_state_from_snapshot ::
  "contest_rules \<Rightarrow> log \<Rightarrow> exchange_field \<Rightarrow> cached_contacts \<Rightarrow> string + serial_state" where
  "serial_state_from_snapshot rules lg field contacts =
     serial_state_with rules lg field (\<lambda>band. positive (serial_max contacts (exch_adif field) band))"

text \<open>The version over the contacts.\<close>

definition contact_serial_value :: "contact \<Rightarrow> string \<Rightarrow> int option" where
  "contact_serial_value contact field_adif =
     positive (case contact_adif_value contact field_adif of
        Some (JInt n) \<Rightarrow> as_i64 (JInt n)
      | Some (JString s) \<Rightarrow> parse_signed 64 (trim s)
      | _ \<Rightarrow> None)"

definition maximum_of :: "int list \<Rightarrow> int option" where
  "maximum_of ns = (if ns = [] then None else Some (fold max (tl ns) (hd ns)))"

definition logged_on :: "string option \<Rightarrow> contact \<Rightarrow> bool" where
  "logged_on band contact \<longleftrightarrow>
     (case band of
        None \<Rightarrow> True
      | Some b \<Rightarrow> (case Option.bind (contact_adif_value contact ''BAND'') as_str of Some v \<Rightarrow> eq_ignore_case v b | None \<Rightarrow> False))"

definition serial_state_from_contacts ::
  "contest_rules \<Rightarrow> log \<Rightarrow> exchange_field \<Rightarrow> contact list \<Rightarrow> string + serial_state" where
  "serial_state_from_contacts rules lg field contacts =
     serial_state_with rules lg field (\<lambda>band.
       maximum_of (List.map_filter (\<lambda>c. contact_serial_value c (exch_adif field)) (filter (logged_on band) contacts)))"

section \<open>The two agree\<close>

lemma maximum_of_None: "maximum_of ns = None \<longleftrightarrow> ns = []"
  by (simp add: maximum_of_def)

lemma maximum_of_Some: "maximum_of ns = Some m \<longleftrightarrow> m \<in> set ns \<and> (\<forall>n\<in>set ns. n \<le> m)"
proof (cases ns)
  case (Cons a as)
  have "fold max as a = Max (set (a # as))" by (rule Max.set_eq_fold [symmetric])
  then have "maximum_of ns = Some m \<longleftrightarrow> Max (set ns) = m" by (simp add: maximum_of_def Cons)
  then show ?thesis using Cons by (metis List.finite_set Max_eq_iff set_empty2 list.distinct(1))
qed (simp add: maximum_of_def)

lemma serial_value_indexed: "contact_serial_value c field = positive (contact_serials c (to_upper (trim field)))"
  by (auto simp: contact_serial_value_def contact_serials_def contact_adif_value_def normalize_adif_field_name_def Let_def
      json_serial_value_def split: bind_splits json.splits option.splits)

lemma logged_on_band: "(case band of Some b \<Rightarrow> b \<noteq> [] | None \<Rightarrow> True) \<Longrightarrow>
    logged_on band c \<longleftrightarrow> (case band of None \<Rightarrow> True | Some b \<Rightarrow> contact_band c = to_lower b)"
  by (auto simp: logged_on_def contact_band_def eq_ignore_case_def split: option.splits)

lemma positive_Some: "positive v = Some n \<longleftrightarrow> v = Some n \<and> 0 < n"
  by (auto simp: positive_def split: option.splits)

lemma set_map_filter: "y \<in> set (List.map_filter f xs) \<longleftrightarrow> (\<exists>x\<in>set xs. f x = Some y)"
  by (induction xs) (auto simp: List.map_filter_simps split: option.split)

lemma serial_maximum:
  assumes "contacts_ok cc" and "case band of Some b \<Rightarrow> b \<noteq> [] | None \<Rightarrow> True"
  shows "maximum_of (List.map_filter (\<lambda>c. contact_serial_value c field) (filter (logged_on band) (cached_to_list cc)))
    = positive (serial_max cc field band)"
proof -
  let ?has = "\<lambda>v. \<exists>i c. cached_contact cc i = Some c \<and> contact_serials c (to_upper (trim field)) = Some v
      \<and> (case band of None \<Rightarrow> True | Some b \<Rightarrow> contact_band c = to_lower b)"
  let ?ns = "List.map_filter (\<lambda>c. contact_serial_value c field) (filter (logged_on band) (cached_to_list cc))"
  have listed: "c \<in> set (cached_to_list cc) \<longleftrightarrow> (\<exists>i. cached_contact cc i = Some c)" for c
    using cached_to_list_set [OF assms(1)] by (auto simp: cached_contact_def ran_def)
  have ns: "n \<in> set ?ns \<longleftrightarrow> ?has n \<and> 0 < n" for n
    using logged_on_band [OF assms(2)] listed
    by (auto simp: set_map_filter serial_value_indexed positive_Some)
  have top: "case serial_max cc field band of None \<Rightarrow> \<forall>v. \<not> ?has v | Some v \<Rightarrow> ?has v \<and> (\<forall>w. ?has w \<longrightarrow> w \<le> v)"
    by (rule serial_max_spec [OF assms(1) refl])
  show ?thesis
  proof (cases "positive (serial_max cc field band)")
    case None
    have "n \<notin> set ?ns" for n using None top unfolding ns by (force simp: positive_def split: option.splits if_splits)
    then have "?ns = []" by (meson last_in_set)
    then show ?thesis using None by (simp add: maximum_of_def)
  next
    case (Some m)
    then have "serial_max cc field band = Some m" "0 < m" by (simp_all add: positive_Some)
    then have "?has m" and "?has n \<Longrightarrow> n \<le> m" for n using top by simp_all
    then have "m \<in> set ?ns" and "n \<in> set ?ns \<Longrightarrow> n \<le> m" for n using \<open>0 < m\<close> ns [of m] ns [of n] by blast+
    then have "maximum_of ?ns = Some m" unfolding maximum_of_Some by blast
    then show ?thesis using Some by simp
  qed
qed

lemma serial_state_cached:
  assumes "contacts_ok cc" and "[] \<notin> set (rules_bands rules)"
  shows "serial_state_from_snapshot rules lg field cc = serial_state_from_contacts rules lg field (cached_to_list cc)"
proof -
  have same: "next_by_bands f bs m = next_by_bands g bs m" if "\<forall>b\<in>set bs. f b = g b" for f g bs m
    using that by (induction bs arbitrary: m) (auto split: sum.split)
  have "\<forall>b\<in>set (rules_bands rules). positive (serial_max cc (exch_adif field) (Some b))
      = maximum_of (List.map_filter (\<lambda>c. contact_serial_value c (exch_adif field)) (filter (logged_on (Some b)) (cached_to_list cc)))"
  proof
    fix b assume "b \<in> set (rules_bands rules)"
    then have "case Some b of None \<Rightarrow> True | Some b \<Rightarrow> b \<noteq> []" using assms(2) by auto
    from serial_maximum [OF assms(1) this, symmetric] show "positive (serial_max cc (exch_adif field) (Some b))
      = maximum_of (List.map_filter (\<lambda>c. contact_serial_value c (exch_adif field)) (filter (logged_on (Some b)) (cached_to_list cc)))" .
  qed
  from same [OF this] have "next_by_bands (\<lambda>b. positive (serial_max cc (exch_adif field) (Some b))) (rules_bands rules) []
      = next_by_bands (\<lambda>b. maximum_of (List.map_filter (\<lambda>c. contact_serial_value c (exch_adif field)) (filter (logged_on (Some b)) (cached_to_list cc))))
          (rules_bands rules) []" .
  moreover have "maximum_of (List.map_filter (\<lambda>c. contact_serial_value c (exch_adif field)) (filter (logged_on None) (cached_to_list cc)))
      = positive (serial_max cc (exch_adif field) None)"
    by (rule serial_maximum [OF assms(1)]) simp
  ultimately show ?thesis
    unfolding serial_state_from_snapshot_def serial_state_from_contacts_def serial_state_with_def Let_def by (simp only:)
qed

lemma serial_state_set:
  assumes "set cs = set ds"
  shows "serial_state_from_contacts rules lg field cs = serial_state_from_contacts rules lg field ds"
proof -
  have "maximum_of ns = maximum_of ms" if same: "set ns = set ms" for ns ms
  proof (cases "maximum_of ms")
    case None
    then show ?thesis using same by (simp add: maximum_of_None)
  next
    case (Some m)
    then have "maximum_of ns = Some m" using same unfolding maximum_of_Some by simp
    then show ?thesis using Some by simp
  qed
  moreover have "set (List.map_filter f (filter P cs)) = set (List.map_filter f (filter P ds))" for f :: "contact \<Rightarrow> int option" and P
    using assms by (auto simp: set_map_filter)
  ultimately show ?thesis unfolding serial_state_from_contacts_def by metis
qed

text \<open>
  C16. The serial state a client is told agrees with the database: whatever commands ran before, the
  answer from the index of the cached contacts is the answer of the plain computation over the rows
  the table holds for the log, error included. The bands of the contest have names.
\<close>

theorem serial_state_exact:
  assumes "env_ok env" and "tables_ok t0" and "worker_reachable env t0 (t, cache)" and "snapshot l cache = Some snap"
    and "[] \<notin> set (rules_bands rules)"
  shows "serial_state_from_snapshot rules (snap_log snap) field (snap_contacts snap)
    = serial_state_from_contacts rules (snap_log snap) field (db_contacts (env_sql env) l (t_qsos t))"
  using serial_state_cached [OF snapshot_rows(2) [OF assms(1-4)] assms(5)] serial_state_set [OF snapshot_rows(3) [OF assms(1-4)]]
  by simp

definition serial_field :: exchange_field where
  "serial_field =
     \<lparr>exch_id = ''nr'', exch_label = ''Nr'', exch_input = \<lparr>input_kind = SerialInput, max_length = None\<rparr>, exch_adif = ''STX'',
      direction = Sent, exch_validation = \<lparr>required = True, pattern = None, valid_values = [], match_mode = MatchAll\<rparr>,
      exch_fixed = False, exch_default = None, exch_source = None, exch_serial_scope = GlobalScope, only_when = None,
      table_visibility = TableAuto\<rparr>"

definition serial_rules :: contest_rules where
  "serial_rules =
     \<lparr>rules_id = ''T'', rules_name = ''T'', rules_bands = [''20m''], rules_modes = [], excluded_modes = [], value_sets = [],
      setup_fields = [], exchange = [serial_field], qso_table = [],
      scoring = \<lparr>qso_points = None, minimum_multiplier_count = 0, dupe_key_fields = [], multiplier_rules = [], bonus_point_rules = [],
        param_multiplier_rules = [], multiplier_count_bonus_rules = [], qso_count_bonus_rules = []\<rparr>,
      cabrillo = None, metadata = None\<rparr>"

lemma serial_state_exact_witness:
  "\<exists>snap. snapshot 1 (snd session_state) = Some snap
     \<and> serial_state_from_snapshot serial_rules (snap_log snap) serial_field (snap_contacts snap)
       = serial_state_from_contacts serial_rules (snap_log snap) serial_field (db_contacts sample_env 1 (t_qsos (fst session_state)))
     \<and> map_sum id ss_next (serial_state_from_snapshot serial_rules (snap_log snap) serial_field (snap_contacts snap)) = Inr (Some 8)"
proof -
  have "map_option (\<lambda>snap. map_sum id ss_next (serial_state_from_snapshot serial_rules (snap_log snap) serial_field (snap_contacts snap)))
      (snapshot 1 (snd session_state)) = Some (Inr (Some 8))" by code_simp
  then obtain snap where snap: "snapshot 1 (snd session_state) = Some snap"
    and eight: "map_sum id ss_next (serial_state_from_snapshot serial_rules (snap_log snap) serial_field (snap_contacts snap)) = Inr (Some 8)"
    by auto
  have run: "worker_reachable run_env no_tables (fst session_state, snd session_state)"
    using session_reachable by simp
  have "[] \<notin> set (rules_bands serial_rules)" by (simp add: serial_rules_def)
  from serial_state_exact [OF run_env_ok no_tables_ok run snap this, of serial_field] snap eight show ?thesis
    by (auto simp: run_env_def)
qed

end
