(* ===== verification/Handlers.thy ===== *)
theory Handlers
  imports Validation LogCache Serials Adif Cabrillo
begin

text \<open>
  The handlers of \<open>backend/src/main.rs\<close> for logs, contacts and serial numbers: what a request reads,
  checks, stores, answers and announces. A handler is a function of the answers it gets from the
  database and of the state of the log cache; a result \<open>None\<close> is a load of the log cache that has not
  ended within the views given. Reading requests and writing responses is left to the framework.
\<close>

section \<open>Errors\<close>

datatype api_status = BadRequest | NotFoundStatus | ConflictStatus | InternalStatus

record api_error =
  api_status :: api_status
  api_text :: string
  api_details :: "(string \<times> json) list"

definition bad_request :: "string \<Rightarrow> api_error" where
  "bad_request e = \<lparr>api_status = BadRequest, api_text = e, api_details = []\<rparr>"

definition not_found :: "string \<Rightarrow> api_error" where
  "not_found e = \<lparr>api_status = NotFoundStatus, api_text = e, api_details = []\<rparr>"

definition internal :: "string \<Rightarrow> api_error" where
  "internal e = \<lparr>api_status = InternalStatus, api_text = e, api_details = []\<rparr>"

definition conflict :: "string \<Rightarrow> api_error" where
  "conflict e = \<lparr>api_status = ConflictStatus, api_text = e, api_details = []\<rparr>"

definition with_detail :: "string \<Rightarrow> json \<Rightarrow> api_error \<Rightarrow> api_error" where
  "with_detail key value e = e\<lparr>api_details := bt_put key value (api_details e)\<rparr>"

fun from_validation :: "contact_validation_error \<Rightarrow> api_error" where
  "from_validation (Invalid m) = bad_request m"
| "from_validation (NotFound m) = not_found m"
| "from_validation (Internal m) = internal m"

definition cache_error_text :: "log_cache_error \<Rightarrow> string" where
  "cache_error_text e =
     (case e of
        DbError m \<Rightarrow> m
      | LogNotFound l \<Rightarrow> ''log '' @ int_string l @ '' not found''
      | UnknownContest c \<Rightarrow> ''unknown contest: '' @ c
      | NotLoaded l \<Rightarrow> ''log '' @ int_string l @ '' is not loaded'')"

section \<open>Messages\<close>

datatype server_message =
    LogEntry contact
  | ContactDeleted int int
  | ScoreUpdate int nat int int int
  | SupercheckpartialUpdate "string list"
  | OtherMessage

definition score_update_message :: "int \<Rightarrow> score_totals \<Rightarrow> server_message" where
  "score_update_message l totals =
     ScoreUpdate l (qso_count totals) (total_multipliers totals) (total_bonus_points totals) (total_score totals)"

definition contact_session_id :: "contact \<Rightarrow> string option" where
  "contact_session_id contact = Option.bind (contact_meta_value contact ''sessionId'') as_str"

text \<open>What of a broadcast event the client of a session and a log gets to see.\<close>

definition websocket_log_event_for_client :: "server_message \<Rightarrow> string \<Rightarrow> int option \<Rightarrow> server_message option" where
  "websocket_log_event_for_client event session log_id =
     Option.bind log_id (\<lambda>l.
       case event of
         LogEntry contact \<Rightarrow>
           if contact_log_id contact \<noteq> Some l \<or> contact_session_id contact = Some session then None else Some event
       | ContactDeleted i k \<Rightarrow> if k = l then Some event else None
       | ScoreUpdate k _ _ _ _ \<Rightarrow> if k = l then Some event else None
       | SupercheckpartialUpdate _ \<Rightarrow> Some event
       | OtherMessage \<Rightarrow> None)"

section \<open>Contacts of a request\<close>

definition normalize_contact_adif_fields :: "contact \<Rightarrow> contact" where
  "normalize_contact_adif_fields contact =
     (let rest = bt_remove ''adif'' contact
      in (case map_of contact ''adif'' of
            Some (JObject adif) \<Rightarrow> bt_put ''adif'' (JObject (normalize_contact_adif adif)) rest
          | _ \<Rightarrow> rest))"

fun contacts_from_payload :: "json \<Rightarrow> string + contact list" where
  "contacts_from_payload (JArray values) =
     collect_results (map (\<lambda>v. case v of
         JObject contact \<Rightarrow> Inr (normalize_contact_adif_fields contact)
       | _ \<Rightarrow> Inl ''contact list must contain objects'') values)"
| "contacts_from_payload (JObject contact) = Inr [normalize_contact_adif_fields contact]"
| "contacts_from_payload _ = Inl ''contacts payload must be an object or list of objects''"

text \<open>\<open>has_warnings\<close> is what the database says of the stored contact with the id of the one at an index.\<close>

record commit_reads =
  has_warnings :: "nat \<Rightarrow> string + bool"
  first_reads :: upload_reads
  log_again :: "string + log option"

primrec diagnostic_ids :: "(nat \<Rightarrow> string + bool) \<Rightarrow> (nat \<times> contact) list \<Rightarrow> int set \<Rightarrow> api_error + int set" where
  "diagnostic_ids warned [] ids = Inr ids"
| "diagnostic_ids warned (entry # entries) ids =
     (case entry of (index, contact) \<Rightarrow>
        if force_commit_requested contact then diagnostic_ids warned entries ids
        else (case contact_id contact of
           None \<Rightarrow> diagnostic_ids warned entries ids
         | Some i \<Rightarrow>
             (case warned index of
                Inl e \<Rightarrow> Inl (internal e)
              | Inr w \<Rightarrow> diagnostic_ids warned entries (if w then insert i ids else ids))))"

definition is_diagnostic :: "int set \<Rightarrow> contact \<Rightarrow> bool" where
  "is_diagnostic ids contact \<longleftrightarrow>
     force_commit_requested contact \<or> (case contact_id contact of Some i \<Rightarrow> i \<in> ids | None \<Rightarrow> False)"

definition require_log :: "string + log option \<Rightarrow> int \<Rightarrow> api_error + log" where
  "require_log found l =
     ebind (map_error internal found) (\<lambda>lg. ok_or lg (not_found (''log '' @ int_string l @ '' not found'')))"

definition unknown_contest :: "log \<Rightarrow> api_error" where
  "unknown_contest lg = bad_request (''unknown contest: '' @ lg_contest_id lg)"

definition findings_json :: "string list \<Rightarrow> json" where
  "findings_json findings = JArray (map (\<lambda>m. JObject [(''message'', JString m)]) findings)"

definition attach_warnings ::
  "regex_engine \<Rightarrow> (string \<Rightarrow> nat option) \<Rightarrow> contest_rules \<Rightarrow> band list \<Rightarrow> int \<Rightarrow> int set \<Rightarrow> contact \<Rightarrow> contact \<Rightarrow> contact" where
  "attach_warnings regex to_hz rules bands l ids contact enriched =
     (if is_diagnostic ids contact
      then set_contact_meta contact ''warnings'' (findings_json (diagnose_contact regex to_hz rules bands l enriched))
      else contact)"

text \<open>The first part of \<open>commit_contact\<close>: the contacts it hands to the log cache, or its answer.\<close>

definition prepare_commit ::
  "regex_engine \<Rightarrow> (string \<Rightarrow> nat option) \<Rightarrow> log_cache_env \<Rightarrow> band list \<Rightarrow> commit_reads \<Rightarrow> int \<Rightarrow> json
     \<Rightarrow> api_error + contact list" where
  "prepare_commit regex to_hz env bands reads l payload =
     ebind (map_error bad_request (contacts_from_payload payload)) (\<lambda>contacts.
     let contacts = map (\<lambda>c. remove_contact_meta c ''warnings'') contacts
     in ebind (diagnostic_ids (has_warnings reads) (enumerate 0 contacts) {}) (\<lambda>ids.
        ebind (map_error (\<lambda>e. with_detail ''status'' (JString ''failed'') (from_validation e))
                 (validate_contacts regex to_hz (rules_store env) bands (first_reads reads) l contacts ids)) (\<lambda>_.
        if list_ex (is_diagnostic ids) contacts
        then ebind (require_log (log_again reads) l) (\<lambda>lg.
             ebind (ok_or (rules_store env (lg_contest_id lg)) (unknown_contest lg)) (\<lambda>rules.
             Inr (map2 (attach_warnings regex to_hz rules bands l ids) contacts (enrich_missing_dxcc (dxcc_db env) contacts))))
        else Inr contacts)))"

section \<open>Storing\<close>

text \<open>What the database answers while the log cache stores contacts.\<close>

record upsert_reads =
  up_current :: "nat option"
  up_views :: "db_view list"
  up_store :: "contact list \<Rightarrow> string + contact_mutation"
  up_now :: "nat option"
  up_current2 :: "nat option"
  up_views2 :: "db_view list"

definition upsert_contacts ::
  "log_cache_env \<Rightarrow> 'p processor list \<Rightarrow> upsert_reads \<Rightarrow> int \<Rightarrow> contact list \<Rightarrow> 'p log_cache
     \<Rightarrow> (log_cache_error + contact list \<times> contact list) option \<times> 'p log_cache" where
  "upsert_contacts env procs up l contacts lc =
     log_cache_upsert env procs l (up_current up) (up_views up) (up_store up) (up_now up) (up_current2 up) (up_views2 up) contacts lc"

definition with_session :: "contact \<Rightarrow> string option \<Rightarrow> contact" where
  "with_session contact session =
     (case session of Some s \<Rightarrow> set_contact_meta contact ''sessionId'' (JString s) | None \<Rightarrow> contact)"

definition first_contact :: "contact list \<Rightarrow> json" where
  "first_contact contacts = (case contacts of c # _ \<Rightarrow> JObject c | [] \<Rightarrow> JNull)"

definition commit_contact ::
  "regex_engine \<Rightarrow> (string \<Rightarrow> nat option) \<Rightarrow> log_cache_env \<Rightarrow> 'p processor list \<Rightarrow> ('p \<Rightarrow> int \<Rightarrow> score_totals option)
     \<Rightarrow> band list \<Rightarrow> commit_reads \<Rightarrow> upsert_reads \<Rightarrow> int \<Rightarrow> json \<Rightarrow> 'p log_cache
     \<Rightarrow> (api_error + json) option \<times> server_message list \<times> 'p log_cache" where
  "commit_contact regex to_hz env procs totals bands reads up l payload lc =
     (case prepare_commit regex to_hz env bands reads l payload of
        Inl e \<Rightarrow> (Some (Inl e), [], lc)
      | Inr contacts \<Rightarrow>
          let sessions = map contact_session_id contacts
          in (case upsert_contacts env procs up l contacts lc of
                (None, lc) \<Rightarrow> (None, [], lc)
              | (Some (Inl e), lc) \<Rightarrow> (Some (Inl (internal (cache_error_text e))), [], lc)
              | (Some (Inr (committed, changed)), lc) \<Rightarrow>
                  let zipped = map2 with_session committed sessions;
                      committed = zipped @ drop (length sessions) committed
                  in (Some (Inr (JObject [(''contact'', first_contact committed), (''contacts'', JArray (map JObject committed))])),
                      map LogEntry zipped @ map LogEntry changed
                        @ [score_update_message l (case totals (lc_state lc) l of Some t \<Rightarrow> t | None \<Rightarrow> zero_totals)],
                      lc)))"

section \<open>Contacts\<close>

definition delete_contact ::
  "log_cache_env \<Rightarrow> 'p processor list \<Rightarrow> ('p \<Rightarrow> int \<Rightarrow> score_totals option) \<Rightarrow> int \<Rightarrow> string + int option \<Rightarrow> nat option
     \<Rightarrow> db_view list \<Rightarrow> string + contact_deletion option \<Rightarrow> nat option \<Rightarrow> nat option \<Rightarrow> db_view list \<Rightarrow> 'p log_cache
     \<Rightarrow> (api_error + bool) option \<times> server_message list \<times> 'p log_cache" where
  "delete_contact env procs totals i owner cur views deleted now cur2 views2 lc =
     (case log_cache_delete env procs i owner cur views deleted now cur2 views2 lc of
        (None, lc) \<Rightarrow> (None, [], lc)
      | (Some (Inl e), lc) \<Rightarrow> (Some (Inl (internal (cache_error_text e))), [], lc)
      | (Some (Inr None), lc) \<Rightarrow> (Some (Inl (not_found ''not found'')), [], lc)
      | (Some (Inr (Some (l, changed))), lc) \<Rightarrow>
          (Some (Inr True),
           ContactDeleted i l # map LogEntry changed
             @ [score_update_message l (case totals (lc_state lc) l of Some t \<Rightarrow> t | None \<Rightarrow> zero_totals)], lc))"

definition DEFAULT_CONTACTS_PAGE_LIMIT :: nat where "DEFAULT_CONTACTS_PAGE_LIMIT = 200"
definition MAX_CONTACTS_PAGE_LIMIT :: nat where "MAX_CONTACTS_PAGE_LIMIT = 1000"
definition USIZE_MAX :: nat where "USIZE_MAX = 2 ^ 64 - 1"

definition contacts_page :: "nat option \<Rightarrow> nat option \<Rightarrow> (nat \<times> nat) option" where
  "contacts_page limit offset =
     (if limit = None \<and> offset = None then None
      else Some (max 1 (min (case limit of Some n \<Rightarrow> n | None \<Rightarrow> DEFAULT_CONTACTS_PAGE_LIMIT) MAX_CONTACTS_PAGE_LIMIT),
                 case offset of Some n \<Rightarrow> n | None \<Rightarrow> 0))"

definition requested_prefix :: "string option \<Rightarrow> string option" where
  "requested_prefix p = Option.bind p (\<lambda>p. if trim p = [] then None else Some (to_upper (trim p)))"

definition list_contacts ::
  "log_cache_env \<Rightarrow> 'p processor list \<Rightarrow> ('p \<Rightarrow> int \<Rightarrow> score_totals option) \<Rightarrow> string + log option \<Rightarrow> nat option \<Rightarrow> db_view list
     \<Rightarrow> int \<Rightarrow> nat option \<Rightarrow> nat option \<Rightarrow> string option \<Rightarrow> 'p log_cache
     \<Rightarrow> (api_error + contact list) option \<times> server_message list \<times> 'p log_cache" where
  "list_contacts env procs totals found cur views l limit offset wanted lc =
     (case require_log found l of
        Inl e \<Rightarrow> (Some (Inl e), [], lc)
      | Inr _ \<Rightarrow>
          (case (case contacts_page limit offset of Some p \<Rightarrow> p | None \<Rightarrow> (USIZE_MAX, 0)) of (limit, offset) \<Rightarrow>
             (case contacts_display_page env procs l cur views offset limit (requested_prefix wanted) lc of
                (None, lc) \<Rightarrow> (None, [], lc)
              | (Some (Inl e), lc) \<Rightarrow> (Some (Inl (internal (cache_error_text e))), [], lc)
              | (Some (Inr page), lc) \<Rightarrow>
                  (Some (Inr page),
                   [score_update_message l (case totals (lc_state lc) l of Some t \<Rightarrow> t | None \<Rightarrow> zero_totals)], lc))))"

section \<open>Serial numbers\<close>

definition rules_for :: "(string \<Rightarrow> contest_rules option) \<Rightarrow> log \<Rightarrow> api_error + contest_rules" where
  "rules_for store lg = ok_or (store (lg_contest_id lg)) (unknown_contest lg)"

definition serial_state_reply ::
  "(string \<Rightarrow> contest_rules option) \<Rightarrow> string + log_snapshot option \<Rightarrow> int \<Rightarrow> string \<Rightarrow> api_error + serial_state" where
  "serial_state_reply store found l field_adif =
     ebind (map_error internal found) (\<lambda>found.
     ebind (ok_or found (not_found (''log '' @ int_string l @ '' not found''))) (\<lambda>snap.
     ebind (rules_for store (snap_log snap)) (\<lambda>rules.
     ebind (ok_or (sent_serial_field rules (trim field_adif))
              (bad_request (field_adif @ '' is not a sent serial field for contest '' @ rules_id rules))) (\<lambda>field.
     map_error internal (serial_state_from_snapshot rules (snap_log snap) field (snap_contacts snap))))))"

text \<open>\<open>allocate\<close> is the answer of the database to the allocation.\<close>

definition allocate_serial ::
  "(string \<Rightarrow> contest_rules option) \<Rightarrow> string + log option \<Rightarrow> (string \<Rightarrow> string + int) \<Rightarrow> int \<Rightarrow> string \<Rightarrow> api_error + int" where
  "allocate_serial store found allocate l field_adif =
     (let field_adif = trim field_adif
      in ebind (require (field_adif \<noteq> []) (bad_request ''serial field ADIF name is required'')) (\<lambda>_.
         ebind (require_log found l) (\<lambda>lg.
         ebind (rules_for store lg) (\<lambda>rules.
         ebind (ok_or (sent_serial_field rules field_adif)
                  (bad_request (field_adif @ '' is not a sent serial field for contest '' @ rules_id rules))) (\<lambda>field.
         ebind (require (serial_reservation_required rules lg field)
                  (bad_request (field_adif @ '' does not require serial reservation for contest '' @ rules_id rules))) (\<lambda>_.
         map_error internal (allocate (exch_adif field))))))))"

section \<open>Logs\<close>

definition create_log ::
  "regex_engine \<Rightarrow> (string \<Rightarrow> contest_rules option) \<Rightarrow> string + log \<Rightarrow> string \<Rightarrow> string \<Rightarrow> string \<Rightarrow> json \<Rightarrow> api_error + log" where
  "create_log regex store created name station contest params =
     ebind (map_error bad_request (validate_new_log regex store name station contest params)) (\<lambda>_.
     map_error internal created)"

definition found_log :: "string + log option \<Rightarrow> api_error + log" where
  "found_log found = ebind (map_error internal found) (\<lambda>lg. ok_or lg (not_found ''not found''))"

definition update_log ::
  "regex_engine \<Rightarrow> (string \<Rightarrow> contest_rules option) \<Rightarrow> 'p processor list \<Rightarrow> string + log option \<Rightarrow> string + log option
     \<Rightarrow> int \<Rightarrow> string \<Rightarrow> string \<Rightarrow> json \<Rightarrow> 'p log_cache \<Rightarrow> (api_error + log) \<times> 'p log_cache" where
  "update_log regex store procs found updated l name station params lc =
     (case ebind (found_log found) (\<lambda>lg.
           ebind (rules_for store lg) (\<lambda>rules.
           ebind (map_error bad_request (validate_update_log regex rules name station params)) (\<lambda>_. found_log updated))) of
        Inl e \<Rightarrow> (Inl e, lc)
      | Inr lg \<Rightarrow> (Inr lg, clear_log procs l lc))"

definition delete_log ::
  "'p processor list \<Rightarrow> string + bool \<Rightarrow> int \<Rightarrow> 'p log_cache \<Rightarrow> (api_error + json) \<times> 'p log_cache" where
  "delete_log procs deleted l lc =
     (case deleted of
        Inl e \<Rightarrow> (Inl (internal e), lc)
      | Inr False \<Rightarrow> (Inl (not_found ''not found''), lc)
      | Inr True \<Rightarrow> (Inr (JObject [(''deleted'', JBool True)]), clear_log procs l lc))"

section \<open>Export and import\<close>

text \<open>The name and the text of the file a client downloads.\<close>

definition found_snapshot :: "string + log_snapshot option \<Rightarrow> api_error + log_snapshot" where
  "found_snapshot found = ebind (map_error internal found) (\<lambda>snap. ok_or snap (not_found ''not found''))"

definition export_cabrillo ::
  "regex_engine \<Rightarrow> log_cache_env \<Rightarrow> band list \<Rightarrow> string + log_snapshot option \<Rightarrow> json \<Rightarrow> api_error + string \<times> string" where
  "export_cabrillo regex env bands found export_params =
     ebind (found_snapshot found) (\<lambda>snap.
     let lg = snap_log snap
     in ebind (rules_for (rules_store env) lg) (\<lambda>rules.
        ebind (map_error bad_request (validate_cabrillo_export_params regex rules export_params)) (\<lambda>_.
        let contacts = sort_key contact_score_order (cached_to_list (snap_contacts snap));
            claimed = total_score (fst (score_contacts (distance_fn env) rules (lg_contest_params lg) contacts))
        in ebind (map_error bad_request (render_log rules lg contacts export_params claimed bands)) (\<lambda>t.
           Inr (cabrillo_filename lg, t)))))"

definition export_adif :: "string \<Rightarrow> string + log_snapshot option \<Rightarrow> api_error + string \<times> string" where
  "export_adif version found =
     ebind (found_snapshot found) (\<lambda>snap.
     ebind (map_error internal (adif_render_log version (snap_log snap) (cached_to_list (snap_contacts snap)))) (\<lambda>t.
     Inr (export_filename (snap_log snap), t)))"

definition import_api_error :: "nat \<Rightarrow> string \<Rightarrow> api_error \<Rightarrow> api_error" where
  "import_api_error line message e =
     with_detail ''errors'' (JArray [JObject [(''error'', JString message), (''line'', JInt (int line))]])
       (with_detail ''line'' (JInt (int line)) e)"

text \<open>The parse of the file panics on some tags; the result \<open>None\<close> of the reader stands for it.\<close>

definition prepare_import ::
  "regex_engine \<Rightarrow> (string \<Rightarrow> nat option) \<Rightarrow> (string \<Rightarrow> int option) \<Rightarrow> log_cache_env \<Rightarrow> band list \<Rightarrow> string + log option
     \<Rightarrow> upload_reads \<Rightarrow> int \<Rightarrow> string \<Rightarrow> (string \<times> import_mapping) list \<Rightarrow> (api_error + contact list) option" where
  "prepare_import regex to_hz mhz_to_hz env bands found reads l adif mappings =
     (case ebind (found_log found) (\<lambda>lg. ebind (rules_for (rules_store env) lg) (\<lambda>rules. Inr (lg, rules))) of
        Inl e \<Rightarrow> Some (Inl e)
      | Inr (lg, rules) \<Rightarrow>
          map_option (\<lambda>imported.
            ebind (map_error (\<lambda>e. import_api_error (err_line e) (err_text e) (bad_request (err_text e))) imported) (\<lambda>imported.
            let contacts = map imp_contact imported
            in ebind (map_error (\<lambda>(index, e).
                   import_api_error (if index < length imported then imp_line (imported ! index) else 1) (error_message e) (from_validation e))
                 (validate_import_contacts regex to_hz (rules_store env) bands reads l contacts)) (\<lambda>_. Inr contacts)))
            (import_contacts mhz_to_hz lg rules adif mappings))"

definition import_adif ::
  "regex_engine \<Rightarrow> (string \<Rightarrow> nat option) \<Rightarrow> (string \<Rightarrow> int option) \<Rightarrow> log_cache_env \<Rightarrow> 'p processor list
     \<Rightarrow> ('p \<Rightarrow> int \<Rightarrow> score_totals option) \<Rightarrow> band list \<Rightarrow> string + log option \<Rightarrow> upload_reads \<Rightarrow> upsert_reads \<Rightarrow> int \<Rightarrow> string
     \<Rightarrow> (string \<times> import_mapping) list \<Rightarrow> 'p log_cache \<Rightarrow> (api_error + json) option \<times> server_message list \<times> 'p log_cache" where
  "import_adif regex to_hz mhz_to_hz env procs totals bands found reads up l adif mappings lc =
     (case prepare_import regex to_hz mhz_to_hz env bands found reads l adif mappings of
        None \<Rightarrow> (None, [], lc)
      | Some (Inl e) \<Rightarrow> (Some (Inl e), [], lc)
      | Some (Inr contacts) \<Rightarrow>
          (case upsert_contacts env procs up l contacts lc of
             (None, lc) \<Rightarrow> (None, [], lc)
           | (Some (Inl e), lc) \<Rightarrow> (Some (Inl (internal (cache_error_text e))), [], lc)
           | (Some (Inr (committed, changed)), lc) \<Rightarrow>
               (Some (Inr (JObject [(''contacts'', JArray (map JObject committed)), (''imported'', JInt (int (length committed)))])),
                map LogEntry committed @ map LogEntry changed
                  @ [score_update_message l (case totals (lc_state lc) l of Some t \<Rightarrow> t | None \<Rightarrow> zero_totals)],
                lc)))"

section \<open>Download names\<close>

text \<open>\<open>rsplit_once\<close>.\<close>

definition split_last :: "char \<Rightarrow> string \<Rightarrow> (string \<times> string) option" where
  "split_last c s =
     (if c \<in> set s
      then Some (rev (drop 1 (dropWhile (\<lambda>d. d \<noteq> c) (rev s))), rev (takeWhile (\<lambda>d. d \<noteq> c) (rev s)))
      else None)"

definition plain_letter :: "char \<Rightarrow> bool" where
  "plain_letter c \<longleftrightarrow> is_upper c \<or> is_lower c \<or> is_digit c"

definition clean_stem :: "string \<Rightarrow> string" where
  "clean_stem stem =
     (let cleaned = trim_matches CHR ''_'' (map (\<lambda>c. if plain_letter c \<or> c = CHR ''_'' \<or> c = CHR ''-'' then c else CHR ''_'') stem)
      in if cleaned = [] then ''download'' else cleaned)"

definition clean_extension :: "string \<Rightarrow> string" where
  "clean_extension ext = map (\<lambda>c. if plain_letter c then c else CHR ''_'') ext"

definition sanitize_download_filename :: "string \<Rightarrow> string" where
  "sanitize_download_filename filename =
     (let trimmed = trim filename
      in (case split_last CHR ''.'' trimmed of
            Some (stem, ext) \<Rightarrow>
              if stem \<noteq> [] \<and> ext \<noteq> [] then clean_stem stem @ ''.'' @ clean_extension ext else clean_stem trimmed
          | None \<Rightarrow> clean_stem trimmed))"

end
