(* ===== verification/HandlersSpec.thy ===== *)
theory HandlersSpec
  imports Handlers ValidationSpec
begin

text \<open>
  What the handlers promise of a contact: what \<open>commit_contact\<close> hands to the log cache is checked and
  the diagnoses are the server's own, and which accepted contacts the table can store.
\<close>

section \<open>Committing\<close>

text \<open>A contact whose faults are written down instead of rejected.\<close>

definition stored_with_warnings :: "commit_reads \<Rightarrow> contact list \<Rightarrow> int \<Rightarrow> bool" where
  "stored_with_warnings reads sent k \<longleftrightarrow>
     (\<exists>j < length sent. \<not> force_commit_requested (sent ! j) \<and> contact_id (sent ! j) = Some k \<and> has_warnings reads j = Inr True)"

definition excused :: "commit_reads \<Rightarrow> contact list \<Rightarrow> contact \<Rightarrow> bool" where
  "excused reads sent c \<longleftrightarrow>
     force_commit_requested c \<or> (\<exists>k. contact_id c = Some k \<and> stored_with_warnings reads sent k)"

lemma diagnostic_ids_Inr:
  "diagnostic_ids warned entries ids = Inr ids' \<Longrightarrow>
    k \<in> ids' \<longleftrightarrow> k \<in> ids \<or> (\<exists>(j, c)\<in>set entries. \<not> force_commit_requested c \<and> contact_id c = Some k \<and> warned j = Inr True)"
proof (induction entries arbitrary: ids)
  case (Cons entry entries)
  obtain j c where e: "entry = (j, c)" by (cases entry)
  show ?case
  proof (cases "force_commit_requested c \<or> contact_id c = None")
    case True
    then have "diagnostic_ids warned entries ids = Inr ids'" using Cons.prems by (auto simp: e split: if_splits)
    from Cons.IH [OF this] show ?thesis using True by (auto simp: e)
  next
    case False
    then obtain i w where w: "contact_id c = Some i" "warned j = Inr w" "\<not> force_commit_requested c"
      and rest: "diagnostic_ids warned entries (if w then insert i ids else ids) = Inr ids'"
      using Cons.prems by (auto simp: e split: sum.splits)
    from Cons.IH [OF rest] show ?thesis using w by (auto simp: e)
  qed
qed simp

lemma diagnostic_excused:
  assumes "diagnostic_ids (has_warnings reads) (enumerate 0 sent) {} = Inr ids"
  shows "is_diagnostic ids c \<longleftrightarrow> excused reads sent c"
proof -
  have "k \<in> ids \<longleftrightarrow> stored_with_warnings reads sent k" for k
    using diagnostic_ids_Inr [OF assms, of k]
    by (force simp: stored_with_warnings_def in_set_enumerate_eq)
  then show ?thesis by (auto simp: is_diagnostic_def excused_def split: option.splits)
qed

lemma length_enrich: "length (enrich_missing_dxcc db cs) = length cs"
proof -
  have "length (enrich_from db cs known) = length cs" for known
    by (induction cs arbitrary: known) (simp_all add: Let_def split: prod.split)
  then show ?thesis by (simp add: enrich_missing_dxcc_def)
qed

lemma require_log_Inr: "require_log found l = Inr lg \<longleftrightarrow> found = Inr (Some lg)"
  by (auto simp: require_log_def)

text \<open>The rules a diagnosis uses: those of the contest of the log, read again after the checks.\<close>

definition diagnosis_rules :: "log_cache_env \<Rightarrow> commit_reads \<Rightarrow> contest_rules \<Rightarrow> bool" where
  "diagnosis_rules env reads rules \<longleftrightarrow>
     (\<exists>lg. log_again reads = Inr (Some lg) \<and> rules_store env (lg_contest_id lg) = Some rules)"

lemma prepare_commit_Inr:
  assumes "prepare_commit regex to_hz env bands reads l payload = Inr contacts"
  shows "\<exists>raw sent ids. contacts_from_payload payload = Inr raw \<and> sent = map (\<lambda>c. remove_contact_meta c ''warnings'') raw
    \<and> diagnostic_ids (has_warnings reads) (enumerate 0 sent) {} = Inr ids
    \<and> validate_contacts regex to_hz (rules_store env) bands (first_reads reads) l sent ids = Inr ()
    \<and> (contacts = sent \<and> \<not> list_ex (is_diagnostic ids) sent
      \<or> (\<exists>rules. diagnosis_rules env reads rules
        \<and> contacts = map2 (attach_warnings regex to_hz rules bands l ids) sent (enrich_missing_dxcc (dxcc_db env) sent)))"
proof -
  obtain raw where raw: "contacts_from_payload payload = Inr raw"
    using assms unfolding prepare_commit_def ebind_Inr map_error_Inr by blast
  define sent where "sent = map (\<lambda>c. remove_contact_meta c ''warnings'') raw"
  obtain ids u where ids: "diagnostic_ids (has_warnings reads) (enumerate 0 sent) {} = Inr ids"
    and valid: "validate_contacts regex to_hz (rules_store env) bands (first_reads reads) l sent ids = Inr u"
    and made: "(if list_ex (is_diagnostic ids) sent
        then ebind (require_log (log_again reads) l) (\<lambda>lg.
             ebind (ok_or (rules_store env (lg_contest_id lg)) (unknown_contest lg)) (\<lambda>rules.
             Inr (map2 (attach_warnings regex to_hz rules bands l ids) sent (enrich_missing_dxcc (dxcc_db env) sent))))
        else Inr sent) = Inr contacts"
    using assms by (auto simp only: prepare_commit_def Let_def ebind_Inr map_error_Inr raw sent_def sum.inject)
  have "contacts = sent \<and> \<not> list_ex (is_diagnostic ids) sent
      \<or> (\<exists>rules. diagnosis_rules env reads rules
        \<and> contacts = map2 (attach_warnings regex to_hz rules bands l ids) sent (enrich_missing_dxcc (dxcc_db env) sent))"
    using made by (cases "list_ex (is_diagnostic ids) sent")
      (auto simp: diagnosis_rules_def require_log_def ok_or_def split: option.splits sum.splits)
  then show ?thesis using raw sent_def ids valid by (intro exI [of _ raw] exI [of _ sent] exI [of _ ids]) simp
qed

text \<open>
  What the contacts handed to the log cache are: between one and a hundred for a known log and
  contest, each without the warnings its sender wrote. One that is not excused is typed for the
  contest; an excused one has a sound shape and carries the server's own diagnosis.
\<close>

definition checked_commit ::
  "regex_engine \<Rightarrow> (string \<Rightarrow> nat option) \<Rightarrow> log_cache_env \<Rightarrow> band list \<Rightarrow> commit_reads \<Rightarrow> int \<Rightarrow> json
     \<Rightarrow> contact list \<Rightarrow> bool" where
  "checked_commit regex to_hz env bands reads l payload contacts \<longleftrightarrow>
     (\<exists>raw lg rules. contacts_from_payload payload = Inr raw \<and> read_log (first_reads reads) = Inr (Some lg)
       \<and> rules_store env (lg_contest_id lg) = Some rules \<and> raw \<noteq> [] \<and> length raw \<le> 100 \<and> length contacts = length raw
       \<and> (\<forall>i < length raw. let sent = map (\<lambda>c. remove_contact_meta c ''warnings'') raw; c = sent ! i in
            if excused reads sent c
            then shape_ok c \<and> (\<exists>rules. diagnosis_rules env reads rules \<and> contacts ! i = set_contact_meta c ''warnings''
                   (findings_json (diagnose_contact regex to_hz rules bands l (enrich_missing_dxcc (dxcc_db env) sent ! i))))
            else contact_typed regex to_hz rules bands l c \<and> contacts ! i = c))"

lemma prepared_contact:
  assumes run: "prepare_commit regex to_hz env bands reads l payload = Inr contacts"
  shows "checked_commit regex to_hz env bands reads l payload contacts"
proof -
  obtain raw sent ids where raw: "contacts_from_payload payload = Inr raw"
    and sent: "sent = map (\<lambda>c. remove_contact_meta c ''warnings'') raw"
    and ids: "diagnostic_ids (has_warnings reads) (enumerate 0 sent) {} = Inr ids"
    and valid: "validate_contacts regex to_hz (rules_store env) bands (first_reads reads) l sent ids = Inr ()"
    and made: "contacts = sent \<and> \<not> list_ex (is_diagnostic ids) sent
      \<or> (\<exists>rules. diagnosis_rules env reads rules
        \<and> contacts = map2 (attach_warnings regex to_hz rules bands l ids) sent (enrich_missing_dxcc (dxcc_db env) sent))"
    using prepare_commit_Inr [OF run] by blast
  from uploads_accepted [OF valid] obtain lg rules where lg: "read_log (first_reads reads) = Inr (Some lg)"
    and rules: "rules_store env (lg_contest_id lg) = Some rules" and size: "sent \<noteq> []" "length sent \<le> 100"
    and each: "\<forall>i<length sent. accepted_at regex to_hz rules bands (first_reads reads) l ids i (sent ! i)"
    by blast
  have diag: "is_diagnostic ids c \<longleftrightarrow> excused reads sent c" for c by (rule diagnostic_excused [OF ids])
  have "if excused reads sent (sent ! i)
      then shape_ok (sent ! i) \<and> (\<exists>rules. diagnosis_rules env reads rules \<and> contacts ! i = set_contact_meta (sent ! i) ''warnings''
             (findings_json (diagnose_contact regex to_hz rules bands l (enrich_missing_dxcc (dxcc_db env) sent ! i))))
      else contact_typed regex to_hz rules bands l (sent ! i) \<and> contacts ! i = sent ! i" if i: "i < length sent" for i
  proof (cases "excused reads sent (sent ! i)")
    case True
    then have d: "is_diagnostic ids (sent ! i)" by (simp add: diag)
    then have "list_ex (is_diagnostic ids) sent" using i by (auto simp: list_ex_iff)
    then obtain rules2 where d2: "diagnosis_rules env reads rules2"
      and "contacts = map2 (attach_warnings regex to_hz rules2 bands l ids) sent (enrich_missing_dxcc (dxcc_db env) sent)"
      using made by blast
    then have "contacts ! i = set_contact_meta (sent ! i) ''warnings''
        (findings_json (diagnose_contact regex to_hz rules2 bands l (enrich_missing_dxcc (dxcc_db env) sent ! i)))"
      using i d by (simp add: attach_warnings_def length_enrich)
    moreover have "shape_ok (sent ! i)"
      using each i d by (fastforce simp: accepted_at_def is_diagnostic_def split: option.splits)
    ultimately show ?thesis using True d2 by auto
  next
    case False
    then have d: "\<not> is_diagnostic ids (sent ! i)" by (simp add: diag)
    then have "contacts ! i = sent ! i" using made i by (auto simp: attach_warnings_def length_enrich)
    moreover have "contact_typed regex to_hz rules bands l (sent ! i)"
      using each i d by (fastforce simp: accepted_at_def is_diagnostic_def split: option.splits)
    ultimately show ?thesis using False by simp
  qed
  moreover have "length contacts = length raw" using made by (auto simp: sent length_enrich)
  ultimately show ?thesis
    unfolding checked_commit_def
  proof (intro exI [of _ raw] exI [of _ lg] exI [of _ rules] conjI)
    assume each: "\<And>i. i < length sent \<Longrightarrow> (if excused reads sent (sent ! i)
        then shape_ok (sent ! i) \<and> (\<exists>rules. diagnosis_rules env reads rules \<and> contacts ! i = set_contact_meta (sent ! i) ''warnings''
               (findings_json (diagnose_contact regex to_hz rules bands l (enrich_missing_dxcc (dxcc_db env) sent ! i))))
        else contact_typed regex to_hz rules bands l (sent ! i) \<and> contacts ! i = sent ! i)"
    have "length sent = length raw" by (simp add: sent)
    then show "\<forall>i<length raw. let sent = map (\<lambda>c. remove_contact_meta c ''warnings'') raw; c = sent ! i in
         if excused reads sent c
         then shape_ok c \<and> (\<exists>rules. diagnosis_rules env reads rules \<and> contacts ! i = set_contact_meta c ''warnings''
                (findings_json (diagnose_contact regex to_hz rules bands l (enrich_missing_dxcc (dxcc_db env) sent ! i))))
         else contact_typed regex to_hz rules bands l c \<and> contacts ! i = c"
      unfolding Let_def sent [symmetric] using each by (intro allI impI) simp
  qed (use raw lg rules size in \<open>simp_all add: sent\<close>)
qed

section \<open>Storing accepted contacts\<close>

text \<open>The checks of a contact trim its texts, the statement that stores it parses them as they are.\<close>

definition padded :: "json option \<Rightarrow> bool" where
  "padded v \<longleftrightarrow> (\<exists>s. v = Some (JString s) \<and> trim s \<noteq> s)"

lemma digits_no_ws: "digits_only s \<Longrightarrow> \<forall>c\<in>set s. \<not> is_ws c"
  by (auto simp: digits_only_def list_all_iff char_class_defs)

lemma parse_signed_trimmed: "parse_signed bits s = Some n \<Longrightarrow> trim s = s"
proof -
  assume parsed: "parse_signed bits s = Some n"
  have d: "digits_only (if prefix ''+'' s \<or> prefix ''-'' s then tl s else s)"
  proof (rule ccontr)
    assume "\<not> ?thesis"
    then have "parse_signed bits s = None" by (simp only: parse_signed_def Let_def simp_thms if_False)
    then show False using parsed by simp
  qed
  have "\<forall>c\<in>set s. \<not> is_ws c"
  proof (cases "prefix ''+'' s \<or> prefix ''-'' s")
    case True
    then obtain c t where s: "s = c # t" and c: "c = CHR ''+'' \<or> c = CHR ''-''" by (auto simp: prefix_def)
    have "digits_only t" using d True by (simp add: s)
    moreover have "\<not> is_ws c" using c by (auto simp: is_ws_def)
    ultimately show ?thesis using digits_no_ws by (simp add: s)
  next
    case False
    then show ?thesis using d digits_no_ws by simp
  qed
  then show "trim s = s" by (rule trim_no_ws)
qed

lemma parse_unsigned_signed:
  assumes "parse_unsigned 64 s = Some n" and "n < 2 ^ 63" shows "parse_signed 64 s \<noteq> None"
proof -
  have d: "digits_only (if prefix ''+'' s then tl s else s)" and n: "n = dec_value (if prefix ''+'' s then tl s else s)"
    using assms(1) by (auto simp: parse_unsigned_def Let_def split: if_splits)
  have "\<not> prefix ''-'' s"
  proof
    assume "prefix ''-'' s"
    then obtain t where "s = CHR ''-'' # t" by (auto simp: prefix_def)
    then show False using d by (simp add: digits_only_def char_class_defs)
  qed
  moreover have "int n < 2 ^ 63" using assms(2) by (simp add: of_nat_less_iff [symmetric] del: of_nat_less_iff)
  ultimately show ?thesis using d n by (auto simp: parse_signed_def Let_def)
qed

lemma set_trim_keeps: "\<not> is_ws c \<Longrightarrow> c \<in> set (trim s) \<longleftrightarrow> c \<in> set s"
proof -
  assume c: "\<not> is_ws c"
  have drop: "c \<in> set (dropWhile is_ws t) \<longleftrightarrow> c \<in> set t" for t by (induction t) (use c in auto)
  show ?thesis by (simp add: trim_def trim_start_def trim_end_def drop)
qed

lemma frequency_stored:
  assumes hz: "contact_frequency_hz to_hz v = Some hz" "hz \<le> 500000000"
    and same: "\<forall>t. to_hz t \<noteq> None \<longrightarrow> to_int t \<noteq> None" and blanks: "\<forall>t. trim t \<noteq> t \<longrightarrow> to_int t = None"
  shows "frequency_hz to_int v = None \<longleftrightarrow> padded v"
proof (cases "\<exists>s. v = Some (JString s)")
  case True
  then obtain s where v: "v = Some (JString s)" by blast
  have dot: "CHR ''.'' \<in> set (trim s) \<longleftrightarrow> CHR ''.'' \<in> set s" by (rule set_trim_keeps) (simp add: is_ws_def)
  have none: "frequency_hz to_int v = None" if "trim s \<noteq> s"
  proof -
    have "parse_signed 64 s = None" using that parse_signed_trimmed by (cases "parse_signed 64 s") auto
    then show ?thesis using blanks that by (simp add: frequency_hz_def v)
  qed
  have some: "frequency_hz to_int v \<noteq> None" if s: "trim s = s"
  proof (cases "CHR ''.'' \<in> set s")
    case True
    then show ?thesis using hz(1) same s by (auto simp: contact_frequency_hz_def frequency_hz_def v)
  next
    case False
    then have "parse_unsigned 64 s = Some hz" using hz(1) s by (simp add: contact_frequency_hz_def v)
    then show ?thesis using parse_unsigned_signed hz(2) False by (simp add: frequency_hz_def v)
  qed
  show ?thesis using none some by (auto simp: padded_def v)
next
  case False
  have "frequency_hz to_int v \<noteq> None"
  proof (cases "\<exists>n. v = Some (JInt n)")
    case True
    then obtain n where v: "v = Some (JInt n)" by blast
    show ?thesis
    proof (cases "0 \<le> n")
      case True
      then have "as_i64 (JInt n) = Some n" using hz by (auto simp: contact_frequency_hz_def v i64_min_def i64_max_def)
      then show ?thesis by (simp add: frequency_hz_def v)
    next
      case False
      then have "to_hz (int_string n) \<noteq> None" using hz(1) by (simp add: contact_frequency_hz_def v)
      then show ?thesis using same by (auto simp: frequency_hz_def v split: option.split)
    qed
  next
    case other: False
    obtain t where v: "v = Some (JFloat t)" and t: "to_hz t = Some hz"
      using hz(1) False other by (auto simp: contact_frequency_hz_def split: option.splits json.splits)
    have "to_int t \<noteq> None" using same t by auto
    then show ?thesis by (simp add: frequency_hz_def v)
  qed
  then show ?thesis using False by (auto simp: padded_def)
qed

lemma epoch_stored: "json_trimmed_i64 v \<noteq> None \<Longrightarrow> json_i64 v = None \<longleftrightarrow> padded v"
proof -
  assume some: "json_trimmed_i64 v \<noteq> None"
  have untrimmed: "trim s \<noteq> s \<Longrightarrow> parse_signed 64 s = None" for s using parse_signed_trimmed by (cases "parse_signed 64 s") auto
  show ?thesis using some untrimmed
    by (auto simp: json_trimmed_i64_def json_i64_def json_i64_value_def padded_def split: option.splits json.splits)
qed

lemma text_column: "json_string v = None \<longleftrightarrow> json_trimmed_string v = None"
  by (auto simp: json_string_def json_trimmed_string_def split: option.splits json.splits)

lemma adif_text_stored: "adif_text c k \<noteq> [] \<Longrightarrow> json_string (contact_adif_value c k) \<noteq> None"
  unfolding text_column by (cases "json_trimmed_string (contact_adif_value c k)") (simp_all add: adif_text_def)

lemmas set_adif_value = contact_adif_lookup [THEN conjunct2, THEN conjunct1]

lemma completed_fields:
  assumes "normalize_adif_field_name k \<noteq> ''CONTEST_ID''"
  shows "contact_adif_value (complete_contact l contest c) k = contact_adif_value c k"
proof -
  have "normalize_adif_field_name ''CONTEST_ID'' = ''CONTEST_ID''" by code_simp
  then show ?thesis using assms by (auto simp: complete_contact_def Let_def set_adif_value split: option.split list.split)
qed

lemma as_str_Some: "as_str v = Some s \<longleftrightarrow> v = JString s"
  by (cases v) auto

lemma completed_contest: "json_string (contact_adif_value (complete_contact l contest c) ''CONTEST_ID'') \<noteq> None"
  by (auto simp: complete_contact_def Let_def set_adif_value json_string_def as_str_Some split: option.splits list.splits bind_splits)

lemma completed_log: "0 < l \<Longrightarrow> l \<le> i64_max \<Longrightarrow> contact_log_id (complete_contact l contest c) = Some l"
  by (auto simp: complete_contact_def Let_def contact_log_id_set_log_id i64_min_def split: option.splits list.splits)

lemma sql_null [simp]: "sql_integer x = SqlNull \<longleftrightarrow> x = None" "sql_text t = SqlNull \<longleftrightarrow> t = None"
  by (simp_all add: sql_integer_def sql_text_def split: option.split)

lemma row_rejected_iff:
  assumes "contact_log_id d = Some l" and "l \<in> set log_ids"
  shows "row_rejected log_ids \<lparr>row_id = i, row_values = contact_to_sql_values env d\<rparr> \<longleftrightarrow>
    json_i64 (contact_adif_value d ''QSO_DATE_TIME_ON'') = None \<or> frequency_hz (decimal_hz env) (contact_adif_value d ''FREQ'') = None
    \<or> (\<exists>k\<in>{''STATION_CALLSIGN'', ''CONTEST_ID'', ''CALL'', ''BAND'', ''MODE''}. json_string (contact_adif_value d k) = None)"
proof -
  have col: "map_of (contact_to_sql_values env d) k = Some (column_value env d k)" if "k \<in> set (''LOG_ID'' # required_columns)" for k
    using that by (intro map_of_columns) (auto simp: required_columns_def QSO_COLUMNS_def)
  have "row_log_id \<lparr>row_id = i, row_values = contact_to_sql_values env d\<rparr> = l"
    using assms(1) by (simp add: row_log_id_def row_integer_def col column_value_def)
  moreover have "list_ex (\<lambda>k. map_of (contact_to_sql_values env d) k = Some SqlNull) required_columns
      \<longleftrightarrow> list_ex (\<lambda>k. column_value env d k = SqlNull) required_columns"
    using col by (auto simp: list_ex_iff)
  ultimately show ?thesis
    using assms(2) by (auto simp: row_rejected_def required_columns_def column_value_def INTEGER_COLUMNS_def)
qed

lemma callsign_ok_ne: "callsign_ok v \<Longrightarrow> v \<noteq> []"
  by (auto simp: callsign_ok_def parse_def Let_def split_middle_slash_def normalize_def)

text \<open>
  C32. A contact the validation accepts is stored unless its frequency or its time is a text with blanks
  around it: the check reads those texts trimmed, the statement that stores them does not, and then
  the whole upload fails although it was accepted. The two conversions of decimal texts to hertz agree
  on which trimmed texts they read, and neither reads blanks.
\<close>

theorem stored_unless_padded:
  assumes "contact_typed regex to_hz rules bands l c" and "0 < l" and "l \<le> i64_max" and "l \<in> set log_ids"
    and "\<forall>t. to_hz t \<noteq> None \<longrightarrow> decimal_hz env t \<noteq> None" and "\<forall>t. trim t \<noteq> t \<longrightarrow> decimal_hz env t = None"
    and "contact_id c \<noteq> None \<or> fresh_row_id env table \<noteq> None"
  shows "upsert_contact env log_ids (complete_contact l contest c) table = None \<longleftrightarrow>
    padded (contact_adif_value c ''FREQ'') \<or> padded (contact_adif_value c ''QSO_DATE_TIME_ON'')"
proof -
  let ?d = "complete_contact l contest c"
  have names: "normalize_adif_field_name k = k" "k \<noteq> ''CONTEST_ID''"
    if "k \<in> {''QSO_DATE_TIME_ON'', ''FREQ'', ''STATION_CALLSIGN'', ''CALL'', ''BAND'', ''MODE''}" for k
    using that by (auto simp: normalize_adif_field_name_def) code_simp+
  have "adif_text c k \<noteq> []" if "k \<in> {''STATION_CALLSIGN'', ''CALL'', ''BAND'', ''MODE''}" for k
    using that assms(1) callsign_ok_ne by (auto simp: contact_typed_def on_band_def in_mode_def mode_of_def)
  then have texts: "json_string (contact_adif_value ?d k) \<noteq> None"
    if "k \<in> {''STATION_CALLSIGN'', ''CONTEST_ID'', ''CALL'', ''BAND'', ''MODE''}" for k
    using that names completed_contest adif_text_stored completed_fields by (cases "k = ''CONTEST_ID''") auto
  obtain hz where hz: "contact_frequency_hz to_hz (contact_adif_value c ''FREQ'') = Some hz" "hz \<le> 500000000"
    and epoch: "json_trimmed_i64 (contact_adif_value c ''QSO_DATE_TIME_ON'') \<noteq> None"
    using assms(1) by (auto simp: contact_typed_def on_band_def)
  have same: "contact_adif_value ?d ''FREQ'' = contact_adif_value c ''FREQ''"
    "contact_adif_value ?d ''QSO_DATE_TIME_ON'' = contact_adif_value c ''QSO_DATE_TIME_ON''"
    using names by (simp_all add: completed_fields)
  have "row_rejected log_ids \<lparr>row_id = i, row_values = contact_to_sql_values env ?d\<rparr> \<longleftrightarrow>
      padded (contact_adif_value c ''FREQ'') \<or> padded (contact_adif_value c ''QSO_DATE_TIME_ON'')" for i
    unfolding row_rejected_iff [OF completed_log [OF assms(2,3)] assms(4)] same frequency_stored [OF hz assms(5,6)] epoch_stored [OF epoch]
    using texts by blast
  moreover have "contact_id ?d = contact_id c"
    by (auto simp: complete_contact_def Let_def split: option.splits list.splits)
  ultimately show ?thesis using assms(7) by (auto simp: upsert_contact_def Let_def split: option.splits)
qed

definition padded_contact :: contact where
  "padded_contact = set_contact_adif test_contact ''FREQ'' (JString ''14250000 '')"

lemma stored_unless_padded_witness:
  "contact_typed (\<lambda>_. Inl []) (\<lambda>_. None) test_rules [test_band] 1 padded_contact
   \<and> upsert_contact sample_env [1] (complete_contact 1 ''TEST'' padded_contact) [] = None
   \<and> upsert_contact sample_env [1] (complete_contact 1 ''TEST'' test_contact) [] \<noteq> None"
proof -
  have "validate_contact (\<lambda>_. Inl []) (\<lambda>_. None) test_rules [test_band] 1 padded_contact = Inr ()"
    and "validate_contact (\<lambda>_. Inl []) (\<lambda>_. None) test_rules [test_band] 1 test_contact = Inr ()"
    by code_simp+
  then have typed: "contact_typed (\<lambda>_. Inl []) (\<lambda>_. None) test_rules [test_band] 1 padded_contact"
    "contact_typed (\<lambda>_. Inl []) (\<lambda>_. None) test_rules [test_band] 1 test_contact"
    by (simp_all add: contact_typed_iff)
  have ids: "contact_id padded_contact \<noteq> None" "contact_id test_contact \<noteq> None" by code_simp+
  have "contact_adif_value padded_contact ''FREQ'' = Some (JString ''14250000 '')" "trim ''14250000 '' \<noteq> ''14250000 ''" by code_simp+
  then have pad: "padded (contact_adif_value padded_contact ''FREQ'')" by (simp add: padded_def)
  have "contact_adif_value test_contact ''FREQ'' = Some (JInt 14250000)"
    "contact_adif_value test_contact ''QSO_DATE_TIME_ON'' = Some (JInt 1700000000)" by code_simp+
  then have plain: "\<not> padded (contact_adif_value test_contact ''FREQ'')" "\<not> padded (contact_adif_value test_contact ''QSO_DATE_TIME_ON'')"
    by (simp_all add: padded_def)
  have env: "decimal_hz sample_env = (\<lambda>_. None)" by (simp add: sample_env_def)
  note iff = stored_unless_padded [where log_ids = "[1]" and env = sample_env and table = "[]" and contest = "''TEST''"]
  show ?thesis
    using typed(1) iff [OF typed(1)] iff [OF typed(2)] ids pad plain by (simp add: env i64_max_def)
qed

section \<open>Download names\<close>

text \<open>The name put into the header of a download has no character that could end the header or its quotes.\<close>

lemma set_trim_matches: "set (trim_matches c s) \<subseteq> set s"
  by (auto simp: trim_matches_def dest!: set_dropWhileD)

lemma clean_stem_safe: "clean_stem s \<noteq> [] \<and> list_all (\<lambda>c. plain_letter c \<or> c = CHR ''_'' \<or> c = CHR ''-'') (clean_stem s)"
proof (cases "clean_stem s = ''download''")
  case True
  have "list_all (\<lambda>c. plain_letter c \<or> c = CHR ''_'' \<or> c = CHR ''-'') ''download''"
    by (simp add: plain_letter_def is_lower_def)
  then show ?thesis unfolding True by simp
next
  case False
  then have "clean_stem s = trim_matches CHR ''_'' (map (\<lambda>c. if plain_letter c \<or> c = CHR ''_'' \<or> c = CHR ''-'' then c else CHR ''_'') s)"
    and "clean_stem s \<noteq> []" by (auto simp: clean_stem_def Let_def split: if_splits)
  moreover have "\<forall>c\<in>set (map (\<lambda>c. if plain_letter c \<or> c = CHR ''_'' \<or> c = CHR ''-'' then c else CHR ''_'') s).
      plain_letter c \<or> c = CHR ''_'' \<or> c = CHR ''-''" by auto
  ultimately show ?thesis using set_trim_matches by (auto simp only: list_all_iff)
qed

lemma download_name_safe:
  "sanitize_download_filename name \<noteq> []
   \<and> list_all (\<lambda>c. plain_letter c \<or> c \<in> {CHR ''_'', CHR ''-'', CHR ''.''}) (sanitize_download_filename name)"
proof -
  have ext: "list_all (\<lambda>c. plain_letter c \<or> c \<in> {CHR ''_'', CHR ''-'', CHR ''.''}) (clean_extension e)" for e
    by (auto simp: clean_extension_def list_all_iff)
  have stem: "list_all (\<lambda>c. plain_letter c \<or> c \<in> {CHR ''_'', CHR ''-'', CHR ''.''}) (clean_stem s)" "clean_stem s \<noteq> []" for s
    using clean_stem_safe [of s] by (auto simp: list_all_iff)
  show ?thesis
    using stem ext by (auto simp: sanitize_download_filename_def Let_def split: option.split prod.split)
qed

end
