(* ===== verification/CommitSpec.thy ===== *)
theory CommitSpec
  imports HandlersSpec Processors
begin

text \<open>
  A commit from the request to the cache: \<open>commit_contact\<close> on the log cache with its registered
  processors. What it stores and caches depends on the payload only through the checked contacts.
\<close>

section \<open>Committing contacts\<close>

text \<open>
  C12. Nothing a client commits reaches the database or the log cache unchecked. If a check fails the
  answer is its error, nothing is stored, the cache is unchanged and nobody is told. Otherwise the
  database is handed the checked contacts, with the country filled in, and nothing else: the answer,
  the messages and the cache are the same for any store that answers alike on them and any payload
  that checks to them. On a loaded log whose revision is current, if the store fails the answer is an
  error and the cache unchanged; if it succeeds, the cached records are updated exactly with the
  contacts it returned, the last of an id winning.
\<close>

theorem commit_checked:
  fixes regex :: regex_engine and env :: log_cache_env and up :: upsert_reads
  assumes "commit_contact regex to_hz env (registered now) totals bands reads up l payload lc = (answer, told, lc')"
  shows "case prepare_commit regex to_hz env bands reads l payload of
     Inl e \<Rightarrow> answer = Some (Inl e) \<and> told = [] \<and> lc' = lc
   | Inr contacts \<Rightarrow> checked_commit regex to_hz env bands reads l payload contacts
      \<and> (\<forall>store payload'. store (enrich_missing_dxcc (dxcc_db env) contacts) = up_store up (enrich_missing_dxcc (dxcc_db env) contacts) \<longrightarrow>
           prepare_commit regex to_hz env bands reads l payload' = Inr contacts \<longrightarrow>
           commit_contact regex to_hz env (registered now) totals bands reads (up\<lparr>up_store := store\<rparr>) l payload' lc = (answer, told, lc'))
      \<and> (\<forall>cl. cache_ok lc \<longrightarrow> hm_get (lc_logs lc) l = Some cl \<longrightarrow> up_current up = Some (cl_revision cl) \<longrightarrow>
           (case up_store up (enrich_missing_dxcc (dxcc_db env) contacts) of
              Inl e \<Rightarrow> answer = Some (Inl (internal (cache_error_text (DbError e)))) \<and> told = [] \<and> lc' = lc
            | Inr m \<Rightarrow> mut_previous_revision m = cl_revision cl \<longrightarrow> up_now up = Some (mut_revision m) \<longrightarrow>
                (\<exists>reply cl'. answer = Some (Inr reply) \<and> hm_get (lc_logs lc') l = Some cl' \<and> cl_revision cl' = mut_revision m
                  \<and> adif_with (cl_contacts cl') = records_after (mut_contacts m) (cl_contacts cl))))"
proof (cases "prepare_commit regex to_hz env bands reads l payload")
  case (Inl e)
  then show ?thesis using assms by (simp add: commit_contact_def)
next
  case (Inr contacts)
  let ?stored = "enrich_missing_dxcc (dxcc_db env) contacts"
  let ?up = "\<lambda>store. log_cache_upsert env (registered now) l (up_current up) (up_views up) store (up_now up)
      (up_current2 up) (up_views2 up) contacts lc"
  have "checked_commit regex to_hz env bands reads l payload contacts" by (rule prepared_contact [OF Inr])
  moreover have "commit_contact regex to_hz env (registered now) totals bands reads (up\<lparr>up_store := store\<rparr>) l payload' lc = (answer, told, lc')"
    if "store ?stored = up_store up ?stored" "prepare_commit regex to_hz env bands reads l payload' = Inr contacts"
    for store payload'
  proof -
    have "?up store = ?up (up_store up)" unfolding log_cache_upsert_def that(1) by (rule refl)
    then show ?thesis using assms that(2) by (simp add: commit_contact_def upsert_contacts_def Inr)
  qed
  moreover have "case up_store up ?stored of
        Inl e \<Rightarrow> answer = Some (Inl (internal (cache_error_text (DbError e)))) \<and> told = [] \<and> lc' = lc
      | Inr m \<Rightarrow> mut_previous_revision m = cl_revision cl \<longrightarrow> up_now up = Some (mut_revision m) \<longrightarrow>
          (\<exists>reply cl'. answer = Some (Inr reply) \<and> hm_get (lc_logs lc') l = Some cl' \<and> cl_revision cl' = mut_revision m
            \<and> adif_with (cl_contacts cl') = records_after (mut_contacts m) (cl_contacts cl))"
    if ok: "cache_ok lc" and cl: "hm_get (lc_logs lc) l = Some cl" and cur: "up_current up = Some (cl_revision cl)" for cl
  proof (cases "up_store up ?stored")
    case (Inl e)
    have "?up (up_store up) = (Some (Inl (DbError e)), lc)"
      using cl cur Inl by (simp add: log_cache_upsert_def ensure_loaded_locked_def is_loaded_def split: unit.split)
    then show ?thesis using assms Inl by (simp add: commit_contact_def upsert_contacts_def Inr)
  next
    case stored: (Inr m)
    have "\<exists>reply cl'. answer = Some (Inr reply) \<and> hm_get (lc_logs lc') l = Some cl' \<and> cl_revision cl' = mut_revision m
        \<and> adif_with (cl_contacts cl') = records_after (mut_contacts m) (cl_contacts cl)"
      if steady: "mut_previous_revision m = cl_revision cl" "up_now up = Some (mut_revision m)"
    proof -
      from running.cache_upsert_applies [where store = "up_store up" and env = env and contacts = contacts, OF ok cl cur stored steady] obtain result lc1 cl1 where
        run: "?up (up_store up) = (Some (Inr result), lc1)"
        and cl1: "hm_get (lc_logs lc1) l = Some cl1" "cl_revision cl1 = mut_revision m"
          "\<forall>i. adif_with (cl_contacts cl1) i = records_after (mut_contacts m) (cl_contacts cl) i" by blast
      obtain committed changed where "result = (committed, changed)" by fastforce
      then obtain reply where "answer = Some (Inr reply)" "lc' = lc1"
        using assms run by (auto simp: commit_contact_def upsert_contacts_def Inr Let_def)
      with cl1 show ?thesis by (auto simp: fun_eq_iff)
    qed
    with stored show ?thesis by simp
  qed
  ultimately show ?thesis unfolding Inr sum.case by blast
qed

section \<open>An accepted contact\<close>

definition test_env :: log_cache_env where
  "test_env = \<lparr>rules_store = map_of [(''TEST'', test_rules)], distance_fn = (\<lambda>_ _ _. 0), dxcc_db = \<lparr>entities = [], dxcc_rules = []\<rparr>\<rparr>"

definition test_commit :: commit_reads where
  "test_commit = \<lparr>has_warnings = (\<lambda>_. Inr False), first_reads = test_reads, log_again = Inr (Some test_log)\<rparr>"

definition test_view :: db_view where
  "test_view = \<lparr>view_snapshot = Inr (Some \<lparr>snap_log = test_log, snap_revision = 0, snap_contacts = empty_contacts\<rparr>),
     revision_before = Some 0, revision_after = Some 0\<rparr>"

definition loaded_test :: "processors_state log_cache" where
  "loaded_test = snd (contacts_display_page test_env (registered 300) 1 (Some 0) [test_view] 0 10 None no_logs)"

definition test_upsert :: upsert_reads where
  "test_upsert = \<lparr>up_current = Some 0, up_views = [],
     up_store = (\<lambda>cs. Inr \<lparr>mut_previous_revision = 0, mut_revision = 1, mut_contacts = cs\<rparr>),
     up_now = Some 1, up_current2 = None, up_views2 = []\<rparr>"

definition warned_payload :: json where
  "warned_payload = JObject (set_contact_meta test_contact ''warnings'' (JArray [JNull]))"

lemma loaded_test_ok: "cache_ok loaded_test"
proof -
  have "view_ok test_view" by (simp add: view_ok_def test_view_def empty_contacts_ok)
  then have "lc_reachable test_env loaded_test"
    unfolding loaded_test_def no_logs_def
    by (intro lc_reachable.page [OF lc_reachable.start, where views = "[test_view]"]) (auto intro: prod.collapse [symmetric])
  then show ?thesis using reachable_stats_follow by (simp add: stats_follow_def)
qed

theorem commit_checked_witness:
  "\<exists>contacts reply told lc' cl'.
     commit_contact (\<lambda>_. Inl []) (\<lambda>_. None) test_env (registered 300) (\<lambda>_ _. None) [test_band] test_commit test_upsert 1
       warned_payload loaded_test = (Some (Inr reply), told, lc')
     \<and> checked_commit (\<lambda>_. Inl []) (\<lambda>_. None) test_env [test_band] test_commit 1 warned_payload contacts
     \<and> contact_meta_value (contacts ! 0) ''warnings'' = None
     \<and> hm_get (lc_logs lc') 1 = Some cl' \<and> adif_with (cl_contacts cl') 4 \<noteq> None"
proof -
  let ?run = "commit_contact (\<lambda>_. Inl []) (\<lambda>_. None) test_env (registered 300) (\<lambda>_ _. None) [test_band] test_commit test_upsert 1
       warned_payload loaded_test"
  obtain answer told lc' where run: "?run = (answer, told, lc')" by (metis prod.collapse)
  have "case prepare_commit (\<lambda>_. Inl []) (\<lambda>_. None) test_env [test_band] test_commit 1 warned_payload of
      Inr contacts \<Rightarrow> contact_meta_value (contacts ! 0) ''warnings'' = None
        \<and> map contact_id (enrich_missing_dxcc (dxcc_db test_env) contacts) = [Some 4] | Inl _ \<Rightarrow> False" by code_simp
  then obtain contacts where p: "prepare_commit (\<lambda>_. Inl []) (\<lambda>_. None) test_env [test_band] test_commit 1 warned_payload = Inr contacts"
    and plain: "contact_meta_value (contacts ! 0) ''warnings'' = None"
    and ids: "map contact_id (enrich_missing_dxcc (dxcc_db test_env) contacts) = [Some 4]"
    by (auto split: sum.splits)
  have "map_option cl_revision (hm_get (lc_logs loaded_test) 1) = Some 0" by code_simp
  then obtain cl where cl: "hm_get (lc_logs loaded_test) 1 = Some cl" "cl_revision cl = 0" by auto
  note ok = commit_checked [OF run, unfolded p sum.case]
  let ?m = "\<lparr>mut_previous_revision = 0, mut_revision = 1, mut_contacts = enrich_missing_dxcc (dxcc_db test_env) contacts\<rparr>"
  have store: "up_store test_upsert (enrich_missing_dxcc (dxcc_db test_env) contacts) = Inr ?m"
    and cur: "up_current test_upsert = Some (cl_revision cl)" "up_now test_upsert = Some (mut_revision ?m)"
    by (simp_all add: test_upsert_def cl(2))
  from ok [THEN conjunct2, THEN conjunct2, THEN spec, THEN mp, OF loaded_test_ok, THEN mp, OF cl(1), THEN mp, OF cur(1), unfolded store sum.case]
    cur(2) cl(2)
  obtain reply cl' where r: "answer = Some (Inr reply)" "hm_get (lc_logs lc') 1 = Some cl'"
    "adif_with (cl_contacts cl') = records_after (mut_contacts ?m) (cl_contacts cl)" by auto
  obtain c where c: "enrich_missing_dxcc (dxcc_db test_env) contacts = [c]" "contact_id c = Some 4" using ids by auto
  have "adif_with (cl_contacts cl') 4 \<noteq> None"
    by (simp add: r(3) records_after_def contact_with_def c)
  with run r(1,2) conjunct1 [OF ok] plain show ?thesis by blast
qed

end
