(* ===== verification/DebugLog.thy ===== *)
theory DebugLog
  imports Contact
begin

text \<open>
  What \<open>backend/src/main.rs\<close> writes of a request's payload into the debug log: credentials and
  identities are left out, long texts are cut. The ellipsis in front of a cut is the argument \<open>dots\<close>,
  a character outside ASCII.
\<close>

definition MAX_DEBUG_PAYLOAD_LOG_LENGTH :: nat where "MAX_DEBUG_PAYLOAD_LOG_LENGTH = 4096"
definition MAX_DEBUG_LOG_STRING_LENGTH :: nat where "MAX_DEBUG_LOG_STRING_LENGTH = 256"

definition should_fully_redact_debug_field :: "string \<Rightarrow> bool" where
  "should_fully_redact_debug_field key \<longleftrightarrow>
     to_lower key \<in> set [''adif'', ''contest_params'', ''cw_messages'', ''digital_messages'', ''voice_messages'', ''dxcluster_commands'']"

definition should_redact_debug_string_field :: "string \<Rightarrow> bool" where
  "should_redact_debug_string_field key \<longleftrightarrow>
     to_lower key \<in> set [''call'', ''station_callsign'', ''dxcluster_callsign'', ''tcp_host'', ''dxcluster_host'', ''serial_port'',
       ''winkeyer_serial_port'', ''cw_serial_port'', ''sessionid'', ''session_id'', ''password'', ''passwd'', ''password_hash'',
       ''login_password'', ''login_password_change'', ''login_password_confirm'']"

definition redacted_debug_value_summary :: "json \<Rightarrow> string" where
  "redacted_debug_value_summary value =
     (case value of
        JString t \<Rightarrow> ''<redacted string length='' @ dec_string (length t) @ ''>''
      | JArray items \<Rightarrow> ''<redacted array length='' @ dec_string (length items) @ ''>''
      | JObject m \<Rightarrow> ''<redacted object keys='' @ dec_string (length m) @ ''>''
      | JNull \<Rightarrow> ''<redacted null>''
      | JBool _ \<Rightarrow> ''<redacted bool>''
      | JInt _ \<Rightarrow> ''<redacted number>''
      | JFloat _ \<Rightarrow> ''<redacted number>'')"

text \<open>What replaces a value because of its key.\<close>

definition redaction :: "string option \<Rightarrow> json \<Rightarrow> json option" where
  "redaction key value =
     Option.bind key (\<lambda>key.
       if should_fully_redact_debug_field key then Some (JString (redacted_debug_value_summary value))
       else if should_redact_debug_string_field key then Some (JString ''<redacted>'')
       else None)"

fun sanitize_debug_payload_value :: "string option \<Rightarrow> json \<Rightarrow> json" where
  "sanitize_debug_payload_value key value =
     (case redaction key value of
        Some r \<Rightarrow> r
      | None \<Rightarrow>
         (case value of
            JObject m \<Rightarrow> JObject (map (\<lambda>e. (fst e, sanitize_debug_payload_value (Some (fst e)) (snd e))) m)
          | JArray items \<Rightarrow> JArray (map (sanitize_debug_payload_value None) items)
          | JString t \<Rightarrow>
              if MAX_DEBUG_LOG_STRING_LENGTH < length t then JString (''<string length='' @ dec_string (length t) @ ''>'') else value
          | _ \<Rightarrow> value))"

declare sanitize_debug_payload_value.simps [simp del]

definition truncate_debug_log_text :: "char \<Rightarrow> string \<Rightarrow> nat \<Rightarrow> string" where
  "truncate_debug_log_text dots t max_len =
     (if length t \<le> max_len then t
      else let suffix = dots # ''<truncated total_chars='' @ dec_string (length t) @ ''>''
           in take (max_len - length suffix) t @ suffix)"

definition debug_payload_log :: "char \<Rightarrow> json \<Rightarrow> string" where
  "debug_payload_log dots value =
     truncate_debug_log_text dots (json_text (sanitize_debug_payload_value None value)) MAX_DEBUG_PAYLOAD_LOG_LENGTH"

section \<open>What the log shows\<close>

text \<open>
  Two payloads that differ only in secrets: below a key of the second list anything, below a key of the
  first list values of one kind and length, elsewhere the same but for the letters of long texts.
\<close>

inductive same_public :: "string option \<Rightarrow> json \<Rightarrow> json \<Rightarrow> bool" where
  Secret: "\<not> should_fully_redact_debug_field key \<Longrightarrow> should_redact_debug_string_field key \<Longrightarrow> same_public (Some key) v w"
| Summary: "should_fully_redact_debug_field key \<Longrightarrow> redacted_debug_value_summary v = redacted_debug_value_summary w
    \<Longrightarrow> same_public (Some key) v w"
| Object: "list_all2 (\<lambda>e f. fst e = fst f \<and> same_public (Some (fst e)) (snd e) (snd f)) m n \<Longrightarrow> same_public key (JObject m) (JObject n)"
| Array: "list_all2 (same_public None) vs ws \<Longrightarrow> same_public key (JArray vs) (JArray ws)"
| Long: "length t = length u \<Longrightarrow> MAX_DEBUG_LOG_STRING_LENGTH < length t \<Longrightarrow> same_public key (JString t) (JString u)"
| Same: "same_public key v v"

lemma list_all2_map: "list_all2 P xs ys \<Longrightarrow> (\<And>x y. P x y \<Longrightarrow> f x = g y) \<Longrightarrow> map f xs = map g ys"
  by (induction rule: list_all2_induct) auto

lemma same_public_sanitized: "same_public key v w \<Longrightarrow> sanitize_debug_payload_value key v = sanitize_debug_payload_value key w"
proof (induction rule: same_public.induct)
  case (Object m n key)
  have "map (\<lambda>e. (fst e, sanitize_debug_payload_value (Some (fst e)) (snd e))) m = map (\<lambda>e. (fst e, sanitize_debug_payload_value (Some (fst e)) (snd e))) n"
    by (rule list_all2_map [OF Object]) auto
  moreover have "redaction key (JObject m) = redaction key (JObject n)"
    using list_all2_lengthD [OF Object] by (cases key) (simp_all add: redaction_def redacted_debug_value_summary_def)
  ultimately show ?case by (simp add: sanitize_debug_payload_value.simps [of key] split: option.split)
next
  case (Array vs ws key)
  have "map (sanitize_debug_payload_value None) vs = map (sanitize_debug_payload_value None) ws"
    by (rule list_all2_map [OF Array]) simp
  moreover have "redaction key (JArray vs) = redaction key (JArray ws)"
    using list_all2_lengthD [OF Array] by (cases key) (simp_all add: redaction_def redacted_debug_value_summary_def)
  ultimately show ?case by (simp add: sanitize_debug_payload_value.simps [of key] split: option.split)
next
  case (Long t u key)
  then show ?case
    by (cases key) (simp_all add: sanitize_debug_payload_value.simps redaction_def redacted_debug_value_summary_def split: option.split)
qed (simp_all add: sanitize_debug_payload_value.simps redaction_def)

lemma truncated_length:
  assumes "length (dec_string (length t)) + 25 \<le> max_len"
  shows "length (truncate_debug_log_text dots t max_len) \<le> max_len"
  using assms by (auto simp: truncate_debug_log_text_def Let_def)

text \<open>
  The debug log shows nothing of a request's secrets: two payloads that differ only in what stands
  below the keys for passwords, callsigns, hosts, ports and sessions, in the contents (not the kind and
  length) below the keys for contacts, parameters and messages, or in the letters of texts of more
  than 256 characters, at any depth, leave the same line in the log.
\<close>

theorem debug_log_hides_secrets:
  assumes "same_public None v w"
  shows "debug_payload_log dots v = debug_payload_log dots w"
  by (simp add: debug_payload_log_def same_public_sanitized [OF assms])

definition login_request :: "string \<Rightarrow> json" where
  "login_request password =
     JObject [(''config'', JObject [(''login_password_change'', JString password), (''login_user'', JString ''n0call'')]), (''iaru_region'', JInt 2)]"

lemma debug_log_hides_secrets_witness:
  "debug_payload_log dots (login_request ''hunter2'') = debug_payload_log dots (login_request ''correct horse'')
   \<and> debug_payload_log (CHR ''.'') (login_request ''hunter2'')
     = json_text (JObject [(''config'', JObject [(''login_password_change'', JString ''<redacted>''), (''login_user'', JString ''n0call'')]), (''iaru_region'', JInt 2)])"
proof
  have key: "\<not> should_fully_redact_debug_field ''login_password_change''" "should_redact_debug_string_field ''login_password_change''"
    by code_simp+
  have "same_public None (login_request ''hunter2'') (login_request ''correct horse'')"
  proof -
    have "same_public (Some ''login_password_change'') (JString ''hunter2'') (JString ''correct horse'')"
      by (rule Secret [OF key])
    then have "same_public (Some ''config'') (JObject [(''login_password_change'', JString ''hunter2''), (''login_user'', JString ''n0call'')])
        (JObject [(''login_password_change'', JString ''correct horse''), (''login_user'', JString ''n0call'')])"
      by (intro Object) (simp add: Same)
    then show ?thesis unfolding login_request_def by (intro Object) (simp add: Same)
  qed
  then show "debug_payload_log dots (login_request ''hunter2'') = debug_payload_log dots (login_request ''correct horse'')"
    by (rule debug_log_hides_secrets)
  show "debug_payload_log (CHR ''.'') (login_request ''hunter2'')
     = json_text (JObject [(''config'', JObject [(''login_password_change'', JString ''<redacted>''), (''login_user'', JString ''n0call'')]), (''iaru_region'', JInt 2)])"
    by code_simp
qed

end
