(* ===== verification/Messages.thy ===== *)
theory Messages
  imports Modes
begin

text \<open>
  The messages on the function keys, from \<open>radio-io/src\<close>: \<open>messages.rs\<close> parses and checks a text with one
  message in a line under headers for the two message modes, \<open>cw.rs\<close>, \<open>digital_messages.rs\<close> and
  \<open>voice_messages.rs\<close> read it as texts to send or files to play. Paths are Unix paths.
\<close>

section \<open>Lines\<close>

definition apostrophe :: char where "apostrophe = char_of (39 :: nat)"

record message_entry =
  entry_mode :: string
  entry_key :: string
  entry_label :: string
  entry_target :: string

definition parse_message_line :: "string \<Rightarrow> string option \<Rightarrow> message_entry option" where
  "parse_message_line line mode =
     Option.bind (split_once CHR '','' line) (\<lambda>(key_and_label, target).
       let key = to_upper (trim (takeWhile (\<lambda>c. \<not> is_ws c) key_and_label));
           label = trim (drop 1 (dropWhile (\<lambda>c. \<not> is_ws c) key_and_label))
       in if \<not> prefix ''F'' key then None
          else Some \<lparr>entry_mode = unwrap_or_default mode, entry_key = key, entry_label = label, entry_target = trim target\<rparr>)"

fun entries_from :: "string option \<Rightarrow> string list \<Rightarrow> message_entry list" where
  "entries_from mode [] = []"
| "entries_from mode (raw # lines) =
     (let line = trim raw
      in if line = [] then entries_from mode lines
         else (case parse_message_mode_section_header line of
            Some m \<Rightarrow> entries_from (Some m) lines
          | None \<Rightarrow>
              if prefix ''#'' line \<or> mode = None then entries_from mode lines
              else (case parse_message_line line mode of
                 None \<Rightarrow> entries_from mode lines
               | Some entry \<Rightarrow> entry # entries_from mode lines)))"

definition parse_message_entries :: "string \<Rightarrow> message_entry list" where
  "parse_message_entries config = entries_from None (text_lines config)"

definition is_valid_function_key :: "string \<Rightarrow> bool" where
  "is_valid_function_key key \<longleftrightarrow>
     to_upper (trim key) \<in> set [''F1'', ''F2'', ''F3'', ''F4'', ''F5'', ''F6'', ''F7'', ''F8'', ''F9'', ''F10'', ''F11'', ''F12'']"

definition at_line :: "nat \<Rightarrow> string \<Rightarrow> string" where
  "at_line n message = ''line '' @ dec_string n @ '': '' @ message"

text \<open>The loop, with the keys seen in the Run and in the S\&P sections; the result is the final two sets.\<close>

fun check_lines ::
  "string \<Rightarrow> string option \<Rightarrow> string set \<Rightarrow> string set \<Rightarrow> (nat \<times> string) list \<Rightarrow> string + string set \<times> string set" where
  "check_lines target_label mode run sp [] = Inr (run, sp)"
| "check_lines target_label mode run sp ((n, raw) # lines) =
     (let line = trim raw
      in if line = [] then check_lines target_label mode run sp lines
         else (case parse_message_mode_section_header line of
            Some m \<Rightarrow> check_lines target_label (Some m) run sp lines
          | None \<Rightarrow>
              if prefix ''#'' line then check_lines target_label mode run sp lines
              else ebind (ok_or mode (at_line n ''message is outside a mode section'')) (\<lambda>m.
                   ebind (ok_or (parse_message_line line (Some m)) (at_line n (''expected '' @ [apostrophe] @ ''F# Label,'' @ target_label @ [apostrophe])))
                     (\<lambda>entry.
                   ebind (require (is_valid_function_key (entry_key entry)) (at_line n ''message key must be F1 through F12'')) (\<lambda>_.
                   ebind (require (entry_key entry \<notin> (if m = RUN_MESSAGE_MODE then run else sp))
                            (at_line n (''duplicate '' @ entry_key entry @ '' message in '' @ m @ '' section''))) (\<lambda>_.
                   if m = RUN_MESSAGE_MODE then check_lines target_label mode (insert (entry_key entry) run) sp lines
                   else check_lines target_label mode run (insert (entry_key entry) sp) lines))))))"

definition validate_message_config :: "string \<Rightarrow> string \<Rightarrow> string + unit" where
  "validate_message_config config target_label =
     ebind (check_lines target_label None {} {} (enumerate 1 (text_lines config))) (\<lambda>(run, sp). first_error
       [require (run \<noteq> {}) ''messages must include at least one Run message'',
        require (sp \<noteq> {}) ''messages must include at least one S&P message''])"

definition action_from_template :: "string \<Rightarrow> string option" where
  "action_from_template template =
     Option.bind (strip_prefix ''{'' (trim template)) (\<lambda>rest.
     Option.bind (strip_suffix ''}'' rest) (\<lambda>inner.
     Option.bind (split_once CHR '':'' (trim inner)) (\<lambda>(name, value_text).
       let v = trim value_text
       in if eq_ignore_case (trim name) ''action'' \<and> v \<noteq> [] \<and> CHR ''{'' \<notin> set v \<and> CHR ''}'' \<notin> set v then Some v else None)))"

section \<open>Texts\<close>

text \<open>\<open>str::replace\<close>.\<close>

fun replace_text :: "string \<Rightarrow> string \<Rightarrow> string \<Rightarrow> string" where
  "replace_text p q [] = []"
| "replace_text p q (c # s) =
     (if p \<noteq> [] \<and> prefix p (c # s) then q @ replace_text p q (drop (length p - 1) s) else c # replace_text p q s)"

record mode_labels =
  run_labels :: "(string \<times> string) list"
  sp_labels :: "(string \<times> string) list"

definition entries_in :: "string \<Rightarrow> message_entry list \<Rightarrow> message_entry list" where
  "entries_in mode entries = filter (\<lambda>e. entry_mode e = mode) entries"

definition message_labels :: "string \<Rightarrow> mode_labels" where
  "message_labels config =
     (let entries = parse_message_entries config;
          of_mode = (\<lambda>mode. map (\<lambda>e. (entry_key e, entry_label e)) (entries_in mode entries))
      in \<lparr>run_labels = of_mode RUN_MESSAGE_MODE, sp_labels = of_mode SEARCH_AND_POUNCE_MESSAGE_MODE\<rparr>)"

definition validate_text_messages :: "string \<Rightarrow> string + mode_labels" where
  "validate_text_messages config =
     ebind (map_error (replace_text ''messages must'' ''CW messages must'') (validate_message_config config ''Message'')) (\<lambda>_.
     Inr (message_labels config))"

section \<open>Voice files\<close>

record voice_entry =
  voice_mode :: string
  voice_key :: string
  voice_label :: string
  file_path :: "string option"
  voice_action :: "string option"

definition file_path_from_target :: "string \<Rightarrow> string option" where
  "file_path_from_target target =
     (if trim target = [] \<or> action_from_template (trim target) \<noteq> None then None else Some (trim target))"

definition voice_entry_of :: "string \<Rightarrow> message_entry \<Rightarrow> voice_entry" where
  "voice_entry_of mode e =
     (let action = action_from_template (entry_target e)
      in \<lparr>voice_mode = mode, voice_key = entry_key e, voice_label = entry_label e,
          file_path = (if action \<noteq> None then None else file_path_from_target (entry_target e)), voice_action = action\<rparr>)"

definition voice_entries :: "string \<Rightarrow> voice_entry list" where
  "voice_entries config =
     (let entries = parse_message_entries config
      in concat (map (\<lambda>mode. map (voice_entry_of mode) (entries_in mode entries)) [RUN_MESSAGE_MODE, SEARCH_AND_POUNCE_MESSAGE_MODE]))"

text \<open>\<open>Path::components\<close>: empty parts are skipped, and a part \<open>.\<close> unless it is the first.\<close>

datatype path_component = RootDir | CurDir | ParentDir | Normal string

definition part_component :: "string \<Rightarrow> path_component" where
  "part_component part = (if part = ''..'' then ParentDir else Normal part)"

definition path_components :: "string \<Rightarrow> path_component list" where
  "path_components path =
     (let parts = split_on CHR ''/'' path;
          rest = map part_component (filter (\<lambda>p. p \<noteq> [] \<and> p \<noteq> ''.'') parts)
      in if prefix ''/'' path then RootDir # rest else if hd parts = ''.'' then CurDir # rest else rest)"

text \<open>The extension of a file name: what stands behind its last dot, unless that is its first character.\<close>

definition path_extension :: "path_component list \<Rightarrow> string option" where
  "path_extension components =
     (case components of
        [] \<Rightarrow> None
      | _ \<Rightarrow> (case last components of
            Normal name \<Rightarrow>
              let stem = dropWhile (\<lambda>c. c \<noteq> CHR ''.'') (rev name)
              in if length stem \<le> 1 then None else Some (rev (takeWhile (\<lambda>c. c \<noteq> CHR ''.'') (rev name)))
          | _ \<Rightarrow> None))"

fun is_normal :: "path_component \<Rightarrow> bool" where
  "is_normal (Normal _) \<longleftrightarrow> True"
| "is_normal _ \<longleftrightarrow> False"

fun component_error :: "path_component \<Rightarrow> string + unit" where
  "component_error (Normal _) = Inr ()"
| "component_error ParentDir = Inl (''voice message file path cannot contain '' @ [apostrophe] @ ''..'' @ [apostrophe])"
| "component_error CurDir = Inl (''voice message file path cannot contain '' @ [apostrophe] @ ''.'' @ [apostrophe])"
| "component_error RootDir = Inl ''voice message file path must be relative to voicekeyer/''"

definition validate_voice_file_path :: "string \<Rightarrow> string + unit" where
  "validate_voice_file_path path =
     (let trimmed = trim path; components = path_components trimmed
      in ebind (require (trimmed \<noteq> []) ''voice message file path is required'') (\<lambda>_.
         ebind (require (\<not> prefix ''/'' trimmed) ''voice message file path must be relative to voicekeyer/'') (\<lambda>_.
         ebind (first_error (map component_error components)) (\<lambda>_. first_error
           [require (list_ex is_normal components) ''voice message file path is required'',
            require (case path_extension components of Some e \<Rightarrow> eq_ignore_case e ''wav'' | None \<Rightarrow> False)
              ''voice message file must be a .wav file'']))))"

definition voicekeyer_file_path :: "string \<Rightarrow> string \<Rightarrow> string + string" where
  "voicekeyer_file_path dir path =
     ebind (validate_voice_file_path path) (\<lambda>_. Inr (dir @ ''/'' @ trim path))"

definition is_field_placeholder :: "string \<Rightarrow> bool" where
  "is_field_placeholder name \<longleftrightarrow> name \<noteq> [] \<and> list_all (\<lambda>c. is_upper c \<or> is_digit c \<or> c = CHR ''_'') name"

text \<open>A name runs from an opening brace to the next closing one, or to the end.\<close>

definition brace_name :: "string \<Rightarrow> string" where "brace_name s = takeWhile (\<lambda>c. c \<noteq> CHR ''}'') s"
definition behind_brace :: "string \<Rightarrow> string" where "behind_brace s = drop 1 (dropWhile (\<lambda>c. c \<noteq> CHR ''}'') s)"

lemma length_behind_brace [termination_simp]: "length (behind_brace s) < Suc (length s)"
  using length_dropWhile_le [of "\<lambda>c. c \<noteq> CHR ''}''" s] by (simp add: behind_brace_def)

fun file_path_has_template :: "string \<Rightarrow> bool" where
  "file_path_has_template [] \<longleftrightarrow> False"
| "file_path_has_template (c # s) \<longleftrightarrow>
     (if c \<noteq> CHR ''{'' then file_path_has_template s
      else is_field_placeholder (brace_name s) \<or> file_path_has_template (behind_brace s))"

fun template_path_example :: "string \<Rightarrow> string" where
  "template_path_example [] = []"
| "template_path_example (c # s) =
     (if c \<noteq> CHR ''{'' then c # template_path_example s
      else let closed = CHR ''}'' \<in> set s
           in (if closed \<and> is_field_placeholder (brace_name s) then ''X''
               else ''{'' @ brace_name s @ (if closed then ''}'' else []))
              @ template_path_example (behind_brace s))"

fun voice_path_errors :: "(nat \<times> voice_entry) list \<Rightarrow> string + unit" where
  "voice_path_errors [] = Inr ()"
| "voice_path_errors ((i, e) # entries) =
     (case map_option validate_voice_file_path (file_path e) of
        Some (Inl m) \<Rightarrow> Inl (at_line (Suc i) m)
      | _ \<Rightarrow> voice_path_errors entries)"

definition validate_voice_messages :: "string \<Rightarrow> string + mode_labels" where
  "validate_voice_messages config =
     ebind (map_error (replace_text ''messages must'' ''Voice messages must'') (validate_message_config config ''File'')) (\<lambda>_.
     ebind (voice_path_errors (enumerate 0 (voice_entries config))) (\<lambda>_. Inr (message_labels config)))"

definition mode_label :: "string \<Rightarrow> string" where
  "mode_label mode = (if mode = ''run'' then ''Run'' else ''S&P'')"

text \<open>\<open>existing\<close> is what the file system answers for a path without placeholders.\<close>

fun voice_files_checked :: "(string \<Rightarrow> string + string) \<Rightarrow> voice_entry list \<Rightarrow> string + unit" where
  "voice_files_checked existing [] = Inr ()"
| "voice_files_checked existing (e # entries) =
     (case file_path e of
        None \<Rightarrow> voice_files_checked existing entries
      | Some path \<Rightarrow>
          ebind (map_error (\<lambda>m. mode_label (voice_mode e) @ '' '' @ voice_key e @ '' '' @ m)
                   (if file_path_has_template path then validate_voice_file_path (template_path_example path)
                    else ebind (existing path) (\<lambda>_. Inr ()))) (\<lambda>_.
          voice_files_checked existing entries))"

definition validate_with_voicekeyer_dir :: "(string \<Rightarrow> string + string) \<Rightarrow> string \<Rightarrow> string + mode_labels" where
  "validate_with_voicekeyer_dir existing config =
     ebind (validate_voice_messages config) (\<lambda>labels.
     ebind (voice_files_checked existing (voice_entries config)) (\<lambda>_. Inr labels))"

end
