(* ===== verification/MessagesSpec.thy ===== *)
theory MessagesSpec
  imports Messages
begin

text \<open>
  What the checks of the message texts are for: every function key of a mode has one message, and a
  voice file lies below the directory of the voice keyer.
\<close>

section \<open>Function keys\<close>

definition function_keys :: "string set" where
  "function_keys = {''F1'', ''F2'', ''F3'', ''F4'', ''F5'', ''F6'', ''F7'', ''F8'', ''F9'', ''F10'', ''F11'', ''F12''}"

lemma header_mode: "parse_message_mode_section_header line = Some m \<Longrightarrow> m \<in> {RUN_MESSAGE_MODE, SEARCH_AND_POUNCE_MESSAGE_MODE}"
  by (auto simp: parse_message_mode_section_header_def Let_def split: if_splits)

lemma modes_differ [simp]: "RUN_MESSAGE_MODE \<noteq> SEARCH_AND_POUNCE_MESSAGE_MODE" "SEARCH_AND_POUNCE_MESSAGE_MODE \<noteq> RUN_MESSAGE_MODE"
  by (simp_all add: RUN_MESSAGE_MODE_def SEARCH_AND_POUNCE_MESSAGE_MODE_def)

lemma line_key:
  assumes "parse_message_line line mode = Some e" and "is_valid_function_key (entry_key e)"
  shows "entry_key e \<in> function_keys"
proof -
  obtain k where key: "entry_key e = to_upper (trim (takeWhile (\<lambda>c. \<not> is_ws c) k))"
    using assms(1) by (auto simp: parse_message_line_def Let_def bind_eq_Some_conv split: if_splits)
  have "to_upper (trim (entry_key e)) = entry_key e"
    unfolding key by (simp add: trim_to_upper trim_idem to_upper_idem)
  then show ?thesis using assms(2) by (auto simp: is_valid_function_key_def function_keys_def)
qed

lemma line_mode: "parse_message_line line (Some m) = Some e \<Longrightarrow> entry_mode e = m"
  by (auto simp: parse_message_line_def Let_def bind_eq_Some_conv split: if_splits)

definition mode_keys :: "string \<Rightarrow> message_entry list \<Rightarrow> string list" where
  "mode_keys mode entries = map entry_key (entries_in mode entries)"

text \<open>What a run of the loop has found out about the entries of its lines.\<close>

definition keys_found :: "string set \<Rightarrow> string set \<Rightarrow> message_entry list \<Rightarrow> string set \<Rightarrow> string set \<Rightarrow> bool" where
  "keys_found run sp es run' sp' \<longleftrightarrow>
     run' = run \<union> set (mode_keys RUN_MESSAGE_MODE es) \<and> sp' = sp \<union> set (mode_keys SEARCH_AND_POUNCE_MESSAGE_MODE es)
     \<and> distinct (mode_keys RUN_MESSAGE_MODE es) \<and> distinct (mode_keys SEARCH_AND_POUNCE_MESSAGE_MODE es)
     \<and> set (mode_keys RUN_MESSAGE_MODE es) \<inter> run = {} \<and> set (mode_keys SEARCH_AND_POUNCE_MESSAGE_MODE es) \<inter> sp = {}
     \<and> (\<forall>e\<in>set es. entry_mode e \<in> {RUN_MESSAGE_MODE, SEARCH_AND_POUNCE_MESSAGE_MODE} \<and> entry_key e \<in> function_keys)"

lemma keys_found_run:
  assumes "keys_found (insert (entry_key e) run) sp es run' sp'" and "entry_mode e = RUN_MESSAGE_MODE"
    and "entry_key e \<in> function_keys" and "entry_key e \<notin> run"
  shows "keys_found run sp (e # es) run' sp'"
  using assms by (auto simp: keys_found_def mode_keys_def entries_in_def)

lemma keys_found_sp:
  assumes "keys_found run (insert (entry_key e) sp) es run' sp'" and "entry_mode e = SEARCH_AND_POUNCE_MESSAGE_MODE"
    and "entry_key e \<in> function_keys" and "entry_key e \<notin> sp"
  shows "keys_found run sp (e # es) run' sp'"
  using assms by (auto simp: keys_found_def mode_keys_def entries_in_def)

lemma check_lines_entries:
  "check_lines label mode run sp lines = Inr (run', sp') \<Longrightarrow> (\<forall>m. mode = Some m \<longrightarrow> m \<in> {RUN_MESSAGE_MODE, SEARCH_AND_POUNCE_MESSAGE_MODE})
    \<Longrightarrow> keys_found run sp (entries_from mode (map snd lines)) run' sp'"
proof (induction label mode run sp lines rule: check_lines.induct)
  case (1 label mode run sp)
  then show ?case by (simp add: keys_found_def mode_keys_def entries_in_def)
next
  case (2 label mode run sp n raw lines)
  let ?line = "trim raw"
  consider "?line = []" | m where "?line \<noteq> []" "parse_message_mode_section_header ?line = Some m"
    | "?line \<noteq> []" "parse_message_mode_section_header ?line = None" "prefix ''#'' ?line"
    | m e where "?line \<noteq> []" "parse_message_mode_section_header ?line = None" "\<not> prefix ''#'' ?line" "mode = Some m"
        "parse_message_line ?line (Some m) = Some e" "is_valid_function_key (entry_key e)"
        "entry_key e \<notin> (if m = RUN_MESSAGE_MODE then run else sp)"
    using "2.prems"(1) by (cases "parse_message_mode_section_header ?line") (auto simp: Let_def split: if_splits)
  then show ?case
  proof cases
    case 1
    then show ?thesis using "2.IH"(1) [OF refl 1] "2.prems" by (simp add: Let_def)
  next
    case (2 m)
    have "check_lines label (Some m) run sp lines = Inr (run', sp')" using "2.prems"(1) 2 by (simp add: Let_def)
    from "2.IH"(5) [OF refl 2 this] show ?thesis using 2 header_mode [OF 2(2)] by (simp add: Let_def)
  next
    case 3
    have "check_lines label mode run sp lines = Inr (run', sp')" using "2.prems"(1) 3 by (simp add: Let_def)
    from "2.IH"(2) [OF refl 3 this "2.prems"(2)] show ?thesis using 3 by (simp add: Let_def)
  next
    case (4 m e)
    note mode = line_mode [OF 4(5)] and key = line_key [OF 4(5,6)]
    have m: "m \<in> {RUN_MESSAGE_MODE, SEARCH_AND_POUNCE_MESSAGE_MODE}" using "2.prems"(2) 4(4) by blast
    have es: "entries_from mode (map snd ((n, raw) # lines)) = e # entries_from mode (map snd lines)"
      using 4 by (simp add: Let_def)
    show ?thesis
    proof (cases "m = RUN_MESSAGE_MODE")
      case True
      have "check_lines label mode (insert (entry_key e) run) sp lines = Inr (run', sp')"
        using "2.prems"(1) 4 True by (simp add: Let_def ok_or_def)
      from "2.IH"(3) [OF refl 4(1-3) True this "2.prems"(2)] show ?thesis
        unfolding es using keys_found_run mode key 4(7) True by simp
    next
      case False
      have "check_lines label mode run (insert (entry_key e) sp) lines = Inr (run', sp')"
        using "2.prems"(1) 4 False by (simp add: Let_def ok_or_def)
      from "2.IH"(4) [OF refl 4(1-3) False this "2.prems"(2)] show ?thesis
        unfolding es using keys_found_sp mode key 4(7) False m by simp
    qed
  qed
qed

text \<open>
  In messages that pass the check every line that is neither blank, comment nor header is a message
  of a mode on one of the keys F1 to F12; no key of a mode has two messages, and each mode has at least
  one.
\<close>

theorem validated_messages:
  assumes "validate_message_config config target_label = Inr ()"
  shows "distinct (map (\<lambda>e. (entry_mode e, entry_key e)) (parse_message_entries config))
    \<and> (\<forall>e\<in>set (parse_message_entries config). entry_mode e \<in> {RUN_MESSAGE_MODE, SEARCH_AND_POUNCE_MESSAGE_MODE} \<and> entry_key e \<in> function_keys)
    \<and> (\<forall>mode\<in>{RUN_MESSAGE_MODE, SEARCH_AND_POUNCE_MESSAGE_MODE}. entries_in mode (parse_message_entries config) \<noteq> [])"
proof -
  let ?es = "parse_message_entries config"
  obtain run sp where run: "check_lines target_label None {} {} (enumerate 1 (text_lines config)) = Inr (run, sp)"
    and some: "run \<noteq> {}" "sp \<noteq> {}"
    using assms by (auto simp: validate_message_config_def)
  have found: "keys_found {} {} ?es run sp"
    using check_lines_entries [OF run] by (simp add: parse_message_entries_def)
  then have modes: "\<forall>e\<in>set ?es. entry_mode e \<in> {RUN_MESSAGE_MODE, SEARCH_AND_POUNCE_MESSAGE_MODE} \<and> entry_key e \<in> function_keys"
    and keys: "distinct (mode_keys RUN_MESSAGE_MODE ?es)" "distinct (mode_keys SEARCH_AND_POUNCE_MESSAGE_MODE ?es)"
    and sets: "run = set (mode_keys RUN_MESSAGE_MODE ?es)" "sp = set (mode_keys SEARCH_AND_POUNCE_MESSAGE_MODE ?es)"
    by (simp_all add: keys_found_def)
  have "distinct (map (\<lambda>e. (entry_mode e, entry_key e)) es)"
    if "\<forall>e\<in>set es. entry_mode e \<in> {RUN_MESSAGE_MODE, SEARCH_AND_POUNCE_MESSAGE_MODE}"
      and "distinct (mode_keys RUN_MESSAGE_MODE es)" and "distinct (mode_keys SEARCH_AND_POUNCE_MESSAGE_MODE es)" for es
    using that by (induction es) (auto simp: mode_keys_def entries_in_def split: if_splits)
  then have "distinct (map (\<lambda>e. (entry_mode e, entry_key e)) ?es)" using modes keys by blast
  moreover have "\<forall>mode\<in>{RUN_MESSAGE_MODE, SEARCH_AND_POUNCE_MESSAGE_MODE}. entries_in mode ?es \<noteq> []"
    using some sets by (auto simp: mode_keys_def)
  ultimately show ?thesis using modes by blast
qed

definition sample_messages :: string where
  "sample_messages = join_with [newline] [''# RUN Messages'', ''f1 Cq,CQ TEST'', [], ''F12 Clear,{Action:Clear}'', ''# S&P Messages'', ''F1 Qrl?,QRL?'']"

lemma validated_messages_witness:
  "length (parse_message_entries sample_messages) = 3
     \<and> distinct (map (\<lambda>e. (entry_mode e, entry_key e)) (parse_message_entries sample_messages))"
proof -
  have "validate_message_config sample_messages ''Message'' = Inr ()" and "length (parse_message_entries sample_messages) = 3"
    by code_simp+
  then show ?thesis using validated_messages by blast
qed

section \<open>Voice files\<close>

text \<open>What a path leads to from a directory, names from the root on; \<open>..\<close> goes up.\<close>

fun walk :: "string list \<Rightarrow> path_component list \<Rightarrow> string list" where
  "walk names [] = names"
| "walk names (RootDir # cs) = walk [] cs"
| "walk names (CurDir # cs) = walk names cs"
| "walk names (ParentDir # cs) = walk (butlast names) cs"
| "walk names (Normal n # cs) = walk (names @ [n]) cs"

lemma walk_append: "walk names (cs @ ds) = walk (walk names cs) ds"
  by (induction names cs rule: walk.induct) simp_all

lemma walk_normal: "list_all is_normal cs \<Longrightarrow> \<exists>ns. length ns = length cs \<and> walk names cs = names @ ns"
proof (induction cs arbitrary: names)
  case (Cons c cs)
  then obtain n where "c = Normal n" by (cases c) simp_all
  moreover obtain ns where "length ns = length cs" "walk (names @ [n]) cs = (names @ [n]) @ ns"
    using Cons.IH [of "names @ [n]"] Cons.prems by auto
  ultimately show ?case by (intro exI [of _ "n # ns"]) simp
qed simp

lemma split_on_join: "split_on d (a @ d # b) = split_on d a @ split_on d b"
  by (induction a) (auto split: list.splits)

lemma components_below:
  assumes "\<not> prefix ''/'' path" and "dir \<noteq> []" and "hd (split_on CHR ''/'' path) \<noteq> ''.''"
  shows "path_components (dir @ ''/'' @ path) = path_components dir @ path_components path"
proof -
  have "prefix ''/'' (dir @ ''/'' @ path) \<longleftrightarrow> prefix ''/'' dir" using assms(2) by (cases dir) simp_all
  then show ?thesis
    using assms(1,3) by (simp add: path_components_def Let_def split_on_join)
qed

lemma component_ok: "component_error c = Inr () \<longleftrightarrow> is_normal c"
  by (cases c) simp_all

text \<open>
  A voice file that passes the check lies below the directory of the voice keyer: following the
  joined path ends in the directory followed by at least one more name.
\<close>

theorem voice_file_below:
  assumes "voicekeyer_file_path dir path = Inr full" and "dir \<noteq> []"
  shows "\<exists>names. names \<noteq> [] \<and> walk [] (path_components full) = walk [] (path_components dir) @ names"
proof -
  let ?path = "trim path"
  have full: "full = dir @ ''/'' @ ?path" and relative: "\<not> prefix ''/'' ?path"
    and normal: "list_all is_normal (path_components ?path)" and some: "list_ex is_normal (path_components ?path)"
    using assms(1) by (auto simp: voicekeyer_file_path_def validate_voice_file_path_def Let_def component_ok list_all_iff)
  have "hd (split_on CHR ''/'' ?path) \<noteq> ''.''"
    using normal relative by (auto simp: path_components_def Let_def)
  from components_below [OF relative assms(2) this]
  have "path_components full = path_components dir @ path_components ?path" using full by simp
  moreover obtain ns where "length ns = length (path_components ?path)"
    "walk (walk [] (path_components dir)) (path_components ?path) = walk [] (path_components dir) @ ns"
    using walk_normal [OF normal] by blast
  moreover have "path_components ?path \<noteq> []" using some by auto
  ultimately show ?thesis by (intro exI [of _ ns]) (auto simp: walk_append)
qed

lemma voice_file_below_witness:
  "\<exists>names. names \<noteq> [] \<and> walk [] (path_components ''data/voicekeyer/N0CALL/CQ.wav'') = walk [] (path_components ''data/voicekeyer'') @ names"
proof -
  have "voicekeyer_file_path ''data/voicekeyer'' '' N0CALL/CQ.wav'' = Inr ''data/voicekeyer/N0CALL/CQ.wav''" by code_simp
  then show ?thesis by (rule voice_file_below) simp
qed

end
