(* ===== verification/RadioSettings.thy ===== *)
theory RadioSettings
  imports Messages
begin

text \<open>
  The settings of a radio, \<open>radio-io/src/config.rs\<close>: their defaults, the normalization before they are
  stored and the checks. Numbers are natural; their types bound them by \<open>u16\<close> and \<open>u32\<close>. The drivers
  and modes of the crate \<open>radio-cat-rs\<close> are arguments, as in \<open>Modes\<close>.
\<close>

section \<open>Settings\<close>

definition DEFAULT_CW_MESSAGES :: string where
  "DEFAULT_CW_MESSAGES = concat (map (\<lambda>line. line @ [newline])
     [''###################'', ''#   RUN Messages'', ''###################'', ''F1 Cq,Cq Test {STATION_CALLSIGN}'',
      ''F2 Exch,{EXCH}'', ''F3 Tu,Tu'', ''F4 {STATION_CALLSIGN},{STATION_CALLSIGN}'', ''F5 His Call,{CALL}'',
      ''F6 Repeat,{EXCH} {EXCH}'', ''F7 ?, ?'', ''F8 Agn?,Agn?'', ''F9 Nr?,Nr?'', ''F10 Call?,Cl?'', ''F11 -,'',
      ''F12 Clear,{Action:Clear}'', ''#'', ''###################'', ''#   S&P Messages'', ''###################'',
      ''F1 Qrl?,Qrl? de {STATION_CALLSIGN}'', ''F2 Exch,{EXCH}'', ''F3 Tu,Tu'', ''F4 {STATION_CALLSIGN},{STATION_CALLSIGN}'',
      ''F5 His Call,{CALL}'', ''F6 Repeat,{EXCH} {EXCH}'', ''F7 ?,?'', ''F8 Agn?,Agn?'', ''F9 Nr?,Nr?'', ''F10 Call?,Cl?'',
      ''F11 -,'', ''F12 Clear,{Action:Clear}''])"

definition DEFAULT_DIGITAL_MESSAGES :: string where
  "DEFAULT_DIGITAL_MESSAGES = concat (map (\<lambda>line. line @ [newline])
     [''###################'', ''#   RUN Messages'', ''###################'',
      ''F1 Cq,Cq Cq Test {STATION_CALLSIGN} {STATION_CALLSIGN}'', ''F2 Exch,{EXCH}'', ''F3 Tu,Tu'',
      ''F4 {STATION_CALLSIGN},{STATION_CALLSIGN}'', ''F5 His Call,{CALL}'', ''F6 Repeat,{EXCH} {EXCH}'', ''F7 -,'',
      ''F8 Agn?,Agn Agn'', ''F9 Nr?,Nr Agn'', ''F10 Call?,Call Agn'', ''F11 -,'', ''F12 Clear,{Action:Clear}'', ''#'',
      ''###################'', ''#   S&P Messages'', ''###################'', ''F1 Qrl?,Qrl? de {STATION_CALLSIGN}'',
      ''F2 Exch,{EXCH}'', ''F3 Tu,Tu'', ''F4 {STATION_CALLSIGN},{STATION_CALLSIGN}'', ''F5 His Call,{CALL}'',
      ''F6 Repeat,{EXCH} {EXCH}'', ''F7 ?,?'', ''F8 Agn?,Agn?'', ''F9 Nr?,Nr?'', ''F10 Call?,Cl?'', ''F11 -,'',
      ''F12 Clear,{Action:Clear}''])"

definition DEFAULT_VOICE_MESSAGES :: string where
  "DEFAULT_VOICE_MESSAGES = concat (map (\<lambda>line. line @ [newline])
     [''###################'', ''#   RUN Messages'', ''###################'', ''F1 CQ,{OPERATOR}/CQ.wav'',
      ''F2 Exch,{OPERATOR}/Exchange.wav'', ''F3 TNX,{OPERATOR}/Thanks.wav'', ''F4 {STATION_CALLSIGN},{OPERATOR}/Mycall.wav'',
      ''F5 -,'', ''F6 -,'', ''F7 QRZ?,{OPERATOR}/QRZ.wav'', ''F8 Agn?,{OPERATOR}/AllAgain.wav'',
      ''F9 Exchg?,{OPERATOR}/Exchange query.wav'', ''F10 -,'', ''F11 -,'', ''F12 Clear,{Action:Clear}'', ''#'',
      ''###################'', ''#   S&P Messages'', ''###################'', ''F1 QRL?,{OPERATOR}/QRL.wav'',
      ''F2 Exch,{OPERATOR}/Exchange.wav'', ''F3 -,'', ''F4 {STATION_CALLSIGN},{OPERATOR}/Mycall.wav'', ''F5 -,'',
      ''F6 {STATION_CALLSIGN},{OPERATOR}/Mycall.wav'', ''F7 -,'', ''F8 Agn?,{OPERATOR}/AllAgain.wav'', ''F9 -,'', ''F10 -,'',
      ''F11 -,'', ''F12 Clear,{Action:Clear}''])"

definition MAX_RADIO_NAME_LEN :: nat where "MAX_RADIO_NAME_LEN = 100"
definition MAX_RADIO_HOST_LEN :: nat where "MAX_RADIO_HOST_LEN = 255"
definition MAX_SERIAL_PORT_LEN :: nat where "MAX_SERIAL_PORT_LEN = 255"
definition MAX_SOUND_DEVICE_ID_LEN :: nat where "MAX_SOUND_DEVICE_ID_LEN = 1024"
definition MAX_RADIO_TUNING_INCREMENT_HZ :: nat where "MAX_RADIO_TUNING_INCREMENT_HZ = 9999"
definition MAX_MESSAGES_LEN :: nat where "MAX_MESSAGES_LEN = 16384"
definition ALLOWED_CW_KEYER_TYPES :: "string list" where "ALLOWED_CW_KEYER_TYPES = [''none'', ''winkeyer'', ''cat'', ''serial'']"

record radio_settings =
  radio_name :: string
  radio_kind :: string
  transport_kind :: string
  tcp_host :: string
  tcp_port :: nat
  serial_port :: string
  serial_baud_rate :: nat
  radio_options :: string
  data_mode :: string
  rtty_mode :: string
  digital_program :: string
  wsjtx_enabled :: bool
  wsjtx_bind_address :: string
  wsjtx_port :: nat
  wsjtx_multicast_group :: string
  fldigi_data_enabled :: bool
  fldigi_rtty_enabled :: bool
  fldigi_host :: string
  fldigi_port :: nat
  flrig_enabled :: bool
  flrig_port :: nat
  cw_tuning_increment_hz :: nat
  ssb_tuning_increment_hz :: nat
  rit_clear_on_log :: bool
  voice_input_device_id :: "string option"
  voice_output_device_id :: "string option"
  cw_keyer_type :: string
  winkeyer_serial_port :: string
  cw_serial_port :: string
  cw_serial_baud_rate :: nat
  cw_serial_line :: string
  cw_messages :: string
  digital_messages :: string
  voice_messages :: string

definition default_settings :: radio_settings where
  "default_settings =
     \<lparr>radio_name = [], radio_kind = [], transport_kind = [], tcp_host = [], tcp_port = 0, serial_port = [], serial_baud_rate = 115200,
      radio_options = [], data_mode = [], rtty_mode = [], digital_program = ''none'', wsjtx_enabled = False,
      wsjtx_bind_address = ''127.0.0.1'', wsjtx_port = 2237, wsjtx_multicast_group = [], fldigi_data_enabled = False,
      fldigi_rtty_enabled = False, fldigi_host = ''127.0.0.1'', fldigi_port = 7362, flrig_enabled = False, flrig_port = 12345,
      cw_tuning_increment_hz = 20, ssb_tuning_increment_hz = 100, rit_clear_on_log = False, voice_input_device_id = None,
      voice_output_device_id = None, cw_keyer_type = ''none'', winkeyer_serial_port = [], cw_serial_port = [],
      cw_serial_baud_rate = 9600, cw_serial_line = ''dtr'', cw_messages = DEFAULT_CW_MESSAGES,
      digital_messages = DEFAULT_DIGITAL_MESSAGES, voice_messages = DEFAULT_VOICE_MESSAGES\<rparr>"

text \<open>A radio with its identity.\<close>

record radio_config =
  config_id :: int
  settings :: radio_settings

section \<open>Normalization\<close>

definition normalized_digital_program :: "string \<Rightarrow> string + string" where
  "normalized_digital_program program =
     (let p = to_lower_text (trim program)
      in if p \<in> set [''none'', ''wsjtx'', ''fldigi''] then Inr p
         else Inl ''DATA digital program must be none, wsjtx, or fldigi'')"

definition normalized_optional_device_id :: "string option \<Rightarrow> string option" where
  "normalized_optional_device_id device = Option.bind device (\<lambda>d. if trim d = [] then None else Some (trim d))"

text \<open>An error leaves the settings partly changed; every caller discards them then.\<close>

definition normalize_radio_settings :: "'m radio_modes \<Rightarrow> 'm drivers \<Rightarrow> radio_settings \<Rightarrow> string + radio_settings" where
  "normalize_radio_settings ms drivers s =
     ebind (resolved_mode_mappings ms drivers (radio_kind s) (data_mode s) (rtty_mode s)) (\<lambda>(d, r).
     ebind (normalized_digital_program (digital_program s)) (\<lambda>program.
     Inr (s\<lparr>data_mode := d, rtty_mode := r, digital_program := program, wsjtx_enabled := (program = ''wsjtx''),
            fldigi_data_enabled := (program = ''fldigi''), fldigi_host := trim (fldigi_host s),
            voice_input_device_id := normalized_optional_device_id (voice_input_device_id s),
            voice_output_device_id := normalized_optional_device_id (voice_output_device_id s)\<rparr>)))"

section \<open>Checks\<close>

definition settings_max_len :: "string \<Rightarrow> string \<Rightarrow> nat \<Rightarrow> string + unit" where
  "settings_max_len label s n = require (length s \<le> n) (label @ '' must be at most '' @ dec_string n @ '' characters'')"

definition no_control_characters :: "string \<Rightarrow> string \<Rightarrow> string + unit" where
  "no_control_characters label s = require (\<not> list_ex is_control s) (label @ '' cannot contain control characters'')"

definition settings_required_text :: "string \<Rightarrow> string \<Rightarrow> nat \<Rightarrow> string + unit" where
  "settings_required_text label s n =
     first_error [require (trim s \<noteq> []) (label @ '' is required''), settings_max_len label s n, no_control_characters label s]"

definition settings_optional_text :: "string \<Rightarrow> string \<Rightarrow> nat \<Rightarrow> string + unit" where
  "settings_optional_text label s n = first_error [settings_max_len label (trim s) n, no_control_characters label (trim s)]"

definition settings_host :: "string \<Rightarrow> string \<Rightarrow> string + unit" where
  "settings_host label s =
     require (\<not> list_ex (\<lambda>c. is_ws c \<or> is_control c) (trim s)) (label @ '' cannot contain whitespace or control characters'')"

definition validate_tuning_increment_hz :: "string \<Rightarrow> nat \<Rightarrow> string + unit" where
  "validate_tuning_increment_hz label n =
     require (\<not> (n = 0 \<or> MAX_RADIO_TUNING_INCREMENT_HZ < n))
       (label @ '' must be between 1 and '' @ dec_string MAX_RADIO_TUNING_INCREMENT_HZ @ '' Hz'')"

definition tab :: char where "tab = char_of (9 :: nat)"

definition validate_message_text :: "string \<Rightarrow> string \<Rightarrow> nat \<Rightarrow> string + unit" where
  "validate_message_text label s n = first_error
     [require (trim s \<noteq> []) (label @ '' are required''), settings_max_len label s n,
      require (\<not> list_ex (\<lambda>c. is_control c \<and> c \<notin> set [newline, carriage_return, tab]) s) (label @ '' cannot contain control characters'')]"

definition validate_cw_messages :: "string \<Rightarrow> string + unit" where
  "validate_cw_messages s =
     ebind (validate_message_text ''CW messages'' s MAX_MESSAGES_LEN) (\<lambda>_. ebind (validate_text_messages s) (\<lambda>_. Inr ()))"

definition validate_digital_messages :: "string \<Rightarrow> string + unit" where
  "validate_digital_messages s =
     ebind (validate_message_text ''Digital messages'' s MAX_MESSAGES_LEN) (\<lambda>_. ebind (validate_text_messages s) (\<lambda>_. Inr ()))"

definition validate_voice_texts :: "string \<Rightarrow> string + unit" where
  "validate_voice_texts s =
     ebind (validate_message_text ''Voice messages'' s MAX_MESSAGES_LEN) (\<lambda>_. ebind (validate_voice_messages s) (\<lambda>_. Inr ()))"

text \<open>
  \<open>Ipv4Addr::from_str\<close>: four decimal numbers of at most three digits and up to 255, without leading
  zeros.
\<close>

definition ipv4_part :: "string \<Rightarrow> nat option" where
  "ipv4_part s =
     (if s \<noteq> [] \<and> length s \<le> 3 \<and> list_all is_digit s \<and> (hd s \<noteq> CHR ''0'' \<or> s = ''0'') \<and> dec_value s \<le> 255
      then Some (dec_value s) else None)"

definition ipv4_parts :: "string \<Rightarrow> nat list option" where
  "ipv4_parts s =
     (let parts = map ipv4_part (split_on CHR ''.'' s)
      in if length parts = 4 \<and> list_all (\<lambda>p. p \<noteq> None) parts then Some (List.map_filter id parts) else None)"

definition is_multicast :: "nat list \<Rightarrow> bool" where
  "is_multicast parts \<longleftrightarrow> 224 \<le> hd parts \<and> hd parts \<le> 239"

definition radio_checks :: "'m radio_modes \<Rightarrow> 'm drivers \<Rightarrow> radio_settings \<Rightarrow> string + unit" where
  "radio_checks ms drivers s =
     (let kind = trim (radio_kind s)
      in ebind (settings_required_text ''radio name'' (radio_name s) MAX_RADIO_NAME_LEN) (\<lambda>_.
         ebind (require (list_ex (\<lambda>(name, _). eq_ignore_case name kind) drivers) (''unsupported radio driver: '' @ kind)) (\<lambda>_.
         ebind (resolved_mode_mappings ms drivers kind (data_mode s) (rtty_mode s)) (\<lambda>_.
         ebind (normalized_digital_program (digital_program s)) (\<lambda>program. first_error
           [require (wsjtx_enabled s = (program = ''wsjtx'')) ''WSJT-X enabled state must match the DATA digital program'',
            require (fldigi_data_enabled s = (program = ''fldigi'')) ''FLDigi DATA enabled state must match the DATA digital program''])))))"

definition keyer_checks :: "'m drivers \<Rightarrow> radio_settings \<Rightarrow> string + unit" where
  "keyer_checks drivers s =
     (let kind = trim (radio_kind s); transport = to_lower_text (trim (transport_kind s)); keyer = to_lower_text (trim (cw_keyer_type s))
      in first_error
        [require (transport \<in> set [''none'', ''tcp'', ''serial'']) ''transport kind must be none, tcp, or serial'',
         require (\<not> (transport = ''none'' \<and> \<not> eq_ignore_case kind ''dummy'')) ''transport is required for non-dummy radios'',
         validate_tuning_increment_hz ''CW tuning increment'' (cw_tuning_increment_hz s),
         validate_tuning_increment_hz ''SSB tuning increment'' (ssb_tuning_increment_hz s),
         settings_optional_text ''voice input sound device'' (unwrap_or_default (voice_input_device_id s)) MAX_SOUND_DEVICE_ID_LEN,
         settings_optional_text ''voice output sound device'' (unwrap_or_default (voice_output_device_id s)) MAX_SOUND_DEVICE_ID_LEN,
         require (keyer \<in> set ALLOWED_CW_KEYER_TYPES) ''CW keyer type must be one of: none, winkeyer, cat, serial'',
         (if keyer = ''cat''
          then ebind (supports_cat_cw_keying_for_radio_kind drivers kind) (\<lambda>supported.
                 require supported ''CAT CW keying is not supported by this radio'')
          else Inr ())])"

definition transport_checks :: "radio_settings \<Rightarrow> string + unit" where
  "transport_checks s =
     (let transport = to_lower_text (trim (transport_kind s))
      in if transport = ''tcp'' then first_error
           [settings_required_text ''TCP host'' (tcp_host s) MAX_RADIO_HOST_LEN, settings_host ''TCP host'' (tcp_host s),
            require (tcp_port s \<noteq> 0) ''TCP port must be between 1 and 65535'',
            settings_max_len ''serial port'' (serial_port s) MAX_SERIAL_PORT_LEN]
         else if transport = ''serial'' then first_error
           [settings_required_text ''serial port'' (serial_port s) MAX_SERIAL_PORT_LEN,
            no_control_characters ''serial port'' (serial_port s),
            require (serial_baud_rate s \<noteq> 0) ''serial baud rate must be greater than 0'',
            settings_max_len ''TCP host'' (tcp_host s) MAX_RADIO_HOST_LEN]
         else first_error
           [settings_max_len ''TCP host'' (tcp_host s) MAX_RADIO_HOST_LEN,
            settings_max_len ''serial port'' (serial_port s) MAX_SERIAL_PORT_LEN])"

definition cw_checks :: "radio_settings \<Rightarrow> string + unit" where
  "cw_checks s =
     (let transport = to_lower_text (trim (transport_kind s)); keyer = to_lower_text (trim (cw_keyer_type s))
      in first_error
        [(if keyer = ''winkeyer'' then settings_required_text else settings_max_len)
           ''Winkeyer serial port'' (winkeyer_serial_port s) MAX_SERIAL_PORT_LEN,
         no_control_characters ''Winkeyer serial port'' (winkeyer_serial_port s),
         (if keyer = ''serial'' then settings_required_text else settings_max_len)
           ''CW serial port'' (cw_serial_port s) MAX_SERIAL_PORT_LEN,
         no_control_characters ''CW serial port'' (cw_serial_port s),
         require (cw_serial_baud_rate s \<noteq> 0) ''CW serial baud rate must be greater than 0'',
         require (to_lower_text (trim (cw_serial_line s)) \<in> set [''dtr'', ''rts'']) ''CW serial line must be dtr or rts'',
         require (\<not> (transport = ''serial'' \<and> keyer = ''serial'' \<and> trim (serial_port s) = trim (cw_serial_port s)
                    \<and> serial_baud_rate s \<noteq> cw_serial_baud_rate s))
           ''CAT serial baud rate and CW serial baud rate must match when sharing a serial port''])"

definition multicast_check :: "string \<Rightarrow> string + unit" where
  "multicast_check multicast =
     (if multicast = [] then Inr ()
      else ebind (ok_or (ipv4_parts multicast) ''WSJT-X multicast group must be a valid IPv4 address'') (\<lambda>parts.
           require (is_multicast parts) ''WSJT-X multicast group must be an IPv4 multicast address''))"

definition digital_checks :: "radio_settings \<Rightarrow> string + unit" where
  "digital_checks s = first_error
     [require (trim (wsjtx_bind_address s) \<in> set [''127.0.0.1'', ''0.0.0.0'']) ''WSJT-X bind address must be 127.0.0.1 or 0.0.0.0'',
      require (\<not> wsjtx_port s < 1024) ''WSJT-X port must be between 1024 and 65535'',
      require (\<not> flrig_port s < 1024) ''FLRig port must be between 1024 and 65535'',
      (if fldigi_data_enabled s \<or> fldigi_rtty_enabled s then first_error
         [settings_required_text ''FLDigi host'' (fldigi_host s) MAX_RADIO_HOST_LEN, settings_host ''FLDigi host'' (fldigi_host s),
          require (\<not> fldigi_port s < 1024) ''FLDigi port must be between 1024 and 65535'']
       else settings_max_len ''FLDigi host'' (fldigi_host s) MAX_RADIO_HOST_LEN),
      multicast_check (trim (wsjtx_multicast_group s))]"

definition validate_radio_settings :: "'m radio_modes \<Rightarrow> 'm drivers \<Rightarrow> radio_settings \<Rightarrow> string + unit" where
  "validate_radio_settings ms drivers s = first_error
     [radio_checks ms drivers s, keyer_checks drivers s, transport_checks s, cw_checks s, digital_checks s,
      validate_cw_messages (cw_messages s), validate_digital_messages (digital_messages s), validate_voice_texts (voice_messages s)]"

section \<open>Laws\<close>

lemma digital_program_idem: "normalized_digital_program p = Inr q \<Longrightarrow> normalized_digital_program q = Inr q"
  by (auto simp: normalized_digital_program_def Let_def split: if_splits) (code_simp+)?

lemma device_id_idem [simp]:
  "normalized_optional_device_id (normalized_optional_device_id d) = normalized_optional_device_id d"
  by (cases d) (auto simp: normalized_optional_device_id_def)

lemma resolved_modes_again:
  assumes "resolved_mode_mappings ms drivers kind data rtty = Inr (d, r)"
    and "\<And>m. parse_mode ms (mode_text ms m) = Inr m" and "\<And>m. trim (mode_text ms m) \<noteq> []"
  shows "resolved_mode_mappings ms drivers kind d r = Inr (d, r)"
proof -
  obtain modes m n where modes: "transmit_modes_for_radio_kind drivers kind = Inr modes" "m \<in> set modes" "n \<in> set modes"
    and d: "d = mode_text ms m" and r: "r = mode_text ms n"
    using resolved_modes_transmit [OF assms(1)] by blast
  have "resolved_mode_mapping ms logger (mode_text ms k) def modes = Inr k" if "k \<in> set modes" for logger k "def"
    using that assms(2,3) by (simp add: resolved_mode_mapping_def map_error_def)
  then show ?thesis using modes by (simp add: resolved_mode_mappings_def d r)
qed

text \<open>
  Normalizing settings a second time changes nothing, and a normalized radio runs at most one program
  on its DATA mode, the one it names, as the checks demand. The crate is assumed to read the names of
  its modes back.
\<close>

lemma normalized_settings:
  assumes "normalize_radio_settings ms drivers s = Inr t"
    and "\<And>m. parse_mode ms (mode_text ms m) = Inr m" and "\<And>m. trim (mode_text ms m) \<noteq> []"
  shows "normalize_radio_settings ms drivers t = Inr t" and "\<not> (wsjtx_enabled t \<and> fldigi_data_enabled t)"
    and "wsjtx_enabled t \<longleftrightarrow> digital_program t = ''wsjtx''" and "fldigi_data_enabled t \<longleftrightarrow> digital_program t = ''fldigi''"
proof -
  obtain d r p where modes: "resolved_mode_mappings ms drivers (radio_kind s) (data_mode s) (rtty_mode s) = Inr (d, r)"
    and program: "normalized_digital_program (digital_program s) = Inr p"
    and t: "t = s\<lparr>data_mode := d, rtty_mode := r, digital_program := p, wsjtx_enabled := (p = ''wsjtx''),
            fldigi_data_enabled := (p = ''fldigi''), fldigi_host := trim (fldigi_host s),
            voice_input_device_id := normalized_optional_device_id (voice_input_device_id s),
            voice_output_device_id := normalized_optional_device_id (voice_output_device_id s)\<rparr>"
    using assms(1) by (auto simp: normalize_radio_settings_def)
  have "resolved_mode_mappings ms drivers (radio_kind s) d r = Inr (d, r)"
    by (rule resolved_modes_again [OF modes assms(2,3)])
  then show "normalize_radio_settings ms drivers t = Inr t"
    using digital_program_idem [OF program] by (simp add: normalize_radio_settings_def t)
  show "\<not> (wsjtx_enabled t \<and> fldigi_data_enabled t)" "wsjtx_enabled t \<longleftrightarrow> digital_program t = ''wsjtx''"
    "fldigi_data_enabled t \<longleftrightarrow> digital_program t = ''fldigi''"
    by (auto simp: t)
qed

end
