(* ===== verification/RadioLifecycle.thy ===== *)
theory RadioLifecycle
  imports RadioSettings
begin

text \<open>
  \<open>RadioManager::acquire\<close>, \<open>release\<close> and \<open>shutdown_all\<close> of \<open>radio-io/src/radio_manager/lifecycle.rs\<close>: one
  controller task per radio, shared by all of its users, started by the first \<open>acquire\<close> and stopped
  by the last \<open>release\<close>. The calls run concurrently; each section under the manager's lock and each
  \<open>await\<close> between two of them is a step, and the calls interleave step by step.

  A number names a task (and the channels of its handle) or a \<open>Notify\<close>. \<open>Notify::notify_waiters\<close> wakes the
  \<open>notified\<close> futures that exist at that moment and stores nothing, as its documentation says. Tasks
  do not panic.
\<close>

section \<open>Sanitizing the devices\<close>

text \<open>The devices of the host are arguments.\<close>

definition sanitized_device_id :: "(string \<Rightarrow> bool) \<Rightarrow> string option \<Rightarrow> string option" where
  "sanitized_device_id exists device = Option.bind (normalized_optional_device_id device) (\<lambda>i. if exists i then Some i else None)"

definition sanitize_radio_config :: "(string \<Rightarrow> bool) \<Rightarrow> (string \<Rightarrow> bool) \<Rightarrow> radio_config \<Rightarrow> radio_config" where
  "sanitize_radio_config inputs outputs config =
     (let s = settings config
      in config\<lparr>settings := s\<lparr>voice_input_device_id := sanitized_device_id inputs (voice_input_device_id s),
                               voice_output_device_id := sanitized_device_id outputs (voice_output_device_id s)\<rparr>\<rparr>)"

section \<open>The manager and the calls under way\<close>

record managed_radio =
  radio_task :: nat
  refcount :: nat

datatype radio_slot = Active managed_radio | ShuttingDown nat

text \<open>
  Where a call is. \<open>Looking\<close> and \<open>Inserting\<close> are before the first and the second section of \<open>acquire\<close>;
  between them the devices are sanitized. \<open>Cloned\<close> has the \<open>Notify\<close> of a shutdown and has left the lock,
  \<open>Waiting\<close> has its \<open>notified\<close> future. \<open>Holding\<close> has returned a handle. \<open>Releasing\<close> is before the first section of
  \<open>release\<close>, \<open>Stopping\<close> awaits the task, \<open>Removing\<close> is before the last section; the optional list is what
  \<open>shutdown_all\<close> has left to do after it.
\<close>

datatype radio_call =
    Idle
  | Looking radio_config
  | Cloned radio_config nat
  | Waiting radio_config nat
  | Sanitizing radio_config
  | Inserting radio_config
  | Holding int nat
  | Failed string
  | Releasing int "int list option"
  | Stopping int nat nat "int list option"
  | Notifying int nat "int list option"
  | Removing int nat "int list option"
  | ShuttingAll "int list"

record lifecycle =
  radio_slots :: "(int, radio_slot) hmap"
  radio_calls :: "nat \<Rightarrow> radio_call"
  controllers :: "(nat, radio_config) hmap"
  fresh :: nat

definition new_manager :: lifecycle where
  "new_manager = \<lparr>radio_slots = [], radio_calls = (\<lambda>_. Idle), controllers = [], fresh = 0\<rparr>"

definition goto :: "nat \<Rightarrow> radio_call \<Rightarrow> lifecycle \<Rightarrow> lifecycle" where
  "goto p call m = m\<lparr>radio_calls := (radio_calls m)(p := call)\<rparr>"

section \<open>Acquire\<close>

text \<open>The same match opens both sections.\<close>

definition take_slot :: "nat \<Rightarrow> radio_config \<Rightarrow> lifecycle \<Rightarrow> lifecycle option" where
  "take_slot p config m =
     (case hm_get (radio_slots m) (config_id config) of
        Some (Active radio) \<Rightarrow>
          Some (goto p (Holding (config_id config) (radio_task radio))
            (m\<lparr>radio_slots := hm_put (config_id config) (Active (radio\<lparr>refcount := refcount radio + 1\<rparr>)) (radio_slots m)\<rparr>))
      | Some (ShuttingDown done) \<Rightarrow> Some (goto p (Cloned config done) m)
      | None \<Rightarrow> None)"

definition acquire_look :: "nat \<Rightarrow> radio_config \<Rightarrow> lifecycle \<Rightarrow> lifecycle" where
  "acquire_look p config m = (case take_slot p config m of Some m' \<Rightarrow> m' | None \<Rightarrow> goto p (Sanitizing config) m)"

definition start_radio :: "nat \<Rightarrow> radio_config \<Rightarrow> lifecycle \<Rightarrow> lifecycle" where
  "start_radio p config m =
     (let task = fresh m
      in goto p (Holding (config_id config) task)
           (m\<lparr>radio_slots := hm_put (config_id config) (Active \<lparr>radio_task = task, refcount = 1\<rparr>) (radio_slots m),
              controllers := hm_put task config (controllers m), fresh := Suc task\<rparr>))"

definition acquire_insert :: "nat \<Rightarrow> radio_config \<Rightarrow> lifecycle \<Rightarrow> lifecycle" where
  "acquire_insert p config m = (case take_slot p config m of Some m' \<Rightarrow> m' | None \<Rightarrow> start_radio p config m)"

section \<open>Release and shutdown\<close>

fun after_release :: "int list option \<Rightarrow> radio_call" where
  "after_release None = Idle"
| "after_release (Some radio_ids) = ShuttingAll radio_ids"

definition release_enter :: "nat \<Rightarrow> int \<Rightarrow> int list option \<Rightarrow> lifecycle \<Rightarrow> lifecycle" where
  "release_enter p radio_id left m =
     (case hm_get (radio_slots m) radio_id of
        Some (Active radio) \<Rightarrow>
          (let n = refcount radio - 1
           in if n = 0
              then goto p (Stopping radio_id (fresh m) (radio_task radio) left)
                     (m\<lparr>radio_slots := hm_put radio_id (ShuttingDown (fresh m)) (radio_slots m), fresh := Suc (fresh m)\<rparr>)
              else goto p (after_release left)
                     (m\<lparr>radio_slots := hm_put radio_id (Active (radio\<lparr>refcount := n\<rparr>)) (radio_slots m)\<rparr>))
      | _ \<Rightarrow> goto p (after_release left) m)"

definition woken :: "nat \<Rightarrow> radio_call \<Rightarrow> radio_call" where
  "woken done call = (case call of Waiting config d \<Rightarrow> (if d = done then Looking config else call) | _ \<Rightarrow> call)"

definition notify_waiters :: "nat \<Rightarrow> lifecycle \<Rightarrow> lifecycle" where
  "notify_waiters done m = m\<lparr>radio_calls := (\<lambda>q. woken done (radio_calls m q))\<rparr>"

definition release_remove :: "nat \<Rightarrow> int \<Rightarrow> int list option \<Rightarrow> lifecycle \<Rightarrow> lifecycle" where
  "release_remove p radio_id left m =
     goto p (after_release left)
       (case hm_get (radio_slots m) radio_id of
          Some (ShuttingDown _) \<Rightarrow> m\<lparr>radio_slots := hm_remove radio_id (radio_slots m)\<rparr>
        | _ \<Rightarrow> m)"

definition is_active :: "int \<Rightarrow> lifecycle \<Rightarrow> bool" where
  "is_active radio_id m = (case hm_get (radio_slots m) radio_id of Some (Active _) \<Rightarrow> True | _ \<Rightarrow> False)"

definition shut_next :: "nat \<Rightarrow> int \<Rightarrow> int list \<Rightarrow> lifecycle \<Rightarrow> lifecycle" where
  "shut_next p radio_id radio_ids m =
     (if is_active radio_id m then goto p (Releasing radio_id (Some (radio_id # radio_ids))) m
      else goto p (ShuttingAll radio_ids) m)"

section \<open>Steps\<close>

text \<open>
  The users of the radios acquire and release what they hold; \<open>host\<close> says whether the host may also
  run \<open>shutdown_all\<close>. The keys a \<open>HashMap\<close> yields come in any order.
\<close>

inductive lifecycle_step :: "bool \<Rightarrow> lifecycle \<Rightarrow> lifecycle \<Rightarrow> bool" for host where
  acquire: "radio_calls m p = Idle \<Longrightarrow> lifecycle_step host m (goto p (Looking config) m)"
| look: "radio_calls m p = Looking config \<Longrightarrow> lifecycle_step host m (acquire_look p config m)"
| wait: "radio_calls m p = Cloned config done \<Longrightarrow> lifecycle_step host m (goto p (Waiting config done) m)"
| no_permit: "radio_calls m p = Sanitizing config \<Longrightarrow>
    lifecycle_step host m (goto p (Failed ''device validation is unavailable'') m)"
| worker_failed: "radio_calls m p = Sanitizing config \<Longrightarrow>
    lifecycle_step host m (goto p (Failed ''device validation worker failed'') m)"
| sanitize: "radio_calls m p = Sanitizing config \<Longrightarrow>
    lifecycle_step host m (goto p (Inserting (sanitize_radio_config inputs outputs config)) m)"
| insert: "radio_calls m p = Inserting config \<Longrightarrow> lifecycle_step host m (acquire_insert p config m)"
| give_back: "radio_calls m p = Holding radio_id task \<Longrightarrow> lifecycle_step host m (goto p (Releasing radio_id None) m)"
| release: "radio_calls m p = Releasing radio_id left \<Longrightarrow> lifecycle_step host m (release_enter p radio_id left m)"
| controller_ends: "radio_calls m p = Stopping radio_id done task left \<Longrightarrow>
    lifecycle_step host m (m\<lparr>controllers := hm_remove task (controllers m)\<rparr>)"
| stopped: "radio_calls m p = Stopping radio_id done task left \<Longrightarrow> hm_get (controllers m) task = None \<Longrightarrow>
    lifecycle_step host m (goto p (Notifying radio_id done left) m)"
| notify: "radio_calls m p = Notifying radio_id done left \<Longrightarrow>
    lifecycle_step host m (goto p (Removing radio_id done left) (notify_waiters done m))"
| remove: "radio_calls m p = Removing radio_id done left \<Longrightarrow> lifecycle_step host m (release_remove p radio_id left m)"
| shutdown: "host \<Longrightarrow> radio_calls m p = Idle \<Longrightarrow> mset radio_ids = mset (map fst (radio_slots m)) \<Longrightarrow>
    lifecycle_step host m (goto p (ShuttingAll radio_ids) m)"
| shut_next: "radio_calls m p = ShuttingAll (radio_id # radio_ids) \<Longrightarrow> lifecycle_step host m (shut_next p radio_id radio_ids m)"
| shut_done: "radio_calls m p = ShuttingAll [] \<Longrightarrow> lifecycle_step host m (goto p Idle m)"

inductive lifecycle_reachable :: "bool \<Rightarrow> lifecycle \<Rightarrow> bool" for host where
  start: "lifecycle_reachable host new_manager"
| step: "lifecycle_reachable host m \<Longrightarrow> lifecycle_step host m m' \<Longrightarrow> lifecycle_reachable host m'"

lemma radio_calls_goto [simp]: "radio_calls (goto p call m) = (radio_calls m)(p := call)"
  by (simp add: goto_def)

lemma goto_frame [simp]:
  "radio_slots (goto p call m) = radio_slots m" "controllers (goto p call m) = controllers m" "fresh (goto p call m) = fresh m"
  by (simp_all add: goto_def)

lemma notify_frame [simp]:
  "radio_slots (notify_waiters done m) = radio_slots m" "controllers (notify_waiters done m) = controllers m"
  "fresh (notify_waiters done m) = fresh m" "radio_calls (notify_waiters done m) q = woken done (radio_calls m q)"
  by (simp_all add: notify_waiters_def)

lemma sanitized_id [simp]: "config_id (sanitize_radio_config inputs outputs config) = config_id config"
  by (simp add: sanitize_radio_config_def Let_def)

end
