(* ===== verification/LifecycleSpec.thy ===== *)
theory LifecycleSpec
  imports RadioLifecycle
begin

text \<open>
  What the interleaved calls of the radio manager keep: a radio never has two controllers, a handle
  that is held is connected to the running controller, and the count of the users is exact. And what
  they do not: a waiter that meets a shutdown between its notification and the removal of the slot
  waits for a notification that never comes.
\<close>

section \<open>The slots and the controllers\<close>

fun ending :: "radio_call \<Rightarrow> (int \<times> nat) option" where
  "ending (Stopping radio_id done _ _) = Some (radio_id, done)"
| "ending (Notifying radio_id done _) = Some (radio_id, done)"
| "ending (Removing radio_id done _) = Some (radio_id, done)"
| "ending _ = None"

text \<open>A controller belongs to an active slot, or a release awaits it.\<close>

definition owned :: "lifecycle \<Rightarrow> nat \<Rightarrow> int \<Rightarrow> bool" where
  "owned m t i \<longleftrightarrow> (\<exists>r. hm_get (radio_slots m) i = Some (Active r) \<and> radio_task r = t)
     \<or> (\<exists>p d left. radio_calls m p = Stopping i d t left)"

definition lifecycle_ok :: "lifecycle \<Rightarrow> bool" where
  "lifecycle_ok m \<longleftrightarrow> hm_ok (radio_slots m) \<and> hm_ok (controllers m)
     \<and> (\<forall>p i d. ending (radio_calls m p) = Some (i, d) \<longrightarrow> hm_get (radio_slots m) i = Some (ShuttingDown d))
     \<and> (\<forall>p q i d e. ending (radio_calls m p) = Some (i, d) \<longrightarrow> ending (radio_calls m q) = Some (i, e) \<longrightarrow> p = q)
     \<and> (\<forall>t c. hm_get (controllers m) t = Some c \<longrightarrow> t < fresh m \<and> owned m t (config_id c))
     \<and> (\<forall>i r. hm_get (radio_slots m) i = Some (Active r)
          \<longrightarrow> (\<exists>c. hm_get (controllers m) (radio_task r) = Some c \<and> config_id c = i))
     \<and> (\<forall>p i d t left. radio_calls m p = Stopping i d t left
          \<longrightarrow> t < fresh m \<and> (\<forall>c. hm_get (controllers m) t = Some c \<longrightarrow> config_id c = i))"

lemma ok_parts:
  assumes "lifecycle_ok m"
  shows "hm_ok (radio_slots m)" "hm_ok (controllers m)"
    "\<And>p i d. ending (radio_calls m p) = Some (i, d) \<Longrightarrow> hm_get (radio_slots m) i = Some (ShuttingDown d)"
    "\<And>p q i d e. ending (radio_calls m p) = Some (i, d) \<Longrightarrow> ending (radio_calls m q) = Some (i, e) \<Longrightarrow> p = q"
    "\<And>t c. hm_get (controllers m) t = Some c \<Longrightarrow> t < fresh m"
    "\<And>t c. hm_get (controllers m) t = Some c \<Longrightarrow> owned m t (config_id c)"
    "\<And>i r. hm_get (radio_slots m) i = Some (Active r) \<Longrightarrow>
        \<exists>c. hm_get (controllers m) (radio_task r) = Some c \<and> config_id c = i"
    "\<And>p i d t left. radio_calls m p = Stopping i d t left \<Longrightarrow> t < fresh m"
    "\<And>p i d t left c. radio_calls m p = Stopping i d t left \<Longrightarrow> hm_get (controllers m) t = Some c \<Longrightarrow> config_id c = i"
  using assms unfolding lifecycle_ok_def by blast+

lemma okI:
  assumes "hm_ok (radio_slots m)" "hm_ok (controllers m)"
    "\<And>p i d. ending (radio_calls m p) = Some (i, d) \<Longrightarrow> hm_get (radio_slots m) i = Some (ShuttingDown d)"
    "\<And>p q i d e. ending (radio_calls m p) = Some (i, d) \<Longrightarrow> ending (radio_calls m q) = Some (i, e) \<Longrightarrow> p = q"
    "\<And>t c. hm_get (controllers m) t = Some c \<Longrightarrow> t < fresh m"
    "\<And>t c. hm_get (controllers m) t = Some c \<Longrightarrow> owned m t (config_id c)"
    "\<And>i r. hm_get (radio_slots m) i = Some (Active r) \<Longrightarrow>
        \<exists>c. hm_get (controllers m) (radio_task r) = Some c \<and> config_id c = i"
    "\<And>p i d t left. radio_calls m p = Stopping i d t left \<Longrightarrow> t < fresh m"
    "\<And>p i d t left c. radio_calls m p = Stopping i d t left \<Longrightarrow> hm_get (controllers m) t = Some c \<Longrightarrow> config_id c = i"
  shows "lifecycle_ok m"
  unfolding lifecycle_ok_def by (intro conjI allI impI; rule assms; assumption)

lemma ok_goto:
  assumes "lifecycle_ok m" and "ending (radio_calls m p) = None" and "ending call = None"
  shows "lifecycle_ok (goto p call m)"
proof -
  note ok = ok_parts [OF assms(1)]
  have e: "ending (radio_calls (goto p call m) q) = ending (radio_calls m q)" for q
    using assms(2,3) by simp
  have "radio_calls m q = Stopping i d t left \<Longrightarrow> radio_calls (goto p call m) q = Stopping i d t left" for q i d t left
    using assms(2) by auto
  then have o: "owned m t i \<Longrightarrow> owned (goto p call m) t i" for t i unfolding owned_def goto_frame by blast
  show ?thesis
  proof (rule okI)
    show "a = b" if "ending (radio_calls (goto p call m) a) = Some (i, d)" "ending (radio_calls (goto p call m) b) = Some (i, d')"
      for a b i d d' using ok(4) that unfolding e by blast
    show "hm_get (controllers (goto p call m)) t = Some c \<Longrightarrow> owned (goto p call m) t (config_id c)" for t c
      using ok(6) o by simp
    show "t < fresh (goto p call m)" if "radio_calls (goto p call m) a = Stopping i d t left" for a i d t left
      using ok(8) [of a i d t left] that assms(3) by (auto split: if_splits)
    show "config_id c = i" if "radio_calls (goto p call m) a = Stopping i d t left" "hm_get (controllers (goto p call m)) t = Some c"
      for a i d t left c using ok(9) [of a i d t left c] that assms(3) by (auto split: if_splits)
  qed (use ok e in simp_all)
qed

lemma ok_count:
  assumes "lifecycle_ok m" and "hm_get (radio_slots m) i = Some (Active r)" and "radio_task r' = radio_task r"
  shows "lifecycle_ok (m\<lparr>radio_slots := hm_put i (Active r') (radio_slots m)\<rparr>)" (is "lifecycle_ok ?m")
proof -
  note ok = ok_parts [OF assms(1)]
  have o: "owned m t j \<Longrightarrow> owned ?m t j" for t j using assms(2,3) by (auto simp: owned_def hm_get_put)
  show ?thesis
  proof (rule okI)
    show "hm_get (radio_slots ?m) j = Some (ShuttingDown d)" if "ending (radio_calls ?m p) = Some (j, d)" for p j d
      using ok(3) [of p j d] that assms(2) by (auto simp: hm_get_put)
    show "\<exists>c. hm_get (controllers ?m) (radio_task s) = Some c \<and> config_id c = j"
      if "hm_get (radio_slots ?m) j = Some (Active s)" for j s
      using ok(7) [of j s] ok(7) [OF assms(2)] that assms(3) by (auto simp: hm_get_put split: if_splits)
    show "p = q" if "ending (radio_calls ?m p) = Some (j, d)" "ending (radio_calls ?m q) = Some (j, e)" for p q j d e
      using ok(4) that by simp
    show "config_id c = j" if "radio_calls ?m p = Stopping j d t left" "hm_get (controllers ?m) t = Some c" for p j d t left c
      using ok(9) that by simp
    show "t < fresh ?m" if "radio_calls ?m p = Stopping j d t left" for p j d t left using ok(8) that by simp
  qed (use ok o hm.ok_put in simp_all)
qed

lemma ok_start:
  assumes "lifecycle_ok m" and "hm_get (radio_slots m) (config_id c) = None" and "ending (radio_calls m p) = None"
  shows "lifecycle_ok (start_radio p c m)"
proof -
  note ok = ok_parts [OF assms(1)]
  let ?m = "m\<lparr>radio_slots := hm_put (config_id c) (Active \<lparr>radio_task = fresh m, refcount = 1\<rparr>) (radio_slots m),
              controllers := hm_put (fresh m) c (controllers m), fresh := Suc (fresh m)\<rparr>"
  have o: "owned m t j \<Longrightarrow> owned ?m t j" for t j using assms(2) by (auto simp: owned_def hm_get_put)
  have n: "owned ?m (fresh m) (config_id c)" by (simp add: owned_def hm_get_put)
  have none: "hm_get (controllers m) (fresh m) \<noteq> Some e" for e using ok(5) [of "fresh m" e] by auto
  have "lifecycle_ok ?m"
  proof (rule okI)
    show "hm_get (radio_slots ?m) j = Some (ShuttingDown d)" if "ending (radio_calls ?m p) = Some (j, d)" for p j d
      using ok(3) [of p j d] that assms(2) by (auto simp: hm_get_put)
    show "\<exists>e. hm_get (controllers ?m) (radio_task s) = Some e \<and> config_id e = j"
      if "hm_get (radio_slots ?m) j = Some (Active s)" for j s
      using ok(7) [of j s] that none by (auto simp: hm_get_put split: if_splits)
    show "t < fresh ?m" if "hm_get (controllers ?m) t = Some e" for t e
      using ok(5) [of t e] that by (auto simp: hm_get_put split: if_splits)
    show "owned ?m t (config_id e)" if "hm_get (controllers ?m) t = Some e" for t e
      using ok(6) [of t e] o n that by (auto simp: hm_get_put split: if_splits)
    show "p = q" if "ending (radio_calls ?m p) = Some (j, d)" "ending (radio_calls ?m q) = Some (j, e)" for p q j d e
      using ok(4) that by simp
    show "t < fresh ?m" if "radio_calls ?m p = Stopping j d t left" for p j d t left
      using ok(8) [of p j d t left] that by simp
    show "config_id e = j" if "radio_calls ?m p = Stopping j d t left" "hm_get (controllers ?m) t = Some e" for p j d t left e
      using ok(8) [of p j d t left] ok(9) [of p j d t left e] that by (auto simp: hm_get_put split: if_splits)
  qed (use ok hm.ok_put in simp_all)
  then show ?thesis using ok_goto [of ?m p] assms(3) by (simp add: start_radio_def Let_def)
qed

lemma ok_take:
  assumes "lifecycle_ok m" and "take_slot p c m = Some m'" and "ending (radio_calls m p) = None"
  shows "lifecycle_ok m'"
proof (cases "hm_get (radio_slots m) (config_id c)")
  case None
  then show ?thesis using assms(2) by (simp add: take_slot_def)
next
  case (Some slot)
  show ?thesis
  proof (cases slot)
    case (Active r)
    let ?m = "m\<lparr>radio_slots := hm_put (config_id c) (Active (r\<lparr>refcount := refcount r + 1\<rparr>)) (radio_slots m)\<rparr>"
    have "lifecycle_ok ?m" using ok_count [OF assms(1), of "config_id c" r] Some Active by simp
    moreover have "m' = goto p (Holding (config_id c) (radio_task r)) ?m"
      using assms(2) Some Active by (simp add: take_slot_def)
    ultimately show ?thesis using ok_goto [of ?m p] assms(3) by simp
  next
    case (ShuttingDown d)
    then have "m' = goto p (Cloned c d) m" using assms(2) Some by (simp add: take_slot_def)
    then show ?thesis using ok_goto [OF assms(1,3)] by simp
  qed
qed

lemma ok_shut:
  assumes "lifecycle_ok m" and "hm_get (radio_slots m) i = Some (Active r)" and "ending (radio_calls m p) = None"
  shows "lifecycle_ok (goto p (Stopping i (fresh m) (radio_task r) left)
     (m\<lparr>radio_slots := hm_put i (ShuttingDown (fresh m)) (radio_slots m), fresh := Suc (fresh m)\<rparr>))" (is "lifecycle_ok ?m")
proof -
  note ok = ok_parts [OF assms(1)]
  have calls: "radio_calls ?m q = (if q = p then Stopping i (fresh m) (radio_task r) left else radio_calls m q)" for q by simp
  have slot: "hm_get (radio_slots ?m) j = (if j = i then Some (ShuttingDown (fresh m)) else hm_get (radio_slots m) j)" for j
    by (simp add: hm_get_put)
  have rest: "hm_ok (radio_slots ?m)" "controllers ?m = controllers m" "fresh ?m = Suc (fresh m)"
    using ok(1) hm.ok_put by simp_all
  have away: "ending (radio_calls m q) \<noteq> Some (i, d)" for q d using ok(3) [of q i d] assms(2) by auto
  obtain c where c: "hm_get (controllers m) (radio_task r) = Some c" "config_id c = i" using ok(7) [OF assms(2)] by blast
  show ?thesis
  proof (rule okI)
    show "hm_get (radio_slots ?m) j = Some (ShuttingDown d)" if "ending (radio_calls ?m q) = Some (j, d)" for q j d
      using ok(3) [of q j d] away [of q d] that unfolding calls slot by (auto split: if_splits)
    show "a = b" if "ending (radio_calls ?m a) = Some (j, d)" "ending (radio_calls ?m b) = Some (j, e)" for a b j d e
      using ok(4) [of a j d b e] away that unfolding calls by (auto split: if_splits)
    show "\<exists>e. hm_get (controllers ?m) (radio_task s) = Some e \<and> config_id e = j"
      if "hm_get (radio_slots ?m) j = Some (Active s)" for j s
      using ok(7) [of j s] that unfolding slot rest by (auto split: if_splits)
    show "t < fresh ?m" if "hm_get (controllers ?m) t = Some e" for t e
      using ok(5) [of t e] that unfolding rest by simp
    show "owned ?m t (config_id e)" if "hm_get (controllers ?m) t = Some e" for t e
    proof -
      have "owned m t (config_id e)" using ok(6) that unfolding rest by blast
      then consider s where "hm_get (radio_slots m) (config_id e) = Some (Active s)" "radio_task s = t"
        | q d l where "radio_calls m q = Stopping (config_id e) d t l" unfolding owned_def by blast
      then show ?thesis
      proof cases
        case 1
        show ?thesis
        proof (cases "config_id e = i")
          case True
          with 1 assms(2) have "radio_calls ?m p = Stopping (config_id e) (fresh m) t left" by simp
          then show ?thesis unfolding owned_def by blast
        next
          case False
          with 1 show ?thesis unfolding owned_def slot by auto
        qed
      next
        case 2
        with assms(3) have "q \<noteq> p" by auto
        with 2 show ?thesis unfolding owned_def calls by metis
      qed
    qed
    show "t < fresh ?m" if "radio_calls ?m q = Stopping j d t l" for q j d t l
      using ok(8) [of q j d t l] ok(5) [OF c(1)] that unfolding calls rest by (auto split: if_splits)
    show "config_id e = j" if "radio_calls ?m q = Stopping j d t l" "hm_get (controllers ?m) t = Some e" for q j d t l e
      using ok(9) [of q j d t l e] c that unfolding calls rest by (auto split: if_splits)
  qed (use ok rest in simp_all)
qed

lemma ok_release:
  assumes "lifecycle_ok m" and "ending (radio_calls m p) = None"
  shows "lifecycle_ok (release_enter p i left m)"
proof (cases "\<exists>r. hm_get (radio_slots m) i = Some (Active r)")
  case False
  have "ending (after_release left) = None" by (cases left) simp_all
  moreover have "release_enter p i left m = goto p (after_release left) m"
    using False by (auto simp: release_enter_def split: option.split radio_slot.split)
  ultimately show ?thesis using ok_goto [OF assms] by simp
next
  case True
  then obtain r where r: "hm_get (radio_slots m) i = Some (Active r)" by blast
  have none: "ending (after_release left) = None" by (cases left) simp_all
  show ?thesis
  proof (cases "refcount r - 1 = 0")
    case True
    then show ?thesis using ok_shut [OF assms(1) r assms(2)] r by (simp add: release_enter_def Let_def)
  next
    case False
    let ?m = "m\<lparr>radio_slots := hm_put i (Active (r\<lparr>refcount := refcount r - 1\<rparr>)) (radio_slots m)\<rparr>"
    have "lifecycle_ok ?m" using ok_count [OF assms(1) r] by simp
    then show ?thesis using ok_goto [of ?m p] assms(2) none r False by (simp add: release_enter_def Let_def)
  qed
qed


lemma ok_ended:
  assumes "lifecycle_ok m" and "radio_calls m p = Stopping i d t left"
  shows "lifecycle_ok (m\<lparr>controllers := hm_remove t (controllers m)\<rparr>)" (is "lifecycle_ok ?m")
proof -
  note ok = ok_parts [OF assms(1)]
  have active: "radio_task r \<noteq> t" if "hm_get (radio_slots m) j = Some (Active r)" for j r
    using ok(7) [OF that] ok(9) [OF assms(2)] ok(3) [of p i d] assms(2) that by auto
  have o: "owned ?m u j = owned m u j" for u j by (simp add: owned_def)
  show ?thesis
  proof (rule okI)
    show "\<exists>c. hm_get (controllers ?m) (radio_task r) = Some c \<and> config_id c = j"
      if "hm_get (radio_slots ?m) j = Some (Active r)" for j r
      using ok(7) [of j r] active [of j r] that by (simp add: hm_get_remove)
    show "u < fresh ?m" if "hm_get (controllers ?m) u = Some c" for u c
      using ok(5) that by (simp add: hm_get_remove split: if_splits)
    show "owned ?m u (config_id c)" if "hm_get (controllers ?m) u = Some c" for u c
      using ok(6) that unfolding o by (simp add: hm_get_remove split: if_splits)
    show "a = b" if "ending (radio_calls ?m a) = Some (j, e)" "ending (radio_calls ?m b) = Some (j, f)" for a b j e f
      using ok(4) that by simp
    show "u < fresh ?m" if "radio_calls ?m a = Stopping j e u l" for a j e u l using ok(8) that by simp
    show "config_id c = j" if "radio_calls ?m a = Stopping j e u l" "hm_get (controllers ?m) u = Some c" for a j e u l c
      using ok(9) that by (simp add: hm_get_remove split: if_splits)
  qed (use ok hm.ok_remove in simp_all)
qed

text \<open>The next place of a release that ends, and what it leaves alone.\<close>

lemma ok_moves_on:
  assumes "lifecycle_ok m" and "ending (radio_calls m p) = Some (i, d)"
    and "\<And>q. radio_calls m' q = (if q = p then call else g (radio_calls m q))" and "g = id \<or> g = woken e"
    and "ending call = Some (i, d)" and "\<And>j f t l. call \<noteq> Stopping j f t l"
    and "\<And>j f t l. radio_calls m p = Stopping j f t l \<Longrightarrow> hm_get (controllers m) t = None"
    and "radio_slots m' = radio_slots m" "controllers m' = controllers m" "fresh m' = fresh m"
  shows "lifecycle_ok m'"
proof -
  note ok = ok_parts [OF assms(1)]
  have e: "ending (radio_calls m' q) = ending (radio_calls m q)" for q
    unfolding assms(3) using assms(2,4,5) by (auto simp: woken_def split: radio_call.split)
  have stop: "radio_calls m' q = Stopping j f t l \<Longrightarrow> radio_calls m q = Stopping j f t l" for q j f t l
    unfolding assms(3) using assms(4,6) by (auto simp: woken_def split: if_splits radio_call.splits)
  have keep: "radio_calls m' q = Stopping j f t l" if "radio_calls m q = Stopping j f t l" "q \<noteq> p" for q j f t l
    unfolding assms(3) using assms(4) that by (auto simp: woken_def)
  show ?thesis
  proof (rule okI)
    show "hm_get (radio_slots m') j = Some (ShuttingDown f)" if "ending (radio_calls m' q) = Some (j, f)" for q j f
      using ok(3) that unfolding e assms(8) by blast
    show "a = b" if "ending (radio_calls m' a) = Some (j, f)" "ending (radio_calls m' b) = Some (j, g)" for a b j f g
      using ok(4) that unfolding e by blast
    show "owned m' t (config_id c)" if "hm_get (controllers m') t = Some c" for t c
    proof -
      have c: "hm_get (controllers m) t = Some c" using that assms(9) by simp
      from ok(6) [OF c] consider "\<exists>r. hm_get (radio_slots m) (config_id c) = Some (Active r) \<and> radio_task r = t"
        | q f l where "radio_calls m q = Stopping (config_id c) f t l" unfolding owned_def by blast
      then show ?thesis
      proof cases
        case 2
        with assms(7) [of "config_id c" f t l] c have "q \<noteq> p" by auto
        with keep 2 show ?thesis unfolding owned_def by blast
      qed (simp add: owned_def assms(8))
    qed
    show "t < fresh m'" if "radio_calls m' q = Stopping j f t l" for q j f t l
      using ok(8) [OF stop [OF that]] assms(10) by simp
    show "config_id c = j" if "radio_calls m' q = Stopping j f t l" "hm_get (controllers m') t = Some c" for q j f t l c
      using ok(9) [OF stop [OF that(1)]] that(2) assms(9) by simp
  qed (use ok assms(8-10) in simp_all)
qed

lemma ok_remove:
  assumes "lifecycle_ok m" and "radio_calls m p = Removing i d left"
  shows "lifecycle_ok (release_remove p i left m)"
proof -
  note ok = ok_parts [OF assms(1)]
  have slot: "hm_get (radio_slots m) i = Some (ShuttingDown d)" using ok(3) [of p i d] assms(2) by simp
  let ?m = "goto p (after_release left) (m\<lparr>radio_slots := hm_remove i (radio_slots m)\<rparr>)"
  have m: "release_remove p i left m = ?m" using slot by (simp add: release_remove_def)
  have none: "ending (after_release left) = None" by (cases left) simp_all
  have calls: "radio_calls ?m q = (if q = p then after_release left else radio_calls m q)" for q by simp
  have slots: "hm_get (radio_slots ?m) j = (if j = i then None else hm_get (radio_slots m) j)" for j by (simp add: hm_get_remove)
  have rest: "controllers ?m = controllers m" "fresh ?m = fresh m" "hm_ok (radio_slots ?m)" using ok(1) hm.ok_remove by simp_all
  have other: "ending (radio_calls m q) = Some (j, f) \<Longrightarrow> q \<noteq> p \<Longrightarrow> j \<noteq> i" for q j f
    using ok(4) [of q j f p d] assms(2) by auto
  have away: "after_release left \<noteq> Stopping j f t l" for j f t l by (cases left) simp_all
  have "lifecycle_ok ?m"
  proof (rule okI)
    show "hm_get (radio_slots ?m) j = Some (ShuttingDown f)" if "ending (radio_calls ?m q) = Some (j, f)" for q j f
      using ok(3) [of q j f] other [of q j f] none that unfolding calls slots by (auto split: if_splits)
    show "a = b" if "ending (radio_calls ?m a) = Some (j, f)" "ending (radio_calls ?m b) = Some (j, g)" for a b j f g
      using ok(4) [of a j f b g] none that unfolding calls by (auto split: if_splits)
    show "owned ?m t (config_id c)" if "hm_get (controllers ?m) t = Some c" for t c
    proof -
      from ok(6) [of t c] that consider r where "hm_get (radio_slots m) (config_id c) = Some (Active r)" "radio_task r = t"
        | q f l where "radio_calls m q = Stopping (config_id c) f t l" unfolding owned_def rest by blast
      then show ?thesis
      proof cases
        case 1
        then show ?thesis using slot unfolding owned_def slots by auto
      next
        case 2
        then have "q \<noteq> p" using assms(2) by auto
        with 2 show ?thesis unfolding owned_def calls by auto
      qed
    qed
    show "\<exists>c. hm_get (controllers ?m) (radio_task r) = Some c \<and> config_id c = j"
      if "hm_get (radio_slots ?m) j = Some (Active r)" for j r
      using ok(7) [of j r] that unfolding slots rest by (auto split: if_splits)
    show "t < fresh ?m" if "radio_calls ?m q = Stopping j f t l" for q j f t l
      using ok(8) [of q j f t l] away that unfolding calls rest by (auto split: if_splits)
    show "config_id c = j" if "radio_calls ?m q = Stopping j f t l" "hm_get (controllers ?m) t = Some c" for q j f t l c
      using ok(9) [of q j f t l c] away that unfolding calls rest by (auto split: if_splits)
    show "t < fresh ?m" if "hm_get (controllers ?m) t = Some c" for t c using ok(5) that unfolding rest by blast
  qed (use ok rest in simp_all)
  with m show ?thesis by simp
qed

lemma lifecycle_ok_step: "lifecycle_step host m m' \<Longrightarrow> lifecycle_ok m \<Longrightarrow> lifecycle_ok m'"
proof (induction rule: lifecycle_step.induct)
  case (look m p config)
  then show ?case using ok_take [of m p config] ok_goto [of m p "Sanitizing config"]
    by (auto simp: acquire_look_def split: option.split)
next
  case (insert m p config)
  show ?case
  proof (cases "take_slot p config m")
    case None
    then have "hm_get (radio_slots m) (config_id config) = None"
      by (auto simp: take_slot_def split: option.splits radio_slot.splits)
    with None insert ok_start [of m config p] show ?thesis by (simp add: acquire_insert_def)
  next
    case (Some m')
    with insert ok_take [of m p config] show ?thesis by (simp add: acquire_insert_def)
  qed
next
  case (release m p i left)
  then show ?case using ok_release by simp
next
  case (controller_ends m p i d t left)
  then show ?case using ok_ended by blast
next
  case (stopped m p i d t left)
  then show ?case
    using ok_moves_on [of m p i d "goto p (Notifying i d left) m" "Notifying i d left" id] by simp
next
  case (notify m p i d left)
  then show ?case
    using ok_moves_on [of m p i d "goto p (Removing i d left) (notify_waiters d m)" "Removing i d left" "woken d" d] by simp
next
  case (remove m p i d left)
  then show ?case using ok_remove by simp
next
  case (shut_next m p i left)
  then show ?case using ok_goto [of m p] by (simp add: shut_next_def)
qed (use ok_goto in simp_all)

lemma lifecycle_ok_reachable: "lifecycle_reachable host m \<Longrightarrow> lifecycle_ok m"
proof (induction rule: lifecycle_reachable.induct)
  case start
  show ?case by (simp add: lifecycle_ok_def new_manager_def hm_ok_def)
next
  case (step m m')
  then show ?case using lifecycle_ok_step by blast
qed

lemma controllers_differ:
  assumes "lifecycle_reachable host m"
    and "hm_get (controllers m) t = Some c" and "hm_get (controllers m) u = Some e" and "config_id c = config_id e"
  shows "t = u"
proof -
  note ok = ok_parts [OF lifecycle_ok_reachable [OF assms(1)]]
  let ?i = "config_id c"
  have t: "owned m t ?i" using ok(6) [OF assms(2)] .
  have u: "owned m u ?i" using ok(6) [OF assms(3)] assms(4) by simp
  show ?thesis
  proof (cases "\<exists>r. hm_get (radio_slots m) ?i = Some (Active r)")
    case True
    then obtain r where r: "hm_get (radio_slots m) ?i = Some (Active r)" by blast
    then have "radio_calls m p \<noteq> Stopping ?i d v left" for p d v left using ok(3) [of p ?i d] by auto
    with t u r show ?thesis unfolding owned_def by simp
  next
    case False
    with t obtain p d l where p: "radio_calls m p = Stopping ?i d t l" unfolding owned_def by blast
    from False u obtain q f k where q: "radio_calls m q = Stopping ?i f u k" unfolding owned_def by blast
    from ok(4) [of p ?i d q f] p q show ?thesis by simp
  qed
qed

text \<open>A radio never has two running controllers, even while calls to \<open>shutdown_all\<close> interleave with its users.\<close>

lemma one_controller:
  assumes "lifecycle_reachable host m"
  shows "length (filter (\<lambda>(t, c). config_id c = i) (controllers m)) \<le> 1"
proof -
  let ?own = "filter (\<lambda>(t, c). config_id c = i) (controllers m)"
  have d: "distinct (map fst (controllers m))"
    using ok_parts(2) [OF lifecycle_ok_reachable [OF assms]] by (simp add: hm_ok_def)
  have get: "hm_get (controllers m) t = Some c \<and> config_id c = i" if "(t, c) \<in> set ?own" for t c
    using that d by simp
  have "t = u" if "(t, c) \<in> set ?own" "(u, e) \<in> set ?own" for t c u e
    by (rule controllers_differ [OF assms conjunct1 [OF get [OF that(1)]] conjunct1 [OF get [OF that(2)]]])
      (simp only: conjunct2 [OF get [OF that(1)]] conjunct2 [OF get [OF that(2)]])
  then have "\<forall>t\<in>fst ` set ?own. \<forall>u\<in>fst ` set ?own. t = u" unfolding fst_eq_Domain by blast
  then have "card (fst ` set ?own) \<le> Suc 0"
    by (intro iffD2 [OF card_le_Suc0_iff_eq] finite_imageI finite_set)
  moreover have "distinct (map fst ?own)" using d by (simp add: distinct_map_filter)
  then have "length ?own = card (fst ` set ?own)" by (metis distinct_card length_map list.set_map)
  ultimately show ?thesis by simp
qed

section \<open>The users\<close>

fun uses :: "radio_call \<Rightarrow> int \<Rightarrow> bool" where
  "uses (Holding i _) j \<longleftrightarrow> i = j"
| "uses (Releasing i _) j \<longleftrightarrow> i = j"
| "uses _ _ \<longleftrightarrow> False"

text \<open>The calls of a run without \<open>shutdown_all\<close>.\<close>

fun session_call :: "radio_call \<Rightarrow> bool" where
  "session_call (ShuttingAll _) \<longleftrightarrow> False"
| "session_call (Releasing _ left) \<longleftrightarrow> left = None"
| "session_call (Stopping _ _ _ left) \<longleftrightarrow> left = None"
| "session_call (Notifying _ _ left) \<longleftrightarrow> left = None"
| "session_call (Removing _ _ left) \<longleftrightarrow> left = None"
| "session_call _ \<longleftrightarrow> True"

definition users_of :: "lifecycle \<Rightarrow> int \<Rightarrow> nat set" where
  "users_of m i = {p. uses (radio_calls m p) i}"

text \<open>The slot of a radio agrees with its users.\<close>

definition slot_counted :: "radio_slot option \<Rightarrow> nat set \<Rightarrow> bool" where
  "slot_counted slot ps \<longleftrightarrow> finite ps \<and>
     (case slot of Some (Active r) \<Rightarrow> refcount r = card ps \<and> ps \<noteq> {} | _ \<Rightarrow> ps = {})"

definition counted :: "lifecycle \<Rightarrow> bool" where
  "counted m \<longleftrightarrow> (\<forall>p. session_call (radio_calls m p))
     \<and> (\<forall>i. slot_counted (hm_get (radio_slots m) i) (users_of m i))
     \<and> (\<forall>p i t. radio_calls m p = Holding i t
          \<longrightarrow> (\<exists>r. hm_get (radio_slots m) i = Some (Active r) \<and> radio_task r = t))"

lemma users_goto: "users_of (goto p call m) i = (if uses call i then insert p (users_of m i) else users_of m i - {p})"
  by (auto simp: users_of_def split: if_splits)

lemma holding_uses: "radio_calls m q = Holding i t \<Longrightarrow> q \<in> users_of m i"
  by (simp add: users_of_def)

lemma users_frame [simp]: "users_of (m\<lparr>radio_slots := x\<rparr>) = users_of m" "users_of (m\<lparr>controllers := y\<rparr>) = users_of m"
  "users_of (m\<lparr>fresh := z\<rparr>) = users_of m"
  by (simp_all add: users_of_def fun_eq_iff)

lemma counted_parts:
  assumes "counted m"
  shows "session_call (radio_calls m p)" "slot_counted (hm_get (radio_slots m) i) (users_of m i)"
    "radio_calls m p = Holding i t \<Longrightarrow> \<exists>r. hm_get (radio_slots m) i = Some (Active r) \<and> radio_task r = t"
  using assms unfolding counted_def by blast+

lemma counted_goto:
  assumes "counted m" and "\<And>i. uses call i = uses (radio_calls m p) i" and "session_call call" and "\<And>i t. call \<noteq> Holding i t"
  shows "counted (goto p call m)"
proof -
  have "users_of (goto p call m) i = users_of m i" for i
    unfolding users_goto assms(2) by (auto simp: users_of_def)
  then show ?thesis using counted_parts [OF assms(1)] assms(3,4) unfolding counted_def by auto
qed

text \<open>A step that gives one radio another slot.\<close>

lemma counted_slot:
  assumes "counted m" and "slot_counted slot (users_of (goto p call m) i)"
    and "\<And>j. j \<noteq> i \<Longrightarrow> \<not> uses call j \<and> \<not> uses (radio_calls m p) j" and "session_call call"
    and "radio_calls m' = (radio_calls m)(p := call)"
    and "\<And>j. hm_get (radio_slots m') j = (if j = i then slot else hm_get (radio_slots m) j)"
    and "\<And>q t. radio_calls m' q = Holding i t \<Longrightarrow> \<exists>r. slot = Some (Active r) \<and> radio_task r = t"
  shows "counted m'"
proof -
  note c = counted_parts [OF assms(1)]
  have users: "users_of m' j = users_of (goto p call m) j" for j by (simp add: users_of_def assms(5))
  have "slot_counted (hm_get (radio_slots m') j) (users_of m' j)" for j
  proof (cases "j = i")
    case True
    then show ?thesis using assms(2) by (simp add: users assms(6))
  next
    case False
    then have "users_of (goto p call m) j = users_of m j"
      using assms(3) [OF False] unfolding users_goto by (auto simp: users_of_def)
    then show ?thesis using c(2) [of j] False by (simp add: users assms(6))
  qed
  moreover have "session_call (radio_calls m' q)" for q using c(1) assms(4) by (simp add: assms(5))
  moreover have "\<exists>r. hm_get (radio_slots m') j = Some (Active r) \<and> radio_task r = t"
    if q: "radio_calls m' q = Holding j t" for q j t
  proof (cases "j = i")
    case True
    then show ?thesis using assms(7) q by (simp add: assms(6))
  next
    case False
    then have "radio_calls m q = Holding j t" using q assms(3) [OF False] by (auto simp: assms(5) split: if_splits)
    then show ?thesis using c(3) False by (simp add: assms(6))
  qed
  ultimately show ?thesis unfolding counted_def by blast
qed

lemma counted_take:
  assumes "counted m" and "take_slot p c m = Some m'" and "\<And>j. \<not> uses (radio_calls m p) j"
  shows "counted m'"
proof -
  have new: "p \<notin> users_of m i" for i using assms(3) by (simp add: users_of_def)
  show ?thesis
  proof (cases "hm_get (radio_slots m) (config_id c)")
    case None
    then show ?thesis using assms(2) by (simp add: take_slot_def)
  next
    case (Some slot)
    show ?thesis
    proof (cases slot)
      case (Active r)
      let ?r = "r\<lparr>refcount := refcount r + 1\<rparr>"
      have m': "m' = goto p (Holding (config_id c) (radio_task r)) (m\<lparr>radio_slots := hm_put (config_id c) (Active ?r) (radio_slots m)\<rparr>)"
        using assms(2) Some Active by (simp add: take_slot_def)
      show ?thesis
      proof (rule counted_slot [of m "Some (Active ?r)" p "Holding (config_id c) (radio_task r)" "config_id c"])
        show "slot_counted (Some (Active ?r)) (users_of (goto p (Holding (config_id c) (radio_task r)) m) (config_id c))"
          using counted_parts(2) [OF assms(1), of "config_id c"] Some Active new by (simp add: slot_counted_def users_goto)
        show "\<exists>s. Some (Active ?r) = Some (Active s) \<and> radio_task s = t"
          if "radio_calls m' q = Holding (config_id c) t" for q t
          using counted_parts(3) [OF assms(1), of q "config_id c" t] that Some Active by (auto simp: m' split: if_splits)
      qed (use assms m' in \<open>auto simp: hm_get_put\<close>)
    next
      case (ShuttingDown d)
      then have "m' = goto p (Cloned c d) m" using assms(2) Some by (simp add: take_slot_def)
      then show ?thesis using counted_goto [OF assms(1)] assms(3) by simp
    qed
  qed
qed


lemma counted_start:
  assumes "counted m" and "hm_get (radio_slots m) (config_id c) = None" and "\<And>j. \<not> uses (radio_calls m p) j"
  shows "counted (start_radio p c m)"
proof (rule counted_slot [of m "Some (Active \<lparr>radio_task = fresh m, refcount = 1\<rparr>)" p "Holding (config_id c) (fresh m)" "config_id c"])
  have none: "users_of m (config_id c) = {}"
    using counted_parts(2) [OF assms(1), of "config_id c"] assms(2) by (simp add: slot_counted_def)
  then show "slot_counted (Some (Active \<lparr>radio_task = fresh m, refcount = 1\<rparr>))
      (users_of (goto p (Holding (config_id c) (fresh m)) m) (config_id c))"
    by (simp add: slot_counted_def users_goto)
  show "\<exists>r. Some (Active \<lparr>radio_task = fresh m, refcount = 1\<rparr>) = Some (Active r) \<and> radio_task r = t"
    if "radio_calls (start_radio p c m) q = Holding (config_id c) t" for q t
    using counted_parts(3) [OF assms(1), of q "config_id c" t] that assms(2)
    by (auto simp: start_radio_def Let_def split: if_splits)
qed (use assms in \<open>auto simp: hm_get_put start_radio_def Let_def\<close>)

lemma counted_release:
  assumes "counted m" and "radio_calls m p = Releasing i None"
  shows "counted (release_enter p i None m)"
proof -
  have p: "p \<in> users_of m i" using assms(2) by (simp add: users_of_def)
  with counted_parts(2) [OF assms(1), of i] obtain r where slot: "hm_get (radio_slots m) i = Some (Active r)"
    and n: "refcount r = card (users_of m i)" "finite (users_of m i)"
    by (auto simp: slot_counted_def split: option.splits radio_slot.splits)
  have less: "card (users_of m i - {p}) = refcount r - 1" using n p by simp
  have others: "j \<noteq> i \<Longrightarrow> \<not> uses (radio_calls m p) j" for j using assms(2) by simp
  show ?thesis
  proof (cases "refcount r - 1 = 0")
    case True
    then have last: "users_of m i - {p} = {}" using less n(2) by simp
    have gone: "radio_calls m q \<noteq> Holding i t" if "q \<noteq> p" for q t
      using last that holding_uses [of m q i t] by blast
    show ?thesis
    proof (rule counted_slot [of m "Some (ShuttingDown (fresh m))" p "Stopping i (fresh m) (radio_task r) None" i])
      show "slot_counted (Some (ShuttingDown (fresh m))) (users_of (goto p (Stopping i (fresh m) (radio_task r) None) m) i)"
        using last n(2) by (simp add: slot_counted_def users_goto)
      show "\<exists>s. Some (ShuttingDown (fresh m)) = Some (Active s) \<and> radio_task s = t"
        if "radio_calls (release_enter p i None m) q = Holding i t" for q t
        using that gone slot True by (auto simp: release_enter_def Let_def split: if_splits)
    qed (use assms others slot True in \<open>auto simp: release_enter_def Let_def hm_get_put\<close>)
  next
    case False
    let ?r = "r\<lparr>refcount := refcount r - 1\<rparr>"
    have left: "users_of m i - {p} \<noteq> {}" using less False by fastforce
    show ?thesis
    proof (rule counted_slot [of m "Some (Active ?r)" p Idle i])
      show "slot_counted (Some (Active ?r)) (users_of (goto p Idle m) i)"
        using less left n(2) by (simp add: slot_counted_def users_goto)
      show "\<exists>s. Some (Active ?r) = Some (Active s) \<and> radio_task s = t"
        if "radio_calls (release_enter p i None m) q = Holding i t" for q t
        using counted_parts(3) [OF assms(1), of q i t] that slot False
        by (auto simp: release_enter_def Let_def split: if_splits)
    qed (use assms others slot False in \<open>auto simp: release_enter_def Let_def hm_get_put\<close>)
  qed
qed

lemma counted_woken:
  assumes "counted m" and "radio_calls m p = Notifying i d None"
  shows "counted (goto p (Removing i d None) (notify_waiters d m))"
proof -
  have u: "uses (woken d call) j = uses call j" for call j by (cases call) (simp_all add: woken_def)
  have s: "session_call call \<Longrightarrow> session_call (woken d call)" for call by (cases call) (simp_all add: woken_def)
  have h: "woken d call = Holding j t \<longleftrightarrow> call = Holding j t" for call j t by (cases call) (simp_all add: woken_def)
  have "counted (notify_waiters d m)"
    using counted_parts [OF assms(1)] s unfolding counted_def by (simp add: users_of_def u h)
  then show ?thesis by (rule counted_goto) (use assms(2) in \<open>simp_all add: woken_def\<close>)
qed

lemma counted_remove:
  assumes "counted m" and "radio_calls m p = Removing i d None"
  shows "counted (release_remove p i None m)"
proof (cases "\<exists>e. hm_get (radio_slots m) i = Some (ShuttingDown e)")
  case True
  then obtain e where e: "hm_get (radio_slots m) i = Some (ShuttingDown e)" by blast
  with counted_parts(2) [OF assms(1), of i] have none: "users_of m i = {}" by (simp add: slot_counted_def)
  show ?thesis
  proof (rule counted_slot [of m None p Idle i])
    show "\<exists>r. None = Some (Active r) \<and> radio_task r = t" if "radio_calls (release_remove p i None m) q = Holding i t" for q t
      using none that e holding_uses [of m q i t] by (auto simp: release_remove_def split: if_splits)
  qed (use assms none e in \<open>auto simp: release_remove_def hm_get_remove slot_counted_def users_goto\<close>)
next
  case False
  then have "release_remove p i None m = goto p Idle m"
    by (auto simp: release_remove_def split: option.split radio_slot.split)
  then show ?thesis using counted_goto [OF assms(1)] assms(2) by simp
qed

lemma counted_step: "lifecycle_step False m m' \<Longrightarrow> counted m \<Longrightarrow> counted m'"
proof (induction rule: lifecycle_step.induct)
  case (look m p config)
  then show ?case using counted_take [of m p config] counted_goto [of m "Sanitizing config" p]
    by (auto simp: acquire_look_def split: option.split)
next
  case (insert m p config)
  show ?case
  proof (cases "take_slot p config m")
    case None
    then have "hm_get (radio_slots m) (config_id config) = None"
      by (auto simp: take_slot_def split: option.splits radio_slot.splits)
    with None insert counted_start [of m config p] show ?thesis by (simp add: acquire_insert_def)
  next
    case (Some m')
    with insert counted_take [of m p config] show ?thesis by (simp add: acquire_insert_def)
  qed
next
  case (release m p i left)
  have "left = None" using counted_parts(1) [OF release(2), of p] release(1) by simp
  with release counted_release show ?case by simp
next
  case (controller_ends m p i d t left)
  then show ?case using counted_parts [OF controller_ends(2)] unfolding counted_def by (simp add: users_of_def)
next
  case (stopped m p i d t left)
  have "left = None" using counted_parts(1) [OF stopped(3), of p] stopped(1) by simp
  with stopped counted_goto show ?case by simp
next
  case (notify m p i d left)
  have "left = None" using counted_parts(1) [OF notify(2), of p] notify(1) by simp
  with notify counted_woken show ?case by simp
next
  case (remove m p i d left)
  have "left = None" using counted_parts(1) [OF remove(2), of p] remove(1) by simp
  with remove counted_remove show ?case by simp
next
  case (shut_next m p i left)
  then show ?case using counted_parts(1) [OF shut_next(2), of p] by simp
next
  case (shut_done m p)
  then show ?case using counted_parts(1) [OF shut_done(2), of p] by simp
qed (use counted_goto in simp_all)

lemma counted_reachable: "lifecycle_reachable False m \<Longrightarrow> counted m"
proof (induction rule: lifecycle_reachable.induct)
  case start
  show ?case by (simp add: counted_def new_manager_def users_of_def slot_counted_def)
next
  case (step m m')
  then show ?case using counted_step by blast
qed

text \<open>
  C27. A session that holds a radio is connected to its running controller, and the radio's count is the
  number of its sessions: a controller stops only when its last session has released it.
\<close>

theorem held_handle_live:
  assumes "lifecycle_reachable False m" and "radio_calls m p = Holding i t"
  shows "\<exists>r c. hm_get (radio_slots m) i = Some (Active r) \<and> radio_task r = t
     \<and> hm_get (controllers m) t = Some c \<and> config_id c = i \<and> refcount r = card (users_of m i)"
proof -
  note c = counted_parts [OF counted_reachable [OF assms(1)]]
  obtain r where r: "hm_get (radio_slots m) i = Some (Active r)" "radio_task r = t" using c(3) [OF assms(2)] by blast
  obtain k where "hm_get (controllers m) t = Some k" "config_id k = i"
    using ok_parts(7) [OF lifecycle_ok_reachable [OF assms(1)] r(1)] r(2) by blast
  moreover have "refcount r = card (users_of m i)" using c(2) [of i] r(1) by (simp add: slot_counted_def)
  ultimately show ?thesis using r by blast
qed

section \<open>A wakeup that is lost\<close>

definition stranded :: "nat \<Rightarrow> radio_config \<Rightarrow> nat \<Rightarrow> lifecycle \<Rightarrow> bool" where
  "stranded p c d m \<longleftrightarrow> radio_calls m p = Waiting c d \<and> d < fresh m \<and> (\<forall>q i. ending (radio_calls m q) \<noteq> Some (i, d))"

lemma stranded_goto:
  assumes "stranded p c d m" and "radio_calls m q \<noteq> Waiting c d" and "\<And>i. ending call \<noteq> Some (i, d)"
    and "radio_calls m' = (radio_calls m)(q := call)" and "fresh m \<le> fresh m'"
  shows "stranded p c d m'"
  using assms unfolding stranded_def by auto

lemma stranded_plain:
  "stranded p c d m \<Longrightarrow> radio_calls m q \<noteq> Waiting c d \<Longrightarrow> ending call = None \<Longrightarrow> stranded p c d (goto q call m)"
  by (rule stranded_goto [of p c d m q call]) simp_all

lemma stranded_take:
  assumes "stranded p c d m" and "take_slot q k m = Some m'" and "radio_calls m q \<noteq> Waiting c d"
  shows "stranded p c d m'"
proof -
  obtain call where "radio_calls m' = (radio_calls m)(q := call)" "ending call = None" "fresh m' = fresh m"
    using assms(2) that by (auto simp: take_slot_def split: option.splits radio_slot.splits)
  then show ?thesis using stranded_goto [OF assms(1,3), of call m'] by simp
qed

lemma stranded_step: "lifecycle_step host m m' \<Longrightarrow> stranded p c d m \<Longrightarrow> stranded p c d m'"
proof (induction rule: lifecycle_step.induct)
  case (look m q k)
  show ?case
  proof (cases "take_slot q k m")
    case None
    then show ?thesis using stranded_goto [OF look(2), of q "Sanitizing k"] look(1) by (simp add: acquire_look_def)
  qed (use stranded_take look in \<open>simp add: acquire_look_def\<close>)
next
  case (insert m q k)
  show ?case
  proof (cases "take_slot q k m")
    case None
    then show ?thesis using stranded_goto [OF insert(2), of q "Holding (config_id k) (fresh m)"] insert(1)
      by (simp add: acquire_insert_def start_radio_def Let_def)
  qed (use stranded_take insert in \<open>simp add: acquire_insert_def\<close>)
next
  case (release m q i left)
  have after: "ending (after_release left) = None" by (cases left) simp_all
  have "d \<noteq> fresh m" using release(2) by (simp add: stranded_def)
  obtain call where "radio_calls (release_enter q i left m) = (radio_calls m)(q := call)"
    "ending call = None \<or> ending call = Some (i, fresh m)" "fresh m \<le> fresh (release_enter q i left m)"
  proof (cases "\<exists>r. hm_get (radio_slots m) i = Some (Active r) \<and> refcount r - 1 = 0")
    case True
    then obtain r where "hm_get (radio_slots m) i = Some (Active r)" "refcount r - 1 = 0" by blast
    then show thesis using that [of "Stopping i (fresh m) (radio_task r) left"] by (simp add: release_enter_def Let_def)
  next
    case False
    then show thesis using that [of "after_release left"] after
      by (auto simp: release_enter_def Let_def split: option.splits radio_slot.splits)
  qed
  with stranded_goto [OF release(2), of q call "release_enter q i left m"] release(1) \<open>d \<noteq> fresh m\<close> show ?case by auto
next
  case (controller_ends m q i e t left)
  then show ?case by (simp add: stranded_def)
next
  case (stopped m q i e t left)
  then have "e \<noteq> d" unfolding stranded_def by (metis ending.simps(1))
  with stopped stranded_goto [OF stopped(3), of q "Notifying i e left"] show ?case by simp
next
  case (notify m q i e left)
  then have "e \<noteq> d" unfolding stranded_def by (metis ending.simps(2))
  have w: "ending (woken e call) = ending call" for call by (cases call) (simp_all add: woken_def)
  have "stranded p c d (notify_waiters e m)"
    using notify(2) \<open>e \<noteq> d\<close> unfolding stranded_def by (simp add: w) (simp add: woken_def)
  moreover have "radio_calls (notify_waiters e m) q \<noteq> Waiting c d" using notify(1) by (simp add: woken_def)
  ultimately show ?case using stranded_goto [of p c d "notify_waiters e m" q "Removing i e left"] \<open>e \<noteq> d\<close> by simp
next
  case (remove m q i e left)
  have after: "ending (after_release left) = None" by (cases left) simp_all
  then show ?case using stranded_goto [OF remove(2), of q "after_release left" "release_remove q i left m"] remove(1)
    by (simp add: release_remove_def split: option.split radio_slot.split)
next
  case (shut_next m q i left)
  then show ?case using stranded_goto [OF shut_next(2), of q "Releasing i (Some (i # left))"]
      stranded_goto [OF shut_next(2), of q "ShuttingAll left"] by (simp add: shut_next_def)
qed (use stranded_plain in auto)


lemma stranded_forever:
  assumes "(lifecycle_step host)\<^sup>*\<^sup>* m m'" and "stranded p c d m"
  shows "radio_calls m' p = Waiting c d"
proof -
  from assms(1) have "stranded p c d m'" using assms(2) by (induction rule: rtranclp_induct) (use stranded_step in blast)+
  then show ?thesis by (simp add: stranded_def)
qed

text \<open>
  Call 0 acquires radio 7 and releases it; call 1 waits for the shutdown, is woken, and looks at the
  slot again before call 0 removes it.
\<close>

definition strand_config :: radio_config where
  "strand_config = \<lparr>config_id = 7, settings = default_settings\<rparr>"

definition strand_held :: lifecycle where
  "strand_held = acquire_insert 0 strand_config (goto 0 (Inserting strand_config)
     (goto 0 (Sanitizing strand_config) (goto 0 (Looking strand_config) new_manager)))"

definition strand_waiting :: lifecycle where
  "strand_waiting = goto 1 (Waiting strand_config 1) (acquire_look 1 strand_config (goto 1 (Looking strand_config)
     (release_enter 0 7 None (goto 0 (Releasing 7 None) strand_held))))"

definition strand_woken :: lifecycle where
  "strand_woken = goto 0 (Removing 7 1 None) (notify_waiters 1 (goto 0 (Notifying 7 1 None)
     (strand_waiting\<lparr>controllers := hm_remove 0 (controllers strand_waiting)\<rparr>)))"

definition strand_removed :: lifecycle where
  "strand_removed = release_remove 0 7 None (goto 1 (Waiting strand_config 1) (acquire_look 1 strand_config strand_woken))"

lemma strand_config_sanitized: "sanitize_radio_config inputs outputs strand_config = strand_config"
  by (simp add: sanitize_radio_config_def strand_config_def sanitized_device_id_def normalized_optional_device_id_def
      default_settings_def)

lemma strand_held_reachable: "lifecycle_reachable host strand_held"
proof -
  let ?a = "goto 0 (Looking strand_config) new_manager"
  let ?b = "goto 0 (Sanitizing strand_config) ?a"
  let ?c = "goto 0 (Inserting strand_config) ?b"
  have "lifecycle_reachable host ?a"
    by (rule lifecycle_reachable.step [OF lifecycle_reachable.start lifecycle_step.acquire]) (simp add: new_manager_def)
  moreover have "acquire_look 0 strand_config ?a = ?b"
    by (simp add: acquire_look_def take_slot_def new_manager_def goto_def)
  ultimately have "lifecycle_reachable host ?b"
    using lifecycle_reachable.step lifecycle_step.look [of ?a 0 strand_config] by (metis fun_upd_same radio_calls_goto)
  then have "lifecycle_reachable host ?c"
    using lifecycle_reachable.step lifecycle_step.sanitize [of ?b 0 strand_config] strand_config_sanitized
    by (metis fun_upd_same radio_calls_goto)
  then show ?thesis unfolding strand_held_def
    using lifecycle_reachable.step lifecycle_step.insert [of ?c 0 strand_config] by (metis fun_upd_same radio_calls_goto)
qed

lemma strand_waiting_reachable: "lifecycle_reachable host strand_waiting"
proof -
  let ?a = "goto 0 (Releasing 7 None) strand_held"
  let ?b = "release_enter 0 7 None ?a"
  let ?c = "goto 1 (Looking strand_config) ?b"
  have "radio_calls strand_held 0 = Holding 7 0" by code_simp
  then have "lifecycle_reachable host ?a"
    using lifecycle_reachable.step [OF strand_held_reachable lifecycle_step.give_back] by blast
  then have b: "lifecycle_reachable host ?b"
    using lifecycle_reachable.step lifecycle_step.release [of ?a 0 7 None] by (metis fun_upd_same radio_calls_goto)
  have "radio_calls ?b 1 = Idle" by code_simp
  then have c: "lifecycle_reachable host ?c" using lifecycle_reachable.step [OF b lifecycle_step.acquire] by blast
  then have d: "lifecycle_reachable host (acquire_look 1 strand_config ?c)"
    using lifecycle_reachable.step lifecycle_step.look [of ?c 1 strand_config] by (metis fun_upd_same radio_calls_goto)
  have "radio_calls (acquire_look 1 strand_config ?c) 1 = Cloned strand_config 1"
    by (simp add: acquire_look_def take_slot_def strand_held_def acquire_insert_def start_radio_def new_manager_def
        release_enter_def Let_def hm_get_put hm_get_remove strand_config_def)
  then show ?thesis unfolding strand_waiting_def using lifecycle_reachable.step [OF d lifecycle_step.wait] by blast
qed

text \<open>The states of the run, written out.\<close>

lemma strand_waiting_is:
  "strand_waiting = \<lparr>radio_slots = [(7, ShuttingDown 1)],
     radio_calls = (\<lambda>_. Idle)(0 := Stopping 7 1 0 None, 1 := Waiting strand_config 1),
     controllers = [(0, strand_config)], fresh = 2\<rparr>"
  by (simp add: strand_waiting_def acquire_look_def take_slot_def strand_held_def acquire_insert_def start_radio_def
      new_manager_def release_enter_def Let_def hm_defs strand_config_def goto_def fun_eq_iff)

lemma strand_woken_is:
  "strand_woken = \<lparr>radio_slots = [(7, ShuttingDown 1)],
     radio_calls = (\<lambda>_. Idle)(0 := Removing 7 1 None, 1 := Looking strand_config), controllers = [], fresh = 2\<rparr>"
  by (simp add: strand_woken_def strand_waiting_is goto_def notify_waiters_def woken_def hm_defs fun_eq_iff)

lemma strand_removed_is:
  "strand_removed = \<lparr>radio_slots = [], radio_calls = (\<lambda>_. Idle)(1 := Waiting strand_config 1), controllers = [], fresh = 2\<rparr>"
  by (simp add: strand_removed_def strand_woken_is acquire_look_def take_slot_def strand_config_def release_remove_def goto_def
      hm_defs fun_eq_iff)

lemma strand_removed_reachable: "lifecycle_reachable host strand_removed"
proof -
  let ?a = "strand_waiting\<lparr>controllers := hm_remove 0 (controllers strand_waiting)\<rparr>"
  let ?b = "goto 0 (Notifying 7 1 None) ?a"
  let ?d = "acquire_look 1 strand_config strand_woken"
  let ?e = "goto 1 (Waiting strand_config 1) ?d"
  have a: "lifecycle_reachable host ?a"
    by (rule lifecycle_reachable.step [OF strand_waiting_reachable
          lifecycle_step.controller_ends [of strand_waiting 0 7 1 0 None]]) (simp add: strand_waiting_is)
  have b: "lifecycle_reachable host ?b"
    by (rule lifecycle_reachable.step [OF a lifecycle_step.stopped [of ?a 0 7 1 0 None]])
      (simp_all add: strand_waiting_is hm_defs)
  have c: "lifecycle_reachable host strand_woken" unfolding strand_woken_def
    by (rule lifecycle_reachable.step [OF b lifecycle_step.notify]) simp
  have d: "lifecycle_reachable host ?d"
    by (rule lifecycle_reachable.step [OF c lifecycle_step.look]) (simp add: strand_woken_is)
  have e: "lifecycle_reachable host ?e"
    by (rule lifecycle_reachable.step [OF d lifecycle_step.wait])
      (simp add: strand_woken_is acquire_look_def take_slot_def strand_config_def)
  show ?thesis unfolding strand_removed_def
    by (rule lifecycle_reachable.step [OF e lifecycle_step.remove [of ?e 0 7 1 None]])
      (simp add: strand_woken_is acquire_look_def take_slot_def strand_config_def)
qed

text \<open>
  C34. \<open>acquire\<close> can wait forever for a radio nobody uses: \<open>release\<close> notifies the waiters before it removes the
  slot, so a waiter that looks again in between sees the finished shutdown and waits for it once more.
\<close>

theorem acquire_waits_forever:
  "\<exists>m p c d. lifecycle_reachable False m \<and> radio_calls m p = Waiting c d \<and> hm_get (radio_slots m) (config_id c) = None
     \<and> {m'. (lifecycle_step False)\<^sup>*\<^sup>* m m'} \<subseteq> {m'. radio_calls m' p = Waiting c d}"
proof -
  have "stranded 1 strand_config 1 strand_removed" by (simp add: stranded_def strand_removed_is)
  then have "{m'. (lifecycle_step False)\<^sup>*\<^sup>* strand_removed m'} \<subseteq> {m'. radio_calls m' 1 = Waiting strand_config 1}"
    using stranded_forever by blast
  moreover have "radio_calls strand_removed 1 = Waiting strand_config 1"
    "hm_get (radio_slots strand_removed) (config_id strand_config) = None" by (simp_all add: strand_removed_is)
  ultimately show ?thesis using strand_removed_reachable [of False] by blast
qed

text \<open>Two calls share the controller of radio 7.\<close>

definition strand_shared :: lifecycle where
  "strand_shared = acquire_look 1 strand_config (goto 1 (Looking strand_config) strand_held)"

lemma strand_shared_is:
  "strand_shared = \<lparr>radio_slots = [(7, Active \<lparr>radio_task = 0, refcount = 2\<rparr>)],
     radio_calls = (\<lambda>_. Idle)(0 := Holding 7 0, 1 := Holding 7 0), controllers = [(0, strand_config)], fresh = 1\<rparr>"
  by (simp add: strand_shared_def acquire_look_def take_slot_def strand_held_def acquire_insert_def start_radio_def
      new_manager_def Let_def hm_defs strand_config_def goto_def fun_eq_iff)

lemma strand_shared_reachable: "lifecycle_reachable host strand_shared"
proof -
  have "radio_calls strand_held 1 = Idle" by code_simp
  then have "lifecycle_reachable host (goto 1 (Looking strand_config) strand_held)"
    using lifecycle_reachable.step [OF strand_held_reachable lifecycle_step.acquire] by blast
  then show ?thesis unfolding strand_shared_def
    by (rule lifecycle_reachable.step [OF _ lifecycle_step.look]) simp
qed

lemma one_controller_witness:
  "length (filter (\<lambda>(t, c). config_id c = 7) (controllers strand_shared)) \<le> 1 \<and> length (controllers strand_shared) = 1"
  using one_controller [OF strand_shared_reachable, of 7] by (simp add: strand_shared_is)

theorem held_handle_live_witness:
  "\<exists>r. hm_get (radio_slots strand_shared) 7 = Some (Active r) \<and> refcount r = card (users_of strand_shared 7) \<and> refcount r = 2"
proof -
  have "radio_calls strand_shared 1 = Holding 7 0" by (simp add: strand_shared_is)
  from held_handle_live [OF strand_shared_reachable this] show ?thesis by (auto simp: strand_shared_is)
qed

end
