(* ===== verification/RadioSessions.thy ===== *)
theory RadioSessions
  imports RadioSettings "HOL-Library.Multiset"
begin

text \<open>
  The registry of the configured radios, \<open>RadioWebSocketState\<close> of \<open>radio-io/src/websocket.rs\<close>: sessions use
  a radio, the HTTP handlers change or delete one under a permit. Each function runs under the
  registry's lock; the steps at the end interleave them. The session's checks of a client's values
  are here too. Numbers of users are far below \<open>usize::MAX\<close>.
\<close>

section \<open>The registry\<close>

record registered_radio =
  registered_config :: radio_config
  radio_users :: nat
  mutation_reserved :: bool

type_synonym radio_registry = "(int, registered_radio) hmap"

definition idle_radio :: "radio_config \<Rightarrow> registered_radio" where
  "idle_radio config = \<lparr>registered_config = config, radio_users = 0, mutation_reserved = False\<rparr>"

definition new_registry :: "radio_config list \<Rightarrow> radio_registry" where
  "new_registry configs = fold (\<lambda>config. hm_put (config_id config) (idle_radio config)) configs []"

definition add_radio :: "radio_config \<Rightarrow> radio_registry \<Rightarrow> (string + unit) \<times> radio_registry" where
  "add_radio config reg =
     (case hm_get reg (config_id config) of
        None \<Rightarrow> (Inr (), hm_put (config_id config) (idle_radio config) reg)
      | Some _ \<Rightarrow> (Inl (''radio '' @ int_string (config_id config) @ '' is already configured''), reg))"

section \<open>Errors\<close>

datatype acquire_error = AcquireNotFound int | AcquireMutating int | Unavailable int string

fun acquire_error_text :: "acquire_error \<Rightarrow> string" where
  "acquire_error_text (AcquireNotFound i) = ''radio '' @ int_string i @ '' not found''"
| "acquire_error_text (AcquireMutating i) = ''radio '' @ int_string i @ '' is being changed''"
| "acquire_error_text (Unavailable i message) = ''radio '' @ int_string i @ '' is unavailable: '' @ message"

datatype mutation_error = MutationNotFound int | InUse int | MutationInProgress int

fun mutation_error_text :: "mutation_error \<Rightarrow> string" where
  "mutation_error_text (MutationNotFound i) = ''radio '' @ int_string i @ '' not found''"
| "mutation_error_text (InUse i) = ''radio '' @ int_string i @ '' is in use''"
| "mutation_error_text (MutationInProgress i) = ''radio '' @ int_string i @ '' is already being changed''"

section \<open>Sessions\<close>

text \<open>
  \<open>acquire\<close> first counts the user; then the radio manager answers, and a failure takes the user back.
\<close>

definition acquire_enter :: "int \<Rightarrow> radio_registry \<Rightarrow> (acquire_error + radio_config) \<times> radio_registry" where
  "acquire_enter i reg =
     (case hm_get reg i of
        None \<Rightarrow> (Inl (AcquireNotFound i), reg)
      | Some radio \<Rightarrow>
          if mutation_reserved radio then (Inl (AcquireMutating i), reg)
          else (Inr (registered_config radio), hm_put i (radio\<lparr>radio_users := radio_users radio + 1\<rparr>) reg))"

definition finish_use :: "int \<Rightarrow> radio_registry \<Rightarrow> radio_registry" where
  "finish_use i reg =
     (case hm_get reg i of
        None \<Rightarrow> reg
      | Some radio \<Rightarrow> hm_put i (radio\<lparr>radio_users := radio_users radio - 1\<rparr>) reg)"

definition acquire_answer :: "int \<Rightarrow> radio_config \<Rightarrow> (string + 'h) \<Rightarrow> radio_registry
    \<Rightarrow> (acquire_error + radio_config \<times> 'h) \<times> radio_registry" where
  "acquire_answer i config answer reg =
     (case answer of
        Inr handle \<Rightarrow> (Inr (config, handle), reg)
      | Inl message \<Rightarrow> (Inl (Unavailable i message), finish_use i reg))"

section \<open>Mutations\<close>

definition begin_mutation :: "int \<Rightarrow> radio_registry \<Rightarrow> (mutation_error + int) \<times> radio_registry" where
  "begin_mutation i reg =
     (case hm_get reg i of
        None \<Rightarrow> (Inl (MutationNotFound i), reg)
      | Some radio \<Rightarrow>
          if 0 < radio_users radio then (Inl (InUse i), reg)
          else if mutation_reserved radio then (Inl (MutationInProgress i), reg)
          else (Inr i, hm_put i (radio\<lparr>mutation_reserved := True\<rparr>) reg))"

text \<open>Dropping a permit that has not committed.\<close>

definition drop_permit :: "int \<Rightarrow> radio_registry \<Rightarrow> radio_registry" where
  "drop_permit i reg =
     (case hm_get reg i of
        None \<Rightarrow> reg
      | Some radio \<Rightarrow> hm_put i (radio\<lparr>mutation_reserved := False\<rparr>) reg)"

text \<open>Both commits consume the permit; after an error it is dropped.\<close>

definition commit_update :: "int \<Rightarrow> radio_config \<Rightarrow> radio_registry \<Rightarrow> (string + unit) \<times> radio_registry" where
  "commit_update i config reg =
     (if config_id config \<noteq> i
      then (Inl (''radio config id '' @ int_string (config_id config) @ '' does not match reserved radio '' @ int_string i), drop_permit i reg)
      else case hm_get reg i of
             None \<Rightarrow> (Inl (''radio '' @ int_string i @ '' not found''), drop_permit i reg)
           | Some radio \<Rightarrow> (Inr (), hm_put i (radio\<lparr>registered_config := config, mutation_reserved := False\<rparr>) reg))"

definition commit_delete :: "int \<Rightarrow> radio_registry \<Rightarrow> (string + unit) \<times> radio_registry" where
  "commit_delete i reg =
     (case hm_get reg i of
        None \<Rightarrow> (Inl (''radio '' @ int_string i @ '' not found''), drop_permit i reg)
      | Some _ \<Rightarrow> (Inr (), hm_remove i reg))"

section \<open>Steps\<close>

text \<open>
  The sessions under way with the configuration they run, from \<open>acquire_enter\<close> to \<open>finish_use\<close>, and the
  permits that are held.
\<close>

record sessions =
  registry :: radio_registry
  radio_uses :: "(int \<times> radio_config) multiset"
  permits :: "int multiset"

inductive session_step :: "sessions \<Rightarrow> sessions \<Rightarrow> bool" where
  add: "session_step s (s\<lparr>registry := snd (add_radio config (registry s))\<rparr>)"
| refused: "acquire_enter i (registry s) = (Inl e, reg) \<Longrightarrow> session_step s (s\<lparr>registry := reg\<rparr>)"
| entered: "acquire_enter i (registry s) = (Inr config, reg) \<Longrightarrow>
    session_step s (s\<lparr>registry := reg, radio_uses := add_mset (i, config) (radio_uses s)\<rparr>)"
| unavailable: "(i, config) \<in># radio_uses s \<Longrightarrow> acquire_answer i config (Inl message :: string + unit) (registry s) = (e, reg) \<Longrightarrow>
    session_step s (s\<lparr>registry := reg, radio_uses := radio_uses s - {#(i, config)#}\<rparr>)"
| released: "(i, config) \<in># radio_uses s \<Longrightarrow>
    session_step s (s\<lparr>registry := finish_use i (registry s), radio_uses := radio_uses s - {#(i, config)#}\<rparr>)"
| not_begun: "begin_mutation i (registry s) = (Inl e, reg) \<Longrightarrow> session_step s (s\<lparr>registry := reg\<rparr>)"
| begun: "begin_mutation i (registry s) = (Inr j, reg) \<Longrightarrow>
    session_step s (s\<lparr>registry := reg, permits := add_mset j (permits s)\<rparr>)"
| dropped: "i \<in># permits s \<Longrightarrow>
    session_step s (s\<lparr>registry := drop_permit i (registry s), permits := permits s - {#i#}\<rparr>)"
| updated: "i \<in># permits s \<Longrightarrow>
    session_step s (s\<lparr>registry := snd (commit_update i config (registry s)), permits := permits s - {#i#}\<rparr>)"
| deleted: "i \<in># permits s \<Longrightarrow>
    session_step s (s\<lparr>registry := snd (commit_delete i (registry s)), permits := permits s - {#i#}\<rparr>)"

inductive sessions_reachable :: "sessions \<Rightarrow> bool" where
  start: "sessions_reachable \<lparr>registry = new_registry configs, radio_uses = {#}, permits = {#}\<rparr>"
| step: "sessions_reachable s \<Longrightarrow> session_step s s' \<Longrightarrow> sessions_reachable s'"

section \<open>What the registry keeps\<close>

definition uses_of :: "sessions \<Rightarrow> int \<Rightarrow> (int \<times> radio_config) multiset" where
  "uses_of s i = filter_mset (\<lambda>u. fst u = i) (radio_uses s)"

definition radio_consistent :: "int \<Rightarrow> registered_radio option \<Rightarrow> (int \<times> radio_config) multiset \<Rightarrow> nat \<Rightarrow> bool" where
  "radio_consistent i slot uses held =
     (case slot of
        None \<Rightarrow> uses = {#} \<and> held = 0
      | Some radio \<Rightarrow> config_id (registered_config radio) = i \<and> radio_users radio = size uses
          \<and> (\<forall>u\<in>#uses. u = (i, registered_config radio))
          \<and> held = (if mutation_reserved radio then 1 else 0) \<and> (mutation_reserved radio \<longrightarrow> uses = {#}))"

definition sessions_ok :: "sessions \<Rightarrow> bool" where
  "sessions_ok s \<longleftrightarrow> hm_ok (registry s)
     \<and> (\<forall>i. radio_consistent i (hm_get (registry s) i) (uses_of s i) (count (permits s) i))"

text \<open>A step that touches one radio.\<close>

lemma sessions_ok_one:
  assumes "sessions_ok s" and "hm_ok (registry s')"
    and "radio_consistent i (hm_get (registry s') i) (uses_of s' i) (count (permits s') i)"
    and "\<And>j. j \<noteq> i \<Longrightarrow> hm_get (registry s') j = hm_get (registry s) j \<and> uses_of s' j = uses_of s j
        \<and> count (permits s') j = count (permits s) j"
  shows "sessions_ok s'"
proof -
  have "radio_consistent j (hm_get (registry s') j) (uses_of s' j) (count (permits s') j)" for j
  proof (cases "j = i")
    case False
    show ?thesis using assms(1) unfolding sessions_ok_def assms(4) [OF False, THEN conjunct1]
        assms(4) [OF False, THEN conjunct2, THEN conjunct1] assms(4) [OF False, THEN conjunct2, THEN conjunct2] by blast
  qed (simp add: assms(3))
  with assms(2) show ?thesis by (simp add: sessions_ok_def)
qed

lemma sessions_ok_at: "sessions_ok s \<Longrightarrow> hm_ok (registry s)
    \<and> radio_consistent i (hm_get (registry s) i) (uses_of s i) (count (permits s) i)"
  by (simp add: sessions_ok_def)

lemma uses_of_update [simp]:
  "uses_of (s\<lparr>registry := r\<rparr>) j = uses_of s j" "uses_of (s\<lparr>permits := q\<rparr>) j = uses_of s j"
  "uses_of (s\<lparr>radio_uses := u\<rparr>) j = filter_mset (\<lambda>v. fst v = j) u"
  by (simp_all add: uses_of_def)

lemma sessions_ok_start: "sessions_ok \<lparr>registry = new_registry configs, radio_uses = {#}, permits = {#}\<rparr>"
proof -
  have "hm_ok (fold (\<lambda>c. hm_put (config_id c) (idle_radio c)) cs reg)
     \<and> (\<forall>i r. hm_get (fold (\<lambda>c. hm_put (config_id c) (idle_radio c)) cs reg) i = Some r
          \<longrightarrow> (\<exists>c. r = idle_radio c \<and> config_id c = i))"
    if "hm_ok reg" "\<forall>i r. hm_get reg i = Some r \<longrightarrow> (\<exists>c. r = idle_radio c \<and> config_id c = i)" for cs reg
    using that
  proof (induction cs arbitrary: reg)
    case (Cons c cs)
    let ?reg = "hm_put (config_id c) (idle_radio c) reg"
    have "hm_ok ?reg" by (rule hm.ok_put) (rule Cons.prems(1))
    moreover have "\<forall>i r. hm_get ?reg i = Some r \<longrightarrow> (\<exists>k. r = idle_radio k \<and> config_id k = i)"
      using Cons.prems(2) by (auto simp: hm_get_put)
    ultimately show ?case using Cons.IH [of ?reg] by simp
  qed simp
  from this [of "[]" configs] have "hm_ok (new_registry configs)"
    "\<And>i r. hm_get (new_registry configs) i = Some r \<Longrightarrow> \<exists>c. r = idle_radio c \<and> config_id c = i"
    by (auto simp: new_registry_def hm_ok_def)
  then show ?thesis
    by (fastforce simp: sessions_ok_def radio_consistent_def uses_of_def idle_radio_def split: option.split)
qed

lemma sessions_ok_leave:
  assumes "sessions_ok s" and "(i, config) \<in># radio_uses s"
  shows "sessions_ok (s\<lparr>registry := finish_use i (registry s), radio_uses := radio_uses s - {#(i, config)#}\<rparr>)"
proof (rule sessions_ok_one [OF assms(1)])
  note at = sessions_ok_at [OF assms(1), of i]
  have there: "(i, config) \<in># uses_of s i" using assms(2) by (simp add: uses_of_def)
  then obtain radio where r: "hm_get (registry s) i = Some radio"
    using at by (auto simp: radio_consistent_def split: option.splits)
  have less: "filter_mset (\<lambda>u. fst u = i) (radio_uses s - {#(i, config)#}) = uses_of s i - {#(i, config)#}"
    by (simp add: uses_of_def)
  have "size (uses_of s i - {#(i, config)#}) = size (uses_of s i) - 1" using there by (simp add: size_Diff_singleton)
  moreover have "uses_of s i - {#(i, config)#} = {#}" if "uses_of s i = {#}" using that by simp
  moreover have "\<forall>u\<in>#uses_of s i - {#(i, config)#}. u \<in># uses_of s i" by (meson in_diffD)
  ultimately show "radio_consistent i
     (hm_get (registry (s\<lparr>registry := finish_use i (registry s), radio_uses := radio_uses s - {#(i, config)#}\<rparr>)) i)
     (uses_of (s\<lparr>registry := finish_use i (registry s), radio_uses := radio_uses s - {#(i, config)#}\<rparr>) i)
     (count (permits (s\<lparr>registry := finish_use i (registry s), radio_uses := radio_uses s - {#(i, config)#}\<rparr>)) i)"
    using at r less by (auto simp: radio_consistent_def finish_use_def hm_get_put)
  show "hm_ok (registry (s\<lparr>registry := finish_use i (registry s), radio_uses := radio_uses s - {#(i, config)#}\<rparr>))"
    using at hm.ok_put by (auto simp: finish_use_def split: option.split)
qed (auto simp: finish_use_def hm_get_put uses_of_def split: option.split)

lemma sessions_ok_step: "session_step s s' \<Longrightarrow> sessions_ok s \<Longrightarrow> sessions_ok s'"
proof (induction rule: session_step.induct)
  case (add s config)
  note at = sessions_ok_at [OF add, of "config_id config"]
  show ?case
    by (rule sessions_ok_one [OF add, of _ "config_id config"])
      (use at hm.ok_put in \<open>auto simp: add_radio_def hm_get_put radio_consistent_def idle_radio_def split: option.splits\<close>)
next
  case (refused i s e reg)
  then show ?case by (auto simp: acquire_enter_def split: option.splits if_splits)
next
  case (entered i s config reg)
  note at = sessions_ok_at [OF entered(2), of i]
  show ?case
    by (rule sessions_ok_one [OF entered(2), of _ i])
      (use at entered(1) hm.ok_put in \<open>auto simp: acquire_enter_def hm_get_put radio_consistent_def uses_of_def
        split: option.splits if_splits\<close>)
next
  case (unavailable i config s message e reg)
  then show ?case using sessions_ok_leave [of s i config] by (auto simp: acquire_answer_def)
next
  case (released i config s)
  then show ?case using sessions_ok_leave by blast
next
  case (not_begun i s e reg)
  then show ?case by (auto simp: begin_mutation_def split: option.splits if_splits)
next
  case (begun i s j reg)
  note at = sessions_ok_at [OF begun(2), of i]
  show ?case
    by (rule sessions_ok_one [OF begun(2), of _ i])
      (use at begun(1) hm.ok_put in \<open>auto simp: begin_mutation_def hm_get_put radio_consistent_def
        split: option.splits if_splits\<close>)
next
  case (dropped i s)
  note at = sessions_ok_at [OF dropped(2), of i]
  have held: "0 < count (permits s) i" using dropped(1) by simp
  show ?case
    by (rule sessions_ok_one [OF dropped(2), of _ i])
      (use at held hm.ok_put in \<open>auto simp: drop_permit_def hm_get_put radio_consistent_def simp flip: count_greater_zero_iff
        split: option.splits if_splits\<close>)
next
  case (updated i s config)
  note at = sessions_ok_at [OF updated(2), of i]
  have held: "0 < count (permits s) i" using updated(1) by simp
  show ?case
    by (rule sessions_ok_one [OF updated(2), of _ i])
      (use at held hm.ok_put in \<open>auto simp: commit_update_def drop_permit_def hm_get_put radio_consistent_def simp flip: count_greater_zero_iff
        split: option.splits if_splits\<close>)
next
  case (deleted i s)
  note at = sessions_ok_at [OF deleted(2), of i]
  have held: "0 < count (permits s) i" using deleted(1) by simp
  show ?case
    by (rule sessions_ok_one [OF deleted(2), of _ i])
      (use at held hm.ok_remove in \<open>auto simp: commit_delete_def drop_permit_def hm_get_remove radio_consistent_def simp flip: count_greater_zero_iff
        split: option.splits if_splits\<close>)
qed

lemma sessions_ok_reachable: "sessions_reachable s \<Longrightarrow> sessions_ok s"
  by (induction rule: sessions_reachable.induct) (use sessions_ok_start sessions_ok_step in blast)+

section \<open>Sessions exclude mutations\<close>

text \<open>
  C28. In every reachable state a permit for a radio is unique and excludes its sessions, its sessions run
  the configuration that is registered, and the answers are what this asks for: a session enters exactly
  when the radio is configured and no permit is out, a mutation begins exactly when moreover no session
  uses it, and a permit that is held commits.
\<close>

theorem sessions_exclude_mutations:
  assumes "sessions_reachable s"
  shows "count (permits s) i \<le> 1 \<and> (i \<in># permits s \<longrightarrow> uses_of s i = {#})
    \<and> (\<forall>config. (i, config) \<in># radio_uses s \<longrightarrow> (\<exists>radio. hm_get (registry s) i = Some radio \<and> registered_config radio = config))
    \<and> fst (acquire_enter i (registry s)) =
        (case hm_get (registry s) i of
           None \<Rightarrow> Inl (AcquireNotFound i)
         | Some radio \<Rightarrow> if i \<in># permits s then Inl (AcquireMutating i) else Inr (registered_config radio))
    \<and> fst (begin_mutation i (registry s)) =
        (if hm_get (registry s) i = None then Inl (MutationNotFound i)
         else if uses_of s i \<noteq> {#} then Inl (InUse i)
         else if i \<in># permits s then Inl (MutationInProgress i) else Inr i)
    \<and> (i \<in># permits s \<longrightarrow> fst (commit_delete i (registry s)) = Inr ()
        \<and> (\<forall>config. fst (commit_update i config (registry s)) = Inr () \<longleftrightarrow> config_id config = i))"
proof -
  have at: "radio_consistent i (hm_get (registry s) i) (uses_of s i) (count (permits s) i)"
    using sessions_ok_at [OF sessions_ok_reachable [OF assms]] by blast
  have use: "(i, config) \<in># uses_of s i" if "(i, config) \<in># radio_uses s" for config
    using that by (simp add: uses_of_def)
  show ?thesis
  proof (cases "hm_get (registry s) i")
    case None
    with at have "uses_of s i = {#}" "count (permits s) i = 0" by (auto simp: radio_consistent_def)
    moreover from this have "i \<notin># permits s" by (simp add: not_in_iff)
    ultimately show ?thesis using None use by (auto simp: acquire_enter_def begin_mutation_def)
  next
    case (Some radio)
    with at have "i \<in># permits s \<longleftrightarrow> mutation_reserved radio" "radio_users radio = size (uses_of s i)"
      by (auto simp: radio_consistent_def simp flip: count_greater_zero_iff split: if_splits)
    moreover have "registered_config radio = config" if "(i, config) \<in># radio_uses s" for config
    proof -
      from use [OF that] at Some have "(i, config) = (i, registered_config radio)" unfolding radio_consistent_def by auto
      then show ?thesis by simp
    qed
    ultimately show ?thesis using Some at
      by (auto simp: radio_consistent_def acquire_enter_def begin_mutation_def commit_delete_def commit_update_def
          nonempty_has_size)
  qed
qed

text \<open>A session uses radio 7, and a change of radio 8 is under way.\<close>

definition sample_radio :: "int \<Rightarrow> radio_config" where
  "sample_radio i = \<lparr>config_id = i, settings = default_settings\<rparr>"

definition sample_sessions :: sessions where
  "sample_sessions = \<lparr>registry = [(7, (idle_radio (sample_radio 7))\<lparr>radio_users := 1\<rparr>), (8, (idle_radio (sample_radio 8))\<lparr>mutation_reserved := True\<rparr>)],
     radio_uses = {#(7, sample_radio 7)#}, permits = {#8#}\<rparr>"

lemma sample_sessions_reachable: "sessions_reachable sample_sessions"
proof -
  let ?a = "\<lparr>registry = new_registry [sample_radio 7, sample_radio 8], radio_uses = {#}, permits = {#}\<rparr>"
  let ?r = "snd (acquire_enter 7 (registry ?a))"
  let ?b = "?a\<lparr>registry := ?r, radio_uses := add_mset (7, sample_radio 7) {#}\<rparr>"
  have "acquire_enter 7 (registry ?a) = (Inr (sample_radio 7), ?r)"
    by (simp add: new_registry_def acquire_enter_def hm_defs sample_radio_def idle_radio_def)
  then have "session_step ?a ?b" using session_step.entered [of 7 ?a "sample_radio 7" ?r] by simp
  then have b: "sessions_reachable ?b" using sessions_reachable.step [OF sessions_reachable.start] by blast
  have "begin_mutation 8 (registry ?b) = (Inr 8, registry sample_sessions)"
    by (simp add: new_registry_def acquire_enter_def begin_mutation_def sample_sessions_def hm_defs sample_radio_def idle_radio_def)
  then have "session_step ?b (?b\<lparr>registry := registry sample_sessions, permits := add_mset 8 (permits ?b)\<rparr>)"
    by (rule session_step.begun)
  moreover have "?b\<lparr>registry := registry sample_sessions, permits := add_mset 8 (permits ?b)\<rparr> = sample_sessions"
    by (simp add: sample_sessions_def)
  ultimately show ?thesis using sessions_reachable.step [OF b] by simp
qed

theorem sessions_exclude_mutations_witness:
  "fst (begin_mutation 7 (registry sample_sessions)) = Inl (InUse 7)
     \<and> fst (acquire_enter 8 (registry sample_sessions)) = Inl (AcquireMutating 8)
     \<and> fst (commit_delete 8 (registry sample_sessions)) = Inr ()"
  using sessions_exclude_mutations [OF sample_sessions_reachable, of 7]
    sessions_exclude_mutations [OF sample_sessions_reachable, of 8]
  by (simp add: sample_sessions_def hm_defs uses_of_def)

end
