(* ===== verification/Spec2Isabelle.thy ===== *)
theory Spec2Isabelle
  imports QsoTime Callsign Bands Dxcc IncrementalSpec DbWorkerSpec Processors ClientRadios Auth AdifSpec CabrilloSpec PresetSpec CommitSpec DebugLog MessagesSpec LifecycleSpec RadioSessions
begin

text \<open>
  log73 is a contest logger for amateur radio. A backend process (\<open>backend/src\<close>) keeps logs of
  contacts in SQLite, validates and scores what clients upload, serves them over HTTP and a
  websocket, and shows spots on a band map; radio processes (\<open>radio-io/src\<close>) control transceivers.
  The theories model the backend's own logic, one theory or more for each of its modules, and the
  modules of \<open>radio-io\<close> that are not drivers. A \<open>struct\<close> is a record, an \<open>enum\<close> a datatype, a \<open>Result\<close> a sum, a
  \<open>BTreeMap\<close> an ascending association list, a \<open>HashMap\<close> an association list whose order nothing
  depends on, an \<open>i64\<close> an integer with its range written out where the code checks it or may leave it:
  sums, products and counts of scores wrap as in the release profile (\<open>wrap_i64\<close>, \<open>sum_i64\<close>, \<open>product_i64\<close>), a
  \<open>checked_add\<close> that is expected to succeed is an option whose \<open>None\<close> is the panic.

  \<^bold>\<open>How the parts interact.\<close> A request is checked (\<open>Validation\<close>), stored by the database worker
  (\<open>DbWorker\<close>), which publishes a snapshot, and folded into the log cache (\<open>LogCache\<close>), which tells its
  processors: the incremental scores, the statistics, the partial callsigns and the band map. The
  handlers (\<open>Handlers\<close>) compose these steps and announce the results; exports read snapshots.

  \<^bold>\<open>Foundations.\<close>
  \<^item> \<open>Prelude\<close>: texts, decimals, the range of \<open>i64\<close>, hash maps, ordered maps and vectors, with the
    interfaces (locales) the components use them by. \<open>Idioms\<close>: the \<open>?\<close> operator and functions of \<open>str\<close>.
  \<^item> \<open>QsoTime\<close>, \<open>Callsign\<close>, \<open>Bands\<close>, \<open>Dxcc\<close>: \<open>qso_time.rs\<close>, \<open>callsign.rs\<close>, \<open>bands.rs\<close>, \<open>dxcc.rs\<close>. Calendar
    round trips, fixed points of callsign parts, disjoint bands, longest prefix of a callsign.
  \<^item> \<open>Contact\<close>, \<open>ContestRules\<close>: the data every other part reads (\<open>db/contact.rs\<close>, \<open>contest_rules.rs\<close>).

  \<^bold>\<open>Rules.\<close> All of \<open>contest_rules.rs\<close> from the parsed files on.
  \<^item> \<open>RulesCatalog\<close>, \<open>CatalogSpec\<close>: overlays of YAML mappings and the resolution of profiles and
    parents, against a definition of the value of a contest without caches and stacks.
  \<^item> \<open>RulesNormalize\<close>, \<open>RulesNormalizeSpec\<close>: value sets, fields, the derived table and the checks; what
    the checks mean for scoring.
  \<^item> \<open>RulesPresets\<close>, \<open>PresetSpec\<close>: presets and \<open>load_dirs\<close> as a whole; loading ends.

  \<^bold>\<open>Scoring.\<close>
  \<^item> \<open>Scoring\<close>, \<open>ScoringSpec\<close>: the scoring module and the batch scorer of \<open>scoring.rs\<close>: which contacts are
    duplicates, which multipliers count under which cap, what the score is. The theorems give the exact
    numbers and the \<open>i64\<close> they are reduced to.
  \<^item> \<open>IncrementalScore\<close>, \<open>IncrementalSpec\<close>: the tracker of the same file, simulated by the batch scorer.

  \<^bold>\<open>Storage.\<close>
  \<^item> \<open>ContactRow\<close> (\<open>db/contacts.rs\<close>, \<open>db/schema.rs\<close>): rows and their reading back. \<open>ContactCache\<close> (\<open>db/cache.rs\<close>):
    the ordered contacts with their serial numbers, refining maps and multisets. \<open>DbWorker\<close>,
    \<open>DbCoherence\<close>, \<open>DbWorkerSpec\<close> (\<open>db/worker.rs\<close>, \<open>db/logs.rs\<close>, \<open>db/serials.rs\<close>): the commands and the loading of
    the cache at a start. After any sequence of commands and restarts the published cache is the contents of
    the tables, and nothing panics before \<open>2^64 - 1\<close> commands have used up the revisions.
  \<^item> \<open>LogCache\<close>, \<open>LogCacheSpec\<close> (\<open>log_cache.rs\<close>): the derived state of loaded logs and the contract of its
    processors. \<open>Stats\<close>, \<open>SuperCheck\<close>, \<open>BandMap\<close>, \<open>BandMapSpec\<close>: \<open>stats.rs\<close>, \<open>supercheckpartial.rs\<close>,
    \<open>bandmap.rs\<close>; a store is reached through every operation of the manager, and a flag tells whether a
    synchronisation has removed a spot, which leaves its id in the queue. \<open>Processors\<close>: the processors that \<open>main.rs\<close> registers, following one log cache.

  \<^bold>\<open>The edge.\<close>
  \<^item> \<open>Validation\<close>, \<open>ValidationSpec\<close> (\<open>validation.rs\<close>): the checks, against a typing judgement.
  \<^item> \<open>Adif\<close>, \<open>AdifSpec\<close>, \<open>Cabrillo\<close>, \<open>CabrilloSpec\<close>: the exports and the import.
  \<^item> \<open>Serials\<close>, \<open>Handlers\<close>, \<open>HandlersSpec\<close>, \<open>DebugLog\<close>: the handlers of \<open>main.rs\<close> for logs, contacts and serial
    numbers, and what its debug log may show of a payload. \<open>CommitSpec\<close>: a commit of contacts from the
    request through the checks and the store to the cache with its registered processors.
  \<^item> \<open>Auth\<close> (\<open>auth.rs\<close>): authentication as a step relation of requests, verifications and changes of the
    configuration. \<open>ClientRadios\<close> (\<open>client_radios.rs\<close>): the leases of radio clients. 
  \<^bold>\<open>Radios\<close> (\<open>radio-io/src\<close>).
  \<^item> \<open>Modes\<close> (\<open>modes.rs\<close>, \<open>message_mode.rs\<close>), \<open>Messages\<close>, \<open>MessagesSpec\<close> (\<open>messages.rs\<close>, \<open>cw.rs\<close>, \<open>digital_messages.rs\<close>,
    \<open>voice_messages.rs\<close>), \<open>RadioSettings\<close> (\<open>config.rs\<close>): the settings of a radio and the texts on its function keys.
  \<^item> \<open>RadioLifecycle\<close>, \<open>LifecycleSpec\<close> (\<open>radio_manager/lifecycle.rs\<close>): the controllers shared by concurrent calls
    of \<open>acquire\<close>, \<open>release\<close> and \<open>shutdown_all\<close>, which interleave at their awaits: the counts are exact, and a
    wakeup can be lost. \<open>RadioSessions\<close> (\<open>websocket.rs\<close>): sessions and changes of a radio exclude each other.

  \<^bold>\<open>Fuel and termination.\<close> The recursion over contests and profiles takes one unit for each and two
  more, the one over value sets one for each set and two more; both are proved to be enough. The
  expansion of presets has no such bound: it is proved to end for catalogs without tags. The loop that
  loads a log takes the list of the database's answers, one for each round. The scan of an ADIF text,
  overlays and the other loops are recursive functions with a measure.

  \<^bold>\<open>Parameters.\<close> What the program does not define itself is an argument of the definitions that use
  it: the regular expressions of a contest, the parsing of decimals to \<open>f64\<close> and the distance on the globe,
  Argon2, HMAC and base64, SQLite's row ids, \<open>serde\<close>'s reading of YAML and JSON, the text of files, the clock
  and the capabilities of radios. Texts are ASCII.

  \<^bold>\<open>Not modelled.\<close> Routing, the extraction of requests, websocket sessions, metrics and the start of the
  process: they call the modelled operations and do input and output. Mutexes appear as the order of
  operations, channels as lists of messages. The connections to the DX cluster, \<open>radio-io\<close>'s control of
  transceivers, keyers, sound cards and other programs, the launcher and the radio client are drivers of
  sockets, devices and windows. A call of the radio manager is taken to run to its end: futures that are
  dropped while they wait are not modelled. The configuration records of the
  database are stored and read back as they are.
\<close>

end
